(* ===== verification/Gf_Prelude.thy ===== *)
theory Gf_Prelude
  imports Main "HOL-Library.Word"
begin

text \<open>
  The vocabulary the goldfinger theories share: the machine integer types of
  \<^verbatim>\<open>gf_types.h\<close>, the error codes of \<^verbatim>\<open>gf_error.h\<close>, the result type of
  an operation that may stop the program, and the lemmas on results, lists and words that
  the component theories use.

  An operation of the C program either returns, or calls \<^verbatim>\<open>gf_error\<close> (\<open>Exit\<close>) or \<^verbatim>\<open>exit\<close> (\<open>Halt\<close>) and
  leaves the process with an exit status, or runs into behaviour that the C standard leaves undefined
  (an access outside an array, a shift by the width of the type or more), or never returns.
  These outcomes are the values of \<open>'a res\<close>.
\<close>

unbundle bit_operations_syntax

named_theorems gf_res \<open>rewrite rules on results\<close>

subsection \<open>Machine integers\<close>

type_synonym u64 = "64 word"
type_synonym u32 = "32 word"
type_synonym u8 = "8 word"
type_synonym addr_t = "64 word"

definition NO_ADDR :: addr_t where
  "NO_ADDR = - 1"

subsection \<open>Error codes\<close>

datatype m_error =
    M_NOERROR | M_MISC | M_CODE | M_DIR | M_FILE | M_CMDFAIL | M_SECSYNTAX | M_ATTRSYNTAX
  | M_MISSINGPARAM | M_ILLEGALPARAM | M_OUTOFRANGE | M_NOTNUM | M_VACOLLIDE | M_PACOLLIDE
  | M_DIRECTIVESYNTAX | M_GENFAIL | M_ASMFAIL | M_CCFAIL | M_LINKFAIL | M_CPPFAIL | M_M4FAIL
  | M_BADCONFIG | M_EVENTERR | M_ARGERR | M_NOSEC | M_BADTSB | M_BADALIGN | M_EMPTYSECTION
  | M_TSBSYNTAX | M_APPSYNTAX | M_MEMORY | M_GOLDFINGERPARSE | M_GOLDFINGERARG | M_ELF
  | M_BADLABEL | M_GOLDFINGERMISC | M_GOLDFINGERVERSION | M_DUPLICATETAG | M_BLOCKSYNTAX

subsection \<open>Results\<close>

datatype fault = Exit m_error | Halt int | Undefined | Diverges

type_synonym 'a res = "fault + 'a"

fun res_bind :: "'a res \<Rightarrow> ('a \<Rightarrow> 'b res) \<Rightarrow> 'b res" where
  "res_bind (Inl e) f = Inl e"
| "res_bind (Inr x) f = f x"

lemma res_bind_Inr_iff [gf_res]:
  "res_bind m f = Inr y \<longleftrightarrow> (\<exists>x. m = Inr x \<and> f x = Inr y)"
  by (cases m) auto

lemma res_bind_Inl_iff:
  "res_bind m f = Inl e \<longleftrightarrow> m = Inl e \<or> (\<exists>x. m = Inr x \<and> f x = Inl e)"
  by (cases m) auto

lemma res_bind_assoc:
  "res_bind (res_bind m f) g = res_bind m (\<lambda>x. res_bind (f x) g)"
  by (cases m) auto

lemma res_bind_ret [simp]: "res_bind m Inr = m"
  by (cases m) auto

lemma res_bind_cong:
  "m = m' \<Longrightarrow> (\<And>x. m' = Inr x \<Longrightarrow> f x = g x) \<Longrightarrow> res_bind m f = res_bind m' g"
  by (cases m') auto

lemma res_bindE:
  assumes "res_bind m f = Inr y"
  obtains x where "m = Inr x" "f x = Inr y"
  using assms by (cases m) auto

lemma if_Inl_eq_Inr [gf_res]:
  "(if c then Inl e else m) = Inr y \<longleftrightarrow> \<not> c \<and> m = Inr y"
  by auto

text \<open>
  A loop over the elements of a list that threads a state and stops at the first fault:
  the shape of every \<^verbatim>\<open>iterate_vector\<close> call of the program.
\<close>

fun res_fold :: "('a \<Rightarrow> 's \<Rightarrow> 's res) \<Rightarrow> 'a list \<Rightarrow> 's \<Rightarrow> 's res" where
  "res_fold f [] s = Inr s"
| "res_fold f (x # xs) s = res_bind (f x s) (res_fold f xs)"

lemma res_fold_append:
  "res_fold f (xs @ ys) s = res_bind (res_fold f xs s) (res_fold f ys)"
  by (induction xs arbitrary: s) (simp_all add: res_bind_assoc fun_eq_iff cong: res_bind_cong)

lemma res_fold_invariant:
  assumes "res_fold f xs s = Inr s'" and "I s"
    and "\<And>x s s'. x \<in> set xs \<Longrightarrow> I s \<Longrightarrow> f x s = Inr s' \<Longrightarrow> I s'"
  shows "I s'"
  using assms
proof (induction xs arbitrary: s)
  case Nil
  then show ?case by simp
next
  case (Cons x xs)
  from Cons.prems(1) obtain t where "f x s = Inr t" "res_fold f xs t = Inr s'"
    by (auto simp: gf_res)
  with Cons show ?case by (metis list.set_intros)
qed

text \<open>A loop whose steps each append to lists that are indexed by two numbers.\<close>

lemma res_fold_appends:
  assumes "res_fold f xs s = Inr s'" and "I s"
    and "\<And>x s s'. x \<in> set xs \<Longrightarrow> f x s = Inr s' \<Longrightarrow> I s \<Longrightarrow>
      I s' \<and> (\<forall>q j. B s' q j = B s q j @ c q j x)"
  shows "I s' \<and> (\<forall>q j. B s' q j = B s q j @ concat (map (c q j) xs))"
  using assms
proof (induction xs arbitrary: s)
  case Nil
  then show ?case by simp
next
  case (Cons x xs)
  from Cons.prems(1) obtain t where 1: "f x s = Inr t" and r: "res_fold f xs t = Inr s'"
    by (auto simp: gf_res)
  have t: "I t" "\<forall>q j. B t q j = B s q j @ c q j x"
    using Cons.prems(3) [OF _ 1 Cons.prems(2)] by simp_all
  have "I s' \<and> (\<forall>q j. B s' q j = B t q j @ concat (map (c q j) xs))"
    by (rule Cons.IH [OF r t(1)]) (rule Cons.prems(3); simp)
  with t(2) show ?case by simp
qed

subsection \<open>Lists\<close>

lemma nth_append_update:
  "i < length xs \<Longrightarrow> ((xs @ [y])[i := z]) = xs[i := z] @ [y]"
  by (simp add: list_update_append)

lemma map_nth_upt: "map (\<lambda>i. xs ! i) [0..<length xs] = xs"
  by (rule map_nth)

lemma find_Some_set: "List.find P xs = Some x \<Longrightarrow> x \<in> set xs \<and> P x"
  by (induction xs) (auto split: if_splits)

lemma find_append:
  "List.find P (xs @ ys) = (case List.find P xs of None \<Rightarrow> List.find P ys | Some x \<Rightarrow> Some x)"
  by (induction xs) auto

subsection \<open>Words\<close>

lemma unat_of_nat64: "n < 2 ^ 64 \<Longrightarrow> unat (of_nat n :: u64) = n"
  unfolding unat_of_nat by (rule mod_less) simp

lemma word_offset_div:
  fixes a :: addr_t
  assumes "32 * n < 2 ^ 64"
  shows "unat ((a + of_nat (32 * n) - a) div 32) = n"
  using unat_of_nat64 [OF assms] by (simp add: unat_div)

lemma unat_drop_bit64: "unat (drop_bit k (x :: u64)) = unat x div 2 ^ k"
  unfolding unat_drop_bit_eq by (rule drop_bit_eq_div)

lemma unat_pow2:
  assumes "k < 64"
  shows "unat (2 ^ k :: u64) = 2 ^ k"
proof -
  have "(2::nat) ^ k < 2 ^ 64" using assms by (intro power_strict_increasing) auto
  then show ?thesis using unat_of_nat [of "2 ^ k", where ?'a = 64] by (simp add: take_bit_eq_mod)
qed

lemma pow2_nonzero: "k < 64 \<Longrightarrow> (2 ^ k :: u64) \<noteq> 0"
  by (metis power_not_zero unat_0 unat_pow2 zero_neq_numeral)

lemma unat_gt_1: "(x :: u64) > 1 \<longleftrightarrow> 1 < unat x"
  by (simp add: word_less_nat_alt)

lemma u64_gt_0: "(x :: u64) \<noteq> 0 \<longleftrightarrow> 0 < unat x"
  by (simp add: Word.unat_gt_0)

lemma unat_less_64: "unat (x :: u64) < 2 ^ 64"
  by (rule order_less_le_trans [OF unsigned_less]) simp

lemma bit_push_mask:
  "bit (push_bit l (mask n) :: u64) i \<longleftrightarrow> l \<le> i \<and> i < l + n \<and> i < 64"
  by (auto simp: bit_push_bit_iff bit_mask_iff)

lemma word_and_mask_zero_iff:
  fixes x :: u64
  assumes "k < 64"
  shows "x AND mask k = 0 \<longleftrightarrow> 2 ^ k dvd unat x"
proof -
  have "x AND mask k = take_bit k x" by (simp add: take_bit_eq_mask)
  moreover have "unat (take_bit k x) = unat x mod 2 ^ k"
    by (metis take_bit_eq_mod unsigned_take_bit_eq)
  ultimately show ?thesis
    by (metis dvd_eq_mod_eq_0 unat_eq_zero)
qed

lemma word_and_mask_id:
  fixes x :: u64
  assumes "unat x < 2 ^ k"
  shows "x AND mask k = x"
proof -
  have "unat (take_bit k x) = unat x mod 2 ^ k"
    by (metis take_bit_eq_mod unsigned_take_bit_eq)
  also have "\<dots> = unat x" using assms by simp
  finally show ?thesis by (simp add: take_bit_eq_mask [symmetric] word_unat_eq_iff)
qed

end
