(* ===== verification/Gf_Error.thy ===== *)
theory Gf_Error
  imports Gf_Prelude
begin

text \<open>
  The utilities of \<^verbatim>\<open>gf_error.c\<close> and the bit-range macros of \<^verbatim>\<open>gf_types.h\<close>:
  exit codes and their messages, the verbosity level, the size of a physical address,
  binary logarithm, power-of-two and alignment tests, masks of bit ranges.
\<close>

subsection \<open>Exit codes and messages\<close>

definition error_codes :: "m_error list" where
  "error_codes =
    [M_NOERROR, M_MISC, M_CODE, M_DIR, M_FILE, M_CMDFAIL, M_SECSYNTAX, M_ATTRSYNTAX,
     M_MISSINGPARAM, M_ILLEGALPARAM, M_OUTOFRANGE, M_NOTNUM, M_VACOLLIDE, M_PACOLLIDE,
     M_DIRECTIVESYNTAX, M_GENFAIL, M_ASMFAIL, M_CCFAIL, M_LINKFAIL, M_CPPFAIL, M_M4FAIL,
     M_BADCONFIG, M_EVENTERR, M_ARGERR, M_NOSEC, M_BADTSB, M_BADALIGN, M_EMPTYSECTION,
     M_TSBSYNTAX, M_APPSYNTAX, M_MEMORY, M_GOLDFINGERPARSE, M_GOLDFINGERARG, M_ELF,
     M_BADLABEL, M_GOLDFINGERMISC, M_GOLDFINGERVERSION, M_DUPLICATETAG, M_BLOCKSYNTAX]"

primrec exit_code :: "m_error \<Rightarrow> nat" where
  "exit_code M_NOERROR = 0" | "exit_code M_MISC = 1" | "exit_code M_CODE = 2"
| "exit_code M_DIR = 3" | "exit_code M_FILE = 4" | "exit_code M_CMDFAIL = 5"
| "exit_code M_SECSYNTAX = 6" | "exit_code M_ATTRSYNTAX = 7"
| "exit_code M_MISSINGPARAM = 8" | "exit_code M_ILLEGALPARAM = 9"
| "exit_code M_OUTOFRANGE = 10" | "exit_code M_NOTNUM = 11"
| "exit_code M_VACOLLIDE = 12" | "exit_code M_PACOLLIDE = 13"
| "exit_code M_DIRECTIVESYNTAX = 14" | "exit_code M_GENFAIL = 15"
| "exit_code M_ASMFAIL = 16" | "exit_code M_CCFAIL = 17" | "exit_code M_LINKFAIL = 18"
| "exit_code M_CPPFAIL = 19" | "exit_code M_M4FAIL = 20" | "exit_code M_BADCONFIG = 21"
| "exit_code M_EVENTERR = 22" | "exit_code M_ARGERR = 23" | "exit_code M_NOSEC = 24"
| "exit_code M_BADTSB = 25" | "exit_code M_BADALIGN = 26" | "exit_code M_EMPTYSECTION = 27"
| "exit_code M_TSBSYNTAX = 28" | "exit_code M_APPSYNTAX = 29" | "exit_code M_MEMORY = 30"
| "exit_code M_GOLDFINGERPARSE = 31" | "exit_code M_GOLDFINGERARG = 32"
| "exit_code M_ELF = 33" | "exit_code M_BADLABEL = 34" | "exit_code M_GOLDFINGERMISC = 35"
| "exit_code M_GOLDFINGERVERSION = 36" | "exit_code M_DUPLICATETAG = 37"
| "exit_code M_BLOCKSYNTAX = 38"

definition SENTINEL_ERROR :: nat where
  "SENTINEL_ERROR = 39"

definition Errstrings :: "string list" where
  "Errstrings =
    [''M_NOERROR: No error'', ''M_MISC: Miscellaneous error'',
     ''M_CODE: Error in midas code'', ''M_DIR: Directory error'', ''M_FILE: File error'',
     ''M_CMDFAIL: Command failed'', ''M_SECSYNTAX: Error in section syntax'',
     ''M_ATTRSYNTAX: Error in attr syntax'', ''M_MISSINGPARAM: Missing parameter'',
     ''M_ILLEGALPARAM: Illegal parameter'', ''M_OUTOFRANGE: Out of range'',
     ''M_NOTNUM: Not a number'', ''M_VACOLLIDE: VA collision'',
     ''M_PACOLLIDE: PA collision'', ''M_DIRECTIVESYNTAX: Directive syntax error'',
     ''M_GENFAIL: File generation failed'', ''M_ASMFAIL: Assembler failed'',
     ''M_CCFAIL: C compiler failed'', ''M_LINKFAIL: Linker failed'',
     ''M_CPPFAIL: CPP failed'', ''M_M4FAIL: M4 preprocessor failed'',
     ''M_BADCONFIG: Bad configuration'', ''M_EVENTERR: Event parsing error'',
     ''M_ARGERR: Argument error'', ''M_NOSEC: Undefined section'', ''M_BADTSB: Bad TSB'',
     ''M_BADALIGN: Bad Alignment'', ''M_EMPTYSECTION: Empty section'',
     ''M_TSBSYNTAX: Error in tsb syntax'', ''M_APPSYNTAX: Error in app syntax'',
     ''M_MEMORY: Memory error'', ''M_GOLDFINGERPARSE: Goldfinger parse error'',
     ''M_GOLDFINGERARG: Goldfinger arg error'', ''M_ELF: ELF error'',
     ''M_BADLABEL: Bad label'', ''M_GOLDFINGERMISC: Uncategorized goldfinger error'',
     ''M_GOLDFINGERVERSION: Bad version of goldfinger'',
     ''M_DUPLICATETAG: Duplicate tags in TSB'',
     ''M_BLOCKSYNTAX: Error defining goldfinger BLOCK'', ''SENTINEL_ERROR'']"

definition errmsg :: "int \<Rightarrow> string" where
  "errmsg code = (if 0 \<le> code \<and> code < int SENTINEL_ERROR then Errstrings ! nat code
                  else ''<unknown>'')"

subsection \<open>Verbosity and physical address size\<close>

definition VERBOSE_SILENT :: int where "VERBOSE_SILENT = 0"

definition VERBOSE_DEBUG :: int where "VERBOSE_DEBUG = 3"

definition set_verbose_level :: "int \<Rightarrow> int" where
  "set_verbose_level level =
    (if level < VERBOSE_SILENT then VERBOSE_SILENT
     else if level > VERBOSE_DEBUG then VERBOSE_DEBUG else level)"

text \<open>The new value of \<^verbatim>\<open>Pa_size\<close>; its initial value is 40.\<close>

definition Pa_size_default :: int where
  "Pa_size_default = 40"

definition set_pa_size :: "int \<Rightarrow> int res" where
  "set_pa_size sz = (if sz \<le> 0 \<or> sz > 64 then Inl (Exit M_GOLDFINGERPARSE) else Inr sz)"

text \<open>
  \<^verbatim>\<open>(1ULL << get_pa_size()) - 1\<close>, the mask every physical address is cut with. The shift
  is undefined when the size is 64.
\<close>

definition pa_mask :: "int \<Rightarrow> addr_t res" where
  "pa_mask sz = (if 0 \<le> sz \<and> sz < 64 then Inr (push_bit (nat sz) 1 - 1)
                 else Inl Undefined)"

subsection \<open>Powers of two and alignment\<close>

function log2_loop :: "u64 \<Rightarrow> u64 \<Rightarrow> u64" where
  "log2_loop num lg = (if num > 1 then log2_loop (drop_bit 1 num) (lg + 1) else lg)"
  by pat_completeness auto

termination
proof (relation "measure (\<lambda>(num, lg). unat num)")
  fix num lg :: u64
  assume "num > 1"
  then show "((drop_bit 1 num, lg + 1), (num, lg)) \<in> measure (\<lambda>(num, lg). unat num)"
    by (simp only: unat_gt_1 unat_drop_bit64 in_measure prod.case) simp
qed simp

declare log2_loop.simps [simp del]

definition log2 :: "u64 \<Rightarrow> u64" where
  "log2 num = (if num < 2 then 0 else log2_loop num 0)"

text \<open>
  \<^verbatim>\<open>test = 1 << log\<close> shifts an \<^verbatim>\<open>int\<close>: from \<^verbatim>\<open>log\<close> 31 on the result does not
  fit and the shift is undefined.
\<close>

definition is_pow2 :: "u64 \<Rightarrow> bool res" where
  "is_pow2 num =
    (let lg = log2 num
     in if lg \<ge> 31 then Inl Undefined else Inr (push_bit (unat lg) 1 = num))"

definition is_aligned :: "u64 \<Rightarrow> u64 \<Rightarrow> bool res" where
  "is_aligned num alignment =
    res_bind (is_pow2 alignment) (\<lambda>p.
      if \<not> p then Inl (Exit M_CODE) else Inr (num AND (alignment - 1) = 0))"

subsection \<open>Bit ranges\<close>

record bit_range =
  hi :: int
  lo :: int

definition bit_range_to_shifted_mask_64 :: "bit_range \<Rightarrow> u64 res" where
  "bit_range_to_shifted_mask_64 r =
    (let n = hi r - lo r + 1
     in if 0 \<le> n \<and> n < 64 then Inr (push_bit (nat n) 1 - 1) else Inl Undefined)"

definition bit_range_to_mask_64 :: "bit_range \<Rightarrow> u64 res" where
  "bit_range_to_mask_64 r =
    res_bind (bit_range_to_shifted_mask_64 r) (\<lambda>m.
      if 0 \<le> lo r \<and> lo r < 64 then Inr (push_bit (nat (lo r)) m) else Inl Undefined)"

subsection \<open>Lemmas\<close>

lemma errmsg_exit_code: "errmsg (int (exit_code e)) = Errstrings ! exit_code e"
  by (cases e) (simp_all add: errmsg_def SENTINEL_ERROR_def)

lemma error_codes_nth: "error_codes ! exit_code e = e"
  by (cases e) (simp_all add: error_codes_def)

lemma log2_loop_spec:
  assumes "num \<noteq> 0" and "unat num < 2 ^ n" and "n \<le> 64" and "unat lg + n < 2 ^ 64"
  shows "\<exists>k < n. unat (log2_loop num lg) = unat lg + k \<and>
    2 ^ k \<le> unat num \<and> unat num < 2 ^ (k + 1)"
  using assms
proof (induction num lg arbitrary: n rule: log2_loop.induct)
  case (1 num lg)
  show ?case
  proof (cases "1 < unat num")
    case False
    then have "num = 1" using 1(2) by (simp add: u64_gt_0 word_unat_eq_iff)
    with 1(3) show ?thesis by (cases n) (auto simp: log2_loop.simps [of 1])
  next
    case True
    then obtain m where n: "n = Suc m" using 1(3) by (cases n) auto
    have half: "unat (drop_bit 1 num) = unat num div 2"
      using unat_drop_bit64 [of 1 num] by simp
    have nz: "drop_bit 1 num \<noteq> 0"
      using half True by (auto simp only: u64_gt_0)
    have lg1: "unat (lg + 1) = unat lg + 1"
      using 1(5) n by (simp add: unat_word_ariths)
    have "\<exists>k < m. unat (log2_loop (drop_bit 1 num) (lg + 1)) = unat (lg + 1) + k \<and>
      2 ^ k \<le> unat (drop_bit 1 num) \<and> unat (drop_bit 1 num) < 2 ^ (k + 1)"
      using 1(1) [OF _ nz, of m] True 1(3,4,5) n half lg1 by (simp only: unat_gt_1) simp
    then obtain k where "k < m" "unat (log2_loop (drop_bit 1 num) (lg + 1)) = unat lg + 1 + k"
      "2 ^ k \<le> unat num div 2" "unat num div 2 < 2 ^ (k + 1)"
      unfolding half lg1 by blast
    with True n show ?thesis
      by (intro exI [of _ "Suc k"]) (auto simp: log2_loop.simps [of num] unat_gt_1)
  qed
qed

lemma log2_bounds:
  assumes "num \<noteq> 0"
  shows "2 ^ unat (log2 num) \<le> unat num \<and> unat num < 2 ^ (unat (log2 num) + 1) \<and>
    unat (log2 num) < 64"
proof (cases "num < 2")
  case True
  then have "unat num = 1" using assms by (simp add: word_less_nat_alt u64_gt_0)
  then show ?thesis using True by (simp add: log2_def)
next
  case False
  then show ?thesis
    using log2_loop_spec [OF assms unat_less_64 _ , of 0] by (auto simp: log2_def)
qed

lemma log2_pow2:
  assumes "k < 64"
  shows "unat (log2 (2 ^ k)) = k"
proof -
  from log2_bounds [OF pow2_nonzero [OF assms]]
  have "2 ^ unat (log2 (2 ^ k)) \<le> (2::nat) ^ k" "(2::nat) ^ k < 2 ^ (unat (log2 (2 ^ k)) + 1)"
    by (simp_all only: unat_pow2 [OF assms])
  then have "unat (log2 (2 ^ k)) \<le> k" "k < unat (log2 (2 ^ k)) + 1"
    by (meson one_less_numeral_iff power_le_imp_le_exp semiring_norm(76) power_less_imp_less_exp)+
  then show ?thesis by simp
qed

lemma push_bit_one: "push_bit k (1 :: u64) = 2 ^ k"
  by (simp add: push_bit_eq_mult)

lemma is_pow2_power:
  "k < 31 \<Longrightarrow> is_pow2 (2 ^ k) = Inr True"
  using log2_pow2 [of k]
  by (simp add: is_pow2_def Let_def word_le_nat_alt push_bit_one)

lemma is_pow2_TrueD:
  assumes "is_pow2 p = Inr True"
  shows "\<exists>k < 31. p = 2 ^ k"
  using assms
  by (intro exI [of _ "unat (log2 p)"])
    (auto simp: is_pow2_def Let_def word_le_nat_alt push_bit_one not_le split: if_splits)

lemma shifted_mask_eq:
  "0 \<le> hi r - lo r + 1 \<Longrightarrow> hi r - lo r + 1 < 64 \<Longrightarrow>
   bit_range_to_shifted_mask_64 r = Inr (mask (nat (hi r - lo r + 1)))"
  by (simp add: bit_range_to_shifted_mask_64_def Let_def push_bit_one mask_eq_exp_minus_1)

lemma shifted_mask_InrD:
  "bit_range_to_shifted_mask_64 r = Inr m \<Longrightarrow>
   0 \<le> hi r - lo r + 1 \<and> hi r - lo r + 1 < 64 \<and> m = mask (nat (hi r - lo r + 1))"
  by (auto simp: bit_range_to_shifted_mask_64_def Let_def push_bit_one mask_eq_exp_minus_1
      split: if_splits)

lemma mask_64_InrD:
  assumes "bit_range_to_mask_64 r = Inr m"
  shows "0 \<le> lo r \<and> lo r < 64 \<and> 0 \<le> hi r - lo r + 1 \<and>
    m = push_bit (nat (lo r)) (mask (nat (hi r - lo r + 1)))"
  using assms
  by (auto simp: bit_range_to_mask_64_def gf_res dest!: shifted_mask_InrD split: if_splits)

text \<open>The bits of a mask are those of the range.\<close>

lemma bit_mask_64:
  assumes "bit_range_to_mask_64 r = Inr m"
  shows "bit m i \<longleftrightarrow> lo r \<le> int i \<and> int i \<le> hi r \<and> i < 64"
  using mask_64_InrD [OF assms] by (auto simp: bit_push_mask)

end
