(* ===== verification/Gf_Vector.thy ===== *)
theory Gf_Vector
  imports Gf_Error
begin

text \<open>
  The growable array of \<^verbatim>\<open>vector.c\<close>. Every vector of the program holds pointers to
  objects that its init function allocates one by one; an object is never moved or freed
  while the vector lives, and elements are only added at the end. An object is therefore
  modelled as a value in its cell, and a pointer to it as the index of the cell. The
  elements beyond the logical length are allocated but not initialised and have no cell
  here: reading them is undefined, like reading outside the array.
\<close>

record 'a vector =
  elements :: "'a list"      \<comment> \<open>the first \<^verbatim>\<open>len\<close> cells\<close>
  alloc_len :: nat
  init_elem :: 'a            \<comment> \<open>the object the init function builds\<close>
  vector_name :: string

definition VECTOR_LEN :: "'a vector \<Rightarrow> nat" where
  "VECTOR_LEN v = length (elements v)"

definition DEFAULT_ALLOC_LEN :: nat where
  "DEFAULT_ALLOC_LEN = 40"

definition init_vector :: "string option \<Rightarrow> 'a \<Rightarrow> 'a vector" where
  "init_vector nm ini =
    \<lparr>elements = [], alloc_len = DEFAULT_ALLOC_LEN, init_elem = ini,
     vector_name = (case nm of None \<Rightarrow> ''<unnamed>'' | Some s \<Rightarrow> s)\<rparr>"

definition deallocate_vector :: "('a \<Rightarrow> unit res) \<Rightarrow> 'a vector \<Rightarrow> 'a vector res" where
  "deallocate_vector destroy v =
    res_bind (res_fold (\<lambda>x _. destroy x) (elements v) ())
      (\<lambda>_. Inr (v\<lparr>elements := [], alloc_len := 0, vector_name := []\<rparr>))"

definition grow_vector :: "'a vector \<Rightarrow> nat \<Rightarrow> 'a vector" where
  "grow_vector v by_n = v\<lparr>alloc_len := alloc_len v + by_n\<rparr>"

definition preallocate_vector :: "'a vector \<Rightarrow> int \<Rightarrow> 'a vector" where
  "preallocate_vector v n =
    (let by_n = n - int (alloc_len v) in if by_n > 0 then grow_vector v (nat by_n) else v)"

definition add_vector_elements :: "'a vector \<Rightarrow> nat \<Rightarrow> 'a vector \<times> nat" where
  "add_vector_elements v num =
    (let shortage = int (VECTOR_LEN v) + int num - int (alloc_len v);
         v1 = (if shortage > 0
               then grow_vector v ((VECTOR_LEN v + num + nat shortage) * 2) else v)
     in (v1\<lparr>elements := elements v1 @ replicate num (init_elem v1)\<rparr>, VECTOR_LEN v))"

fun iter_cells :: "('a \<Rightarrow> 's \<Rightarrow> ('a \<times> 's) res) \<Rightarrow> 'a list \<Rightarrow> 's \<Rightarrow> ('a list \<times> 's) res" where
  "iter_cells f [] s = Inr ([], s)"
| "iter_cells f (x # xs) s =
    res_bind (f x s) (\<lambda>(x', s').
      res_bind (iter_cells f xs s') (\<lambda>(xs', s''). Inr (x' # xs', s'')))"

text \<open>The function called on an element may write to it and to the state it is given.\<close>

definition iterate_vector ::
  "'a vector \<Rightarrow> ('a \<Rightarrow> 's \<Rightarrow> ('a \<times> 's) res) \<Rightarrow> 's \<Rightarrow> ('a vector \<times> 's) res" where
  "iterate_vector v f s =
    res_bind (iter_cells f (elements v) s) (\<lambda>(xs, s'). Inr (v\<lparr>elements := xs\<rparr>, s'))"

text \<open>The same loop when the function only reads its element.\<close>

definition visit_vector :: "'a vector \<Rightarrow> ('a \<Rightarrow> 's \<Rightarrow> 's res) \<Rightarrow> 's \<Rightarrow> 's res" where
  "visit_vector v f s = res_fold f (elements v) s"

text \<open>
  \<^verbatim>\<open>iterate_vector2\<close> runs over the length of the first vector and reads the second one
  at the same index, which may lie outside of it.
\<close>

fun iter_cells2 :: "('a \<Rightarrow> 'b \<Rightarrow> 's \<Rightarrow> 's res) \<Rightarrow> 'a list \<Rightarrow> 'b list \<Rightarrow> 's \<Rightarrow> 's res" where
  "iter_cells2 f [] ys s = Inr s"
| "iter_cells2 f (x # xs) [] s = Inl Undefined"
| "iter_cells2 f (x # xs) (y # ys) s = res_bind (f x y s) (iter_cells2 f xs ys)"

definition iterate_vector2 ::
  "'a vector \<Rightarrow> 'b vector \<Rightarrow> ('a \<Rightarrow> 'b \<Rightarrow> 's \<Rightarrow> 's res) \<Rightarrow> 's \<Rightarrow> 's res" where
  "iterate_vector2 v1 v2 f s = iter_cells2 f (elements v1) (elements v2) s"

fun search_cells :: "('a \<Rightarrow> bool) \<Rightarrow> 'a list \<Rightarrow> nat \<Rightarrow> nat option" where
  "search_cells p [] i = None"
| "search_cells p (x # xs) i = (if p x then Some i else search_cells p xs (Suc i))"

definition search_vector :: "'a vector \<Rightarrow> ('a \<Rightarrow> bool) \<Rightarrow> nat option" where
  "search_vector v p = search_cells p (elements v) 0"

definition vector_elem_void_ptr_range_check :: "'a vector \<Rightarrow> int \<Rightarrow> 'a res" where
  "vector_elem_void_ptr_range_check v i =
    (if i < 0 then Inl (Exit M_CODE)
     else if i \<ge> int (VECTOR_LEN v) then Inl (Exit M_CODE)
     else Inr (elements v ! nat i))"

text \<open>
  \<^verbatim>\<open>VECTOR_ELEM\<close> as it is compiled, without \<^verbatim>\<open>RANGE_CHECK\<close>: to read, and to write
  through the pointer it yields.
\<close>

definition vector_elem :: "'a vector \<Rightarrow> int \<Rightarrow> 'a res" where
  "vector_elem v i =
    (if 0 \<le> i \<and> i < int (VECTOR_LEN v) then Inr (elements v ! nat i) else Inl Undefined)"

definition vector_modify :: "'a vector \<Rightarrow> int \<Rightarrow> ('a \<Rightarrow> 'a) \<Rightarrow> 'a vector res" where
  "vector_modify v i f =
    (if 0 \<le> i \<and> i < int (VECTOR_LEN v)
     then Inr (v\<lparr>elements := (elements v)[nat i := f (elements v ! nat i)]\<rparr>)
     else Inl Undefined)"

subsection \<open>Lemmas\<close>

lemma elements_init_vector [simp]: "elements (init_vector nm ini) = []"
  "init_elem (init_vector nm ini) = ini"
  by (simp_all add: init_vector_def)

lemma add_vector_elements_1:
  assumes "add_vector_elements v 1 = (v', i)"
  shows "i = length (elements v)" and "elements v' = elements v @ [init_elem v]"
    and "init_elem v' = init_elem v" and "vector_name v' = vector_name v"
  using assms
  by (auto simp: add_vector_elements_def VECTOR_LEN_def grow_vector_def Let_def split: if_splits)

lemma elements_add_vector_elements:
  "elements (fst (add_vector_elements v n)) = elements v @ replicate n (init_elem v)"
  "init_elem (fst (add_vector_elements v n)) = init_elem v"
  "snd (add_vector_elements v n) = length (elements v)"
  by (auto simp: add_vector_elements_def VECTOR_LEN_def grow_vector_def Let_def)

lemma vector_modify_InrD:
  "vector_modify v i f = Inr v' \<Longrightarrow> 0 \<le> i \<and> nat i < length (elements v) \<and>
    elements v' = (elements v)[nat i := f (elements v ! nat i)] \<and> init_elem v' = init_elem v"
  by (auto simp: vector_modify_def VECTOR_LEN_def split: if_splits)

lemma vector_modify_total: "i < length (elements v) \<Longrightarrow> \<exists>v'. vector_modify v (int i) f = Inr v'"
  by (simp add: vector_modify_def VECTOR_LEN_def)

lemma search_cells_shift:
  "search_cells p xs i = map_option (\<lambda>k. k + i) (search_cells p xs 0)"
proof (induction xs arbitrary: i)
  case Nil
  then show ?case by simp
next
  case (Cons x xs)
  show ?case using Cons.IH [of "Suc i"] Cons.IH [of "Suc 0"]
    by (cases "search_cells p xs 0") auto
qed

lemma search_cells_None_iff: "search_cells p xs i = None \<longleftrightarrow> (\<forall>x \<in> set xs. \<not> p x)"
  by (induction xs arbitrary: i) auto

lemma search_cells_Some_iff:
  "search_cells p xs 0 = Some k \<longleftrightarrow> k < length xs \<and> p (xs ! k) \<and> (\<forall>j < k. \<not> p (xs ! j))"
proof (induction xs arbitrary: k)
  case Nil
  then show ?case by simp
next
  case (Cons x xs)
  show ?case
    using Cons.IH [of "k - 1"] search_cells_shift [of p xs "Suc 0"]
    by (cases k) (auto simp: All_less_Suc2)
qed

text \<open>An iteration whose body never faults and does not touch the state is a map.\<close>

lemma iter_cells_pure:
  "(\<And>x. x \<in> set xs \<Longrightarrow> f x s = Inr (g x, s)) \<Longrightarrow> iter_cells f xs s = Inr (map g xs, s)"
  by (induction xs) auto

lemma iter_cells_length: "iter_cells f xs s = Inr (ys, s') \<Longrightarrow> length ys = length xs"
proof (induction xs arbitrary: ys s)
  case (Cons x xs)
  then show ?case by (auto simp: gf_res split: prod.splits)
qed simp

text \<open>An iteration that only reads its elements is a fold.\<close>

lemma iter_cells_read:
  "iter_cells (\<lambda>x s. res_bind (f x s) (\<lambda>s'. Inr (x, s'))) xs s =
   res_bind (res_fold f xs s) (\<lambda>s'. Inr (xs, s'))"
proof (induction xs arbitrary: s)
  case (Cons x xs)
  then show ?case by (cases "f x s"; simp; cases "res_fold f xs s"; simp add: res_bind_assoc)
qed simp

lemma iterate_vector_visit:
  "iterate_vector v (\<lambda>x s. res_bind (f x s) (\<lambda>s'. Inr (x, s'))) s =
   res_bind (visit_vector v f s) (\<lambda>s'. Inr (v, s'))"
  by (simp add: iterate_vector_def visit_vector_def iter_cells_read res_bind_assoc)

subsection \<open>The interface of a vector\<close>

text \<open>
  What the clients rely on: one element can be added at the end, the cells written
  through a pointer, and the first cell with a property found.
\<close>

locale cell_store =
  fixes add1 :: "'v \<Rightarrow> 'v \<times> nat"
    and cells :: "'v \<Rightarrow> 'a list"
    and fresh :: "'v \<Rightarrow> 'a"
    and modify :: "'v \<Rightarrow> int \<Rightarrow> ('a \<Rightarrow> 'a) \<Rightarrow> 'v res"
    and seek :: "'v \<Rightarrow> ('a \<Rightarrow> bool) \<Rightarrow> nat option"
  assumes cells_add1: "cells (fst (add1 v)) = cells v @ [fresh v]"
    and index_add1: "snd (add1 v) = length (cells v)"
    and fresh_add1: "fresh (fst (add1 v)) = fresh v"
    and modify_ok: "0 \<le> i \<Longrightarrow> nat i < length (cells v) \<Longrightarrow>
      \<exists>v'. modify v i f = Inr v' \<and> cells v' = (cells v)[nat i := f (cells v ! nat i)] \<and>
        fresh v' = fresh v"
    and modify_out: "\<not> (0 \<le> i \<and> nat i < length (cells v)) \<Longrightarrow> modify v i f = Inl Undefined"
    and seek_iff: "seek v p = Some k \<longleftrightarrow>
      k < length (cells v) \<and> p (cells v ! k) \<and> (\<forall>j < k. \<not> p (cells v ! j))"
begin

lemma add_then_modify:
  "\<exists>v'. modify (fst (add1 v)) (int (snd (add1 v))) f = Inr v' \<and>
    cells v' = cells v @ [f (fresh v)] \<and> fresh v' = fresh v"
  using modify_ok [of "int (snd (add1 v))" "fst (add1 v)" f]
  by (auto simp: cells_add1 index_add1 fresh_add1)

lemma seek_None_iff: "seek v p = None \<longleftrightarrow> (\<forall>x \<in> set (cells v). \<not> p x)"
proof (cases "seek v p")
  case None
  have "\<not> p (cells v ! k)" if "k < length (cells v)" for k
    using that
  proof (induction k rule: less_induct)
    case (less k)
    then show ?case using seek_iff [of v p k] None by auto
  qed
  with None show ?thesis by (auto simp: in_set_conv_nth)
next
  case (Some k)
  then show ?thesis using seek_iff [of v p k] by auto
qed

text \<open>Adding an object that does not answer a search leaves its answer alone.\<close>

lemma seek_append_other:
  assumes "cells v' = cells v @ [x]" and "\<not> p x"
  shows "seek v' p = seek v p"
proof (cases "seek v p")
  case None
  then show ?thesis using assms seek_None_iff [of v p] seek_None_iff [of v' p] by auto
next
  case (Some k)
  then show ?thesis using assms seek_iff [of v p k] seek_iff [of v' p k]
    by (auto simp: nth_append)
qed

lemma seek_append_new:
  assumes "cells v' = cells v @ [x]" and "p x" and "seek v p = None"
  shows "seek v' p = Some (length (cells v))"
  using assms seek_None_iff [of v p] seek_iff [of v' p "length (cells v)"]
  by (auto simp: nth_append)

lemma seek_append_old:
  assumes "cells v' = cells v @ [x]" and "seek v p = Some k"
  shows "seek v' p = Some k"
  using assms seek_iff [of v p k] seek_iff [of v' p k] by (auto simp: nth_append)

end

text \<open>
  A registry is a vector of named objects that the parser opens one after the other: a
  name may be opened once, and objects are found by name.
\<close>

locale registry = cell_store add1 cells fresh modify seek
  for add1 :: "'v \<Rightarrow> 'v \<times> nat" and cells :: "'v \<Rightarrow> 'a list" and fresh :: "'v \<Rightarrow> 'a"
    and modify :: "'v \<Rightarrow> int \<Rightarrow> ('a \<Rightarrow> 'a) \<Rightarrow> 'v res"
    and seek :: "'v \<Rightarrow> ('a \<Rightarrow> bool) \<Rightarrow> nat option" +
  fixes name_of :: "'a \<Rightarrow> string"
    and label :: "string \<Rightarrow> int \<Rightarrow> 'a \<Rightarrow> 'a"
  assumes name_label: "name_of (label n l x) = n"
begin

lemma open_extends:
  assumes "modify (fst (add1 v)) (int (snd (add1 v))) (label n l) = Inr v'"
  shows "cells v' = cells v @ [label n l (fresh v)]" and "fresh v' = fresh v"
  using add_then_modify [of v "label n l"] assms by auto

lemma open_keeps_distinct:
  assumes "modify (fst (add1 v)) (int (snd (add1 v))) (label n l) = Inr v'"
    and "seek v (\<lambda>x. n = name_of x) = None"
    and "distinct (map name_of (cells v))"
  shows "distinct (map name_of (cells v'))"
  using open_extends [OF assms(1)] assms(2,3) by (auto simp: seek_None_iff name_label)

lemma open_then_find:
  assumes "modify (fst (add1 v)) (int (snd (add1 v))) (label n l) = Inr v'"
    and "seek v (\<lambda>x. n = name_of x) = None"
  shows "seek v' (\<lambda>x. n = name_of x) = Some (length (cells v))"
  using open_extends [OF assms(1)] assms(2) by (intro seek_append_new) (auto simp: name_label)

lemma open_finds_others:
  assumes "modify (fst (add1 v)) (int (snd (add1 v))) (label n l) = Inr v'" and "m \<noteq> n"
  shows "seek v' (\<lambda>x. m = name_of x) = seek v (\<lambda>x. m = name_of x)"
  using open_extends [OF assms(1)] assms(2) by (intro seek_append_other) (auto simp: name_label)

lemma open_total: "\<exists>v'. modify (fst (add1 v)) (int (snd (add1 v))) (label n l) = Inr v'"
  using add_then_modify [of v "label n l"] by auto

lemma distinct_unique:
  assumes "distinct (map name_of (cells v))" and "k < length (cells v)"
  shows "seek v (\<lambda>x. name_of (cells v ! k) = name_of x) = Some k"
  using assms
  by (auto simp: seek_iff distinct_conv_nth)

end

lemma vector_cell_store:
  "cell_store (\<lambda>v. add_vector_elements v 1) elements init_elem vector_modify search_vector"
proof (unfold_locales, goal_cases)
  case (4 i v f)
  then show ?case by (auto simp: vector_modify_def VECTOR_LEN_def nat_less_iff)
next
  case (5 i v f)
  then show ?case by (auto simp: vector_modify_def VECTOR_LEN_def nat_less_iff)
next
  case (6 v p k)
  then show ?case by (simp add: search_vector_def search_cells_Some_iff)
qed (simp_all add: elements_add_vector_elements)

interpretation vec: cell_store "\<lambda>v. add_vector_elements v 1" elements init_elem
  vector_modify search_vector
  by (rule vector_cell_store)

end
