(* ===== verification/Gf_Physmap.thy ===== *)
theory Gf_Physmap
  imports Gf_Vector
begin

text \<open>
  The map of physical memory of \<^verbatim>\<open>physmap.c\<close>: the regions \<open>[start, stop)\<close> that the
  memory image claims, each with a description for the error message. A region that
  collides with one of the map stops the program with \<^verbatim>\<open>M_PACOLLIDE\<close>.
\<close>

datatype ent_names =
    None_e
  | Block_e (section_name: string) (segment_name: string)
  | Object_e (object_type: string) (object_name: string)

record physmap_ent =
  pm_start :: addr_t
  pm_stop :: addr_t
  pm_srcfile :: string
  pm_srcline :: int
  pm_lineno :: int
  pm_names :: ent_names

type_synonym physmap = "physmap_ent vector"

definition init_physmap_entry :: physmap_ent where
  "init_physmap_entry =
    \<lparr>pm_start = 0, pm_stop = 0, pm_srcfile = ''<unknown>'', pm_srcline = 0, pm_lineno = 0,
     pm_names = None_e\<rparr>"

definition init_physmap :: physmap where
  "init_physmap = init_vector (Some ''Physmap'') init_physmap_entry"

text \<open>
  The second test of the destroy function is an assignment, \<^verbatim>\<open>type = object_e\<close>, so an
  entry that is still \<^verbatim>\<open>none_e\<close> has its never initialised names freed.
\<close>

definition destroy_physmap_entry :: "physmap_ent \<Rightarrow> unit res" where
  "destroy_physmap_entry e =
    (case pm_names e of
       Block_e _ _ \<Rightarrow> Inr ()
     | Object_e _ _ \<Rightarrow> Inr ()
     | None_e \<Rightarrow> Inl Undefined)"

definition destroy_physmap :: "physmap \<Rightarrow> physmap res" where
  "destroy_physmap pm = deallocate_vector destroy_physmap_entry pm"

definition copy_physmap_entry :: "physmap_ent \<Rightarrow> physmap_ent \<Rightarrow> physmap_ent" where
  "copy_physmap_entry src dst =
    dst\<lparr>pm_start := pm_start src, pm_stop := pm_stop src, pm_srcfile := pm_srcfile src,
        pm_srcline := pm_srcline src, pm_lineno := pm_lineno src,
        pm_names := pm_names src\<rparr>"

text \<open>
  The description of an entry in a collision message, cut to the buffer. The test
  \<^verbatim>\<open>type = object_e\<close> is an assignment here too: the last branch is never taken.
\<close>

definition STRBUF_SIZE :: nat where
  "STRBUF_SIZE = 2048"

definition get_ent_descr_string :: "physmap_ent \<Rightarrow> string res" where
  "get_ent_descr_string e =
    (case pm_names e of
       Block_e sec seg \<Rightarrow> Inr (take (STRBUF_SIZE - 1)
         (''SECTION '' @ [CHR 0x27] @ sec @ [CHR 0x27] @ '', segment '' @ [CHR 0x27] @ seg @ [CHR 0x27]))
     | Object_e ty nm \<Rightarrow> Inr (take (STRBUF_SIZE - 1)
         (ty @ '' '' @ [CHR 0x27] @ nm @ [CHR 0x27]))
     | None_e \<Rightarrow> Inl Undefined)"

text \<open>
  \<^verbatim>\<open>collision_error\<close> evaluates the descriptions of both entries for its message and
  leaves with \<^verbatim>\<open>M_PACOLLIDE\<close>.
\<close>

definition collision_error :: "physmap_ent \<Rightarrow> physmap_ent \<Rightarrow> unit res" where
  "collision_error chk old =
    res_bind (get_ent_descr_string old) (\<lambda>_.
    res_bind (get_ent_descr_string chk) (\<lambda>_. Inl (Exit M_PACOLLIDE)))"

definition check_vector_elem :: "physmap_ent \<Rightarrow> physmap_ent \<Rightarrow> unit res" where
  "check_vector_elem chk e =
    (if \<not> (pm_stop chk \<le> pm_start e \<or> pm_start chk \<ge> pm_stop e)
     then collision_error chk e else Inr ())"

definition check_entry_vs_vector :: "physmap_ent \<Rightarrow> physmap \<Rightarrow> unit res" where
  "check_entry_vs_vector e pm =
    (if pm_stop e < pm_start e then Inl (Exit M_GOLDFINGERMISC)
     else visit_vector pm (\<lambda>x _. check_vector_elem e x) ())"

definition add_entry_to_physmap :: "physmap \<Rightarrow> physmap_ent \<Rightarrow> physmap res" where
  "add_entry_to_physmap pm local_entry =
    res_bind (check_entry_vs_vector local_entry pm) (\<lambda>_.
      let (pm1, new_index) = add_vector_elements pm 1
      in vector_modify pm1 (int new_index) (copy_physmap_entry local_entry))"

definition add_block_to_physmap ::
  "physmap \<Rightarrow> string \<Rightarrow> int \<Rightarrow> int \<Rightarrow> addr_t \<Rightarrow> addr_t \<Rightarrow> string \<Rightarrow> string \<Rightarrow> physmap res" where
  "add_block_to_physmap pm srcfile srcline lineno start stop sec seg =
    add_entry_to_physmap pm
      \<lparr>pm_start = start, pm_stop = stop, pm_srcfile = srcfile, pm_srcline = srcline,
       pm_lineno = lineno, pm_names = Block_e sec seg\<rparr>"

definition add_object_to_physmap ::
  "physmap \<Rightarrow> string \<Rightarrow> int \<Rightarrow> int \<Rightarrow> addr_t \<Rightarrow> addr_t \<Rightarrow> string \<Rightarrow> string \<Rightarrow> physmap res" where
  "add_object_to_physmap pm srcfile srcline lineno start stop obj_type obj_name =
    add_entry_to_physmap pm
      \<lparr>pm_start = start, pm_stop = stop, pm_srcfile = srcfile, pm_srcline = srcline,
       pm_lineno = lineno, pm_names = Object_e obj_type obj_name\<rparr>"

subsection \<open>Specification and invariant\<close>

text \<open>The addresses a region claims, and the test the code uses for two regions.\<close>

definition region :: "physmap_ent \<Rightarrow> addr_t set" where
  "region e = {a. pm_start e \<le> a \<and> a < pm_stop e}"

definition apart :: "physmap_ent \<Rightarrow> physmap_ent \<Rightarrow> bool" where
  "apart x y \<longleftrightarrow> pm_stop x \<le> pm_start y \<or> pm_start x \<ge> pm_stop y"

text \<open>
  The invariant: every entry is named and well ordered, and each is apart from all the
  earlier ones.
\<close>

fun physmap_wf_list :: "physmap_ent list \<Rightarrow> bool" where
  "physmap_wf_list [] \<longleftrightarrow> True"
| "physmap_wf_list (x # xs) \<longleftrightarrow>
    pm_names x \<noteq> None_e \<and> pm_start x \<le> pm_stop x \<and> (\<forall>y \<in> set xs. apart y x) \<and> physmap_wf_list xs"

definition physmap_wf :: "physmap \<Rightarrow> bool" where
  "physmap_wf pm \<longleftrightarrow> physmap_wf_list (elements pm)"

lemma apart_sym:
  "apart x y \<longleftrightarrow> apart y x"
  by (auto simp: apart_def)

lemma apart_disjoint: "apart x y \<Longrightarrow> region x \<inter> region y = {}"
  by (auto simp: apart_def region_def)

lemma disjoint_apart:
  assumes "region x \<inter> region y = {}" and "pm_start x < pm_stop x" and "pm_start y < pm_stop y"
  shows "apart x y"
proof (rule ccontr)
  assume "\<not> apart x y"
  then have "pm_start y < pm_stop x" "pm_start x < pm_stop y" by (auto simp: apart_def not_le)
  then have "max (pm_start x) (pm_start y) \<in> region x \<inter> region y"
    using assms(2,3) by (auto simp: region_def max_def)
  with assms(1) show False by auto
qed

lemma physmap_wf_list_append:
  "physmap_wf_list (xs @ [e]) \<longleftrightarrow> physmap_wf_list xs \<and> pm_names e \<noteq> None_e \<and>
     pm_start e \<le> pm_stop e \<and> (\<forall>x \<in> set xs. apart e x)"
  by (induction xs) auto

lemma physmap_wf_list_names: "physmap_wf_list xs \<Longrightarrow> x \<in> set xs \<Longrightarrow> pm_names x \<noteq> None_e"
  by (induction xs) auto

lemma physmap_wf_list_nth:
  "physmap_wf_list xs \<Longrightarrow> i < length xs \<Longrightarrow> j < length xs \<Longrightarrow> i \<noteq> j \<Longrightarrow> apart (xs ! i) (xs ! j)"
proof (induction xs arbitrary: i j)
  case (Cons x xs)
  then show ?case by (cases i; cases j) (auto simp: apart_sym [of x])
qed simp

lemma check_vector_elem_eq:
  "pm_names chk \<noteq> None_e \<Longrightarrow> pm_names e \<noteq> None_e \<Longrightarrow>
   check_vector_elem chk e = (if apart chk e then Inr () else Inl (Exit M_PACOLLIDE))"
  by (auto simp: check_vector_elem_def collision_error_def get_ent_descr_string_def apart_def
      split: ent_names.splits)

lemma check_cells:
  assumes "\<forall>x \<in> set xs. pm_names x \<noteq> None_e" and "pm_names e \<noteq> None_e"
  shows "res_fold (\<lambda>x s. check_vector_elem e x) xs () =
    (if \<forall>x \<in> set xs. apart e x then Inr () else Inl (Exit M_PACOLLIDE))"
  using assms by (induction xs) (auto simp: check_vector_elem_eq)

lemma check_entry_vs_vector_eq:
  assumes "physmap_wf pm" and "pm_names e \<noteq> None_e"
  shows "check_entry_vs_vector e pm =
    (if pm_stop e < pm_start e then Inl (Exit M_GOLDFINGERMISC)
     else if \<forall>x \<in> set (elements pm). apart e x then Inr ()
     else Inl (Exit M_PACOLLIDE))"
  using assms check_cells [of "elements pm" e]
  by (auto simp: check_entry_vs_vector_def visit_vector_def physmap_wf_def
      physmap_wf_list_names)

lemma add_entry_to_physmap_cases:
  assumes "physmap_wf pm" and "pm_names e \<noteq> None_e"
  shows "pm_stop e < pm_start e \<Longrightarrow> add_entry_to_physmap pm e = Inl (Exit M_GOLDFINGERMISC)"
    and "pm_start e \<le> pm_stop e \<Longrightarrow> \<exists>x \<in> set (elements pm). \<not> apart e x \<Longrightarrow>
      add_entry_to_physmap pm e = Inl (Exit M_PACOLLIDE)"
    and "pm_start e \<le> pm_stop e \<Longrightarrow> \<forall>x \<in> set (elements pm). apart e x \<Longrightarrow>
      \<exists>pm'. add_entry_to_physmap pm e = Inr pm' \<and> elements pm' = elements pm @ [e]"
  using check_entry_vs_vector_eq [OF assms] vec.add_then_modify [of pm "copy_physmap_entry e"]
  by (auto simp: add_entry_to_physmap_def copy_physmap_entry_def split: prod.splits)

lemma add_entry_to_physmap_InrD:
  assumes "add_entry_to_physmap pm e = Inr pm'" and "physmap_wf pm" and "pm_names e \<noteq> None_e"
  shows "elements pm' = elements pm @ [e]" and "pm_start e \<le> pm_stop e"
    and "\<forall>x \<in> set (elements pm). apart e x" and "physmap_wf pm'"
proof -
  note cases = add_entry_to_physmap_cases [OF assms(2,3)]
  show le: "pm_start e \<le> pm_stop e" using cases(1) assms(1) by fastforce
  show ap: "\<forall>x \<in> set (elements pm). apart e x" using cases(2) le assms(1) by fastforce
  show el: "elements pm' = elements pm @ [e]" using cases(3) le ap assms(1) by auto
  show "physmap_wf pm'" using el le ap assms(2,3)
    by (simp add: physmap_wf_def physmap_wf_list_append)
qed

lemma add_entry_to_physmap_defined:
  assumes "physmap_wf pm" and "pm_names e \<noteq> None_e"
  shows "add_entry_to_physmap pm e \<noteq> Inl Undefined"
proof -
  note c = add_entry_to_physmap_cases [OF assms]
  consider "pm_stop e < pm_start e" | "pm_start e \<le> pm_stop e" "\<exists>x \<in> set (elements pm). \<not> apart e x"
    | "pm_start e \<le> pm_stop e" "\<forall>x \<in> set (elements pm). apart e x" by fastforce
  then show ?thesis using c by cases auto
qed

lemma physmap_wf_init: "physmap_wf init_physmap"
  by (simp add: physmap_wf_def init_physmap_def)

lemmas add_to_physmap_defs = add_block_to_physmap_def add_object_to_physmap_def

lemma physmap_wf_regions:
  assumes "physmap_wf pm" and "i < length (elements pm)" and "j < length (elements pm)"
    and "a \<in> region (elements pm ! i)" and "a \<in> region (elements pm ! j)"
  shows "i = j"
  using assms physmap_wf_list_nth [of "elements pm" i j] apart_disjoint
  by (auto simp: physmap_wf_def)

end
