(* ===== verification/Gf_Image.thy ===== *)
theory Gf_Image
  imports Gf_Error
begin

text \<open>
  The output of goldfinger. Every \<^verbatim>\<open>fprintf\<close> of the program writes one or more of the
  items below; \<open>render\<close> is the text they stand for, with the format strings of the
  source. The meaning of the items as a memory image is given by \<open>load_items\<close>: an
  address directive moves the cursor, data words are stored from the cursor on, and the
  \<^verbatim>\<open>// zero_bytes\<close> directive that the environment interprets stores zeros. Memory is
  seen in 64-bit words, the unit of every data item.
\<close>

datatype item =
    Newline
  | At addr_t string               \<comment> \<open>\<^verbatim>\<open>@%016llx\t// %s\n\<close>\<close>
  | ZeroBytes u64                  \<comment> \<open>\<^verbatim>\<open>// zero_bytes %lld\n\n\<close>\<close>
  | Quad u64 u64 u64 u64           \<comment> \<open>\<^verbatim>\<open>%016llx %016llx %016llx %016llx\n\<close>\<close>
  | Pair bool u32 u32              \<comment> \<open>\<^verbatim>\<open>%08x%08x\<close>, after a space if the flag is set\<close>
  | Comment string                 \<comment> \<open>\<^verbatim>\<open>// %s\n\<close>\<close>

subsection \<open>Rendering\<close>

definition hex_digit :: "nat \<Rightarrow> char" where
  "hex_digit d = (''0123456789abcdef'' ! d)"

fun hex_digits :: "nat \<Rightarrow> nat \<Rightarrow> string" where
  "hex_digits 0 n = []"
| "hex_digits (Suc w) n = hex_digits w (n div 16) @ [hex_digit (n mod 16)]"

definition hex16 :: "u64 \<Rightarrow> string" where
  "hex16 x = hex_digits 16 (unat x)"

definition hex10 :: "u64 \<Rightarrow> string" where
  "hex10 x = hex_digits 10 (unat x)"

definition hex8 :: "u32 \<Rightarrow> string" where
  "hex8 x = hex_digits 8 (unat x)"

fun dec_digits :: "nat \<Rightarrow> string" where
  "dec_digits n =
    (if n < 10 then [hex_digit n] else dec_digits (n div 10) @ [hex_digit (n mod 10)])"

declare dec_digits.simps [simp del]

definition dec_lld :: "u64 \<Rightarrow> string" where
  "dec_lld x = (if sint x < 0 then ''-'' @ dec_digits (nat (- sint x))
                else dec_digits (nat (sint x)))"

definition NL :: string where "NL = [CHR 0x0A]"

definition TAB :: string where "TAB = [CHR 0x09]"

definition quoted :: "string \<Rightarrow> string" where
  "quoted s = [CHR 0x27] @ s @ [CHR 0x27]"

fun render_item :: "item \<Rightarrow> string" where
  "render_item Newline = NL"
| "render_item (At a c) = ''@'' @ hex16 a @ TAB @ ''// '' @ c @ NL"
| "render_item (ZeroBytes n) = ''// zero_bytes '' @ dec_lld n @ NL @ NL"
| "render_item (Quad a b c d) =
    hex16 a @ '' '' @ hex16 b @ '' '' @ hex16 c @ '' '' @ hex16 d @ NL"
| "render_item (Pair sp a b) = (if sp then '' '' else []) @ hex8 a @ hex8 b"
| "render_item (Comment c) = ''// '' @ c @ NL"

definition render :: "item list \<Rightarrow> string" where
  "render xs = concat (map render_item xs)"

text \<open>The comment of a marker that a compressed region leaves behind.\<close>

definition from_compressed :: "addr_t \<Rightarrow> string" where
  "from_compressed a = ''from compressed 0x'' @ hex16 a"

subsection \<open>Meaning as a memory image\<close>

type_synonym memory = "addr_t \<Rightarrow> u64 option"

fun store64s :: "addr_t \<Rightarrow> u64 list \<Rightarrow> memory \<Rightarrow> memory" where
  "store64s a [] m = m"
| "store64s a (x # xs) m = store64s (a + 8) xs (m(a \<mapsto> x))"

definition advance :: "addr_t \<Rightarrow> nat \<Rightarrow> addr_t" where
  "advance a n = a + of_nat (8 * n)"

definition put_words :: "u64 list \<Rightarrow> addr_t \<times> memory \<Rightarrow> addr_t \<times> memory" where
  "put_words xs st = (advance (fst st) (length xs), store64s (fst st) xs (snd st))"

fun load_item :: "item \<Rightarrow> addr_t \<times> memory \<Rightarrow> addr_t \<times> memory" where
  "load_item Newline st = st"
| "load_item (At a c) st = (a, snd st)"
| "load_item (ZeroBytes n) st = put_words (replicate (unat n div 8) 0) st"
| "load_item (Quad a b c d) st = put_words [a, b, c, d] st"
| "load_item (Pair sp a b) st = put_words [word_cat a b] st"
| "load_item (Comment c) st = st"

definition load_items :: "item list \<Rightarrow> addr_t \<times> memory \<Rightarrow> addr_t \<times> memory" where
  "load_items xs st = fold load_item xs st"

subsection \<open>Lemmas\<close>

lemma load_items_simps [simp]:
  "load_items [] st = st"
  "load_items (x # xs) st = load_items xs (load_item x st)"
  "load_items (xs @ ys) st = load_items ys (load_items xs st)"
  by (simp_all add: load_items_def)

lemma advance_0 [simp]: "advance a 0 = a"
  by (simp add: advance_def)

lemma advance_advance: "advance (advance a m) n = advance a (m + n)"
  by (simp add: advance_def algebra_simps)

lemma advance_Suc: "advance a (Suc n) = advance (a + 8) n"
  by (simp add: advance_def)

lemma store64s_append:
  "store64s a (xs @ ys) m = store64s (advance a (length xs)) ys (store64s a xs m)"
  by (induction xs arbitrary: a m) (simp_all add: advance_Suc)

lemma put_words_append: "put_words (xs @ ys) st = put_words ys (put_words xs st)"
  by (simp add: put_words_def store64s_append advance_advance)

lemma put_words_Nil [simp]: "put_words [] st = st"
  by (simp add: put_words_def)

lemma fst_put_words: "fst (put_words xs st) = advance (fst st) (length xs)"
  by (simp add: put_words_def)

lemma length_hex_digits [simp]: "length (hex_digits w n) = w"
  by (induction w arbitrary: n) auto

text \<open>What is stored where, as long as the words do not wrap around the address space.\<close>

lemma advance_inj:
  assumes "m < 2 ^ 61" and "n < 2 ^ 61" and "advance a m = advance a n"
  shows "m = n"
proof -
  have u: "unat (of_nat (8 * k) :: addr_t) = 8 * k" if "k < 2 ^ 61" for k
    using that by (intro unat_of_nat64) simp
  have "(of_nat (8 * m) :: addr_t) = of_nat (8 * n)"
    using assms(3) unfolding advance_def by (rule add_left_imp_eq)
  then have "8 * m = 8 * n" using u [OF assms(1)] u [OF assms(2)] by metis
  then show ?thesis by simp
qed

lemma store64s_outside:
  "(\<forall>k < length xs. b \<noteq> advance a k) \<Longrightarrow> store64s a xs m b = m b"
proof (induction xs arbitrary: a m)
  case (Cons x xs)
  have "\<forall>k < length xs. b \<noteq> advance (a + 8) k"
    using Cons.prems by (auto simp: advance_Suc [symmetric])
  moreover have "b \<noteq> a" using Cons.prems by force
  ultimately show ?case by (simp add: Cons.IH)
qed simp

lemma store64s_inside:
  assumes "length xs \<le> 2 ^ 61" and "k < length xs"
  shows "store64s a xs m (advance a k) = Some (xs ! k)"
  using assms
proof (induction xs arbitrary: a m k)
  case (Cons x xs)
  show ?case
  proof (cases k)
    case 0
    have "\<forall>j < length xs. advance a 0 \<noteq> advance (a + 8) j"
      using Cons.prems advance_inj [of 0 "Suc j" a for j]
      by (metis Suc_less_eq Suc_n_not_le_n advance_Suc length_Cons less_imp_le_nat nat.simps(3)
          order_less_le_trans zero_less_Suc)
    then show ?thesis using 0 by (simp add: store64s_outside)
  next
    case (Suc j)
    then show ?thesis using Cons.prems by (simp add: advance_Suc Cons.IH)
  qed
qed simp

subsection \<open>Suppressed zeros\<close>

text \<open>
  Tables and blocks leave out runs of zeros. The invariant of their loops: \<open>dn\<close> are the
  words done so far and \<open>out\<close> what was written for them. While zeros are skipped, \<open>out\<close>
  stands for the words below the address \<open>lst\<close>, and the rest of \<open>dn\<close> is zero.
\<close>

definition gap_inv ::
  "bool \<Rightarrow> bool \<Rightarrow> addr_t \<Rightarrow> item list \<Rightarrow> addr_t \<Rightarrow> u64 list \<Rightarrow> addr_t \<times> memory \<Rightarrow> bool" where
  "gap_inv env skip lst out start dn s0 \<longleftrightarrow>
    (if skip
     then env \<and> (\<exists>k \<le> length dn. lst = advance start k \<and>
            load_items out s0 = put_words (take k dn) (start, snd s0) \<and>
            drop k dn = replicate (length dn - k) 0)
     else load_items out s0 = put_words dn (start, snd s0))"

lemma gap_inv_printing:
  "gap_inv env False lst out start dn s0 \<longleftrightarrow> load_items out s0 = put_words dn (start, snd s0)"
  by (simp add: gap_inv_def)

text \<open>A \<^verbatim>\<open>zero_bytes\<close> directive, after a marker of the address or not, ends the run.\<close>

lemma gap_flush:
  assumes inv: "gap_inv env True lst out start dn s0" and b: "8 * length dn < 2 ^ 64"
    and pre: "pre = [] \<or> pre = [Newline, At lst c]"
  shows "load_items (out @ pre @ [ZeroBytes (advance start (length dn) - lst)]) s0 =
    put_words dn (start, snd s0)"
proof -
  obtain k where k: "k \<le> length dn" "lst = advance start k"
    and ld: "load_items out s0 = put_words (take k dn) (start, snd s0)"
    and z: "drop k dn = replicate (length dn - k) 0"
    using inv by (auto simp: gap_inv_def)
  have "advance start (length dn) - advance start k = of_nat (8 * (length dn - k))"
    using k(1) by (simp add: advance_def of_nat_diff)
  then have n: "unat (advance start (length dn) - advance start k) div 8 = length dn - k"
    using b by (simp only: unat_of_nat64 [of "8 * (length dn - k)"])
  have "fst (load_items out s0) = advance start k" using k(1) by (simp add: ld fst_put_words)
  then have "load_items pre (load_items out s0) = load_items out s0"
    using pre k(2) by (auto simp: prod_eq_iff)
  note pre_load = this [unfolded ld]
  have "put_words dn (start, snd s0) = put_words (take k dn @ drop k dn) (start, snd s0)" by simp
  then show ?thesis
    by (simp only: load_items_simps load_item.simps pre_load ld k(2) n put_words_append z)
qed

lemma gap_zeros:
  assumes inv: "gap_inv env skip lst out start dn s0" and env
  shows "gap_inv env True (if skip then lst else advance start (length dn)) out start
    (dn @ replicate n 0) s0"
proof (cases skip)
  case True
  with inv obtain k where k: "k \<le> length dn" "lst = advance start k"
    "load_items out s0 = put_words (take k dn) (start, snd s0)"
    "drop k dn = replicate (length dn - k) 0"
    by (auto simp: gap_inv_def)
  have "drop k (dn @ replicate n 0) = replicate (length (dn @ replicate n (0 :: u64)) - k) 0"
    using k(1,4) by (simp flip: replicate_add)
  with k True assms(2) show ?thesis by (auto simp: gap_inv_def intro!: exI [of _ k])
next
  case False
  with assms show ?thesis by (auto simp: gap_inv_def intro!: exI [of _ "length dn"])
qed

lemma gap_words:
  assumes "load_items out s0 = put_words dn (start, snd s0)" and "\<And>s. load_items its s = put_words ws s"
  shows "gap_inv env False lst (out @ its) start (dn @ ws) s0"
  using assms by (simp add: gap_inv_printing put_words_append)

text \<open>A marker of the address that the cursor has changes nothing.\<close>

lemma load_marker:
  assumes "load_items out s0 = put_words dn (start, m)"
  shows "load_items (out @ [At (advance start (length dn)) c]) s0 = put_words dn (start, m)"
  using assms by (simp add: prod_eq_iff fst_put_words)

end
