(* ===== verification/Gf_Chain.thy ===== *)
theory Gf_Chain
  imports Gf_Prelude
begin

text \<open>
  Linked chains inside an array that only grows: the representation of the overflow lists
  of a TSB. A node holds a value, the index of the next node (the pointer \<^verbatim>\<open>next\<close>), the
  physical address of the next node (\<^verbatim>\<open>link\<close>) and its own physical address
  (\<^verbatim>\<open>my_link\<close>). The same code exists twice in \<^verbatim>\<open>tsb_link.c\<close>, for TSB and for TSBCSM
  nodes; the facts about chains are proved once here, for any type of node, in the locale
  \<open>chain_area\<close>, which both copies interpret.
\<close>

definition EOL :: u64 where
  "EOL = - 1"

definition LINK_SIZE :: nat where
  "LINK_SIZE = 32"

text \<open>The physical address of a node.\<close>

definition node_addr :: "addr_t \<Rightarrow> nat \<Rightarrow> addr_t" where
  "node_addr start i = start + of_nat (LINK_SIZE * i)"

text \<open>The index of the node at an address: \<^verbatim>\<open>(data - start_addr) / LINK_SIZE\<close>.\<close>

definition link_index :: "addr_t \<Rightarrow> u64 \<Rightarrow> nat" where
  "link_index start d = unat ((d - start) div of_nat LINK_SIZE)"

lemma link_index_node_addr: "LINK_SIZE * i < 2 ^ 31 \<Longrightarrow> link_index a (node_addr a i) = i"
  unfolding link_index_def node_addr_def LINK_SIZE_def
  by (subst of_nat_numeral, rule word_offset_div) simp

subsection \<open>The nodes of a chain\<close>

function chain_idx :: "('e \<Rightarrow> nat option) \<Rightarrow> 'e list \<Rightarrow> nat \<Rightarrow> nat list" where
  "chain_idx nx es i =
    (if i < length es
     then i # (case nx (es ! i) of
                 None \<Rightarrow> []
               | Some j \<Rightarrow> if i < j then chain_idx nx es j else [])
     else [])"
  by pat_completeness auto

termination
  by (relation "measure (\<lambda>(nx, es, i). length es - i)") auto

declare chain_idx.simps [simp del]

text \<open>
  The invariant of a link area that starts at the physical address \<open>start\<close>: every node
  knows its address, the next node is a later one, \<^verbatim>\<open>link\<close> is its address (or all ones at
  the end), and no two nodes have the same successor.
\<close>

definition node_ok ::
  "('e \<Rightarrow> nat option) \<Rightarrow> ('e \<Rightarrow> u64) \<Rightarrow> ('e \<Rightarrow> u64) \<Rightarrow> addr_t \<Rightarrow> nat \<Rightarrow> nat \<Rightarrow> 'e \<Rightarrow> bool" where
  "node_ok nx lk my start n i e \<longleftrightarrow>
    LINK_SIZE * i < 2 ^ 31 \<and> my e = node_addr start i \<and>
    (case nx e of
       None \<Rightarrow> lk e = EOL
     | Some j \<Rightarrow> i < j \<and> j < n \<and> lk e = node_addr start j)"

definition area_wf ::
  "('e \<Rightarrow> nat option) \<Rightarrow> ('e \<Rightarrow> u64) \<Rightarrow> ('e \<Rightarrow> u64) \<Rightarrow> addr_t \<Rightarrow> 'e list \<Rightarrow> bool" where
  "area_wf nx lk my start es \<longleftrightarrow>
    (\<forall>i < length es. node_ok nx lk my start (length es) i (es ! i)) \<and>
    (\<forall>i < length es. \<forall>i' < length es. \<forall>j.
       nx (es ! i) = Some j \<and> nx (es ! i') = Some j \<longrightarrow> i = i')"

text \<open>A node where a chain starts: no other node leads to it.\<close>

definition is_root :: "('e \<Rightarrow> nat option) \<Rightarrow> 'e list \<Rightarrow> nat \<Rightarrow> bool" where
  "is_root nx es h \<longleftrightarrow> h < length es \<and> (\<forall>i < length es. nx (es ! i) \<noteq> Some h)"

lemma area_wf_next:
  "area_wf nx lk my start es \<Longrightarrow> i < length es \<Longrightarrow> nx (es ! i) = Some j \<Longrightarrow>
   i < j \<and> j < length es \<and> lk (es ! i) = node_addr start j"
  by (auto simp: area_wf_def node_ok_def dest!: spec [of _ i])

lemma node_ok_mono: "node_ok nx lk my start n i e \<Longrightarrow> n \<le> n' \<Longrightarrow> node_ok nx lk my start n' i e"
  by (auto simp: node_ok_def split: option.splits)

lemma area_wf_inj:
  "area_wf nx lk my start es \<Longrightarrow> i < length es \<Longrightarrow> i' < length es \<Longrightarrow>
   nx (es ! i) = Some j \<Longrightarrow> nx (es ! i') = Some j \<Longrightarrow> i = i'"
  by (auto simp: area_wf_def)

lemma area_wf_Nil: "area_wf nx lk my start []"
  by (simp add: area_wf_def)

lemma chain_idx_None:
  "i < length es \<Longrightarrow> nx (es ! i) = None \<Longrightarrow> chain_idx nx es i = [i]"
  by (simp add: chain_idx.simps)

lemma chain_idx_Some:
  "i < length es \<Longrightarrow> nx (es ! i) = Some j \<Longrightarrow> i < j \<Longrightarrow>
   chain_idx nx es i = i # chain_idx nx es j"
  by (simp add: chain_idx.simps [of nx es i])

lemma chain_idx_nonempty: "i < length es \<Longrightarrow> chain_idx nx es i \<noteq> []"
  by (simp add: chain_idx.simps)

lemma chain_idx_mem:
  "x \<in> set (chain_idx nx es i) \<longleftrightarrow>
    i < length es \<and> (x = i \<or> (\<exists>j. nx (es ! i) = Some j \<and> i < j \<and> x \<in> set (chain_idx nx es j)))"
  by (subst chain_idx.simps) (auto split: option.splits)

lemma chain_idx_bounds: "x \<in> set (chain_idx nx es i) \<Longrightarrow> i \<le> x \<and> x < length es"
proof (induction nx es i rule: chain_idx.induct)
  case (1 nx es i)
  show ?case
    using "1.prems" "1.IH" chain_idx_mem [of x nx es i] by fastforce
qed

lemma chain_idx_length: "length (chain_idx nx es i) \<le> length es - i"
proof (induction nx es i rule: chain_idx.induct)
  case (1 nx es i)
  show ?case
    using "1.IH" by (subst chain_idx.simps) (fastforce split: option.splits)
qed

text \<open>Every node of a chain but the first has its predecessor in the chain.\<close>

lemma chain_idx_pred:
  "x \<in> set (chain_idx nx es i) \<Longrightarrow> x \<noteq> i \<Longrightarrow>
   \<exists>p \<in> set (chain_idx nx es i). p < x \<and> nx (es ! p) = Some x"
proof (induction nx es i rule: chain_idx.induct)
  case (1 nx es i)
  from "1.prems" obtain j where i: "i < length es" and j: "nx (es ! i) = Some j" "i < j"
    and x: "x \<in> set (chain_idx nx es j)"
    using chain_idx_mem [of x nx es i] by auto
  show ?case
  proof (cases "x = j")
    case True
    with i j show ?thesis by (auto simp: chain_idx_Some)
  next
    case False
    with "1.IH" [OF i j(1) j(2) x] show ?thesis using i j by (auto simp: chain_idx_Some)
  qed
qed

text \<open>Two chains that start at roots and share a node are the same chain.\<close>

lemma roots_share:
  assumes wf: "area_wf nx lk my start es" and "is_root nx es h" and "is_root nx es h'"
  shows "x \<in> set (chain_idx nx es h) \<Longrightarrow> x \<in> set (chain_idx nx es h') \<Longrightarrow> h = h'"
proof (induction x rule: less_induct)
  case (less x)
  have xb: "x < length es" using chain_idx_bounds less.prems(1) by blast
  show ?case
  proof (cases "x = h \<or> x = h'")
    case True
    then show ?thesis
      using chain_idx_pred [OF less.prems(1)] chain_idx_pred [OF less.prems(2)] assms(2,3) xb
      by (metis is_root_def less_trans)
  next
    case False
    obtain p where p: "p \<in> set (chain_idx nx es h)" "p < x" "nx (es ! p) = Some x"
      using chain_idx_pred [OF less.prems(1)] False by auto
    obtain q where q: "q \<in> set (chain_idx nx es h')" "q < x" "nx (es ! q) = Some x"
      using chain_idx_pred [OF less.prems(2)] False by auto
    have "p = q" using area_wf_inj [OF wf _ _ p(3) q(3)] chain_idx_bounds p(1) q(1) by blast
    with less.IH [OF p(2) p(1)] q(1) show ?thesis by simp
  qed
qed

lemma last_chain_idx:
  assumes "area_wf nx lk my start es" and "i < length es"
  shows "last (chain_idx nx es i) < length es \<and> nx (es ! last (chain_idx nx es i)) = None"
  using assms(2)
proof (induction "length es - i" arbitrary: i rule: less_induct)
  case less
  show ?case
  proof (cases "nx (es ! i)")
    case None
    with less.prems show ?thesis by (simp add: chain_idx_None)
  next
    case (Some j)
    with area_wf_next [OF assms(1) less.prems] have j: "i < j" "j < length es" by auto
    with less.hyps [of j] less.prems Some show ?thesis
      by (simp add: chain_idx_Some chain_idx_nonempty)
  qed
qed

subsection \<open>The interface of a chained area\<close>

text \<open>
  What the code does with nodes: it makes a node at the end of a chain, hooks a node to its
  successor, and follows the \<^verbatim>\<open>next\<close> pointers to the last node of a chain.
\<close>

locale chain_area =
  fixes nx :: "'e \<Rightarrow> nat option" and lk :: "'e \<Rightarrow> u64" and my :: "'e \<Rightarrow> u64" and val :: "'e \<Rightarrow> 'v"
    and hook :: "nat \<Rightarrow> u64 \<Rightarrow> 'e \<Rightarrow> 'e"
    and chase :: "'e list \<Rightarrow> nat \<Rightarrow> nat \<Rightarrow> nat res"
  assumes hook: "nx (hook j a e) = Some j" "lk (hook j a e) = a" "my (hook j a e) = my e"
      "val (hook j a e) = val e"
    and chase_Suc: "i < length es \<Longrightarrow> chase es (Suc n) i =
      (case nx (es ! i) of None \<Rightarrow> Inr i | Some j \<Rightarrow> chase es n j)"
begin

text \<open>The loop finds the end of the chain, and the number of nodes is enough fuel.\<close>

lemma chase_last_gen:
  assumes "area_wf nx lk my start es" and "i < length es" and "length es - i \<le> n"
  shows "chase es n i = Inr (last (chain_idx nx es i))"
  using assms(2,3)
proof (induction n arbitrary: i)
  case 0
  then show ?case by simp
next
  case (Suc n)
  show ?case
  proof (cases "nx (es ! i)")
    case None
    with Suc.prems show ?thesis by (simp add: chase_Suc chain_idx_None)
  next
    case (Some j)
    with area_wf_next [OF assms(1) Suc.prems(1)] have j: "i < j" "j < length es" by auto
    with Suc.IH [of j] Suc.prems Some show ?thesis
      by (simp add: chase_Suc chain_idx_Some chain_idx_nonempty)
  qed
qed

lemma chase_last:
  assumes "area_wf nx lk my start es" and "i < length es"
  shows "chase es (length es) i = Inr (last (chain_idx nx es i))"
  using chase_last_gen [OF assms] by simp

text \<open>
  A new node of the area, at first the only node of its chain, leaves every other chain
  alone.
\<close>

lemma push_wf:
  assumes wf: "area_wf nx lk my start es" and "LINK_SIZE * length es < 2 ^ 31"
    and "nx e = None" and "lk e = EOL" and "my e = node_addr start (length es)"
  shows "area_wf nx lk my start (es @ [e])"
  unfolding area_wf_def
proof (intro conjI allI impI)
  fix i assume i: "i < length (es @ [e])"
  show "node_ok nx lk my start (length (es @ [e])) i ((es @ [e]) ! i)"
  proof (cases "i < length es")
    case True
    with wf have "node_ok nx lk my start (length es) i (es ! i)" by (simp add: area_wf_def)
    with True show ?thesis by (simp add: nth_append node_ok_mono)
  next
    case False
    with i assms(2-5) show ?thesis by (simp add: node_ok_def less_Suc_eq)
  qed
next
  fix i i' j
  assume "i < length (es @ [e])" "i' < length (es @ [e])"
    and eq: "nx ((es @ [e]) ! i) = Some j \<and> nx ((es @ [e]) ! i') = Some j"
  moreover have "i \<noteq> length es" "i' \<noteq> length es" using eq assms(3) by auto
  ultimately show "i = i'"
    using area_wf_inj [OF wf, of i i' j] by (simp add: nth_append)
qed

lemma push_root:
  assumes "area_wf nx lk my start es" and "nx e = None"
  shows "is_root nx (es @ [e]) (length es)"
  unfolding is_root_def
proof (intro conjI allI impI)
  fix i assume "i < length (es @ [e])"
  then show "nx ((es @ [e]) ! i) \<noteq> Some (length es)"
    using area_wf_next [OF assms(1), of i "length es"] assms(2) by (cases "i < length es") (auto simp: nth_append)
qed simp

lemma push_keeps_root:
  assumes "is_root nx es h" and "nx e = None"
  shows "is_root nx (es @ [e]) h"
  using assms by (auto simp: is_root_def nth_append)

lemma push_chain:
  assumes "area_wf nx lk my start es" and "i < length es"
  shows "chain_idx nx (es @ [e]) i = chain_idx nx es i"
  using assms(2)
proof (induction "length es - i" arbitrary: i rule: less_induct)
  case less
  show ?case
  proof (cases "nx (es ! i)")
    case None
    with less.prems show ?thesis by (simp add: chain_idx_None nth_append)
  next
    case (Some j)
    with area_wf_next [OF assms(1) less.prems] have j: "i < j" "j < length es" by auto
    with less.hyps [of j] less.prems Some show ?thesis
      by (simp add: chain_idx_Some nth_append)
  qed
qed

text \<open>The values along the chain that starts at a node.\<close>

definition vals :: "'e list \<Rightarrow> nat \<Rightarrow> 'v list" where
  "vals es h = map (\<lambda>k. val (es ! k)) (chain_idx nx es h)"

lemma push_vals:
  assumes "area_wf nx lk my start es" and "i < length es"
  shows "vals (es @ [e]) i = vals es i"
  using push_chain [OF assms, of e] chain_idx_bounds [of _ nx es i]
  by (auto simp: vals_def nth_append)

lemma vals_single: "nx e = None \<Longrightarrow> vals (es @ [e]) (length es) = [val e]"
  by (simp add: vals_def chain_idx_None)

text \<open>Hooking the last node \<open>t\<close> of a chain to the root \<open>r\<close> of another one behind it.\<close>

lemma hook_wf:
  assumes wf: "area_wf nx lk my start es" and t: "t < r" "nx (es ! t) = None" and r: "is_root nx es r"
  shows "area_wf nx lk my start (es[t := hook r (node_addr start r) (es ! t)])"
    (is "area_wf nx lk my start ?es")
  unfolding area_wf_def
proof (intro conjI allI impI)
  have rl: "r < length es" using r by (simp add: is_root_def)
  fix i assume "i < length ?es"
  then show "node_ok nx lk my start (length ?es) i (?es ! i)"
    using wf t(1) rl by (cases "i = t") (auto simp: area_wf_def node_ok_def hook)
next
  have rl: "r < length es" using r by (simp add: is_root_def)
  fix i i' j
  assume ii: "i < length ?es" "i' < length ?es" and eq: "nx (?es ! i) = Some j \<and> nx (?es ! i') = Some j"
  have *: "nx (?es ! k) = (if k = t then Some r else nx (es ! k))" if "k < length es" for k
    using that t(1) rl by (auto simp: hook nth_list_update)
  show "i = i'"
    using ii eq r area_wf_inj [OF wf, of i i' j] by (auto simp: * is_root_def split: if_splits)
qed

lemma hook_keeps_root:
  assumes "is_root nx es h" and "h \<noteq> r" and "r < length es" and "t < r"
  shows "is_root nx (es[t := hook r a (es ! t)]) h"
  using assms by (auto simp: is_root_def nth_list_update hook)

lemma hook_chain_other:
  assumes wf: "area_wf nx lk my start es" and "i < length es" and "t \<notin> set (chain_idx nx es i)"
  shows "chain_idx nx (es[t := e]) i = chain_idx nx es i"
  using assms(2,3)
proof (induction "length es - i" arbitrary: i rule: less_induct)
  case less
  have ti: "t \<noteq> i" using less.prems chain_idx_mem [of t nx es i] by auto
  show ?case
  proof (cases "nx (es ! i)")
    case None
    with less.prems ti show ?thesis by (simp add: chain_idx_None)
  next
    case (Some j)
    with area_wf_next [OF wf less.prems(1)] have j: "i < j" "j < length es" by auto
    with less.hyps [of j] less.prems Some ti show ?thesis
      by (simp add: chain_idx_Some)
  qed
qed

lemma hook_chain_end:
  assumes wf: "area_wf nx lk my start es" and "i < length es" and "last (chain_idx nx es i) = t"
    and t: "t < r" and r: "r < length es" "t \<notin> set (chain_idx nx es r)"
  shows "chain_idx nx (es[t := hook r a (es ! t)]) i = chain_idx nx es i @ chain_idx nx es r"
  using assms(2,3)
proof (induction "length es - i" arbitrary: i rule: less_induct)
  case less
  show ?case
  proof (cases "nx (es ! i)")
    case None
    with less.prems have "i = t" by (simp add: chain_idx_None)
    with None less.prems t r show ?thesis
      by (simp add: chain_idx_None chain_idx_Some [of t _ _ r] hook hook_chain_other [OF wf])
  next
    case (Some j)
    with area_wf_next [OF wf less.prems(1)] have j: "i < j" "j < length es" by auto
    with less.prems Some have lj: "last (chain_idx nx es j) = t"
      by (simp add: chain_idx_Some chain_idx_nonempty)
    have "i \<noteq> t" using lj chain_idx_bounds [of t nx es j] chain_idx_nonempty [OF j(2)] j(1)
      by (metis last_in_set not_le)
    with less.hyps [of j] less.prems Some j lj show ?thesis
      by (simp add: chain_idx_Some)
  qed
qed

text \<open>
  The code appends a value to the chain of a root: it follows the chain to its end, adds a
  node to the area and hooks the end to it. The chain of that root gets the new value at
  its end; the chain of every other root is as before.
\<close>

lemma vals_update:
  "t < length es \<Longrightarrow> val e = val (es ! t) \<Longrightarrow>
   vals (es[t := e]) i = map (\<lambda>k. val (es ! k)) (chain_idx nx (es[t := e]) i)"
  by (simp add: vals_def nth_list_update)

lemma append_vals:
  assumes wf: "area_wf nx lk my start es" and h: "is_root nx es h"
    and e: "LINK_SIZE * length es < 2 ^ 31" "nx e = None" "lk e = EOL" "my e = node_addr start (length es)"
    and t: "t = last (chain_idx nx es h)"
    and fs: "fs = (es @ [e])[t := hook (length es) (node_addr start (length es)) ((es @ [e]) ! t)]"
  shows "vals fs h = vals es h @ [val e]"
    and "is_root nx es h' \<Longrightarrow> h' \<noteq> h \<Longrightarrow> vals fs h' = vals es h'"
    and "area_wf nx lk my start fs"
    and "is_root nx es h' \<Longrightarrow> is_root nx fs h'"
proof -
  let ?es = "es @ [e]"
  have hl: "h < length es" using h by (simp add: is_root_def)
  have tl: "t < length es" "nx (es ! t) = None" using last_chain_idx [OF wf hl] t by auto
  have wf': "area_wf nx lk my start ?es" by (rule push_wf [OF wf e])
  have new: "chain_idx nx ?es (length es) = [length es]" using e by (simp add: chain_idx_None)
  have upd: "vals fs i = map (\<lambda>k. val (?es ! k)) (chain_idx nx fs i)" for i
    unfolding fs using tl by (intro vals_update) (simp_all add: hook)
  have "chain_idx nx fs h = chain_idx nx ?es h @ chain_idx nx ?es (length es)"
    unfolding fs using hl tl t new
    by (intro hook_chain_end [OF wf']) (simp_all add: push_chain [OF wf hl])
  then show "vals fs h = vals es h @ [val e]"
    using push_vals [OF wf hl, of e] new by (simp add: upd) (simp add: vals_def)
  show "area_wf nx lk my start fs"
    unfolding fs using tl e(2) by (intro hook_wf [OF wf'] push_root [OF wf]) (simp_all add: nth_append)
  show "is_root nx fs h'" if h': "is_root nx es h'"
    unfolding fs using tl h' e(2)
    by (intro hook_keeps_root push_keeps_root) (auto simp: is_root_def)
  assume h': "is_root nx es h'" "h' \<noteq> h"
  have h'l: "h' < length es" using h' by (simp add: is_root_def)
  have "t \<in> set (chain_idx nx es h)" using t chain_idx_nonempty [OF hl] by simp
  then have "t \<notin> set (chain_idx nx ?es h')"
    using roots_share [OF wf h h'(1)] h'(2) push_chain [OF wf h'l] by auto
  then have "chain_idx nx fs h' = chain_idx nx ?es h'"
    unfolding fs using h'l by (intro hook_chain_other [OF wf']) simp_all
  then show "vals fs h' = vals es h'"
    using push_vals [OF wf h'l, of e] by (simp add: upd) (simp add: vals_def)
qed

end

subsection \<open>The interface of a link area\<close>

text \<open>
  A link area with its operations: \<open>appends l t v l'\<close> adds a node with value \<open>v\<close> behind
  the node \<open>t\<close>, \<open>starts l v l' h\<close> makes a new node \<open>h\<close>, and \<open>adds l v te l' te'\<close> is the whole
  operation on a table entry \<open>te\<close>, which either points to a chain or holds a value itself.
\<close>

locale link_store = chain_area nx lk my val hook chase
  for nx :: "'e \<Rightarrow> nat option" and lk :: "'e \<Rightarrow> u64" and my :: "'e \<Rightarrow> u64" and val :: "'e \<Rightarrow> 'v"
    and hook :: "nat \<Rightarrow> u64 \<Rightarrow> 'e \<Rightarrow> 'e"
    and chase :: "'e list \<Rightarrow> nat \<Rightarrow> nat \<Rightarrow> nat res" +
  fixes start :: "'l \<Rightarrow> addr_t" and nds :: "'l \<Rightarrow> 'e list"
    and appends :: "'l \<Rightarrow> nat \<Rightarrow> 'v \<Rightarrow> 'l \<Rightarrow> bool"
    and starts :: "'l \<Rightarrow> 'v \<Rightarrow> 'l \<Rightarrow> nat \<Rightarrow> bool"
    and linked :: "'t \<Rightarrow> bool" and target :: "'t \<Rightarrow> u64" and own :: "'t \<Rightarrow> 'v"
    and adds :: "'l \<Rightarrow> 'v \<Rightarrow> 't \<Rightarrow> 'l \<Rightarrow> 't \<Rightarrow> bool"
  assumes appends: "appends l t v l' \<Longrightarrow> \<exists>e. LINK_SIZE * length (nds l) < 2 ^ 31 \<and>
      start l' = start l \<and> nx e = None \<and> lk e = EOL \<and> val e = v \<and>
      my e = node_addr (start l) (length (nds l)) \<and>
      nds l' = (nds l @ [e])[t := hook (length (nds l)) (node_addr (start l) (length (nds l)))
        ((nds l @ [e]) ! t)]"
    and starts: "starts l v l' h \<Longrightarrow> \<exists>e. h = length (nds l) \<and> LINK_SIZE * length (nds l) < 2 ^ 31 \<and>
      start l' = start l \<and> nx e = None \<and> lk e = EOL \<and> val e = v \<and>
      my e = node_addr (start l) (length (nds l)) \<and> nds l' = nds l @ [e]"
    and adds_linked: "adds l v te l' te' \<Longrightarrow> linked te \<Longrightarrow>
      chase (nds l) (length (nds l)) (link_index (start l) (target te)) = Inr t \<Longrightarrow>
      te' = te \<and> appends l t v l'"
    and adds_plain: "adds l v te l' te' \<Longrightarrow> \<not> linked te \<Longrightarrow>
      \<exists>l1 h. starts l (own te) l1 h \<and> appends l1 h v l' \<and> h < length (nds l') \<and>
        linked te' \<and> target te' = my (nds l' ! h)"
begin

abbreviation wf :: "'l \<Rightarrow> bool" where
  "wf l \<equiv> area_wf nx lk my (start l) (nds l)"

abbreviation root :: "'l \<Rightarrow> nat \<Rightarrow> bool" where
  "root l h \<equiv> is_root nx (nds l) h"

abbreviation head :: "'l \<Rightarrow> 't \<Rightarrow> nat" where
  "head l te \<equiv> link_index (start l) (target te)"

lemma appends_spec:
  assumes add: "appends l t v l'" and wf: "wf l" and h: "root l h"
    and t: "t = last (chain_idx nx (nds l) h)"
  shows "wf l'" and "start l' = start l" and "length (nds l') = Suc (length (nds l))"
    and "vals (nds l') h = vals (nds l) h @ [v]"
    and "root l g \<Longrightarrow> root l' g"
    and "root l g \<Longrightarrow> g \<noteq> h \<Longrightarrow> vals (nds l') g = vals (nds l) g"
proof -
  obtain e where e: "LINK_SIZE * length (nds l) < 2 ^ 31"
    "nx e = None" "lk e = EOL" "my e = node_addr (start l) (length (nds l))"
    and p: "val e = v" and st: "start l' = start l"
    and fs: "nds l' = (nds l @ [e])[t := hook (length (nds l))
      (node_addr (start l) (length (nds l))) ((nds l @ [e]) ! t)]"
    using appends [OF add] by auto
  note app = append_vals [OF wf h e t fs]
  show "start l' = start l" by (rule st)
  show "length (nds l') = Suc (length (nds l))" using fs by simp
  show "wf l'" "vals (nds l') h = vals (nds l) h @ [v]" using app(1,3) p st by simp_all
  show "root l g \<Longrightarrow> root l' g" by (rule app(4))
  show "root l g \<Longrightarrow> g \<noteq> h \<Longrightarrow> vals (nds l') g = vals (nds l) g" by (rule app(2))
qed

lemma starts_spec:
  assumes s: "starts l v l1 h" and wf: "wf l"
  shows "wf l1" and "start l1 = start l" and "length (nds l) < length (nds l1)" and "root l1 h"
    and "h = last (chain_idx nx (nds l1) h)" and "vals (nds l1) h = [v]"
    and "root l g \<Longrightarrow> root l1 g \<and> g \<noteq> h \<and> vals (nds l1) g = vals (nds l) g"
proof -
  obtain e where hl: "h = length (nds l)" and e: "LINK_SIZE * length (nds l) < 2 ^ 31"
    "nx e = None" "lk e = EOL" "my e = node_addr (start l) (length (nds l))"
    and p: "val e = v" and st: "start l1 = start l" and fs: "nds l1 = nds l @ [e]"
    using starts [OF s] by auto
  show "start l1 = start l" by (rule st)
  show "length (nds l) < length (nds l1)" using fs by simp
  show "wf l1" using push_wf [OF wf e] fs st by simp
  show "root l1 h" using push_root [OF wf e(2)] fs hl by simp
  show "h = last (chain_idx nx (nds l1) h)" using fs hl e(2) by (simp add: chain_idx_None)
  show "vals (nds l1) h = [v]" using vals_single [OF e(2)] p fs hl by simp
  show "root l1 g \<and> g \<noteq> h \<and> vals (nds l1) g = vals (nds l) g" if g: "root l g"
    using g push_keeps_root [OF _ e(2)] push_vals [OF wf, of g e] fs hl by (auto simp: is_root_def)
qed

text \<open>
  A value added to an entry that already points to a chain goes to the end of that chain;
  added to a plain entry it starts a chain with the entry's own value followed by the new
  one. Every other chain of the area keeps its values.
\<close>

lemma adds_spec:
  assumes ad: "adds l v te l' te'" and wf: "wf l" and rt: "linked te \<Longrightarrow> root l (head l te)"
  shows "wf l' \<and> start l' = start l \<and> length (nds l) < length (nds l') \<and>
    linked te' \<and> root l' (head l' te') \<and>
    vals (nds l') (head l' te') =
      (if linked te then vals (nds l) (head l te) else [own te]) @ [v] \<and>
    (\<forall>g. root l g \<longrightarrow> root l' g \<and> ((linked te \<longrightarrow> g \<noteq> head l te) \<longrightarrow>
      g \<noteq> head l' te' \<and> vals (nds l') g = vals (nds l) g))"
proof (cases "linked te")
  case True
  have "head l te < length (nds l)" using rt [OF True] by (simp add: is_root_def)
  from adds_linked [OF ad True chase_last [OF wf this]]
  have te': "te' = te" and add: "appends l (last (chain_idx nx (nds l) (head l te))) v l'" by auto
  note sp = appends_spec [OF add wf rt [OF True] refl]
  show ?thesis using sp True te' rt [OF True] by auto
next
  case False
  then obtain l1 h where s: "starts l (own te) l1 h" and add: "appends l1 h v l'"
    and h: "h < length (nds l')" "linked te'" "target te' = my (nds l' ! h)"
    using adds_plain [OF ad] by auto
  note sp1 = starts_spec [OF s wf]
  note sp2 = appends_spec [OF add sp1(1,4,5)]
  have hd: "head l' te' = h"
    using sp2(1) h by (auto simp: area_wf_def node_ok_def link_index_node_addr)
  show ?thesis using sp1 sp2 False h hd by auto
qed

end

subsection \<open>Tables of buckets over link areas\<close>

text \<open>
  Several tables share several link areas: \<open>T p i\<close> is the entry \<open>i\<close> of table \<open>p\<close>, \<open>P p\<close> the
  area that the table uses, \<open>L k\<close> the area \<open>k\<close>. An entry is empty, holds a value, or points
  to a chain. What it represents is its bucket, the list of the values added to it.
\<close>

locale bucket_store = link_store nx lk my val hook chase start nds appends starts linked target own adds
  for nx :: "'e \<Rightarrow> nat option" and lk :: "'e \<Rightarrow> u64" and my :: "'e \<Rightarrow> u64" and val :: "'e \<Rightarrow> 'v"
    and hook :: "nat \<Rightarrow> u64 \<Rightarrow> 'e \<Rightarrow> 'e" and chase :: "'e list \<Rightarrow> nat \<Rightarrow> nat \<Rightarrow> nat res"
    and start :: "'l \<Rightarrow> addr_t" and nds :: "'l \<Rightarrow> 'e list"
    and appends :: "'l \<Rightarrow> nat \<Rightarrow> 'v \<Rightarrow> 'l \<Rightarrow> bool"
    and starts :: "'l \<Rightarrow> 'v \<Rightarrow> 'l \<Rightarrow> nat \<Rightarrow> bool"
    and linked :: "'t \<Rightarrow> bool" and target :: "'t \<Rightarrow> u64" and own :: "'t \<Rightarrow> 'v"
    and adds :: "'l \<Rightarrow> 'v \<Rightarrow> 't \<Rightarrow> 'l \<Rightarrow> 't \<Rightarrow> bool" +
  fixes vacant :: "'t \<Rightarrow> bool"
  assumes vacant_not_linked: "vacant e \<Longrightarrow> \<not> linked e"
begin

definition sys :: "(nat \<Rightarrow> nat \<Rightarrow> 't option) \<Rightarrow> (nat \<Rightarrow> 'l option) \<Rightarrow> (nat \<Rightarrow> nat option) \<Rightarrow> bool" where
  "sys T L P \<longleftrightarrow>
    (\<forall>k l. L k = Some l \<longrightarrow> wf l) \<and>
    (\<forall>p i e. T p i = Some e \<and> linked e \<longrightarrow>
      (\<exists>k l. P p = Some k \<and> L k = Some l \<and> root l (head l e))) \<and>
    (\<forall>p i e q j e' k l. T p i = Some e \<and> T q j = Some e' \<and> linked e \<and> linked e' \<and>
      P p = Some k \<and> P q = Some k \<and> L k = Some l \<and> head l e = head l e' \<longrightarrow> p = q \<and> i = j)"

definition bucket_of :: "(nat \<Rightarrow> 'l option) \<Rightarrow> nat option \<Rightarrow> 't \<Rightarrow> 'v list" where
  "bucket_of L pk e =
    (if vacant e then []
     else if linked e then (case Option.bind pk L of None \<Rightarrow> [] | Some l \<Rightarrow> vals (nds l) (head l e))
     else [own e])"

lemma sys_wf: "sys T L P \<Longrightarrow> L k = Some l \<Longrightarrow> wf l"
  by (simp add: sys_def)

lemma sys_linked:
  assumes "sys T L P" and "T p i = Some e" and "linked e"
  obtains k l where "P p = Some k" and "L k = Some l" and "root l (head l e)"
  using assms unfolding sys_def by blast

lemma sys_root:
  assumes "sys T L P" and "T p i = Some e" and "linked e" and "P p = Some k" and "L k = Some l"
  shows "root l (head l e)"
  using sys_linked [OF assms(1-3)] assms(4,5) by (metis option.inject)

lemma sys_inj:
  assumes "sys T L P" and "T p i = Some e" and "T q j = Some e'" and "linked e" and "linked e'"
    and "P p = Some k" and "P q = Some k" and "L k = Some l" and "head l e = head l e'"
  shows "p = q \<and> i = j"
  using assms unfolding sys_def by blast

lemma sysI:
  assumes "\<And>k l. L k = Some l \<Longrightarrow> wf l"
    and "\<And>p i e. T p i = Some e \<Longrightarrow> linked e \<Longrightarrow> \<exists>k l. P p = Some k \<and> L k = Some l \<and> root l (head l e)"
    and "\<And>p i e q j e' k l. T p i = Some e \<Longrightarrow> T q j = Some e' \<Longrightarrow> linked e \<Longrightarrow> linked e' \<Longrightarrow>
      P p = Some k \<Longrightarrow> P q = Some k \<Longrightarrow> L k = Some l \<Longrightarrow> head l e = head l e' \<Longrightarrow> p = q \<and> i = j"
  shows "sys T L P"
  unfolding sys_def
  apply (intro conjI)
    apply (intro allI impI, erule assms(1))
   apply (intro allI impI, elim conjE, erule (1) assms(2))
  apply (intro allI impI, elim conjE, rule assms(3), assumption+)
  done

lemma sys_fill:
  assumes sys: "sys T L P" and nl: "\<not> linked e'"
    and T': "\<And>q j. T' q j = (if q = p \<and> j = i then Some e' else T q j)"
  shows "sys T' L P"
proof (rule sysI)
  have T: "T q j = Some f" if "T' q j = Some f" "linked f" for q j f
    using that nl T' [of q j] by (auto split: if_splits)
  show "wf l" if "L k = Some l" for k l using sys_wf [OF sys that] .
  show "\<exists>k l. P q = Some k \<and> L k = Some l \<and> root l (head l f)"
    if "T' q j = Some f" "linked f" for q j f
    by (rule sys_linked [OF sys T [OF that] that(2)]) blast
  show "q = r \<and> j = n"
    if "T' q j = Some f" "T' r n = Some g" "linked f" "linked g" "P q = Some k" "P r = Some k"
      "L k = Some l" "head l f = head l g" for q j f r n g k l
    by (rule sys_inj [OF sys T [OF that(1,3)] T [OF that(2,4)] that(3-8)])
qed

text \<open>
  One value is added to the entry \<open>i\<close> of table \<open>p\<close>, which is not empty: what happens to the
  entry, to the area, and to the entries that use the area.
\<close>

lemma link_own:
  assumes sys: "sys T L P" and e: "T p i = Some e" and P: "P p = Some k" and l: "L k = Some l"
    and ad: "adds l v e l' e'"
  shows "wf l' \<and> start l' = start l \<and> linked e' \<and> root l' (head l' e') \<and>
    vals (nds l') (head l' e') = (if linked e then vals (nds l) (head l e) else [own e]) @ [v]"
  using adds_spec [OF ad sys_wf [OF sys l] sys_root [OF sys e _ P l]]
  by blast

lemma link_root:
  assumes sys: "sys T L P" and e: "T p i = Some e" and P: "P p = Some k" and l: "L k = Some l"
    and ad: "adds l v e l' e'" and "root l g"
  shows "root l' g"
  using adds_spec [OF ad sys_wf [OF sys l] sys_root [OF sys e _ P l]] assms(6) by blast

lemma link_other:
  assumes sys: "sys T L P" and e: "T p i = Some e" and P: "P p = Some k" and l: "L k = Some l"
    and ad: "adds l v e l' e'"
    and f: "T q j = Some f" "linked f" "P q = Some k" "\<not> (q = p \<and> j = i)"
  shows "head l f \<noteq> head l' e' \<and> vals (nds l') (head l f) = vals (nds l) (head l f)"
proof -
  have rt: "root l (head l f)" by (rule sys_root [OF sys f(1-3) l])
  have ne: "linked e \<longrightarrow> head l f \<noteq> head l e"
    using sys_inj [OF sys f(1) e f(2) _ f(3) P l] f(4) by blast
  show ?thesis
    using adds_spec [OF ad sys_wf [OF sys l] sys_root [OF sys e _ P l]] rt ne by blast
qed

lemma bucket_link:
  assumes sys: "sys T L P" and e: "T p i = Some e" and P: "P p = Some k" and l: "L k = Some l"
    and ad: "adds l v e l' e'" and nv: "\<not> vacant e"
    and L': "\<And>m. L' m = (if m = k then Some l' else L m)"
  shows "bucket_of L' (P p) e' = bucket_of L (P p) e @ [v]"
  using link_own [OF sys e P l ad] vacant_not_linked [of e'] nv P l by (auto simp: bucket_of_def L')

lemma bucket_other:
  assumes sys: "sys T L P" and e: "T p i = Some e" and P: "P p = Some k" and l: "L k = Some l"
    and ad: "adds l v e l' e'"
    and L': "\<And>m. L' m = (if m = k then Some l' else L m)"
    and f: "T q j = Some f" "\<not> (q = p \<and> j = i)"
  shows "bucket_of L' (P q) f = bucket_of L (P q) f"
proof (cases "linked f \<and> P q = Some k")
  case True
  have "start l' = start l" using link_own [OF sys e P l ad] by simp
  then show ?thesis
    using link_other [OF sys e P l ad f(1) _ _ f(2)] True l by (simp add: bucket_of_def L')
next
  case False
  then show ?thesis by (cases "P q") (auto simp: bucket_of_def L')
qed

lemma sys_link:
  assumes sys: "sys T L P" and e: "T p i = Some e" and P: "P p = Some k" and l: "L k = Some l"
    and ad: "adds l v e l' e'"
    and T': "\<And>q j. T' q j = (if q = p \<and> j = i then Some e' else T q j)"
    and L': "\<And>m. L' m = (if m = k then Some l' else L m)"
  shows "sys T' L' P"
proof (rule sysI)
  note own = link_own [OF sys e P l ad]
  have hd: "head l' f = head l f" for f using own by simp
  show "wf m" if "L' k' = Some m" for k' m
    using that own sys_wf [OF sys] by (cases "k' = k") (auto simp: L')
  show "\<exists>k l. P q = Some k \<and> L' k = Some l \<and> root l (head l f)"
    if "T' q j = Some f" "linked f" for q j f
  proof (cases "q = p \<and> j = i")
    case True
    then have "f = e'" "P q = Some k" using that(1) P by (simp_all add: T')
    moreover have "root l' (head l' e')" using own by blast
    ultimately show ?thesis by (intro exI [of _ k] exI [of _ l']) (simp add: L')
  next
    case False
    with that(1) have f: "T q j = Some f" by (simp add: T')
    from sys_linked [OF sys f that(2)] obtain k' m
      where km: "P q = Some k'" "L k' = Some m" "root m (head m f)" .
    then show ?thesis
      using link_root [OF sys e P l ad, of "head m f"] l hd by (cases "k' = k") (simp_all add: L')
  qed
  show "q = r \<and> j = n"
    if qr: "T' q j = Some f" "T' r n = Some g" "linked f" "linked g" "P q = Some m" "P r = Some m"
      "L' m = Some l0" "head l0 f = head l0 g" for q j f r n g m l0
  proof (cases "m = k")
    case True
    then have l0: "l0 = l'" and hfg: "head l f = head l g" using qr(7,8) hd by (simp_all add: L')
    have other: "head l' h \<noteq> head l' e'"
      if "T' s t = Some h" "linked h" "P s = Some m" "\<not> (s = p \<and> t = i)" for s t h
      using link_other [OF sys e P l ad _ that(2) _ that(4)] that(1,3,4) True hd by (auto simp: T')
    consider "q = p \<and> j = i" "r = p \<and> n = i" | "q = p \<and> j = i" "\<not> (r = p \<and> n = i)"
      | "\<not> (q = p \<and> j = i)" "r = p \<and> n = i" | "\<not> (q = p \<and> j = i)" "\<not> (r = p \<and> n = i)" by blast
    then show ?thesis
    proof cases
      case 1
      then show ?thesis by simp
    next
      case 2
      then have "f = e'" using qr(1) by (simp add: T')
      with other [OF qr(2,4,6) 2(2)] qr(8) l0 show ?thesis by simp
    next
      case 3
      then have "g = e'" using qr(2) by (simp add: T')
      with other [OF qr(1,3,5) 3(1)] qr(8) l0 show ?thesis by simp
    next
      case 4
      then have "T q j = Some f" "T r n = Some g" using qr(1,2) by (simp_all add: T' split: if_splits)
      from sys_inj [OF sys this qr(3-6) _ hfg] l True show ?thesis by simp
    qed
  next
    case False
    then have ne: "q \<noteq> p" "r \<noteq> p" using qr(5,6) P by auto
    then have "T q j = Some f" "T r n = Some g" "L m = Some l0" using qr(1,2,7) False by (simp_all add: T' L')
    from sys_inj [OF sys this(1,2) qr(3-6) this(3) qr(8)] show ?thesis .
  qed
qed

end

end
