(* ===== verification/Gf_Tsb_Link.thy ===== *)
theory Gf_Tsb_Link
  imports Gf_Vector Gf_Physmap Gf_Image Gf_Chain
begin

text \<open>
  The link areas of \<^verbatim>\<open>tsb_link.c\<close>: the overflow lists of a TSB (translation storage
  buffer), for TSB and for TSBCSM tables. A link area is a vector of nodes; the node
  pointers \<^verbatim>\<open>next\<close> are indices into it. The pointers to blocks that the nodes carry for
  error messages are references to the block (application, block) and to the BLOCK_TSB
  (application, block, position).
\<close>

subsection \<open>Data\<close>

type_synonym block_ref = "nat \<times> nat"
type_synonym block_tsb_ref = "nat \<times> nat \<times> nat"

text \<open>The entries of the tables (\<^verbatim>\<open>tsb.h\<close>).\<close>

record tsb_entry =
  te_tag :: u64
  te_data :: u64
  te_block :: "block_ref option"
  te_block_tsb :: "block_tsb_ref option"

record tsbcsm_entry =
  ce_tag :: u64
  ce_data :: u64
  ce_clump_num :: u64
  ce_block :: "block_ref option"
  ce_block_tsb :: "block_tsb_ref option"

record tsb_link_entry =
  le_tag :: u64
  le_data :: u64
  le_link :: u64
  le_block :: "block_ref option"
  le_block_tsb :: "block_tsb_ref option"
  le_my_link :: u64
  le_next :: "nat option"

record tsbcsm_link_entry =
  cl_tag :: u64
  cl_clump_num :: u64
  cl_link :: u64
  cl_block :: "block_ref option"
  cl_block_tsb :: "block_tsb_ref option"
  cl_my_link :: u64
  cl_next :: "nat option"

record 'e link_area =
  tl_name :: string
  tl_start_addr :: addr_t
  tl_srcfile :: string
  tl_srcline :: int
  tl_entries :: "'e vector"
  tl_lineno :: int

type_synonym tsb_link = "tsb_link_entry link_area"
type_synonym tsbcsm_link = "tsbcsm_link_entry link_area"

text \<open>The module's variables: the vector of link areas and the index of the open one.\<close>

record 'e link_state =
  Link_vector :: "'e link_area vector"
  Open_link_index :: int

definition TSB_LINK_TAG :: u64 where
  "TSB_LINK_TAG = - 1"

definition NO_OPEN_TSB_LINK :: int where
  "NO_OPEN_TSB_LINK = - 1"

definition UNSPECIFIED_START :: addr_t where
  "UNSPECIFIED_START = - 1"

subsection \<open>Initial objects\<close>

definition init_entry :: tsb_link_entry where
  "init_entry =
    \<lparr>le_tag = 0, le_data = 0, le_link = EOL, le_block = None, le_block_tsb = None,
     le_my_link = EOL, le_next = None\<rparr>"

text \<open>
  The nodes of a TSBCSM link area are initialised by the same function, which writes the
  member \<^verbatim>\<open>data\<close>; it lies where \<^verbatim>\<open>clump_num\<close> does.
\<close>

definition init_csm_entry :: tsbcsm_link_entry where
  "init_csm_entry =
    \<lparr>cl_tag = 0, cl_clump_num = 0, cl_link = EOL, cl_block = None, cl_block_tsb = None,
     cl_my_link = EOL, cl_next = None\<rparr>"

definition init_tsb_link :: tsb_link where
  "init_tsb_link =
    \<lparr>tl_name = ''<no_name>'', tl_start_addr = UNSPECIFIED_START, tl_srcfile = ''<unknown>'',
     tl_srcline = 0, tl_entries = init_vector (Some ''TSB_Link_entries'') init_entry,
     tl_lineno = 0\<rparr>"

definition init_tsbcsm_link :: tsbcsm_link where
  "init_tsbcsm_link =
    \<lparr>tl_name = ''<no_name>'', tl_start_addr = UNSPECIFIED_START, tl_srcfile = ''<unknown>'',
     tl_srcline = 0, tl_entries = init_vector (Some ''TSBCSM_Link_entries'') init_csm_entry,
     tl_lineno = 0\<rparr>"

definition clear_tsb_link_vector :: "tsb_link_entry link_state \<Rightarrow> tsb_link_entry link_state" where
  "clear_tsb_link_vector st =
    st\<lparr>Link_vector := init_vector (Some ''Tsb_link_vector'') init_tsb_link\<rparr>"

definition clear_tsbcsm_link_vector ::
  "tsbcsm_link_entry link_state \<Rightarrow> tsbcsm_link_entry link_state" where
  "clear_tsbcsm_link_vector st =
    st\<lparr>Link_vector := init_vector (Some ''Tsbcsm_link_vector'') init_tsbcsm_link\<rparr>"

subsection \<open>The vector of link areas\<close>

definition tsb_link_name_compare :: "string \<Rightarrow> tsb_link \<Rightarrow> bool" where
  "tsb_link_name_compare nm l \<longleftrightarrow> nm = tl_name l"

text \<open>A pointer to a link area is its index in the vector, \<^verbatim>\<open>NULL\<close> is \<open>None\<close>.\<close>

definition get_tsb_link_ptr_by_name :: "tsb_link vector \<Rightarrow> string \<Rightarrow> nat option" where
  "get_tsb_link_ptr_by_name v nm = search_vector v (tsb_link_name_compare nm)"

definition label_link :: "string \<Rightarrow> int \<Rightarrow> 'e link_area \<Rightarrow> 'e link_area" where
  "label_link nm lineno l = l\<lparr>tl_name := nm, tl_lineno := lineno\<rparr>"

definition open_new_tsb_link :: "string \<Rightarrow> int \<Rightarrow> tsb_link_entry link_state \<Rightarrow> tsb_link_entry link_state res" where
  "open_new_tsb_link nm lineno st =
    (let exists_error = (get_tsb_link_ptr_by_name (Link_vector st) nm \<noteq> None);
         (v, new_index) = add_vector_elements (Link_vector st) 1
     in res_bind (vector_modify v (int new_index) (label_link nm lineno)) (\<lambda>v'.
          if exists_error then Inl (Exit M_BADTSB)
          else Inr (st\<lparr>Link_vector := v', Open_link_index := int new_index\<rparr>)))"

definition sanity_check_tsb_link :: "tsb_link \<Rightarrow> unit res" where
  "sanity_check_tsb_link l =
    (if tl_start_addr l = UNSPECIFIED_START then Inl (Exit M_BADTSB) else Inr ())"

definition close_tsb_link :: "tsb_link_entry link_state \<Rightarrow> tsb_link_entry link_state res" where
  "close_tsb_link st =
    (if Open_link_index st = NO_OPEN_TSB_LINK then Inl (Exit M_GOLDFINGERPARSE)
     else res_bind (vector_elem (Link_vector st) (Open_link_index st)) (\<lambda>l.
          res_bind (sanity_check_tsb_link l) (\<lambda>_.
          Inr (st\<lparr>Open_link_index := NO_OPEN_TSB_LINK\<rparr>))))"

text \<open>The \<^verbatim>\<open>SET_TSB_LINK\<close> macros write one member of the open link area.\<close>

definition set_tsb_link ::
  "(tsb_link \<Rightarrow> tsb_link) \<Rightarrow> tsb_link_entry link_state \<Rightarrow> tsb_link_entry link_state res" where
  "set_tsb_link f st =
    res_bind (vector_modify (Link_vector st) (Open_link_index st) f)
      (\<lambda>v. Inr (st\<lparr>Link_vector := v\<rparr>))"

definition set_tsb_link_start_addr :: "addr_t \<Rightarrow> tsb_link_entry link_state \<Rightarrow> tsb_link_entry link_state res" where
  "set_tsb_link_start_addr a = set_tsb_link (\<lambda>l. l\<lparr>tl_start_addr := a\<rparr>)"

definition set_tsb_link_srcfile :: "string \<Rightarrow> tsb_link_entry link_state \<Rightarrow> tsb_link_entry link_state res" where
  "set_tsb_link_srcfile s = set_tsb_link (\<lambda>l. l\<lparr>tl_srcfile := s\<rparr>)"

definition set_tsb_link_srcline :: "int \<Rightarrow> tsb_link_entry link_state \<Rightarrow> tsb_link_entry link_state res" where
  "set_tsb_link_srcline n = set_tsb_link (\<lambda>l. l\<lparr>tl_srcline := n\<rparr>)"

text \<open>The same functions for TSBCSM link areas, which the source has a second time.\<close>

definition tsbcsm_link_name_compare :: "string \<Rightarrow> tsbcsm_link \<Rightarrow> bool" where
  "tsbcsm_link_name_compare nm l \<longleftrightarrow> nm = tl_name l"

definition get_tsbcsm_link_ptr_by_name :: "tsbcsm_link vector \<Rightarrow> string \<Rightarrow> nat option" where
  "get_tsbcsm_link_ptr_by_name v nm = search_vector v (tsbcsm_link_name_compare nm)"

definition open_new_tsbcsm_link ::
  "string \<Rightarrow> int \<Rightarrow> tsbcsm_link_entry link_state \<Rightarrow> tsbcsm_link_entry link_state res" where
  "open_new_tsbcsm_link nm lineno st =
    (let exists_error = (get_tsbcsm_link_ptr_by_name (Link_vector st) nm \<noteq> None);
         (v, new_index) = add_vector_elements (Link_vector st) 1
     in res_bind (vector_modify v (int new_index) (label_link nm lineno)) (\<lambda>v'.
          if exists_error then Inl (Exit M_BADTSB)
          else Inr (st\<lparr>Link_vector := v', Open_link_index := int new_index\<rparr>)))"

definition sanity_check_tsbcsm_link :: "tsbcsm_link \<Rightarrow> unit res" where
  "sanity_check_tsbcsm_link l =
    (if tl_start_addr l = UNSPECIFIED_START then Inl (Exit M_BADTSB) else Inr ())"

definition close_tsbcsm_link ::
  "tsbcsm_link_entry link_state \<Rightarrow> tsbcsm_link_entry link_state res" where
  "close_tsbcsm_link st =
    (if Open_link_index st = NO_OPEN_TSB_LINK then Inl (Exit M_GOLDFINGERPARSE)
     else res_bind (vector_elem (Link_vector st) (Open_link_index st)) (\<lambda>l.
          res_bind (sanity_check_tsbcsm_link l) (\<lambda>_.
          Inr (st\<lparr>Open_link_index := NO_OPEN_TSB_LINK\<rparr>))))"

definition set_tsbcsm_link ::
  "(tsbcsm_link \<Rightarrow> tsbcsm_link) \<Rightarrow> tsbcsm_link_entry link_state \<Rightarrow> tsbcsm_link_entry link_state res" where
  "set_tsbcsm_link f st =
    res_bind (vector_modify (Link_vector st) (Open_link_index st) f)
      (\<lambda>v. Inr (st\<lparr>Link_vector := v\<rparr>))"

definition set_tsbcsm_link_start_addr ::
  "addr_t \<Rightarrow> tsbcsm_link_entry link_state \<Rightarrow> tsbcsm_link_entry link_state res" where
  "set_tsbcsm_link_start_addr a = set_tsbcsm_link (\<lambda>l. l\<lparr>tl_start_addr := a\<rparr>)"

definition set_tsbcsm_link_srcfile ::
  "string \<Rightarrow> tsbcsm_link_entry link_state \<Rightarrow> tsbcsm_link_entry link_state res" where
  "set_tsbcsm_link_srcfile s = set_tsbcsm_link (\<lambda>l. l\<lparr>tl_srcfile := s\<rparr>)"

definition set_tsbcsm_link_srcline ::
  "int \<Rightarrow> tsbcsm_link_entry link_state \<Rightarrow> tsbcsm_link_entry link_state res" where
  "set_tsbcsm_link_srcline n = set_tsbcsm_link (\<lambda>l. l\<lparr>tl_srcline := n\<rparr>)"

subsection \<open>Chains of TSB nodes\<close>

text \<open>
  \<^verbatim>\<open>tsb_link->start_addr + (new_index * LINK_SIZE)\<close>: the product is an \<^verbatim>\<open>int\<close>.
\<close>

definition link_address :: "addr_t \<Rightarrow> nat \<Rightarrow> addr_t res" where
  "link_address start i =
    (if LINK_SIZE * i < 2 ^ 31 then Inr (node_addr start i) else Inl Undefined)"

definition start_new_chain ::
  "tsb_link \<Rightarrow> u64 \<Rightarrow> u64 \<Rightarrow> block_ref option \<Rightarrow> block_tsb_ref option \<Rightarrow> (tsb_link \<times> nat) res" where
  "start_new_chain l tag data blk btsb =
    (let (v, new_index) = add_vector_elements (tl_entries l) 1
     in res_bind (link_address (tl_start_addr l) new_index) (\<lambda>a.
        res_bind (vector_modify v (int new_index) (\<lambda>e.
            e\<lparr>le_tag := tag, le_data := data, le_link := EOL, le_block := blk,
              le_block_tsb := btsb, le_my_link := a, le_next := None\<rparr>)) (\<lambda>v'.
        Inr (l\<lparr>tl_entries := v'\<rparr>, new_index))))"

definition hook_entry :: "nat \<Rightarrow> u64 \<Rightarrow> tsb_link_entry \<Rightarrow> tsb_link_entry" where
  "hook_entry j a e = e\<lparr>le_link := a, le_next := Some j\<rparr>"

definition add_to_chain ::
  "tsb_link \<Rightarrow> nat \<Rightarrow> u64 \<Rightarrow> u64 \<Rightarrow> block_ref option \<Rightarrow> block_tsb_ref option \<Rightarrow> tsb_link res" where
  "add_to_chain l link_entry tag data blk btsb =
    (let (v, new_index) = add_vector_elements (tl_entries l) 1
     in res_bind (link_address (tl_start_addr l) new_index) (\<lambda>a.
        res_bind (vector_modify v (int new_index) (\<lambda>e.
            e\<lparr>le_tag := tag, le_data := data, le_link := EOL, le_my_link := a,
              le_block := blk, le_block_tsb := btsb, le_next := None\<rparr>)) (\<lambda>v'.
        res_bind (vector_modify v' (int link_entry) (hook_entry new_index a)) (\<lambda>v''.
        Inr (l\<lparr>tl_entries := v''\<rparr>)))))"

text \<open>
  \<^verbatim>\<open>while(link_entry->next) link_entry = link_entry->next;\<close> A chain with more steps than
  there are nodes has a cycle, and the loop does not end.
\<close>

fun chase_chain :: "tsb_link_entry list \<Rightarrow> nat \<Rightarrow> nat \<Rightarrow> nat res" where
  "chase_chain es 0 i = Inl Diverges"
| "chase_chain es (Suc n) i =
    (if i < length es
     then case le_next (es ! i) of None \<Rightarrow> Inr i | Some j \<Rightarrow> chase_chain es n j
     else Inl Undefined)"

definition tsb_link_add_entry ::
  "tsb_link \<Rightarrow> u64 \<Rightarrow> u64 \<Rightarrow> tsb_entry \<Rightarrow> block_ref option \<Rightarrow> block_tsb_ref option
    \<Rightarrow> (tsb_link \<times> tsb_entry) res" where
  "tsb_link_add_entry l tag data te blk btsb =
    (if te_tag te = TSB_LINK_TAG then
       (let index = link_index (tl_start_addr l) (te_data te);
            es = elements (tl_entries l)
        in res_bind (vector_elem (tl_entries l) (int index)) (\<lambda>_.
           res_bind (chase_chain es (length es) index) (\<lambda>link_entry.
           res_bind (add_to_chain l link_entry tag data blk btsb) (\<lambda>l'. Inr (l', te)))))
     else
       res_bind (start_new_chain l (te_tag te) (te_data te) blk btsb) (\<lambda>(l1, link_entry).
       res_bind (add_to_chain l1 link_entry tag data blk btsb) (\<lambda>l2.
       res_bind (vector_elem (tl_entries l2) (int link_entry)) (\<lambda>e.
       Inr (l2, te\<lparr>te_tag := TSB_LINK_TAG, te_data := le_my_link e\<rparr>)))))"

subsection \<open>Chains of TSBCSM nodes\<close>

definition start_new_csm_chain ::
  "tsbcsm_link \<Rightarrow> u64 \<Rightarrow> u64 \<Rightarrow> block_ref option \<Rightarrow> block_tsb_ref option \<Rightarrow> (tsbcsm_link \<times> nat) res" where
  "start_new_csm_chain l tag clump blk btsb =
    (let (v, new_index) = add_vector_elements (tl_entries l) 1
     in res_bind (link_address (tl_start_addr l) new_index) (\<lambda>a.
        res_bind (vector_modify v (int new_index) (\<lambda>e.
            e\<lparr>cl_tag := tag, cl_clump_num := clump, cl_link := EOL, cl_block := blk,
              cl_block_tsb := btsb, cl_my_link := a, cl_next := None\<rparr>)) (\<lambda>v'.
        Inr (l\<lparr>tl_entries := v'\<rparr>, new_index))))"

definition hook_csm_entry :: "nat \<Rightarrow> u64 \<Rightarrow> tsbcsm_link_entry \<Rightarrow> tsbcsm_link_entry" where
  "hook_csm_entry j a e = e\<lparr>cl_link := a, cl_next := Some j\<rparr>"

definition add_csm_to_chain ::
  "tsbcsm_link \<Rightarrow> nat \<Rightarrow> u64 \<Rightarrow> u64 \<Rightarrow> block_ref option \<Rightarrow> block_tsb_ref option \<Rightarrow> tsbcsm_link res" where
  "add_csm_to_chain l link_entry tag clump blk btsb =
    (let (v, new_index) = add_vector_elements (tl_entries l) 1
     in res_bind (link_address (tl_start_addr l) new_index) (\<lambda>a.
        res_bind (vector_modify v (int new_index) (\<lambda>e.
            e\<lparr>cl_tag := tag, cl_clump_num := clump, cl_link := EOL, cl_my_link := a,
              cl_block := blk, cl_block_tsb := btsb, cl_next := None\<rparr>)) (\<lambda>v'.
        res_bind (vector_modify v' (int link_entry) (hook_csm_entry new_index a)) (\<lambda>v''.
        Inr (l\<lparr>tl_entries := v''\<rparr>)))))"

fun chase_csm_chain :: "tsbcsm_link_entry list \<Rightarrow> nat \<Rightarrow> nat \<Rightarrow> nat res" where
  "chase_csm_chain es 0 i = Inl Diverges"
| "chase_csm_chain es (Suc n) i =
    (if i < length es
     then case cl_next (es ! i) of None \<Rightarrow> Inr i | Some j \<Rightarrow> chase_csm_chain es n j
     else Inl Undefined)"

text \<open>The parameter \<^verbatim>\<open>tsb_entry\<close> of the C function is not used by it.\<close>

definition tsbcsm_link_add_entry ::
  "tsbcsm_link \<Rightarrow> u64 \<Rightarrow> u64 \<Rightarrow> tsbcsm_entry \<Rightarrow> block_ref option \<Rightarrow> block_tsb_ref option
    \<Rightarrow> (tsbcsm_link \<times> tsbcsm_entry) res" where
  "tsbcsm_link_add_entry l tag clump ce blk btsb =
    (if ce_tag ce = TSB_LINK_TAG then
       (let index = link_index (tl_start_addr l) (ce_data ce);
            es = elements (tl_entries l)
        in res_bind (vector_elem (tl_entries l) (int index)) (\<lambda>_.
           res_bind (chase_csm_chain es (length es) index) (\<lambda>link_entry.
           res_bind (add_csm_to_chain l link_entry tag clump blk btsb) (\<lambda>l'. Inr (l', ce)))))
     else
       res_bind (start_new_csm_chain l (ce_tag ce) (ce_clump_num ce) blk btsb) (\<lambda>(l1, link_entry).
       res_bind (add_csm_to_chain l1 link_entry tag clump blk btsb) (\<lambda>l2.
       res_bind (vector_elem (tl_entries l2) (int link_entry)) (\<lambda>e.
       Inr (l2, ce\<lparr>ce_tag := TSB_LINK_TAG, ce_data := cl_my_link e\<rparr>)))))"

subsection \<open>Output\<close>

definition write_tsb_link_entry :: "tsb_link_entry \<Rightarrow> item list" where
  "write_tsb_link_entry e = [Quad (le_tag e) (le_data e) (le_link e) (le_link e)]"

definition write_tsbcsm_link_entry :: "tsbcsm_link_entry \<Rightarrow> item list" where
  "write_tsbcsm_link_entry e = [Quad (cl_tag e) (cl_clump_num e) (cl_link e) (cl_link e)]"

text \<open>
  The size of the area, \<^verbatim>\<open>VECTOR_LEN(entries) * LINK_SIZE\<close>, is again an \<^verbatim>\<open>int\<close>.
\<close>

definition write_tsb_link :: "tsb_link \<Rightarrow> physmap \<Rightarrow> (physmap \<times> item list) res" where
  "write_tsb_link l pm =
    res_bind (link_address (tl_start_addr l) (VECTOR_LEN (tl_entries l))) (\<lambda>stop.
    res_bind (add_object_to_physmap pm (tl_srcfile l) (tl_srcline l) (tl_lineno l)
        (tl_start_addr l) stop ''TSB_LINK'' (tl_name l)) (\<lambda>pm'.
    Inr (pm', At (tl_start_addr l) (''TSB_LINK '' @ quoted (tl_name l)) #
              concat (map write_tsb_link_entry (elements (tl_entries l))))))"

definition write_tsbcsm_link :: "tsbcsm_link \<Rightarrow> physmap \<Rightarrow> (physmap \<times> item list) res" where
  "write_tsbcsm_link l pm =
    res_bind (link_address (tl_start_addr l) (VECTOR_LEN (tl_entries l))) (\<lambda>stop.
    res_bind (add_object_to_physmap pm (tl_srcfile l) (tl_srcline l) (tl_lineno l)
        (tl_start_addr l) stop ''TSBCSM_LINK'' (tl_name l)) (\<lambda>pm'.
    Inr (pm', At (tl_start_addr l) (''TSBCSM_LINK '' @ quoted (tl_name l)) #
              concat (map write_tsbcsm_link_entry (elements (tl_entries l))))))"

definition write_tsb_links ::
  "tsb_link_entry link_state \<Rightarrow> physmap \<times> item list \<Rightarrow> (physmap \<times> item list) res" where
  "write_tsb_links st s =
    visit_vector (Link_vector st) (\<lambda>l (pm, out).
      res_bind (write_tsb_link l pm) (\<lambda>(pm', is). Inr (pm', out @ is))) s"

definition write_tsbcsm_links ::
  "tsbcsm_link_entry link_state \<Rightarrow> physmap \<times> item list \<Rightarrow> (physmap \<times> item list) res" where
  "write_tsbcsm_links st s =
    visit_vector (Link_vector st) (\<lambda>l (pm, out).
      res_bind (write_tsbcsm_link l pm) (\<lambda>(pm', is). Inr (pm', out @ is))) s"

subsection \<open>The link areas as a registry\<close>

interpretation link_reg: registry "\<lambda>v. add_vector_elements v 1" elements init_elem
  vector_modify search_vector tl_name label_link
  by unfold_locales (simp add: label_link_def)

text \<open>A name can be opened once; afterwards it is found, and every other name as before.\<close>

lemma open_new_tsb_link_dup:
  "get_tsb_link_ptr_by_name (Link_vector st) nm \<noteq> None \<Longrightarrow>
   open_new_tsb_link nm lineno st = Inl (Exit M_BADTSB)"
  using link_reg.open_total [of "Link_vector st" nm lineno]
  by (auto simp: open_new_tsb_link_def Let_def split: prod.splits)

lemma open_new_tsb_link_InrD:
  assumes "open_new_tsb_link nm lineno st = Inr st'"
  shows "get_tsb_link_ptr_by_name (Link_vector st) nm = None \<and>
    Open_link_index st' = int (length (elements (Link_vector st))) \<and>
    get_tsb_link_ptr_by_name (Link_vector st') nm = Some (length (elements (Link_vector st))) \<and>
    (\<forall>m. m \<noteq> nm \<longrightarrow> get_tsb_link_ptr_by_name (Link_vector st') m = get_tsb_link_ptr_by_name (Link_vector st) m) \<and>
    (distinct (map tl_name (elements (Link_vector st))) \<longrightarrow> distinct (map tl_name (elements (Link_vector st'))))"
proof -
  have m: "vector_modify (fst (add_vector_elements (Link_vector st) 1))
      (int (snd (add_vector_elements (Link_vector st) 1))) (label_link nm lineno) = Inr (Link_vector st')"
    and new: "search_vector (Link_vector st) (\<lambda>x. nm = tl_name x) = None"
    and op: "Open_link_index st' = int (snd (add_vector_elements (Link_vector st) 1))"
    using assms
    by (auto simp: open_new_tsb_link_def get_tsb_link_ptr_by_name_def tsb_link_name_compare_def [abs_def]
        gf_res Let_def split: prod.splits if_splits)
  show ?thesis
    using link_reg.open_then_find [OF m new] link_reg.open_finds_others [OF m] link_reg.open_keeps_distinct [OF m new]
      op new elements_add_vector_elements(3) [of "Link_vector st" 1]
    by (simp add: get_tsb_link_ptr_by_name_def tsb_link_name_compare_def [abs_def])
qed

lemma open_new_tsbcsm_link_dup:
  "get_tsbcsm_link_ptr_by_name (Link_vector st) nm \<noteq> None \<Longrightarrow>
   open_new_tsbcsm_link nm lineno st = Inl (Exit M_BADTSB)"
  using link_reg.open_total [of "Link_vector st" nm lineno]
  by (auto simp: open_new_tsbcsm_link_def Let_def split: prod.splits)

lemma open_new_tsbcsm_link_InrD:
  assumes "open_new_tsbcsm_link nm lineno st = Inr st'"
  shows "get_tsbcsm_link_ptr_by_name (Link_vector st) nm = None \<and>
    Open_link_index st' = int (length (elements (Link_vector st))) \<and>
    get_tsbcsm_link_ptr_by_name (Link_vector st') nm = Some (length (elements (Link_vector st))) \<and>
    (\<forall>m. m \<noteq> nm \<longrightarrow> get_tsbcsm_link_ptr_by_name (Link_vector st') m = get_tsbcsm_link_ptr_by_name (Link_vector st) m) \<and>
    (distinct (map tl_name (elements (Link_vector st))) \<longrightarrow> distinct (map tl_name (elements (Link_vector st'))))"
proof -
  have m: "vector_modify (fst (add_vector_elements (Link_vector st) 1))
      (int (snd (add_vector_elements (Link_vector st) 1))) (label_link nm lineno) = Inr (Link_vector st')"
    and new: "search_vector (Link_vector st) (\<lambda>x. nm = tl_name x) = None"
    and op: "Open_link_index st' = int (snd (add_vector_elements (Link_vector st) 1))"
    using assms
    by (auto simp: open_new_tsbcsm_link_def get_tsbcsm_link_ptr_by_name_def tsbcsm_link_name_compare_def [abs_def]
        gf_res Let_def split: prod.splits if_splits)
  show ?thesis
    using link_reg.open_then_find [OF m new] link_reg.open_finds_others [OF m] link_reg.open_keeps_distinct [OF m new]
      op new elements_add_vector_elements(3) [of "Link_vector st" 1]
    by (simp add: get_tsbcsm_link_ptr_by_name_def tsbcsm_link_name_compare_def [abs_def])
qed

end
