(* ===== verification/Gf_Link_Refine.thy ===== *)
theory Gf_Link_Refine
  imports Gf_Tsb_Link
begin

text \<open>
  What a link area represents: for every table entry that was hit more than once, the list
  of the (tag, payload) pairs that were added to it, in the order of the additions. The
  operations of \<open>Gf_Tsb_Link\<close> are shown to implement that list; the chain facts come
  from the two interpretations of \<open>chain_area\<close>.
\<close>

definition tsb_pair :: "tsb_link_entry \<Rightarrow> u64 \<times> u64" where
  "tsb_pair e = (le_tag e, le_data e)"

definition csm_pair :: "tsbcsm_link_entry \<Rightarrow> u64 \<times> u64" where
  "csm_pair e = (cl_tag e, cl_clump_num e)"

interpretation tsbch: chain_area le_next le_link le_my_link tsb_pair hook_entry chase_chain
  by unfold_locales (simp_all add: hook_entry_def tsb_pair_def)

interpretation csmch: chain_area cl_next cl_link cl_my_link csm_pair hook_csm_entry chase_csm_chain
  by unfold_locales (simp_all add: hook_csm_entry_def csm_pair_def)

subsection \<open>Invariant and abstraction\<close>

abbreviation nodes :: "'e link_area \<Rightarrow> 'e list" where
  "nodes l \<equiv> elements (tl_entries l)"

definition link_wf :: "tsb_link \<Rightarrow> bool" where
  "link_wf l \<longleftrightarrow> area_wf le_next le_link le_my_link (tl_start_addr l) (nodes l)"

definition csm_link_wf :: "tsbcsm_link \<Rightarrow> bool" where
  "csm_link_wf l \<longleftrightarrow> area_wf cl_next cl_link cl_my_link (tl_start_addr l) (nodes l)"

definition link_root :: "tsb_link \<Rightarrow> nat \<Rightarrow> bool" where
  "link_root l h \<longleftrightarrow> is_root le_next (nodes l) h"

definition csm_link_root :: "tsbcsm_link \<Rightarrow> nat \<Rightarrow> bool" where
  "csm_link_root l h \<longleftrightarrow> is_root cl_next (nodes l) h"

text \<open>The pairs along the chain that starts at node \<open>h\<close>.\<close>

definition chain_pairs :: "tsb_link \<Rightarrow> nat \<Rightarrow> (u64 \<times> u64) list" where
  "chain_pairs l h = map (\<lambda>k. tsb_pair (nodes l ! k)) (chain_idx le_next (nodes l) h)"

definition csm_chain_pairs :: "tsbcsm_link \<Rightarrow> nat \<Rightarrow> (u64 \<times> u64) list" where
  "csm_chain_pairs l h = map (\<lambda>k. csm_pair (nodes l ! k)) (chain_idx cl_next (nodes l) h)"

text \<open>The node an entry points to.\<close>

abbreviation te_head :: "tsb_link \<Rightarrow> tsb_entry \<Rightarrow> nat" where
  "te_head l te \<equiv> link_index (tl_start_addr l) (te_data te)"

abbreviation ce_head :: "tsbcsm_link \<Rightarrow> tsbcsm_entry \<Rightarrow> nat" where
  "ce_head l ce \<equiv> link_index (tl_start_addr l) (ce_data ce)"

lemma chain_pairs_vals: "chain_pairs l h = tsbch.vals (nodes l) h"
  by (simp add: chain_pairs_def tsbch.vals_def)

lemma csm_chain_pairs_vals: "csm_chain_pairs l h = csmch.vals (nodes l) h"
  by (simp add: csm_chain_pairs_def csmch.vals_def)

lemma link_address_InrD:
  "link_address a i = Inr x \<Longrightarrow> LINK_SIZE * i < 2 ^ 31 \<and> x = node_addr a i"
  by (auto simp: link_address_def split: if_splits)

subsection \<open>The code on lists of nodes\<close>

lemma add_then_modify_nodes:
  assumes "add_vector_elements v (Suc 0) = (v', i)" and "vector_modify v' (int i) f = Inr v''"
  shows "i = length (elements v)" and "elements v'' = elements v @ [f (init_elem v)]"
  using add_vector_elements_1 [OF assms(1) [folded One_nat_def]] vector_modify_InrD [OF assms(2)] by auto

lemma add_to_chain_InrD:
  assumes "add_to_chain l t tag data blk btsb = Inr l'"
  shows "\<exists>e. LINK_SIZE * length (nodes l) < 2 ^ 31 \<and> t \<le> length (nodes l) \<and>
    tl_start_addr l' = tl_start_addr l \<and>
    le_next e = None \<and> le_link e = EOL \<and> tsb_pair e = (tag, data) \<and>
    le_my_link e = node_addr (tl_start_addr l) (length (nodes l)) \<and>
    nodes l' = (nodes l @ [e])[t := hook_entry (length (nodes l))
      (node_addr (tl_start_addr l) (length (nodes l))) ((nodes l @ [e]) ! t)]"
proof -
  obtain v i where v: "add_vector_elements (tl_entries l) (Suc 0) = (v, i)" by (meson surj_pair)
  let ?f = "\<lambda>a e. e\<lparr>le_tag := tag, le_data := data, le_link := EOL, le_my_link := a,
    le_block := blk, le_block_tsb := btsb, le_next := None\<rparr>"
  obtain a v' v'' where a: "link_address (tl_start_addr l) i = Inr a"
    and v': "vector_modify v (int i) (?f a) = Inr v'"
    and v'': "vector_modify v' (int t) (hook_entry i a) = Inr v''" and l': "l' = l\<lparr>tl_entries := v''\<rparr>"
    using assms by (auto simp: add_to_chain_def v gf_res)
  note i = add_then_modify_nodes [OF v v']
  note a' = link_address_InrD [OF a]
  show ?thesis
    using a' i vector_modify_InrD [OF v''] l'
    by (intro exI [of _ "?f a (init_elem (tl_entries l))"]) (auto simp: tsb_pair_def)
qed

lemma add_csm_to_chain_InrD:
  assumes "add_csm_to_chain l t tag clump blk btsb = Inr l'"
  shows "\<exists>e. LINK_SIZE * length (nodes l) < 2 ^ 31 \<and> t \<le> length (nodes l) \<and>
    tl_start_addr l' = tl_start_addr l \<and>
    cl_next e = None \<and> cl_link e = EOL \<and> csm_pair e = (tag, clump) \<and>
    cl_my_link e = node_addr (tl_start_addr l) (length (nodes l)) \<and>
    nodes l' = (nodes l @ [e])[t := hook_csm_entry (length (nodes l))
      (node_addr (tl_start_addr l) (length (nodes l))) ((nodes l @ [e]) ! t)]"
proof -
  obtain v i where v: "add_vector_elements (tl_entries l) (Suc 0) = (v, i)" by (meson surj_pair)
  let ?f = "\<lambda>a e. e\<lparr>cl_tag := tag, cl_clump_num := clump, cl_link := EOL, cl_my_link := a,
    cl_block := blk, cl_block_tsb := btsb, cl_next := None\<rparr>"
  obtain a v' v'' where a: "link_address (tl_start_addr l) i = Inr a"
    and v': "vector_modify v (int i) (?f a) = Inr v'"
    and v'': "vector_modify v' (int t) (hook_csm_entry i a) = Inr v''"
    and l': "l' = l\<lparr>tl_entries := v''\<rparr>"
    using assms by (auto simp: add_csm_to_chain_def v gf_res)
  note i = add_then_modify_nodes [OF v v']
  note a' = link_address_InrD [OF a]
  show ?thesis
    using a' i vector_modify_InrD [OF v''] l'
    by (intro exI [of _ "?f a (init_elem (tl_entries l))"]) (auto simp: csm_pair_def)
qed

lemma start_new_chain_InrD:
  assumes "start_new_chain l tag data blk btsb = Inr (l', h)"
  shows "\<exists>e. h = length (nodes l) \<and> LINK_SIZE * length (nodes l) < 2 ^ 31 \<and>
    tl_start_addr l' = tl_start_addr l \<and> nodes l' = nodes l @ [e] \<and>
    le_next e = None \<and> le_link e = EOL \<and> tsb_pair e = (tag, data) \<and>
    le_my_link e = node_addr (tl_start_addr l) (length (nodes l))"
proof -
  obtain v i where v: "add_vector_elements (tl_entries l) (Suc 0) = (v, i)" by (meson surj_pair)
  obtain a v' where a: "link_address (tl_start_addr l) i = Inr a"
    and v': "vector_modify v (int i) (\<lambda>e. e\<lparr>le_tag := tag, le_data := data, le_link := EOL,
      le_block := blk, le_block_tsb := btsb, le_my_link := a, le_next := None\<rparr>) = Inr v'"
    and l': "l' = l\<lparr>tl_entries := v'\<rparr>" "h = i"
    using assms by (auto simp: start_new_chain_def v gf_res)
  show ?thesis using add_then_modify_nodes [OF v v'] link_address_InrD [OF a] l'
    by (auto simp: tsb_pair_def)
qed

lemma start_new_csm_chain_InrD:
  assumes "start_new_csm_chain l tag clump blk btsb = Inr (l', h)"
  shows "\<exists>e. h = length (nodes l) \<and> LINK_SIZE * length (nodes l) < 2 ^ 31 \<and>
    tl_start_addr l' = tl_start_addr l \<and> nodes l' = nodes l @ [e] \<and>
    cl_next e = None \<and> cl_link e = EOL \<and> csm_pair e = (tag, clump) \<and>
    cl_my_link e = node_addr (tl_start_addr l) (length (nodes l))"
proof -
  obtain v i where v: "add_vector_elements (tl_entries l) (Suc 0) = (v, i)" by (meson surj_pair)
  obtain a v' where a: "link_address (tl_start_addr l) i = Inr a"
    and v': "vector_modify v (int i) (\<lambda>e. e\<lparr>cl_tag := tag, cl_clump_num := clump, cl_link := EOL,
      cl_block := blk, cl_block_tsb := btsb, cl_my_link := a, cl_next := None\<rparr>) = Inr v'"
    and l': "l' = l\<lparr>tl_entries := v'\<rparr>" "h = i"
    using assms by (auto simp: start_new_csm_chain_def v gf_res)
  show ?thesis using add_then_modify_nodes [OF v v'] link_address_InrD [OF a] l'
    by (auto simp: csm_pair_def)
qed

subsection \<open>Adding a pair to an entry\<close>

lemma tsb_link_add_entry_plain:
  assumes "tsb_link_add_entry l tag data te blk btsb = Inr (l', te')" and "te_tag te \<noteq> TSB_LINK_TAG"
  shows "\<exists>l1 h. start_new_chain l (te_tag te) (te_data te) blk btsb = Inr (l1, h) \<and>
    add_to_chain l1 h tag data blk btsb = Inr l' \<and> h < length (nodes l') \<and>
    te_tag te' = TSB_LINK_TAG \<and> te_data te' = le_my_link (nodes l' ! h)"
proof -
  obtain l1 h e where "start_new_chain l (te_tag te) (te_data te) blk btsb = Inr (l1, h)"
    "add_to_chain l1 h tag data blk btsb = Inr l'" "vector_elem (tl_entries l') (int h) = Inr e"
    "te' = te\<lparr>te_tag := TSB_LINK_TAG, te_data := le_my_link e\<rparr>"
    using assms by (auto simp: tsb_link_add_entry_def gf_res split: prod.splits)
  then show ?thesis by (auto simp: vector_elem_def VECTOR_LEN_def split: if_splits)
qed

interpretation tsbst: link_store le_next le_link le_my_link tsb_pair hook_entry chase_chain
  tl_start_addr nodes
  "\<lambda>l t v l'. \<exists>blk btsb. add_to_chain l t (fst v) (snd v) blk btsb = Inr l'"
  "\<lambda>l v l' h. \<exists>blk btsb. start_new_chain l (fst v) (snd v) blk btsb = Inr (l', h)"
  "\<lambda>te. te_tag te = TSB_LINK_TAG" te_data "\<lambda>te. (te_tag te, te_data te)"
  "\<lambda>l v te l' te'. \<exists>blk btsb. tsb_link_add_entry l (fst v) (snd v) te blk btsb = Inr (l', te')"
proof (unfold_locales, goal_cases)
  case (1 l t v l')
  then show ?case by (auto dest!: add_to_chain_InrD)
next
  case (2 l v l' h)
  then show ?case by (auto dest!: start_new_chain_InrD)
next
  case (3 l v te l' te' t)
  then show ?case by (auto simp: tsb_link_add_entry_def Let_def gf_res)
next
  case (4 l v te l' te')
  then show ?case using tsb_link_add_entry_plain by fastforce
qed

lemma tsb_add_entry_InrD:
  assumes "tsb_link_add_entry l tag data te blk btsb = Inr (l', te')" and "link_wf l"
    and "te_tag te = TSB_LINK_TAG \<Longrightarrow> link_root l (te_head l te)"
  shows "link_wf l' \<and> tl_start_addr l' = tl_start_addr l \<and> length (nodes l) < length (nodes l') \<and>
    te_tag te' = TSB_LINK_TAG \<and> link_root l' (te_head l' te') \<and>
    chain_pairs l' (te_head l' te') =
      (if te_tag te = TSB_LINK_TAG then chain_pairs l (te_head l te) else [(te_tag te, te_data te)])
      @ [(tag, data)] \<and>
    (\<forall>g. link_root l g \<longrightarrow> link_root l' g \<and>
      ((te_tag te = TSB_LINK_TAG \<longrightarrow> g \<noteq> te_head l te) \<longrightarrow>
        g \<noteq> te_head l' te' \<and> chain_pairs l' g = chain_pairs l g))"
proof -
  have "\<exists>blk btsb. tsb_link_add_entry l (fst (tag, data)) (snd (tag, data)) te blk btsb = Inr (l', te')"
    using assms(1) by auto
  from tsbst.adds_spec [OF this assms(2) [unfolded link_wf_def] assms(3) [unfolded link_root_def]]
  show ?thesis unfolding link_wf_def link_root_def chain_pairs_vals .
qed

lemma tsbcsm_link_add_entry_plain:
  assumes "tsbcsm_link_add_entry l tag data te blk btsb = Inr (l', te')" and "ce_tag te \<noteq> TSB_LINK_TAG"
  shows "\<exists>l1 h. start_new_csm_chain l (ce_tag te) (ce_clump_num te) blk btsb = Inr (l1, h) \<and>
    add_csm_to_chain l1 h tag data blk btsb = Inr l' \<and> h < length (nodes l') \<and>
    ce_tag te' = TSB_LINK_TAG \<and> ce_data te' = cl_my_link (nodes l' ! h)"
proof -
  obtain l1 h e where "start_new_csm_chain l (ce_tag te) (ce_clump_num te) blk btsb = Inr (l1, h)"
    "add_csm_to_chain l1 h tag data blk btsb = Inr l'" "vector_elem (tl_entries l') (int h) = Inr e"
    "te' = te\<lparr>ce_tag := TSB_LINK_TAG, ce_data := cl_my_link e\<rparr>"
    using assms by (auto simp: tsbcsm_link_add_entry_def gf_res split: prod.splits)
  then show ?thesis by (auto simp: vector_elem_def VECTOR_LEN_def split: if_splits)
qed

interpretation csmst: link_store cl_next cl_link cl_my_link csm_pair hook_csm_entry chase_csm_chain
  tl_start_addr nodes
  "\<lambda>l t v l'. \<exists>blk btsb. add_csm_to_chain l t (fst v) (snd v) blk btsb = Inr l'"
  "\<lambda>l v l' h. \<exists>blk btsb. start_new_csm_chain l (fst v) (snd v) blk btsb = Inr (l', h)"
  "\<lambda>te. ce_tag te = TSB_LINK_TAG" ce_data "\<lambda>te. (ce_tag te, ce_clump_num te)"
  "\<lambda>l v te l' te'. \<exists>blk btsb. tsbcsm_link_add_entry l (fst v) (snd v) te blk btsb = Inr (l', te')"
proof (unfold_locales, goal_cases)
  case (1 l t v l')
  then show ?case by (auto dest!: add_csm_to_chain_InrD)
next
  case (2 l v l' h)
  then show ?case by (auto dest!: start_new_csm_chain_InrD)
next
  case (3 l v te l' te' t)
  then show ?case by (auto simp: tsbcsm_link_add_entry_def Let_def gf_res)
next
  case (4 l v te l' te')
  then show ?case using tsbcsm_link_add_entry_plain by fastforce
qed

lemma csm_add_entry_InrD:
  assumes "tsbcsm_link_add_entry l tag data te blk btsb = Inr (l', te')" and "csm_link_wf l"
    and "ce_tag te = TSB_LINK_TAG \<Longrightarrow> csm_link_root l (ce_head l te)"
  shows "csm_link_wf l' \<and> tl_start_addr l' = tl_start_addr l \<and> length (nodes l) < length (nodes l') \<and>
    ce_tag te' = TSB_LINK_TAG \<and> csm_link_root l' (ce_head l' te') \<and>
    csm_chain_pairs l' (ce_head l' te') =
      (if ce_tag te = TSB_LINK_TAG then csm_chain_pairs l (ce_head l te) else [(ce_tag te, ce_clump_num te)])
      @ [(tag, data)] \<and>
    (\<forall>g. csm_link_root l g \<longrightarrow> csm_link_root l' g \<and>
      ((ce_tag te = TSB_LINK_TAG \<longrightarrow> g \<noteq> ce_head l te) \<longrightarrow>
        g \<noteq> ce_head l' te' \<and> csm_chain_pairs l' g = csm_chain_pairs l g))"
proof -
  have "\<exists>blk btsb. tsbcsm_link_add_entry l (fst (tag, data)) (snd (tag, data)) te blk btsb = Inr (l', te')"
    using assms(1) by auto
  from csmst.adds_spec [OF this assms(2) [unfolded csm_link_wf_def] assms(3) [unfolded csm_link_root_def]]
  show ?thesis unfolding csm_link_wf_def csm_link_root_def csm_chain_pairs_vals .
qed

subsection \<open>When an addition succeeds\<close>

lemma add_modify_total:
  "add_vector_elements v (Suc 0) = (v', i) \<Longrightarrow> \<exists>v''. vector_modify v' (int i) f = Inr v''"
  using vec.add_then_modify [of v f] by auto

lemma start_new_chain_total:
  assumes "LINK_SIZE * length (nodes l) < 2 ^ 31"
  shows "\<exists>r. start_new_chain l tag data blk btsb = Inr r"
proof -
  obtain v i where v: "add_vector_elements (tl_entries l) (Suc 0) = (v, i)" by (meson surj_pair)
  have "i = length (nodes l)" using add_vector_elements_1(1) [OF v [folded One_nat_def]] .
  then have a: "link_address (tl_start_addr l) i = Inr (node_addr (tl_start_addr l) i)"
    using assms by (simp add: link_address_def)
  show ?thesis
    using add_modify_total [OF v, of "\<lambda>e. e\<lparr>le_tag := tag, le_data := data, le_link := EOL,
      le_block := blk, le_block_tsb := btsb, le_my_link := node_addr (tl_start_addr l) i, le_next := None\<rparr>"]
    by (auto simp: start_new_chain_def v a)
qed

lemma add_to_chain_total:
  assumes "LINK_SIZE * length (nodes l) < 2 ^ 31" and "t < length (nodes l)"
  shows "\<exists>l'. add_to_chain l t tag data blk btsb = Inr l'"
proof -
  obtain v i where v: "add_vector_elements (tl_entries l) (Suc 0) = (v, i)" by (meson surj_pair)
  have "i = length (nodes l)" using add_vector_elements_1(1) [OF v [folded One_nat_def]] .
  then have a: "link_address (tl_start_addr l) i = Inr (node_addr (tl_start_addr l) i)"
    using assms by (simp add: link_address_def)
  let ?f = "\<lambda>e. e\<lparr>le_tag := tag, le_data := data, le_link := EOL,
    le_my_link := node_addr (tl_start_addr l) i, le_block := blk, le_block_tsb := btsb, le_next := None\<rparr>"
  obtain v' where v': "vector_modify v (int i) ?f = Inr v'" using add_modify_total [OF v] by blast
  have "t < length (elements v')" using add_then_modify_nodes(2) [OF v v'] assms(2) by simp
  from vector_modify_total [OF this] obtain v'' where
    "vector_modify v' (int t) (hook_entry i (node_addr (tl_start_addr l) i)) = Inr v''" by blast
  then show ?thesis by (simp add: add_to_chain_def v a v')
qed

text \<open>An addition makes at most two nodes, and both must fit.\<close>

lemma tsb_link_add_entry_total:
  assumes wf: "link_wf l" and rt: "te_tag te = TSB_LINK_TAG \<Longrightarrow> link_root l (te_head l te)"
    and room: "LINK_SIZE * Suc (length (nodes l)) < 2 ^ 31"
  shows "\<exists>r. tsb_link_add_entry l tag data te blk btsb = Inr r"
proof (cases "te_tag te = TSB_LINK_TAG")
  case True
  have h: "te_head l te < length (nodes l)" using rt [OF True] by (simp add: link_root_def is_root_def)
  have c: "chase_chain (nodes l) (length (nodes l)) (te_head l te) =
      Inr (last (chain_idx le_next (nodes l) (te_head l te)))"
    using tsbch.chase_last [OF _ h] wf by (simp add: link_wf_def)
  have t: "last (chain_idx le_next (nodes l) (te_head l te)) < length (nodes l)"
    using last_chain_idx [OF _ h] wf by (simp add: link_wf_def)
  have "LINK_SIZE * length (nodes l) < 2 ^ 31" using room by (simp add: LINK_SIZE_def)
  from add_to_chain_total [OF this t] obtain l' where
    "add_to_chain l (last (chain_idx le_next (nodes l) (te_head l te))) tag data blk btsb = Inr l'" by blast
  with c h show ?thesis
    by (auto simp: tsb_link_add_entry_def True Let_def vector_elem_def VECTOR_LEN_def)
next
  case False
  have "LINK_SIZE * length (nodes l) < 2 ^ 31" using room by (simp add: LINK_SIZE_def)
  from start_new_chain_total [OF this] obtain l1 h where
    s: "start_new_chain l (te_tag te) (te_data te) blk btsb = Inr (l1, h)" by (metis surj_pair)
  have l1: "length (nodes l1) = Suc (length (nodes l))" "h < length (nodes l1)"
    using start_new_chain_InrD [OF s] by auto
  then obtain l2 where a: "add_to_chain l1 h tag data blk btsb = Inr l2"
    using add_to_chain_total [of l1 h tag data blk btsb] room by auto
  have "h < length (nodes l2)" using add_to_chain_InrD [OF a] l1 by auto
  with s a False show ?thesis
    by (auto simp: tsb_link_add_entry_def vector_elem_def VECTOR_LEN_def)
qed

lemma start_new_csm_chain_total:
  assumes "LINK_SIZE * length (nodes l) < 2 ^ 31"
  shows "\<exists>r. start_new_csm_chain l tag data blk btsb = Inr r"
proof -
  obtain v i where v: "add_vector_elements (tl_entries l) (Suc 0) = (v, i)" by (meson surj_pair)
  have "i = length (nodes l)" using add_vector_elements_1(1) [OF v [folded One_nat_def]] .
  then have a: "link_address (tl_start_addr l) i = Inr (node_addr (tl_start_addr l) i)"
    using assms by (simp add: link_address_def)
  show ?thesis
    using add_modify_total [OF v, of "\<lambda>e. e\<lparr>cl_tag := tag, cl_clump_num := data, cl_link := EOL,
      cl_block := blk, cl_block_tsb := btsb, cl_my_link := node_addr (tl_start_addr l) i, cl_next := None\<rparr>"]
    by (auto simp: start_new_csm_chain_def v a)
qed

lemma add_csm_to_chain_total:
  assumes "LINK_SIZE * length (nodes l) < 2 ^ 31" and "t < length (nodes l)"
  shows "\<exists>l'. add_csm_to_chain l t tag data blk btsb = Inr l'"
proof -
  obtain v i where v: "add_vector_elements (tl_entries l) (Suc 0) = (v, i)" by (meson surj_pair)
  have "i = length (nodes l)" using add_vector_elements_1(1) [OF v [folded One_nat_def]] .
  then have a: "link_address (tl_start_addr l) i = Inr (node_addr (tl_start_addr l) i)"
    using assms by (simp add: link_address_def)
  let ?f = "\<lambda>e. e\<lparr>cl_tag := tag, cl_clump_num := data, cl_link := EOL,
    cl_my_link := node_addr (tl_start_addr l) i, cl_block := blk, cl_block_tsb := btsb, cl_next := None\<rparr>"
  obtain v' where v': "vector_modify v (int i) ?f = Inr v'" using add_modify_total [OF v] by blast
  have "t < length (elements v')" using add_then_modify_nodes(2) [OF v v'] assms(2) by simp
  from vector_modify_total [OF this] obtain v'' where
    "vector_modify v' (int t) (hook_csm_entry i (node_addr (tl_start_addr l) i)) = Inr v''" by blast
  then show ?thesis by (simp add: add_csm_to_chain_def v a v')
qed

lemma tsbcsm_link_add_entry_total:
  assumes wf: "csm_link_wf l" and rt: "ce_tag te = TSB_LINK_TAG \<Longrightarrow> csm_link_root l (ce_head l te)"
    and room: "LINK_SIZE * Suc (length (nodes l)) < 2 ^ 31"
  shows "\<exists>r. tsbcsm_link_add_entry l tag data te blk btsb = Inr r"
proof (cases "ce_tag te = TSB_LINK_TAG")
  case True
  have h: "ce_head l te < length (nodes l)" using rt [OF True] by (simp add: csm_link_root_def is_root_def)
  have c: "chase_csm_chain (nodes l) (length (nodes l)) (ce_head l te) =
      Inr (last (chain_idx cl_next (nodes l) (ce_head l te)))"
    using csmch.chase_last [OF _ h] wf by (simp add: csm_link_wf_def)
  have t: "last (chain_idx cl_next (nodes l) (ce_head l te)) < length (nodes l)"
    using last_chain_idx [OF _ h] wf by (simp add: csm_link_wf_def)
  have "LINK_SIZE * length (nodes l) < 2 ^ 31" using room by (simp add: LINK_SIZE_def)
  from add_csm_to_chain_total [OF this t] obtain l' where
    "add_csm_to_chain l (last (chain_idx cl_next (nodes l) (ce_head l te))) tag data blk btsb = Inr l'" by blast
  with c h show ?thesis
    by (auto simp: tsbcsm_link_add_entry_def True Let_def vector_elem_def VECTOR_LEN_def)
next
  case False
  have "LINK_SIZE * length (nodes l) < 2 ^ 31" using room by (simp add: LINK_SIZE_def)
  from start_new_csm_chain_total [OF this] obtain l1 h where
    s: "start_new_csm_chain l (ce_tag te) (ce_clump_num te) blk btsb = Inr (l1, h)" by (metis surj_pair)
  have l1: "length (nodes l1) = Suc (length (nodes l))" "h < length (nodes l1)"
    using start_new_csm_chain_InrD [OF s] by auto
  then obtain l2 where a: "add_csm_to_chain l1 h tag data blk btsb = Inr l2"
    using add_csm_to_chain_total [of l1 h tag data blk btsb] room by auto
  have "h < length (nodes l2)" using add_csm_to_chain_InrD [OF a] l1 by auto
  with s a False show ?thesis
    by (auto simp: tsbcsm_link_add_entry_def vector_elem_def VECTOR_LEN_def)
qed

end
