(* ===== verification/Gf_Tsb.thy ===== *)
theory Gf_Tsb
  imports Gf_Link_Refine
begin

text \<open>
  The translation storage buffers of \<^verbatim>\<open>tsb.c\<close>, TSB and TSBCSM: tables of (tag, data)
  entries indexed by bits of a virtual address. The pointer of a table to its link area is
  the index of the area, and a pointer to a table is its index in the vector of tables.
  The messages that the errors print are not modelled.
\<close>

record 'e table =
  t_name :: string
  t_num_entries :: u64
  t_size_bits :: u64
  t_split :: u64
  t_start_addr :: addr_t
  t_link_area :: "string option"
  t_link_ptr :: "nat option"
  t_srcfile :: string
  t_srcline :: int
  t_entries :: "'e list"      \<comment> \<open>the cells of the allocated array, none before\<close>
  t_lineno :: int

type_synonym tsb = "tsb_entry table"
type_synonym tsbcsm = "tsbcsm_entry table"

record 'e tsb_state =
  Tsb_vector :: "'e table vector"
  Open_tsb_index :: int

definition NO_OPEN_TSB :: int where "NO_OPEN_TSB = - 1"

definition TSB_SIZE_MAX :: u64 where "TSB_SIZE_MAX = 15"

definition BYTES_PER_ENTRY :: nat where "BYTES_PER_ENTRY = 16"

subsection \<open>Parsing: opening, setting, closing\<close>

definition init_tsb :: tsb where
  "init_tsb =
    \<lparr>t_name = ''<no_name>'', t_num_entries = 0, t_size_bits = 0, t_split = 0,
     t_start_addr = NO_ADDR, t_link_area = None, t_link_ptr = None, t_srcfile = ''<unknown>'',
     t_srcline = 0, t_entries = [], t_lineno = 0\<rparr>"

definition init_tsbcsm :: tsbcsm where
  "init_tsbcsm =
    \<lparr>t_name = ''<no_name>'', t_num_entries = 0, t_size_bits = 0, t_split = 0,
     t_start_addr = NO_ADDR, t_link_area = None, t_link_ptr = None, t_srcfile = ''<unknown>'',
     t_srcline = 0, t_entries = [], t_lineno = 0\<rparr>"

definition clear_tsb_vector :: "tsb_entry tsb_state \<Rightarrow> tsb_entry tsb_state" where
  "clear_tsb_vector st = st\<lparr>Tsb_vector := init_vector (Some ''Tsb_vector'') init_tsb\<rparr>"

definition clear_tsbcsm_vector :: "tsbcsm_entry tsb_state \<Rightarrow> tsbcsm_entry tsb_state" where
  "clear_tsbcsm_vector st = st\<lparr>Tsb_vector := init_vector (Some ''Tsbcsm_vector'') init_tsbcsm\<rparr>"

definition tsb_name_compare :: "string \<Rightarrow> tsb \<Rightarrow> bool" where
  "tsb_name_compare nm t \<longleftrightarrow> nm = t_name t"

definition tsbcsm_name_compare :: "string \<Rightarrow> tsbcsm \<Rightarrow> bool" where
  "tsbcsm_name_compare nm t \<longleftrightarrow> nm = t_name t"

definition get_tsb_ptr_by_name :: "tsb vector \<Rightarrow> string \<Rightarrow> nat option" where
  "get_tsb_ptr_by_name v nm = search_vector v (tsb_name_compare nm)"

definition get_tsbcsm_ptr_by_name :: "tsbcsm vector \<Rightarrow> string \<Rightarrow> nat option" where
  "get_tsbcsm_ptr_by_name v nm = search_vector v (tsbcsm_name_compare nm)"

definition label_tsb :: "string \<Rightarrow> int \<Rightarrow> 'e table \<Rightarrow> 'e table" where
  "label_tsb nm lineno t = t\<lparr>t_name := nm, t_lineno := lineno\<rparr>"

definition open_new_tsb :: "string \<Rightarrow> int \<Rightarrow> tsb_entry tsb_state \<Rightarrow> tsb_entry tsb_state res" where
  "open_new_tsb nm lineno st =
    (let exists_error = (get_tsb_ptr_by_name (Tsb_vector st) nm \<noteq> None);
         (v, new_index) = add_vector_elements (Tsb_vector st) 1
     in res_bind (vector_modify v (int new_index) (label_tsb nm lineno)) (\<lambda>v'.
          if exists_error then Inl (Exit M_BADTSB)
          else Inr (st\<lparr>Tsb_vector := v', Open_tsb_index := int new_index\<rparr>)))"

definition open_new_tsbcsm ::
  "string \<Rightarrow> int \<Rightarrow> tsbcsm_entry tsb_state \<Rightarrow> tsbcsm_entry tsb_state res" where
  "open_new_tsbcsm nm lineno st =
    (let exists_error = (get_tsbcsm_ptr_by_name (Tsb_vector st) nm \<noteq> None);
         (v, new_index) = add_vector_elements (Tsb_vector st) 1
     in res_bind (vector_modify v (int new_index) (label_tsb nm lineno)) (\<lambda>v'.
          if exists_error then Inl (Exit M_BADTSB)
          else Inr (st\<lparr>Tsb_vector := v', Open_tsb_index := int new_index\<rparr>)))"

definition sanity_check_tsb :: "tsb \<Rightarrow> unit res" where
  "sanity_check_tsb t =
    (if t_size_bits t > TSB_SIZE_MAX then Inl (Exit M_BADTSB)
     else if t_split t > 1 then Inl (Exit M_BADTSB)
     else if t_num_entries t = 0 then Inl (Exit M_BADTSB)
     else if t_start_addr t = NO_ADDR then Inl (Exit M_BADTSB)
     else Inr ())"

definition sanity_check_tsbcsm :: "tsbcsm \<Rightarrow> unit res" where
  "sanity_check_tsbcsm t =
    (if t_size_bits t > TSB_SIZE_MAX then Inl (Exit M_BADTSB)
     else if t_split t > 1 then Inl (Exit M_BADTSB)
     else if t_num_entries t = 0 then Inl (Exit M_BADTSB)
     else if t_start_addr t = NO_ADDR then Inl (Exit M_BADTSB)
     else Inr ())"

definition close_tsb :: "tsb_entry tsb_state \<Rightarrow> tsb_entry tsb_state res" where
  "close_tsb st =
    (if Open_tsb_index st = NO_OPEN_TSB then Inl (Exit M_GOLDFINGERPARSE)
     else res_bind (vector_elem (Tsb_vector st) (Open_tsb_index st)) (\<lambda>t.
          res_bind (sanity_check_tsb t) (\<lambda>_. Inr (st\<lparr>Open_tsb_index := NO_OPEN_TSB\<rparr>))))"

definition close_tsbcsm :: "tsbcsm_entry tsb_state \<Rightarrow> tsbcsm_entry tsb_state res" where
  "close_tsbcsm st =
    (if Open_tsb_index st = NO_OPEN_TSB then Inl (Exit M_GOLDFINGERPARSE)
     else res_bind (vector_elem (Tsb_vector st) (Open_tsb_index st)) (\<lambda>t.
          res_bind (sanity_check_tsbcsm t) (\<lambda>_. Inr (st\<lparr>Open_tsb_index := NO_OPEN_TSB\<rparr>))))"

text \<open>
  The \<^verbatim>\<open>SET_TSB\<close> and \<^verbatim>\<open>SET_TSBCSM\<close> macros write one member of the open table; the
  macro bodies are the same for both kinds.
\<close>

definition set_tsb :: "('e table \<Rightarrow> 'e table) \<Rightarrow> 'e tsb_state \<Rightarrow> 'e tsb_state res" where
  "set_tsb f st =
    res_bind (vector_modify (Tsb_vector st) (Open_tsb_index st) f)
      (\<lambda>v. Inr (st\<lparr>Tsb_vector := v\<rparr>))"

definition set_tsb_num_entries :: "u64 \<Rightarrow> 'e tsb_state \<Rightarrow> 'e tsb_state res" where
  "set_tsb_num_entries x = set_tsb (\<lambda>t. t\<lparr>t_num_entries := x\<rparr>)"

definition set_tsb_size_bits :: "u64 \<Rightarrow> 'e tsb_state \<Rightarrow> 'e tsb_state res" where
  "set_tsb_size_bits x = set_tsb (\<lambda>t. t\<lparr>t_size_bits := x\<rparr>)"

definition set_tsb_split :: "u64 \<Rightarrow> 'e tsb_state \<Rightarrow> 'e tsb_state res" where
  "set_tsb_split x = set_tsb (\<lambda>t. t\<lparr>t_split := x\<rparr>)"

definition set_tsb_srcfile :: "string \<Rightarrow> 'e tsb_state \<Rightarrow> 'e tsb_state res" where
  "set_tsb_srcfile x = set_tsb (\<lambda>t. t\<lparr>t_srcfile := x\<rparr>)"

definition set_tsb_srcline :: "int \<Rightarrow> 'e tsb_state \<Rightarrow> 'e tsb_state res" where
  "set_tsb_srcline x = set_tsb (\<lambda>t. t\<lparr>t_srcline := x\<rparr>)"

definition set_tsb_start_addr :: "u64 \<Rightarrow> 'e tsb_state \<Rightarrow> 'e tsb_state res" where
  "set_tsb_start_addr x = set_tsb (\<lambda>t. t\<lparr>t_start_addr := x\<rparr>)"

definition set_tsb_link_area :: "string \<Rightarrow> 'e tsb_state \<Rightarrow> 'e tsb_state res" where
  "set_tsb_link_area x = set_tsb (\<lambda>t. t\<lparr>t_link_area := Some x\<rparr>)"

subsection \<open>After parsing: link areas and entries\<close>

definition zero_tsb_entry :: tsb_entry where
  "zero_tsb_entry = \<lparr>te_tag = 0, te_data = 0, te_block = None, te_block_tsb = None\<rparr>"

definition zero_tsbcsm_entry :: tsbcsm_entry where
  "zero_tsbcsm_entry =
    \<lparr>ce_tag = 0, ce_data = 0, ce_clump_num = 0, ce_block = None, ce_block_tsb = None\<rparr>"

text \<open>
  The array is allocated with \<^verbatim>\<open>num_entries * sizeof(entry)\<close> bytes, computed in 64 bits;
  an entry has 32 bytes in a TSB and 40 in a TSBCSM. The cells are those that fit.
\<close>

definition alloc_entries :: "u64 \<Rightarrow> u64 \<Rightarrow> 'e \<Rightarrow> 'e list" where
  "alloc_entries num sz e = replicate (unat (num * sz) div unat sz) e"

definition finish_single_tsb_init :: "tsb_link vector \<Rightarrow> tsb \<Rightarrow> tsb res" where
  "finish_single_tsb_init links t =
    res_bind
      (case t_link_area t of
         None \<Rightarrow> Inr t
       | Some nm \<Rightarrow>
          (case get_tsb_link_ptr_by_name links nm of
             None \<Rightarrow> Inl (Exit M_BADTSB)
           | Some p \<Rightarrow> Inr (t\<lparr>t_link_ptr := Some p\<rparr>)))
      (\<lambda>t'. Inr (t'\<lparr>t_entries := alloc_entries (t_num_entries t) 32 zero_tsb_entry\<rparr>))"

definition finish_single_tsbcsm_init :: "tsbcsm_link vector \<Rightarrow> tsbcsm \<Rightarrow> tsbcsm res" where
  "finish_single_tsbcsm_init links t =
    res_bind
      (case t_link_area t of
         None \<Rightarrow> Inr t
       | Some nm \<Rightarrow>
          (case get_tsbcsm_link_ptr_by_name links nm of
             None \<Rightarrow> Inl (Exit M_BADTSB)
           | Some p \<Rightarrow> Inr (t\<lparr>t_link_ptr := Some p\<rparr>)))
      (\<lambda>t'. Inr (t'\<lparr>t_entries := alloc_entries (t_num_entries t) 40 zero_tsbcsm_entry\<rparr>))"

definition finish_tsb_init :: "tsb_link vector \<Rightarrow> tsb_entry tsb_state \<Rightarrow> tsb_entry tsb_state res" where
  "finish_tsb_init links st =
    res_bind (iterate_vector (Tsb_vector st)
        (\<lambda>t s. res_bind (finish_single_tsb_init links t) (\<lambda>t'. Inr (t', s))) ())
      (\<lambda>(v, _). Inr (st\<lparr>Tsb_vector := v\<rparr>))"

definition finish_tsbcsm_init ::
  "tsbcsm_link vector \<Rightarrow> tsbcsm_entry tsb_state \<Rightarrow> tsbcsm_entry tsb_state res" where
  "finish_tsbcsm_init links st =
    res_bind (iterate_vector (Tsb_vector st)
        (\<lambda>t s. res_bind (finish_single_tsbcsm_init links t) (\<lambda>t'. Inr (t', s))) ())
      (\<lambda>(v, _). Inr (st\<lparr>Tsb_vector := v\<rparr>))"

subsection \<open>Adding entries\<close>

definition get_tsb_size_bits :: "tsb \<Rightarrow> u64" where
  "get_tsb_size_bits t = t_size_bits t"

definition get_tsbcsm_size_bits :: "tsbcsm \<Rightarrow> u64" where
  "get_tsbcsm_size_bits t = t_size_bits t"

text \<open>\<^verbatim>\<open>tsb->entries[index]\<close>, read, and written through the pointer.\<close>

definition entry_at :: "'e table \<Rightarrow> u64 \<Rightarrow> 'e res" where
  "entry_at t index =
    (if unat index < length (t_entries t) then Inr (t_entries t ! unat index) else Inl Undefined)"

definition put_entry :: "u64 \<Rightarrow> 'e \<Rightarrow> 'e table \<Rightarrow> 'e table" where
  "put_entry index e t = t\<lparr>t_entries := (t_entries t)[unat index := e]\<rparr>"

type_synonym tsb_heap = "tsb vector \<times> tsb_link vector"
type_synonym tsbcsm_heap = "tsbcsm vector \<times> tsbcsm_link vector"

text \<open>
  The report of a collision reads both blocks and calls \<^verbatim>\<open>tag2va\<close> for both BLOCK_TSBs before the
  program ends. The argument \<open>va_of\<close> is \<^verbatim>\<open>tag2va\<close> of the BLOCK_TSB that a pointer leads to, which
  \<open>Gf_App\<close> looks up in the description.
\<close>

definition collision_exit ::
  "(block_tsb_ref \<Rightarrow> u64 \<Rightarrow> u64 \<Rightarrow> addr_t res) \<Rightarrow> u64 \<Rightarrow> u64 \<Rightarrow> block_ref option \<Rightarrow> block_tsb_ref option
    \<Rightarrow> u64 \<Rightarrow> block_ref option \<Rightarrow> block_tsb_ref option \<Rightarrow> m_error \<Rightarrow> 'a res" where
  "collision_exit va_of index tag blk btsb old_tag old_blk old_btsb code =
    (case (blk, btsb, old_btsb, old_blk) of
       (Some _, Some b, Some b', Some _) \<Rightarrow>
         res_bind (va_of b tag index) (\<lambda>_. res_bind (va_of b' old_tag index) (\<lambda>_. Inl (Exit code)))
     | _ \<Rightarrow> Inl Undefined)"

text \<open>The report reads nothing undefined.\<close>

definition report_ok ::
  "(block_tsb_ref \<Rightarrow> u64 \<Rightarrow> u64 \<Rightarrow> addr_t res) \<Rightarrow> u64 \<Rightarrow> u64 \<Rightarrow> block_ref option \<Rightarrow> block_tsb_ref option
    \<Rightarrow> u64 \<Rightarrow> block_ref option \<Rightarrow> block_tsb_ref option \<Rightarrow> bool" where
  "report_ok va_of index tag blk btsb old_tag old_blk old_btsb \<longleftrightarrow>
    blk \<noteq> None \<and> old_blk \<noteq> None \<and>
    (\<exists>b v. btsb = Some b \<and> va_of b tag index = Inr v) \<and> (\<exists>b v. old_btsb = Some b \<and> va_of b old_tag index = Inr v)"

lemma collision_exit_is:
  assumes "\<And>b t i f. va_of b t i = Inl f \<Longrightarrow> f = Undefined"
  shows "collision_exit va_of index tag blk btsb old_tag old_blk old_btsb code =
    Inl (if report_ok va_of index tag blk btsb old_tag old_blk old_btsb then Exit code else Undefined)"
proof (cases "blk = None \<or> btsb = None \<or> old_btsb = None \<or> old_blk = None")
  case True
  then show ?thesis by (auto simp: collision_exit_def report_ok_def split: option.splits)
next
  case False
  then obtain b b' where b: "btsb = Some b" "old_btsb = Some b'" by auto
  show ?thesis
    using False assms [of b tag index] assms [of b' old_tag index]
    by (cases "va_of b tag index"; cases "va_of b' old_tag index") (auto simp: collision_exit_def report_ok_def b)
qed

lemma collision_exit_not_Inr [simp]:
  "collision_exit va_of index tag blk btsb old_tag old_blk old_btsb code \<noteq> Inr x"
  by (auto simp: collision_exit_def gf_res split: option.splits)

lemma if_collision_eq_Inr [gf_res]:
  "(if c then collision_exit va_of index tag blk btsb old_tag old_blk old_btsb code else r) = Inr x \<longleftrightarrow>
    \<not> c \<and> r = Inr x"
  by simp

definition add_entry ::
  "(block_tsb_ref \<Rightarrow> u64 \<Rightarrow> u64 \<Rightarrow> addr_t res) \<Rightarrow> bool \<Rightarrow> nat \<Rightarrow> u64 \<Rightarrow> u64 \<Rightarrow> u64 \<Rightarrow> block_ref option \<Rightarrow> block_tsb_ref option \<Rightarrow> tsb_heap
    \<Rightarrow> tsb_heap res" where
  "add_entry va_of allow_tsb_conflicts p index tag data blk btsb hp =
    (case hp of (tsbs, links) \<Rightarrow>
     res_bind (vector_elem tsbs (int p)) (\<lambda>t.
       if index \<ge> t_num_entries t then Inl (Exit M_BADTSB)
       else res_bind (entry_at t index) (\<lambda>e.
         if te_tag e = 0 \<and> te_data e = 0 then
           res_bind (vector_modify tsbs (int p) (put_entry index
               (e\<lparr>te_tag := tag, te_data := data, te_block := blk, te_block_tsb := btsb\<rparr>)))
             (\<lambda>tsbs'. Inr (tsbs', links))
         else if \<not> allow_tsb_conflicts then
           collision_exit va_of index tag blk btsb (te_tag e) (te_block e) (te_block_tsb e) M_VACOLLIDE
         else (case t_link_ptr t of
             None \<Rightarrow> collision_exit va_of index tag blk btsb (te_tag e) (te_block e) (te_block_tsb e) M_BADTSB
           | Some lp \<Rightarrow>
              res_bind (vector_elem links (int lp)) (\<lambda>l.
              res_bind (tsb_link_add_entry l tag data e blk btsb) (\<lambda>(l', e').
              res_bind (vector_modify links (int lp) (\<lambda>_. l')) (\<lambda>links'.
              res_bind (vector_modify tsbs (int p) (put_entry index e')) (\<lambda>tsbs'.
              Inr (tsbs', links')))))))))"

text \<open>
  \<^verbatim>\<open>add_entry_csm\<close> also gets the TSB that the same block is added to and passes its entry
  at \<^verbatim>\<open>index\<close> on, where it is not used: only its address is computed. Here \<open>va_of\<close> is \<^verbatim>\<open>csmtag2va\<close>.
\<close>

definition add_entry_csm ::
  "(block_tsb_ref \<Rightarrow> u64 \<Rightarrow> u64 \<Rightarrow> addr_t res) \<Rightarrow> bool \<Rightarrow> nat \<Rightarrow> u64 \<Rightarrow> u64 \<Rightarrow> u64 \<Rightarrow> u64 \<Rightarrow> block_ref option \<Rightarrow> block_tsb_ref option
    \<Rightarrow> tsbcsm_heap \<Rightarrow> tsbcsm_heap res" where
  "add_entry_csm va_of allow_tsb_conflicts p index tag data clump_num blk btsb hp =
    (case hp of (csms, links) \<Rightarrow>
     res_bind (vector_elem csms (int p)) (\<lambda>t.
       if index \<ge> t_num_entries t then Inl (Exit M_BADTSB)
       else res_bind (entry_at t index) (\<lambda>e.
         if ce_tag e = 0 \<and> ce_data e = 0 then
           res_bind (vector_modify csms (int p) (put_entry index
               (e\<lparr>ce_tag := tag, ce_data := data, ce_clump_num := clump_num, ce_block := blk,
                  ce_block_tsb := btsb\<rparr>)))
             (\<lambda>csms'. Inr (csms', links))
         else if \<not> allow_tsb_conflicts then
           collision_exit va_of index tag blk btsb (ce_tag e) (ce_block e) (ce_block_tsb e) M_VACOLLIDE
         else (case t_link_ptr t of
             None \<Rightarrow> collision_exit va_of index tag blk btsb (ce_tag e) (ce_block e) (ce_block_tsb e) M_BADTSB
           | Some lp \<Rightarrow>
              res_bind (vector_elem links (int lp)) (\<lambda>l.
              res_bind (tsbcsm_link_add_entry l tag clump_num e blk btsb) (\<lambda>(l', e').
              res_bind (vector_modify links (int lp) (\<lambda>_. l')) (\<lambda>links'.
              res_bind (vector_modify csms (int p) (put_entry index e')) (\<lambda>csms'.
              Inr (csms', links')))))))))"

subsection \<open>Output\<close>

record write_state =
  w_skip :: bool
  w_printed_data :: bool
  w_last_addr :: addr_t
  w_out :: "item list"

text \<open>What is written when a run of suppressed rows, up to the address \<open>cur\<close>, ends.\<close>

definition close_gap :: "bool \<Rightarrow> addr_t \<Rightarrow> addr_t \<Rightarrow> write_state \<Rightarrow> item list" where
  "close_gap EnvZero start cur st =
    (if EnvZero then
       (if w_printed_data st
        then [Newline, At (w_last_addr st) (from_compressed start)] else [])
       @ [ZeroBytes (cur - w_last_addr st)]
     else [Newline])"

text \<open>One round of the loop: the two entries at \<open>i\<close> and \<open>i + 1\<close>, whose address is \<open>cur\<close>.\<close>

definition write_row ::
  "bool \<Rightarrow> bool \<Rightarrow> addr_t \<Rightarrow> addr_t \<Rightarrow> bool \<Rightarrow> item \<Rightarrow> write_state \<Rightarrow> write_state" where
  "write_row Suppress_zero EnvZero start cur zero row st =
    (if Suppress_zero \<and> zero then
       st\<lparr>w_last_addr := (if w_skip st then w_last_addr st else cur), w_skip := True\<rparr>
     else
       st\<lparr>w_skip := False, w_printed_data := True,
          w_out := w_out st @
            (if w_skip st
             then close_gap EnvZero start cur st @ [At cur (from_compressed start)] else [])
            @ [row]\<rparr>)"

text \<open>
  The loop over the entries, two at a time. With an odd number of entries the last round
  reads one entry behind the array.
\<close>

fun write_rows ::
  "bool \<Rightarrow> bool \<Rightarrow> addr_t \<Rightarrow> ('e \<Rightarrow> bool) \<Rightarrow> ('e \<Rightarrow> u64 \<times> u64) \<Rightarrow> 'e list \<Rightarrow> nat \<Rightarrow> write_state
    \<Rightarrow> write_state res" where
  "write_rows supp env start zero row [] i st = Inr st"
| "write_rows supp env start zero row [e] i st = Inl Undefined"
| "write_rows supp env start zero row (e0 # e1 # es) i st =
    write_rows supp env start zero row es (i + 2)
      (write_row supp env start (start + of_nat (16 * i)) (zero e0 \<and> zero e1)
        (Quad (fst (row e0)) (snd (row e0)) (fst (row e1)) (snd (row e1))) st)"

definition write_table ::
  "bool \<Rightarrow> bool \<Rightarrow> string \<Rightarrow> ('e \<Rightarrow> bool) \<Rightarrow> ('e \<Rightarrow> u64 \<times> u64) \<Rightarrow> 'e table \<Rightarrow> physmap
    \<Rightarrow> (physmap \<times> item list) res" where
  "write_table supp env kind zero row t pm =
    res_bind (add_object_to_physmap pm (t_srcfile t) (t_srcline t) (t_lineno t) (t_start_addr t)
        (t_start_addr t + t_num_entries t * of_nat BYTES_PER_ENTRY) ''TSB'' (t_name t)) (\<lambda>pm'.
    if length (t_entries t) < unat (t_num_entries t) then Inl Undefined
    else
    res_bind (write_rows supp env (t_start_addr t) zero row
        (take (unat (t_num_entries t)) (t_entries t)) 0
        \<lparr>w_skip = False, w_printed_data = False, w_last_addr = t_start_addr t,
         w_out = [At (t_start_addr t) (kind @ '' '' @ quoted (t_name t))]\<rparr>) (\<lambda>st.
    Inr (pm', w_out st @
      (if w_skip st
       then close_gap env (t_start_addr t) (t_start_addr t + of_nat (16 * unat (t_num_entries t))) st
       else []) @ [Newline])))"

definition write_tsb :: "bool \<Rightarrow> bool \<Rightarrow> tsb \<Rightarrow> physmap \<Rightarrow> (physmap \<times> item list) res" where
  "write_tsb supp env t pm =
    write_table supp env ''TSB'' (\<lambda>e. te_tag e = 0 \<and> te_data e = 0) (\<lambda>e. (te_tag e, te_data e)) t pm"

definition write_tsbcsm :: "bool \<Rightarrow> bool \<Rightarrow> tsbcsm \<Rightarrow> physmap \<Rightarrow> (physmap \<times> item list) res" where
  "write_tsbcsm supp env t pm =
    write_table supp env ''TSBCSM'' (\<lambda>e. ce_tag e = 0 \<and> ce_data e = 0)
      (\<lambda>e. (ce_tag e, ce_clump_num e)) t pm"

definition write_tsbs ::
  "bool \<Rightarrow> bool \<Rightarrow> tsb vector \<Rightarrow> physmap \<times> item list \<Rightarrow> (physmap \<times> item list) res" where
  "write_tsbs supp env v s =
    visit_vector v (\<lambda>t (pm, out).
      res_bind (write_tsb supp env t pm) (\<lambda>(pm', is). Inr (pm', out @ is))) s"

definition write_tsbcsms ::
  "bool \<Rightarrow> bool \<Rightarrow> tsbcsm vector \<Rightarrow> physmap \<times> item list \<Rightarrow> (physmap \<times> item list) res" where
  "write_tsbcsms supp env v s =
    visit_vector v (\<lambda>t (pm, out).
      res_bind (write_tsbcsm supp env t pm) (\<lambda>(pm', is). Inr (pm', out @ is))) s"

subsection \<open>The tables as a registry\<close>

interpretation table_reg: registry "\<lambda>v. add_vector_elements v 1" elements init_elem
  vector_modify search_vector t_name label_tsb
  by unfold_locales (simp add: label_tsb_def)

lemma open_new_tsb_dup:
  "get_tsb_ptr_by_name (Tsb_vector st) nm \<noteq> None \<Longrightarrow>
   open_new_tsb nm lineno st = Inl (Exit M_BADTSB)"
  using table_reg.open_total [of "Tsb_vector st" nm lineno]
  by (auto simp: open_new_tsb_def Let_def split: prod.splits)

lemma open_new_tsb_InrD:
  assumes "open_new_tsb nm lineno st = Inr st'"
  shows "get_tsb_ptr_by_name (Tsb_vector st) nm = None \<and>
    Open_tsb_index st' = int (length (elements (Tsb_vector st))) \<and>
    get_tsb_ptr_by_name (Tsb_vector st') nm = Some (length (elements (Tsb_vector st))) \<and>
    (\<forall>m. m \<noteq> nm \<longrightarrow> get_tsb_ptr_by_name (Tsb_vector st') m = get_tsb_ptr_by_name (Tsb_vector st) m) \<and>
    (distinct (map t_name (elements (Tsb_vector st))) \<longrightarrow> distinct (map t_name (elements (Tsb_vector st'))))"
proof -
  have m: "vector_modify (fst (add_vector_elements (Tsb_vector st) 1))
      (int (snd (add_vector_elements (Tsb_vector st) 1))) (label_tsb nm lineno) = Inr (Tsb_vector st')"
    and new: "search_vector (Tsb_vector st) (\<lambda>x. nm = t_name x) = None"
    and op: "Open_tsb_index st' = int (snd (add_vector_elements (Tsb_vector st) 1))"
    using assms
    by (auto simp: open_new_tsb_def get_tsb_ptr_by_name_def tsb_name_compare_def [abs_def]
        gf_res Let_def split: prod.splits if_splits)
  show ?thesis
    using table_reg.open_then_find [OF m new] table_reg.open_finds_others [OF m] table_reg.open_keeps_distinct [OF m new]
      op new elements_add_vector_elements(3) [of "Tsb_vector st" 1]
    by (simp add: get_tsb_ptr_by_name_def tsb_name_compare_def [abs_def])
qed

lemma open_new_tsbcsm_dup:
  "get_tsbcsm_ptr_by_name (Tsb_vector st) nm \<noteq> None \<Longrightarrow>
   open_new_tsbcsm nm lineno st = Inl (Exit M_BADTSB)"
  using table_reg.open_total [of "Tsb_vector st" nm lineno]
  by (auto simp: open_new_tsbcsm_def Let_def split: prod.splits)

lemma open_new_tsbcsm_InrD:
  assumes "open_new_tsbcsm nm lineno st = Inr st'"
  shows "get_tsbcsm_ptr_by_name (Tsb_vector st) nm = None \<and>
    Open_tsb_index st' = int (length (elements (Tsb_vector st))) \<and>
    get_tsbcsm_ptr_by_name (Tsb_vector st') nm = Some (length (elements (Tsb_vector st))) \<and>
    (\<forall>m. m \<noteq> nm \<longrightarrow> get_tsbcsm_ptr_by_name (Tsb_vector st') m = get_tsbcsm_ptr_by_name (Tsb_vector st) m) \<and>
    (distinct (map t_name (elements (Tsb_vector st))) \<longrightarrow> distinct (map t_name (elements (Tsb_vector st'))))"
proof -
  have m: "vector_modify (fst (add_vector_elements (Tsb_vector st) 1))
      (int (snd (add_vector_elements (Tsb_vector st) 1))) (label_tsb nm lineno) = Inr (Tsb_vector st')"
    and new: "search_vector (Tsb_vector st) (\<lambda>x. nm = t_name x) = None"
    and op: "Open_tsb_index st' = int (snd (add_vector_elements (Tsb_vector st) 1))"
    using assms
    by (auto simp: open_new_tsbcsm_def get_tsbcsm_ptr_by_name_def tsbcsm_name_compare_def [abs_def]
        gf_res Let_def split: prod.splits if_splits)
  show ?thesis
    using table_reg.open_then_find [OF m new] table_reg.open_finds_others [OF m] table_reg.open_keeps_distinct [OF m new]
      op new elements_add_vector_elements(3) [of "Tsb_vector st" 1]
    by (simp add: get_tsbcsm_ptr_by_name_def tsbcsm_name_compare_def [abs_def])
qed

end
