(* ===== verification/Gf_Tsb_Refine.thy ===== *)
theory Gf_Tsb_Refine
  imports Gf_Tsb
begin

text \<open>
  What the tables and link areas represent together: every index of a table stands for a
  bucket, the list of the pairs added at that index in the order of the additions. An
  invariant of the whole heap says that no two entries share a chain, and \<^verbatim>\<open>add_entry\<close> is
  shown to append to one bucket and to leave every other one alone.
\<close>

subsection \<open>The heap as maps\<close>

definition cell :: "'e table vector \<Rightarrow> nat \<Rightarrow> nat \<Rightarrow> 'e option" where
  "cell v p i =
    (if p < length (elements v) \<and> i < length (t_entries (elements v ! p))
     then Some (t_entries (elements v ! p) ! i) else None)"

definition area :: "'a vector \<Rightarrow> nat \<Rightarrow> 'a option" where
  "area v k = (if k < length (elements v) then Some (elements v ! k) else None)"

definition link_of :: "'e table vector \<Rightarrow> nat \<Rightarrow> nat option" where
  "link_of v p = (if p < length (elements v) then t_link_ptr (elements v ! p) else None)"

lemma cell_put:
  assumes "vector_modify v (int p) (put_entry ix e) = Inr v'" and "cell v p (unat ix) \<noteq> None"
  shows "cell v' q j = (if q = p \<and> j = unat ix then Some e else cell v q j)"
  using vector_modify_InrD [OF assms(1)] assms(2)
  by (auto simp: cell_def put_entry_def nth_list_update split: if_splits)

lemma link_of_put:
  assumes "vector_modify v (int p) (put_entry ix e) = Inr v'"
  shows "link_of v' = link_of v"
  using vector_modify_InrD [OF assms]
  by (auto simp: link_of_def put_entry_def nth_list_update fun_eq_iff)

lemma area_put:
  assumes "vector_modify v (int k) (\<lambda>_. l) = Inr v'"
  shows "area v' m = (if m = k then Some l else area v m)"
  using vector_modify_InrD [OF assms] by (auto simp: area_def nth_list_update)

lemma vector_elem_area: "vector_elem v (int k) = Inr x \<longleftrightarrow> area v k = Some x"
  by (auto simp: vector_elem_def VECTOR_LEN_def area_def)

lemma entry_at_cell:
  "area v p = Some t \<Longrightarrow> entry_at t ix = Inr e \<longleftrightarrow> cell v p (unat ix) = Some e"
  by (auto simp: entry_at_def cell_def area_def split: if_splits)

subsection \<open>Buckets\<close>

definition te_vacant :: "tsb_entry \<Rightarrow> bool" where
  "te_vacant e \<longleftrightarrow> te_tag e = 0 \<and> te_data e = 0"

definition ce_vacant :: "tsbcsm_entry \<Rightarrow> bool" where
  "ce_vacant e \<longleftrightarrow> ce_tag e = 0 \<and> ce_data e = 0"

interpretation tsbbk: bucket_store le_next le_link le_my_link tsb_pair hook_entry chase_chain
  tl_start_addr nodes
  "\<lambda>l t v l'. \<exists>blk btsb. add_to_chain l t (fst v) (snd v) blk btsb = Inr l'"
  "\<lambda>l v l' h. \<exists>blk btsb. start_new_chain l (fst v) (snd v) blk btsb = Inr (l', h)"
  "\<lambda>te. te_tag te = TSB_LINK_TAG" te_data "\<lambda>te. (te_tag te, te_data te)"
  "\<lambda>l v te l' te'. \<exists>blk btsb. tsb_link_add_entry l (fst v) (snd v) te blk btsb = Inr (l', te')"
  te_vacant
  by unfold_locales (auto simp: te_vacant_def TSB_LINK_TAG_def)

interpretation csmbk: bucket_store cl_next cl_link cl_my_link csm_pair hook_csm_entry chase_csm_chain
  tl_start_addr nodes
  "\<lambda>l t v l'. \<exists>blk btsb. add_csm_to_chain l t (fst v) (snd v) blk btsb = Inr l'"
  "\<lambda>l v l' h. \<exists>blk btsb. start_new_csm_chain l (fst v) (snd v) blk btsb = Inr (l', h)"
  "\<lambda>te. ce_tag te = TSB_LINK_TAG" ce_data "\<lambda>te. (ce_tag te, ce_clump_num te)"
  "\<lambda>l v te l' te'. \<exists>blk btsb. tsbcsm_link_add_entry l (fst v) (snd v) te blk btsb = Inr (l', te')"
  ce_vacant
  by unfold_locales (auto simp: ce_vacant_def TSB_LINK_TAG_def)

text \<open>
  The invariant: every link area is well formed, an entry with the link tag points to the
  start of a chain in the link area of its table, and no two entries of the tables that
  share a link area point to the same chain.
\<close>

definition heap_wf :: "tsb_heap \<Rightarrow> bool" where
  "heap_wf hp \<longleftrightarrow>
    (\<forall>k l. area (snd hp) k = Some l \<longrightarrow> link_wf l) \<and>
    (\<forall>p i e. cell (fst hp) p i = Some e \<and> te_tag e = TSB_LINK_TAG \<longrightarrow>
      (\<exists>k l. link_of (fst hp) p = Some k \<and> area (snd hp) k = Some l \<and> link_root l (te_head l e))) \<and>
    (\<forall>p i e q j e' k l. cell (fst hp) p i = Some e \<and> cell (fst hp) q j = Some e' \<and>
      te_tag e = TSB_LINK_TAG \<and> te_tag e' = TSB_LINK_TAG \<and>
      link_of (fst hp) p = Some k \<and> link_of (fst hp) q = Some k \<and> area (snd hp) k = Some l \<and>
      te_head l e = te_head l e' \<longrightarrow> p = q \<and> i = j)"

definition csm_heap_wf :: "tsbcsm_heap \<Rightarrow> bool" where
  "csm_heap_wf hp \<longleftrightarrow>
    (\<forall>k l. area (snd hp) k = Some l \<longrightarrow> csm_link_wf l) \<and>
    (\<forall>p i e. cell (fst hp) p i = Some e \<and> ce_tag e = TSB_LINK_TAG \<longrightarrow>
      (\<exists>k l. link_of (fst hp) p = Some k \<and> area (snd hp) k = Some l \<and> csm_link_root l (ce_head l e))) \<and>
    (\<forall>p i e q j e' k l. cell (fst hp) p i = Some e \<and> cell (fst hp) q j = Some e' \<and>
      ce_tag e = TSB_LINK_TAG \<and> ce_tag e' = TSB_LINK_TAG \<and>
      link_of (fst hp) p = Some k \<and> link_of (fst hp) q = Some k \<and> area (snd hp) k = Some l \<and>
      ce_head l e = ce_head l e' \<longrightarrow> p = q \<and> i = j)"

definition entry_bucket :: "tsb_link vector \<Rightarrow> nat option \<Rightarrow> tsb_entry \<Rightarrow> (u64 \<times> u64) list" where
  "entry_bucket links pk e =
    (if te_vacant e then []
     else if te_tag e = TSB_LINK_TAG
     then (case Option.bind pk (area links) of None \<Rightarrow> [] | Some l \<Rightarrow> chain_pairs l (te_head l e))
     else [(te_tag e, te_data e)])"

definition csm_entry_bucket :: "tsbcsm_link vector \<Rightarrow> nat option \<Rightarrow> tsbcsm_entry \<Rightarrow> (u64 \<times> u64) list" where
  "csm_entry_bucket links pk e =
    (if ce_vacant e then []
     else if ce_tag e = TSB_LINK_TAG
     then (case Option.bind pk (area links) of None \<Rightarrow> [] | Some l \<Rightarrow> csm_chain_pairs l (ce_head l e))
     else [(ce_tag e, ce_clump_num e)])"

text \<open>The bucket of index \<open>i\<close> of table \<open>p\<close>.\<close>

definition bucket :: "tsb_heap \<Rightarrow> nat \<Rightarrow> nat \<Rightarrow> (u64 \<times> u64) list" where
  "bucket hp p i =
    (case cell (fst hp) p i of None \<Rightarrow> []
     | Some e \<Rightarrow> entry_bucket (snd hp) (link_of (fst hp) p) e)"

definition csm_bucket :: "tsbcsm_heap \<Rightarrow> nat \<Rightarrow> nat \<Rightarrow> (u64 \<times> u64) list" where
  "csm_bucket hp p i =
    (case cell (fst hp) p i of None \<Rightarrow> []
     | Some e \<Rightarrow> csm_entry_bucket (snd hp) (link_of (fst hp) p) e)"

lemma heap_wf_sys: "heap_wf hp \<longleftrightarrow> tsbbk.sys (cell (fst hp)) (area (snd hp)) (link_of (fst hp))"
  by (simp add: heap_wf_def tsbbk.sys_def link_wf_def link_root_def)

lemma csm_heap_wf_sys: "csm_heap_wf hp \<longleftrightarrow> csmbk.sys (cell (fst hp)) (area (snd hp)) (link_of (fst hp))"
  by (simp add: csm_heap_wf_def csmbk.sys_def csm_link_wf_def csm_link_root_def)

lemma entry_bucket_of: "entry_bucket links pk e = tsbbk.bucket_of (area links) pk e"
  by (simp add: entry_bucket_def tsbbk.bucket_of_def chain_pairs_vals cong: option.case_cong)

lemma csm_entry_bucket_of: "csm_entry_bucket links pk e = csmbk.bucket_of (area links) pk e"
  by (simp add: csm_entry_bucket_def csmbk.bucket_of_def csm_chain_pairs_vals cong: option.case_cong)

subsection \<open>Adding an entry\<close>

text \<open>The two ways in which \<^verbatim>\<open>add_entry\<close> succeeds.\<close>

lemma add_entry_cases:
  assumes "add_entry va_of allow p ix tag data blk btsb hp = Inr hp'"
  obtains (fill) e where "cell (fst hp) p (unat ix) = Some e" "te_vacant e"
      "vector_modify (fst hp) (int p) (put_entry ix
        (e\<lparr>te_tag := tag, te_data := data, te_block := blk, te_block_tsb := btsb\<rparr>)) = Inr (fst hp')"
      "snd hp' = snd hp"
  | (link) e k l l' e' where "cell (fst hp) p (unat ix) = Some e" "\<not> te_vacant e" "allow"
      "link_of (fst hp) p = Some k" "area (snd hp) k = Some l"
      "tsb_link_add_entry l tag data e blk btsb = Inr (l', e')"
      "vector_modify (snd hp) (int k) (\<lambda>_. l') = Inr (snd hp')"
      "vector_modify (fst hp) (int p) (put_entry ix e') = Inr (fst hp')"
proof -
  obtain tsbs links where hp: "hp = (tsbs, links)" by (cases hp)
  from assms obtain t e where t: "vector_elem tsbs (int p) = Inr t" and e: "entry_at t ix = Inr e"
    and ix: "\<not> t_num_entries t \<le> ix"
    by (auto simp: add_entry_def hp gf_res)
  have a: "area tsbs p = Some t" and c: "cell (fst hp) p (unat ix) = Some e"
    and lk: "link_of (fst hp) p = t_link_ptr t"
    using t e entry_at_cell [of tsbs p t] by (auto simp: hp vector_elem_area link_of_def area_def split: if_splits)
  show thesis
  proof (cases "te_vacant e")
    case True
    then show thesis
      using assms t e ix c by (intro fill) (auto simp: add_entry_def hp te_vacant_def gf_res)
  next
    case False
    then have nv: "\<not> (te_tag e = 0 \<and> te_data e = 0)" by (simp add: te_vacant_def)
    from assms t e ix obtain k l l' e' where "allow" "t_link_ptr t = Some k" "area links k = Some l"
      "tsb_link_add_entry l tag data e blk btsb = Inr (l', e')"
      "vector_modify links (int k) (\<lambda>_. l') = Inr (snd hp')"
      "vector_modify tsbs (int p) (put_entry ix e') = Inr (fst hp')"
      by (cases "t_link_ptr t") (auto simp: add_entry_def hp if_not_P [OF nv] gf_res vector_elem_area)
    with c False lk show thesis by (intro link) (auto simp: hp)
  qed
qed

lemma add_entry_refines:
  assumes add: "add_entry va_of allow p ix tag data blk btsb hp = Inr hp'" and wf: "heap_wf hp"
    and tag: "tag \<noteq> TSB_LINK_TAG" and nz: "tag \<noteq> 0 \<or> data \<noteq> 0"
  shows "heap_wf hp'" and "bucket hp' q j = bucket hp q j @ (if q = p \<and> j = unat ix then [(tag, data)] else [])"
proof -
  note sys = wf [unfolded heap_wf_sys]
  have "heap_wf hp' \<and> bucket hp' q j = bucket hp q j @ (if q = p \<and> j = unat ix then [(tag, data)] else [])"
    using add
  proof (cases rule: add_entry_cases)
    case (fill e)
    let ?e = "e\<lparr>te_tag := tag, te_data := data, te_block := blk, te_block_tsb := btsb\<rparr>"
    have T': "cell (fst hp') q j = (if q = p \<and> j = unat ix then Some ?e else cell (fst hp) q j)" for q j
      using cell_put [OF fill(3)] fill(1) by simp
    have "heap_wf hp'"
      unfolding heap_wf_sys fill(4) link_of_put [OF fill(3)]
      by (rule tsbbk.sys_fill [OF sys _ T']) (simp add: tag)
    then show ?thesis
      using fill(1,2) tag nz
      by (auto simp: bucket_def T' fill(4) link_of_put [OF fill(3)] entry_bucket_def te_vacant_def cong: option.case_cong)
  next
    case (link e k l l' e')
    have ad: "\<exists>blk btsb. tsb_link_add_entry l (fst (tag, data)) (snd (tag, data)) e blk btsb = Inr (l', e')"
      using link(6) by auto
    have T': "cell (fst hp') q j = (if q = p \<and> j = unat ix then Some e' else cell (fst hp) q j)" for q j
      using cell_put [OF link(8)] link(1) by simp
    note L' = area_put [OF link(7)]
    note P' = link_of_put [OF link(8)]
    have "heap_wf hp'"
      unfolding heap_wf_sys P' by (rule tsbbk.sys_link [OF sys link(1,4,5) ad T' L'])
    moreover have "bucket hp' p (unat ix) = bucket hp p (unat ix) @ [(tag, data)]"
      using tsbbk.bucket_link [OF sys link(1,4,5) ad link(2) L'] link(1)
      by (simp add: bucket_def T' P' entry_bucket_of)
    moreover have "bucket hp' q j = bucket hp q j" if "\<not> (q = p \<and> j = unat ix)"
      using tsbbk.bucket_other [OF sys link(1,4,5) ad L' _ that] that
      by (auto simp: bucket_def T' P' entry_bucket_of split: option.splits)
    ultimately show ?thesis by auto
  qed
  then show "heap_wf hp'" and "bucket hp' q j = bucket hp q j @ (if q = p \<and> j = unat ix then [(tag, data)] else [])"
    by simp_all
qed

text \<open>The same for \<^verbatim>\<open>add_entry_csm\<close>.\<close>

lemma add_entry_csm_cases:
  assumes "add_entry_csm va_of allow p ix tag data clump blk btsb hp = Inr hp'"
  obtains (fill) e where "cell (fst hp) p (unat ix) = Some e" "ce_vacant e"
      "vector_modify (fst hp) (int p) (put_entry ix
        (e\<lparr>ce_tag := tag, ce_data := data, ce_clump_num := clump, ce_block := blk, ce_block_tsb := btsb\<rparr>)) = Inr (fst hp')"
      "snd hp' = snd hp"
  | (link) e k l l' e' where "cell (fst hp) p (unat ix) = Some e" "\<not> ce_vacant e" "allow"
      "link_of (fst hp) p = Some k" "area (snd hp) k = Some l"
      "tsbcsm_link_add_entry l tag clump e blk btsb = Inr (l', e')"
      "vector_modify (snd hp) (int k) (\<lambda>_. l') = Inr (snd hp')"
      "vector_modify (fst hp) (int p) (put_entry ix e') = Inr (fst hp')"
proof -
  obtain tsbs links where hp: "hp = (tsbs, links)" by (cases hp)
  from assms obtain t e where t: "vector_elem tsbs (int p) = Inr t" and e: "entry_at t ix = Inr e"
    and ix: "\<not> t_num_entries t \<le> ix"
    by (auto simp: add_entry_csm_def hp gf_res)
  have a: "area tsbs p = Some t" and c: "cell (fst hp) p (unat ix) = Some e"
    and lk: "link_of (fst hp) p = t_link_ptr t"
    using t e entry_at_cell [of tsbs p t] by (auto simp: hp vector_elem_area link_of_def area_def split: if_splits)
  show thesis
  proof (cases "ce_vacant e")
    case True
    then show thesis
      using assms t e ix c by (intro fill) (auto simp: add_entry_csm_def hp ce_vacant_def gf_res)
  next
    case False
    then have nv: "\<not> (ce_tag e = 0 \<and> ce_data e = 0)" by (simp add: ce_vacant_def)
    from assms t e ix obtain k l l' e' where "allow" "t_link_ptr t = Some k" "area links k = Some l"
      "tsbcsm_link_add_entry l tag clump e blk btsb = Inr (l', e')"
      "vector_modify links (int k) (\<lambda>_. l') = Inr (snd hp')"
      "vector_modify tsbs (int p) (put_entry ix e') = Inr (fst hp')"
      by (cases "t_link_ptr t") (auto simp: add_entry_csm_def hp if_not_P [OF nv] gf_res vector_elem_area)
    with c False lk show thesis by (intro link) (auto simp: hp)
  qed
qed

lemma add_entry_csm_refines:
  assumes add: "add_entry_csm va_of allow p ix tag data clump blk btsb hp = Inr hp'" and wf: "csm_heap_wf hp"
    and tag: "tag \<noteq> TSB_LINK_TAG" and nz: "tag \<noteq> 0 \<or> data \<noteq> 0"
  shows "csm_heap_wf hp'" and "csm_bucket hp' q j = csm_bucket hp q j @ (if q = p \<and> j = unat ix then [(tag, clump)] else [])"
proof -
  note sys = wf [unfolded csm_heap_wf_sys]
  have "csm_heap_wf hp' \<and> csm_bucket hp' q j = csm_bucket hp q j @ (if q = p \<and> j = unat ix then [(tag, clump)] else [])"
    using add
  proof (cases rule: add_entry_csm_cases)
    case (fill e)
    let ?e = "e\<lparr>ce_tag := tag, ce_data := data, ce_clump_num := clump, ce_block := blk, ce_block_tsb := btsb\<rparr>"
    have T': "cell (fst hp') q j = (if q = p \<and> j = unat ix then Some ?e else cell (fst hp) q j)" for q j
      using cell_put [OF fill(3)] fill(1) by simp
    have "csm_heap_wf hp'"
      unfolding csm_heap_wf_sys fill(4) link_of_put [OF fill(3)]
      by (rule csmbk.sys_fill [OF sys _ T']) (simp add: tag)
    then show ?thesis
      using fill(1,2) tag nz
      by (auto simp: csm_bucket_def T' fill(4) link_of_put [OF fill(3)] csm_entry_bucket_def ce_vacant_def cong: option.case_cong)
  next
    case (link e k l l' e')
    have ad: "\<exists>blk btsb. tsbcsm_link_add_entry l (fst (tag, clump)) (snd (tag, clump)) e blk btsb = Inr (l', e')"
      using link(6) by auto
    have T': "cell (fst hp') q j = (if q = p \<and> j = unat ix then Some e' else cell (fst hp) q j)" for q j
      using cell_put [OF link(8)] link(1) by simp
    note L' = area_put [OF link(7)]
    note P' = link_of_put [OF link(8)]
    have "csm_heap_wf hp'"
      unfolding csm_heap_wf_sys P' by (rule csmbk.sys_link [OF sys link(1,4,5) ad T' L'])
    moreover have "csm_bucket hp' p (unat ix) = csm_bucket hp p (unat ix) @ [(tag, clump)]"
      using csmbk.bucket_link [OF sys link(1,4,5) ad link(2) L'] link(1)
      by (simp add: csm_bucket_def T' P' csm_entry_bucket_of)
    moreover have "csm_bucket hp' q j = csm_bucket hp q j" if "\<not> (q = p \<and> j = unat ix)"
      using csmbk.bucket_other [OF sys link(1,4,5) ad L' _ that] that
      by (auto simp: csm_bucket_def T' P' csm_entry_bucket_of split: option.splits)
    ultimately show ?thesis by auto
  qed
  then show "csm_heap_wf hp'" and "csm_bucket hp' q j = csm_bucket hp q j @ (if q = p \<and> j = unat ix then [(tag, clump)] else [])"
    by simp_all
qed

subsection \<open>The outcome of an addition\<close>

text \<open>
  The operation decides in this order: an index out of range, an empty entry, a conflict
  that is not allowed, a conflict without a link area, an overflow chain. In a well formed
  heap with room in the link area nothing else can happen.
\<close>

lemma add_entry_outcome:
  assumes wf: "heap_wf hp" and t: "area (fst hp) p = Some t"
    and alloc: "unat (t_num_entries t) \<le> length (t_entries t)"
    and lk: "\<And>k. t_link_ptr t = Some k \<Longrightarrow>
      \<exists>l. area (snd hp) k = Some l \<and> LINK_SIZE * Suc (length (nodes l)) < 2 ^ 31"
  shows "t_num_entries t \<le> ix \<Longrightarrow> add_entry va_of allow p ix tag data blk btsb hp = Inl (Exit M_BADTSB)"
    and "ix < t_num_entries t \<Longrightarrow> \<exists>e. cell (fst hp) p (unat ix) = Some e \<and>
      (if te_vacant e then \<exists>hp'. add_entry va_of allow p ix tag data blk btsb hp = Inr hp'
       else if \<not> allow then add_entry va_of allow p ix tag data blk btsb hp =
         collision_exit va_of ix tag blk btsb (te_tag e) (te_block e) (te_block_tsb e) M_VACOLLIDE
       else if t_link_ptr t = None then add_entry va_of allow p ix tag data blk btsb hp =
         collision_exit va_of ix tag blk btsb (te_tag e) (te_block e) (te_block_tsb e) M_BADTSB
       else \<exists>hp'. add_entry va_of allow p ix tag data blk btsb hp = Inr hp')"
proof -
  obtain tsbs links where hp: "hp = (tsbs, links)" by (cases hp)
  have t': "vector_elem tsbs (int p) = Inr t" using t by (simp add: hp vector_elem_area)
  have pl: "p < length (elements tsbs)" and et: "elements tsbs ! p = t"
    using t by (auto simp: hp area_def split: if_splits)
  show "t_num_entries t \<le> ix \<Longrightarrow> add_entry va_of allow p ix tag data blk btsb hp = Inl (Exit M_BADTSB)"
    by (simp add: add_entry_def hp t')
  assume ix: "ix < t_num_entries t"
  then have il: "unat ix < length (t_entries t)" using alloc by (simp add: word_less_nat_alt)
  let ?e = "t_entries t ! unat ix"
  have e: "entry_at t ix = Inr ?e" and c: "cell (fst hp) p (unat ix) = Some ?e"
    using il pl et by (simp_all add: entry_at_def cell_def hp)
  have put: "\<exists>v. vector_modify tsbs (int p) f = Inr v" for f by (rule vector_modify_total [OF pl])
  show "\<exists>e. cell (fst hp) p (unat ix) = Some e \<and>
      (if te_vacant e then \<exists>hp'. add_entry va_of allow p ix tag data blk btsb hp = Inr hp'
       else if \<not> allow then add_entry va_of allow p ix tag data blk btsb hp =
         collision_exit va_of ix tag blk btsb (te_tag e) (te_block e) (te_block_tsb e) M_VACOLLIDE
       else if t_link_ptr t = None then add_entry va_of allow p ix tag data blk btsb hp =
         collision_exit va_of ix tag blk btsb (te_tag e) (te_block e) (te_block_tsb e) M_BADTSB
       else \<exists>hp'. add_entry va_of allow p ix tag data blk btsb hp = Inr hp')"
  proof (cases "te_vacant ?e \<or> \<not> allow \<or> t_link_ptr t = None")
    case True
    then show ?thesis
      using c e ix put [of "put_entry ix (?e\<lparr>te_tag := tag, te_data := data, te_block := blk, te_block_tsb := btsb\<rparr>)"]
      by (auto simp: add_entry_def hp t' te_vacant_def not_le)
  next
    case False
    then obtain k l where k: "t_link_ptr t = Some k" "area links k = Some l"
      "LINK_SIZE * Suc (length (nodes l)) < 2 ^ 31" using lk hp by auto
    have "link_wf l" using tsbbk.sys_wf [OF wf [unfolded heap_wf_sys]] k(2) hp by (simp add: link_wf_def)
    moreover have "te_tag ?e = TSB_LINK_TAG \<Longrightarrow> link_root l (te_head l ?e)"
      using tsbbk.sys_root [OF wf [unfolded heap_wf_sys] c] k pl et by (simp add: hp link_root_def link_of_def)
    ultimately obtain l' e' where a: "tsb_link_add_entry l tag data ?e blk btsb = Inr (l', e')"
      using tsb_link_add_entry_total [of l ?e tag data blk btsb] k(3) by (metis surj_pair)
    have le: "vector_elem links (int k) = Inr l" using k(2) by (simp add: vector_elem_area)
    have kl: "k < length (elements links)" using k(2) by (auto simp: area_def split: if_splits)
    obtain v where "vector_modify links (int k) (\<lambda>_. l') = Inr v" using vector_modify_total [OF kl] by blast
    with False c e ix a k le put [of "put_entry ix e'"] show ?thesis
      by (auto simp: add_entry_def hp t' te_vacant_def not_le)
  qed
qed

lemma add_entry_csm_outcome:
  assumes wf: "csm_heap_wf hp" and t: "area (fst hp) p = Some t"
    and alloc: "unat (t_num_entries t) \<le> length (t_entries t)"
    and lk: "\<And>k. t_link_ptr t = Some k \<Longrightarrow>
      \<exists>l. area (snd hp) k = Some l \<and> LINK_SIZE * Suc (length (nodes l)) < 2 ^ 31"
  shows "t_num_entries t \<le> ix \<Longrightarrow> add_entry_csm va_of allow p ix tag data clump blk btsb hp = Inl (Exit M_BADTSB)"
    and "ix < t_num_entries t \<Longrightarrow> \<exists>e. cell (fst hp) p (unat ix) = Some e \<and>
      (if ce_vacant e then \<exists>hp'. add_entry_csm va_of allow p ix tag data clump blk btsb hp = Inr hp'
       else if \<not> allow then add_entry_csm va_of allow p ix tag data clump blk btsb hp =
         collision_exit va_of ix tag blk btsb (ce_tag e) (ce_block e) (ce_block_tsb e) M_VACOLLIDE
       else if t_link_ptr t = None then add_entry_csm va_of allow p ix tag data clump blk btsb hp =
         collision_exit va_of ix tag blk btsb (ce_tag e) (ce_block e) (ce_block_tsb e) M_BADTSB
       else \<exists>hp'. add_entry_csm va_of allow p ix tag data clump blk btsb hp = Inr hp')"
proof -
  obtain tsbs links where hp: "hp = (tsbs, links)" by (cases hp)
  have t': "vector_elem tsbs (int p) = Inr t" using t by (simp add: hp vector_elem_area)
  have pl: "p < length (elements tsbs)" and et: "elements tsbs ! p = t"
    using t by (auto simp: hp area_def split: if_splits)
  show "t_num_entries t \<le> ix \<Longrightarrow> add_entry_csm va_of allow p ix tag data clump blk btsb hp = Inl (Exit M_BADTSB)"
    by (simp add: add_entry_csm_def hp t')
  assume ix: "ix < t_num_entries t"
  then have il: "unat ix < length (t_entries t)" using alloc by (simp add: word_less_nat_alt)
  let ?e = "t_entries t ! unat ix"
  have e: "entry_at t ix = Inr ?e" and c: "cell (fst hp) p (unat ix) = Some ?e"
    using il pl et by (simp_all add: entry_at_def cell_def hp)
  have put: "\<exists>v. vector_modify tsbs (int p) f = Inr v" for f by (rule vector_modify_total [OF pl])
  show "\<exists>e. cell (fst hp) p (unat ix) = Some e \<and>
      (if ce_vacant e then \<exists>hp'. add_entry_csm va_of allow p ix tag data clump blk btsb hp = Inr hp'
       else if \<not> allow then add_entry_csm va_of allow p ix tag data clump blk btsb hp =
         collision_exit va_of ix tag blk btsb (ce_tag e) (ce_block e) (ce_block_tsb e) M_VACOLLIDE
       else if t_link_ptr t = None then add_entry_csm va_of allow p ix tag data clump blk btsb hp =
         collision_exit va_of ix tag blk btsb (ce_tag e) (ce_block e) (ce_block_tsb e) M_BADTSB
       else \<exists>hp'. add_entry_csm va_of allow p ix tag data clump blk btsb hp = Inr hp')"
  proof (cases "ce_vacant ?e \<or> \<not> allow \<or> t_link_ptr t = None")
    case True
    then show ?thesis
      using c e ix put [of "put_entry ix (?e\<lparr>ce_tag := tag, ce_data := data, ce_clump_num := clump, ce_block := blk, ce_block_tsb := btsb\<rparr>)"]
      by (auto simp: add_entry_csm_def hp t' ce_vacant_def not_le)
  next
    case False
    then obtain k l where k: "t_link_ptr t = Some k" "area links k = Some l"
      "LINK_SIZE * Suc (length (nodes l)) < 2 ^ 31" using lk hp by auto
    have "csm_link_wf l" using csmbk.sys_wf [OF wf [unfolded csm_heap_wf_sys]] k(2) hp by (simp add: csm_link_wf_def)
    moreover have "ce_tag ?e = TSB_LINK_TAG \<Longrightarrow> csm_link_root l (ce_head l ?e)"
      using csmbk.sys_root [OF wf [unfolded csm_heap_wf_sys] c] k pl et by (simp add: hp csm_link_root_def link_of_def)
    ultimately obtain l' e' where a: "tsbcsm_link_add_entry l tag clump ?e blk btsb = Inr (l', e')"
      using tsbcsm_link_add_entry_total [of l ?e tag clump blk btsb] k(3) by (metis surj_pair)
    have le: "vector_elem links (int k) = Inr l" using k(2) by (simp add: vector_elem_area)
    have kl: "k < length (elements links)" using k(2) by (auto simp: area_def split: if_splits)
    obtain v where "vector_modify links (int k) (\<lambda>_. l') = Inr v" using vector_modify_total [OF kl] by blast
    with False c e ix a k le put [of "put_entry ix e'"] show ?thesis
      by (auto simp: add_entry_csm_def hp t' ce_vacant_def not_le)
  qed
qed

end
