(* ===== verification/Gf_Block_Tsb.thy ===== *)
theory Gf_Block_Tsb
  imports Gf_Tsb_Refine
begin

text \<open>
  Blocks and their BLOCK_TSB objects, the data of \<^verbatim>\<open>block.h\<close> and \<^verbatim>\<open>block_tsb.h\<close>, and the
  operations of \<^verbatim>\<open>block_tsb.c\<close>: the checks on a BLOCK_TSB, and the loop that enters the
  pages of a block into a table. The member \<^verbatim>\<open>block\<close> of a BLOCK_TSB points back to the
  block that contains it, which is an argument here.
\<close>

definition NO_BITS :: int where "NO_BITS = - 1"

record block_tsb =
  bt_name :: string
  bt_tsb :: "nat option"
  bt_va_index_bits :: bit_range
  bt_tag_addr_bits :: bit_range
  bt_tte_tag_addr_bits :: bit_range
  bt_data_addr_bits :: bit_range
  bt_page_size :: u64
  bt_tag_base :: addr_t
  bt_data_base :: addr_t
  bt_srcfile :: string
  bt_srcline :: int
  bt_lineno :: int

text \<open>
  The bit ranges that \<^verbatim>\<open>init_block_tsbcsm\<close> leaves uninitialised have no value.
\<close>

record block_tsbcsm =
  bc_name :: string
  bc_tsbcsm :: "nat option"
  bc_va_index_bits :: "bit_range option"
  bc_tag_addr_bits :: "bit_range option"
  bc_tte_tag_addr_bits :: "bit_range option"
  bc_clump_num :: u64
  bc_srcfile :: string
  bc_srcline :: int
  bc_lineno :: int

record block =
  b_name :: string
  b_section_name :: string
  b_segment_name :: string
  b_link_section :: "string option"
  b_compress :: int
  b_va :: addr_t
  b_ra :: addr_t
  b_pa :: addr_t
  b_in_image :: int
  b_end_va :: addr_t
  b_start_label :: "string option"
  b_end_label :: "string option"
  b_tsbs :: "block_tsb vector"
  b_tsbcsms :: "block_tsbcsm vector"
  b_no_end_range_check :: "int option"    \<comment> \<open>\<open>None\<close> until it is set\<close>
  b_ra_eq_va :: int
  b_pa_eq_va :: int
  b_linked_section_obj :: "nat option"
  b_srcfile :: string
  b_srcline :: int
  b_lineno :: int
  b_d_offset :: addr_t
  b_d_length :: addr_t
  b_open_block_tsb_index :: int
  b_open_block_tsbcsm_index :: int

subsection \<open>Initialisation\<close>

definition no_bits :: bit_range where
  "no_bits = \<lparr>hi = NO_BITS, lo = NO_BITS\<rparr>"

definition init_block_tsb :: block_tsb where
  "init_block_tsb =
    \<lparr>bt_name = ''<no_name>'', bt_tsb = None, bt_va_index_bits = no_bits,
     bt_tag_addr_bits = no_bits, bt_tte_tag_addr_bits = no_bits, bt_data_addr_bits = no_bits,
     bt_page_size = 0, bt_tag_base = NO_ADDR, bt_data_base = NO_ADDR,
     bt_srcfile = ''<unknown>'', bt_srcline = 0, bt_lineno = 0\<rparr>"

definition init_block_tsbcsm :: block_tsbcsm where
  "init_block_tsbcsm =
    \<lparr>bc_name = ''<no_name>'', bc_tsbcsm = None, bc_va_index_bits = None, bc_tag_addr_bits = None,
     bc_tte_tag_addr_bits = None, bc_clump_num = 0, bc_srcfile = ''<unknown>'', bc_srcline = 0,
     bc_lineno = 0\<rparr>"

definition finish_single_block_tsb_init :: "tsb vector \<Rightarrow> block_tsb \<Rightarrow> block_tsb res" where
  "finish_single_block_tsb_init tsbs bt =
    (case get_tsb_ptr_by_name tsbs (bt_name bt) of
       None \<Rightarrow> Inl (Exit M_BADTSB)
     | Some p \<Rightarrow> Inr (bt\<lparr>bt_tsb := Some p\<rparr>))"

definition finish_single_block_tsbcsm_init :: "tsbcsm vector \<Rightarrow> block_tsbcsm \<Rightarrow> block_tsbcsm res" where
  "finish_single_block_tsbcsm_init csms bc =
    (case get_tsbcsm_ptr_by_name csms (bc_name bc) of
       None \<Rightarrow> Inl (Exit M_BADTSB)
     | Some p \<Rightarrow> Inr (bc\<lparr>bc_tsbcsm := Some p\<rparr>))"

definition block_tsb_name_compare :: "string \<Rightarrow> block_tsb \<Rightarrow> bool" where
  "block_tsb_name_compare nm bt \<longleftrightarrow> nm = bt_name bt"

subsection \<open>Checks\<close>

text \<open>One end of a bit range: given, and between 0 and 63.\<close>

definition check_bit :: "int \<Rightarrow> unit res" where
  "check_bit b =
    (if b = NO_BITS then Inl (Exit M_BLOCKSYNTAX)
     else if b < 0 \<or> b > 63 then Inl (Exit M_BLOCKSYNTAX)
     else Inr ())"

text \<open>An address that is given must be aligned to the page size.\<close>

definition check_page_aligned :: "addr_t \<Rightarrow> u64 \<Rightarrow> unit res" where
  "check_page_aligned a page_size =
    (if a \<noteq> NO_ADDR
     then res_bind (is_aligned a page_size) (\<lambda>ok. if \<not> ok then Inl (Exit M_BADALIGN) else Inr ())
     else Inr ())"

text \<open>
  The tests of \<^verbatim>\<open>sanity_check_block_tsb\<close> in their order. The test whether the low bit of
  the index range is given comes twice, before and after the high bit.
\<close>

definition sanity_check_block_tsb :: "block \<Rightarrow> block_tsb \<Rightarrow> unit res" where
  "sanity_check_block_tsb blk bt =
    (if b_ra blk = NO_ADDR \<and> b_ra_eq_va blk = 0 then Inl (Exit M_BLOCKSYNTAX)
     else if bt_tag_base bt = NO_ADDR then Inl (Exit M_BLOCKSYNTAX)
     else if bt_data_base bt = NO_ADDR then Inl (Exit M_BLOCKSYNTAX)
     else if lo (bt_va_index_bits bt) = NO_BITS then Inl (Exit M_BLOCKSYNTAX)
     else if hi (bt_va_index_bits bt) < 0 \<or> hi (bt_va_index_bits bt) > 63
       then Inl (Exit M_BLOCKSYNTAX)
     else res_bind (check_bit (lo (bt_va_index_bits bt))) (\<lambda>_.
          res_bind (check_bit (hi (bt_tag_addr_bits bt))) (\<lambda>_.
          res_bind (check_bit (lo (bt_tag_addr_bits bt))) (\<lambda>_.
          res_bind (check_bit (hi (bt_tte_tag_addr_bits bt))) (\<lambda>_.
          res_bind (check_bit (lo (bt_tte_tag_addr_bits bt))) (\<lambda>_.
          res_bind (check_bit (hi (bt_data_addr_bits bt))) (\<lambda>_.
          res_bind (check_bit (lo (bt_data_addr_bits bt))) (\<lambda>_.
          if bt_page_size bt = 0 then Inl (Exit M_BLOCKSYNTAX)
          else res_bind (is_pow2 (bt_page_size bt)) (\<lambda>p.
            if \<not> p then Inl (Exit M_BLOCKSYNTAX)
            else
              res_bind (check_page_aligned (b_ra blk) (bt_page_size bt)) (\<lambda>_.
              res_bind (check_page_aligned (b_va blk) (bt_page_size bt)) (\<lambda>_.
              check_page_aligned (b_pa blk) (bt_page_size bt))))))))))))"

subsection \<open>The pages of a block\<close>

text \<open>
  The local variables that both functions compute before their loop, and the entry for one
  page. \<^verbatim>\<open>tsb_index_bit_range.hi\<close> is an \<^verbatim>\<open>int\<close>, and the sum with the 64-bit
  \<^verbatim>\<open>tsb_size_bits\<close> is converted back to it.
\<close>

record geometry =
  g_tag_mask :: u64
  g_tte_tag_mask :: u64
  g_data_mask :: u64
  g_tag_base :: u64
  g_data_base :: u64
  g_page_size_log :: nat
  g_index_mask :: u64
  g_index_shift :: int
  g_tte_tag_shift :: nat
  g_tag_shift :: nat
  g_num_pages :: u64
  g_aligned_start :: addr_t
  g_aligned_start_ra :: addr_t

definition add_size_bits :: "int \<Rightarrow> u64 \<Rightarrow> int" where
  "add_size_bits h tsb_size_bits = sint (ucast (of_int h + tsb_size_bits) :: 32 word)"

definition num_pages :: "u64 \<Rightarrow> nat \<Rightarrow> u64" where
  "num_pages d_length page_size_log =
    (if d_length = 0 then 0 else drop_bit page_size_log (d_length - 1) + 1)"

definition page_geometry :: "block \<Rightarrow> block_tsb \<Rightarrow> u64 \<Rightarrow> geometry res" where
  "page_geometry blk bt tsb_size_bits =
    res_bind (bit_range_to_mask_64 (bt_tag_addr_bits bt)) (\<lambda>tag_mask.
    res_bind (bit_range_to_mask_64 (bt_tte_tag_addr_bits bt)) (\<lambda>tte_tag_mask.
    res_bind (bit_range_to_mask_64 (bt_data_addr_bits bt)) (\<lambda>data_mask.
    let page_size_log = unat (log2 (bt_page_size bt));
        page_mask = NOT (bt_page_size bt - 1);
        r = bt_va_index_bits bt
    in res_bind (bit_range_to_shifted_mask_64 (r\<lparr>hi := add_size_bits (hi r) tsb_size_bits\<rparr>))
         (\<lambda>index_mask. Inr
          \<lparr>g_tag_mask = tag_mask, g_tte_tag_mask = tte_tag_mask, g_data_mask = data_mask,
           g_tag_base = bt_tag_base bt, g_data_base = bt_data_base bt,
           g_page_size_log = page_size_log, g_index_mask = index_mask, g_index_shift = lo r,
           g_tte_tag_shift = nat (lo (bt_tte_tag_addr_bits bt)),
           g_tag_shift = nat (lo (bt_tag_addr_bits bt)),
           g_num_pages = num_pages (b_d_length blk) page_size_log,
           g_aligned_start = b_va blk AND page_mask,
           g_aligned_start_ra = b_ra blk AND page_mask\<rparr>))))"

definition page_va :: "geometry \<Rightarrow> nat \<Rightarrow> addr_t" where
  "page_va g k = g_aligned_start g + push_bit (g_page_size_log g) (of_nat k)"

definition page_ra :: "geometry \<Rightarrow> nat \<Rightarrow> addr_t" where
  "page_ra g k = g_aligned_start_ra g + push_bit (g_page_size_log g) (of_nat k)"

definition page_index :: "geometry \<Rightarrow> nat \<Rightarrow> u64 res" where
  "page_index g k =
    (if 0 \<le> g_index_shift g \<and> g_index_shift g < 64
     then Inr (drop_bit (nat (g_index_shift g)) (page_va g k) AND g_index_mask g)
     else Inl Undefined)"

definition page_tag :: "geometry \<Rightarrow> nat \<Rightarrow> u64" where
  "page_tag g k =
    (let tagaddr = push_bit (g_tag_shift g)
           (drop_bit (g_tte_tag_shift g) (page_va g k AND g_tte_tag_mask g))
     in (tagaddr AND g_tag_mask g) OR (g_tag_base g AND NOT (g_tag_mask g)))"

definition page_data :: "geometry \<Rightarrow> nat \<Rightarrow> u64" where
  "page_data g k =
    (page_ra g k AND g_data_mask g) OR (g_data_base g AND NOT (g_data_mask g))"

definition add_block_tsb_to_tsb ::
  "(block_tsb_ref \<Rightarrow> u64 \<Rightarrow> u64 \<Rightarrow> addr_t res) \<Rightarrow> bool \<Rightarrow> block \<Rightarrow> block_tsb \<Rightarrow> block_ref \<Rightarrow> block_tsb_ref \<Rightarrow> tsb_heap \<Rightarrow> tsb_heap res" where
  "add_block_tsb_to_tsb va_of allow blk bt bref btref hp =
    (case bt_tsb bt of
       None \<Rightarrow> Inl Undefined
     | Some p \<Rightarrow>
        res_bind (vector_elem (fst hp) (int p)) (\<lambda>t.
        res_bind (page_geometry blk bt (get_tsb_size_bits t)) (\<lambda>g.
        res_fold (\<lambda>k hp. res_bind (page_index g k) (\<lambda>index.
            add_entry va_of allow p index (page_tag g k) (page_data g k) (Some bref) (Some btref) hp))
          [0..<unat (g_num_pages g)] hp)))"

text \<open>
  The TSBCSM twin computes everything from the BLOCK_TSB at the same position, the size
  bits from its table, and adds to the table of the BLOCK_TSBCSM.
\<close>

definition add_block_tsbcsm_to_tsbcsm ::
  "(block_tsb_ref \<Rightarrow> u64 \<Rightarrow> u64 \<Rightarrow> addr_t res) \<Rightarrow> bool \<Rightarrow> tsb vector \<Rightarrow> block \<Rightarrow> block_tsbcsm \<Rightarrow> block_tsb \<Rightarrow> block_ref \<Rightarrow> block_tsb_ref
    \<Rightarrow> tsbcsm_heap \<Rightarrow> tsbcsm_heap res" where
  "add_block_tsbcsm_to_tsbcsm va_of allow tsbs blk bc bt bref btref hp =
    (case bt_tsb bt of
       None \<Rightarrow> Inl Undefined
     | Some q \<Rightarrow>
        res_bind (vector_elem tsbs (int q)) (\<lambda>t.
        res_bind (page_geometry blk bt (get_tsb_size_bits t)) (\<lambda>g.
        case bc_tsbcsm bc of
          None \<Rightarrow> Inl Undefined
        | Some p \<Rightarrow>
          res_fold (\<lambda>k hp. res_bind (page_index g k) (\<lambda>index.
              add_entry_csm va_of allow p index (page_tag g k) (page_data g k) (bc_clump_num bc)
                (Some bref) (Some btref) hp))
            [0..<unat (g_num_pages g)] hp)))"

subsection \<open>From a tag back to an address\<close>

definition tag2va :: "block_tsb \<Rightarrow> u64 \<Rightarrow> u64 \<Rightarrow> addr_t res" where
  "tag2va bt tag index =
    res_bind (bit_range_to_mask_64 (bt_tag_addr_bits bt)) (\<lambda>tag_mask.
      let l = lo (bt_tte_tag_addr_bits bt); i = lo (bt_va_index_bits bt)
      in if 0 \<le> l \<and> l < 64 \<and> 0 \<le> i \<and> i < 64
         then Inr (push_bit (nat l) (tag AND tag_mask) OR push_bit (nat i) index)
         else Inl Undefined)"

text \<open>The bit ranges of a BLOCK_TSBCSM are never set by the program.\<close>

definition csmtag2va :: "block_tsbcsm \<Rightarrow> u64 \<Rightarrow> u64 \<Rightarrow> addr_t res" where
  "csmtag2va bc tag index =
    (case (bc_tag_addr_bits bc, bc_tte_tag_addr_bits bc, bc_va_index_bits bc) of
       (Some t, Some tt, Some v) \<Rightarrow>
          res_bind (bit_range_to_mask_64 t) (\<lambda>tag_mask.
            if 0 \<le> lo tt \<and> lo tt < 64 \<and> 0 \<le> lo v \<and> lo v < 64
            then Inr (push_bit (nat (lo tt)) (tag AND tag_mask) OR push_bit (nat (lo v)) index)
            else Inl Undefined)
     | _ \<Rightarrow> Inl Undefined)"

subsection \<open>The set functions\<close>

definition blk_tsb_set_name :: "string \<Rightarrow> block_tsb \<Rightarrow> block_tsb" where
  "blk_tsb_set_name x bt = bt\<lparr>bt_name := x\<rparr>"

definition blk_tsb_set_tag_base :: "addr_t \<Rightarrow> block_tsb \<Rightarrow> block_tsb" where
  "blk_tsb_set_tag_base x bt = bt\<lparr>bt_tag_base := x\<rparr>"

definition blk_tsb_set_data_base :: "addr_t \<Rightarrow> block_tsb \<Rightarrow> block_tsb" where
  "blk_tsb_set_data_base x bt = bt\<lparr>bt_data_base := x\<rparr>"

definition blk_tsb_set_page_size :: "u64 \<Rightarrow> block_tsb \<Rightarrow> block_tsb" where
  "blk_tsb_set_page_size x bt = bt\<lparr>bt_page_size := x\<rparr>"

definition blk_tsb_set_srcfile :: "string \<Rightarrow> block_tsb \<Rightarrow> block_tsb" where
  "blk_tsb_set_srcfile x bt = bt\<lparr>bt_srcfile := x\<rparr>"

definition blk_tsb_set_srcline :: "int \<Rightarrow> block_tsb \<Rightarrow> block_tsb" where
  "blk_tsb_set_srcline x bt = bt\<lparr>bt_srcline := x\<rparr>"

definition blk_tsbcsm_set_clump_num :: "u64 \<Rightarrow> block_tsbcsm \<Rightarrow> block_tsbcsm" where
  "blk_tsbcsm_set_clump_num x bc = bc\<lparr>bc_clump_num := x\<rparr>"

definition blk_tsb_set_va_index_bits :: "int \<Rightarrow> int \<Rightarrow> block_tsb \<Rightarrow> block_tsb" where
  "blk_tsb_set_va_index_bits h l bt = bt\<lparr>bt_va_index_bits := \<lparr>hi = h, lo = l\<rparr>\<rparr>"

definition blk_tsb_set_tag_addr_bits :: "int \<Rightarrow> int \<Rightarrow> block_tsb \<Rightarrow> block_tsb" where
  "blk_tsb_set_tag_addr_bits h l bt = bt\<lparr>bt_tag_addr_bits := \<lparr>hi = h, lo = l\<rparr>\<rparr>"

definition blk_tsb_set_tte_tag_addr_bits :: "int \<Rightarrow> int \<Rightarrow> block_tsb \<Rightarrow> block_tsb" where
  "blk_tsb_set_tte_tag_addr_bits h l bt = bt\<lparr>bt_tte_tag_addr_bits := \<lparr>hi = h, lo = l\<rparr>\<rparr>"

definition blk_tsb_set_data_addr_bits :: "int \<Rightarrow> int \<Rightarrow> block_tsb \<Rightarrow> block_tsb" where
  "blk_tsb_set_data_addr_bits h l bt = bt\<lparr>bt_data_addr_bits := \<lparr>hi = h, lo = l\<rparr>\<rparr>"

subsection \<open>What the checks establish\<close>

definition bit_no :: "int \<Rightarrow> bool" where
  "bit_no b \<longleftrightarrow> 0 \<le> b \<and> b \<le> 63"

definition page_aligned :: "addr_t \<Rightarrow> u64 \<Rightarrow> bool" where
  "page_aligned a page_size \<longleftrightarrow> a = NO_ADDR \<or> unat page_size dvd unat a"

definition block_tsb_ok :: "block \<Rightarrow> block_tsb \<Rightarrow> bool" where
  "block_tsb_ok blk bt \<longleftrightarrow>
    (b_ra blk \<noteq> NO_ADDR \<or> b_ra_eq_va blk \<noteq> 0) \<and> bt_tag_base bt \<noteq> NO_ADDR \<and> bt_data_base bt \<noteq> NO_ADDR \<and>
    bit_no (hi (bt_va_index_bits bt)) \<and> bit_no (lo (bt_va_index_bits bt)) \<and>
    bit_no (hi (bt_tag_addr_bits bt)) \<and> bit_no (lo (bt_tag_addr_bits bt)) \<and>
    bit_no (hi (bt_tte_tag_addr_bits bt)) \<and> bit_no (lo (bt_tte_tag_addr_bits bt)) \<and>
    bit_no (hi (bt_data_addr_bits bt)) \<and> bit_no (lo (bt_data_addr_bits bt)) \<and>
    (\<exists>k < 31. bt_page_size bt = 2 ^ k) \<and>
    page_aligned (b_ra blk) (bt_page_size bt) \<and> page_aligned (b_va blk) (bt_page_size bt) \<and>
    page_aligned (b_pa blk) (bt_page_size bt)"

lemma check_bit_eq: "check_bit b = (if bit_no b then Inr () else Inl (Exit M_BLOCKSYNTAX))"
  by (auto simp: check_bit_def bit_no_def NO_BITS_def)

lemma is_aligned_pow2:
  assumes "k < 31"
  shows "is_aligned a (2 ^ k) = Inr (2 ^ k dvd unat a)"
proof -
  have "a AND (2 ^ k - 1) = 0 \<longleftrightarrow> 2 ^ k dvd unat a"
    using word_and_mask_zero_iff [of k a] assms by (simp add: mask_eq_exp_minus_1)
  then show ?thesis using is_pow2_power [OF assms] by (simp add: is_aligned_def)
qed

lemma check_page_aligned_pow2:
  assumes "k < 31"
  shows "check_page_aligned a (2 ^ k) =
    (if page_aligned a (2 ^ k) then Inr () else Inl (Exit M_BADALIGN))"
  using assms
  by (simp add: check_page_aligned_def page_aligned_def is_aligned_pow2 [OF assms] unat_pow2)

lemma sanity_check_block_tsb_iff: "sanity_check_block_tsb blk bt = Inr () \<longleftrightarrow> block_tsb_ok blk bt"
proof (cases "\<exists>k < 31. bt_page_size bt = 2 ^ k")
  case True
  then obtain k where k: "k < 31" "bt_page_size bt = 2 ^ k" by auto
  show ?thesis
    using True k(1) unfolding sanity_check_block_tsb_def block_tsb_ok_def k(2)
      check_page_aligned_pow2 [OF k(1)] is_pow2_power [OF k(1)] check_bit_eq
    by (auto simp: bit_no_def NO_BITS_def not_less split: if_splits)
next
  case False
  then have "is_pow2 (bt_page_size bt) \<noteq> Inr True" using is_pow2_TrueD by blast
  then have "sanity_check_block_tsb blk bt \<noteq> Inr ()"
    unfolding sanity_check_block_tsb_def by (auto simp: gf_res split: if_splits)
  with False show ?thesis by (simp add: block_tsb_ok_def)
qed

subsection \<open>Index, tag and data of a page\<close>

lemma page_geometry_InrD:
  assumes "page_geometry blk bt sz = Inr g"
  shows "bit_range_to_mask_64 (bt_tag_addr_bits bt) = Inr (g_tag_mask g)"
    and "bit_range_to_mask_64 (bt_tte_tag_addr_bits bt) = Inr (g_tte_tag_mask g)"
    and "bit_range_to_mask_64 (bt_data_addr_bits bt) = Inr (g_data_mask g)"
    and "bit_range_to_shifted_mask_64
      ((bt_va_index_bits bt)\<lparr>hi := add_size_bits (hi (bt_va_index_bits bt)) sz\<rparr>) = Inr (g_index_mask g)"
    and "g_index_shift g = lo (bt_va_index_bits bt)"
    and "g_tag_shift g = nat (lo (bt_tag_addr_bits bt))"
    and "g_tte_tag_shift g = nat (lo (bt_tte_tag_addr_bits bt))"
    and "g_tag_base g = bt_tag_base bt" and "g_data_base g = bt_data_base bt"
    and "g_page_size_log g = unat (log2 (bt_page_size bt))"
    and "g_num_pages g = num_pages (b_d_length blk) (g_page_size_log g)"
    and "g_aligned_start g = b_va blk AND NOT (bt_page_size bt - 1)"
    and "g_aligned_start_ra g = b_ra blk AND NOT (bt_page_size bt - 1)"
  using assms by (auto simp: page_geometry_def Let_def gf_res)

text \<open>The number of pages is the length divided by the page size, rounded up.\<close>

lemma unat_num_pages:
  assumes "n < 64"
  shows "unat (num_pages d n) = (unat d + (2 ^ n - 1)) div 2 ^ n"
proof (cases "d = 0")
  case True
  then show ?thesis by (simp add: num_pages_def)
next
  case False
  then have d: "0 < unat d" by (simp add: u64_gt_0)
  have d1: "unat (d - 1) = unat d - 1" using False by (simp add: unat_minus_one)
  have "(unat d - 1) div 2 ^ n < 2 ^ 64 - 1"
    using unat_less_64 [of d] d div_le_dividend [of "unat d - 1" "2 ^ n"] by linarith
  then have "unat (num_pages d n) = (unat d - 1) div 2 ^ n + 1"
    using False d1 by (simp add: num_pages_def unat_word_ariths unat_drop_bit64)
  also have "\<dots> = (unat d - 1 + 2 ^ n) div 2 ^ n" by (rule div_add_self2 [symmetric]) simp
  also have "unat d - 1 + 2 ^ n = unat d + (2 ^ n - 1)" using d by simp
  finally show ?thesis .
qed

text \<open>The slot of a page: the index bits of its address.\<close>

definition page_slot :: "geometry \<Rightarrow> nat \<Rightarrow> nat" where
  "page_slot g k = unat (drop_bit (nat (g_index_shift g)) (page_va g k) AND g_index_mask g)"

lemma page_index_InrD: "page_index g k = Inr i \<Longrightarrow> unat i = page_slot g k"
  by (auto simp: page_index_def page_slot_def split: if_splits)

lemma page_slot_eq:
  assumes "page_geometry blk bt sz = Inr g" and "r = bt_va_index_bits bt"
  shows "page_slot g k = unat (page_va g k) div 2 ^ nat (lo r) mod
    2 ^ nat (add_size_bits (hi r) sz - lo r + 1)"
proof -
  let ?n = "nat (add_size_bits (hi r) sz - lo r + 1)"
  have m: "g_index_mask g = mask ?n"
    using shifted_mask_InrD [OF page_geometry_InrD(4) [OF assms(1)]] assms(2) by simp
  have "drop_bit (nat (lo r)) (page_va g k) AND mask ?n = take_bit ?n (drop_bit (nat (lo r)) (page_va g k))"
    by (simp add: take_bit_eq_mask)
  then show ?thesis
    using page_geometry_InrD(5) [OF assms(1)] assms(2) m
    by (simp add: page_slot_def unat_drop_bit64 unsigned_take_bit_eq flip: take_bit_eq_mod)
qed

lemma page_slot_less:
  assumes "page_geometry blk bt sz = Inr g" and "r = bt_va_index_bits bt"
  shows "page_slot g k < 2 ^ nat (add_size_bits (hi r) sz - lo r + 1)"
  unfolding page_slot_eq [OF assms] by simp

text \<open>
  The tag carries the bits of the virtual address that the TTE tag range selects, moved to
  the tag range; the data carries the bits of the real address in the data range. All
  other bits are those of the bases.
\<close>

lemma bit_page_data:
  assumes "page_geometry blk bt sz = Inr g" and "d = bt_data_addr_bits bt" and "i < 64"
  shows "bit (page_data g k) i \<longleftrightarrow>
    (if lo d \<le> int i \<and> int i \<le> hi d then bit (page_ra g k) i else bit (bt_data_base bt) i)"
  using page_geometry_InrD(9) [OF assms(1)] assms(2,3)
    bit_mask_64 [OF page_geometry_InrD(3) [OF assms(1)], of i]
  by (auto simp: page_data_def bit_simps)

lemma bit_page_tag:
  assumes g: "page_geometry blk bt sz = Inr g" and "t = bt_tag_addr_bits bt"
    and "tt = bt_tte_tag_addr_bits bt" and i: "i < 64"
  shows "bit (page_tag g k) i \<longleftrightarrow>
    (if lo t \<le> int i \<and> int i \<le> hi t
     then int i - lo t + lo tt \<le> hi tt \<and> bit (page_va g k) (nat (int i - lo t + lo tt))
     else bit (bt_tag_base bt) i)"
proof -
  note G = page_geometry_InrD [OF g]
  have lo: "0 \<le> lo t" "0 \<le> lo tt" using mask_64_InrD [OF G(1)] mask_64_InrD [OF G(2)] assms by auto
  have m: "bit (g_tag_mask g) i \<longleftrightarrow> lo t \<le> int i \<and> int i \<le> hi t"
    using bit_mask_64 [OF G(1), of i] assms by auto
  have mm: "bit (g_tte_tag_mask g) j \<longleftrightarrow> lo tt \<le> int j \<and> int j \<le> hi tt \<and> j < 64" for j
    using bit_mask_64 [OF G(2), of j] assms by auto
  show ?thesis
  proof (cases "lo t \<le> int i \<and> int i \<le> hi t")
    case True
    let ?j = "nat (lo tt) + (i - nat (lo t))"
    have j: "nat (int i - lo t + lo tt) = ?j" "int ?j = int i - lo t + lo tt" "nat (lo t) \<le> i"
      using True lo by linarith+
    have "bit (page_tag g k) i \<longleftrightarrow> bit (page_va g k) ?j \<and> bit (g_tte_tag_mask g) ?j"
      using True m i j(3) G(6,7) assms(2,3) by (simp add: page_tag_def Let_def bit_simps)
    moreover have "bit (page_va g k) ?j \<Longrightarrow> ?j < 64"
      using bit_imp_le_length by fastforce
    ultimately show ?thesis using True mm [of ?j] lo j by auto
  next
    case False
    then show ?thesis using m i G(8) by (auto simp: page_tag_def Let_def bit_simps)
  qed
qed

subsection \<open>The pages of a block in the buckets\<close>

text \<open>What a run of the loop over the pages \<open>ks\<close> adds to the bucket at index \<open>j\<close>.\<close>

definition slot_pages :: "geometry \<Rightarrow> nat list \<Rightarrow> nat \<Rightarrow> nat list" where
  "slot_pages g ks j = filter (\<lambda>k. page_slot g k = j) ks"

lemma add_pages:
  assumes "res_fold (\<lambda>k hp. res_bind (page_index g k) (\<lambda>index.
      add_entry va_of allow p index (page_tag g k) (page_data g k) blk btsb hp)) ks hp = Inr hp'"
    and "heap_wf hp"
    and "\<And>k. k \<in> set ks \<Longrightarrow> page_tag g k \<noteq> TSB_LINK_TAG \<and> (page_tag g k \<noteq> 0 \<or> page_data g k \<noteq> 0)"
  shows "heap_wf hp' \<and> (\<forall>q j. bucket hp' q j = bucket hp q j @
    (if q = p then map (\<lambda>k. (page_tag g k, page_data g k)) (slot_pages g ks j) else []))"
  using assms
proof (induction ks arbitrary: hp)
  case Nil
  then show ?case by (simp add: slot_pages_def)
next
  case (Cons k ks)
  obtain index hp1 where i: "page_index g k = Inr index"
    and a: "add_entry va_of allow p index (page_tag g k) (page_data g k) blk btsb hp = Inr hp1"
    and r: "res_fold (\<lambda>k hp. res_bind (page_index g k) (\<lambda>index.
      add_entry va_of allow p index (page_tag g k) (page_data g k) blk btsb hp)) ks hp1 = Inr hp'"
    using Cons.prems(1) by (auto simp: gf_res)
  have t: "page_tag g k \<noteq> TSB_LINK_TAG" "page_tag g k \<noteq> 0 \<or> page_data g k \<noteq> 0"
    using Cons.prems(3) [of k] by simp_all
  note one = add_entry_refines [OF a Cons.prems(2) t]
  have "heap_wf hp' \<and> (\<forall>q j. bucket hp' q j = bucket hp1 q j @
    (if q = p then map (\<lambda>k. (page_tag g k, page_data g k)) (slot_pages g ks j) else []))"
    using Cons.prems(3) by (intro Cons.IH [OF r one(1)]) simp
  then show ?case
    using one(2) page_index_InrD [OF i] by (auto simp: slot_pages_def)
qed

lemma add_csm_pages:
  assumes "res_fold (\<lambda>k hp. res_bind (page_index g k) (\<lambda>index.
      add_entry_csm va_of allow p index (page_tag g k) (page_data g k) clump blk btsb hp)) ks hp = Inr hp'"
    and "csm_heap_wf hp"
    and "\<And>k. k \<in> set ks \<Longrightarrow> page_tag g k \<noteq> TSB_LINK_TAG \<and> (page_tag g k \<noteq> 0 \<or> page_data g k \<noteq> 0)"
  shows "csm_heap_wf hp' \<and> (\<forall>q j. csm_bucket hp' q j = csm_bucket hp q j @
    (if q = p then map (\<lambda>k. (page_tag g k, clump)) (slot_pages g ks j) else []))"
  using assms
proof (induction ks arbitrary: hp)
  case Nil
  then show ?case by (simp add: slot_pages_def)
next
  case (Cons k ks)
  obtain index hp1 where i: "page_index g k = Inr index"
    and a: "add_entry_csm va_of allow p index (page_tag g k) (page_data g k) clump blk btsb hp = Inr hp1"
    and r: "res_fold (\<lambda>k hp. res_bind (page_index g k) (\<lambda>index.
      add_entry_csm va_of allow p index (page_tag g k) (page_data g k) clump blk btsb hp)) ks hp1 = Inr hp'"
    using Cons.prems(1) by (auto simp: gf_res)
  have t: "page_tag g k \<noteq> TSB_LINK_TAG" "page_tag g k \<noteq> 0 \<or> page_data g k \<noteq> 0"
    using Cons.prems(3) [of k] by simp_all
  note one = add_entry_csm_refines [OF a Cons.prems(2) t]
  have "csm_heap_wf hp' \<and> (\<forall>q j. csm_bucket hp' q j = csm_bucket hp1 q j @
    (if q = p then map (\<lambda>k. (page_tag g k, clump)) (slot_pages g ks j) else []))"
    using Cons.prems(3) by (intro Cons.IH [OF r one(1)]) simp
  then show ?case
    using one(2) page_index_InrD [OF i] by (auto simp: slot_pages_def)
qed

end
