(* ===== verification/Gf_Symtab.thy ===== *)
theory Gf_Symtab
  imports Gf_Vector
begin

text \<open>
  The symbol table of \<^verbatim>\<open>symtab.c\<close>: a vector of (name, value, size) entries. Adding
  never checks for duplicates, and a lookup returns the oldest entry of its name.
\<close>

record symtab_ent =
  sym_name :: string
  sym_value :: addr_t
  sym_size :: u64

type_synonym symtab = "symtab_ent vector"

definition init_symtab_entry :: symtab_ent where
  "init_symtab_entry = \<lparr>sym_name = ''<unnamed>'', sym_value = 0, sym_size = 0\<rparr>"

definition init_symtab :: symtab where
  "init_symtab = init_vector (Some ''Symbol table'') init_symtab_entry"

text \<open>The destroy function of an entry frees its name and cannot fail.\<close>

definition destroy_symtab_entry :: "symtab_ent \<Rightarrow> unit res" where
  "destroy_symtab_entry e = Inr ()"

definition destroy_symtab :: "symtab \<Rightarrow> symtab res" where
  "destroy_symtab st = deallocate_vector destroy_symtab_entry st"

definition symtab_ent_lookup_compare :: "string \<Rightarrow> symtab_ent \<Rightarrow> bool" where
  "symtab_ent_lookup_compare nm e \<longleftrightarrow> nm = sym_name e"

text \<open>\<^verbatim>\<open>SYMTAB_NOT_FOUND\<close> is \<^verbatim>\<open>NULL\<close>, here \<open>None\<close>.\<close>

definition lookup_symtab :: "symtab \<Rightarrow> string \<Rightarrow> symtab_ent option" where
  "lookup_symtab st lookname =
    (case search_vector st (symtab_ent_lookup_compare lookname) of
       None \<Rightarrow> None
     | Some i \<Rightarrow> Some (elements st ! i))"

definition add_to_symtab :: "symtab \<Rightarrow> string \<Rightarrow> addr_t \<Rightarrow> u64 \<Rightarrow> symtab res" where
  "add_to_symtab st nm v sz =
    (let (st1, new_index) = add_vector_elements st 1
     in vector_modify st1 (int new_index)
          (\<lambda>e. e\<lparr>sym_name := nm, sym_value := v, sym_size := sz\<rparr>))"

subsection \<open>Lemmas\<close>

abbreviation sym_entry :: "string \<Rightarrow> addr_t \<Rightarrow> u64 \<Rightarrow> symtab_ent" where
  "sym_entry nm v sz \<equiv> \<lparr>sym_name = nm, sym_value = v, sym_size = sz\<rparr>"

lemma add_to_symtab_elements:
  "\<exists>st'. add_to_symtab st nm v sz = Inr st' \<and>
     elements st' = elements st @ [(init_elem st)\<lparr>sym_name := nm, sym_value := v, sym_size := sz\<rparr>] \<and>
     init_elem st' = init_elem st"
  using vec.add_then_modify [of st "\<lambda>e. e\<lparr>sym_name := nm, sym_value := v, sym_size := sz\<rparr>"]
  by (auto simp: add_to_symtab_def split: prod.splits)

lemma lookup_symtab_eq:
  "lookup_symtab st nm = List.find (\<lambda>e. nm = sym_name e) (elements st)"
proof (cases "search_vector st (symtab_ent_lookup_compare nm)")
  case None
  then have "\<forall>e \<in> set (elements st). nm \<noteq> sym_name e"
    by (simp add: vec.seek_None_iff symtab_ent_lookup_compare_def)
  then have "List.find (\<lambda>e. nm = sym_name e) (elements st) = None"
    by (simp add: find_None_iff)
  with None show ?thesis by (simp add: lookup_symtab_def)
next
  case (Some i)
  then have "List.find (\<lambda>e. nm = sym_name e) (elements st) = Some (elements st ! i)"
    using vec.seek_iff [of st "symtab_ent_lookup_compare nm" i]
    by (auto simp: symtab_ent_lookup_compare_def find_Some_iff intro!: exI [of _ i])
  with Some show ?thesis by (simp add: lookup_symtab_def)
qed

lemma add_to_symtab_total: "\<exists>st'. add_to_symtab st nm v sz = Inr st'"
  using add_to_symtab_elements [of st nm v sz] by auto

lemma add_to_symtab_lookup:
  assumes "add_to_symtab st nm v sz = Inr st'"
  shows "lookup_symtab st' n =
    (case lookup_symtab st n of
       Some e \<Rightarrow> Some e
     | None \<Rightarrow> if n = nm then Some ((init_elem st)\<lparr>sym_name := nm, sym_value := v, sym_size := sz\<rparr>)
       else None)"
  using add_to_symtab_elements [of st nm v sz] assms
  by (auto simp: lookup_symtab_eq find_append split: option.splits)

end
