(* ===== verification/Gf_Linked_Section.thy ===== *)
theory Gf_Linked_Section
  imports Gf_Symtab
begin

text \<open>
  The linked sections of \<^verbatim>\<open>linked_section.c\<close>: what is known of a section of the linked
  ELF file, with the symbols that lie in it. The ELF file itself is read by libelf; what
  that library answers for a section is the record \<open>elf_section\<close>, an argument of every
  function that asks.
\<close>

subsection \<open>What libelf answers\<close>

datatype sh_type = SHT_PROGBITS | SHT_NOBITS | SHT_SYMTAB | SHT_other

text \<open>A symbol: \<^verbatim>\<open>elf_strptr\<close> yields a name or \<^verbatim>\<open>NULL\<close>.\<close>

record elf_sym =
  st_name :: "string option"
  st_shndx :: "16 word"
  st_value :: u64
  st_size :: u64

text \<open>
  A section in the order of \<^verbatim>\<open>elf_nextscn\<close>: its index, header, name, the bytes of
  \<^verbatim>\<open>elf_getdata\<close>, and, for a symbol table, the entries of \<^verbatim>\<open>gelf_getsym\<close>.
\<close>

record elf_section =
  es_ndx :: u64
  es_type :: sh_type
  es_name :: "string option"
  es_addr :: u64
  es_size :: u64
  es_entsize :: u64
  es_data :: "u8 list"
  es_syms :: "elf_sym list"

subsection \<open>Linked sections\<close>

record linked_section =
  ls_name :: string
  ls_section_name :: "string option"
  ls_segment_name :: "string option"
  ls_symtab :: symtab
  ls_shndx :: u64
  ls_start_va :: addr_t
  ls_length :: u64

definition init_linked_section :: linked_section where
  "init_linked_section =
    \<lparr>ls_name = ''<no_name>'', ls_section_name = None, ls_segment_name = None,
     ls_symtab = init_symtab, ls_shndx = 0, ls_start_va = NO_ADDR, ls_length = 0\<rparr>"

definition linked_section_name_compare :: "string \<Rightarrow> linked_section \<Rightarrow> bool" where
  "linked_section_name_compare nm ls \<longleftrightarrow> nm = ls_name ls"

text \<open>
  One round of the loop. A symbol that is not there leaves \<^verbatim>\<open>sym\<close> uninitialised, and a
  \<^verbatim>\<open>NULL\<close> name goes to \<^verbatim>\<open>strlen\<close>.
\<close>

definition add_linked_symbol :: "elf_sym list \<Rightarrow> nat \<Rightarrow> linked_section \<Rightarrow> linked_section res" where
  "add_linked_symbol syms i ls =
    (if i < length syms then
       (let esym = syms ! i
        in case st_name esym of
             None \<Rightarrow> Inl Undefined
           | Some symname \<Rightarrow>
              if symname = [] \<or> st_shndx esym = 0 then Inr ls
              else if ucast (st_shndx esym) = ls_shndx ls then
                res_bind (add_to_symtab (ls_symtab ls) symname (st_value esym) (st_size esym))
                  (\<lambda>st. Inr (ls\<lparr>ls_symtab := st\<rparr>))
              else Inr ls)
     else Inl Undefined)"

text \<open>The number of symbols is a 64-bit quotient that is stored in an \<^verbatim>\<open>int\<close>.\<close>

definition build_linked_section_symbol_table ::
  "linked_section \<Rightarrow> elf_section \<Rightarrow> linked_section res" where
  "build_linked_section_symbol_table ls scn =
    (if es_entsize scn = 0 then Inl Undefined
     else
       (let count = sint (ucast (es_size scn div es_entsize scn) :: 32 word)
        in res_fold (add_linked_symbol (es_syms scn)) [0..<nat count] ls))"

subsection \<open>Lemmas\<close>

text \<open>The symbols of a section, in the order of the table.\<close>

definition belongs :: "u64 \<Rightarrow> elf_sym \<Rightarrow> bool" where
  "belongs ndx esym \<longleftrightarrow> st_name esym \<noteq> Some [] \<and> st_shndx esym \<noteq> 0 \<and> ucast (st_shndx esym) = ndx"

definition sym_of :: "elf_sym \<Rightarrow> symtab_ent" where
  "sym_of esym = \<lparr>sym_name = the (st_name esym), sym_value = st_value esym, sym_size = st_size esym\<rparr>"

lemma add_linked_symbol_ok:
  assumes "i < length syms" and "st_name (syms ! i) \<noteq> None"
  shows "\<exists>ls'. add_linked_symbol syms i ls = Inr ls' \<and> ls_shndx ls' = ls_shndx ls \<and>
    ls_name ls' = ls_name ls \<and> ls_start_va ls' = ls_start_va ls \<and> ls_length ls' = ls_length ls \<and>
    elements (ls_symtab ls') = elements (ls_symtab ls) @
      (if belongs (ls_shndx ls) (syms ! i) then [sym_of (syms ! i)] else [])"
proof -
  obtain nm where nm: "st_name (syms ! i) = Some nm" using assms(2) by auto
  obtain st' where st': "add_to_symtab (ls_symtab ls) nm (st_value (syms ! i)) (st_size (syms ! i)) = Inr st'"
    "elements st' = elements (ls_symtab ls) @ [(init_elem (ls_symtab ls))\<lparr>sym_name := nm,
      sym_value := st_value (syms ! i), sym_size := st_size (syms ! i)\<rparr>]"
    using add_to_symtab_elements by blast
  have "(init_elem (ls_symtab ls))\<lparr>sym_name := nm, sym_value := v, sym_size := sz\<rparr> = sym_entry nm v sz"
    for v sz by (cases "init_elem (ls_symtab ls)") simp
  with st' nm assms(1) show ?thesis
    by (auto simp: add_linked_symbol_def Let_def belongs_def sym_of_def)
qed

lemma add_linked_symbols:
  assumes "n \<le> length syms" and "\<And>s. s \<in> set (take n syms) \<Longrightarrow> st_name s \<noteq> None"
  shows "\<exists>ls'. res_fold (add_linked_symbol syms) [0..<n] ls = Inr ls' \<and> ls_shndx ls' = ls_shndx ls \<and>
    ls_name ls' = ls_name ls \<and> ls_start_va ls' = ls_start_va ls \<and> ls_length ls' = ls_length ls \<and>
    elements (ls_symtab ls') = elements (ls_symtab ls) @
      map sym_of (filter (belongs (ls_shndx ls)) (take n syms))"
  using assms
proof (induction n)
  case (Suc n)
  have n: "n < length syms" using Suc.prems(1) by simp
  have tk: "take (Suc n) syms = take n syms @ [syms ! n]" using n by (rule take_Suc_conv_app_nth)
  have nm: "st_name (syms ! n) \<noteq> None" using Suc.prems(2) [of "syms ! n"] by (simp add: tk)
  obtain ls1 where ls1: "res_fold (add_linked_symbol syms) [0..<n] ls = Inr ls1"
    "ls_shndx ls1 = ls_shndx ls" "ls_name ls1 = ls_name ls" "ls_start_va ls1 = ls_start_va ls"
    "ls_length ls1 = ls_length ls"
    "elements (ls_symtab ls1) = elements (ls_symtab ls) @
      map sym_of (filter (belongs (ls_shndx ls)) (take n syms))"
    using Suc.IH Suc.prems n by (auto simp: tk)
  with add_linked_symbol_ok [OF n nm, of ls1] show ?case
    by (auto simp: tk res_fold_append)
qed simp

text \<open>
  The table gets exactly the named symbols of the section, and a lookup finds the first.
\<close>

lemma build_symbol_table:
  assumes "es_entsize scn \<noteq> 0" and "es_size scn = of_nat n * es_entsize scn"
    and "n = length (es_syms scn)" and "n * unat (es_entsize scn) < 2 ^ 64" and "n < 2 ^ 31"
    and "\<And>s. s \<in> set (es_syms scn) \<Longrightarrow> st_name s \<noteq> None"
  shows "\<exists>ls'. build_linked_section_symbol_table ls scn = Inr ls' \<and> ls_start_va ls' = ls_start_va ls \<and>
    ls_length ls' = ls_length ls \<and>
    elements (ls_symtab ls') = elements (ls_symtab ls) @
      map sym_of (filter (belongs (ls_shndx ls)) (es_syms scn))"
proof -
  have sz: "unat (es_size scn) = n * unat (es_entsize scn)"
  proof -
    have "unat (es_size scn) = n mod 2 ^ 64 * unat (es_entsize scn) mod 2 ^ 64"
      using assms(2) by (simp add: unat_word_ariths unat_of_nat)
    also have "n mod 2 ^ 64 = n" using assms(5) by simp
    finally show ?thesis using assms(4) by simp
  qed
  have "0 < unat (es_entsize scn)" using assms(1) by (simp add: u64_gt_0)
  then have q: "unat (es_size scn div es_entsize scn) = n" using sz by (simp add: unat_div)
  have uq: "uint (es_size scn div es_entsize scn) = int n" using q by (metis uint_nat)
  have "sint (ucast (es_size scn div es_entsize scn) :: 32 word) = signed_take_bit 31 (int n)"
    using uq by (simp add: sint_uint signed_take_bit_take_bit unsigned_ucast_eq)
  also have "\<dots> = int n"
    using assms(5) by (simp add: signed_take_bit_int_eq_self)
  finally have c: "nat (sint (ucast (es_size scn div es_entsize scn) :: 32 word)) = n" by simp
  show ?thesis
    using add_linked_symbols [of n "es_syms scn" ls] assms(1,3,6)
    by (auto simp: build_linked_section_symbol_table_def c)
qed

end
