(* ===== verification/Gf_Block.thy ===== *)
theory Gf_Block
  imports Gf_Block_Tsb Gf_Linked_Section
begin

text \<open>
  The blocks of \<^verbatim>\<open>block.c\<close>: a block describes a part of a linked section that goes to
  the memory image, the symbol table and the TSBs. The options of the command line that the
  functions read (\<^verbatim>\<open>Compress\<close>, \<^verbatim>\<open>EnvZero\<close>, the size of a physical address) are
  arguments.
\<close>

definition init_block :: block where
  "init_block =
    \<lparr>b_name = ''<no_name>'', b_section_name = ''<unknown>'', b_segment_name = ''<unknown>'',
     b_link_section = None, b_compress = 0, b_va = NO_ADDR, b_ra = NO_ADDR, b_pa = NO_ADDR,
     b_in_image = 1, b_end_va = NO_ADDR, b_start_label = None, b_end_label = None,
     b_tsbs = init_vector (Some ''block_tsbs_vector'') init_block_tsb,
     b_tsbcsms = init_vector (Some ''block_tsbcsms_vector'') init_block_tsbcsm,
     b_no_end_range_check = None, b_ra_eq_va = 0, b_pa_eq_va = 0, b_linked_section_obj = None,
     b_srcfile = ''<unknown>'', b_srcline = 0, b_lineno = 0, b_d_offset = 0, b_d_length = 0,
     b_open_block_tsb_index = 0, b_open_block_tsbcsm_index = 0\<rparr>"

definition finish_single_block_init :: "tsb vector \<Rightarrow> tsbcsm vector \<Rightarrow> block \<Rightarrow> block res" where
  "finish_single_block_init tsbs csms blk =
    res_bind (iterate_vector (b_tsbs blk)
        (\<lambda>bt s. res_bind (finish_single_block_tsb_init tsbs bt) (\<lambda>bt'. Inr (bt', s))) ())
      (\<lambda>(v, _).
    res_bind (iterate_vector (b_tsbcsms blk)
        (\<lambda>bc s. res_bind (finish_single_block_tsbcsm_init csms bc) (\<lambda>bc'. Inr (bc', s))) ())
      (\<lambda>(w, _). Inr (blk\<lparr>b_tsbs := v, b_tsbcsms := w\<rparr>)))"

definition block_name_compare :: "string \<Rightarrow> block \<Rightarrow> bool" where
  "block_name_compare nm blk \<longleftrightarrow> nm = b_name blk"

text \<open>\<^verbatim>\<open>strcmp\<close> with a link section that was never given is undefined.\<close>

definition block_link_section_compare :: "string \<Rightarrow> block \<Rightarrow> bool res" where
  "block_link_section_compare nm blk =
    (case b_link_section blk of None \<Rightarrow> Inl Undefined | Some s \<Rightarrow> Inr (nm = s))"

definition sanity_check_block :: "block \<Rightarrow> unit res" where
  "sanity_check_block blk =
    res_bind (visit_vector (b_tsbs blk) (\<lambda>bt _. sanity_check_block_tsb blk bt) ()) (\<lambda>_.
    if b_va blk \<noteq> NO_ADDR \<and> b_start_label blk \<noteq> None then Inl (Exit M_BLOCKSYNTAX)
    else if b_end_va blk \<noteq> NO_ADDR \<and> b_end_label blk \<noteq> None then Inl (Exit M_BLOCKSYNTAX)
    else if b_pa blk = NO_ADDR \<and> b_pa_eq_va blk = 0 \<and> b_in_image blk \<noteq> 0
      then Inl (Exit M_BLOCKSYNTAX)
    else if b_pa blk \<noteq> NO_ADDR \<and> b_pa_eq_va blk \<noteq> 0 then Inl (Exit M_BLOCKSYNTAX)
    else if b_ra blk = NO_ADDR \<and> b_ra_eq_va blk = 0 \<and> VECTOR_LEN (b_tsbs blk) \<noteq> 0
      then Inl (Exit M_BLOCKSYNTAX)
    else if b_ra blk \<noteq> NO_ADDR \<and> b_ra_eq_va blk \<noteq> 0 then Inl (Exit M_BLOCKSYNTAX)
    else Inr ())"

definition block_check_link_section_exists :: "linked_section option \<Rightarrow> unit res" where
  "block_check_link_section_exists lso =
    (case lso of
       None \<Rightarrow> Inl Undefined
     | Some ls \<Rightarrow> if ls_shndx ls = 0 then Inl (Exit M_BLOCKSYNTAX) else Inr ())"

subsection \<open>Symbol table output\<close>

record symtab_ent_args =
  sa_start_va :: addr_t
  sa_stop_va :: addr_t
  sa_start_ra :: addr_t
  sa_start_pa :: addr_t
  sa_prefix :: string

text \<open>
  An address of a symbol line: \<^verbatim>\<open>X\<close> when there is none, else ten or sixteen digits. A value
  cut to 40 bits has ten digits.
\<close>

definition print_addr :: "int \<Rightarrow> addr_t \<Rightarrow> addr_t \<Rightarrow> addr_t \<Rightarrow> string" where
  "print_addr pa_size m base offset =
    (if base = NO_ADDR then ''X''
     else if pa_size = 40 then hex10 ((base + offset) AND m)
     else hex16 ((base + offset) AND m))"

definition print_symtab_ent_if_in_range ::
  "int \<Rightarrow> symtab_ent_args \<Rightarrow> symtab_ent \<Rightarrow> string \<Rightarrow> string res" where
  "print_symtab_ent_if_in_range pa_size args ent out =
    res_bind (pa_mask pa_size) (\<lambda>mask.
    if \<not> (sa_start_va args \<le> sym_value ent \<and> sym_value ent \<le> sa_stop_va args) then Inr out
    else
      (let offset = sym_value ent - sa_start_va args
       in Inr (out @ sa_prefix args @ ''.'' @ sym_name ent @ TAB @ hex16 (sym_value ent) @ '' '' @
            print_addr pa_size mask (sa_start_ra args) offset @ '' '' @
            print_addr pa_size mask (sa_start_pa args) offset @ NL)))"

definition symtab_args :: "block \<Rightarrow> symtab_ent_args" where
  "symtab_args blk =
    \<lparr>sa_start_va = b_va blk, sa_stop_va = b_va blk + b_d_length blk, sa_start_ra = b_ra blk,
     sa_start_pa = (if b_pa blk = NO_ADDR \<and> b_in_image blk \<noteq> 0 then b_va blk else b_pa blk),
     sa_prefix = b_section_name blk\<rparr>"

definition block_print_symtab :: "int \<Rightarrow> linked_section option \<Rightarrow> block \<Rightarrow> string \<Rightarrow> string res" where
  "block_print_symtab pa_size lso blk out =
    (case lso of
       None \<Rightarrow> Inl Undefined
     | Some ls \<Rightarrow>
        visit_vector (ls_symtab ls) (print_symtab_ent_if_in_range pa_size (symtab_args blk)) out)"

subsection \<open>Size and addresses\<close>

definition resolve_start :: "linked_section \<Rightarrow> block \<Rightarrow> block res" where
  "resolve_start ls blk =
    res_bind
      (case b_start_label blk of
         None \<Rightarrow> Inr blk
       | Some label \<Rightarrow>
          (case lookup_symtab (ls_symtab ls) label of
             None \<Rightarrow> Inl (Exit M_BADLABEL)
           | Some e \<Rightarrow> Inr (blk\<lparr>b_va := sym_value e\<rparr>)))
      (\<lambda>blk. Inr (if b_va blk = NO_ADDR then blk\<lparr>b_va := ls_start_va ls\<rparr> else blk))"

definition resolve_length :: "linked_section \<Rightarrow> addr_t \<Rightarrow> addr_t \<Rightarrow> block \<Rightarrow> block res" where
  "resolve_length ls seg_start seg_end blk =
    (case b_end_label blk of
       Some label \<Rightarrow>
         (case lookup_symtab (ls_symtab ls) label of
            None \<Rightarrow> Inl (Exit M_BADLABEL)
          | Some e \<Rightarrow> Inr (blk\<lparr>b_d_length := sym_value e - b_va blk\<rparr>))
     | None \<Rightarrow>
         if b_end_va blk \<noteq> NO_ADDR then
           (if b_end_va blk < seg_start then Inl (Exit M_OUTOFRANGE)
            else case b_no_end_range_check blk of
                None \<Rightarrow> Inl Undefined
              | Some c \<Rightarrow>
                 if c = 0 \<and> b_end_va blk > seg_end then Inl (Exit M_OUTOFRANGE)
                 else if b_end_va blk < b_va blk then Inl (Exit M_OUTOFRANGE)
                 else Inr (blk\<lparr>b_d_length := b_end_va blk - b_va blk\<rparr>))
         else Inr (blk\<lparr>b_d_length := seg_end - b_va blk\<rparr>))"

definition resolve_ra_pa :: "int \<Rightarrow> block \<Rightarrow> block res" where
  "resolve_ra_pa pa_size blk =
    res_bind
      (if b_ra_eq_va blk \<noteq> 0
       then res_bind (pa_mask pa_size) (\<lambda>m. Inr (blk\<lparr>b_ra := b_va blk AND m\<rparr>)) else Inr blk)
      (\<lambda>blk. if b_pa_eq_va blk \<noteq> 0
         then res_bind (pa_mask pa_size) (\<lambda>m. Inr (blk\<lparr>b_pa := b_va blk AND m\<rparr>)) else Inr blk)"

definition block_calculate_size :: "int \<Rightarrow> linked_section \<Rightarrow> block \<Rightarrow> block res" where
  "block_calculate_size pa_size ls blk =
    (let seg_start = ls_start_va ls; seg_end = seg_start + ls_length ls
     in res_bind (resolve_start ls blk) (\<lambda>blk.
        if b_va blk < seg_start then Inl (Exit M_OUTOFRANGE)
        else if b_va blk > seg_end then Inl (Exit M_OUTOFRANGE)
        else
          res_bind (resolve_length ls seg_start seg_end (blk\<lparr>b_d_offset := b_va blk - seg_start\<rparr>)) (\<lambda>blk.
          res_bind (resolve_ra_pa pa_size blk) (\<lambda>blk.
          res_bind (visit_vector (b_tsbs blk) (\<lambda>bt _. sanity_check_block_tsb blk bt) ()) (\<lambda>_.
          Inr blk)))))"

subsection \<open>Adding a block to the tables\<close>

text \<open>A block is named by the indices of its application and of itself.\<close>

definition block_add_to_tsbs ::
  "(block_tsb_ref \<Rightarrow> u64 \<Rightarrow> u64 \<Rightarrow> addr_t res) \<Rightarrow> bool \<Rightarrow> block_ref \<Rightarrow> block \<Rightarrow> tsb_heap \<Rightarrow> tsb_heap res" where
  "block_add_to_tsbs va_of allow bref blk hp =
    res_fold (\<lambda>(i, bt). add_block_tsb_to_tsb va_of allow blk bt bref (fst bref, snd bref, i))
      (enumerate 0 (elements (b_tsbs blk))) hp"

definition block_add_to_tsbcsms ::
  "(block_tsb_ref \<Rightarrow> u64 \<Rightarrow> u64 \<Rightarrow> addr_t res) \<Rightarrow> bool \<Rightarrow> tsb vector \<Rightarrow> block_ref \<Rightarrow> block \<Rightarrow> tsbcsm_heap \<Rightarrow> tsbcsm_heap res" where
  "block_add_to_tsbcsms va_of allow tsbs bref blk hp =
    iter_cells2 (\<lambda>(i, bc) bt.
        add_block_tsbcsm_to_tsbcsm va_of allow tsbs blk bc bt bref (fst bref, snd bref, i))
      (enumerate 0 (elements (b_tsbcsms blk))) (elements (b_tsbs blk)) hp"

subsection \<open>The memory image of a block\<close>

text \<open>
  The words of a section: the bytes of the file, four at a time, most significant first.
  On a little-endian host the program swaps the bytes of what it reads. A section without
  bytes in the file is filled with zeros.
\<close>

fun be_words :: "u8 list \<Rightarrow> u32 list" where
  "be_words (a # b # c # d # xs) =
    (push_bit 24 (ucast a) OR push_bit 16 (ucast b) OR push_bit 8 (ucast c) OR ucast d) # be_words xs"
| "be_words _ = []"

definition section_words :: "elf_section \<Rightarrow> block \<Rightarrow> u32 list" where
  "section_words scn blk =
    (if es_type scn = SHT_NOBITS
     then replicate (unat (max (es_size scn) (b_d_length blk)) div 4) 0
     else be_words (es_data scn))"

record image_state =
  i_zero_line :: bool
  i_doing_compress :: bool
  i_printed_data :: bool
  i_last_addr :: addr_t
  i_line_pa :: addr_t
  i_out :: "item list"

text \<open>The words of a line in pairs, the missing half of the last pair zero.\<close>

fun print_pairs :: "bool \<Rightarrow> u32 list \<Rightarrow> item list" where
  "print_pairs sp [] = [Newline]"
| "print_pairs sp [a] = [Pair sp a 0, Newline]"
| "print_pairs sp (a # b # ws) = Pair sp a b # print_pairs True ws"

definition end_compress :: "bool \<Rightarrow> addr_t \<Rightarrow> image_state \<Rightarrow> image_state" where
  "end_compress env start st =
    st\<lparr>i_out := i_out st @
         (if env then
            (if i_printed_data st then [Newline, At (i_last_addr st) (from_compressed start)] else [])
            @ [ZeroBytes (i_line_pa st - i_last_addr st)]
          else [Newline])
         @ [At (i_line_pa st) (from_compressed start)],
       i_doing_compress := False\<rparr>"

text \<open>
  The loop, a line of eight words at a time. \<^verbatim>\<open>zero_line\<close> is computed for whole lines only
  and keeps its value for a last line that is shorter. The loop is left in the middle of a
  line of at most six words.
\<close>

function image_lines ::
  "bool \<Rightarrow> bool \<Rightarrow> addr_t \<Rightarrow> u32 list \<Rightarrow> image_state \<Rightarrow> image_state" where
  "image_lines compress env start ws st =
    (if ws = [] then st
     else
       (let full = 8 \<le> length ws;
            zero = (if full then list_all (\<lambda>w. w = 0) (take 8 ws) else i_zero_line st);
            st0 = st\<lparr>i_zero_line := zero\<rparr>;
            st1 = (if i_doing_compress st \<and> \<not> zero then end_compress env start st0 else st0)
        in if compress \<and> full \<and> zero then
             image_lines compress env start (drop 8 ws)
               (st1\<lparr>i_last_addr := (if i_doing_compress st1 then i_last_addr st1 else i_line_pa st1),
                    i_doing_compress := True, i_line_pa := i_line_pa st1 + 32\<rparr>)
           else
             (let st2 = st1\<lparr>i_printed_data := True, i_out := i_out st1 @ print_pairs False (take 8 ws)\<rparr>
              in if length ws \<le> 6 then st2
                 else image_lines compress env start (drop 8 ws)
                        (st2\<lparr>i_line_pa := i_line_pa st2 + 32\<rparr>))))"
  by pat_completeness auto

termination
  by (relation "measure (\<lambda>(c, e, s, ws, st). length ws)") auto

declare image_lines.simps [simp del]

text \<open>
  The counter of the loop is an \<^verbatim>\<open>int\<close>, which overflows from \<open>2^31 - 1\<close> words on. The
  words are read behind the offset of the block; what lies behind the data of the section
  is undefined.
\<close>

definition block_generate_image ::
  "bool \<Rightarrow> bool \<Rightarrow> int \<Rightarrow> elf_section \<Rightarrow> block \<Rightarrow> physmap \<Rightarrow> (physmap \<times> item list) res" where
  "block_generate_image Compress EnvZero pa_size scn blk pm =
    (if b_in_image blk = 0 then Inr (pm, [])
     else res_bind (pa_mask pa_size) (\<lambda>m.
       let start_pa = b_pa blk; adjusted_pa = start_pa AND m; bytes = b_d_length blk;
           words = unat (bytes div 4);
           buf = drop (unat (b_d_offset blk div 4)) (section_words scn blk)
       in res_bind (add_block_to_physmap pm (b_srcfile blk) (b_srcline blk) (b_lineno blk)
              start_pa (start_pa + bytes) (b_section_name blk) (b_segment_name blk)) (\<lambda>pm'.
          if length buf < words \<or> words \<ge> 2 ^ 31 - 1 then Inl Undefined
          else
            (let st = image_lines (b_compress blk \<noteq> 0 \<and> Compress) EnvZero start_pa (take words buf)
                   \<lparr>i_zero_line = False, i_doing_compress = False, i_printed_data = False,
                    i_last_addr = start_pa, i_line_pa = start_pa,
                    i_out = [Newline, At adjusted_pa (''Section '' @ quoted (b_section_name blk) @
                       '', segment '' @ quoted (b_segment_name blk))]\<rparr>
             in Inr (pm', i_out st @
                  (if i_doing_compress st \<and> EnvZero
                   then [ZeroBytes (i_line_pa st - i_last_addr st)] else []))))))"

subsection \<open>The set functions\<close>

definition blk_set_section_name :: "string \<Rightarrow> block \<Rightarrow> block" where
  "blk_set_section_name x blk = blk\<lparr>b_section_name := x\<rparr>"

definition blk_set_segment_name :: "string \<Rightarrow> block \<Rightarrow> block" where
  "blk_set_segment_name x blk = blk\<lparr>b_segment_name := x\<rparr>"

definition blk_set_link_section :: "string \<Rightarrow> block \<Rightarrow> block" where
  "blk_set_link_section x blk = blk\<lparr>b_link_section := Some x\<rparr>"

definition blk_set_srcfile :: "string \<Rightarrow> block \<Rightarrow> block" where
  "blk_set_srcfile x blk = blk\<lparr>b_srcfile := x\<rparr>"

definition blk_set_srcline :: "int \<Rightarrow> block \<Rightarrow> block" where
  "blk_set_srcline x blk = blk\<lparr>b_srcline := x\<rparr>"

definition blk_set_compress :: "int \<Rightarrow> block \<Rightarrow> block" where
  "blk_set_compress x blk = blk\<lparr>b_compress := x\<rparr>"

definition blk_set_in_image :: "int \<Rightarrow> block \<Rightarrow> block" where
  "blk_set_in_image x blk = blk\<lparr>b_in_image := x\<rparr>"

definition blk_set_va :: "addr_t \<Rightarrow> block \<Rightarrow> block" where
  "blk_set_va x blk = blk\<lparr>b_va := x\<rparr>"

definition blk_set_ra :: "addr_t \<Rightarrow> block \<Rightarrow> block" where
  "blk_set_ra x blk = blk\<lparr>b_ra := x\<rparr>"

definition blk_set_pa :: "addr_t \<Rightarrow> block \<Rightarrow> block" where
  "blk_set_pa x blk = blk\<lparr>b_pa := x\<rparr>"

definition blk_set_no_end_range_check :: "int \<Rightarrow> block \<Rightarrow> block" where
  "blk_set_no_end_range_check x blk = blk\<lparr>b_no_end_range_check := Some x\<rparr>"

definition blk_set_ra_eq_va :: "int \<Rightarrow> block \<Rightarrow> block" where
  "blk_set_ra_eq_va x blk = blk\<lparr>b_ra_eq_va := x\<rparr>"

definition blk_set_pa_eq_va :: "int \<Rightarrow> block \<Rightarrow> block" where
  "blk_set_pa_eq_va x blk = blk\<lparr>b_pa_eq_va := x\<rparr>"

definition blk_set_start_label :: "string \<Rightarrow> block \<Rightarrow> block" where
  "blk_set_start_label x blk = blk\<lparr>b_start_label := Some x\<rparr>"

definition blk_set_end_label :: "string \<Rightarrow> block \<Rightarrow> block" where
  "blk_set_end_label x blk = blk\<lparr>b_end_label := Some x\<rparr>"

definition blk_set_end_va :: "addr_t \<Rightarrow> block \<Rightarrow> block" where
  "blk_set_end_va x blk = blk\<lparr>b_end_va := x\<rparr>"

text \<open>The setters of the open BLOCK_TSB and the open BLOCK_TSBCSM.\<close>

definition modify_open_block_tsb :: "(block_tsb \<Rightarrow> block_tsb) \<Rightarrow> block \<Rightarrow> block res" where
  "modify_open_block_tsb f blk =
    res_bind (vector_modify (b_tsbs blk) (b_open_block_tsb_index blk) f)
      (\<lambda>v. Inr (blk\<lparr>b_tsbs := v\<rparr>))"

definition modify_open_block_tsbcsm :: "(block_tsbcsm \<Rightarrow> block_tsbcsm) \<Rightarrow> block \<Rightarrow> block res" where
  "modify_open_block_tsbcsm f blk =
    res_bind (vector_modify (b_tsbcsms blk) (b_open_block_tsbcsm_index blk) f)
      (\<lambda>v. Inr (blk\<lparr>b_tsbcsms := v\<rparr>))"

definition blk_set_blk_tsb_tag_base :: "addr_t \<Rightarrow> block \<Rightarrow> block res" where
  "blk_set_blk_tsb_tag_base x = modify_open_block_tsb (blk_tsb_set_tag_base x)"

definition blk_set_blk_tsb_data_base :: "addr_t \<Rightarrow> block \<Rightarrow> block res" where
  "blk_set_blk_tsb_data_base x = modify_open_block_tsb (blk_tsb_set_data_base x)"

definition blk_set_blk_tsb_page_size :: "u64 \<Rightarrow> block \<Rightarrow> block res" where
  "blk_set_blk_tsb_page_size x = modify_open_block_tsb (blk_tsb_set_page_size x)"

definition blk_set_blk_tsb_srcfile :: "string \<Rightarrow> block \<Rightarrow> block res" where
  "blk_set_blk_tsb_srcfile x = modify_open_block_tsb (blk_tsb_set_srcfile x)"

definition blk_set_blk_tsb_srcline :: "int \<Rightarrow> block \<Rightarrow> block res" where
  "blk_set_blk_tsb_srcline x = modify_open_block_tsb (blk_tsb_set_srcline x)"

definition blk_set_blk_tsbcsm_clump_num :: "u64 \<Rightarrow> block \<Rightarrow> block res" where
  "blk_set_blk_tsbcsm_clump_num x = modify_open_block_tsbcsm (blk_tsbcsm_set_clump_num x)"

definition blk_set_blk_tsb_va_index_bits :: "int \<Rightarrow> int \<Rightarrow> block \<Rightarrow> block res" where
  "blk_set_blk_tsb_va_index_bits h l = modify_open_block_tsb (blk_tsb_set_va_index_bits h l)"

definition blk_set_blk_tsb_tag_addr_bits :: "int \<Rightarrow> int \<Rightarrow> block \<Rightarrow> block res" where
  "blk_set_blk_tsb_tag_addr_bits h l = modify_open_block_tsb (blk_tsb_set_tag_addr_bits h l)"

definition blk_set_blk_tsb_tte_tag_addr_bits :: "int \<Rightarrow> int \<Rightarrow> block \<Rightarrow> block res" where
  "blk_set_blk_tsb_tte_tag_addr_bits h l = modify_open_block_tsb (blk_tsb_set_tte_tag_addr_bits h l)"

definition blk_set_blk_tsb_data_addr_bits :: "int \<Rightarrow> int \<Rightarrow> block \<Rightarrow> block res" where
  "blk_set_blk_tsb_data_addr_bits h l = modify_open_block_tsb (blk_tsb_set_data_addr_bits h l)"

subsection \<open>What the checks of a block establish\<close>

definition block_ok :: "block \<Rightarrow> bool" where
  "block_ok blk \<longleftrightarrow>
    (\<forall>bt \<in> set (elements (b_tsbs blk)). block_tsb_ok blk bt) \<and>
    (b_va blk = NO_ADDR \<or> b_start_label blk = None) \<and>
    (b_end_va blk = NO_ADDR \<or> b_end_label blk = None) \<and>
    (b_in_image blk \<noteq> 0 \<longrightarrow> b_pa blk \<noteq> NO_ADDR \<or> b_pa_eq_va blk \<noteq> 0) \<and>
    (b_pa blk = NO_ADDR \<or> b_pa_eq_va blk = 0) \<and>
    (elements (b_tsbs blk) \<noteq> [] \<longrightarrow> b_ra blk \<noteq> NO_ADDR \<or> b_ra_eq_va blk \<noteq> 0) \<and>
    (b_ra blk = NO_ADDR \<or> b_ra_eq_va blk = 0)"

lemma visit_unit_iff:
  "visit_vector v (\<lambda>x _. f x) () = Inr () \<longleftrightarrow> (\<forall>x \<in> set (elements v). f x = Inr ())"
proof -
  have "res_fold (\<lambda>x _. f x) xs () = Inr () \<longleftrightarrow> (\<forall>x \<in> set xs. f x = Inr ())" for xs
    by (induction xs) (auto simp: gf_res)
  then show ?thesis by (simp add: visit_vector_def)
qed

lemma sanity_check_block_iff: "sanity_check_block blk = Inr () \<longleftrightarrow> block_ok blk"
  by (auto simp: sanity_check_block_def gf_res visit_unit_iff [unfolded visit_vector_def]
      visit_unit_iff sanity_check_block_tsb_iff block_ok_def VECTOR_LEN_def split: if_splits)

text \<open>Where a block lies in its section after its size was calculated.\<close>

lemma resolve_start_InrD:
  "resolve_start ls blk = Inr blk' \<Longrightarrow> \<exists>a. blk' = blk\<lparr>b_va := a\<rparr>"
  by (auto simp: resolve_start_def gf_res split: option.splits if_splits
      intro: exI [of _ "b_va blk"])

lemma resolve_length_InrD:
  assumes "resolve_length ls s e blk = Inr blk'"
  shows "\<exists>n. blk' = blk\<lparr>b_d_length := n\<rparr> \<and>
    (b_end_label blk = None \<and> (b_end_va blk = NO_ADDR \<or> b_no_end_range_check blk = Some 0) \<longrightarrow>
      n = (if b_end_va blk = NO_ADDR then e else b_end_va blk) - b_va blk \<and>
      (b_end_va blk \<noteq> NO_ADDR \<longrightarrow> b_va blk \<le> b_end_va blk \<and> b_end_va blk \<le> e))"
  using assms by (auto simp: resolve_length_def not_less split: option.splits if_splits)

lemma resolve_ra_pa_InrD:
  assumes "resolve_ra_pa pa_size blk = Inr blk'"
  shows "blk' = blk\<lparr>b_ra := b_ra blk', b_pa := b_pa blk'\<rparr> \<and>
    b_ra blk' = (if b_ra_eq_va blk \<noteq> 0 then b_va blk AND mask (nat pa_size) else b_ra blk) \<and>
    b_pa blk' = (if b_pa_eq_va blk \<noteq> 0 then b_va blk AND mask (nat pa_size) else b_pa blk)"
proof -
  have m: "pa_mask pa_size = Inr m \<Longrightarrow> m = mask (nat pa_size)" for m
    by (auto simp: pa_mask_def push_bit_one mask_eq_exp_minus_1 split: if_splits)
  show ?thesis
    using assms m by (cases "pa_mask pa_size") (auto simp: resolve_ra_pa_def split: if_splits)
qed

lemma block_calculate_size_InrD:
  assumes "block_calculate_size pa_size ls blk = Inr blk'"
  shows "\<exists>a n r p. blk' = blk\<lparr>b_va := a, b_d_offset := a - ls_start_va ls, b_d_length := n, b_ra := r, b_pa := p\<rparr> \<and>
    ls_start_va ls \<le> a \<and> a \<le> ls_start_va ls + ls_length ls \<and>
    (\<forall>bt \<in> set (elements (b_tsbs blk')). block_tsb_ok blk' bt) \<and>
    (b_end_label blk = None \<and> (b_end_va blk = NO_ADDR \<or> b_no_end_range_check blk = Some 0) \<longrightarrow>
      unat (a - ls_start_va ls) + unat n \<le> unat (ls_length ls))"
proof -
  let ?s = "ls_start_va ls" let ?e = "?s + ls_length ls"
  obtain b1 b2 where 1: "resolve_start ls blk = Inr b1" and r1: "?s \<le> b_va b1" "b_va b1 \<le> ?e"
    and 2: "resolve_length ls ?s ?e (b1\<lparr>b_d_offset := b_va b1 - ?s\<rparr>) = Inr b2"
    and 3: "resolve_ra_pa pa_size b2 = Inr blk'"
    and ok: "\<forall>bt \<in> set (elements (b_tsbs blk')). block_tsb_ok blk' bt"
    using assms by (auto simp: block_calculate_size_def Let_def gf_res visit_unit_iff
        sanity_check_block_tsb_iff not_less)
  obtain a where a: "b1 = blk\<lparr>b_va := a\<rparr>" using resolve_start_InrD [OF 1] by auto
  obtain n where n: "b2 = b1\<lparr>b_d_offset := b_va b1 - ?s, b_d_length := n\<rparr>"
    and len: "b_end_label blk = None \<and> (b_end_va blk = NO_ADDR \<or> b_no_end_range_check blk = Some 0) \<longrightarrow>
      n = (if b_end_va blk = NO_ADDR then ?e else b_end_va blk) - a \<and>
      (b_end_va blk \<noteq> NO_ADDR \<longrightarrow> a \<le> b_end_va blk \<and> b_end_va blk \<le> ?e)"
    using resolve_length_InrD [OF 2] by (elim exE conjE) (simp add: a)
  obtain r p where rp: "blk' = b2\<lparr>b_ra := r, b_pa := p\<rparr>" using resolve_ra_pa_InrD [OF 3] by blast
  have bound: "unat (a - ?s) + unat n \<le> unat (ls_length ls)"
    if "b_end_label blk = None \<and> (b_end_va blk = NO_ADDR \<or> b_no_end_range_check blk = Some 0)"
  proof -
    define f where "f = (if b_end_va blk = NO_ADDR then ?e else b_end_va blk)"
    have f: "n = f - a" "a \<le> f" "f \<le> ?e" using len that r1 a by (auto simp: f_def)
    have "?s \<le> a" using r1 a by simp
    then have "unat (a - ?s) + unat (f - a) = unat f - unat ?s" "unat ?s \<le> unat f"
      using f(2) by (simp_all add: unat_sub word_le_nat_alt)
    moreover have "unat ?e - unat ?s = unat (?e - ?s)"
      using \<open>?s \<le> a\<close> f(2,3) by (intro unat_sub [symmetric]) simp
    ultimately show ?thesis using f by (simp add: word_le_nat_alt)
  qed
  show ?thesis
    using r1 ok bound a n rp
    by (intro exI [of _ a] exI [of _ n] exI [of _ r] exI [of _ p]) simp
qed

lemma length_be_words: "length (be_words xs) = length xs div 4"
  by (induction xs rule: be_words.induct) auto

lemma div4_add: "a + b \<le> (c :: nat) \<Longrightarrow> a div 4 + b div 4 \<le> c div 4"
  by arith

end
