(* ===== verification/Gf_App.thy ===== *)
theory Gf_App
  imports Gf_Block
begin

text \<open>
  The applications of \<^verbatim>\<open>app.c\<close>: a linked executable with the blocks the user described and
  the linked sections the blocks refer to. The pointer of a block to its linked section is
  the index in the vector of the application. The ELF file of an application is what
  libelf answers, a list of sections, or \<open>None\<close> when it has no ELF header.
\<close>

record app =
  a_name :: string
  a_elf_file :: "string option"
  a_blocks :: "block vector"
  a_linked_sections :: "linked_section vector"
  a_srcfile :: "string option"
  a_srcline :: int
  a_lineno :: int
  a_open_block_index :: int

record app_state =
  App_vector :: "app vector"
  Open_app_index :: int

definition NO_OPEN_APP :: int where "NO_OPEN_APP = - 1"

definition NO_OPEN_BLOCK :: int where "NO_OPEN_BLOCK = - 1"

definition NO_OPEN_BLOCK_TSB :: int where "NO_OPEN_BLOCK_TSB = - 1"

definition init_app :: app where
  "init_app =
    \<lparr>a_name = ''<no_name>'', a_elf_file = Some ''<unknown>'',
     a_blocks = init_vector (Some ''block_vector'') init_block,
     a_linked_sections = init_vector (Some ''linked_section_vector'') init_linked_section,
     a_srcfile = None, a_srcline = 0, a_lineno = 0, a_open_block_index = NO_OPEN_BLOCK\<rparr>"

definition clear_app_vector :: "app_state \<Rightarrow> app_state" where
  "clear_app_vector st = st\<lparr>App_vector := init_vector (Some ''app_vector'') init_app\<rparr>"

subsection \<open>The vector of applications\<close>

definition app_name_compare :: "string \<Rightarrow> app \<Rightarrow> bool" where
  "app_name_compare nm a \<longleftrightarrow> nm = a_name a"

definition get_app_ptr_by_name :: "app vector \<Rightarrow> string \<Rightarrow> nat option" where
  "get_app_ptr_by_name v nm = search_vector v (app_name_compare nm)"

definition label_app :: "string \<Rightarrow> int \<Rightarrow> app \<Rightarrow> app" where
  "label_app nm lineno a = a\<lparr>a_name := nm, a_lineno := lineno\<rparr>"

definition open_new_app :: "string \<Rightarrow> int \<Rightarrow> app_state \<Rightarrow> app_state res" where
  "open_new_app nm lineno st =
    (let exists_error = (get_app_ptr_by_name (App_vector st) nm \<noteq> None);
         (v, new_index) = add_vector_elements (App_vector st) 1
     in res_bind (vector_modify v (int new_index) (label_app nm lineno)) (\<lambda>v'.
          if exists_error then Inl (Exit M_APPSYNTAX)
          else Inr (st\<lparr>App_vector := v', Open_app_index := int new_index\<rparr>)))"

definition sanity_check_app :: "app \<Rightarrow> unit res" where
  "sanity_check_app a = (if a_elf_file a = None then Inl (Exit M_APPSYNTAX) else Inr ())"

definition close_app :: "app_state \<Rightarrow> app_state res" where
  "close_app st =
    (if Open_app_index st = NO_OPEN_APP then Inl (Exit M_GOLDFINGERPARSE)
     else res_bind (vector_elem (App_vector st) (Open_app_index st)) (\<lambda>a.
          res_bind (sanity_check_app a) (\<lambda>_. Inr (st\<lparr>Open_app_index := NO_OPEN_APP\<rparr>))))"

text \<open>A cell written by an operation that may fail.\<close>

definition vector_update :: "'a vector \<Rightarrow> int \<Rightarrow> ('a \<Rightarrow> 'a res) \<Rightarrow> 'a vector res" where
  "vector_update v i f =
    res_bind (vector_elem v i) (\<lambda>x. res_bind (f x) (\<lambda>x'. vector_modify v i (\<lambda>_. x')))"

definition modify_open_app :: "(app \<Rightarrow> app res) \<Rightarrow> app_state \<Rightarrow> app_state res" where
  "modify_open_app f st =
    res_bind (vector_update (App_vector st) (Open_app_index st) f)
      (\<lambda>v. Inr (st\<lparr>App_vector := v\<rparr>))"

definition modify_open_block :: "(block \<Rightarrow> block res) \<Rightarrow> app_state \<Rightarrow> app_state res" where
  "modify_open_block f =
    modify_open_app (\<lambda>a. res_bind (vector_update (a_blocks a) (a_open_block_index a) f)
      (\<lambda>v. Inr (a\<lparr>a_blocks := v\<rparr>)))"

definition finish_single_app_init :: "tsb vector \<Rightarrow> tsbcsm vector \<Rightarrow> app \<Rightarrow> app res" where
  "finish_single_app_init tsbs csms a =
    res_bind (iterate_vector (a_blocks a)
        (\<lambda>blk s. res_bind (finish_single_block_init tsbs csms blk) (\<lambda>blk'. Inr (blk', s))) ())
      (\<lambda>(v, _). Inr (a\<lparr>a_blocks := v\<rparr>))"

definition finish_app_init :: "tsb vector \<Rightarrow> tsbcsm vector \<Rightarrow> app_state \<Rightarrow> app_state res" where
  "finish_app_init tsbs csms st =
    res_bind (iterate_vector (App_vector st)
        (\<lambda>a s. res_bind (finish_single_app_init tsbs csms a) (\<lambda>a'. Inr (a', s))) ())
      (\<lambda>(v, _). Inr (st\<lparr>App_vector := v\<rparr>))"

subsection \<open>Blocks and linked sections\<close>

definition open_new_block :: "string \<Rightarrow> int \<Rightarrow> app_state \<Rightarrow> app_state res" where
  "open_new_block nm lineno =
    modify_open_app (\<lambda>a.
      let (v, new_index) = add_vector_elements (a_blocks a) 1
      in res_bind (vector_modify v (int new_index) (\<lambda>b. b\<lparr>b_name := nm, b_lineno := lineno\<rparr>)) (\<lambda>v'.
         Inr (a\<lparr>a_blocks := v', a_open_block_index := int new_index\<rparr>)))"

definition get_linked_section_by_name :: "app \<Rightarrow> string \<Rightarrow> nat option" where
  "get_linked_section_by_name a nm =
    search_vector (a_linked_sections a) (linked_section_name_compare nm)"

text \<open>
  The linked section of the block that is closed: the one of that name, or a new one. The
  name is \<^verbatim>\<open>NULL\<close> when the block gave no link section, and is then read by \<^verbatim>\<open>strcmp\<close> or
  \<^verbatim>\<open>strdup\<close>.
\<close>

definition find_or_add_section :: "block \<Rightarrow> app \<Rightarrow> (app \<times> nat) res" where
  "find_or_add_section blk a =
    (case b_link_section blk of
       None \<Rightarrow> Inl Undefined
     | Some nm \<Rightarrow>
        (case get_linked_section_by_name a nm of
           Some i \<Rightarrow> Inr (a, i)
         | None \<Rightarrow>
            (let (v, new_index) = add_vector_elements (a_linked_sections a) 1
             in res_bind (vector_modify v (int new_index) (\<lambda>ls.
                    ls\<lparr>ls_name := nm, ls_section_name := Some (b_section_name blk),
                       ls_segment_name := Some (b_segment_name blk)\<rparr>)) (\<lambda>v'.
                Inr (a\<lparr>a_linked_sections := v'\<rparr>, new_index)))))"

definition close_block_of_app :: "app \<Rightarrow> app res" where
  "close_block_of_app a =
    (if a_open_block_index a = NO_OPEN_BLOCK then Inl (Exit M_GOLDFINGERPARSE)
     else res_bind (vector_elem (a_blocks a) (a_open_block_index a)) (\<lambda>blk.
          res_bind (sanity_check_block blk) (\<lambda>_.
          res_bind (find_or_add_section blk a) (\<lambda>(a', i).
          res_bind (vector_modify (a_blocks a') (a_open_block_index a)
              (\<lambda>b. b\<lparr>b_linked_section_obj := Some i\<rparr>)) (\<lambda>v.
          Inr (a'\<lparr>a_blocks := v, a_open_block_index := NO_OPEN_BLOCK\<rparr>))))))"

definition close_block :: "app_state \<Rightarrow> app_state res" where
  "close_block = modify_open_app close_block_of_app"

definition open_new_block_tsb :: "string \<Rightarrow> int \<Rightarrow> app_state \<Rightarrow> app_state res" where
  "open_new_block_tsb nm lineno =
    modify_open_block (\<lambda>blk.
      let (v, new_index) = add_vector_elements (b_tsbs blk) 1
      in res_bind (vector_modify v (int new_index) (\<lambda>bt. bt\<lparr>bt_name := nm, bt_lineno := lineno\<rparr>)) (\<lambda>v'.
         Inr (blk\<lparr>b_tsbs := v', b_open_block_tsb_index := int new_index\<rparr>)))"

definition open_new_block_tsbcsm :: "string \<Rightarrow> int \<Rightarrow> app_state \<Rightarrow> app_state res" where
  "open_new_block_tsbcsm nm lineno =
    modify_open_block (\<lambda>blk.
      let (v, new_index) = add_vector_elements (b_tsbcsms blk) 1
      in res_bind (vector_modify v (int new_index) (\<lambda>bc. bc\<lparr>bc_name := nm, bc_lineno := lineno\<rparr>)) (\<lambda>v'.
         Inr (blk\<lparr>b_tsbcsms := v', b_open_block_tsbcsm_index := int new_index\<rparr>)))"

definition close_block_tsb :: "app_state \<Rightarrow> app_state res" where
  "close_block_tsb =
    modify_open_app (\<lambda>a.
      if a_open_block_index a = NO_OPEN_BLOCK then Inl (Exit M_GOLDFINGERPARSE)
      else res_bind (vector_update (a_blocks a) (a_open_block_index a) (\<lambda>blk.
             if b_open_block_tsb_index blk = NO_OPEN_BLOCK_TSB then Inl (Exit M_GOLDFINGERPARSE)
             else res_bind (vector_elem (b_tsbs blk) (b_open_block_tsb_index blk)) (\<lambda>_.
                  Inr (blk\<lparr>b_open_block_tsb_index := NO_OPEN_BLOCK_TSB\<rparr>))))
           (\<lambda>v. Inr (a\<lparr>a_blocks := v\<rparr>)))"

definition close_block_tsbcsm :: "app_state \<Rightarrow> app_state res" where
  "close_block_tsbcsm =
    modify_open_app (\<lambda>a.
      if a_open_block_index a = NO_OPEN_BLOCK then Inl (Exit M_GOLDFINGERPARSE)
      else res_bind (vector_update (a_blocks a) (a_open_block_index a) (\<lambda>blk.
             if b_open_block_tsbcsm_index blk = NO_OPEN_BLOCK_TSB then Inl (Exit M_GOLDFINGERPARSE)
             else res_bind (vector_elem (b_tsbcsms blk) (b_open_block_tsbcsm_index blk)) (\<lambda>_.
                  Inr (blk\<lparr>b_open_block_tsbcsm_index := NO_OPEN_BLOCK_TSB\<rparr>))))
           (\<lambda>v. Inr (a\<lparr>a_blocks := v\<rparr>)))"

subsection \<open>The ELF file\<close>

text \<open>The section of a block, through its pointer.\<close>

definition section_of :: "app \<Rightarrow> block \<Rightarrow> linked_section option" where
  "section_of a blk =
    (case b_linked_section_obj blk of
       None \<Rightarrow> None
     | Some i \<Rightarrow> if i < length (elements (a_linked_sections a))
                 then Some (elements (a_linked_sections a) ! i) else None)"

text \<open>The sections whose data may belong to a block.\<close>

definition loads_data :: "elf_section \<Rightarrow> bool" where
  "loads_data scn \<longleftrightarrow> es_type scn = SHT_PROGBITS \<or> es_type scn = SHT_NOBITS"

text \<open>A round of the first loop: the index of the symbol table, and one linked section.\<close>

definition scan_section :: "elf_section \<Rightarrow> app \<times> u64 \<Rightarrow> (app \<times> u64) res" where
  "scan_section scn s =
    (case s of (a, symtab_ndx) \<Rightarrow>
     let symtab_ndx' = (if es_type scn = SHT_SYMTAB then es_ndx scn else symtab_ndx)
     in if \<not> loads_data scn then Inr (a, symtab_ndx')
        else case es_name scn of
            None \<Rightarrow> Inr (a, symtab_ndx')
          | Some nm \<Rightarrow>
             (case get_linked_section_by_name a nm of
                None \<Rightarrow> Inr (a, symtab_ndx')
              | Some i \<Rightarrow>
                  res_bind (vector_modify (a_linked_sections a) (int i) (\<lambda>ls.
                      ls\<lparr>ls_shndx := es_ndx scn, ls_start_va := es_addr scn,
                         ls_length := es_size scn\<rparr>)) (\<lambda>v.
                  Inr (a\<lparr>a_linked_sections := v\<rparr>, symtab_ndx'))))"

definition linked_sec_build_symtab :: "elf_section \<Rightarrow> linked_section \<Rightarrow> linked_section res" where
  "linked_sec_build_symtab scn ls = build_linked_section_symbol_table ls scn"

definition blk_calculate_size_if_match :: "int \<Rightarrow> app \<Rightarrow> string \<Rightarrow> block \<Rightarrow> block res" where
  "blk_calculate_size_if_match pa_size a link_section blk =
    res_bind (block_link_section_compare link_section blk) (\<lambda>match.
      if match then
        (case section_of a blk of
           None \<Rightarrow> Inl Undefined
         | Some ls \<Rightarrow> block_calculate_size pa_size ls blk)
      else Inr blk)"

definition blk_gen_image_if_match ::
  "bool \<Rightarrow> bool \<Rightarrow> int \<Rightarrow> string \<Rightarrow> elf_section \<Rightarrow> block \<Rightarrow> physmap \<times> item list
    \<Rightarrow> (physmap \<times> item list) res" where
  "blk_gen_image_if_match Compress EnvZero pa_size link_section scn blk s =
    res_bind (block_link_section_compare link_section blk) (\<lambda>match.
      if match then
        res_bind (block_generate_image Compress EnvZero pa_size scn blk (fst s)) (\<lambda>(pm, is).
        Inr (pm, snd s @ is))
      else Inr s)"

text \<open>A round of the second loop: the blocks of the section, first their sizes, then the image.\<close>

definition process_section ::
  "bool \<Rightarrow> bool \<Rightarrow> int \<Rightarrow> bool \<Rightarrow> elf_section \<Rightarrow> app \<times> physmap \<times> item list
    \<Rightarrow> (app \<times> physmap \<times> item list) res" where
  "process_section Compress EnvZero pa_size genimage scn s =
    (case s of (a, pm, out) \<Rightarrow>
     if \<not> loads_data scn then Inr s
     else case es_name scn of
         None \<Rightarrow> Inr s
       | Some nm \<Rightarrow>
          res_bind (iterate_vector (a_blocks a)
              (\<lambda>blk u. res_bind (blk_calculate_size_if_match pa_size a nm blk) (\<lambda>blk'. Inr (blk', u))) ())
            (\<lambda>(v, _).
          let a' = a\<lparr>a_blocks := v\<rparr>
          in if genimage then
               res_bind (visit_vector v (blk_gen_image_if_match Compress EnvZero pa_size nm scn) (pm, out))
                 (\<lambda>(pm', out'). Inr (a', pm', out'))
             else Inr (a', pm, out)))"

definition process_elf_file ::
  "bool \<Rightarrow> bool \<Rightarrow> int \<Rightarrow> bool \<Rightarrow> elf_section list option \<Rightarrow> app \<times> physmap \<times> item list
    \<Rightarrow> (app \<times> physmap \<times> item list) res" where
  "process_elf_file Compress EnvZero pa_size genimage elf s =
    (case elf of
       None \<Rightarrow> Inl (Exit M_ELF)
     | Some scns \<Rightarrow>
        (case s of (a, pm, out) \<Rightarrow>
         res_bind (res_fold scan_section scns (a, 0)) (\<lambda>(a1, symtab_ndx).
         res_bind (visit_vector (a_blocks a1)
             (\<lambda>blk _. block_check_link_section_exists (section_of a1 blk)) ()) (\<lambda>_.
         res_bind
           (if symtab_ndx \<noteq> 0 then
              (case List.find (\<lambda>scn. es_ndx scn = symtab_ndx) scns of
                 None \<Rightarrow> Inl Undefined
               | Some scn \<Rightarrow>
                  res_bind (iterate_vector (a_linked_sections a1)
                      (\<lambda>ls u. res_bind (linked_sec_build_symtab scn ls) (\<lambda>ls'. Inr (ls', u))) ())
                    (\<lambda>(v, _). Inr (a1\<lparr>a_linked_sections := v\<rparr>)))
            else Inr a1) (\<lambda>a2.
         res_fold (process_section Compress EnvZero pa_size genimage) scns (a2, pm, out))))))"

text \<open>
  All applications. What libelf answers for a file name is the argument \<open>elf_of\<close>; a
  \<^verbatim>\<open>NULL\<close> file name cannot be opened, which ends in the missing header.
\<close>

definition process_app_elf_files ::
  "(string \<Rightarrow> elf_section list option) \<Rightarrow> bool \<Rightarrow> bool \<Rightarrow> int \<Rightarrow> bool
    \<Rightarrow> app_state \<times> physmap \<times> item list \<Rightarrow> (app_state \<times> physmap \<times> item list) res" where
  "process_app_elf_files elf_of Compress EnvZero pa_size genimage s =
    (case s of (st, pm, out) \<Rightarrow>
     res_bind (iterate_vector (App_vector st) (\<lambda>a (pm, out).
         res_bind (process_elf_file Compress EnvZero pa_size genimage
             (Option.bind (a_elf_file a) elf_of) (a, pm, out)) (\<lambda>(a', pm', out').
         Inr (a', pm', out'))) (pm, out))
       (\<lambda>(v, pm', out'). Inr (st\<lparr>App_vector := v\<rparr>, pm', out')))"

subsection \<open>TSBs and symbol table\<close>

text \<open>What \<^verbatim>\<open>tag2va\<close> and \<^verbatim>\<open>csmtag2va\<close> say for the BLOCK_TSB or BLOCK_TSBCSM that a pointer leads to.\<close>

definition tag2va_at :: "app vector \<Rightarrow> block_tsb_ref \<Rightarrow> u64 \<Rightarrow> u64 \<Rightarrow> addr_t res" where
  "tag2va_at apps r tag index =
    res_bind (vector_elem apps (int (fst r))) (\<lambda>a.
    res_bind (vector_elem (a_blocks a) (int (fst (snd r)))) (\<lambda>blk.
    res_bind (vector_elem (b_tsbs blk) (int (snd (snd r)))) (\<lambda>bt. tag2va bt tag index)))"

definition csmtag2va_at :: "app vector \<Rightarrow> block_tsb_ref \<Rightarrow> u64 \<Rightarrow> u64 \<Rightarrow> addr_t res" where
  "csmtag2va_at apps r tag index =
    res_bind (vector_elem apps (int (fst r))) (\<lambda>a.
    res_bind (vector_elem (a_blocks a) (int (fst (snd r)))) (\<lambda>blk.
    res_bind (vector_elem (b_tsbcsms blk) (int (snd (snd r)))) (\<lambda>bc. csmtag2va bc tag index)))"

definition app_add_to_tsbs ::
  "(block_tsb_ref \<Rightarrow> u64 \<Rightarrow> u64 \<Rightarrow> addr_t res) \<Rightarrow> bool \<Rightarrow> nat \<Rightarrow> app \<Rightarrow> tsb_heap \<Rightarrow> tsb_heap res" where
  "app_add_to_tsbs va_of allow n a hp =
    res_fold (\<lambda>(i, blk). block_add_to_tsbs va_of allow (n, i) blk) (enumerate 0 (elements (a_blocks a))) hp"

definition app_add_to_tsbcsms ::
  "(block_tsb_ref \<Rightarrow> u64 \<Rightarrow> u64 \<Rightarrow> addr_t res) \<Rightarrow> bool \<Rightarrow> tsb vector \<Rightarrow> nat \<Rightarrow> app \<Rightarrow> tsbcsm_heap \<Rightarrow> tsbcsm_heap res" where
  "app_add_to_tsbcsms va_of allow tsbs n a hp =
    res_fold (\<lambda>(i, blk). block_add_to_tsbcsms va_of allow tsbs (n, i) blk)
      (enumerate 0 (elements (a_blocks a))) hp"

definition add_apps_to_tsbs :: "bool \<Rightarrow> app vector \<Rightarrow> tsb_heap \<Rightarrow> tsb_heap res" where
  "add_apps_to_tsbs allow apps hp =
    res_fold (\<lambda>(n, a). app_add_to_tsbs (tag2va_at apps) allow n a) (enumerate 0 (elements apps)) hp"

definition add_apps_to_tsbcsms ::
  "bool \<Rightarrow> tsb vector \<Rightarrow> app vector \<Rightarrow> tsbcsm_heap \<Rightarrow> tsbcsm_heap res" where
  "add_apps_to_tsbcsms allow tsbs apps hp =
    res_fold (\<lambda>(n, a). app_add_to_tsbcsms (csmtag2va_at apps) allow tsbs n a) (enumerate 0 (elements apps)) hp"

definition print_app_symtab :: "int \<Rightarrow> app \<Rightarrow> string \<Rightarrow> string res" where
  "print_app_symtab pa_size a out =
    visit_vector (a_blocks a) (\<lambda>blk. block_print_symtab pa_size (section_of a blk) blk) out"

definition print_symtab :: "int \<Rightarrow> app vector \<Rightarrow> string \<Rightarrow> string res" where
  "print_symtab pa_size apps out = visit_vector apps (print_app_symtab pa_size) out"

subsection \<open>The set functions\<close>

definition set_app_elf_file :: "string \<Rightarrow> app_state \<Rightarrow> app_state res" where
  "set_app_elf_file x = modify_open_app (\<lambda>a. Inr (a\<lparr>a_elf_file := Some x\<rparr>))"

definition set_app_srcfile :: "string \<Rightarrow> app_state \<Rightarrow> app_state res" where
  "set_app_srcfile x = modify_open_app (\<lambda>a. Inr (a\<lparr>a_srcfile := Some x\<rparr>))"

definition set_app_srcline :: "int \<Rightarrow> app_state \<Rightarrow> app_state res" where
  "set_app_srcline x = modify_open_app (\<lambda>a. Inr (a\<lparr>a_srcline := x\<rparr>))"

definition set_block_section_name :: "string \<Rightarrow> app_state \<Rightarrow> app_state res" where
  "set_block_section_name x = modify_open_block (\<lambda>blk. Inr (blk_set_section_name x blk))"

definition set_block_segment_name :: "string \<Rightarrow> app_state \<Rightarrow> app_state res" where
  "set_block_segment_name x = modify_open_block (\<lambda>blk. Inr (blk_set_segment_name x blk))"

definition set_block_link_section :: "string \<Rightarrow> app_state \<Rightarrow> app_state res" where
  "set_block_link_section x = modify_open_block (\<lambda>blk. Inr (blk_set_link_section x blk))"

definition set_block_srcfile :: "string \<Rightarrow> app_state \<Rightarrow> app_state res" where
  "set_block_srcfile x = modify_open_block (\<lambda>blk. Inr (blk_set_srcfile x blk))"

definition set_block_srcline :: "int \<Rightarrow> app_state \<Rightarrow> app_state res" where
  "set_block_srcline x = modify_open_block (\<lambda>blk. Inr (blk_set_srcline x blk))"

definition set_block_compress :: "int \<Rightarrow> app_state \<Rightarrow> app_state res" where
  "set_block_compress x = modify_open_block (\<lambda>blk. Inr (blk_set_compress x blk))"

definition set_block_in_image :: "int \<Rightarrow> app_state \<Rightarrow> app_state res" where
  "set_block_in_image x = modify_open_block (\<lambda>blk. Inr (blk_set_in_image x blk))"

definition set_block_no_end_range_check :: "int \<Rightarrow> app_state \<Rightarrow> app_state res" where
  "set_block_no_end_range_check x = modify_open_block (\<lambda>blk. Inr (blk_set_no_end_range_check x blk))"

definition set_block_va :: "addr_t \<Rightarrow> app_state \<Rightarrow> app_state res" where
  "set_block_va x = modify_open_block (\<lambda>blk. Inr (blk_set_va x blk))"

definition set_block_ra :: "addr_t \<Rightarrow> app_state \<Rightarrow> app_state res" where
  "set_block_ra x = modify_open_block (\<lambda>blk. Inr (blk_set_ra x blk))"

definition set_block_pa :: "addr_t \<Rightarrow> app_state \<Rightarrow> app_state res" where
  "set_block_pa x = modify_open_block (\<lambda>blk. Inr (blk_set_pa x blk))"

definition set_block_start_label :: "string \<Rightarrow> app_state \<Rightarrow> app_state res" where
  "set_block_start_label x = modify_open_block (\<lambda>blk. Inr (blk_set_start_label x blk))"

definition set_block_end_label :: "string \<Rightarrow> app_state \<Rightarrow> app_state res" where
  "set_block_end_label x = modify_open_block (\<lambda>blk. Inr (blk_set_end_label x blk))"

definition set_block_end_va :: "addr_t \<Rightarrow> app_state \<Rightarrow> app_state res" where
  "set_block_end_va x = modify_open_block (\<lambda>blk. Inr (blk_set_end_va x blk))"

definition set_block_ra_eq_va :: "int \<Rightarrow> app_state \<Rightarrow> app_state res" where
  "set_block_ra_eq_va x = modify_open_block (\<lambda>blk. Inr (blk_set_ra_eq_va x blk))"

definition set_block_pa_eq_va :: "int \<Rightarrow> app_state \<Rightarrow> app_state res" where
  "set_block_pa_eq_va x = modify_open_block (\<lambda>blk. Inr (blk_set_pa_eq_va x blk))"

definition set_block_tsb_tag_base :: "addr_t \<Rightarrow> app_state \<Rightarrow> app_state res" where
  "set_block_tsb_tag_base x = modify_open_block (blk_set_blk_tsb_tag_base x)"

definition set_block_tsb_data_base :: "addr_t \<Rightarrow> app_state \<Rightarrow> app_state res" where
  "set_block_tsb_data_base x = modify_open_block (blk_set_blk_tsb_data_base x)"

definition set_block_tsb_page_size :: "u64 \<Rightarrow> app_state \<Rightarrow> app_state res" where
  "set_block_tsb_page_size x = modify_open_block (blk_set_blk_tsb_page_size x)"

definition set_block_tsb_srcfile :: "string \<Rightarrow> app_state \<Rightarrow> app_state res" where
  "set_block_tsb_srcfile x = modify_open_block (blk_set_blk_tsb_srcfile x)"

definition set_block_tsb_srcline :: "int \<Rightarrow> app_state \<Rightarrow> app_state res" where
  "set_block_tsb_srcline x = modify_open_block (blk_set_blk_tsb_srcline x)"

definition set_block_tsbcsm_clump_num :: "u64 \<Rightarrow> app_state \<Rightarrow> app_state res" where
  "set_block_tsbcsm_clump_num x = modify_open_block (blk_set_blk_tsbcsm_clump_num x)"

definition set_block_tsb_va_index_bits :: "int \<Rightarrow> int \<Rightarrow> app_state \<Rightarrow> app_state res" where
  "set_block_tsb_va_index_bits h l = modify_open_block (blk_set_blk_tsb_va_index_bits h l)"

definition set_block_tsb_tag_addr_bits :: "int \<Rightarrow> int \<Rightarrow> app_state \<Rightarrow> app_state res" where
  "set_block_tsb_tag_addr_bits h l = modify_open_block (blk_set_blk_tsb_tag_addr_bits h l)"

definition set_block_tsb_tte_tag_addr_bits :: "int \<Rightarrow> int \<Rightarrow> app_state \<Rightarrow> app_state res" where
  "set_block_tsb_tte_tag_addr_bits h l = modify_open_block (blk_set_blk_tsb_tte_tag_addr_bits h l)"

definition set_block_tsb_data_addr_bits :: "int \<Rightarrow> int \<Rightarrow> app_state \<Rightarrow> app_state res" where
  "set_block_tsb_data_addr_bits h l = modify_open_block (blk_set_blk_tsb_data_addr_bits h l)"

end
