(* ===== verification/Gf_App_Refine.thy ===== *)
theory Gf_App_Refine
  imports Gf_App
begin

text \<open>
  Facts on applications: names are unique, every closed block points to the linked section
  of its name, the linked sections get the headers of the ELF file, and adding all blocks
  to the tables appends, bucket by bucket, exactly the pages of the blocks.
\<close>

subsection \<open>Registries\<close>

interpretation app_reg: registry "\<lambda>v. add_vector_elements v 1" elements init_elem
  vector_modify search_vector a_name label_app
  by unfold_locales (simp add: label_app_def)

interpretation sec_reg: registry "\<lambda>v. add_vector_elements v 1" elements init_elem
  vector_modify search_vector ls_name
  "\<lambda>nm lineno ls. ls\<lparr>ls_name := nm, ls_section_name := sec, ls_segment_name := seg\<rparr>"
  for sec seg
  by unfold_locales simp

lemma open_new_app_dup:
  "get_app_ptr_by_name (App_vector st) nm \<noteq> None \<Longrightarrow>
   open_new_app nm lineno st = Inl (Exit M_APPSYNTAX)"
  using app_reg.open_total [of "App_vector st" nm lineno]
  by (auto simp: open_new_app_def Let_def split: prod.splits)

lemma open_new_app_InrD:
  assumes "open_new_app nm lineno st = Inr st'"
  shows "get_app_ptr_by_name (App_vector st) nm = None \<and>
    Open_app_index st' = int (length (elements (App_vector st))) \<and>
    get_app_ptr_by_name (App_vector st') nm = Some (length (elements (App_vector st))) \<and>
    (\<forall>m. m \<noteq> nm \<longrightarrow> get_app_ptr_by_name (App_vector st') m = get_app_ptr_by_name (App_vector st) m) \<and>
    (distinct (map a_name (elements (App_vector st))) \<longrightarrow> distinct (map a_name (elements (App_vector st'))))"
proof -
  have m: "vector_modify (fst (add_vector_elements (App_vector st) 1))
      (int (snd (add_vector_elements (App_vector st) 1))) (label_app nm lineno) = Inr (App_vector st')"
    and new: "search_vector (App_vector st) (\<lambda>x. nm = a_name x) = None"
    and op: "Open_app_index st' = int (snd (add_vector_elements (App_vector st) 1))"
    using assms
    by (auto simp: open_new_app_def get_app_ptr_by_name_def app_name_compare_def [abs_def]
        gf_res Let_def split: prod.splits if_splits)
  show ?thesis
    using app_reg.open_then_find [OF m new] app_reg.open_finds_others [OF m] app_reg.open_keeps_distinct [OF m new]
      op new elements_add_vector_elements(3) [of "App_vector st" 1]
    by (simp add: get_app_ptr_by_name_def app_name_compare_def [abs_def])
qed

subsection \<open>Closing a block\<close>

text \<open>
  The invariant of an application: linked sections have distinct names, and a pointer to a
  linked section points to the one of the block's name.
\<close>

definition section_ptr_ok :: "linked_section list \<Rightarrow> block \<Rightarrow> bool" where
  "section_ptr_ok lss blk \<longleftrightarrow>
    (\<forall>i. b_linked_section_obj blk = Some i \<longrightarrow>
      i < length lss \<and> b_link_section blk = Some (ls_name (lss ! i)))"

definition app_wf :: "app \<Rightarrow> bool" where
  "app_wf a \<longleftrightarrow>
    distinct (map ls_name (elements (a_linked_sections a))) \<and>
    (\<forall>blk \<in> set (elements (a_blocks a)). section_ptr_ok (elements (a_linked_sections a)) blk)"

lemma section_ptr_ok_append: "section_ptr_ok xs blk \<Longrightarrow> section_ptr_ok (xs @ ys) blk"
  by (auto simp: section_ptr_ok_def nth_append)

lemma find_or_add_section_InrD:
  assumes "find_or_add_section blk a = Inr (a', i)"
  shows "a_blocks a' = a_blocks a \<and> i < length (elements (a_linked_sections a')) \<and>
    b_link_section blk = Some (ls_name (elements (a_linked_sections a') ! i)) \<and>
    (\<exists>new. elements (a_linked_sections a') = elements (a_linked_sections a) @ new) \<and>
    (distinct (map ls_name (elements (a_linked_sections a))) \<longrightarrow>
      distinct (map ls_name (elements (a_linked_sections a'))))"
proof -
  obtain nm where nm: "b_link_section blk = Some nm"
    using assms by (auto simp: find_or_add_section_def split: option.splits)
  have seek: "get_linked_section_by_name a nm = search_vector (a_linked_sections a) (\<lambda>x. nm = ls_name x)"
    by (simp add: get_linked_section_by_name_def linked_section_name_compare_def [abs_def])
  show ?thesis
  proof (cases "get_linked_section_by_name a nm")
    case (Some k)
    with assms nm have "a' = a" "i = k" by (simp_all add: find_or_add_section_def)
    with Some nm show ?thesis using vec.seek_iff [of "a_linked_sections a" "\<lambda>x. nm = ls_name x" k]
      by (simp add: seek)
  next
    case None
    then have s: "search_vector (a_linked_sections a) (\<lambda>x. nm = ls_name x) = None" by (simp add: seek)
    from assms nm None have m: "vector_modify (fst (add_vector_elements (a_linked_sections a) 1))
        (int (snd (add_vector_elements (a_linked_sections a) 1))) (\<lambda>ls.
          ls\<lparr>ls_name := nm, ls_section_name := Some (b_section_name blk),
             ls_segment_name := Some (b_segment_name blk)\<rparr>) = Inr (a_linked_sections a')"
      and i: "i = length (elements (a_linked_sections a))" and "a_blocks a' = a_blocks a"
      using elements_add_vector_elements(3) [of "a_linked_sections a" 1]
      by (auto simp: find_or_add_section_def gf_res split: prod.splits)
    then show ?thesis
      using sec_reg.open_extends(1) [OF m] sec_reg.open_keeps_distinct [OF m s] nm by simp
  qed
qed

lemma close_block_wf:
  assumes "close_block_of_app a = Inr a'" and "app_wf a"
  shows "app_wf a' \<and> a_open_block_index a' = NO_OPEN_BLOCK \<and>
    (let n = nat (a_open_block_index a); blk = elements (a_blocks a) ! n
     in n < length (elements (a_blocks a)) \<and> block_ok blk \<and>
        elements (a_blocks a') = (elements (a_blocks a))[n := elements (a_blocks a') ! n] \<and>
        (\<exists>ls. section_of a' (elements (a_blocks a') ! n) = Some ls \<and>
          Some (ls_name ls) = b_link_section blk))"
proof -
  let ?n = "nat (a_open_block_index a)"
  obtain blk a1 i v where e: "vector_elem (a_blocks a) (a_open_block_index a) = Inr blk"
    and ok: "sanity_check_block blk = Inr ()" and f: "find_or_add_section blk a = Inr (a1, i)"
    and v: "vector_modify (a_blocks a1) (a_open_block_index a)
      (\<lambda>b. b\<lparr>b_linked_section_obj := Some i\<rparr>) = Inr v"
    and a': "a' = a1\<lparr>a_blocks := v, a_open_block_index := NO_OPEN_BLOCK\<rparr>"
    using assms(1) by (auto simp: close_block_of_app_def gf_res)
  note F = find_or_add_section_InrD [OF f]
  have blk: "?n < length (elements (a_blocks a))" "elements (a_blocks a) ! ?n = blk"
    using e by (auto simp: vector_elem_def VECTOR_LEN_def split: if_splits)
  have el: "elements v = (elements (a_blocks a))[?n := blk\<lparr>b_linked_section_obj := Some i\<rparr>]"
    using vector_modify_InrD [OF v] F blk by simp
  have ptr: "section_ptr_ok (elements (a_linked_sections a1)) b" if "b \<in> set (elements v)" for b
  proof -
    have "b = blk\<lparr>b_linked_section_obj := Some i\<rparr> \<or> b \<in> set (elements (a_blocks a))"
      using that set_update_subset_insert [of "elements (a_blocks a)"] by (auto simp: el)
    then show ?thesis
      using F assms(2) section_ptr_ok_append by (auto simp: app_wf_def) (auto simp: section_ptr_ok_def)
  qed
  then show ?thesis
    using a' F assms(2) el blk ok sanity_check_block_iff
    by (auto simp: app_wf_def Let_def section_of_def)
qed

subsection \<open>Reading the section headers\<close>

text \<open>What the first loop writes to a linked section: the header of the last section of its name.\<close>

definition named_data :: "string \<Rightarrow> elf_section \<Rightarrow> bool" where
  "named_data nm scn \<longleftrightarrow> loads_data scn \<and> es_name scn = Some nm"

definition take_header :: "elf_section list \<Rightarrow> linked_section \<Rightarrow> linked_section" where
  "take_header scns ls =
    (let ms = filter (named_data (ls_name ls)) scns
     in if ms = [] then ls
        else ls\<lparr>ls_shndx := es_ndx (last ms), ls_start_va := es_addr (last ms),
                ls_length := es_size (last ms)\<rparr>)"

definition symtab_index :: "elf_section list \<Rightarrow> u64 \<Rightarrow> u64" where
  "symtab_index scns n =
    (let ms = filter (\<lambda>s. es_type s = SHT_SYMTAB) scns in if ms = [] then n else es_ndx (last ms))"

lemma ls_name_take_header [simp]: "ls_name (take_header scns ls) = ls_name ls"
  by (simp add: take_header_def Let_def)

lemma take_header_Cons:
  "take_header (scn # scns) ls = take_header scns (take_header [scn] ls)"
  by (auto simp: take_header_def Let_def)

lemma scan_section_step:
  assumes "distinct (map ls_name (elements (a_linked_sections a)))"
  shows "\<exists>v. scan_section scn (a, n) = Inr (a\<lparr>a_linked_sections := v\<rparr>, symtab_index [scn] n) \<and>
    elements v = map (take_header [scn]) (elements (a_linked_sections a))"
proof -
  let ?lss = "elements (a_linked_sections a)"
  have same: "map (take_header [scn]) ?lss = ?lss" if "\<And>ls. ls \<in> set ?lss \<Longrightarrow> \<not> named_data (ls_name ls) scn"
    using that by (intro map_idI) (simp add: take_header_def)
  show ?thesis
  proof (cases "loads_data scn \<and> es_name scn \<noteq> None")
    case False
    then have "scan_section scn (a, n) = Inr (a, symtab_index [scn] n)"
      by (auto simp: scan_section_def Let_def symtab_index_def)
    moreover have "map (take_header [scn]) ?lss = ?lss" using False by (intro same) (auto simp: named_data_def)
    ultimately show ?thesis by (intro exI [of _ "a_linked_sections a"]) simp
  next
    case True
    then obtain nm where nm: "es_name scn = Some nm" and ld: "loads_data scn" by auto
    have seek: "get_linked_section_by_name a nm = search_vector (a_linked_sections a) (\<lambda>x. nm = ls_name x)"
      by (simp add: get_linked_section_by_name_def linked_section_name_compare_def [abs_def])
    show ?thesis
    proof (cases "get_linked_section_by_name a nm")
      case None
      then have "scan_section scn (a, n) = Inr (a, symtab_index [scn] n)"
        using nm ld by (auto simp: scan_section_def Let_def symtab_index_def)
      moreover have "map (take_header [scn]) ?lss = ?lss"
        using None nm vec.seek_None_iff [of "a_linked_sections a" "\<lambda>x. nm = ls_name x"]
        by (intro same) (auto simp: named_data_def seek)
      ultimately show ?thesis by (intro exI [of _ "a_linked_sections a"]) simp
    next
      case (Some i)
      then have i: "i < length ?lss" "ls_name (?lss ! i) = nm"
        using vec.seek_iff [of "a_linked_sections a" "\<lambda>x. nm = ls_name x" i] by (auto simp: seek)
      let ?f = "\<lambda>ls. ls\<lparr>ls_shndx := es_ndx scn, ls_start_va := es_addr scn, ls_length := es_size scn\<rparr>"
      obtain v where v: "vector_modify (a_linked_sections a) (int i) ?f = Inr v"
        using vector_modify_total [OF i(1)] by blast
      have st: "loads_data scn \<Longrightarrow> es_type scn \<noteq> SHT_SYMTAB" by (auto simp: loads_data_def)
      have "scan_section scn (a, n) = Inr (a\<lparr>a_linked_sections := v\<rparr>, symtab_index [scn] n)"
        using nm ld Some v st by (simp add: scan_section_def Let_def symtab_index_def)
      moreover have "elements v = map (take_header [scn]) ?lss"
      proof (rule nth_equalityI)
        show "length (elements v) = length (map (take_header [scn]) ?lss)"
          using vector_modify_InrD [OF v] by simp
        fix j assume "j < length (elements v)"
        then have j: "j < length ?lss" using vector_modify_InrD [OF v] by simp
        have "j \<noteq> i \<Longrightarrow> ls_name (?lss ! j) \<noteq> nm"
          using nth_eq_iff_index_eq [OF assms, of j i] i j by auto
        then show "elements v ! j = map (take_header [scn]) ?lss ! j"
          using vector_modify_InrD [OF v] i j nm ld
          by (cases "j = i") (auto simp: take_header_def named_data_def)
      qed
      ultimately show ?thesis by blast
    qed
  qed
qed

lemma scan_sections:
  assumes "distinct (map ls_name (elements (a_linked_sections a)))"
  shows "\<exists>v. res_fold scan_section scns (a, n) = Inr (a\<lparr>a_linked_sections := v\<rparr>, symtab_index scns n) \<and>
    elements v = map (take_header scns) (elements (a_linked_sections a))"
  using assms
proof (induction scns arbitrary: a n)
  case Nil
  show ?case by (intro exI [of _ "a_linked_sections a"]) (simp add: symtab_index_def take_header_def)
next
  case (Cons scn scns)
  obtain v where v: "scan_section scn (a, n) = Inr (a\<lparr>a_linked_sections := v\<rparr>, symtab_index [scn] n)"
    "elements v = map (take_header [scn]) (elements (a_linked_sections a))"
    using scan_section_step [OF Cons.prems] by blast
  have d: "distinct (map ls_name (elements (a_linked_sections (a\<lparr>a_linked_sections := v\<rparr>))))"
    using Cons.prems v(2) by (simp add: comp_def)
  obtain w where w: "res_fold scan_section scns (a\<lparr>a_linked_sections := v\<rparr>, symtab_index [scn] n) =
      Inr (a\<lparr>a_linked_sections := w\<rparr>, symtab_index scns (symtab_index [scn] n))"
    "elements w = map (take_header scns) (elements v)"
    using Cons.IH [OF d] by auto
  have "symtab_index scns (symtab_index [scn] n) = symtab_index (scn # scns) n"
    by (simp add: symtab_index_def Let_def)
  then show ?case
    using v w by (intro exI [of _ w]) (simp add: take_header_Cons [of scn scns])
qed

subsection \<open>All blocks in the tables\<close>

definition sizes :: "'e table vector \<Rightarrow> u64 list" where
  "sizes v = map t_size_bits (elements v)"

text \<open>
  The pairs that a BLOCK_TSB contributes to bucket \<open>j\<close> of table \<open>q\<close>, those of a block, and
  those of all applications, in the order in which the program adds them.
\<close>

definition tsb_pages :: "u64 list \<Rightarrow> nat \<Rightarrow> nat \<Rightarrow> block \<Rightarrow> block_tsb \<Rightarrow> (u64 \<times> u64) list" where
  "tsb_pages sz q j blk bt =
    (if bt_tsb bt = Some q then
       (case page_geometry blk bt (sz ! q) of
          Inl _ \<Rightarrow> []
        | Inr g \<Rightarrow> map (\<lambda>k. (page_tag g k, page_data g k)) (slot_pages g [0..<unat (g_num_pages g)] j))
     else [])"

definition block_pages :: "u64 list \<Rightarrow> nat \<Rightarrow> nat \<Rightarrow> block \<Rightarrow> (u64 \<times> u64) list" where
  "block_pages sz q j blk = concat (map (tsb_pages sz q j blk) (elements (b_tsbs blk)))"

definition app_pages :: "u64 list \<Rightarrow> nat \<Rightarrow> nat \<Rightarrow> app \<Rightarrow> (u64 \<times> u64) list" where
  "app_pages sz q j a = concat (map (block_pages sz q j) (elements (a_blocks a)))"

text \<open>No page of the block makes a pair that the table takes for an empty or a linked entry.\<close>

definition proper_pages :: "u64 list \<Rightarrow> block \<Rightarrow> block_tsb \<Rightarrow> bool" where
  "proper_pages sz blk bt \<longleftrightarrow>
    (case bt_tsb bt of
       None \<Rightarrow> True
     | Some q \<Rightarrow>
        (case page_geometry blk bt (sz ! q) of
           Inl _ \<Rightarrow> True
         | Inr g \<Rightarrow> \<forall>k < unat (g_num_pages g).
             page_tag g k \<noteq> TSB_LINK_TAG \<and> (page_tag g k \<noteq> 0 \<or> page_data g k \<noteq> 0)))"

lemma sizes_put:
  "vector_modify v (int p) (put_entry ix e) = Inr v' \<Longrightarrow> sizes v' = sizes v"
  using vector_modify_InrD [of v "int p" "put_entry ix e" v']
  by (auto simp: sizes_def map_update put_entry_def list_update_same_conv)

lemma add_entry_sizes:
  "add_entry va_of allow p ix tag data blk btsb hp = Inr hp' \<Longrightarrow> sizes (fst hp') = sizes (fst hp)"
  by (erule add_entry_cases) (auto dest: sizes_put)

lemma add_block_tsb_sizes:
  assumes "add_block_tsb_to_tsb va_of allow blk bt bref btref hp = Inr hp'"
  shows "sizes (fst hp') = sizes (fst hp)"
proof -
  obtain p g where "res_fold (\<lambda>k hp. res_bind (page_index g k) (\<lambda>index.
            add_entry va_of allow p index (page_tag g k) (page_data g k) (Some bref) (Some btref) hp))
          [0..<unat (g_num_pages g)] hp = Inr hp'"
    using assms by (auto simp: add_block_tsb_to_tsb_def gf_res split: option.splits)
  then show ?thesis by (rule res_fold_invariant) (auto simp: gf_res dest: add_entry_sizes)
qed

lemma add_apps_sizes:
  assumes "add_apps_to_tsbs allow apps hp = Inr hp'"
  shows "sizes (fst hp') = sizes (fst hp)"
  using assms unfolding add_apps_to_tsbs_def app_add_to_tsbs_def block_add_to_tsbs_def
  by (rule res_fold_invariant [where I = "\<lambda>h. sizes (fst h) = sizes (fst hp)"])
    (auto elim!: res_fold_invariant dest: add_block_tsb_sizes)

lemma add_block_tsb_pages:
  assumes "add_block_tsb_to_tsb va_of allow blk bt bref btref hp = Inr hp'" and "heap_wf hp"
    and "proper_pages (sizes (fst hp)) blk bt"
  shows "heap_wf hp' \<and> sizes (fst hp') = sizes (fst hp) \<and>
    (\<forall>q j. bucket hp' q j = bucket hp q j @ tsb_pages (sizes (fst hp)) q j blk bt)"
proof -
  obtain p t g where p: "bt_tsb bt = Some p" and t: "vector_elem (fst hp) (int p) = Inr t"
    and g: "page_geometry blk bt (get_tsb_size_bits t) = Inr g"
    and f: "res_fold (\<lambda>k hp. res_bind (page_index g k) (\<lambda>index.
            add_entry va_of allow p index (page_tag g k) (page_data g k) (Some bref) (Some btref) hp))
          [0..<unat (g_num_pages g)] hp = Inr hp'"
    using assms(1) by (auto simp: add_block_tsb_to_tsb_def gf_res split: option.splits)
  have sz: "sizes (fst hp) ! p = get_tsb_size_bits t"
    using t by (auto simp: sizes_def get_tsb_size_bits_def vector_elem_def VECTOR_LEN_def split: if_splits)
  have pages: "tsb_pages (sizes (fst hp)) q j blk bt =
      (if q = p then map (\<lambda>k. (page_tag g k, page_data g k)) (slot_pages g [0..<unat (g_num_pages g)] j) else [])"
    for q j using p g sz by (auto simp: tsb_pages_def)
  have "\<And>k. k \<in> set [0..<unat (g_num_pages g)] \<Longrightarrow>
      page_tag g k \<noteq> TSB_LINK_TAG \<and> (page_tag g k \<noteq> 0 \<or> page_data g k \<noteq> 0)"
    using assms(3) p g sz by (auto simp: proper_pages_def)
  note add = add_pages [OF f assms(2) this]
  have "sizes (fst hp') = sizes (fst hp)"
    by (rule res_fold_invariant [OF f]) (auto simp: gf_res dest: add_entry_sizes)
  with add show ?thesis by (simp add: pages)
qed

text \<open>The same for a list of operations, each of which appends its own pairs.\<close>

lemma fold_appends:
  assumes "res_fold f xs hp = Inr hp'" and "heap_wf hp" and "sizes (fst hp) = sz"
    and "\<And>x hp hp'. x \<in> set xs \<Longrightarrow> f x hp = Inr hp' \<Longrightarrow> heap_wf hp \<Longrightarrow> sizes (fst hp) = sz \<Longrightarrow>
      heap_wf hp' \<and> sizes (fst hp') = sz \<and> (\<forall>q j. bucket hp' q j = bucket hp q j @ c q j x)"
  shows "heap_wf hp' \<and> sizes (fst hp') = sz \<and>
    (\<forall>q j. bucket hp' q j = bucket hp q j @ concat (map (c q j) xs))"
  using res_fold_appends [where I = "\<lambda>hp. heap_wf hp \<and> sizes (fst hp) = sz" and B = bucket and c = c, OF assms(1)]
    assms(2-4) by simp

lemma in_set_enumerateD: "x \<in> set (enumerate n xs) \<Longrightarrow> snd x \<in> set xs"
  by (induction xs arbitrary: n) auto

lemma map_snd_enumerate: "map (\<lambda>(i, x). c x) (enumerate n xs) = map c xs"
  by (induction xs arbitrary: n) simp_all

lemma block_add_pages:
  assumes "block_add_to_tsbs va_of allow bref blk hp = Inr hp'" and "heap_wf hp"
    and "\<forall>bt \<in> set (elements (b_tsbs blk)). proper_pages (sizes (fst hp)) blk bt"
  shows "heap_wf hp' \<and> sizes (fst hp') = sizes (fst hp) \<and>
    (\<forall>q j. bucket hp' q j = bucket hp q j @ block_pages (sizes (fst hp)) q j blk)"
proof -
  have "heap_wf hp' \<and> sizes (fst hp') = sizes (fst hp) \<and>
    (\<forall>q j. bucket hp' q j = bucket hp q j @
      concat (map (\<lambda>(i, bt). tsb_pages (sizes (fst hp)) q j blk bt) (enumerate 0 (elements (b_tsbs blk)))))"
  proof (rule fold_appends [OF assms(1) [unfolded block_add_to_tsbs_def] assms(2) refl])
    fix x and h h' :: tsb_heap
    assume "x \<in> set (enumerate 0 (elements (b_tsbs blk)))"
      and a: "(\<lambda>(i, bt). add_block_tsb_to_tsb va_of allow blk bt bref (fst bref, snd bref, i)) x h = Inr h'"
      and w: "heap_wf h" "sizes (fst h) = sizes (fst hp)"
    then have "proper_pages (sizes (fst h)) blk (snd x)"
      using assms(3) by (auto dest: in_set_enumerateD)
    with a w add_block_tsb_pages [of va_of allow blk "snd x" bref "(fst bref, snd bref, fst x)" h h']
    show "heap_wf h' \<and> sizes (fst h') = sizes (fst hp) \<and>
      (\<forall>q j. bucket h' q j = bucket h q j @ (\<lambda>(i, bt). tsb_pages (sizes (fst hp)) q j blk bt) x)"
      by (simp add: case_prod_beta)
  qed
  then show ?thesis by (simp add: block_pages_def map_snd_enumerate)
qed

definition proper_app :: "u64 list \<Rightarrow> app \<Rightarrow> bool" where
  "proper_app sz a \<longleftrightarrow>
    (\<forall>blk \<in> set (elements (a_blocks a)). \<forall>bt \<in> set (elements (b_tsbs blk)). proper_pages sz blk bt)"

lemma app_add_pages:
  assumes "app_add_to_tsbs va_of allow n a hp = Inr hp'" and "heap_wf hp" and "proper_app (sizes (fst hp)) a"
  shows "heap_wf hp' \<and> sizes (fst hp') = sizes (fst hp) \<and>
    (\<forall>q j. bucket hp' q j = bucket hp q j @ app_pages (sizes (fst hp)) q j a)"
proof -
  have "heap_wf hp' \<and> sizes (fst hp') = sizes (fst hp) \<and>
    (\<forall>q j. bucket hp' q j = bucket hp q j @
      concat (map (\<lambda>(i, blk). block_pages (sizes (fst hp)) q j blk) (enumerate 0 (elements (a_blocks a)))))"
  proof (rule fold_appends [OF assms(1) [unfolded app_add_to_tsbs_def] assms(2) refl])
    fix x and h h' :: tsb_heap
    assume "x \<in> set (enumerate 0 (elements (a_blocks a)))"
      and a: "(\<lambda>(i, blk). block_add_to_tsbs va_of allow (n, i) blk) x h = Inr h'"
      and w: "heap_wf h" "sizes (fst h) = sizes (fst hp)"
    then have "\<forall>bt \<in> set (elements (b_tsbs (snd x))). proper_pages (sizes (fst h)) (snd x) bt"
      using assms(3) by (auto simp: proper_app_def dest: in_set_enumerateD)
    with a w block_add_pages [of va_of allow "(n, fst x)" "snd x" h h']
    show "heap_wf h' \<and> sizes (fst h') = sizes (fst hp) \<and>
      (\<forall>q j. bucket h' q j = bucket h q j @ (\<lambda>(i, blk). block_pages (sizes (fst hp)) q j blk) x)"
      by (simp add: case_prod_beta)
  qed
  then show ?thesis by (simp add: app_pages_def map_snd_enumerate)
qed

lemma apps_add_pages:
  assumes "add_apps_to_tsbs allow apps hp = Inr hp'" and "heap_wf hp"
    and "\<forall>a \<in> set (elements apps). proper_app (sizes (fst hp)) a"
  shows "heap_wf hp' \<and> sizes (fst hp') = sizes (fst hp) \<and>
    (\<forall>q j. bucket hp' q j = bucket hp q j @ concat (map (app_pages (sizes (fst hp)) q j) (elements apps)))"
proof -
  have "heap_wf hp' \<and> sizes (fst hp') = sizes (fst hp) \<and>
    (\<forall>q j. bucket hp' q j = bucket hp q j @
      concat (map (\<lambda>(i, a). app_pages (sizes (fst hp)) q j a) (enumerate 0 (elements apps))))"
  proof (rule fold_appends [OF assms(1) [unfolded add_apps_to_tsbs_def] assms(2) refl])
    fix x and h h' :: tsb_heap
    assume "x \<in> set (enumerate 0 (elements apps))"
      and a: "(\<lambda>(n, a). app_add_to_tsbs (tag2va_at apps) allow n a) x h = Inr h'"
      and w: "heap_wf h" "sizes (fst h) = sizes (fst hp)"
    then have "proper_app (sizes (fst h)) (snd x)"
      using assms(3) by (auto dest: in_set_enumerateD)
    with a w app_add_pages [of "tag2va_at apps" allow "fst x" "snd x" h h']
    show "heap_wf h' \<and> sizes (fst h') = sizes (fst hp) \<and>
      (\<forall>q j. bucket h' q j = bucket h q j @ (\<lambda>(i, a). app_pages (sizes (fst hp)) q j a) x)"
      by (simp add: case_prod_beta)
  qed
  then show ?thesis by (simp add: map_snd_enumerate)
qed

end
