(* ===== verification/Gf_Parser.thy ===== *)
theory Gf_Parser
  imports Gf_App_Refine
begin

text \<open>
  The data of a run, and the semantic actions of the grammar \<^verbatim>\<open>parser.y\<close> on it. The parser
  that yacc generates from the grammar calls one action after the other; which ones it
  calls for an input is an argument of the model. A number of the input has 64 bits and is
  converted where the action passes an \<^verbatim>\<open>int\<close>.
\<close>

record gf_state =
  g_apps :: app_state
  g_Physmap :: physmap
  g_tsbs :: "tsb_entry tsb_state"
  g_tsb_links :: "tsb_link_entry link_state"
  g_tsbcsms :: "tsbcsm_entry tsb_state"
  g_tsbcsm_links :: "tsbcsm_link_entry link_state"
  g_Pa_size :: int

definition init_image_file_data_structures :: "gf_state \<Rightarrow> gf_state" where
  "init_image_file_data_structures g =
    g\<lparr>g_apps := clear_app_vector (g_apps g), g_Physmap := init_physmap,
      g_tsbs := clear_tsb_vector (g_tsbs g), g_tsb_links := clear_tsb_link_vector (g_tsb_links g),
      g_tsbcsms := clear_tsbcsm_vector (g_tsbcsms g),
      g_tsbcsm_links := clear_tsbcsm_link_vector (g_tsbcsm_links g)\<rparr>"

subsection \<open>The actions\<close>

definition to_int :: "u64 \<Rightarrow> int" where
  "to_int x = sint (ucast x :: 32 word)"

definition flag :: "u64 \<Rightarrow> int" where
  "flag x = (if x \<noteq> 0 then 1 else 0)"

text \<open>The lines of a BLOCK_TSB, of a BLOCK, and what may happen in an APP.\<close>

datatype block_tsb_line =
    Tag_base u64
  | Data_base u64
  | Page_size u64
  | Va_index_bits u64 u64
  | Tag_addr_bits u64 u64
  | Tte_tag_addr_bits u64 u64
  | Data_addr_bits u64 u64
  | Bt_srcfile string
  | Bt_srcline u64

datatype block_line =
    Section_name string
  | Segment_name string
  | Link_section string
  | Block_srcfile string
  | Block_srcline u64
  | Block_compress u64
  | In_image u64
  | Va u64
  | Ra u64
  | Pa u64
  | Ra_eq_va u64
  | Pa_eq_va u64
  | Start_label string
  | End_va u64
  | End_label string
  | No_end_range_check u64

datatype app_action =
    Open_app string int
  | Close_app
  | Elf_file string
  | App_srcfile string
  | App_srcline u64
  | Open_block string int
  | Close_block
  | Block_line block_line
  | Open_block_tsb string int
  | Close_block_tsb
  | Block_tsb_line block_tsb_line
  | Open_block_tsbcsm string int
  | Close_block_tsbcsm
  | Clump_num u64

text \<open>What may happen in a TSB or a TSB_CSM, and in one of the two kinds of link areas.\<close>

datatype table_action =
    Open_table string int
  | Close_table
  | Num_entries u64
  | Start_addr u64
  | Size_bits u64
  | Split u64
  | Link_area string
  | Table_srcfile string
  | Table_srcline u64

datatype link_action =
    Open_link string int
  | Close_link
  | Link_start_addr u64
  | Link_srcfile string
  | Link_srcline u64

datatype action =
    Set_pa_size u64
  | App_action app_action
  | Tsb_action table_action
  | Tsbcsm_action table_action
  | Tsb_link_action link_action
  | Tsbcsm_link_action link_action

primrec run_block_tsb_line :: "block_tsb_line \<Rightarrow> app_state \<Rightarrow> app_state res" where
  "run_block_tsb_line (Tag_base x) = set_block_tsb_tag_base x"
| "run_block_tsb_line (Data_base x) = set_block_tsb_data_base x"
| "run_block_tsb_line (Page_size x) = set_block_tsb_page_size x"
| "run_block_tsb_line (Va_index_bits x y) = set_block_tsb_va_index_bits (to_int x) (to_int y)"
| "run_block_tsb_line (Tag_addr_bits x y) = set_block_tsb_tag_addr_bits (to_int x) (to_int y)"
| "run_block_tsb_line (Tte_tag_addr_bits x y) = set_block_tsb_tte_tag_addr_bits (to_int x) (to_int y)"
| "run_block_tsb_line (Data_addr_bits x y) = set_block_tsb_data_addr_bits (to_int x) (to_int y)"
| "run_block_tsb_line (Bt_srcfile x) = set_block_tsb_srcfile x"
| "run_block_tsb_line (Bt_srcline x) = set_block_tsb_srcline (to_int x)"

primrec run_block_line :: "block_line \<Rightarrow> app_state \<Rightarrow> app_state res" where
  "run_block_line (Section_name x) = set_block_section_name x"
| "run_block_line (Segment_name x) = set_block_segment_name x"
| "run_block_line (Link_section x) = set_block_link_section x"
| "run_block_line (Block_srcfile x) = set_block_srcfile x"
| "run_block_line (Block_srcline x) = set_block_srcline (to_int x)"
| "run_block_line (Block_compress x) = set_block_compress (to_int x)"
| "run_block_line (In_image x) = set_block_in_image (to_int x)"
| "run_block_line (Va x) = set_block_va x"
| "run_block_line (Ra x) = set_block_ra x"
| "run_block_line (Pa x) = set_block_pa x"
| "run_block_line (Ra_eq_va x) = set_block_ra_eq_va (flag x)"
| "run_block_line (Pa_eq_va x) = set_block_pa_eq_va (flag x)"
| "run_block_line (Start_label x) = set_block_start_label x"
| "run_block_line (End_va x) = set_block_end_va x"
| "run_block_line (End_label x) = set_block_end_label x"
| "run_block_line (No_end_range_check x) = set_block_no_end_range_check (flag x)"

primrec run_app_action :: "app_action \<Rightarrow> app_state \<Rightarrow> app_state res" where
  "run_app_action (Open_app x y) = open_new_app x y"
| "run_app_action Close_app = close_app"
| "run_app_action (Elf_file x) = set_app_elf_file x"
| "run_app_action (App_srcfile x) = set_app_srcfile x"
| "run_app_action (App_srcline x) = set_app_srcline (to_int x)"
| "run_app_action (Open_block x y) = open_new_block x y"
| "run_app_action Close_block = close_block"
| "run_app_action (Block_line l) = run_block_line l"
| "run_app_action (Open_block_tsb x y) = open_new_block_tsb x y"
| "run_app_action Close_block_tsb = close_block_tsb"
| "run_app_action (Block_tsb_line l) = run_block_tsb_line l"
| "run_app_action (Open_block_tsbcsm x y) = open_new_block_tsbcsm x y"
| "run_app_action Close_block_tsbcsm = close_block_tsbcsm"
| "run_app_action (Clump_num x) = set_block_tsbcsm_clump_num x"

primrec run_tsb_action :: "table_action \<Rightarrow> tsb_entry tsb_state \<Rightarrow> tsb_entry tsb_state res" where
  "run_tsb_action (Open_table x y) = open_new_tsb x y"
| "run_tsb_action Close_table = close_tsb"
| "run_tsb_action (Num_entries x) = set_tsb_num_entries x"
| "run_tsb_action (Start_addr x) = set_tsb_start_addr x"
| "run_tsb_action (Size_bits x) = set_tsb_size_bits x"
| "run_tsb_action (Split x) = set_tsb_split x"
| "run_tsb_action (Link_area x) = set_tsb_link_area x"
| "run_tsb_action (Table_srcfile x) = set_tsb_srcfile x"
| "run_tsb_action (Table_srcline x) = set_tsb_srcline (to_int x)"

primrec run_tsbcsm_action :: "table_action \<Rightarrow> tsbcsm_entry tsb_state \<Rightarrow> tsbcsm_entry tsb_state res" where
  "run_tsbcsm_action (Open_table x y) = open_new_tsbcsm x y"
| "run_tsbcsm_action Close_table = close_tsbcsm"
| "run_tsbcsm_action (Num_entries x) = set_tsb_num_entries x"
| "run_tsbcsm_action (Start_addr x) = set_tsb_start_addr x"
| "run_tsbcsm_action (Size_bits x) = set_tsb_size_bits x"
| "run_tsbcsm_action (Split x) = set_tsb_split x"
| "run_tsbcsm_action (Link_area x) = set_tsb_link_area x"
| "run_tsbcsm_action (Table_srcfile x) = set_tsb_srcfile x"
| "run_tsbcsm_action (Table_srcline x) = set_tsb_srcline (to_int x)"

primrec run_tsb_link_action :: "link_action \<Rightarrow> tsb_link_entry link_state \<Rightarrow> tsb_link_entry link_state res" where
  "run_tsb_link_action (Open_link x y) = open_new_tsb_link x y"
| "run_tsb_link_action Close_link = close_tsb_link"
| "run_tsb_link_action (Link_start_addr x) = set_tsb_link_start_addr x"
| "run_tsb_link_action (Link_srcfile x) = set_tsb_link_srcfile x"
| "run_tsb_link_action (Link_srcline x) = set_tsb_link_srcline (to_int x)"

primrec run_tsbcsm_link_action :: "link_action \<Rightarrow> tsbcsm_link_entry link_state \<Rightarrow> tsbcsm_link_entry link_state res" where
  "run_tsbcsm_link_action (Open_link x y) = open_new_tsbcsm_link x y"
| "run_tsbcsm_link_action Close_link = close_tsbcsm_link"
| "run_tsbcsm_link_action (Link_start_addr x) = set_tsbcsm_link_start_addr x"
| "run_tsbcsm_link_action (Link_srcfile x) = set_tsbcsm_link_srcfile x"
| "run_tsbcsm_link_action (Link_srcline x) = set_tsbcsm_link_srcline (to_int x)"

text \<open>An action changes one component of the state.\<close>

definition on_apps :: "(app_state \<Rightarrow> app_state res) \<Rightarrow> gf_state \<Rightarrow> gf_state res" where
  "on_apps f g = res_bind (f (g_apps g)) (\<lambda>s. Inr (g\<lparr>g_apps := s\<rparr>))"

definition on_tsbs :: "(tsb_entry tsb_state \<Rightarrow> tsb_entry tsb_state res) \<Rightarrow> gf_state \<Rightarrow> gf_state res" where
  "on_tsbs f g = res_bind (f (g_tsbs g)) (\<lambda>s. Inr (g\<lparr>g_tsbs := s\<rparr>))"

definition on_tsb_links :: "(tsb_link_entry link_state \<Rightarrow> tsb_link_entry link_state res) \<Rightarrow> gf_state \<Rightarrow> gf_state res" where
  "on_tsb_links f g = res_bind (f (g_tsb_links g)) (\<lambda>s. Inr (g\<lparr>g_tsb_links := s\<rparr>))"

definition on_tsbcsms :: "(tsbcsm_entry tsb_state \<Rightarrow> tsbcsm_entry tsb_state res) \<Rightarrow> gf_state \<Rightarrow> gf_state res" where
  "on_tsbcsms f g = res_bind (f (g_tsbcsms g)) (\<lambda>s. Inr (g\<lparr>g_tsbcsms := s\<rparr>))"

definition on_tsbcsm_links :: "(tsbcsm_link_entry link_state \<Rightarrow> tsbcsm_link_entry link_state res) \<Rightarrow> gf_state \<Rightarrow> gf_state res" where
  "on_tsbcsm_links f g = res_bind (f (g_tsbcsm_links g)) (\<lambda>s. Inr (g\<lparr>g_tsbcsm_links := s\<rparr>))"

primrec run_action :: "action \<Rightarrow> gf_state \<Rightarrow> gf_state res" where
  "run_action (Set_pa_size x) = (\<lambda>g. res_bind (set_pa_size (to_int x)) (\<lambda>n. Inr (g\<lparr>g_Pa_size := n\<rparr>)))"
| "run_action (App_action a) = on_apps (run_app_action a)"
| "run_action (Tsb_action a) = on_tsbs (run_tsb_action a)"
| "run_action (Tsbcsm_action a) = on_tsbcsms (run_tsbcsm_action a)"
| "run_action (Tsb_link_action a) = on_tsb_links (run_tsb_link_action a)"
| "run_action (Tsbcsm_link_action a) = on_tsbcsm_links (run_tsbcsm_link_action a)"

definition run_actions :: "action list \<Rightarrow> gf_state \<Rightarrow> gf_state res" where
  "run_actions = res_fold run_action"

end
