(* ===== verification/Gf_Parser_Inv.thy ===== *)
theory Gf_Parser_Inv
  imports Gf_Parser
begin

text \<open>
  Invariants of the description that the parser builds, whatever actions it calls: names
  are unique, a block with a pointer points to the linked section of its name, and tables and
  link areas are still empty. When the actions follow the grammar, every closed block has one.
\<close>

subsection \<open>Applications\<close>

definition app_inv :: "app \<Rightarrow> bool" where
  "app_inv a \<longleftrightarrow>
    app_wf a \<and> init_elem (a_blocks a) = init_block \<and>
    (\<forall>n. a_open_block_index a = int n \<longrightarrow> n < length (elements (a_blocks a)) \<longrightarrow>
      b_linked_section_obj (elements (a_blocks a) ! n) = None)"

definition apps_inv :: "app_state \<Rightarrow> bool" where
  "apps_inv st \<longleftrightarrow>
    distinct (map a_name (elements (App_vector st))) \<and> init_elem (App_vector st) = init_app \<and>
    (\<forall>a \<in> set (elements (App_vector st)). app_inv a)"

definition keeps_app :: "(app \<Rightarrow> app res) \<Rightarrow> bool" where
  "keeps_app f \<longleftrightarrow> (\<forall>a a'. f a = Inr a' \<longrightarrow> app_inv a \<longrightarrow> app_inv a' \<and> a_name a' = a_name a)"

definition keeps_block :: "(block \<Rightarrow> block res) \<Rightarrow> bool" where
  "keeps_block f \<longleftrightarrow> (\<forall>b b'. f b = Inr b' \<longrightarrow> b_linked_section_obj b' = b_linked_section_obj b)"

lemma app_inv_init: "app_inv init_app"
  by (simp add: app_inv_def app_wf_def init_app_def NO_OPEN_BLOCK_def)

lemma vector_update_InrD:
  assumes "vector_update v i f = Inr v'"
  shows "0 \<le> i \<and> nat i < length (elements v) \<and> init_elem v' = init_elem v \<and>
    (\<exists>x'. f (elements v ! nat i) = Inr x' \<and> elements v' = (elements v)[nat i := x'])"
proof -
  obtain x x' where "vector_elem v i = Inr x" "f x = Inr x'" "vector_modify v i (\<lambda>_. x') = Inr v'"
    using assms by (auto simp: vector_update_def gf_res)
  then show ?thesis using vector_modify_InrD [of v i "\<lambda>_. x'" v']
    by (auto simp: vector_elem_def split: if_splits)
qed

lemma modify_open_app_inv:
  assumes "modify_open_app f st = Inr st'" and "keeps_app f" and "apps_inv st"
  shows "apps_inv st'"
proof -
  obtain v where u: "vector_update (App_vector st) (Open_app_index st) f = Inr v"
    and st': "st' = st\<lparr>App_vector := v\<rparr>"
    using assms(1) by (auto simp: modify_open_app_def gf_res)
  let ?n = "nat (Open_app_index st)"
  obtain a' where n: "?n < length (elements (App_vector st))" and ini: "init_elem v = init_elem (App_vector st)"
    and a': "f (elements (App_vector st) ! ?n) = Inr a'" and el: "elements v = (elements (App_vector st))[?n := a']"
    using vector_update_InrD [OF u] by auto
  have k: "app_inv a'" "a_name a' = a_name (elements (App_vector st) ! ?n)"
    using assms(2,3) a' n by (auto simp: keeps_app_def apps_inv_def)
  have "map a_name (elements v) = map a_name (elements (App_vector st))"
    using k(2) n by (simp add: el map_update list_update_same_conv)
  moreover have "set (elements v) \<subseteq> insert a' (set (elements (App_vector st)))"
    by (simp add: el set_update_subset_insert)
  ultimately show ?thesis using assms(3) k(1) ini st' by (auto simp: apps_inv_def)
qed

lemma keeps_app_simple:
  assumes "\<And>a a'. f a = Inr a' \<Longrightarrow> a_blocks a' = a_blocks a \<and> a_linked_sections a' = a_linked_sections a \<and>
    a_open_block_index a' = a_open_block_index a \<and> a_name a' = a_name a"
  shows "keeps_app f"
  using assms by (auto simp: keeps_app_def app_inv_def app_wf_def)

lemma keeps_app_block:
  assumes "keeps_block f"
  shows "keeps_app (\<lambda>a. res_bind (vector_update (a_blocks a) (a_open_block_index a) f)
    (\<lambda>v. Inr (a\<lparr>a_blocks := v\<rparr>)))"
  unfolding keeps_app_def
proof (intro allI impI)
  fix a a'
  assume "res_bind (vector_update (a_blocks a) (a_open_block_index a) f) (\<lambda>v. Inr (a\<lparr>a_blocks := v\<rparr>)) = Inr a'"
    and inv: "app_inv a"
  then obtain v where u: "vector_update (a_blocks a) (a_open_block_index a) f = Inr v"
    and a': "a' = a\<lparr>a_blocks := v\<rparr>" by (auto simp: gf_res)
  let ?n = "nat (a_open_block_index a)"
  obtain b' where n: "0 \<le> a_open_block_index a" "?n < length (elements (a_blocks a))"
    and ini: "init_elem v = init_elem (a_blocks a)"
    and b': "f (elements (a_blocks a) ! ?n) = Inr b'" and el: "elements v = (elements (a_blocks a))[?n := b']"
    using vector_update_InrD [OF u] by auto
  have "b_linked_section_obj (elements (a_blocks a) ! ?n) = None"
    using inv n by (auto simp: app_inv_def)
  then have none: "b_linked_section_obj b' = None" using assms b' by (auto simp: keeps_block_def)
  have "set (elements v) \<subseteq> insert b' (set (elements (a_blocks a)))"
    by (simp add: el set_update_subset_insert)
  then show "app_inv a' \<and> a_name a' = a_name a"
    using inv none ini n by (auto simp: a' app_inv_def app_wf_def section_ptr_ok_def el)
qed

lemma modify_open_block_inv:
  "modify_open_block f st = Inr st' \<Longrightarrow> keeps_block f \<Longrightarrow> apps_inv st \<Longrightarrow> apps_inv st'"
  unfolding modify_open_block_def by (rule modify_open_app_inv [OF _ keeps_app_block])

lemma open_new_app_inv:
  assumes "open_new_app nm lineno st = Inr st'" and "apps_inv st"
  shows "apps_inv st'"
proof -
  have m: "vector_modify (fst (add_vector_elements (App_vector st) 1))
      (int (snd (add_vector_elements (App_vector st) 1))) (label_app nm lineno) = Inr (App_vector st')"
    using assms(1) by (auto simp: open_new_app_def gf_res Let_def split: prod.splits if_splits)
  have "app_inv (label_app nm lineno init_app)"
    using app_inv_init by (simp add: app_inv_def app_wf_def label_app_def)
  then show ?thesis
    using app_reg.open_extends [OF m] open_new_app_InrD [OF assms(1)] assms(2)
    by (simp add: apps_inv_def)
qed

lemma keeps_open_new_block:
  "keeps_app (\<lambda>a. let (v, new_index) = add_vector_elements (a_blocks a) 1
     in res_bind (vector_modify v (int new_index) (\<lambda>b. b\<lparr>b_name := nm, b_lineno := lineno\<rparr>)) (\<lambda>v'.
        Inr (a\<lparr>a_blocks := v', a_open_block_index := int new_index\<rparr>)))"
  unfolding keeps_app_def
proof (intro allI impI)
  fix a a'
  assume "(let (v, new_index) = add_vector_elements (a_blocks a) 1
     in res_bind (vector_modify v (int new_index) (\<lambda>b. b\<lparr>b_name := nm, b_lineno := lineno\<rparr>)) (\<lambda>v'.
        Inr (a\<lparr>a_blocks := v', a_open_block_index := int new_index\<rparr>))) = Inr a'"
    and inv: "app_inv a"
  then obtain v' where m: "vector_modify (fst (add_vector_elements (a_blocks a) 1))
      (int (snd (add_vector_elements (a_blocks a) 1))) (\<lambda>b. b\<lparr>b_name := nm, b_lineno := lineno\<rparr>) = Inr v'"
    and a': "a' = a\<lparr>a_blocks := v', a_open_block_index := int (snd (add_vector_elements (a_blocks a) 1))\<rparr>"
    by (auto simp: gf_res split: prod.splits)
  have new: "elements v' = elements (a_blocks a) @ [init_block\<lparr>b_name := nm, b_lineno := lineno\<rparr>]"
    "init_elem v' = init_block" "snd (add_vector_elements (a_blocks a) 1) = length (elements (a_blocks a))"
    using vec.add_then_modify [of "a_blocks a" "\<lambda>b. b\<lparr>b_name := nm, b_lineno := lineno\<rparr>"] m inv
      elements_add_vector_elements(3) [of "a_blocks a" 1]
    by (auto simp: app_inv_def)
  show "app_inv a' \<and> a_name a' = a_name a"
    using inv new by (auto simp: a' app_inv_def app_wf_def section_ptr_ok_def init_block_def)
qed

lemma keeps_close_block: "keeps_app close_block_of_app"
  unfolding keeps_app_def
proof (intro allI impI)
  fix a a' assume c: "close_block_of_app a = Inr a'" and inv: "app_inv a"
  then have wf: "app_wf a'" "a_open_block_index a' = NO_OPEN_BLOCK"
    using close_block_wf [OF c] by (auto simp: app_inv_def)
  obtain blk a1 i v where f: "find_or_add_section blk a = Inr (a1, i)"
    and v: "vector_modify (a_blocks a1) (a_open_block_index a)
      (\<lambda>b. b\<lparr>b_linked_section_obj := Some i\<rparr>) = Inr v"
    and a': "a' = a1\<lparr>a_blocks := v, a_open_block_index := NO_OPEN_BLOCK\<rparr>"
    using c by (auto simp: close_block_of_app_def gf_res)
  have "a_name a1 = a_name a"
    using f by (auto simp: find_or_add_section_def gf_res split: option.splits prod.splits)
  moreover have "init_elem v = init_block"
    using vector_modify_InrD [OF v] find_or_add_section_InrD [OF f] inv by (simp add: app_inv_def)
  ultimately show "app_inv a' \<and> a_name a' = a_name a"
    using wf by (simp add: app_inv_def a' NO_OPEN_BLOCK_def)
qed

text \<open>The block operations keep the pointer to the linked section.\<close>

lemma keeps_block_pure:
  "(\<And>b. b_linked_section_obj (f b) = b_linked_section_obj b) \<Longrightarrow> keeps_block (\<lambda>b. Inr (f b))"
  by (simp add: keeps_block_def)

lemma keeps_block_tsb: "keeps_block (modify_open_block_tsb f)"
  by (auto simp: keeps_block_def modify_open_block_tsb_def gf_res)

lemma keeps_block_tsbcsm: "keeps_block (modify_open_block_tsbcsm f)"
  by (auto simp: keeps_block_def modify_open_block_tsbcsm_def gf_res)

lemmas block_line_defs =
  set_block_section_name_def set_block_segment_name_def set_block_link_section_def
  set_block_srcfile_def set_block_srcline_def set_block_compress_def set_block_in_image_def
  set_block_no_end_range_check_def set_block_va_def set_block_ra_def set_block_pa_def
  set_block_start_label_def set_block_end_label_def set_block_end_va_def set_block_ra_eq_va_def
  set_block_pa_eq_va_def

lemmas blk_set_defs =
  blk_set_section_name_def blk_set_segment_name_def blk_set_link_section_def
  blk_set_srcfile_def blk_set_srcline_def blk_set_compress_def blk_set_in_image_def
  blk_set_no_end_range_check_def blk_set_va_def blk_set_ra_def blk_set_pa_def
  blk_set_start_label_def blk_set_end_label_def blk_set_end_va_def blk_set_ra_eq_va_def
  blk_set_pa_eq_va_def

lemmas block_tsb_line_defs =
  set_block_tsb_tag_base_def set_block_tsb_data_base_def set_block_tsb_page_size_def
  set_block_tsb_srcfile_def set_block_tsb_srcline_def set_block_tsb_va_index_bits_def
  set_block_tsb_tag_addr_bits_def set_block_tsb_tte_tag_addr_bits_def
  set_block_tsb_data_addr_bits_def

lemmas blk_set_blk_tsb_defs =
  blk_set_blk_tsb_tag_base_def blk_set_blk_tsb_data_base_def blk_set_blk_tsb_page_size_def
  blk_set_blk_tsb_srcfile_def blk_set_blk_tsb_srcline_def blk_set_blk_tsb_va_index_bits_def
  blk_set_blk_tsb_tag_addr_bits_def blk_set_blk_tsb_tte_tag_addr_bits_def
  blk_set_blk_tsb_data_addr_bits_def

lemma run_block_line_inv:
  "run_block_line l st = Inr st' \<Longrightarrow> apps_inv st \<Longrightarrow> apps_inv st'"
  by (cases l; simp add: block_line_defs;
      erule (1) modify_open_block_inv [rotated 2]; rule keeps_block_pure; simp add: blk_set_defs)

lemma run_block_tsb_line_inv:
  "run_block_tsb_line l st = Inr st' \<Longrightarrow> apps_inv st \<Longrightarrow> apps_inv st'"
  by (cases l; simp add: block_tsb_line_defs blk_set_blk_tsb_defs;
      erule (1) modify_open_block_inv [rotated 2]; rule keeps_block_tsb)

lemma close_block_tsb_keeps:
  "keeps_app (\<lambda>a. if a_open_block_index a = NO_OPEN_BLOCK then Inl e
      else res_bind (vector_update (a_blocks a) (a_open_block_index a) f)
           (\<lambda>v. Inr (a\<lparr>a_blocks := v\<rparr>)))" if "keeps_block f"
  using keeps_app_block [OF that] by (auto simp: keeps_app_def split: if_splits)

lemma run_app_action_inv:
  assumes "run_app_action a st = Inr st'" and "apps_inv st"
  shows "apps_inv st'"
proof (cases a)
  case (Open_app x y)
  with assms show ?thesis by (auto intro: open_new_app_inv)
next
  case Close_app
  with assms show ?thesis by (auto simp: close_app_def apps_inv_def gf_res split: if_splits)
next
  case (Elf_file x)
  with assms show ?thesis
    by (auto simp: set_app_elf_file_def intro!: modify_open_app_inv [of _ st st'] keeps_app_simple)
next
  case (App_srcfile x)
  with assms show ?thesis
    by (auto simp: set_app_srcfile_def intro!: modify_open_app_inv [of _ st st'] keeps_app_simple)
next
  case (App_srcline x)
  with assms show ?thesis
    by (auto simp: set_app_srcline_def intro!: modify_open_app_inv [of _ st st'] keeps_app_simple)
next
  case (Open_block x y)
  from modify_open_app_inv [OF _ keeps_open_new_block] assms Open_block show ?thesis
    by (simp add: open_new_block_def)
next
  case Close_block
  with assms show ?thesis
    by (simp add: close_block_def) (erule modify_open_app_inv [OF _ keeps_close_block])
next
  case (Block_line l)
  with assms show ?thesis by (auto intro: run_block_line_inv)
next
  case (Open_block_tsb x y)
  have "keeps_block (\<lambda>blk. let (v, new_index) = add_vector_elements (b_tsbs blk) 1
      in res_bind (vector_modify v (int new_index) (\<lambda>bt. bt\<lparr>bt_name := x, bt_lineno := y\<rparr>)) (\<lambda>v'.
         Inr (blk\<lparr>b_tsbs := v', b_open_block_tsb_index := int new_index\<rparr>)))"
    by (auto simp: keeps_block_def gf_res split: prod.splits)
  from modify_open_block_inv [OF _ this] assms Open_block_tsb show ?thesis
    by (simp add: open_new_block_tsb_def)
next
  case Close_block_tsb
  have "keeps_block (\<lambda>blk. if b_open_block_tsb_index blk = NO_OPEN_BLOCK_TSB then Inl (Exit M_GOLDFINGERPARSE)
       else res_bind (vector_elem (b_tsbs blk) (b_open_block_tsb_index blk)) (\<lambda>_.
              Inr (blk\<lparr>b_open_block_tsb_index := NO_OPEN_BLOCK_TSB\<rparr>)))"
    by (auto simp: keeps_block_def gf_res split: if_splits)
  from modify_open_app_inv [OF _ close_block_tsb_keeps [OF this]] assms Close_block_tsb show ?thesis
    by (simp add: close_block_tsb_def)
next
  case (Block_tsb_line l)
  with assms show ?thesis by (auto intro: run_block_tsb_line_inv)
next
  case (Open_block_tsbcsm x y)
  have "keeps_block (\<lambda>blk. let (v, new_index) = add_vector_elements (b_tsbcsms blk) 1
      in res_bind (vector_modify v (int new_index) (\<lambda>bc. bc\<lparr>bc_name := x, bc_lineno := y\<rparr>)) (\<lambda>v'.
         Inr (blk\<lparr>b_tsbcsms := v', b_open_block_tsbcsm_index := int new_index\<rparr>)))"
    by (auto simp: keeps_block_def gf_res split: prod.splits)
  from modify_open_block_inv [OF _ this] assms Open_block_tsbcsm show ?thesis
    by (simp add: open_new_block_tsbcsm_def)
next
  case Close_block_tsbcsm
  have "keeps_block (\<lambda>blk. if b_open_block_tsbcsm_index blk = NO_OPEN_BLOCK_TSB then Inl (Exit M_GOLDFINGERPARSE)
       else res_bind (vector_elem (b_tsbcsms blk) (b_open_block_tsbcsm_index blk)) (\<lambda>_.
              Inr (blk\<lparr>b_open_block_tsbcsm_index := NO_OPEN_BLOCK_TSB\<rparr>)))"
    by (auto simp: keeps_block_def gf_res split: if_splits)
  from modify_open_app_inv [OF _ close_block_tsb_keeps [OF this]] assms Close_block_tsbcsm show ?thesis
    by (simp add: close_block_tsbcsm_def)
next
  case (Clump_num x)
  have "keeps_block (blk_set_blk_tsbcsm_clump_num x)"
    unfolding blk_set_blk_tsbcsm_clump_num_def by (rule keeps_block_tsbcsm)
  from modify_open_block_inv [OF _ this] assms Clump_num show ?thesis
    by (simp add: set_block_tsbcsm_clump_num_def)
qed

subsection \<open>Tables and link areas\<close>

text \<open>Before the initialisation is finished, tables have no entries and link areas no nodes.\<close>

definition tables_inv :: "'e tsb_state \<Rightarrow> bool" where
  "tables_inv st \<longleftrightarrow>
    distinct (map t_name (elements (Tsb_vector st))) \<and>
    (\<forall>t \<in> insert (init_elem (Tsb_vector st)) (set (elements (Tsb_vector st))).
      t_entries t = [] \<and> t_link_ptr t = None)"

definition links_inv :: "'e link_state \<Rightarrow> bool" where
  "links_inv st \<longleftrightarrow>
    distinct (map tl_name (elements (Link_vector st))) \<and>
    (\<forall>l \<in> insert (init_elem (Link_vector st)) (set (elements (Link_vector st))).
      elements (tl_entries l) = [])"

lemma vector_modify_set:
  assumes "vector_modify v i f = Inr v'"
  shows "set (elements v') \<subseteq> insert (f (elements v ! nat i)) (set (elements v))"
    and "elements v ! nat i \<in> set (elements v)" and "init_elem v' = init_elem v"
  using vector_modify_InrD [OF assms] set_update_subset_insert by (auto, fastforce)

lemma set_tsb_inv:
  assumes "set_tsb f st = Inr st'" and "tables_inv st"
    and "\<And>t. t_name (f t) = t_name t \<and> t_entries (f t) = t_entries t \<and> t_link_ptr (f t) = t_link_ptr t"
  shows "tables_inv st'"
proof -
  obtain v where v: "vector_modify (Tsb_vector st) (Open_tsb_index st) f = Inr v"
    and st': "st' = st\<lparr>Tsb_vector := v\<rparr>"
    using assms(1) by (auto simp: set_tsb_def gf_res)
  have "map t_name (elements v) = map t_name (elements (Tsb_vector st))"
    using vector_modify_InrD [OF v] assms(3) by (simp add: map_update list_update_same_conv)
  then show ?thesis
    using vector_modify_set [OF v] assms(2,3) st' by (auto simp: tables_inv_def)
qed

lemma set_link_inv:
  assumes "vector_modify (Link_vector st) i f = Inr v" and "links_inv st"
    and "\<And>l. tl_name (f l) = tl_name l \<and> tl_entries (f l) = tl_entries l"
  shows "links_inv (st\<lparr>Link_vector := v\<rparr>)"
proof -
  have "map tl_name (elements v) = map tl_name (elements (Link_vector st))"
    using vector_modify_InrD [OF assms(1)] assms(3) by (simp add: map_update list_update_same_conv)
  then show ?thesis
    using vector_modify_set [OF assms(1)] assms(2,3) by (auto simp: links_inv_def)
qed

lemma run_tsb_action_inv:
  assumes "run_tsb_action a st = Inr st'" and "tables_inv st"
  shows "tables_inv st'"
proof (cases a)
  case (Open_table nm ln)
  have o: "open_new_tsb nm ln st = Inr st'" using assms(1) Open_table by simp
  have m: "vector_modify (fst (add_vector_elements (Tsb_vector st) 1))
      (int (snd (add_vector_elements (Tsb_vector st) 1))) (label_tsb nm ln) = Inr (Tsb_vector st')"
    using o by (auto simp: open_new_tsb_def gf_res Let_def split: prod.splits if_splits)
  show ?thesis
    using table_reg.open_extends [OF m] open_new_tsb_InrD [OF o] assms(2)
    by (auto simp: tables_inv_def label_tsb_def)
next
  case Close_table
  with assms show ?thesis by (auto simp: close_tsb_def tables_inv_def gf_res split: if_splits)
qed (use assms in \<open>auto simp: set_tsb_num_entries_def set_tsb_start_addr_def set_tsb_size_bits_def
  set_tsb_split_def set_tsb_link_area_def set_tsb_srcfile_def set_tsb_srcline_def
  intro!: set_tsb_inv [of _ st st']\<close>)

lemma run_tsbcsm_action_inv:
  assumes "run_tsbcsm_action a st = Inr st'" and "tables_inv st"
  shows "tables_inv st'"
proof (cases a)
  case (Open_table nm ln)
  have o: "open_new_tsbcsm nm ln st = Inr st'" using assms(1) Open_table by simp
  have m: "vector_modify (fst (add_vector_elements (Tsb_vector st) 1))
      (int (snd (add_vector_elements (Tsb_vector st) 1))) (label_tsb nm ln) = Inr (Tsb_vector st')"
    using o by (auto simp: open_new_tsbcsm_def gf_res Let_def split: prod.splits if_splits)
  show ?thesis
    using table_reg.open_extends [OF m] open_new_tsbcsm_InrD [OF o] assms(2)
    by (auto simp: tables_inv_def label_tsb_def)
next
  case Close_table
  with assms show ?thesis by (auto simp: close_tsbcsm_def tables_inv_def gf_res split: if_splits)
qed (use assms in \<open>auto simp: set_tsb_num_entries_def set_tsb_start_addr_def set_tsb_size_bits_def
  set_tsb_split_def set_tsb_link_area_def set_tsb_srcfile_def set_tsb_srcline_def
  intro!: set_tsb_inv [of _ st st']\<close>)

lemma run_tsb_link_action_inv:
  assumes "run_tsb_link_action a st = Inr st'" and "links_inv st"
  shows "links_inv st'"
proof (cases a)
  case (Open_link nm ln)
  have o: "open_new_tsb_link nm ln st = Inr st'" using assms(1) Open_link by simp
  have m: "vector_modify (fst (add_vector_elements (Link_vector st) 1))
      (int (snd (add_vector_elements (Link_vector st) 1))) (label_link nm ln) = Inr (Link_vector st')"
    using o by (auto simp: open_new_tsb_link_def gf_res Let_def split: prod.splits if_splits)
  show ?thesis
    using link_reg.open_extends [OF m] open_new_tsb_link_InrD [OF o] assms(2)
    by (auto simp: links_inv_def label_link_def)
next
  case Close_link
  with assms show ?thesis by (auto simp: close_tsb_link_def links_inv_def gf_res split: if_splits)
qed (use assms in \<open>auto simp: set_tsb_link_start_addr_def set_tsb_link_srcfile_def set_tsb_link_srcline_def
  set_tsb_link_def gf_res intro!: set_link_inv\<close>)

lemma run_tsbcsm_link_action_inv:
  assumes "run_tsbcsm_link_action a st = Inr st'" and "links_inv st"
  shows "links_inv st'"
proof (cases a)
  case (Open_link nm ln)
  have o: "open_new_tsbcsm_link nm ln st = Inr st'" using assms(1) Open_link by simp
  have m: "vector_modify (fst (add_vector_elements (Link_vector st) 1))
      (int (snd (add_vector_elements (Link_vector st) 1))) (label_link nm ln) = Inr (Link_vector st')"
    using o by (auto simp: open_new_tsbcsm_link_def gf_res Let_def split: prod.splits if_splits)
  show ?thesis
    using link_reg.open_extends [OF m] open_new_tsbcsm_link_InrD [OF o] assms(2)
    by (auto simp: links_inv_def label_link_def)
next
  case Close_link
  with assms show ?thesis by (auto simp: close_tsbcsm_link_def links_inv_def gf_res split: if_splits)
qed (use assms in \<open>auto simp: set_tsbcsm_link_start_addr_def set_tsbcsm_link_srcfile_def set_tsbcsm_link_srcline_def
  set_tsbcsm_link_def gf_res intro!: set_link_inv\<close>)

subsection \<open>The whole description\<close>

definition parse_inv :: "gf_state \<Rightarrow> bool" where
  "parse_inv g \<longleftrightarrow>
    apps_inv (g_apps g) \<and> tables_inv (g_tsbs g) \<and> tables_inv (g_tsbcsms g) \<and>
    links_inv (g_tsb_links g) \<and> links_inv (g_tsbcsm_links g) \<and> physmap_wf (g_Physmap g)"

lemma parse_inv_init: "parse_inv (init_image_file_data_structures g)"
  by (simp add: parse_inv_def init_image_file_data_structures_def clear_app_vector_def apps_inv_def
      clear_tsb_vector_def clear_tsbcsm_vector_def tables_inv_def init_tsb_def init_tsbcsm_def
      clear_tsb_link_vector_def clear_tsbcsm_link_vector_def links_inv_def init_tsb_link_def
      init_tsbcsm_link_def physmap_wf_init)

lemma run_action_inv:
  assumes "run_action a g = Inr g'" and "parse_inv g"
  shows "parse_inv g'"
  using assms
  by (cases a)
    (auto simp: on_apps_def on_tsbs_def on_tsbcsms_def on_tsb_links_def on_tsbcsm_links_def gf_res
      parse_inv_def intro: run_app_action_inv run_tsb_action_inv run_tsbcsm_action_inv
      run_tsb_link_action_inv run_tsbcsm_link_action_inv)

lemma run_actions_inv:
  "run_actions as g = Inr g' \<Longrightarrow> parse_inv g \<Longrightarrow> parse_inv g'"
  unfolding run_actions_def by (erule res_fold_invariant) (auto intro: run_action_inv)

section \<open>The nesting of the grammar\<close>

text \<open>
  The nesting of the grammar of \<^verbatim>\<open>parser.y\<close>: where in a description an action may be called.
  For actions in this order, every block that is closed points to the linked section of its
  name; only the block that is open has no pointer yet.
\<close>

subsection \<open>The grammar\<close>

datatype place =
    Outside
  | In_app
  | In_block
  | In_block_tsb
  | In_block_tsbcsm
  | In_tsb
  | In_tsbcsm
  | In_tsb_link
  | In_tsbcsm_link

definition goes :: "place \<Rightarrow> place \<Rightarrow> place \<Rightarrow> place option" where
  "goes p q s = (if s = p then Some q else None)"

primrec app_place :: "app_action \<Rightarrow> place \<Rightarrow> place option" where
  "app_place (Open_app x y) = goes Outside In_app"
| "app_place Close_app = goes In_app Outside"
| "app_place (Elf_file x) = goes In_app In_app"
| "app_place (App_srcfile x) = goes In_app In_app"
| "app_place (App_srcline x) = goes In_app In_app"
| "app_place (Open_block x y) = goes In_app In_block"
| "app_place Close_block = goes In_block In_app"
| "app_place (Block_line l) = goes In_block In_block"
| "app_place (Open_block_tsb x y) = goes In_block In_block_tsb"
| "app_place Close_block_tsb = goes In_block_tsb In_block"
| "app_place (Block_tsb_line l) = goes In_block_tsb In_block_tsb"
| "app_place (Open_block_tsbcsm x y) = goes In_block In_block_tsbcsm"
| "app_place Close_block_tsbcsm = goes In_block_tsbcsm In_block"
| "app_place (Clump_num x) = goes In_block_tsbcsm In_block_tsbcsm"

fun table_place :: "place \<Rightarrow> table_action \<Rightarrow> place \<Rightarrow> place option" where
  "table_place p (Open_table x y) = goes Outside p"
| "table_place p Close_table = goes p Outside"
| "table_place p a = goes p p"

fun link_place :: "place \<Rightarrow> link_action \<Rightarrow> place \<Rightarrow> place option" where
  "link_place p (Open_link x y) = goes Outside p"
| "link_place p Close_link = goes p Outside"
| "link_place p a = goes p p"

primrec action_place :: "action \<Rightarrow> place \<Rightarrow> place option" where
  "action_place (Set_pa_size x) = goes Outside Outside"
| "action_place (App_action a) = app_place a"
| "action_place (Tsb_action a) = table_place In_tsb a"
| "action_place (Tsbcsm_action a) = table_place In_tsbcsm a"
| "action_place (Tsb_link_action a) = link_place In_tsb_link a"
| "action_place (Tsbcsm_link_action a) = link_place In_tsbcsm_link a"

text \<open>The place after a sequence of actions, if the grammar allows it.\<close>

fun nesting :: "action list \<Rightarrow> place \<Rightarrow> place option" where
  "nesting [] s = Some s"
| "nesting (a # as) s = Option.bind (action_place a s) (nesting as)"

definition in_block :: "place \<Rightarrow> bool" where
  "in_block s \<longleftrightarrow> s = In_block \<or> s = In_block_tsb \<or> s = In_block_tsbcsm"

subsection \<open>Linked blocks\<close>

definition block_linked :: "app \<Rightarrow> block \<Rightarrow> bool" where
  "block_linked a blk \<longleftrightarrow> (\<exists>ls. section_of a blk = Some ls \<and> b_link_section blk = Some (ls_name ls))"

lemma block_linked_same: "a_linked_sections a' = a_linked_sections a \<Longrightarrow> block_linked a' blk = block_linked a blk"
  by (simp add: block_linked_def section_of_def split: option.split)

text \<open>All blocks of an application, or all but the open one.\<close>

definition app_linked :: "bool \<Rightarrow> app \<Rightarrow> bool" where
  "app_linked but a \<longleftrightarrow>
    (\<forall>k < length (elements (a_blocks a)). but \<and> int k = a_open_block_index a \<or> block_linked a (elements (a_blocks a) ! k))"

definition blocks_linked :: "bool \<Rightarrow> app_state \<Rightarrow> bool" where
  "blocks_linked but st \<longleftrightarrow>
    (\<forall>n < length (elements (App_vector st)).
      app_linked (but \<and> int n = Open_app_index st) (elements (App_vector st) ! n))"

definition links_app :: "bool \<Rightarrow> bool \<Rightarrow> (app \<Rightarrow> app res) \<Rightarrow> bool" where
  "links_app but but' f \<longleftrightarrow> (\<forall>a a'. f a = Inr a' \<longrightarrow> app_linked but a \<longrightarrow> app_linked but' a')"

lemma modify_open_app_linked:
  assumes "modify_open_app f st = Inr st'" and "blocks_linked but st" and "links_app but but' f"
  shows "blocks_linked but' st'"
proof -
  obtain v where u: "vector_update (App_vector st) (Open_app_index st) f = Inr v"
    and st': "st' = st\<lparr>App_vector := v\<rparr>"
    using assms(1) by (auto simp: modify_open_app_def gf_res)
  let ?n = "nat (Open_app_index st)"
  obtain a' where n: "0 \<le> Open_app_index st" "?n < length (elements (App_vector st))"
    and a': "f (elements (App_vector st) ! ?n) = Inr a'" and el: "elements v = (elements (App_vector st))[?n := a']"
    using vector_update_InrD [OF u] by auto
  have ix: "int k = Open_app_index st \<longleftrightarrow> k = ?n" for k using n(1) by auto
  have "app_linked but (elements (App_vector st) ! ?n)"
    using assms(2) n by (auto simp: blocks_linked_def)
  with assms(3) a' have "app_linked but' a'" by (auto simp: links_app_def)
  then show ?thesis
    using assms(2) n by (auto simp: blocks_linked_def st' el nth_list_update ix)
qed

lemma links_app_simple:
  assumes "\<And>a a'. f a = Inr a' \<Longrightarrow> a_blocks a' = a_blocks a \<and> a_linked_sections a' = a_linked_sections a \<and>
    a_open_block_index a' = a_open_block_index a"
  shows "links_app but but f"
  using assms by (auto simp: links_app_def app_linked_def block_linked_def section_of_def split: option.splits)

text \<open>An operation on the open block changes no other block.\<close>

lemma links_app_block:
  "links_app True True (\<lambda>a. res_bind (vector_update (a_blocks a) (a_open_block_index a) f)
    (\<lambda>v. Inr (a\<lparr>a_blocks := v\<rparr>)))"
  unfolding links_app_def
proof (intro allI impI)
  fix a a'
  assume "res_bind (vector_update (a_blocks a) (a_open_block_index a) f) (\<lambda>v. Inr (a\<lparr>a_blocks := v\<rparr>)) = Inr a'"
    and inv: "app_linked True a"
  then obtain v where u: "vector_update (a_blocks a) (a_open_block_index a) f = Inr v"
    and a': "a' = a\<lparr>a_blocks := v\<rparr>" by (auto simp: gf_res)
  let ?n = "nat (a_open_block_index a)"
  obtain b' where n: "0 \<le> a_open_block_index a" and el: "elements v = (elements (a_blocks a))[?n := b']"
    using vector_update_InrD [OF u] by auto
  have "block_linked a' b = block_linked a b" for b
    by (rule block_linked_same) (simp add: a')
  moreover have "(elements (a_blocks a))[?n := b'] ! k = elements (a_blocks a) ! k" if "int k \<noteq> a_open_block_index a" for k
    using that n by (cases "k = ?n") auto
  ultimately show "app_linked True a'"
    using inv by (simp add: app_linked_def a' el) metis
qed

lemma modify_open_block_linked:
  "modify_open_block f st = Inr st' \<Longrightarrow> blocks_linked True st \<Longrightarrow> blocks_linked True st'"
  unfolding modify_open_block_def by (rule modify_open_app_linked [OF _ _ links_app_block])

lemma links_app_guard:
  "links_app but but' f \<Longrightarrow> links_app but but' (\<lambda>a. if c a then Inl e else f a)"
  by (auto simp: links_app_def split: if_splits)

lemma links_open_new_block:
  "links_app False True (\<lambda>a. let (v, new_index) = add_vector_elements (a_blocks a) 1
     in res_bind (vector_modify v (int new_index) f) (\<lambda>v'.
        Inr (a\<lparr>a_blocks := v', a_open_block_index := int new_index\<rparr>)))"
  unfolding links_app_def
proof (intro allI impI)
  fix a a'
  assume "(let (v, new_index) = add_vector_elements (a_blocks a) 1
     in res_bind (vector_modify v (int new_index) f) (\<lambda>v'.
        Inr (a\<lparr>a_blocks := v', a_open_block_index := int new_index\<rparr>))) = Inr a'"
    and inv: "app_linked False a"
  then obtain v' where m: "vector_modify (fst (add_vector_elements (a_blocks a) 1))
      (int (snd (add_vector_elements (a_blocks a) 1))) f = Inr v'"
    and a': "a' = a\<lparr>a_blocks := v', a_open_block_index := int (snd (add_vector_elements (a_blocks a) 1))\<rparr>"
    by (auto simp: gf_res split: prod.splits)
  have "elements v' = elements (a_blocks a) @ [f (init_elem (a_blocks a))]"
    "snd (add_vector_elements (a_blocks a) 1) = length (elements (a_blocks a))"
    using vec.add_then_modify [of "a_blocks a" f] m elements_add_vector_elements(3) [of "a_blocks a" 1] by auto
  moreover have "block_linked a' b = block_linked a b" for b
    by (rule block_linked_same) (simp add: a')
  ultimately show "app_linked True a'"
    using inv by (auto simp: app_linked_def a' nth_append less_Suc_eq)
qed

text \<open>Closing a block links it.\<close>

lemma links_close_block: "links_app True False close_block_of_app"
  unfolding links_app_def
proof (intro allI impI)
  fix a a'
  assume c: "close_block_of_app a = Inr a'" and inv: "app_linked True a"
  let ?n = "nat (a_open_block_index a)"
  obtain blk a1 i v where e: "vector_elem (a_blocks a) (a_open_block_index a) = Inr blk"
    and f: "find_or_add_section blk a = Inr (a1, i)"
    and v: "vector_modify (a_blocks a1) (a_open_block_index a)
      (\<lambda>b. b\<lparr>b_linked_section_obj := Some i\<rparr>) = Inr v"
    and a': "a' = a1\<lparr>a_blocks := v, a_open_block_index := NO_OPEN_BLOCK\<rparr>"
    using c by (auto simp: close_block_of_app_def gf_res split: if_splits)
  have blk: "0 \<le> a_open_block_index a" "?n < length (elements (a_blocks a))" "blk = elements (a_blocks a) ! ?n"
    using e by (auto simp: vector_elem_def VECTOR_LEN_def split: if_splits)
  obtain new where F: "a_blocks a1 = a_blocks a" "i < length (elements (a_linked_sections a1))"
    "b_link_section blk = Some (ls_name (elements (a_linked_sections a1) ! i))"
    "elements (a_linked_sections a1) = elements (a_linked_sections a) @ new"
    using find_or_add_section_InrD [OF f] by auto
  have el: "elements v = (elements (a_blocks a))[?n := blk\<lparr>b_linked_section_obj := Some i\<rparr>]"
    using vector_modify_InrD [OF v] F(1) blk(3) by simp
  have old: "block_linked a' b" if "block_linked a b" for b
    using that by (auto simp: block_linked_def section_of_def a' F(4) nth_append split: option.splits if_splits)
  have new: "block_linked a' (blk\<lparr>b_linked_section_obj := Some i\<rparr>)"
    using F(2,3) by (simp add: block_linked_def section_of_def a')
  show "app_linked False a'"
    unfolding app_linked_def
  proof (intro allI impI disjI2)
    fix k
    assume "k < length (elements (a_blocks a'))"
    then have k: "k < length (elements (a_blocks a))" by (simp add: a' el)
    show "block_linked a' (elements (a_blocks a') ! k)"
    proof (cases "k = ?n")
      case True
      then show ?thesis using new k by (simp add: a' el)
    next
      case False
      then have "block_linked a (elements (a_blocks a) ! k)" using inv k blk(1) by (auto simp: app_linked_def)
      from old [OF this] False show ?thesis by (simp add: a' el)
    qed
  qed
qed

subsection \<open>Every action\<close>

lemma run_block_line_linked:
  "run_block_line l st = Inr st' \<Longrightarrow> blocks_linked True st \<Longrightarrow> blocks_linked True st'"
  by (cases l) (auto simp: block_line_defs intro: modify_open_block_linked)

lemma run_block_tsb_line_linked:
  "run_block_tsb_line l st = Inr st' \<Longrightarrow> blocks_linked True st \<Longrightarrow> blocks_linked True st'"
  by (cases l) (auto simp: block_tsb_line_defs intro: modify_open_block_linked)

lemma open_new_app_linked:
  assumes "open_new_app nm lineno st = Inr st'" and "blocks_linked False st" and "init_elem (App_vector st) = init_app"
  shows "blocks_linked False st'"
proof -
  have m: "vector_modify (fst (add_vector_elements (App_vector st) 1))
      (int (snd (add_vector_elements (App_vector st) 1))) (label_app nm lineno) = Inr (App_vector st')"
    using assms(1) by (auto simp: open_new_app_def gf_res Let_def split: prod.splits if_splits)
  have "elements (App_vector st') = elements (App_vector st) @ [label_app nm lineno init_app]"
    using app_reg.open_extends [OF m] assms(3) by simp
  then show ?thesis
    using assms(2) by (auto simp: blocks_linked_def nth_append app_linked_def label_app_def init_app_def)
qed

lemma run_app_action_linked:
  assumes "run_app_action a st = Inr st'" and "app_place a s = Some s'" and "blocks_linked (in_block s) st"
    and "init_elem (App_vector st) = init_app"
  shows "blocks_linked (in_block s') st'"
proof (cases a)
  case (Open_app x y)
  with assms show ?thesis by (auto simp: goes_def in_block_def intro: open_new_app_linked split: if_splits)
next
  case Close_app
  with assms show ?thesis
    by (auto simp: goes_def in_block_def close_app_def gf_res blocks_linked_def split: if_splits)
next
  case (Open_block x y)
  with assms show ?thesis
    by (auto simp: goes_def in_block_def open_new_block_def split: if_splits
        intro: modify_open_app_linked [OF _ _ links_open_new_block])
next
  case Close_block
  with assms show ?thesis
    by (auto simp: goes_def in_block_def close_block_def split: if_splits
        intro: modify_open_app_linked [OF _ _ links_close_block])
qed (use assms in \<open>auto simp: goes_def in_block_def set_app_elf_file_def set_app_srcfile_def set_app_srcline_def
  open_new_block_tsb_def open_new_block_tsbcsm_def close_block_tsb_def close_block_tsbcsm_def
  set_block_tsbcsm_clump_num_def split: if_splits
  intro: modify_open_app_linked [OF _ _ links_app_simple] modify_open_block_linked run_block_line_linked
    run_block_tsb_line_linked modify_open_app_linked [OF _ _ links_app_guard [OF links_app_block]]\<close>)

lemma other_place:
  "table_place p a s = Some s' \<Longrightarrow> \<not> in_block p \<Longrightarrow> \<not> in_block s \<and> \<not> in_block s'"
  "link_place p b s = Some s' \<Longrightarrow> \<not> in_block p \<Longrightarrow> \<not> in_block s \<and> \<not> in_block s'"
  by (cases a; auto simp: goes_def in_block_def split: if_splits)
    (cases b; auto simp: goes_def in_block_def split: if_splits)

lemma run_action_linked:
  assumes "run_action a g = Inr g'" and "action_place a s = Some s'" and "blocks_linked (in_block s) (g_apps g)"
    and "parse_inv g"
  shows "blocks_linked (in_block s') (g_apps g')"
proof (cases a)
  case (App_action x)
  with assms show ?thesis
    by (auto simp: on_apps_def gf_res parse_inv_def apps_inv_def intro: run_app_action_linked)
next
  case (Set_pa_size x)
  with assms show ?thesis by (auto simp: gf_res goes_def split: if_splits)
qed (use assms in \<open>auto simp: on_tsbs_def on_tsbcsms_def on_tsb_links_def on_tsbcsm_links_def gf_res in_block_def
  dest!: other_place\<close>)

lemma run_actions_linked:
  "run_actions as g = Inr g' \<Longrightarrow> nesting as s = Some s' \<Longrightarrow> blocks_linked (in_block s) (g_apps g) \<Longrightarrow> parse_inv g \<Longrightarrow>
   blocks_linked (in_block s') (g_apps g')"
proof (induction as arbitrary: g s)
  case (Cons a as)
  from Cons.prems(1) obtain g1 where a: "run_action a g = Inr g1" and r: "run_actions as g1 = Inr g'"
    by (auto simp: run_actions_def gf_res)
  from Cons.prems(2) obtain s1 where p: "action_place a s = Some s1" and n: "nesting as s1 = Some s'"
    by (auto simp: bind_eq_Some_conv)
  show ?case
    using Cons.IH [OF r n] run_action_linked [OF a p] run_action_inv [OF a] Cons.prems(3,4) by blast
qed (simp add: run_actions_def)

lemma blocks_linked_init: "blocks_linked b (g_apps (init_image_file_data_structures g))"
  by (simp add: blocks_linked_def init_image_file_data_structures_def clear_app_vector_def)

end
