(* ===== verification/Gf_Block_Image.thy ===== *)
theory Gf_Block_Image
  imports Gf_Block
begin

text \<open>
  The memory image that the output of \<^verbatim>\<open>block_generate_image\<close> describes: the words of the
  block in pairs, from its physical address on, as long as no shorter last line follows a
  suppressed one.
\<close>

fun pair64 :: "u32 list \<Rightarrow> u64 list" where
  "pair64 [] = []"
| "pair64 [a] = [word_cat a (0 :: u32)]"
| "pair64 (a # b # ws) = word_cat a b # pair64 ws"

lemma length_pair64: "length (pair64 ws) = (length ws + 1) div 2"
  by (induction ws rule: pair64.induct) auto

lemma pair64_append: "even (length xs) \<Longrightarrow> pair64 (xs @ ys) = pair64 xs @ pair64 ys"
  by (induction xs rule: pair64.induct) auto

lemma pair64_zeros: "pair64 (replicate (2 * n) 0) = replicate n 0"
  by (induction n) (auto simp: word_cat_eq)

lemma load_print_pairs: "load_items (print_pairs sp ws) s = put_words (pair64 ws) s"
proof (induction sp ws arbitrary: s rule: print_pairs.induct)
  case (3 sp a b ws)
  have "put_words (pair64 (a # b # ws)) s = put_words (pair64 ws) (put_words [word_cat a b] s)"
    by (simp flip: put_words_append)
  with "3.IH" show ?case by simp
qed simp_all

text \<open>What \<^verbatim>\<open>zero_line\<close> is when a last line of less than eight words is reached.\<close>

function tail_flag :: "u32 list \<Rightarrow> bool \<Rightarrow> bool" where
  "tail_flag ws z =
    (if 8 \<le> length ws then tail_flag (drop 8 ws) (list_all (\<lambda>w. w = 0) (take 8 ws)) else z)"
  by pat_completeness auto

termination
  by (relation "measure (\<lambda>(ws, z). length ws)") auto

declare tail_flag.simps [simp del]

text \<open>A shorter last line that the program takes for a line of zeros.\<close>

definition stale_tail :: "u32 list \<Rightarrow> bool" where
  "stale_tail ws \<longleftrightarrow> length ws mod 8 \<noteq> 0 \<and> tail_flag ws False"

definition image_inv ::
  "bool \<Rightarrow> bool \<Rightarrow> addr_t \<Rightarrow> addr_t \<times> memory \<Rightarrow> u32 list \<Rightarrow> image_state \<Rightarrow> bool" where
  "image_inv compress env start s0 dn st \<longleftrightarrow>
    gap_inv env (i_doing_compress st) (i_last_addr st) (i_out st) start (pair64 dn) s0 \<and>
    i_line_pa st = advance start (length (pair64 dn)) \<and> (i_doing_compress st \<longrightarrow> compress)"

definition image_tail :: "bool \<Rightarrow> image_state \<Rightarrow> item list" where
  "image_tail env st =
    (if i_doing_compress st \<and> env then [ZeroBytes (i_line_pa st - i_last_addr st)] else [])"

lemma end_compress_load:
  assumes inv: "image_inv compress env start s0 dn st" and d: "i_doing_compress st"
    and b: "8 * length (pair64 dn) < 2 ^ 64"
  shows "load_items (i_out (end_compress env start st)) s0 = put_words (pair64 dn) (start, snd s0)"
proof -
  have g: "gap_inv env True (i_last_addr st) (i_out st) start (pair64 dn) s0"
    and pa: "i_line_pa st = advance start (length (pair64 dn))"
    using inv d by (simp_all add: image_inv_def)
  then have env by (simp add: gap_inv_def)
  define pre where
    "pre = (if i_printed_data st then [Newline, At (i_last_addr st) (from_compressed start)] else [])"
  have "pre = [] \<or> pre = [Newline, At (i_last_addr st) (from_compressed start)]"
    by (simp add: pre_def)
  from load_marker [OF gap_flush [OF g b this]] show ?thesis
    using \<open>env\<close> by (simp add: end_compress_def pa flip: pre_def)
qed

lemma image_tail_load:
  assumes inv: "image_inv compress env start s0 dn st" and b: "8 * length (pair64 dn) < 2 ^ 64"
  shows "load_items (i_out st @ image_tail env st) s0 = put_words (pair64 dn) (start, snd s0)"
proof (cases "i_doing_compress st")
  case True
  then have g: "gap_inv env True (i_last_addr st) (i_out st) start (pair64 dn) s0"
    and pa: "i_line_pa st = advance start (length (pair64 dn))"
    using inv by (simp_all add: image_inv_def)
  then have env by (simp add: gap_inv_def)
  with gap_flush [OF g b disjI1 [OF refl]] True pa show ?thesis by (simp add: image_tail_def)
next
  case False
  with inv show ?thesis by (simp add: image_inv_def image_tail_def gap_inv_printing)
qed

text \<open>A line of zeros, and a line that is printed.\<close>

lemma skip_line_inv:
  assumes inv: "image_inv compress env start s0 dn st" and "compress" and "env" and ev: "even (length dn)"
    and z: "list_all (\<lambda>w. w = 0) line" and l: "length line = 8"
  shows "image_inv compress env start s0 (dn @ line)
    (st\<lparr>i_zero_line := zl, i_last_addr := (if i_doing_compress st then i_last_addr st else i_line_pa st),
        i_doing_compress := True, i_line_pa := i_line_pa st + 32\<rparr>)"
proof -
  have "line = replicate 8 0"
    using z l by (intro replicate_eqI) (auto simp: list_all_iff)
  then have "line = replicate (2 * 4) 0" by simp
  then have p: "pair64 (dn @ line) = pair64 dn @ replicate 4 0"
    by (simp only: pair64_append [OF ev] pair64_zeros)
  have "i_line_pa st + 32 = advance start (length (pair64 dn @ replicate 4 (0 :: u64)))"
    using inv by (simp add: image_inv_def advance_def)
  then show ?thesis
    using inv gap_zeros [of env "i_doing_compress st" "i_last_addr st" "i_out st" start "pair64 dn" s0 4] assms(2,3)
    unfolding image_inv_def p by (cases "i_doing_compress st") simp_all
qed

lemma print_line_inv:
  assumes ld: "load_items (i_out st) s0 = put_words (pair64 dn) (start, snd s0)"
    and pa: "i_line_pa st = advance start (length (pair64 dn))" and nd: "\<not> i_doing_compress st"
    and ev: "even (length dn)" and l: "length (pair64 line) = 4"
  shows "image_inv compress env start s0 (dn @ line)
    (st\<lparr>i_printed_data := True, i_out := i_out st @ print_pairs False line, i_line_pa := i_line_pa st + 32\<rparr>)"
  using gap_words [OF ld load_print_pairs, of env "i_last_addr st" False line] pa nd
  by (simp add: image_inv_def pair64_append [OF ev] l advance_def)

text \<open>The loop.\<close>

lemma image_lines_load:
  assumes "image_inv compress env start s0 dn st" and "ws \<noteq> [] \<Longrightarrow> even (length dn)"
    and "4 * (length dn + length ws) + 4 < 2 ^ 64" and "compress \<Longrightarrow> env"
    and "compress \<Longrightarrow> length ws mod 8 \<noteq> 0 \<Longrightarrow> \<not> tail_flag ws (i_zero_line st)"
  shows "load_items (i_out (image_lines compress env start ws st) @
      image_tail env (image_lines compress env start ws st)) s0 =
    put_words (pair64 (dn @ ws)) (start, snd s0)"
  using assms
proof (induction compress env start ws st arbitrary: dn rule: image_lines.induct)
  case (1 compress env start ws st)
  note inv = "1.prems"(1)
  show ?case
  proof (cases "ws = []")
    case True
    have "8 * length (pair64 dn) < 2 ^ 64" using "1.prems"(3) by (simp add: length_pair64)
    from image_tail_load [OF inv this] True show ?thesis by (simp add: image_lines.simps)
  next
    case False
    have ev: "even (length dn)" using "1.prems"(2) False by simp
    have b: "8 * length (pair64 dn) < 2 ^ 64" using "1.prems"(3) ev by (auto simp: length_pair64)
    let ?full = "8 \<le> length ws" and ?line = "take 8 ws"
    let ?zero = "if ?full then list_all (\<lambda>w. w = 0) ?line else i_zero_line st"
    let ?st0 = "st\<lparr>i_zero_line := ?zero\<rparr>"
    let ?st1 = "if i_doing_compress st \<and> \<not> ?zero then end_compress env start ?st0 else ?st0"
    have inv0: "image_inv compress env start s0 dn ?st0" using inv by (simp add: image_inv_def)
    have flag: "tail_flag (drop 8 ws) ?zero = tail_flag ws (i_zero_line st)"
      by (simp add: tail_flag.simps [of ws] tail_flag.simps [of "drop 8 ws"])
    show ?thesis
    proof (cases "compress \<and> ?full \<and> ?zero")
      case True
      let ?st2 = "?st1\<lparr>i_last_addr := (if i_doing_compress ?st1 then i_last_addr ?st1 else i_line_pa ?st1),
        i_doing_compress := True, i_line_pa := i_line_pa ?st1 + 32\<rparr>"
      have step: "image_lines compress env start ws st = image_lines compress env start (drop 8 ws) ?st2"
        using False True by (subst image_lines.simps) (simp add: Let_def)
      have inv2: "image_inv compress env start s0 (dn @ ?line) ?st2"
        using skip_line_inv [OF inv _ _ ev, of ?line ?zero] True "1.prems"(4)
        by (cases "i_doing_compress st") simp_all
      have zl: "i_zero_line ?st2 = ?zero" using True by simp
      have p2: "even (length (dn @ ?line))" using ev True by simp
      have p3: "4 * (length (dn @ ?line) + length (drop 8 ws)) + 4 < 2 ^ 64"
        using "1.prems"(3) True by simp
      have md: "length (drop 8 ws) mod 8 = length ws mod 8" using True by (simp add: le_mod_geq)
      have p5: "\<not> tail_flag (drop 8 ws) (i_zero_line ?st2)" if "compress" "length (drop 8 ws) mod 8 \<noteq> 0"
        unfolding zl flag using "1.prems"(5) that md by simp
      note ih = "1.IH"(1) [OF False refl refl refl refl True inv2 p2 p3 "1.prems"(4) p5]
      have "load_items (i_out (image_lines compress env start (drop 8 ws) ?st2) @
          image_tail env (image_lines compress env start (drop 8 ws) ?st2)) s0 =
        put_words (pair64 ((dn @ ?line) @ drop 8 ws)) (start, snd s0)"
        by (rule ih)
      then show ?thesis unfolding step by simp
    next
      case no: False
      have nz: "i_doing_compress st \<Longrightarrow> \<not> ?zero"
      proof -
        assume d: "i_doing_compress st"
        then have c: compress using inv by (simp add: image_inv_def)
        show "\<not> ?zero"
        proof (cases ?full)
          case True
          with no c show ?thesis by simp
        next
          case nf: False
          then have "length ws mod 8 \<noteq> 0" using False by simp
          with "1.prems"(5) c nf show ?thesis by (simp add: tail_flag.simps [of ws])
        qed
      qed
      have nd: "\<not> i_doing_compress ?st1" and pa: "i_line_pa ?st1 = advance start (length (pair64 dn))"
        using nz inv by (auto simp: end_compress_def image_inv_def)
      have ld: "load_items (i_out ?st1) s0 = put_words (pair64 dn) (start, snd s0)"
        using nz inv0 end_compress_load [OF inv0 _ b]
        by (cases "i_doing_compress st") (auto simp: image_inv_def gap_inv_printing)
      let ?st2 = "?st1\<lparr>i_printed_data := True, i_out := i_out ?st1 @ print_pairs False ?line\<rparr>"
      have step: "image_lines compress env start ws st =
          (if length ws \<le> 6 then ?st2
           else image_lines compress env start (drop 8 ws) (?st2\<lparr>i_line_pa := i_line_pa ?st2 + 32\<rparr>))"
        by (subst image_lines.simps) (simp only: Let_def if_not_P [OF no] if_not_P [OF False])
      show ?thesis
      proof (cases "length ws \<le> 6")
        case True
        then show ?thesis
          using nd gap_words [OF ld load_print_pairs, of env "i_last_addr st" False ws]
          by (simp add: step image_tail_def gap_inv_printing pair64_append [OF ev])
      next
        case long: False
        let ?st3 = "?st2\<lparr>i_line_pa := i_line_pa ?st2 + 32\<rparr>"
        have "length ?line = 7 \<or> length ?line = 8" using long by (simp add: min_def) arith
        then have "length (pair64 ?line) = 4" by (auto simp: length_pair64)
        from print_line_inv [OF ld pa nd ev this]
        have inv3: "image_inv compress env start s0 (dn @ ?line) ?st3" by simp
        have zl: "i_zero_line ?st3 = ?zero" by (simp add: end_compress_def)
        have p2: "even (length (dn @ ?line))" if "drop 8 ws \<noteq> []" using ev that by simp
        have p3: "4 * (length (dn @ ?line) + length (drop 8 ws)) + 4 < 2 ^ 64"
        proof -
          have "length (dn @ ?line) + length (drop 8 ws) = length dn + length ws"
            by (metis append_take_drop_id append.assoc length_append)
          with "1.prems"(3) show ?thesis by simp
        qed
        have p5: "\<not> tail_flag (drop 8 ws) (i_zero_line ?st3)"
          if "compress" "length (drop 8 ws) mod 8 \<noteq> 0"
          unfolding zl flag using "1.prems"(5) that by (cases ?full) (simp_all add: le_mod_geq)
        note ih = "1.IH"(2) [OF False refl refl refl refl no refl long inv3 p2 p3 "1.prems"(4) p5]
        have "load_items (i_out (image_lines compress env start (drop 8 ws) ?st3) @
            image_tail env (image_lines compress env start (drop 8 ws) ?st3)) s0 =
          put_words (pair64 ((dn @ ?line) @ drop 8 ws)) (start, snd s0)"
          by (rule ih)
        then show ?thesis using long by (simp add: step)
      qed
    qed
  qed
qed

text \<open>The words of a block, and the whole operation.\<close>

definition block_words :: "elf_section \<Rightarrow> block \<Rightarrow> u32 list" where
  "block_words scn blk =
    take (unat (b_d_length blk div 4)) (drop (unat (b_d_offset blk div 4)) (section_words scn blk))"

lemma block_generate_image_InrD:
  assumes "block_generate_image cmp env pa_size scn blk pm = Inr (pm', out)" and "b_in_image blk \<noteq> 0"
  obtains m st where "pa_mask pa_size = Inr m"
    and "add_block_to_physmap pm (b_srcfile blk) (b_srcline blk) (b_lineno blk) (b_pa blk)
      (b_pa blk + b_d_length blk) (b_section_name blk) (b_segment_name blk) = Inr pm'"
    and "length (block_words scn blk) = unat (b_d_length blk div 4)"
    and "unat (b_d_length blk div 4) < 2 ^ 31"
    and "st = image_lines (b_compress blk \<noteq> 0 \<and> cmp) env (b_pa blk) (block_words scn blk)
      \<lparr>i_zero_line = False, i_doing_compress = False, i_printed_data = False,
       i_last_addr = b_pa blk, i_line_pa = b_pa blk,
       i_out = [Newline, At (b_pa blk AND m) (''Section '' @ quoted (b_section_name blk) @
         '', segment '' @ quoted (b_segment_name blk))]\<rparr>"
    and "out = i_out st @ image_tail env st"
  using assms
  by (auto simp: block_generate_image_def Let_def gf_res block_words_def image_tail_def not_le)

lemma block_image_load:
  assumes gen: "block_generate_image cmp env pa_size scn blk pm = Inr (pm', out)"
    and img: "b_in_image blk \<noteq> 0" and fits: "unat (b_pa blk) < 2 ^ nat pa_size"
    and env: "b_compress blk \<noteq> 0 \<Longrightarrow> cmp \<Longrightarrow> env \<and> \<not> stale_tail (block_words scn blk)"
  shows "snd (load_items out s0) = store64s (b_pa blk) (pair64 (block_words scn blk)) (snd s0)"
proof -
  let ?ws = "block_words scn blk" and ?c = "b_compress blk \<noteq> 0 \<and> cmp"
  from block_generate_image_InrD [OF gen img] obtain m st where m: "pa_mask pa_size = Inr m"
    and len: "length ?ws = unat (b_d_length blk div 4)" "unat (b_d_length blk div 4) < 2 ^ 31"
    and st: "st = image_lines ?c env (b_pa blk) ?ws
      \<lparr>i_zero_line = False, i_doing_compress = False, i_printed_data = False,
       i_last_addr = b_pa blk, i_line_pa = b_pa blk,
       i_out = [Newline, At (b_pa blk AND m) (''Section '' @ quoted (b_section_name blk) @
         '', segment '' @ quoted (b_segment_name blk))]\<rparr>"
    and out: "out = i_out st @ image_tail env st" by blast
  have ps: "nat pa_size < 64" "m = mask (nat pa_size)"
    using m by (auto simp: pa_mask_def mask_eq_exp_minus_1 push_bit_one split: if_splits)
  have "b_pa blk AND m = b_pa blk"
    using fits ps(2) by (simp add: word_and_mask_id)
  then have inv: "image_inv ?c env (b_pa blk) s0 []
      \<lparr>i_zero_line = False, i_doing_compress = False, i_printed_data = False,
       i_last_addr = b_pa blk, i_line_pa = b_pa blk,
       i_out = [Newline, At (b_pa blk AND m) (''Section '' @ quoted (b_section_name blk) @
         '', segment '' @ quoted (b_segment_name blk))]\<rparr>"
    by (simp add: image_inv_def gap_inv_printing)
  have b: "4 * (length ([] :: u32 list) + length ?ws) + 4 < 2 ^ 64" using len by simp
  have "load_items out s0 = put_words (pair64 ([] @ ?ws)) (b_pa blk, snd s0)"
    unfolding out st
    by (rule image_lines_load [OF inv _ b]) (use env in \<open>auto simp: stale_tail_def\<close>)
  then show ?thesis by (simp add: put_words_def)
qed

text \<open>
  A block whose size was calculated from its section lies in the data of that section, so
  its image is generated without reading outside of it.
\<close>

lemma image_in_bounds:
  assumes cs: "block_calculate_size pa_size ls blk = Inr blk'"
    and lim: "b_end_label blk = None" "b_end_va blk = NO_ADDR \<or> b_no_end_range_check blk = Some 0"
    and scn: "ls_length ls = es_size scn" "es_type scn \<noteq> SHT_NOBITS \<Longrightarrow> length (es_data scn) = unat (es_size scn)"
    and pa: "0 \<le> pa_size" "pa_size < 64" and sz: "unat (es_size scn) div 4 < 2 ^ 31 - 1"
    and pm: "physmap_wf pm"
  shows "block_generate_image cmp env pa_size scn blk' pm \<noteq> Inl Undefined"
proof -
  obtain a n r p where b: "blk' = blk\<lparr>b_va := a, b_d_offset := a - ls_start_va ls, b_d_length := n, b_ra := r, b_pa := p\<rparr>"
    and in_range: "unat (a - ls_start_va ls) + unat n \<le> unat (es_size scn)"
    using block_calculate_size_InrD [OF cs] lim scn(1) by auto
  have dl: "unat (n div 4) \<le> unat (es_size scn) div 4"
    using in_range by (simp add: unat_div)
  have "length (section_words scn blk') = unat (es_size scn) div 4"
  proof (cases "es_type scn = SHT_NOBITS")
    case True
    have "max (es_size scn) n = es_size scn" using in_range by (auto simp: max_def word_le_nat_alt word_unat_eq_iff)
    with True b show ?thesis by (simp add: section_words_def)
  next
    case False
    then show ?thesis using scn(2) by (simp add: section_words_def length_be_words)
  qed
  then have len: "unat (n div 4) \<le> length (drop (unat ((a - ls_start_va ls) div 4)) (section_words scn blk'))"
    using div4_add [OF in_range] by (simp add: unat_div)
  obtain m where "pa_mask pa_size = Inr m" using pa by (auto simp: pa_mask_def)
  moreover have "add_block_to_physmap pm f l ln st sp sec seg \<noteq> Inl Undefined"
    for f l ln st sp sec seg
    using add_entry_to_physmap_defined [OF pm] by (simp add: add_block_to_physmap_def)
  ultimately show ?thesis
    using len dl sz b
    by (auto simp: block_generate_image_def Let_def res_bind_Inl_iff)
qed

section \<open>A last line that the stale flag hides\<close>

text \<open>
  What becomes of a last line that is shorter than a line when the line before it is zero
  and was left out: its words are written where the zeros belong.
\<close>

subsection \<open>Whole lines\<close>

lemma image_lines_Nil [simp]: "image_lines c e start [] st = st"
  by (simp add: image_lines.simps)

definition line_step :: "bool \<Rightarrow> bool \<Rightarrow> addr_t \<Rightarrow> u32 list \<Rightarrow> image_state \<Rightarrow> image_state" where
  "line_step c e start line st =
    (let zero = list_all (\<lambda>w. w = 0) line;
         st0 = st\<lparr>i_zero_line := zero\<rparr>;
         st1 = (if i_doing_compress st \<and> \<not> zero then end_compress e start st0 else st0)
     in if c \<and> zero then
          st1\<lparr>i_last_addr := (if i_doing_compress st1 then i_last_addr st1 else i_line_pa st1),
              i_doing_compress := True, i_line_pa := i_line_pa st1 + 32\<rparr>
        else
          (let st2 = st1\<lparr>i_printed_data := True, i_out := i_out st1 @ print_pairs False line\<rparr>
           in st2\<lparr>i_line_pa := i_line_pa st2 + 32\<rparr>))"

lemma image_lines_step:
  assumes "8 \<le> length ws"
  shows "image_lines c e start ws st = image_lines c e start (drop 8 ws) (line_step c e start (take 8 ws) st)"
proof -
  have w: "ws \<noteq> []" "\<not> length ws \<le> 6" using assms by auto
  show ?thesis
    unfolding image_lines.simps [of c e start ws st] line_step_def Let_def if_not_P [OF w(1)] if_not_P [OF w(2)]
      if_P [OF assms]
    by (cases "c \<and> list_all (\<lambda>w. w = 0) (take 8 ws)") (simp_all only: assms if_True if_False simp_thms)
qed

lemma full_induct [consumes 1, case_names Nil line]:
  fixes xs :: "'a list"
  assumes "length xs mod 8 = 0" and "P []"
    and "\<And>l ys. length l = 8 \<Longrightarrow> length ys mod 8 = 0 \<Longrightarrow> P ys \<Longrightarrow> P (l @ ys)"
  shows "P xs"
  using assms(1)
proof (induction xs rule: length_induct)
  case (1 xs)
  show ?case
  proof (cases "xs = []")
    case False
    then have l: "8 \<le> length xs" using "1.prems" by (cases "length xs < 8") auto
    have m: "length (drop 8 xs) mod 8 = 0" using l "1.prems" by (simp add: le_mod_geq)
    have "length (drop 8 xs) < length xs" using False by simp
    from "1.IH" [rule_format, OF this m] assms(3) [of "take 8 xs" "drop 8 xs"] l m show ?thesis by simp
  qed (simp add: assms(2))
qed

lemma image_lines_append:
  "length xs mod 8 = 0 \<Longrightarrow>
   image_lines c e start (xs @ ys) st = image_lines c e start ys (image_lines c e start xs st)"
proof (induction xs arbitrary: st rule: full_induct)
  case (line l xs)
  then show ?case
    by (simp only: append_assoc image_lines_step [of "l @ xs @ ys"] image_lines_step [of "l @ xs"] length_append
        le_add1 take_append drop_append) simp
qed simp

lemma tail_flag_line:
  "length xs mod 8 = 0 \<Longrightarrow> length line = 8 \<Longrightarrow> length ys < 8 \<Longrightarrow>
   tail_flag (xs @ line @ ys) z = list_all (\<lambda>w. w = 0) line"
proof (induction xs arbitrary: z rule: full_induct)
  case Nil
  then show ?case by (simp add: tail_flag.simps)
next
  case (line l xs)
  then show ?case by (subst tail_flag.simps) simp
qed

text \<open>A block with a stale last line, in its three parts.\<close>

lemma stale_parts:
  assumes "stale_tail ws"
  obtains xs ys where "ws = xs @ replicate 8 0 @ ys" "length xs mod 8 = 0" "0 < length ys" "length ys < 8"
    "ys = drop (8 * (length ws div 8)) ws"
proof -
  let ?q = "length ws div 8" and ?ys = "drop (8 * (length ws div 8)) ws"
  have r: "length ws mod 8 \<noteq> 0" and f: "tail_flag ws False" using assms by (simp_all add: stale_tail_def)
  have n: "length ws = 8 * ?q + length ws mod 8" by simp
  have q: "0 < ?q"
  proof (rule ccontr)
    assume "\<not> 0 < ?q"
    then have "length ws < 8" by simp
    with f show False by (simp add: tail_flag.simps [of ws])
  qed
  let ?xs = "take (8 * (?q - 1)) ws" and ?line = "take 8 (drop (8 * (?q - 1)) ws)"
  have w: "ws = ?xs @ ?line @ ?ys"
  proof -
    have "drop 8 (drop (8 * (?q - 1)) ws) = ?ys" using q by (simp add: algebra_simps)
    then show ?thesis by (metis append_take_drop_id)
  qed
  have "8 * ?q < length ws" using n r by linarith
  then have l: "length ?xs mod 8 = 0" "length ?line = 8" "length ?ys < 8" "0 < length ?ys"
    using n q by (simp_all add: min_def)
  have "list_all (\<lambda>w. w = 0) ?line" using f tail_flag_line [OF l(1-3)] w by metis
  then have "?line = replicate 8 0" using l(2) by (intro replicate_eqI) (auto simp: list_all_iff)
  with w l that show thesis by metis
qed

subsection \<open>The lines before the stale one\<close>

lemma line_step_inv:
  assumes inv: "image_inv c e start s0 dn st" and "c \<Longrightarrow> e" and ev: "even (length dn)" and l: "length line = 8"
    and b: "8 * length (pair64 dn) < 2 ^ 64"
  shows "image_inv c e start s0 (dn @ line) (line_step c e start line st)"
proof (cases "c \<and> list_all (\<lambda>w. w = 0) line")
  case True
  then show ?thesis
    using skip_line_inv [OF inv _ _ ev, of line True] assms(2) l
    by (cases "i_doing_compress st") (simp_all add: line_step_def Let_def)
next
  case False
  let ?z = "list_all (\<lambda>w. w = 0) line"
  let ?st0 = "st\<lparr>i_zero_line := ?z\<rparr>"
  let ?st1 = "if i_doing_compress st \<and> \<not> ?z then end_compress e start ?st0 else ?st0"
  have nz: "i_doing_compress st \<Longrightarrow> \<not> ?z" using inv False by (simp add: image_inv_def)
  have inv0: "image_inv c e start s0 dn ?st0" using inv by (simp add: image_inv_def)
  have ld: "load_items (i_out ?st1) s0 = put_words (pair64 dn) (start, snd s0)"
    using nz inv0 end_compress_load [OF inv0 _ b]
    by (cases "i_doing_compress st") (auto simp: image_inv_def gap_inv_printing)
  have st1: "i_line_pa ?st1 = advance start (length (pair64 dn))" "\<not> i_doing_compress ?st1"
    using nz inv by (auto simp: end_compress_def image_inv_def)
  have "length (pair64 line) = 4" using l by (simp add: length_pair64)
  from print_line_inv [OF ld st1 ev this, of c e] show ?thesis
    unfolding line_step_def Let_def if_not_P [OF False] by (simp split del: if_split)
qed

lemma full_lines_inv:
  "length xs mod 8 = 0 \<Longrightarrow> image_inv c e start s0 dn st \<Longrightarrow> (c \<Longrightarrow> e) \<Longrightarrow> even (length dn) \<Longrightarrow>
   4 * (length dn + length xs) + 4 < 2 ^ 64 \<Longrightarrow> image_inv c e start s0 (dn @ xs) (image_lines c e start xs st)"
proof (induction xs arbitrary: dn st rule: full_induct)
  case (line l xs)
  have "image_inv c e start s0 (dn @ l) (line_step c e start l st)"
    using line.prems line.hyps(1) by (intro line_step_inv) (auto simp: length_pair64)
  from line.IH [OF this line.prems(2)] line.prems line.hyps(1) show ?case
    by (simp add: image_lines_step [of "l @ xs"])
qed simp

subsection \<open>The stale line\<close>

text \<open>
  The words of the last line stand where the run of zeros begins, and the zeros after them.
\<close>

lemma stale_lines_load:
  assumes inv: "image_inv True True start s0 dn st" and ev: "even (length dn)"
    and b: "4 * (length dn + 8 + length ys) + 4 < 2 ^ 64" and ys: "0 < length ys" "length ys < 8"
    and st': "st' = image_lines True True start (replicate 8 0 @ ys) st"
  shows "\<exists>k n. k \<le> length (pair64 dn) \<and> n \<le> length (pair64 dn) + 8 \<and> drop k (pair64 dn) = replicate (length (pair64 dn) - k) 0 \<and>
    load_items (i_out st' @ image_tail True st') s0 =
      put_words (take k (pair64 dn) @ pair64 ys @ replicate n 0) (start, snd s0)"
proof -
  let ?l = "if i_doing_compress st then i_last_addr st else i_line_pa st"
  obtain k where k: "k \<le> length (pair64 dn)" "?l = advance start k"
    "load_items (i_out st) s0 = put_words (take k (pair64 dn)) (start, snd s0)"
    "drop k (pair64 dn) = replicate (length (pair64 dn) - k) 0"
  proof (cases "i_doing_compress st")
    case True
    with inv that show ?thesis by (auto simp: image_inv_def gap_inv_def)
  next
    case False
    with inv that [of "length (pair64 dn)"] show ?thesis by (simp add: image_inv_def gap_inv_def)
  qed
  let ?st1 = "st\<lparr>i_zero_line := True, i_last_addr := ?l, i_doing_compress := True, i_line_pa := i_line_pa st + 32\<rparr>"
  let ?st2 = "?st1\<lparr>i_printed_data := True, i_out := i_out st @ print_pairs False ys\<rparr>"
  have "line_step True True start (replicate 8 0) st = ?st1"
    by (simp add: line_step_def list_all_iff)
  then have "st' = image_lines True True start ys ?st1"
    by (simp add: st' image_lines_step [of "replicate 8 0 @ ys"])
  also have "\<dots> = (if length ys \<le> 6 then ?st2 else ?st2\<lparr>i_line_pa := i_line_pa ?st2 + 32\<rparr>)"
    using ys by (subst image_lines.simps) (auto simp: Let_def)
  finally have s2: "st' = (if length ys \<le> 6 then ?st2 else ?st2\<lparr>i_line_pa := i_line_pa ?st2 + 32\<rparr>)" .
  then have e: "i_out st' = i_out st @ print_pairs False ys" "i_doing_compress st'" by auto
  let ?n = "unat (i_line_pa st' - i_last_addr st') div 8"
  obtain d where d: "d = 4 \<or> d = 8" "i_line_pa st' = i_line_pa st + of_nat (8 * d)" "i_last_addr st' = ?l"
  proof (cases "length ys \<le> 6")
    case True
    with s2 that [of 4] show ?thesis by simp
  next
    case False
    with s2 that [of 8] show ?thesis by simp
  qed
  have "i_line_pa st' - i_last_addr st' = of_nat (8 * (length (pair64 dn) - k + d))"
    using inv k(1) by (simp add: d(2,3) k(2) image_inv_def advance_def of_nat_diff algebra_simps)
  then have "unat (i_line_pa st' - i_last_addr st') = 8 * (length (pair64 dn) - k + d) mod 2 ^ 64"
    by (simp only: unat_of_nat) simp
  then have "unat (i_line_pa st' - i_last_addr st') \<le> 8 * (length (pair64 dn) + 8)"
    using d(1) mod_less_eq_dividend [of "8 * (length (pair64 dn) - k + d)" "2 ^ 64"] by auto
  then have n: "?n \<le> length (pair64 dn) + 8" by simp
  have "load_items (i_out st' @ image_tail True st') s0 =
      put_words (take k (pair64 dn) @ pair64 ys @ replicate ?n 0) (start, snd s0)"
    by (simp add: e image_tail_def k(3) load_print_pairs put_words_append)
  with k(1,4) n show ?thesis by blast
qed

text \<open>So a word of the block that is zero is loaded as one that is not.\<close>

lemma word_cat_0_iff: "(word_cat a b :: u64) = 0 \<longleftrightarrow> a = 0 \<and> b = 0" for a b :: u32
proof
  assume z: "(word_cat a b :: u64) = 0"
  have bits: "bit (word_cat a b :: u64) n \<longleftrightarrow> n < 64 \<and> (if n < 32 then bit b n else bit a (n - 32))" for n
    by (simp add: bit_word_cat_iff)
  have "a = 0"
  proof (rule bit_word_eqI)
    fix n :: nat assume "n < LENGTH(32)"
    then show "bit a n = bit (0 :: u32) n" using bits [of "n + 32"] z by simp
  qed
  moreover have "b = 0"
  proof (rule bit_word_eqI)
    fix n :: nat assume "n < LENGTH(32)"
    then show "bit b n = bit (0 :: u32) n" using bits [of n] z by simp
  qed
  ultimately show "a = 0 \<and> b = 0" by simp
qed (simp add: word_cat_eq)

lemma pair64_nonzero: "w \<in> set ws \<Longrightarrow> w \<noteq> 0 \<Longrightarrow> \<exists>i < length (pair64 ws). pair64 ws ! i \<noteq> 0"
proof (induction ws rule: pair64.induct)
  case (2 a)
  then show ?case by (simp add: word_cat_0_iff)
next
  case (3 a b ws)
  show ?case
  proof (cases "a = 0 \<and> b = 0")
    case True
    with 3 obtain i where "i < length (pair64 ws)" "pair64 ws ! i \<noteq> 0" by auto
    then show ?thesis by (intro exI [of _ "Suc i"]) simp
  next
    case False
    then show ?thesis by (intro exI [of _ 0]) (simp add: word_cat_0_iff)
  qed
qed simp

lemma stale_block_load:
  assumes gen: "block_generate_image True True pa_size scn blk pm = Inr (pm', out)"
    and img: "b_in_image blk \<noteq> 0" and cmp: "b_compress blk \<noteq> 0" and fits: "unat (b_pa blk) < 2 ^ nat pa_size"
    and ws: "ws = block_words scn blk" and stale: "stale_tail ws"
    and w: "w \<in> set (drop (8 * (length ws div 8)) ws)" "w \<noteq> 0"
  shows "\<exists>i x. i < length (pair64 ws) \<and> pair64 ws ! i = 0 \<and> x \<noteq> 0 \<and>
    snd (load_items out s0) (advance (b_pa blk) i) = Some x"
proof -
  let ?pa = "b_pa blk"
  from block_generate_image_InrD [OF gen img] obtain m st' where m: "pa_mask pa_size = Inr m"
    and len: "length ws = unat (b_d_length blk div 4)" "unat (b_d_length blk div 4) < 2 ^ 31"
    and st': "st' = image_lines (b_compress blk \<noteq> 0 \<and> True) True ?pa ws
      \<lparr>i_zero_line = False, i_doing_compress = False, i_printed_data = False,
       i_last_addr = ?pa, i_line_pa = ?pa,
       i_out = [Newline, At (?pa AND m) (''Section '' @ quoted (b_section_name blk) @
         '', segment '' @ quoted (b_segment_name blk))]\<rparr>"
    and out: "out = i_out st' @ image_tail True st'" unfolding ws by blast
  have "nat pa_size < 64" "m = mask (nat pa_size)"
    using m by (auto simp: pa_mask_def mask_eq_exp_minus_1 push_bit_one split: if_splits)
  then have "?pa AND m = ?pa" using fits by (simp add: word_and_mask_id)
  then obtain st0 where st0: "st' = image_lines True True ?pa ws st0" and inv0: "image_inv True True ?pa s0 [] st0"
    using st' cmp by (auto simp: image_inv_def gap_inv_printing)
  obtain xs ys where parts: "ws = xs @ replicate 8 0 @ ys" "length xs mod 8 = 0" "0 < length ys" "length ys < 8"
    "ys = drop (8 * (length ws div 8)) ws"
    using stale by (rule stale_parts)
  have n: "length ws = length xs + 8 + length ys" using parts(1) by (metis length_append length_replicate add.assoc)
  have ev: "even (length xs)" using parts(2) by presburger
  let ?st1 = "image_lines True True ?pa xs st0"
  have inv1: "image_inv True True ?pa s0 xs ?st1"
    using full_lines_inv [OF parts(2) inv0] len n by simp
  have "st' = image_lines True True ?pa (replicate 8 0 @ ys) ?st1"
    unfolding st0 using parts(1) image_lines_append [OF parts(2)] by simp
  from stale_lines_load [OF inv1 ev _ parts(3,4) this] len n
  obtain k z where k: "k \<le> length (pair64 xs)" and z: "z \<le> length (pair64 xs) + 8" and kz: "drop k (pair64 xs) = replicate (length (pair64 xs) - k) 0"
    and ld: "load_items out s0 = put_words (take k (pair64 xs) @ pair64 ys @ replicate z 0) (?pa, snd s0)"
    unfolding out by auto
  let ?vs = "take k (pair64 xs) @ pair64 ys @ replicate z 0"
  obtain j where j: "j < length (pair64 ys)" "pair64 ys ! j \<noteq> 0"
    using pair64_nonzero [OF w(1)] w(2) parts(5) by auto
  have p: "pair64 ws = pair64 xs @ replicate 4 0 @ pair64 ys"
    using parts(1) pair64_append [OF ev] pair64_append [of "replicate (2 * 4) (0 :: u32)" ys] pair64_zeros [of 4]
    by simp
  have j4: "j < 4" using j(1) parts(4) by (simp add: length_pair64)
  have len_vs: "length ?vs \<le> 2 ^ 61" using k z len n parts(4) by (simp add: length_pair64)
  show ?thesis
  proof (intro exI conjI)
    show "k + j < length (pair64 ws)" using k(1) j(1) by (simp add: p)
    show "pair64 ws ! (k + j) = 0"
    proof (cases "k + j < length (pair64 xs)")
      case True
      then have "pair64 xs ! (k + j) = drop k (pair64 xs) ! j" using k(1) by simp
      with True k kz show ?thesis by (simp add: p nth_append)
    next
      case False
      then have "k + j - length (pair64 xs) < 4" using j4 k(1) by simp
      with False show ?thesis by (simp add: p nth_append)
    qed
    show "?vs ! (k + j) \<noteq> 0" using j k(1) by (simp add: nth_append)
    have "snd (load_items out s0) = store64s ?pa ?vs (snd s0)" by (simp add: ld put_words_def)
    then show "snd (load_items out s0) (advance ?pa (k + j)) = Some (?vs ! (k + j))"
      using store64s_inside [OF len_vs, of "k + j" ?pa "snd s0"] j k(1) by simp
  qed
qed

end
