(* ===== verification/Gf_Tsb_Image.thy ===== *)
theory Gf_Tsb_Image
  imports Gf_Tsb_Refine
begin

text \<open>
  The memory image that the output of a table or of a link area describes. Whatever rows
  of zeros are suppressed, the environment that understands \<^verbatim>\<open>zero_bytes\<close> loads the
  entries of the table, word after word, from its start address on.
\<close>

definition flat :: "('e \<Rightarrow> u64 \<times> u64) \<Rightarrow> 'e list \<Rightarrow> u64 list" where
  "flat row es = concat (map (\<lambda>e. [fst (row e), snd (row e)]) es)"

lemma length_flat: "length (flat row es) = 2 * length es"
  by (induction es) (simp_all add: flat_def)

lemma flat_simps [simp]:
  "flat row [] = []"
  "flat row (e # es) = fst (row e) # snd (row e) # flat row es"
  "flat row (xs @ ys) = flat row xs @ flat row ys"
  by (simp_all add: flat_def)

definition rows_inv ::
  "bool \<Rightarrow> addr_t \<Rightarrow> ('e \<Rightarrow> u64 \<times> u64) \<Rightarrow> addr_t \<times> memory \<Rightarrow> 'e list \<Rightarrow> write_state \<Rightarrow> bool" where
  "rows_inv env start row s0 dn st \<longleftrightarrow>
    gap_inv env (w_skip st) (w_last_addr st) (w_out st) start (flat row dn) s0"

lemma advance_16: "start + of_nat (16 * i) = advance start (2 * i)"
  by (simp add: advance_def)

lemma close_gap_load:
  assumes inv: "rows_inv env start row s0 dn st" and skip: "w_skip st" and b: "16 * length dn < 2 ^ 64"
  shows "load_items (w_out st @ close_gap env start (advance start (2 * length dn)) st) s0 =
    put_words (flat row dn) (start, snd s0)"
proof -
  have inv': "gap_inv env True (w_last_addr st) (w_out st) start (flat row dn) s0"
    using inv skip by (simp add: rows_inv_def)
  then have env by (simp add: gap_inv_def)
  define pre where "pre = (if w_printed_data st then [Newline, At (w_last_addr st) (from_compressed start)] else [])"
  have "load_items (w_out st @ pre @ [ZeroBytes (advance start (length (flat row dn)) - w_last_addr st)]) s0 =
      put_words (flat row dn) (start, snd s0)"
    using b by (intro gap_flush [OF inv']) (auto simp: length_flat pre_def)
  then show ?thesis using \<open>env\<close> by (simp only: close_gap_def length_flat pre_def if_True)
qed

lemma write_row_inv:
  assumes inv: "rows_inv env start row s0 dn st" and b: "16 * length dn < 2 ^ 64"
    and env: "supp \<Longrightarrow> env" and zero: "zero \<Longrightarrow> row e0 = (0, 0) \<and> row e1 = (0, 0)"
  shows "rows_inv env start row s0 (dn @ [e0, e1])
    (write_row supp env start (advance start (2 * length dn)) zero
      (Quad (fst (row e0)) (snd (row e0)) (fst (row e1)) (snd (row e1))) st)"
proof (cases "supp \<and> zero")
  case True
  then have "flat row (dn @ [e0, e1]) = flat row dn @ replicate 4 0"
    using zero by (simp add: numeral_eq_Suc)
  with True env gap_zeros [OF inv [unfolded rows_inv_def], of 4] show ?thesis
    by (cases "w_skip st") (simp_all add: rows_inv_def write_row_def length_flat)
next
  case no: False
  have "load_items (w_out st @
      (if w_skip st then close_gap env start (advance start (2 * length dn)) st @
         [At (advance start (2 * length dn)) c] else [])) s0 = put_words (flat row dn) (start, snd s0)" for c
  proof (cases "w_skip st")
    case True
    from load_marker [OF close_gap_load [OF inv True b]] True show ?thesis by (simp add: length_flat)
  next
    case False
    with inv show ?thesis by (simp add: rows_inv_def gap_inv_printing)
  qed
  note ld = gap_words [OF this, of "[Quad (fst (row e0)) (snd (row e0)) (fst (row e1)) (snd (row e1))]"
      "[fst (row e0), snd (row e0), fst (row e1), snd (row e1)]"]
  show ?thesis
    using ld by (simp add: rows_inv_def write_row_def if_not_P [OF no])
qed

lemma write_rows_inv:
  assumes "rows_inv env start row s0 dn st" and "16 * (length dn + length es) < 2 ^ 64"
    and "supp \<Longrightarrow> env" and "\<And>e. zero e \<Longrightarrow> row e = (0, 0)" and "even (length es)"
  shows "\<exists>st'. write_rows supp env start zero row es (length dn) st = Inr st' \<and>
    rows_inv env start row s0 (dn @ es) st'"
  using assms
proof (induction supp env start zero row es "length dn" st arbitrary: dn rule: write_rows.induct)
  case (3 supp env start zero row e0 e1 es st)
  have "rows_inv env start row s0 (dn @ [e0, e1])
    (write_row supp env start (advance start (2 * length dn)) (zero e0 \<and> zero e1)
      (Quad (fst (row e0)) (snd (row e0)) (fst (row e1)) (snd (row e1))) st)"
    using "3.prems" by (intro write_row_inv) auto
  note inv = this [folded advance_16]
  have len: "length dn + 2 = length (dn @ [e0, e1])" by simp
  from "3.hyps" [OF len inv] "3.prems" show ?case by simp
qed simp_all


lemma write_table_image:
  assumes w: "write_table supp env kind zero row t pm = Inr (pm', out)"
    and b: "16 * unat (t_num_entries t) < 2 ^ 64" and ev: "even (unat (t_num_entries t))"
    and env: "supp \<Longrightarrow> env" and zero: "\<And>e. e \<in> set (t_entries t) \<Longrightarrow> zero e \<Longrightarrow> row e = (0, 0)"
  shows "load_items out s0 =
    put_words (flat row (take (unat (t_num_entries t)) (t_entries t))) (t_start_addr t, snd s0)"
proof -
  let ?n = "unat (t_num_entries t)" and ?start = "t_start_addr t"
  let ?es = "take ?n (t_entries t)"
  let ?st = "\<lparr>w_skip = False, w_printed_data = False, w_last_addr = ?start,
    w_out = [At ?start (kind @ '' '' @ quoted (t_name t))]\<rparr>"
  obtain st' where r: "write_rows supp env ?start zero row ?es 0 ?st = Inr st'"
    and n: "?n \<le> length (t_entries t)"
    and out: "out = w_out st' @ (if w_skip st'
       then close_gap env ?start (?start + of_nat (16 * ?n)) st' else []) @ [Newline]"
    using w by (auto simp: write_table_def gf_res)
  let ?zero = "\<lambda>e. zero e \<and> row e = (0, 0)"
  have eq: "write_rows supp env start zero row es i st = write_rows supp env start ?zero row es i st"
    if "set es \<subseteq> set (t_entries t)" for start es i st
    using that
  proof (induction es arbitrary: i st rule: induct_list012)
    case (3 e0 e1 es)
    have "(zero e0 \<and> zero e1) = (?zero e0 \<and> ?zero e1)" using "3.prems" zero by auto
    with "3.IH"(1) "3.prems" show ?case by (simp only: write_rows.simps) simp
  qed simp_all
  have len: "length ?es = ?n" using n by simp
  have i0: "rows_inv env ?start row s0 [] ?st" by (simp add: rows_inv_def gap_inv_printing)
  have "\<exists>st'. write_rows supp env ?start ?zero row ?es (length ([] :: 'a list)) ?st = Inr st' \<and>
      rows_inv env ?start row s0 ([] @ ?es) st'"
    using b ev len env by (intro write_rows_inv [OF i0]) simp_all
  with r eq [of ?es ?start 0 ?st] have inv: "rows_inv env ?start row s0 ?es st'"
    using set_take_subset [of ?n "t_entries t"] by auto
  have "load_items (w_out st' @ (if w_skip st'
       then close_gap env ?start (?start + of_nat (16 * ?n)) st' else [])) s0 = put_words (flat row ?es) (?start, snd s0)"
  proof (cases "w_skip st'")
    case True
    then show ?thesis using close_gap_load [OF inv True, unfolded len, OF b]
      by (simp only: advance_16 if_True)
  next
    case False
    with inv show ?thesis by (simp add: rows_inv_def gap_inv_printing)
  qed
  then show ?thesis by (simp add: out)
qed

text \<open>The two kinds of tables. A TSBCSM row shows the clump number, not the data.\<close>

lemma write_tsb_image:
  assumes "write_tsb supp env t pm = Inr (pm', out)"
    and "16 * unat (t_num_entries t) < 2 ^ 64" and "even (unat (t_num_entries t))" and "supp \<Longrightarrow> env"
  shows "snd (load_items out s0) = store64s (t_start_addr t)
    (flat (\<lambda>e. (te_tag e, te_data e)) (take (unat (t_num_entries t)) (t_entries t))) (snd s0)"
proof -
  have "load_items out s0 = put_words (flat (\<lambda>e. (te_tag e, te_data e))
      (take (unat (t_num_entries t)) (t_entries t))) (t_start_addr t, snd s0)"
    by (rule write_table_image [OF assms(1) [unfolded write_tsb_def] assms(2-4)]) simp_all
  then show ?thesis by (simp add: put_words_def)
qed

lemma write_tsbcsm_image:
  assumes "write_tsbcsm supp env t pm = Inr (pm', out)"
    and "16 * unat (t_num_entries t) < 2 ^ 64" and "even (unat (t_num_entries t))" and "supp \<Longrightarrow> env"
    and "\<And>e. e \<in> set (t_entries t) \<Longrightarrow> ce_vacant e \<Longrightarrow> ce_clump_num e = 0"
  shows "snd (load_items out s0) = store64s (t_start_addr t)
    (flat (\<lambda>e. (ce_tag e, ce_clump_num e)) (take (unat (t_num_entries t)) (t_entries t))) (snd s0)"
proof -
  have z: "e \<in> set (t_entries t) \<Longrightarrow> ce_tag e = 0 \<and> ce_data e = 0 \<Longrightarrow> (ce_tag e, ce_clump_num e) = (0, 0)" for e
    using assms(5) by (auto simp: ce_vacant_def)
  have "load_items out s0 = put_words (flat (\<lambda>e. (ce_tag e, ce_clump_num e))
      (take (unat (t_num_entries t)) (t_entries t))) (t_start_addr t, snd s0)"
    by (rule write_table_image [OF assms(1) [unfolded write_tsbcsm_def] assms(2-4)], assumption, rule z)
  then show ?thesis by (simp add: put_words_def)
qed

text \<open>A link area is written node after node: tag, payload, and twice the link.\<close>

lemma load_quads:
  "load_items (map (\<lambda>e. Quad (f e) (g e) (h e) (h e)) es) s =
   put_words (concat (map (\<lambda>e. [f e, g e, h e, h e]) es)) s"
proof (induction es arbitrary: s)
  case (Cons e es)
  have "put_words (concat (map (\<lambda>e. [f e, g e, h e, h e]) (e # es))) s =
    put_words (concat (map (\<lambda>e. [f e, g e, h e, h e]) es)) (put_words [f e, g e, h e, h e] s)"
    by (simp add: put_words_append [symmetric])
  with Cons.IH show ?case by simp
qed simp

lemma write_tsb_link_image:
  assumes "write_tsb_link l pm = Inr (pm', out)"
  shows "snd (load_items out s0) = store64s (tl_start_addr l)
    (concat (map (\<lambda>e. [le_tag e, le_data e, le_link e, le_link e]) (nodes l))) (snd s0)"
proof -
  have "\<exists>c. out = At (tl_start_addr l) c # map (\<lambda>e. Quad (le_tag e) (le_data e) (le_link e) (le_link e)) (nodes l)"
    using assms unfolding write_tsb_link_def write_tsb_link_entry_def
    by (elim res_bindE) auto
  then show ?thesis by (auto simp: load_quads put_words_def)
qed

lemma write_tsbcsm_link_image:
  assumes "write_tsbcsm_link l pm = Inr (pm', out)"
  shows "snd (load_items out s0) = store64s (tl_start_addr l)
    (concat (map (\<lambda>e. [cl_tag e, cl_clump_num e, cl_link e, cl_link e]) (nodes l))) (snd s0)"
proof -
  have "\<exists>c. out = At (tl_start_addr l) c # map (\<lambda>e. Quad (cl_tag e) (cl_clump_num e) (cl_link e) (cl_link e)) (nodes l)"
    using assms unfolding write_tsbcsm_link_def write_tsbcsm_link_entry_def
    by (elim res_bindE) auto
  then show ?thesis by (auto simp: load_quads put_words_def)
qed

end
