(* ===== verification/Gf_Goldfinger.thy ===== *)
theory Gf_Goldfinger
  imports Gf_Parser_Inv Gf_Block_Image Gf_Tsb_Image
begin

text \<open>
  The program of \<^verbatim>\<open>goldfinger.c\<close> for linked executables: the command line, and the run
  that parses a description, reads the ELF files and writes the image, the TSBs and the
  symbol table. The parser that yacc generates, libelf and the file system are the
  argument \<open>environment\<close>. What the program prints to show its progress is not modelled.
\<close>

subsection \<open>The command line\<close>

record cmdline_args =
  c_in :: "string option"
  c_splitsec :: "string option"
  c_destdir :: "string option"
  c_srcdir :: "string option"
  c_imagefile :: "string option"
  c_symtabfile :: "string option"
  c_midasfile :: "string option"
  c_genimage :: bool
  c_gensymtab :: bool
  c_gentsbs :: bool
  c_debug :: bool
  c_nooutput :: bool

text \<open>The global variables that the command line sets.\<close>

record options =
  o_Prefix :: string
  o_Disable_error :: bool
  o_Suppress_dup_tags_error :: bool
  o_Verbose :: int
  o_Suppress_zero :: bool
  o_Compress :: bool
  o_EnvZero :: bool
  o_Allow_tsb_conflicts :: bool

definition default_args :: cmdline_args where
  "default_args =
    \<lparr>c_in = None, c_splitsec = None, c_destdir = None, c_srcdir = None, c_imagefile = None,
     c_symtabfile = None, c_midasfile = None, c_genimage = False, c_gensymtab = False,
     c_gentsbs = False, c_debug = False, c_nooutput = False\<rparr>"

definition default_options :: options where
  "default_options =
    \<lparr>o_Prefix = [], o_Disable_error = False, o_Suppress_dup_tags_error = False, o_Verbose = 1,
     o_Suppress_zero = True, o_Compress = True, o_EnvZero = True, o_Allow_tsb_conflicts = False\<rparr>"

definition VERBOSE_CHATTY :: int where "VERBOSE_CHATTY = 2"

text \<open>An option without argument; \<^verbatim>\<open>-version\<close> and \<^verbatim>\<open>-help\<close> end the program.\<close>

definition set_flag :: "string \<Rightarrow> cmdline_args \<times> options \<Rightarrow> (cmdline_args \<times> options) res" where
  "set_flag a s =
    (case s of (args, opts) \<Rightarrow>
     if a = ''-noprint_errors'' \<or> a = ''-NOPRINT_ERRORS''
       then Inr (args, opts\<lparr>o_Disable_error := True\<rparr>)
     else if a = ''-allow_duplicate_tags''
       then Inr (args, opts\<lparr>o_Suppress_dup_tags_error := True\<rparr>)
     else if a = ''-gentsbs'' then Inr (args\<lparr>c_gentsbs := True\<rparr>, opts)
     else if a = ''-genimage'' then Inr (args\<lparr>c_genimage := True\<rparr>, opts)
     else if a = ''-gensymtab'' then Inr (args\<lparr>c_gensymtab := True\<rparr>, opts)
     else if a = ''-debug'' \<or> a = ''-d''
       then Inr (args\<lparr>c_debug := True\<rparr>, opts\<lparr>o_Verbose := set_verbose_level VERBOSE_DEBUG\<rparr>)
     else if a = ''-verbose'' \<or> a = ''-v''
       then Inr (args, opts\<lparr>o_Verbose := set_verbose_level VERBOSE_CHATTY\<rparr>)
     else if a = ''-silent''
       then Inr (args, opts\<lparr>o_Verbose := set_verbose_level VERBOSE_SILENT\<rparr>)
     else if a = ''-version'' then Inl (Exit M_NOERROR)
     else if a = ''-nocompress''
       then Inr (args, opts\<lparr>o_Suppress_zero := False, o_Compress := False\<rparr>)
     else if a = ''-noenvzero'' then Inr (args, opts\<lparr>o_EnvZero := False\<rparr>)
     else if a = ''-allow_tsb_conflicts''
       then Inr (args, opts\<lparr>o_Allow_tsb_conflicts := True\<rparr>)
     else if a = ''-nooutput'' \<or> a = ''-n'' then Inr (args\<lparr>c_nooutput := True\<rparr>, opts)
     else if a = ''-help'' \<or> a = ''-h'' then Inl (Exit M_NOERROR)
     else Inl (Exit M_GOLDFINGERARG))"

text \<open>An option that takes the next word.\<close>

definition set_word ::
  "string \<Rightarrow> (string \<Rightarrow> cmdline_args \<times> options \<Rightarrow> cmdline_args \<times> options) option" where
  "set_word a =
    (if a = ''-destdir'' then Some (\<lambda>x (args, opts). (args\<lparr>c_destdir := Some x\<rparr>, opts))
     else if a = ''-srcdir'' then Some (\<lambda>x (args, opts). (args\<lparr>c_srcdir := Some x\<rparr>, opts))
     else if a = ''-in'' then Some (\<lambda>x (args, opts). (args\<lparr>c_in := Some x\<rparr>, opts))
     else if a = ''-imagefile'' then Some (\<lambda>x (args, opts). (args\<lparr>c_imagefile := Some x\<rparr>, opts))
     else if a = ''-symtabfile'' then Some (\<lambda>x (args, opts). (args\<lparr>c_symtabfile := Some x\<rparr>, opts))
     else if a = ''-prefix'' then Some (\<lambda>x (args, opts). (args, opts\<lparr>o_Prefix := x\<rparr>))
     else if a = ''-splitsec'' then Some (\<lambda>x (args, opts). (args\<lparr>c_splitsec := Some x\<rparr>, opts))
     else if a = ''-midasfile'' then Some (\<lambda>x (args, opts). (args\<lparr>c_midasfile := Some x\<rparr>, opts))
     else None)"

fun cmdline_loop :: "string list \<Rightarrow> cmdline_args \<times> options \<Rightarrow> (cmdline_args \<times> options) res" where
  "cmdline_loop [] s = Inr s"
| "cmdline_loop [a] s =
    (case set_word a of Some _ \<Rightarrow> Inl (Exit M_GOLDFINGERARG) | None \<Rightarrow> set_flag a s)"
| "cmdline_loop (a # x # rest) s =
    (case set_word a of
       Some f \<Rightarrow> cmdline_loop rest (f x s)
     | None \<Rightarrow> res_bind (set_flag a s) (cmdline_loop (x # rest)))"

text \<open>The words after the name of the program.\<close>

definition process_cmdline :: "string list \<Rightarrow> options \<Rightarrow> (cmdline_args \<times> options) res" where
  "process_cmdline argv opts = cmdline_loop argv (default_args, opts)"

subsection \<open>The rest of the initialisation\<close>

text \<open>There is nothing to finish for the link areas.\<close>

definition finish_image_file_init :: "gf_state \<Rightarrow> gf_state res" where
  "finish_image_file_init g =
    res_bind (finish_app_init (Tsb_vector (g_tsbs g)) (Tsb_vector (g_tsbcsms g)) (g_apps g)) (\<lambda>apps.
    res_bind (finish_tsb_init (Link_vector (g_tsb_links g)) (g_tsbs g)) (\<lambda>tsbs.
    res_bind (finish_tsbcsm_init (Link_vector (g_tsbcsm_links g)) (g_tsbcsms g)) (\<lambda>csms.
    Inr (g\<lparr>g_apps := apps, g_tsbs := tsbs, g_tsbcsms := csms\<rparr>))))"

record environment =
  e_open_read :: "string \<Rightarrow> bool"       \<comment> \<open>\<^verbatim>\<open>fopen\<close> for reading succeeds\<close>
  e_chdir :: "string \<Rightarrow> bool"
  e_open_write :: "string \<Rightarrow> bool"
  e_actions :: "string \<Rightarrow> action list"  \<comment> \<open>the actions that \<^verbatim>\<open>yyparse\<close> calls for an input\<close>
  e_syntax_ok :: "string \<Rightarrow> bool"       \<comment> \<open>it reaches the end of the input\<close>
  e_elf :: "string \<Rightarrow> elf_section list option"

definition require_file :: "bool \<Rightarrow> unit res" where
  "require_file ok = (if ok then Inr () else Inl (Exit M_FILE))"

text \<open>A syntax error ends the program after the actions that came before it.\<close>

definition yyparse :: "environment \<Rightarrow> string \<Rightarrow> gf_state \<Rightarrow> gf_state res" where
  "yyparse env infile g =
    res_bind (run_actions (e_actions env infile) g) (\<lambda>g'.
      if e_syntax_ok env infile then Inr g' else Inl (Exit M_GOLDFINGERPARSE))"

subsection \<open>Writing the TSBs\<close>

definition MMU_header :: "item list" where
  "MMU_header = [Newline, Newline, Comment ''MMU IMAGE'', Newline]"

text \<open>The additions to the tables, then the four kinds of output.\<close>

definition gen_tsbs :: "options \<Rightarrow> gf_state \<times> item list \<Rightarrow> (gf_state \<times> item list) res" where
  "gen_tsbs opts s =
    (case s of (g, out) \<Rightarrow>
     let allow = o_Allow_tsb_conflicts opts; supp = o_Suppress_zero opts; env = o_EnvZero opts;
         apps = App_vector (g_apps g)
     in res_bind (add_apps_to_tsbs allow apps (Tsb_vector (g_tsbs g), Link_vector (g_tsb_links g)))
          (\<lambda>(tsbs, links).
        res_bind (add_apps_to_tsbcsms allow tsbs apps
            (Tsb_vector (g_tsbcsms g), Link_vector (g_tsbcsm_links g))) (\<lambda>(csms, csm_links).
        let lst = (g_tsb_links g)\<lparr>Link_vector := links\<rparr>;
            clst = (g_tsbcsm_links g)\<lparr>Link_vector := csm_links\<rparr>
        in res_bind (write_tsbs supp env tsbs (g_Physmap g, out @ MMU_header)) (\<lambda>s1.
           res_bind (write_tsb_links lst s1) (\<lambda>s2.
           res_bind (write_tsbcsms supp env csms s2) (\<lambda>s3.
           res_bind (write_tsbcsm_links clst s3) (\<lambda>(pm, out').
           Inr (g\<lparr>g_Physmap := pm, g_tsbs := (g_tsbs g)\<lparr>Tsb_vector := tsbs\<rparr>, g_tsb_links := lst,
                  g_tsbcsms := (g_tsbcsms g)\<lparr>Tsb_vector := csms\<rparr>, g_tsbcsm_links := clst\<rparr>, out'))))))))"

subsection \<open>A run\<close>

text \<open>
  The result is the final state, what was written to the image file, and the symbol table
  if one was asked for.
\<close>

definition process_goldfinger_file ::
  "environment \<Rightarrow> options \<Rightarrow> cmdline_args \<Rightarrow> string \<Rightarrow> gf_state
    \<Rightarrow> (gf_state \<times> item list \<times> string option) res" where
  "process_goldfinger_file env opts args infile g0 =
    res_bind (require_file (infile = ''-'' \<or> e_open_read env infile)) (\<lambda>_.
    res_bind (require_file (case c_srcdir args of None \<Rightarrow> True | Some d \<Rightarrow> e_chdir env d)) (\<lambda>_.
    res_bind (yyparse env infile (init_image_file_data_structures g0)) (\<lambda>g1.
    res_bind (finish_image_file_init g1) (\<lambda>g2.
    res_bind (require_file (case c_imagefile args of None \<Rightarrow> True | Some f \<Rightarrow> e_open_write env f)) (\<lambda>_.
    res_bind (process_app_elf_files (e_elf env) (o_Compress opts) (o_EnvZero opts) (g_Pa_size g2)
        (c_genimage args) (g_apps g2, g_Physmap g2, [])) (\<lambda>(apps, pm, out).
    let g3 = g2\<lparr>g_apps := apps, g_Physmap := pm\<rparr>
    in res_bind (if c_gentsbs args then gen_tsbs opts (g3, out) else Inr (g3, out)) (\<lambda>(g4, out').
       res_bind
         (if c_gensymtab args then
            res_bind (require_file (case c_symtabfile args of None \<Rightarrow> True | Some f \<Rightarrow> e_open_write env f)) (\<lambda>_.
            res_bind (print_symtab (g_Pa_size g4) (App_vector (g_apps g4)) []) (\<lambda>str. Inr (Some str)))
          else Inr None) (\<lambda>sym.
       Inr (g4, out', sym)))))))))"

end
