(* ===== verification/Gf_Csm_Pages.thy ===== *)
theory Gf_Csm_Pages
  imports Gf_App_Refine
begin

text \<open>
  The pages of all blocks in the TSBCSMs. A BLOCK_TSBCSM is paired with the BLOCK_TSB at the
  same position of its block, which gives the addresses and, through its TSB, the index; the
  pair that is stored is the tag and the clump number.
\<close>

definition csm_pages ::
  "u64 list \<Rightarrow> nat \<Rightarrow> nat \<Rightarrow> block \<Rightarrow> block_tsbcsm \<times> block_tsb \<Rightarrow> (u64 \<times> u64) list" where
  "csm_pages sz q j blk x =
    (case bt_tsb (snd x) of
       None \<Rightarrow> []
     | Some p \<Rightarrow>
        if bc_tsbcsm (fst x) = Some q then
          (case page_geometry blk (snd x) (sz ! p) of
             Inl _ \<Rightarrow> []
           | Inr g \<Rightarrow> map (\<lambda>k. (page_tag g k, bc_clump_num (fst x)))
               (slot_pages g [0..<unat (g_num_pages g)] j))
        else [])"

definition csm_block_pages :: "u64 list \<Rightarrow> nat \<Rightarrow> nat \<Rightarrow> block \<Rightarrow> (u64 \<times> u64) list" where
  "csm_block_pages sz q j blk =
    concat (map (csm_pages sz q j blk) (zip (elements (b_tsbcsms blk)) (elements (b_tsbs blk))))"

definition csm_app_pages :: "u64 list \<Rightarrow> nat \<Rightarrow> nat \<Rightarrow> app \<Rightarrow> (u64 \<times> u64) list" where
  "csm_app_pages sz q j a = concat (map (csm_block_pages sz q j) (elements (a_blocks a)))"

lemma sizes_nth: "vector_elem v (int p) = Inr t \<Longrightarrow> sizes v ! p = get_tsb_size_bits t"
  by (auto simp: sizes_def get_tsb_size_bits_def vector_elem_def VECTOR_LEN_def split: if_splits)

lemma add_block_tsbcsm_pages:
  assumes "add_block_tsbcsm_to_tsbcsm va_of allow tsbs blk bc bt bref btref hp = Inr hp'"
    and "csm_heap_wf hp" and "proper_pages (sizes tsbs) blk bt"
  shows "csm_heap_wf hp' \<and>
    (\<forall>q j. csm_bucket hp' q j = csm_bucket hp q j @ csm_pages (sizes tsbs) q j blk (bc, bt))"
proof -
  obtain q t g p where q: "bt_tsb bt = Some q" and t: "vector_elem tsbs (int q) = Inr t"
    and g: "page_geometry blk bt (get_tsb_size_bits t) = Inr g" and p: "bc_tsbcsm bc = Some p"
    and f: "res_fold (\<lambda>k hp. res_bind (page_index g k) (\<lambda>index.
            add_entry_csm va_of allow p index (page_tag g k) (page_data g k) (bc_clump_num bc)
              (Some bref) (Some btref) hp))
          [0..<unat (g_num_pages g)] hp = Inr hp'"
    using assms(1) by (auto simp: add_block_tsbcsm_to_tsbcsm_def gf_res split: option.splits)
  note g' = g [folded sizes_nth [OF t]]
  have "\<And>k. k \<in> set [0..<unat (g_num_pages g)] \<Longrightarrow>
      page_tag g k \<noteq> TSB_LINK_TAG \<and> (page_tag g k \<noteq> 0 \<or> page_data g k \<noteq> 0)"
    using assms(3) q g' by (auto simp: proper_pages_def)
  from add_csm_pages [OF f assms(2) this] show ?thesis
    by (auto simp: csm_pages_def q p g')
qed

lemma csm_fold_appends:
  assumes "res_fold f xs hp = Inr hp'" and "csm_heap_wf hp"
    and "\<And>x hp hp'. x \<in> set xs \<Longrightarrow> f x hp = Inr hp' \<Longrightarrow> csm_heap_wf hp \<Longrightarrow>
      csm_heap_wf hp' \<and> (\<forall>q j. csm_bucket hp' q j = csm_bucket hp q j @ c q j x)"
  shows "csm_heap_wf hp' \<and> (\<forall>q j. csm_bucket hp' q j = csm_bucket hp q j @ concat (map (c q j) xs))"
  using res_fold_appends [where I = csm_heap_wf and B = csm_bucket and c = c, OF assms] .

lemma iter_cells2_zip:
  "iter_cells2 f xs ys s = Inr s' \<Longrightarrow> res_fold (\<lambda>(x, y). f x y) (zip xs ys) s = Inr s'"
  by (induction f xs ys s rule: iter_cells2.induct) (auto simp: gf_res)

lemma map_zip_enumerate:
  "map (\<lambda>((i, x), y). c (x, y)) (zip (enumerate n xs) ys) = map c (zip xs ys)"
  by (induction xs ys arbitrary: n rule: list_induct2') simp_all

lemma block_add_csm_pages:
  assumes "block_add_to_tsbcsms va_of allow tsbs bref blk hp = Inr hp'" and "csm_heap_wf hp"
    and "\<forall>bt \<in> set (elements (b_tsbs blk)). proper_pages (sizes tsbs) blk bt"
  shows "csm_heap_wf hp' \<and>
    (\<forall>q j. csm_bucket hp' q j = csm_bucket hp q j @ csm_block_pages (sizes tsbs) q j blk)"
proof -
  have "csm_heap_wf hp' \<and> (\<forall>q j. csm_bucket hp' q j = csm_bucket hp q j @
      concat (map (\<lambda>((i, bc), bt). csm_pages (sizes tsbs) q j blk (bc, bt))
        (zip (enumerate 0 (elements (b_tsbcsms blk))) (elements (b_tsbs blk)))))"
  proof (rule csm_fold_appends [OF iter_cells2_zip [OF assms(1) [unfolded block_add_to_tsbcsms_def]] assms(2)])
    fix x and h h' :: tsbcsm_heap
    assume x: "x \<in> set (zip (enumerate 0 (elements (b_tsbcsms blk))) (elements (b_tsbs blk)))"
      and a: "(\<lambda>(x, y). (\<lambda>(i, bc) bt. add_block_tsbcsm_to_tsbcsm va_of allow tsbs blk bc bt bref
        (fst bref, snd bref, i)) x y) x h = Inr h'" and w: "csm_heap_wf h"
    obtain i bc bt where e: "x = ((i, bc), bt)" by (metis surj_pair)
    with x have "proper_pages (sizes tsbs) blk bt" using assms(3) by (auto dest: set_zip_rightD)
    with a w add_block_tsbcsm_pages [of va_of allow tsbs blk bc bt bref "(fst bref, snd bref, i)" h h'] e
    show "csm_heap_wf h' \<and> (\<forall>q j. csm_bucket h' q j = csm_bucket h q j @
      (\<lambda>((i, bc), bt). csm_pages (sizes tsbs) q j blk (bc, bt)) x)"
      by simp
  qed
  then show ?thesis by (simp add: csm_block_pages_def map_zip_enumerate)
qed

lemma app_add_csm_pages:
  assumes "app_add_to_tsbcsms va_of allow tsbs n a hp = Inr hp'" and "csm_heap_wf hp"
    and "proper_app (sizes tsbs) a"
  shows "csm_heap_wf hp' \<and>
    (\<forall>q j. csm_bucket hp' q j = csm_bucket hp q j @ csm_app_pages (sizes tsbs) q j a)"
proof -
  have "csm_heap_wf hp' \<and> (\<forall>q j. csm_bucket hp' q j = csm_bucket hp q j @
      concat (map (\<lambda>(i, blk). csm_block_pages (sizes tsbs) q j blk) (enumerate 0 (elements (a_blocks a)))))"
  proof (rule csm_fold_appends [OF assms(1) [unfolded app_add_to_tsbcsms_def] assms(2)])
    fix x and h h' :: tsbcsm_heap
    assume "x \<in> set (enumerate 0 (elements (a_blocks a)))"
      and a: "(\<lambda>(i, blk). block_add_to_tsbcsms va_of allow tsbs (n, i) blk) x h = Inr h'"
      and w: "csm_heap_wf h"
    then have "\<forall>bt \<in> set (elements (b_tsbs (snd x))). proper_pages (sizes tsbs) (snd x) bt"
      using assms(3) by (auto simp: proper_app_def dest: in_set_enumerateD)
    with a w block_add_csm_pages [of va_of allow tsbs "(n, fst x)" "snd x" h h']
    show "csm_heap_wf h' \<and> (\<forall>q j. csm_bucket h' q j = csm_bucket h q j @
      (\<lambda>(i, blk). csm_block_pages (sizes tsbs) q j blk) x)"
      by (simp add: case_prod_beta)
  qed
  then show ?thesis by (simp add: csm_app_pages_def map_snd_enumerate)
qed

lemma apps_add_csm_pages:
  assumes "add_apps_to_tsbcsms allow tsbs apps hp = Inr hp'" and "csm_heap_wf hp"
    and "\<forall>a \<in> set (elements apps). proper_app (sizes tsbs) a"
  shows "csm_heap_wf hp' \<and>
    (\<forall>q j. csm_bucket hp' q j = csm_bucket hp q j @ concat (map (csm_app_pages (sizes tsbs) q j) (elements apps)))"
proof -
  have "csm_heap_wf hp' \<and> (\<forall>q j. csm_bucket hp' q j = csm_bucket hp q j @
      concat (map (\<lambda>(i, a). csm_app_pages (sizes tsbs) q j a) (enumerate 0 (elements apps))))"
  proof (rule csm_fold_appends [OF assms(1) [unfolded add_apps_to_tsbcsms_def] assms(2)])
    fix x and h h' :: tsbcsm_heap
    assume "x \<in> set (enumerate 0 (elements apps))"
      and a: "(\<lambda>(n, a). app_add_to_tsbcsms (csmtag2va_at apps) allow tsbs n a) x h = Inr h'"
      and w: "csm_heap_wf h"
    then have "proper_app (sizes tsbs) (snd x)"
      using assms(3) by (auto dest: in_set_enumerateD)
    with a w app_add_csm_pages [of "csmtag2va_at apps" allow tsbs "fst x" "snd x" h h']
    show "csm_heap_wf h' \<and> (\<forall>q j. csm_bucket h' q j = csm_bucket h q j @
      (\<lambda>(i, a). csm_app_pages (sizes tsbs) q j a) x)"
      by (simp add: case_prod_beta)
  qed
  then show ?thesis by (simp add: map_snd_enumerate)
qed

end
