(* ===== verification/Gf_Run.thy ===== *)
theory Gf_Run
  imports Gf_Goldfinger Gf_Csm_Pages
begin

text \<open>
  Facts on a whole run: the physical map stays well formed, the tables are empty before
  the blocks are added, and afterwards hold the pages of all blocks.
\<close>

subsection \<open>The command line\<close>

definition opts_inv :: "options \<Rightarrow> bool" where
  "opts_inv opts \<longleftrightarrow> o_Suppress_zero opts = o_Compress opts \<and> 0 \<le> o_Verbose opts \<and> o_Verbose opts \<le> 3"

text \<open>Every branch of a chain of conditionals is looked at without its conditions.\<close>

definition all_opts :: "(cmdline_args \<times> options) res \<Rightarrow> bool" where
  "all_opts r \<longleftrightarrow> (\<forall>args opts. r = Inr (args, opts) \<longrightarrow> opts_inv opts)"

lemma all_opts_if: "all_opts x \<Longrightarrow> all_opts y \<Longrightarrow> all_opts (if c then x else y)"
  by simp

lemma all_opts_set_flag:
  assumes "opts_inv opts"
  shows "all_opts (set_flag a (args, opts))"
  unfolding set_flag_def prod.case
  by (intro all_opts_if)
    (use assms in \<open>simp_all add: all_opts_def opts_inv_def set_verbose_level_def VERBOSE_SILENT_def
      VERBOSE_DEBUG_def VERBOSE_CHATTY_def\<close>)

lemma set_flag_inv:
  "set_flag a (args, opts) = Inr (args', opts') \<Longrightarrow> opts_inv opts \<Longrightarrow> opts_inv opts'"
  using all_opts_set_flag [of opts a args] by (simp add: all_opts_def)

lemma set_word_inv:
  "set_word a = Some f \<Longrightarrow> f x (args, opts) = (args', opts') \<Longrightarrow>
   o_Suppress_zero opts' = o_Suppress_zero opts \<and> o_Compress opts' = o_Compress opts \<and>
   o_Verbose opts' = o_Verbose opts"
  by (auto simp: set_word_def split: if_splits)

lemma cmdline_loop_inv:
  "cmdline_loop ws (args, opts) = Inr (args', opts') \<Longrightarrow> opts_inv opts \<Longrightarrow> opts_inv opts'"
proof (induction ws "(args, opts)" arbitrary: args opts rule: cmdline_loop.induct)
  case 1
  then show ?case by simp
next
  case (2 a)
  then have "set_flag a (args, opts) = Inr (args', opts')" by (simp split: option.splits)
  from set_flag_inv [OF this "2.prems"(2)] show ?case .
next
  case (3 a x rest)
  show ?case
  proof (cases "set_word a")
    case None
    with "3.prems" obtain args1 opts1 where f: "set_flag a (args, opts) = Inr (args1, opts1)"
      and r: "cmdline_loop (x # rest) (args1, opts1) = Inr (args', opts')"
      by (auto simp: gf_res)
    from "3.hyps"(1) [OF None r set_flag_inv [OF f "3.prems"(2)]] show ?thesis .
  next
    case (Some f)
    obtain args1 opts1 where e: "f x (args, opts) = (args1, opts1)" by fastforce
    have "opts_inv opts1"
      using set_word_inv [OF Some e] "3.prems"(2) by (simp add: opts_inv_def)
    with "3.hyps"(2) [OF Some e] "3.prems"(1) Some e show ?thesis by simp
  qed
qed

subsection \<open>The physical map\<close>

lemma add_to_physmap_wf:
  assumes "physmap_wf pm"
  shows "add_block_to_physmap pm f l n a b s t = Inr pm' \<Longrightarrow> physmap_wf pm'"
    and "add_object_to_physmap pm f l n a b s t = Inr pm' \<Longrightarrow> physmap_wf pm'"
  using add_entry_to_physmap_InrD(4) [OF _ assms] by (auto simp: add_to_physmap_defs)

lemma block_generate_image_wf:
  "block_generate_image c e p scn blk pm = Inr (pm', out) \<Longrightarrow> physmap_wf pm \<Longrightarrow> physmap_wf pm'"
  by (auto simp: block_generate_image_def Let_def gf_res split: if_splits dest: add_to_physmap_wf)

lemma process_section_wf:
  assumes "process_section c e p gen scn (a, pm, out) = Inr (a', pm', out')" and "physmap_wf pm"
  shows "physmap_wf pm'"
proof -
  have img: "physmap_wf (fst s')"
    if "visit_vector v (blk_gen_image_if_match c e p nm scn) s = Inr s'" "physmap_wf (fst s)" for v nm s s'
    using that unfolding visit_vector_def
    by (rule res_fold_invariant [where I = "\<lambda>s. physmap_wf (fst s)"])
      (auto simp: blk_gen_image_if_match_def gf_res split: if_splits dest: block_generate_image_wf)
  show ?thesis
    using assms by (auto simp: process_section_def Let_def gf_res split: if_splits option.splits dest!: img)
qed

lemma process_elf_file_wf:
  assumes "process_elf_file c e p gen elf (a, pm, out) = Inr (a', pm', out')" and "physmap_wf pm"
  shows "physmap_wf pm'"
proof -
  obtain scns a2 where "res_fold (process_section c e p gen) scns (a2, pm, out) = Inr (a', pm', out')"
    using assms(1) by (auto simp: process_elf_file_def gf_res split: option.splits)
  then have "physmap_wf (fst (snd (a', pm', out')))"
    by (rule res_fold_invariant) (use assms(2) in \<open>auto dest: process_section_wf\<close>)
  then show ?thesis by simp
qed

lemma iter_cells_inv:
  assumes "iter_cells f xs s = Inr (ys, s')" and "I s"
    and "\<And>x s y s'. x \<in> set xs \<Longrightarrow> I s \<Longrightarrow> f x s = Inr (y, s') \<Longrightarrow> I s'"
  shows "I s'"
  using assms
proof (induction xs arbitrary: s ys)
  case (Cons x xs)
  from Cons.prems(1) obtain y s1 zs where "f x s = Inr (y, s1)" "iter_cells f xs s1 = Inr (zs, s')"
    by (auto simp: gf_res split: prod.splits)
  with Cons show ?case by (metis list.set_intros)
qed simp

lemma process_apps_wf:
  assumes "process_app_elf_files elf_of c e p gen (st, pm, out) = Inr (st', pm', out')" and "physmap_wf pm"
  shows "physmap_wf pm'"
proof -
  obtain xs where "iter_cells (\<lambda>a (pm, out).
         res_bind (process_elf_file c e p gen (Option.bind (a_elf_file a) elf_of) (a, pm, out))
           (\<lambda>(a', pm', out'). Inr (a', pm', out'))) (elements (App_vector st)) (pm, out) = Inr (xs, pm', out')"
    using assms(1) by (auto simp: process_app_elf_files_def iterate_vector_def gf_res split: prod.splits)
  then have "physmap_wf (fst (pm', out'))"
    by (rule iter_cells_inv) (use assms(2) in \<open>auto simp: gf_res dest: process_elf_file_wf\<close>)
  then show ?thesis by simp
qed

lemma write_table_wf:
  "write_table supp env kind zero row t pm = Inr (pm', out) \<Longrightarrow> physmap_wf pm \<Longrightarrow> physmap_wf pm'"
  by (auto simp: write_table_def gf_res dest: add_to_physmap_wf)

lemma write_all_wf:
  assumes "visit_vector v (\<lambda>t (pm, out). res_bind (w t pm) (\<lambda>(pm', is). Inr (pm', out @ is))) s = Inr s'"
    and "physmap_wf (fst s)" and "\<And>t pm pm' is. w t pm = Inr (pm', is) \<Longrightarrow> physmap_wf pm \<Longrightarrow> physmap_wf pm'"
  shows "physmap_wf (fst s')"
  using assms(1,2) unfolding visit_vector_def
  by (rule res_fold_invariant [where I = "\<lambda>s. physmap_wf (fst s)"]) (auto simp: gf_res dest: assms(3))

lemma gen_tsbs_wf:
  assumes "gen_tsbs opts (g, out) = Inr (g', out')" and "physmap_wf (g_Physmap g)"
  shows "physmap_wf (g_Physmap g')"
proof -
  obtain s1 s2 s3 tsbs csms lst clst where
    w: "write_tsbs (o_Suppress_zero opts) (o_EnvZero opts) tsbs (g_Physmap g, out @ MMU_header) = Inr s1"
      "write_tsb_links lst s1 = Inr s2"
      "write_tsbcsms (o_Suppress_zero opts) (o_EnvZero opts) csms s2 = Inr s3"
      "write_tsbcsm_links clst s3 = Inr (g_Physmap g', out')"
    using assms(1) by (auto simp: gen_tsbs_def Let_def gf_res split: prod.splits)
  have 1: "physmap_wf (fst s1)"
    using w(1) [unfolded write_tsbs_def] by (rule write_all_wf) (use assms(2) in \<open>auto simp: write_tsb_def dest: write_table_wf\<close>)
  have 2: "physmap_wf (fst s2)"
    using w(2) [unfolded write_tsb_links_def] 1
    by (rule write_all_wf) (auto simp: write_tsb_link_def gf_res dest: add_to_physmap_wf)
  have 3: "physmap_wf (fst s3)"
    using w(3) [unfolded write_tsbcsms_def] 2
    by (rule write_all_wf) (auto simp: write_tsbcsm_def dest: write_table_wf)
  have "physmap_wf (fst (g_Physmap g', out'))"
    using w(4) [unfolded write_tsbcsm_links_def] 3
    by (rule write_all_wf) (auto simp: write_tsbcsm_link_def gf_res dest: add_to_physmap_wf)
  then show ?thesis by simp
qed

lemma finish_physmap: "finish_image_file_init g = Inr g' \<Longrightarrow> g_Physmap g' = g_Physmap g"
  by (auto simp: finish_image_file_init_def gf_res)

lemma yyparse_inv: "yyparse env f g = Inr g' \<Longrightarrow> parse_inv g \<Longrightarrow> parse_inv g'"
  by (auto simp: yyparse_def gf_res split: if_splits dest: run_actions_inv)

subsection \<open>The tables before and after the blocks are added\<close>

lemma iter_cells_origin:
  "iter_cells f xs s = Inr (ys, s') \<Longrightarrow> y \<in> set ys \<Longrightarrow> \<exists>x \<in> set xs. \<exists>t t'. f x t = Inr (y, t')"
proof (induction xs arbitrary: s ys)
  case (Cons x xs)
  from Cons.prems(1) obtain z t zs where "f x s = Inr (z, t)" "iter_cells f xs t = Inr (zs, s')" "ys = z # zs"
    by (auto simp: gf_res split: prod.splits)
  with Cons show ?case by (metis list.set_intros set_ConsD)
qed simp

definition blank :: "'e \<Rightarrow> 'e table vector \<Rightarrow> bool" where
  "blank z v \<longleftrightarrow> (\<forall>t \<in> set (elements v). set (t_entries t) \<subseteq> {z})"

definition unused :: "'e link_area vector \<Rightarrow> bool" where
  "unused v \<longleftrightarrow> (\<forall>l \<in> set (elements v). elements (tl_entries l) = [])"

lemma finish_tsb_blank:
  "finish_tsb_init links st = Inr st' \<Longrightarrow> blank zero_tsb_entry (Tsb_vector st')"
  by (auto simp: finish_tsb_init_def iterate_vector_def blank_def finish_single_tsb_init_def alloc_entries_def
      gf_res split: prod.splits option.splits dest!: iter_cells_origin)

lemma finish_tsbcsm_blank:
  "finish_tsbcsm_init links st = Inr st' \<Longrightarrow> blank zero_tsbcsm_entry (Tsb_vector st')"
  by (auto simp: finish_tsbcsm_init_def iterate_vector_def blank_def finish_single_tsbcsm_init_def alloc_entries_def
      gf_res split: prod.splits option.splits dest!: iter_cells_origin)

lemma blank_cell: "blank z v \<Longrightarrow> cell v p i = Some e \<Longrightarrow> e = z"
  by (auto simp: blank_def cell_def split: if_splits dest!: nth_mem subsetD)

lemma unused_area: "unused v \<Longrightarrow> area v k = Some l \<Longrightarrow> elements (tl_entries l) = []"
  by (auto simp: unused_def area_def split: if_splits)

lemma fresh_heap:
  assumes "blank zero_tsb_entry v" and "unused ls"
  shows "heap_wf (v, ls)" and "bucket (v, ls) q j = []"
proof -
  have z: "te_tag e = 0 \<and> te_vacant e" if "cell v p i = Some e" for p i e
    using blank_cell [OF assms(1) that] by (simp add: zero_tsb_entry_def te_vacant_def)
  then have no: "cell v p i = Some e \<Longrightarrow> te_tag e \<noteq> TSB_LINK_TAG" for p i e
    by (fastforce simp: TSB_LINK_TAG_def)
  show "heap_wf (v, ls)"
    using no unused_area [OF assms(2)] by (auto simp: heap_wf_def link_wf_def area_wf_def)
  show "bucket (v, ls) q j = []"
    using z by (auto simp: bucket_def entry_bucket_def split: option.splits)
qed

lemma fresh_csm_heap:
  assumes "blank zero_tsbcsm_entry v" and "unused ls"
  shows "csm_heap_wf (v, ls)" and "csm_bucket (v, ls) q j = []"
proof -
  have z: "ce_tag e = 0 \<and> ce_vacant e" if "cell v p i = Some e" for p i e
    using blank_cell [OF assms(1) that] by (simp add: zero_tsbcsm_entry_def ce_vacant_def)
  then have no: "cell v p i = Some e \<Longrightarrow> ce_tag e \<noteq> TSB_LINK_TAG" for p i e
    by (fastforce simp: TSB_LINK_TAG_def)
  show "csm_heap_wf (v, ls)"
    using no unused_area [OF assms(2)] by (auto simp: csm_heap_wf_def csm_link_wf_def area_wf_def)
  show "csm_bucket (v, ls) q j = []"
    using z by (auto simp: csm_bucket_def csm_entry_bucket_def split: option.splits)
qed

text \<open>What \<^verbatim>\<open>gen_tsbs\<close> leaves in the tables, when it starts with blank ones.\<close>

definition fresh :: "gf_state \<Rightarrow> bool" where
  "fresh g \<longleftrightarrow>
    blank zero_tsb_entry (Tsb_vector (g_tsbs g)) \<and> unused (Link_vector (g_tsb_links g)) \<and>
    blank zero_tsbcsm_entry (Tsb_vector (g_tsbcsms g)) \<and> unused (Link_vector (g_tsbcsm_links g))"

lemma finish_fresh: "finish_image_file_init g = Inr g' \<Longrightarrow> parse_inv g \<Longrightarrow> fresh g'"
  by (auto simp: finish_image_file_init_def gf_res fresh_def parse_inv_def links_inv_def unused_def
      intro: finish_tsb_blank finish_tsbcsm_blank)

definition tsb_heap_of :: "gf_state \<Rightarrow> tsb_heap" where
  "tsb_heap_of g = (Tsb_vector (g_tsbs g), Link_vector (g_tsb_links g))"

definition csm_heap_of :: "gf_state \<Rightarrow> tsbcsm_heap" where
  "csm_heap_of g = (Tsb_vector (g_tsbcsms g), Link_vector (g_tsbcsm_links g))"

definition tsb_sizes :: "gf_state \<Rightarrow> u64 list" where
  "tsb_sizes g = sizes (Tsb_vector (g_tsbs g))"

lemma gen_tsbs_steps:
  assumes "gen_tsbs opts (g, out) = Inr (g', out')"
  shows "add_apps_to_tsbs (o_Allow_tsb_conflicts opts) (App_vector (g_apps g)) (tsb_heap_of g) = Inr (tsb_heap_of g')"
    and "add_apps_to_tsbcsms (o_Allow_tsb_conflicts opts) (Tsb_vector (g_tsbs g')) (App_vector (g_apps g))
      (csm_heap_of g) = Inr (csm_heap_of g')"
    and "g_apps g' = g_apps g"
  using assms by (auto simp: gen_tsbs_def Let_def gf_res tsb_heap_of_def csm_heap_of_def split: prod.splits)

lemma gen_tsbs_pages:
  assumes "gen_tsbs opts (g, out) = Inr (g', out')" and "fresh g"
    and "\<forall>a \<in> set (elements (App_vector (g_apps g'))). proper_app (tsb_sizes g') a"
  shows "heap_wf (tsb_heap_of g') \<and> csm_heap_wf (csm_heap_of g') \<and>
    (\<forall>q j. bucket (tsb_heap_of g') q j =
      concat (map (app_pages (tsb_sizes g') q j) (elements (App_vector (g_apps g')))) \<and>
     csm_bucket (csm_heap_of g') q j =
      concat (map (csm_app_pages (tsb_sizes g') q j) (elements (App_vector (g_apps g')))))"
proof -
  note st = gen_tsbs_steps [OF assms(1)]
  have h: "heap_wf (tsb_heap_of g)" "bucket (tsb_heap_of g) q j = []"
    "csm_heap_wf (csm_heap_of g)" "csm_bucket (csm_heap_of g) q j = []" for q j
    using assms(2) fresh_heap fresh_csm_heap by (auto simp: fresh_def tsb_heap_of_def csm_heap_of_def)
  have sz: "sizes (fst (tsb_heap_of g')) = sizes (fst (tsb_heap_of g))"
    by (rule add_apps_sizes [OF st(1)])
  have sz': "sizes (fst (tsb_heap_of g')) = tsb_sizes g'" by (simp add: tsb_heap_of_def tsb_sizes_def)
  have "\<forall>a \<in> set (elements (App_vector (g_apps g))). proper_app (sizes (fst (tsb_heap_of g))) a"
    using assms(3) by (simp add: st(3) sz [symmetric] sz')
  note t = apps_add_pages [OF st(1) h(1) this, unfolded sz [symmetric] sz' h(2)]
  have "\<forall>a \<in> set (elements (App_vector (g_apps g))). proper_app (sizes (Tsb_vector (g_tsbs g'))) a"
    using assms(3) by (simp add: st(3) tsb_sizes_def)
  note c = apps_add_csm_pages [OF st(2) h(3) this, unfolded h(4) tsb_sizes_def [symmetric]]
  from t c show ?thesis by (simp add: st(3))
qed

subsection \<open>A whole run\<close>

lemma run_steps:
  assumes "process_goldfinger_file env opts args infile g0 = Inr (g, out, str)"
  obtains g1 g2 apps pm out1 where
    "yyparse env infile (init_image_file_data_structures g0) = Inr g1"
    "finish_image_file_init g1 = Inr g2"
    "process_app_elf_files (e_elf env) (o_Compress opts) (o_EnvZero opts) (g_Pa_size g2)
        (c_genimage args) (g_apps g2, g_Physmap g2, []) = Inr (apps, pm, out1)"
    "(if c_gentsbs args then gen_tsbs opts (g2\<lparr>g_apps := apps, g_Physmap := pm\<rparr>, out1)
        else Inr (g2\<lparr>g_apps := apps, g_Physmap := pm\<rparr>, out1)) = Inr (g, out)"
  using assms that by (auto simp: process_goldfinger_file_def Let_def gf_res)

lemma run_physmap_wf:
  assumes "process_goldfinger_file env opts args infile g0 = Inr (g, out, str)"
  shows "physmap_wf (g_Physmap g)"
proof -
  obtain g1 g2 apps pm out1 where p: "yyparse env infile (init_image_file_data_structures g0) = Inr g1"
    and f: "finish_image_file_init g1 = Inr g2"
    and e: "process_app_elf_files (e_elf env) (o_Compress opts) (o_EnvZero opts) (g_Pa_size g2)
        (c_genimage args) (g_apps g2, g_Physmap g2, []) = Inr (apps, pm, out1)"
    and t: "(if c_gentsbs args then gen_tsbs opts (g2\<lparr>g_apps := apps, g_Physmap := pm\<rparr>, out1)
        else Inr (g2\<lparr>g_apps := apps, g_Physmap := pm\<rparr>, out1)) = Inr (g, out)"
    using assms by (rule run_steps)
  have "physmap_wf (g_Physmap g2)"
    using yyparse_inv [OF p parse_inv_init] finish_physmap [OF f] by (simp add: parse_inv_def)
  then have "physmap_wf pm" by (rule process_apps_wf [OF e])
  then show ?thesis using t gen_tsbs_wf [of opts _ out1 g out] by (auto split: if_splits)
qed

lemma run_tables:
  assumes "process_goldfinger_file env opts args infile g0 = Inr (g, out, str)" and "c_gentsbs args"
    and "\<forall>a \<in> set (elements (App_vector (g_apps g))). proper_app (tsb_sizes g) a"
  shows "heap_wf (tsb_heap_of g) \<and> csm_heap_wf (csm_heap_of g) \<and>
    (\<forall>q j. bucket (tsb_heap_of g) q j =
      concat (map (app_pages (tsb_sizes g) q j) (elements (App_vector (g_apps g)))) \<and>
     csm_bucket (csm_heap_of g) q j =
      concat (map (csm_app_pages (tsb_sizes g) q j) (elements (App_vector (g_apps g)))))"
proof -
  obtain g1 g2 apps pm out1 where p: "yyparse env infile (init_image_file_data_structures g0) = Inr g1"
    and f: "finish_image_file_init g1 = Inr g2"
    and e: "process_app_elf_files (e_elf env) (o_Compress opts) (o_EnvZero opts) (g_Pa_size g2)
        (c_genimage args) (g_apps g2, g_Physmap g2, []) = Inr (apps, pm, out1)"
    and t: "(if c_gentsbs args then gen_tsbs opts (g2\<lparr>g_apps := apps, g_Physmap := pm\<rparr>, out1)
        else Inr (g2\<lparr>g_apps := apps, g_Physmap := pm\<rparr>, out1)) = Inr (g, out)"
    using assms(1) by (rule run_steps)
  have "fresh g2" by (rule finish_fresh [OF f yyparse_inv [OF p parse_inv_init]])
  then have "fresh (g2\<lparr>g_apps := apps, g_Physmap := pm\<rparr>)" by (simp add: fresh_def)
  with t assms(2,3) show ?thesis
    using gen_tsbs_pages [of opts "g2\<lparr>g_apps := apps, g_Physmap := pm\<rparr>" out1 g out] by simp
qed

end
