(* ===== verification/Gf_Walk.thy ===== *)
theory Gf_Walk
  imports Gf_Run
begin

text \<open>
  What the hardware finds in the tables: the reader of a TSB that follows the links in
  memory, and the proof that on the memory that a simulator has loaded it finds, at every
  index, the pairs of the bucket. The output is seen as a list of pieces, runs of words at
  an address; the pieces of the tables and link areas do not overlap, because each of them
  was entered in the physical map.
\<close>

subsection \<open>The reader\<close>

text \<open>
  A node is a tag, its data and the address of the next node, which is all ones at the end.
  With fuel for as many nodes as the area has, the walk ends.
\<close>

fun walk_chain :: "memory \<Rightarrow> nat \<Rightarrow> addr_t \<Rightarrow> (u64 \<times> u64) list option" where
  "walk_chain m 0 a = None"
| "walk_chain m (Suc n) a =
    (case (m a, m (advance a 1), m (advance a 2)) of
       (Some t, Some d, Some l) \<Rightarrow>
         if l = EOL then Some [(t, d)] else map_option ((#) (t, d)) (walk_chain m n l)
     | _ \<Rightarrow> None)"

definition read_tsb :: "memory \<Rightarrow> nat \<Rightarrow> addr_t \<Rightarrow> nat \<Rightarrow> (u64 \<times> u64) list option" where
  "read_tsb m n start i =
    (case (m (advance start (2 * i)), m (advance start (2 * i + 1))) of
       (Some t, Some d) \<Rightarrow>
         if t = 0 \<and> d = 0 then Some []
         else if t = TSB_LINK_TAG then walk_chain m n d
         else Some [(t, d)]
     | _ \<Rightarrow> None)"

subsection \<open>Pieces of the image\<close>

type_synonym piece = "addr_t \<times> u64 list"

definition store_pieces :: "piece list \<Rightarrow> memory \<Rightarrow> memory" where
  "store_pieces ps m = fold (\<lambda>(a, ws). store64s a ws) ps m"

definition covers :: "piece \<Rightarrow> addr_t \<Rightarrow> bool" where
  "covers p x \<longleftrightarrow> (\<exists>k < length (snd p). x = advance (fst p) k)"

definition piece_ok :: "physmap_ent \<Rightarrow> piece \<Rightarrow> bool" where
  "piece_ok e p \<longleftrightarrow>
    pm_start e = fst p \<and> pm_stop e = advance (fst p) (length (snd p)) \<and>
    8 * length (snd p) < 2 ^ 64 \<and> pm_start e \<le> pm_stop e"

lemma store_pieces_simps [simp]:
  "store_pieces [] m = m"
  "store_pieces (p # ps) m = store_pieces ps (store64s (fst p) (snd p) m)"
  "store_pieces (ps @ qs) m = store_pieces qs (store_pieces ps m)"
  by (simp_all add: store_pieces_def case_prod_beta)

lemma store_pieces_outside:
  "(\<And>p. p \<in> set ps \<Longrightarrow> \<not> covers p x) \<Longrightarrow> store_pieces ps m x = m x"
proof (induction ps arbitrary: m)
  case (Cons p ps)
  have "store64s (fst p) (snd p) m x = m x"
    using Cons.prems [of p] by (intro store64s_outside) (auto simp: covers_def)
  with Cons show ?case by simp
qed simp

lemma unat_advance:
  assumes "a \<le> advance a n" and "8 * n < 2 ^ 64"
  shows "unat (advance a n) = unat a + 8 * n"
proof -
  have "unat (a + of_nat (8 * n)) = unat a + unat (of_nat (8 * n) :: u64)"
    using assms(1) unfolding advance_def by (rule unat_plus_simple [THEN iffD1])
  then show ?thesis unfolding advance_def unat_of_nat64 [OF assms(2)] .
qed

lemma unat_advance_less:
  assumes "a \<le> advance a n" and "8 * n < 2 ^ 64" and "k \<le> n"
  shows "unat (advance a k) = unat a + 8 * k"
proof -
  have b: "unat a + 8 * n < 2 ^ 64" using unat_advance [OF assms(1,2)] unat_less_64 [of "advance a n"] by simp
  have k: "unat (of_nat (8 * k) :: u64) = 8 * k" using assms(2,3) by (intro unat_of_nat64) simp
  have "unat a + unat (of_nat (8 * k) :: u64) < 2 ^ LENGTH(64)" using b k assms(3) by simp
  from unat_add_lem [THEN iffD1, OF this] show ?thesis unfolding advance_def k .
qed

lemma piece_covers_region: "piece_ok e p \<Longrightarrow> covers p x \<Longrightarrow> x \<in> region e"
  using unat_advance_less [of "fst p" "length (snd p)"] unat_advance [of "fst p" "length (snd p)"]
  by (auto simp: piece_ok_def covers_def region_def word_le_nat_alt word_less_nat_alt)

text \<open>What the words of a piece are in the end, when every piece has its own entry in the map.\<close>

lemma store_pieces_nth:
  assumes "list_all2 piece_ok es ps" and "physmap_wf_list es" and i: "i < length ps"
    and k: "k < length (snd (ps ! i))"
  shows "store_pieces ps m (advance (fst (ps ! i)) k) = Some (snd (ps ! i) ! k)"
proof -
  let ?p = "ps ! i" let ?x = "advance (fst ?p) k"
  have len: "length es = length ps" and ok: "\<And>j. j < length ps \<Longrightarrow> piece_ok (es ! j) (ps ! j)"
    using assms(1) by (auto simp: list_all2_conv_all_nth)
  have x: "x \<in> region (es ! i)" if "covers ?p x" for x
    using piece_covers_region [OF ok [OF i] that] .
  have out: "\<not> covers q ?x" if q: "q \<in> set (drop (Suc i) ps)" for q
  proof
    assume c: "covers q ?x"
    obtain j where j: "j < length ps" "i < j" "q = ps ! j"
      using q by (auto simp: in_set_conv_nth) (metis add_Suc less_add_Suc1 less_diff_conv nth_drop add.commute)
    have "?x \<in> region (es ! j)" using piece_covers_region [OF ok [OF j(1)]] c j(3) by simp
    moreover have "?x \<in> region (es ! i)" using x k by (auto simp: covers_def)
    moreover have "apart (es ! i) (es ! j)" using physmap_wf_list_nth [OF assms(2)] i j len by auto
    ultimately show False using apart_disjoint by blast
  qed
  have "store_pieces ps m ?x = store_pieces (take i ps @ ?p # drop (Suc i) ps) m ?x"
    using id_take_nth_drop [OF i] by simp
  also have "\<dots> = store64s (fst ?p) (snd ?p) (store_pieces (take i ps) m) ?x"
    using out by (simp add: store_pieces_outside)
  also have "\<dots> = Some (snd ?p ! k)"
    using ok [OF i] k by (intro store64s_inside) (auto simp: piece_ok_def)
  finally show ?thesis .
qed

subsection \<open>The output as pieces\<close>

definition writes :: "physmap \<times> item list \<Rightarrow> physmap \<times> item list \<Rightarrow> piece list \<Rightarrow> bool" where
  "writes s s' ps \<longleftrightarrow>
    (\<exists>es. elements (fst s') = elements (fst s) @ es \<and> list_all2 piece_ok es ps) \<and> physmap_wf (fst s') \<and>
    (\<forall>st. snd (load_items (snd s') st) = store_pieces ps (snd (load_items (snd s) st)))"

lemma writes_refl: "physmap_wf (fst s) \<Longrightarrow> writes s s []"
  by (simp add: writes_def)

lemma writes_trans:
  assumes "writes s s' ps" and "writes s' s'' qs"
  shows "writes s s'' (ps @ qs)"
proof -
  obtain es fs where "elements (fst s') = elements (fst s) @ es" "list_all2 piece_ok es ps"
    "elements (fst s'') = elements (fst s') @ fs" "list_all2 piece_ok fs qs"
    using assms by (auto simp: writes_def)
  then have "elements (fst s'') = elements (fst s) @ (es @ fs)" "list_all2 piece_ok (es @ fs) (ps @ qs)"
    by (simp_all add: list_all2_appendI)
  with assms show ?thesis unfolding writes_def by auto
qed

text \<open>One object: its entry in the physical map and the items that store its words.\<close>

lemma writes_object:
  assumes "add_object_to_physmap pm f l n a (advance a (length ws)) k nm = Inr pm'" and "physmap_wf pm"
    and "8 * length ws < 2 ^ 64" and "\<And>st. snd (load_items is st) = store64s a ws (snd st)"
  shows "writes (pm, out) (pm', out @ is) [(a, ws)]"
proof -
  note A = add_entry_to_physmap_InrD [OF assms(1) [unfolded add_object_to_physmap_def] assms(2)]
  show ?thesis using A assms(3,4) by (auto simp: writes_def piece_ok_def)
qed

lemma writes_all:
  assumes "visit_vector v (\<lambda>x (pm, out). res_bind (w x pm) (\<lambda>(pm', is). Inr (pm', out @ is))) s = Inr s'"
    and "physmap_wf (fst s)"
    and "\<And>x pm pm' is out. x \<in> set (elements v) \<Longrightarrow> w x pm = Inr (pm', is) \<Longrightarrow> physmap_wf pm \<Longrightarrow>
      writes (pm, out) (pm', out @ is) [f x]"
  shows "writes s s' (map f (elements v))"
proof -
  have "writes s s' (map f xs)"
    if "res_fold (\<lambda>x (pm, out). res_bind (w x pm) (\<lambda>(pm', is). Inr (pm', out @ is))) xs s = Inr s'"
      "physmap_wf (fst s)" "set xs \<subseteq> set (elements v)" for xs s
    using that
  proof (induction xs arbitrary: s)
    case (Cons x xs)
    obtain pm out where s: "s = (pm, out)" by (cases s)
    from Cons.prems(1) obtain pm1 os where w: "w x pm = Inr (pm1, os)"
      and r: "res_fold (\<lambda>x (pm, out). res_bind (w x pm) (\<lambda>(pm', is). Inr (pm', out @ is))) xs
        (pm1, out @ os) = Inr s'"
      by (auto simp: s gf_res)
    have 1: "writes s (pm1, out @ os) [f x]"
      using assms(3) [OF _ w] Cons.prems(2,3) by (simp add: s)
    then have "physmap_wf pm1" by (simp add: writes_def)
    with Cons.IH [OF r] Cons.prems(3) have "writes (pm1, out @ os) s' (map f xs)" by simp
    from writes_trans [OF 1 this] show ?case by simp
  qed (simp add: writes_refl)
  with assms(1,2) show ?thesis by (simp add: visit_vector_def)
qed

end
