(* ===== verification/Gf_Reader.thy ===== *)
theory Gf_Reader
  imports Gf_Walk
begin

text \<open>
  The tables and link areas of a run as pieces of the image, and the reader of \<open>Gf_Walk\<close> on
  them: at the index of a TSB it finds the pairs of the bucket.
\<close>

subsection \<open>Tables and link areas as pieces\<close>

definition tsb_piece :: "tsb \<Rightarrow> piece" where
  "tsb_piece t = (t_start_addr t,
    flat (\<lambda>e. (te_tag e, te_data e)) (take (unat (t_num_entries t)) (t_entries t)))"

definition tsbcsm_piece :: "tsbcsm \<Rightarrow> piece" where
  "tsbcsm_piece t = (t_start_addr t,
    flat (\<lambda>e. (ce_tag e, ce_clump_num e)) (take (unat (t_num_entries t)) (t_entries t)))"

definition link_piece :: "tsb_link \<Rightarrow> piece" where
  "link_piece l = (tl_start_addr l, concat (map (\<lambda>e. [le_tag e, le_data e, le_link e, le_link e]) (nodes l)))"

definition csm_link_piece :: "tsbcsm_link \<Rightarrow> piece" where
  "csm_link_piece l = (tl_start_addr l, concat (map (\<lambda>e. [cl_tag e, cl_clump_num e, cl_link e, cl_link e]) (nodes l)))"

text \<open>The tables that can be written: an even number of entries that fit in the address space.\<close>

definition table_fits :: "'e table \<Rightarrow> bool" where
  "table_fits t \<longleftrightarrow> even (unat (t_num_entries t)) \<and> 16 * unat (t_num_entries t) < 2 ^ 64"

lemma write_table_object:
  assumes "write_table supp env kind zero row t pm = Inr (pm', is)" and "table_fits t"
  shows "add_object_to_physmap pm (t_srcfile t) (t_srcline t) (t_lineno t) (t_start_addr t)
      (advance (t_start_addr t) (2 * unat (t_num_entries t))) ''TSB'' (t_name t) = Inr pm' \<and>
    length (take (unat (t_num_entries t)) (t_entries t)) = unat (t_num_entries t)"
proof -
  have "advance a (2 * unat n) = a + n * of_nat BYTES_PER_ENTRY" for a n :: u64
    by (simp add: advance_def BYTES_PER_ENTRY_def)
  with assms show ?thesis by (auto simp: write_table_def gf_res split: if_splits)
qed

lemma write_tsb_writes:
  assumes w: "write_tsb supp env t pm = Inr (pm', is)" and "table_fits t" and "supp \<Longrightarrow> env" and "physmap_wf pm"
  shows "writes (pm, out) (pm', out @ is) [tsb_piece t]"
proof -
  note T = write_table_object [OF w [unfolded write_tsb_def] assms(2)]
  let ?ws = "flat (\<lambda>e. (te_tag e, te_data e)) (take (unat (t_num_entries t)) (t_entries t))"
  have len: "length ?ws = 2 * unat (t_num_entries t)" using T by (simp add: length_flat)
  show ?thesis
    unfolding tsb_piece_def
    by (rule writes_object [where ws = ?ws, unfolded len, OF conjunct1 [OF T] assms(4)])
      (use assms(2) write_tsb_image [OF w] assms(3) in \<open>auto simp: table_fits_def\<close>)
qed

lemma write_tsbcsm_writes:
  assumes w: "write_tsbcsm supp env t pm = Inr (pm', is)" and "table_fits t" and "supp \<Longrightarrow> env" and "physmap_wf pm"
    and "\<And>e. e \<in> set (t_entries t) \<Longrightarrow> ce_vacant e \<Longrightarrow> ce_clump_num e = 0"
  shows "writes (pm, out) (pm', out @ is) [tsbcsm_piece t]"
proof -
  note T = write_table_object [OF w [unfolded write_tsbcsm_def] assms(2)]
  let ?ws = "flat (\<lambda>e. (ce_tag e, ce_clump_num e)) (take (unat (t_num_entries t)) (t_entries t))"
  have len: "length ?ws = 2 * unat (t_num_entries t)" using T by (simp add: length_flat)
  show ?thesis
    unfolding tsbcsm_piece_def
    by (rule writes_object [where ws = ?ws, unfolded len, OF conjunct1 [OF T] assms(4)])
      (use assms(2) write_tsbcsm_image [OF w _ _ _ assms(5)] assms(3) in \<open>auto simp: table_fits_def\<close>)
qed

lemma length_quads: "length (concat (map (\<lambda>e. [f e, g e, h e, h e]) es)) = 4 * length es"
  by (induction es) simp_all

lemma advance_quads: "advance a (4 * n) = node_addr a n"
  by (simp add: advance_def node_addr_def LINK_SIZE_def)

lemma write_tsb_link_writes:
  assumes w: "write_tsb_link l pm = Inr (pm', is)" and "physmap_wf pm"
  shows "writes (pm, out) (pm', out @ is) [link_piece l]"
proof -
  let ?ws = "concat (map (\<lambda>e. [le_tag e, le_data e, le_link e, le_link e]) (nodes l))"
  have "LINK_SIZE * length (nodes l) < 2 ^ 31"
    and T: "add_object_to_physmap pm (tl_srcfile l) (tl_srcline l) (tl_lineno l) (tl_start_addr l)
      (advance (tl_start_addr l) (length ?ws)) ''TSB_LINK'' (tl_name l) = Inr pm'"
    using w by (auto simp: write_tsb_link_def gf_res VECTOR_LEN_def length_quads advance_quads
        dest!: link_address_InrD)
  then show ?thesis
    unfolding link_piece_def
    by (intro writes_object [OF T assms(2)])
      (use write_tsb_link_image [OF w] in \<open>auto simp: length_quads LINK_SIZE_def\<close>)
qed

lemma write_tsbcsm_link_writes:
  assumes w: "write_tsbcsm_link l pm = Inr (pm', is)" and "physmap_wf pm"
  shows "writes (pm, out) (pm', out @ is) [csm_link_piece l]"
proof -
  let ?ws = "concat (map (\<lambda>e. [cl_tag e, cl_clump_num e, cl_link e, cl_link e]) (nodes l))"
  have "LINK_SIZE * length (nodes l) < 2 ^ 31"
    and T: "add_object_to_physmap pm (tl_srcfile l) (tl_srcline l) (tl_lineno l) (tl_start_addr l)
      (advance (tl_start_addr l) (length ?ws)) ''TSBCSM_LINK'' (tl_name l) = Inr pm'"
    using w by (auto simp: write_tsbcsm_link_def gf_res VECTOR_LEN_def length_quads advance_quads
        dest!: link_address_InrD)
  then show ?thesis
    unfolding csm_link_piece_def
    by (intro writes_object [OF T assms(2)])
      (use write_tsbcsm_link_image [OF w] in \<open>auto simp: length_quads LINK_SIZE_def\<close>)
qed

text \<open>All of them, in the order of the output.\<close>

definition run_pieces :: "gf_state \<Rightarrow> piece list" where
  "run_pieces g =
    map tsb_piece (elements (Tsb_vector (g_tsbs g))) @ map link_piece (elements (Link_vector (g_tsb_links g))) @
    map tsbcsm_piece (elements (Tsb_vector (g_tsbcsms g))) @
    map csm_link_piece (elements (Link_vector (g_tsbcsm_links g)))"

definition run_fits :: "gf_state \<Rightarrow> bool" where
  "run_fits g \<longleftrightarrow>
    (\<forall>t \<in> set (elements (Tsb_vector (g_tsbs g))). table_fits t) \<and>
    (\<forall>t \<in> set (elements (Tsb_vector (g_tsbcsms g))). table_fits t \<and>
      (\<forall>e \<in> set (t_entries t). ce_vacant e \<longrightarrow> ce_clump_num e = 0))"

lemma gen_tsbs_writes:
  assumes "gen_tsbs opts (g, out) = Inr (g', out')" and "run_fits g'" and "physmap_wf (g_Physmap g)"
    and "o_Suppress_zero opts \<Longrightarrow> o_EnvZero opts"
  shows "writes (g_Physmap g, out @ MMU_header) (g_Physmap g', out') (run_pieces g')"
proof -
  obtain s1 s2 s3 where
    w: "write_tsbs (o_Suppress_zero opts) (o_EnvZero opts) (Tsb_vector (g_tsbs g'))
          (g_Physmap g, out @ MMU_header) = Inr s1"
      "write_tsb_links (g_tsb_links g') s1 = Inr s2"
      "write_tsbcsms (o_Suppress_zero opts) (o_EnvZero opts) (Tsb_vector (g_tsbcsms g')) s2 = Inr s3"
      "write_tsbcsm_links (g_tsbcsm_links g') s3 = Inr (g_Physmap g', out')"
    using assms(1) by (auto simp: gen_tsbs_def Let_def gf_res split: prod.splits)
  have "writes (g_Physmap g, out @ MMU_header) s1 (map tsb_piece (elements (Tsb_vector (g_tsbs g'))))"
    using w(1) [unfolded write_tsbs_def]
    by (rule writes_all) (use assms in \<open>auto simp: run_fits_def intro: write_tsb_writes\<close>)
  moreover from this have "writes s1 s2 (map link_piece (elements (Link_vector (g_tsb_links g'))))"
    using w(2) [unfolded write_tsb_links_def]
    by (intro writes_all) (auto simp: writes_def [of _ s1] intro: write_tsb_link_writes)
  moreover from this have "writes s2 s3 (map tsbcsm_piece (elements (Tsb_vector (g_tsbcsms g'))))"
    using w(3) [unfolded write_tsbcsms_def] assms(2,4)
    by (intro writes_all) (auto simp: writes_def [of _ s2] run_fits_def intro: write_tsbcsm_writes)
  moreover from this have "writes s3 (g_Physmap g', out') (map csm_link_piece (elements (Link_vector (g_tsbcsm_links g'))))"
    using w(4) [unfolded write_tsbcsm_links_def]
    by (intro writes_all) (auto simp: writes_def [of _ s3] intro: write_tsbcsm_link_writes)
  ultimately show ?thesis unfolding run_pieces_def by (intro writes_trans)
qed

text \<open>So the loaded memory holds the words of every piece.\<close>

lemma written_words:
  assumes "writes s s' ps" and "p \<in> set ps" and "k < length (snd p)"
  shows "snd (load_items (snd s') st) (advance (fst p) k) = Some (snd p ! k)"
proof -
  obtain es where e: "elements (fst s') = elements (fst s) @ es" "list_all2 piece_ok es ps"
    and wf: "physmap_wf (fst s')"
    and ld: "snd (load_items (snd s') st) = store_pieces ps (snd (load_items (snd s) st))"
    using assms(1) unfolding writes_def by blast
  have "physmap_wf_list (xs @ ys) \<Longrightarrow> physmap_wf_list ys" for xs ys
    by (induction xs) auto
  then have "physmap_wf_list es" using wf e(1) by (simp add: physmap_wf_def)
  moreover obtain i where "i < length ps" "p = ps ! i" using assms(2) by (auto simp: in_set_conv_nth)
  ultimately show ?thesis using store_pieces_nth [OF e(2)] assms(3) ld by simp
qed

lemma written_fits:
  assumes "writes s s' ps" and "p \<in> set ps"
  shows "fst p \<le> advance (fst p) (length (snd p)) \<and> 8 * length (snd p) < 2 ^ 64"
proof -
  obtain es where "list_all2 piece_ok es ps" using assms(1) by (auto simp: writes_def)
  then have "\<exists>e. piece_ok e p" using assms(2) by (metis in_set_conv_nth list_all2_conv_all_nth)
  then show ?thesis by (auto simp: piece_ok_def)
qed

subsection \<open>Walking a chain\<close>

text \<open>The words of the node \<open>i\<close> are four words from its address on.\<close>

lemma quads_nth:
  "i < length es \<Longrightarrow> j < 4 \<Longrightarrow>
   concat (map (\<lambda>e. [f e, g e, h e, h e]) es) ! (4 * i + j) = [f (es ! i), g (es ! i), h (es ! i), h (es ! i)] ! j"
proof (induction es arbitrary: i)
  case (Cons e es)
  then show ?case by (cases i) (auto simp: less_Suc_eq numeral_eq_Suc)
qed simp

lemma flat_nth:
  "i < length es \<Longrightarrow> flat row es ! (2 * i) = fst (row (es ! i)) \<and> flat row es ! Suc (2 * i) = snd (row (es ! i))"
proof (induction es arbitrary: i)
  case (Cons e es)
  then show ?case by (cases i) auto
qed simp

definition holds :: "memory \<Rightarrow> piece \<Rightarrow> bool" where
  "holds m p \<longleftrightarrow>
    fst p \<le> advance (fst p) (length (snd p)) \<and> 8 * length (snd p) < 2 ^ 64 \<and>
    (\<forall>k < length (snd p). m (advance (fst p) k) = Some (snd p ! k))"

lemma node_words:
  assumes "holds m (link_piece l)" and "i < length (nodes l)"
  shows "m (node_addr (tl_start_addr l) i) = Some (le_tag (nodes l ! i))"
    and "m (advance (node_addr (tl_start_addr l) i) 1) = Some (le_data (nodes l ! i))"
    and "m (advance (node_addr (tl_start_addr l) i) 2) = Some (le_link (nodes l ! i))"
    and "node_addr (tl_start_addr l) i \<noteq> EOL"
proof -
  let ?a = "tl_start_addr l" and ?ws = "snd (link_piece l)"
  have len: "length ?ws = 4 * length (nodes l)" and fst: "fst (link_piece l) = ?a"
    by (simp_all add: link_piece_def length_quads)
  have w: "m (advance ?a (4 * i + j)) = Some ([le_tag (nodes l ! i), le_data (nodes l ! i),
      le_link (nodes l ! i), le_link (nodes l ! i)] ! j)" if "j < 4" for j
    using assms that quads_nth [OF assms(2) that]
    by (simp add: holds_def length_quads link_piece_def)
  have a: "node_addr ?a i = advance ?a (4 * i)" by (rule advance_quads [symmetric])
  show "m (node_addr ?a i) = Some (le_tag (nodes l ! i))" using w [of 0] by (simp add: a)
  show "m (advance (node_addr ?a i) 1) = Some (le_data (nodes l ! i))"
    using w [of 1] by (simp add: a advance_advance)
  show "m (advance (node_addr ?a i) 2) = Some (le_link (nodes l ! i))"
    using w [of 2] by (simp add: a advance_advance)
  have h: "?a \<le> advance ?a (4 * length (nodes l))" "8 * (4 * length (nodes l)) < 2 ^ 64"
    using assms(1) by (simp_all add: holds_def len fst)
  have "unat (advance ?a (4 * i)) + 32 \<le> unat (advance ?a (4 * length (nodes l)))"
    using unat_advance [OF h] unat_advance_less [OF h, of "4 * i"] assms(2) by simp
  then have "unat (node_addr ?a i) + 32 < 2 ^ 64" unfolding a using unat_less_64 le_less_trans by blast
  then show "node_addr ?a i \<noteq> EOL" by (auto simp: EOL_def unsigned_minus_1_eq_mask mask_eq_exp_minus_1)
qed

lemma walk_chain_pairs:
  assumes "link_wf l" and "holds m (link_piece l)"
  shows "h < length (nodes l) \<Longrightarrow> length (nodes l) - h \<le> n \<Longrightarrow>
    walk_chain m n (node_addr (tl_start_addr l) h) = Some (chain_pairs l h)"
proof (induction n arbitrary: h)
  case (Suc n)
  let ?a = "tl_start_addr l"
  note N = node_words [OF assms(2) Suc.prems(1)]
  show ?case
  proof (cases "le_next (nodes l ! h)")
    case None
    have "le_link (nodes l ! h) = EOL"
      using assms(1) Suc.prems(1) None by (auto simp: link_wf_def area_wf_def node_ok_def)
    with N None Suc.prems(1) show ?thesis
      by (simp add: chain_pairs_def chain_idx_None tsb_pair_def)
  next
    case (Some j)
    note J = area_wf_next [OF assms(1) [unfolded link_wf_def] Suc.prems(1) Some]
    have "walk_chain m n (node_addr ?a j) = Some (chain_pairs l j)"
      using J Suc.prems(2) by (intro Suc.IH) auto
    moreover have "node_addr ?a j \<noteq> EOL" using node_words(4) [OF assms(2), of j] J by simp
    ultimately show ?thesis
      using N(1-3) J Suc.prems(1) Some by (simp add: chain_pairs_def chain_idx_Some tsb_pair_def)
  qed
qed simp

subsection \<open>Reading a table\<close>

text \<open>An entry with the link tag holds the exact address of the first node of its chain.\<close>

definition heads_exact :: "tsb_heap \<Rightarrow> bool" where
  "heads_exact hp \<longleftrightarrow>
    (\<forall>p i e k l. cell (fst hp) p i = Some e \<and> te_tag e = TSB_LINK_TAG \<and> link_of (fst hp) p = Some k \<and>
      area (snd hp) k = Some l \<longrightarrow> te_data e = node_addr (tl_start_addr l) (te_head l e))"

lemma read_tsb_bucket:
  assumes "heap_wf hp" and "heads_exact hp" and p: "area (fst hp) p = Some t"
    and i: "i < unat (t_num_entries t)" "unat (t_num_entries t) \<le> length (t_entries t)"
    and m: "holds m (tsb_piece t)" "\<And>l. l \<in> set (elements (snd hp)) \<Longrightarrow> holds m (link_piece l)"
    and n: "\<And>l. l \<in> set (elements (snd hp)) \<Longrightarrow> length (nodes l) \<le> n"
  shows "read_tsb m n (t_start_addr t) i = Some (bucket hp p i)"
proof -
  let ?es = "take (unat (t_num_entries t)) (t_entries t)" and ?row = "\<lambda>e. (te_tag e, te_data e)"
  let ?e = "t_entries t ! i"
  have c: "cell (fst hp) p i = Some ?e" and lk: "link_of (fst hp) p = t_link_ptr t"
    using p i by (auto simp: cell_def area_def link_of_def split: if_splits)
  have w: "m (advance (t_start_addr t) (2 * i)) = Some (te_tag ?e)"
      "m (advance (t_start_addr t) (2 * i + 1)) = Some (te_data ?e)"
    using m(1) i flat_nth [of i ?es ?row] by (simp_all add: holds_def tsb_piece_def length_flat)
  show ?thesis
  proof (cases "te_tag ?e = TSB_LINK_TAG \<and> \<not> te_vacant ?e")
    case False
    then show ?thesis using w c
      by (auto simp: read_tsb_def bucket_def entry_bucket_def te_vacant_def)
  next
    case True
    obtain k l where k: "link_of (fst hp) p = Some k" "area (snd hp) k = Some l" "link_root l (te_head l ?e)"
      using assms(1) c True unfolding heap_wf_def by blast
    have l: "l \<in> set (elements (snd hp))" "link_wf l"
      using k(2) assms(1) by (auto simp: area_def heap_wf_def split: if_splits)
    have "walk_chain m n (node_addr (tl_start_addr l) (te_head l ?e)) = Some (chain_pairs l (te_head l ?e))"
      using k(3) n [OF l(1)] by (intro walk_chain_pairs l(2) m(2) [OF l(1)]) (auto simp: link_root_def is_root_def)
    moreover have "te_data ?e = node_addr (tl_start_addr l) (te_head l ?e)"
      using assms(2) c True k by (auto simp: heads_exact_def)
    ultimately show ?thesis
      using w c True k by (simp add: read_tsb_def bucket_def entry_bucket_def te_vacant_def TSB_LINK_TAG_def)
  qed
qed

end
