(* ===== verification/Gf_Exact.thy ===== *)
theory Gf_Exact
  imports Gf_Reader
begin

text \<open>
  The run keeps the heads of the chains exact, so that the reader of \<open>Gf_Reader\<close> finds the
  bucket of every index in the memory that the image of a whole run is loaded into. The second
  part has that image as a list of pieces, blocks and tables.
\<close>

subsection \<open>Adding an entry keeps the heads exact\<close>

lemma link_add_entry_head:
  assumes "tsb_link_add_entry l tag data te blk btsb = Inr (l', te')"
  shows "tl_start_addr l' = tl_start_addr l \<and>
    (if te_tag te = TSB_LINK_TAG then te' = te
     else te_data te' = node_addr (tl_start_addr l) (length (nodes l)) \<and> LINK_SIZE * length (nodes l) < 2 ^ 31)"
proof (cases "te_tag te = TSB_LINK_TAG")
  case True
  then show ?thesis
    using assms by (auto simp: tsb_link_add_entry_def Let_def gf_res dest!: add_to_chain_InrD)
next
  case False
  obtain l1 h l2 e where s: "start_new_chain l (te_tag te) (te_data te) blk btsb = Inr (l1, h)"
    and a: "add_to_chain l1 h tag data blk btsb = Inr l2" and e: "vector_elem (tl_entries l2) (int h) = Inr e"
    and r: "l' = l2" "te' = te\<lparr>te_tag := TSB_LINK_TAG, te_data := le_my_link e\<rparr>"
    using assms False by (auto simp: tsb_link_add_entry_def gf_res)
  obtain n where S: "h = length (nodes l)" "LINK_SIZE * length (nodes l) < 2 ^ 31"
    "tl_start_addr l1 = tl_start_addr l" "nodes l1 = nodes l @ [n]"
    "le_my_link n = node_addr (tl_start_addr l) (length (nodes l))"
    using start_new_chain_InrD [OF s] by auto
  obtain n' where A: "tl_start_addr l2 = tl_start_addr l1"
    "nodes l2 = (nodes l1 @ [n'])[h := hook_entry (length (nodes l1))
      (node_addr (tl_start_addr l1) (length (nodes l1))) ((nodes l1 @ [n']) ! h)]"
    using add_to_chain_InrD [OF a] by auto
  have "le_my_link (nodes l2 ! h) = node_addr (tl_start_addr l) (length (nodes l))"
    using S A by (simp add: hook_entry_def nth_append)
  moreover have "e = nodes l2 ! h" using e by (auto simp: vector_elem_area area_def split: if_splits)
  ultimately show ?thesis using False S A r by simp
qed

lemma heads_exactI:
  assumes "\<And>p i e k l. cell (fst hp) p i = Some e \<Longrightarrow> te_tag e = TSB_LINK_TAG \<Longrightarrow> link_of (fst hp) p = Some k \<Longrightarrow>
    area (snd hp) k = Some l \<Longrightarrow> te_data e = node_addr (tl_start_addr l) (te_head l e)"
  shows "heads_exact hp"
  using assms by (auto simp: heads_exact_def)

lemma heads_exactD:
  "heads_exact hp \<Longrightarrow> cell (fst hp) p i = Some e \<Longrightarrow> te_tag e = TSB_LINK_TAG \<Longrightarrow> link_of (fst hp) p = Some k \<Longrightarrow>
   area (snd hp) k = Some l \<Longrightarrow> te_data e = node_addr (tl_start_addr l) (te_head l e)"
  by (auto simp: heads_exact_def)

lemma add_entry_exact:
  assumes "add_entry va_of allow p ix tag data blk btsb hp = Inr hp'" and ex: "heads_exact hp" and tag: "tag \<noteq> TSB_LINK_TAG"
  shows "heads_exact hp'"
  using assms(1)
proof (cases rule: add_entry_cases)
  case (fill e)
  have c: "cell (fst hp) p (unat ix) \<noteq> None" using fill(1) by simp
  show ?thesis
    by (rule heads_exactI)
      (use heads_exactD [OF ex] tag in \<open>auto simp: cell_put [OF fill(3) c] link_of_put [OF fill(3)] fill(4)
        split: if_splits\<close>)
next
  case (link e k l l' e')
  have c: "cell (fst hp) p (unat ix) \<noteq> None" using link(1) by simp
  note H = link_add_entry_head [OF link(6)]
  have lk: "link_of (fst hp') = link_of (fst hp)" by (rule link_of_put [OF link(8)])
  have start: "\<exists>m. area (snd hp) j = Some m \<and> tl_start_addr m = tl_start_addr n" if "area (snd hp') j = Some n" for j n
    using that H link(5) by (auto simp: area_put [OF link(7)] split: if_splits)
  show ?thesis
  proof (rule heads_exactI)
    fix q i f j n
    assume f: "cell (fst hp') q i = Some f" "te_tag f = TSB_LINK_TAG" "link_of (fst hp') q = Some j"
      and n: "area (snd hp') j = Some n"
    obtain m where m: "area (snd hp) j = Some m" "tl_start_addr m = tl_start_addr n" using start [OF n] by auto
    show "te_data f = node_addr (tl_start_addr n) (te_head n f)"
    proof (cases "q = p \<and> i = unat ix")
      case False
      then have "cell (fst hp) q i = Some f" using f(1) by (auto simp: cell_put [OF link(8) c] split: if_splits)
      from heads_exactD [OF ex this f(2) f(3) [unfolded lk] m(1)] m(2) show ?thesis by simp
    next
      case True
      then have "f = e'" and "j = k" using f link(4) by (auto simp: cell_put [OF link(8) c] lk)
      with True m link(5) have ml: "m = l" by simp
      show ?thesis
      proof (cases "te_tag e = TSB_LINK_TAG")
        case t: True
        with H \<open>f = e'\<close> have "f = e" by simp
        with heads_exactD [OF ex link(1) t link(4) link(5)] m(2) ml show ?thesis by simp
      next
        case t: False
        then show ?thesis using H \<open>f = e'\<close> m(2) ml by (simp add: link_index_node_addr)
      qed
    qed
  qed
qed

subsection \<open>So do the loops over pages, blocks and applications\<close>

definition exact_sized :: "u64 list \<Rightarrow> tsb_heap \<Rightarrow> bool" where
  "exact_sized sz hp \<longleftrightarrow> heads_exact hp \<and> sizes (fst hp) = sz"

lemma add_block_tsb_exact:
  assumes "add_block_tsb_to_tsb va_of allow blk bt bref btref hp = Inr hp'" and "exact_sized sz hp"
    and "proper_pages sz blk bt"
  shows "exact_sized sz hp'"
proof -
  obtain p t g where p: "bt_tsb bt = Some p" and t: "vector_elem (fst hp) (int p) = Inr t"
    and g: "page_geometry blk bt (get_tsb_size_bits t) = Inr g"
    and f: "res_fold (\<lambda>k hp. res_bind (page_index g k) (\<lambda>index.
            add_entry va_of allow p index (page_tag g k) (page_data g k) (Some bref) (Some btref) hp))
          [0..<unat (g_num_pages g)] hp = Inr hp'"
    using assms(1) by (auto simp: add_block_tsb_to_tsb_def gf_res split: option.splits)
  have "sz ! p = get_tsb_size_bits t" using sizes_nth [OF t] assms(2) by (simp add: exact_sized_def)
  then have tag: "page_tag g k \<noteq> TSB_LINK_TAG" if "k < unat (g_num_pages g)" for k
    using assms(3) p g that by (auto simp: proper_pages_def)
  have "heads_exact hp'"
    by (rule res_fold_invariant [OF f])
      (use assms(2) tag in \<open>auto simp: exact_sized_def gf_res intro: add_entry_exact\<close>)
  with add_block_tsb_sizes [OF assms(1)] assms(2) show ?thesis by (simp add: exact_sized_def)
qed

lemma block_add_exact:
  assumes "block_add_to_tsbs va_of allow bref blk hp = Inr hp'" and "exact_sized sz hp"
    and "\<forall>bt \<in> set (elements (b_tsbs blk)). proper_pages sz blk bt"
  shows "exact_sized sz hp'"
  using assms(1) [unfolded block_add_to_tsbs_def] assms(2)
  by (rule res_fold_invariant)
    (use assms(3) in \<open>auto dest!: in_set_enumerateD intro: add_block_tsb_exact\<close>)

lemma app_add_exact:
  assumes "app_add_to_tsbs va_of allow n a hp = Inr hp'" and "exact_sized sz hp" and "proper_app sz a"
  shows "exact_sized sz hp'"
  using assms(1) [unfolded app_add_to_tsbs_def] assms(2)
  by (rule res_fold_invariant)
    (use assms(3) in \<open>auto simp: proper_app_def dest!: in_set_enumerateD intro: block_add_exact\<close>)

lemma apps_add_exact:
  assumes "add_apps_to_tsbs allow apps hp = Inr hp'" and "exact_sized sz hp"
    and "\<forall>a \<in> set (elements apps). proper_app sz a"
  shows "exact_sized sz hp'"
  using assms(1) [unfolded add_apps_to_tsbs_def] assms(2)
  by (rule res_fold_invariant)
    (use assms(3) in \<open>auto dest!: in_set_enumerateD intro: app_add_exact\<close>)

lemma fresh_exact: "fresh g \<Longrightarrow> heads_exact (tsb_heap_of g)"
  by (rule heads_exactI)
    (auto simp: fresh_def tsb_heap_of_def dest!: blank_cell simp: zero_tsb_entry_def TSB_LINK_TAG_def)

lemma gen_tsbs_exact:
  assumes "gen_tsbs opts (g, out) = Inr (g', out')" and "fresh g"
    and "\<forall>a \<in> set (elements (App_vector (g_apps g'))). proper_app (tsb_sizes g') a"
  shows "heads_exact (tsb_heap_of g')"
proof -
  note st = gen_tsbs_steps [OF assms(1)]
  have "sizes (fst (tsb_heap_of g)) = tsb_sizes g'"
    using add_apps_sizes [OF st(1)] by (simp add: tsb_heap_of_def tsb_sizes_def)
  then have "exact_sized (tsb_sizes g') (tsb_heap_of g)"
    using fresh_exact [OF assms(2)] by (simp add: exact_sized_def)
  from apps_add_exact [OF st(1) this] assms(3) show ?thesis by (simp add: st(3) exact_sized_def)
qed

subsection \<open>Reading the memory of a run\<close>

lemma visit_all_ok:
  assumes "visit_vector v (\<lambda>x (pm, out). res_bind (w x pm) (\<lambda>(pm', is). Inr (pm', out @ is))) s = Inr s'"
    and "x \<in> set (elements v)"
  shows "\<exists>pm r. w x pm = Inr r"
proof -
  have "x \<in> set xs \<Longrightarrow> \<exists>pm r. w x pm = Inr r"
    if "res_fold (\<lambda>x (pm, out). res_bind (w x pm) (\<lambda>(pm', is). Inr (pm', out @ is))) xs s = Inr s'" for xs s
    using that by (induction xs arbitrary: s) (auto simp: gf_res split: prod.splits)
  with assms show ?thesis by (simp add: visit_vector_def)
qed

lemma gen_tsbs_full:
  assumes "gen_tsbs opts (g, out) = Inr (g', out')" and "t \<in> set (elements (Tsb_vector (g_tsbs g')))"
  shows "unat (t_num_entries t) \<le> length (t_entries t)"
proof -
  obtain s1 where w: "write_tsbs (o_Suppress_zero opts) (o_EnvZero opts) (Tsb_vector (g_tsbs g'))
          (g_Physmap g, out @ MMU_header) = Inr s1"
    using assms(1) by (auto simp: gen_tsbs_def Let_def gf_res split: prod.splits)
  from visit_all_ok [OF w [unfolded write_tsbs_def] assms(2)] show ?thesis
    by (auto simp: write_tsb_def write_table_def gf_res split: if_splits)
qed

lemma run_reads:
  assumes run: "process_goldfinger_file env opts args infile g0 = Inr (g, out, str)" and gen: "c_gentsbs args"
    and proper: "\<forall>a \<in> set (elements (App_vector (g_apps g))). proper_app (tsb_sizes g) a"
    and fits: "run_fits g" and env: "o_Suppress_zero opts \<Longrightarrow> o_EnvZero opts"
    and q: "q < length (elements (Tsb_vector (g_tsbs g)))" "t = elements (Tsb_vector (g_tsbs g)) ! q"
    and j: "j < unat (t_num_entries t)"
    and n: "\<And>l. l \<in> set (elements (Link_vector (g_tsb_links g))) \<Longrightarrow> length (nodes l) \<le> n"
  shows "read_tsb (snd (load_items out s0)) n (t_start_addr t) j =
    Some (concat (map (app_pages (tsb_sizes g) q j) (elements (App_vector (g_apps g)))))"
proof -
  obtain g1 g2 apps pm out1 where p: "yyparse env infile (init_image_file_data_structures g0) = Inr g1"
    and f: "finish_image_file_init g1 = Inr g2"
    and e: "process_app_elf_files (e_elf env) (o_Compress opts) (o_EnvZero opts) (g_Pa_size g2)
        (c_genimage args) (g_apps g2, g_Physmap g2, []) = Inr (apps, pm, out1)"
    and t: "gen_tsbs opts (g2\<lparr>g_apps := apps, g_Physmap := pm\<rparr>, out1) = Inr (g, out)"
    using run gen by (auto elim!: run_steps)
  have "fresh g2" by (rule finish_fresh [OF f yyparse_inv [OF p parse_inv_init]])
  then have fr: "fresh (g2\<lparr>g_apps := apps, g_Physmap := pm\<rparr>)" by (simp add: fresh_def)
  have "physmap_wf (g_Physmap g2)"
    using yyparse_inv [OF p parse_inv_init] finish_physmap [OF f] by (simp add: parse_inv_def)
  then have "physmap_wf pm" by (rule process_apps_wf [OF e])
  then have w: "writes (pm, out1 @ MMU_header) (g_Physmap g, out) (run_pieces g)"
    using gen_tsbs_writes [OF t fits] env by simp
  let ?m = "snd (load_items out s0)" and ?hp = "tsb_heap_of g"
  have holds: "holds ?m x" if "x \<in> set (run_pieces g)" for x
    using written_words [OF w that] written_fits [OF w that] by (simp add: holds_def)
  note tab = gen_tsbs_pages [OF t fr proper]
  have "read_tsb ?m n (t_start_addr (elements (Tsb_vector (g_tsbs g)) ! q)) j = Some (bucket ?hp q j)"
  proof (rule read_tsb_bucket)
    show "heads_exact ?hp" by (rule gen_tsbs_exact [OF t fr proper])
    show "area (fst ?hp) q = Some (elements (Tsb_vector (g_tsbs g)) ! q)"
      using q(1) by (simp add: tsb_heap_of_def area_def)
  qed (use tab q(1) j n gen_tsbs_full [OF t] in \<open>auto simp: tsb_heap_of_def q(2) run_pieces_def intro!: holds\<close>)
  then show ?thesis using tab by (simp add: q(2))
qed

section \<open>The image of a run as pieces\<close>

text \<open>
  The image of a whole run, blocks and tables: every piece of it, a block of an application
  or a table, claims its own region of the physical map, so that the loaded memory holds
  each of them and nothing else is written.
\<close>

subsection \<open>The pieces of a run\<close>

text \<open>A block is loaded from a section of its name, if it is to be in the image.\<close>

definition loads_name :: "elf_section \<Rightarrow> bool" where
  "loads_name scn \<longleftrightarrow> loads_data scn \<and> es_name scn \<noteq> None"

definition in_section :: "elf_section \<Rightarrow> block \<Rightarrow> bool" where
  "in_section scn blk \<longleftrightarrow> loads_name scn \<and> b_link_section blk = es_name scn \<and> b_in_image blk \<noteq> 0"

definition block_piece :: "elf_section \<Rightarrow> block \<Rightarrow> piece" where
  "block_piece scn blk = (b_pa blk, pair64 (block_words scn blk))"

definition section_pieces :: "elf_section \<Rightarrow> block list \<Rightarrow> piece list" where
  "section_pieces scn blks = map (block_piece scn) (filter (in_section scn) blks)"

definition elf_pieces :: "elf_section list \<Rightarrow> block list \<Rightarrow> piece list" where
  "elf_pieces scns blks = concat (map (\<lambda>scn. section_pieces scn blks) scns)"

definition app_pieces :: "(string \<Rightarrow> elf_section list option) \<Rightarrow> app \<Rightarrow> piece list" where
  "app_pieces elf_of a =
    (case Option.bind (a_elf_file a) elf_of of
       None \<Rightarrow> []
     | Some scns \<Rightarrow> elf_pieces scns (elements (a_blocks a)))"

definition image_pieces :: "environment \<Rightarrow> cmdline_args \<Rightarrow> gf_state \<Rightarrow> piece list" where
  "image_pieces env args g =
    (if c_genimage args then concat (map (app_pieces (e_elf env)) (elements (App_vector (g_apps g)))) else []) @
    (if c_gentsbs args then run_pieces g else [])"

text \<open>
  What the pieces need: addresses below the size of physical memory, whole 64-bit words, no
  last line that is lost, and sections that can be told apart by their names.
\<close>

definition block_fits :: "bool \<Rightarrow> bool \<Rightarrow> int \<Rightarrow> elf_section \<Rightarrow> block \<Rightarrow> bool" where
  "block_fits cmp env pa_size scn blk \<longleftrightarrow>
    unat (b_pa blk) < 2 ^ nat pa_size \<and> 8 dvd unat (b_d_length blk) \<and>
    (b_compress blk \<noteq> 0 \<and> cmp \<longrightarrow> env \<and> \<not> stale_tail (block_words scn blk))"

definition load_names :: "elf_section list \<Rightarrow> string option list" where
  "load_names scns = map es_name (filter loads_name scns)"

definition elf_fits :: "bool \<Rightarrow> bool \<Rightarrow> int \<Rightarrow> elf_section list \<Rightarrow> block list \<Rightarrow> bool" where
  "elf_fits cmp env pa_size scns blks \<longleftrightarrow>
    distinct (load_names scns) \<and>
    (\<forall>scn \<in> set scns. \<forall>blk \<in> set blks. in_section scn blk \<longrightarrow> block_fits cmp env pa_size scn blk)"

definition app_fits ::
  "(string \<Rightarrow> elf_section list option) \<Rightarrow> bool \<Rightarrow> bool \<Rightarrow> int \<Rightarrow> app \<Rightarrow> bool" where
  "app_fits elf_of cmp env pa_size a \<longleftrightarrow>
    (\<forall>scns. Option.bind (a_elf_file a) elf_of = Some scns \<longrightarrow> elf_fits cmp env pa_size scns (elements (a_blocks a)))"

definition image_fits :: "environment \<Rightarrow> options \<Rightarrow> cmdline_args \<Rightarrow> gf_state \<Rightarrow> bool" where
  "image_fits env opts args g \<longleftrightarrow>
    (c_genimage args \<longrightarrow>
      (\<forall>a \<in> set (elements (App_vector (g_apps g))).
         app_fits (e_elf env) (o_Compress opts) (o_EnvZero opts) (g_Pa_size g) a)) \<and>
    (c_gentsbs args \<longrightarrow> run_fits g \<and> (o_Suppress_zero opts \<longrightarrow> o_EnvZero opts))"

subsection \<open>One block\<close>

lemma div4_even: "8 dvd unat n \<Longrightarrow> unat (n div 4 :: u64) = 2 * (unat n div 8)"
  by (auto simp: unat_div elim!: dvdE)

lemma block_writes:
  assumes gen: "block_generate_image cmp env pa_size scn blk pm = Inr (pm', is)" and wf: "physmap_wf pm"
    and img: "b_in_image blk \<noteq> 0" and fits: "block_fits cmp env pa_size scn blk"
  shows "writes (pm, out) (pm', out @ is) [block_piece scn blk]"
proof -
  let ?ws = "block_words scn blk"
  from block_generate_image_InrD [OF gen img] have
    add: "add_block_to_physmap pm (b_srcfile blk) (b_srcline blk) (b_lineno blk) (b_pa blk)
      (b_pa blk + b_d_length blk) (b_section_name blk) (b_segment_name blk) = Inr pm'"
    and len: "length ?ws = unat (b_d_length blk div 4)" by blast+
  have d: "8 dvd unat (b_d_length blk)" using fits by (simp add: block_fits_def)
  have n: "8 * length (pair64 ?ws) = unat (b_d_length blk)"
    using d by (simp add: length_pair64 len div4_even)
  then have stop: "b_pa blk + b_d_length blk = advance (b_pa blk) (length (pair64 ?ws))"
    by (simp add: advance_def)
  have b: "8 * length (pair64 ?ws) < 2 ^ 64" unfolding n by (rule unat_less_64)
  have ld: "snd (load_items is st) = store64s (b_pa blk) (pair64 ?ws) (snd st)" for st
    using block_image_load [OF gen img] fits by (simp add: block_fits_def)
  note A = add_entry_to_physmap_InrD [OF add [unfolded add_block_to_physmap_def] wf]
  show ?thesis using A b ld stop by (auto simp: writes_def piece_ok_def block_piece_def)
qed

subsection \<open>The blocks of a section\<close>

lemma blocks_write:
  assumes "res_fold (blk_gen_image_if_match cmp env pa_size nm scn) blks s = Inr s'"
    and "physmap_wf (fst s)" and "loads_data scn" and "es_name scn = Some nm"
    and "\<And>blk. blk \<in> set blks \<Longrightarrow> in_section scn blk \<Longrightarrow> block_fits cmp env pa_size scn blk"
  shows "writes s s' (section_pieces scn blks)"
  using assms(1,2,5)
proof (induction blks arbitrary: s)
  case Nil
  then show ?case by (simp add: section_pieces_def writes_refl)
next
  case (Cons blk blks)
  from Cons.prems(1) obtain s1 where f: "blk_gen_image_if_match cmp env pa_size nm scn blk s = Inr s1"
    and r: "res_fold (blk_gen_image_if_match cmp env pa_size nm scn) blks s1 = Inr s'"
    by (auto simp: gf_res)
  have w: "writes s s1 (section_pieces scn [blk])"
  proof (cases "in_section scn blk")
    case True
    then have i: "b_in_image blk \<noteq> 0" "block_fits cmp env pa_size scn blk" "nm = the (b_link_section blk)"
      "b_link_section blk = Some nm"
      using Cons.prems(3) [of blk] assms(4) by (auto simp: in_section_def)
    obtain pm out where s: "s = (pm, out)" by (cases s)
    obtain pm' "is" where g: "block_generate_image cmp env pa_size scn blk pm = Inr (pm', is)" "s1 = (pm', out @ is)"
      using f i(4) by (auto simp: blk_gen_image_if_match_def block_link_section_compare_def gf_res s)
    show ?thesis
      using block_writes [OF g(1) _ i(1,2), of out] Cons.prems(2) True by (simp add: s g(2) section_pieces_def)
  next
    case False
    then have "s1 = s"
      using f assms(3,4)
      by (cases s) (auto simp: blk_gen_image_if_match_def block_link_section_compare_def gf_res in_section_def
          loads_name_def block_generate_image_def split: if_splits option.splits)
    then show ?thesis using False Cons.prems(2) by (simp add: section_pieces_def writes_refl)
  qed
  then have "physmap_wf (fst s1)" by (simp add: writes_def)
  with Cons.IH [OF r] Cons.prems(3) have "writes s1 s' (section_pieces scn blks)" by simp
  from writes_trans [OF w this] show ?case by (simp add: section_pieces_def split: if_splits)
qed

text \<open>What the sections named do to the blocks: only blocks of these names change.\<close>

definition block_step :: "string option set \<Rightarrow> block \<Rightarrow> block \<Rightarrow> bool" where
  "block_step nms b b' \<longleftrightarrow>
    b_link_section b' = b_link_section b \<and> (b_link_section b \<notin> nms \<longrightarrow> b' = b)"

lemma block_step_trans:
  "block_step A b c \<Longrightarrow> block_step B c d \<Longrightarrow> block_step (A \<union> B) b d"
  by (auto simp: block_step_def)

lemma blocks_step_trans:
  "list_all2 (block_step A) bs cs \<Longrightarrow> list_all2 (block_step B) cs ds \<Longrightarrow> list_all2 (block_step (A \<union> B)) bs ds"
  by (rule list_all2_trans [of "block_step A" "block_step B"]) (auto intro: block_step_trans)

lemma blocks_step_refl: "list_all2 (block_step A) bs bs"
  by (rule list.rel_refl) (simp add: block_step_def)

lemma section_pieces_step:
  assumes "list_all2 (block_step A) bs bs'" and "loads_name scn \<Longrightarrow> es_name scn \<notin> A"
  shows "section_pieces scn bs' = section_pieces scn bs"
  using assms(1)
proof (induction bs bs' rule: list_all2_induct)
  case (Cons b bs b' bs')
  have "in_section scn b' = in_section scn b \<and> (in_section scn b \<longrightarrow> b' = b)"
    using Cons(1) assms(2) by (cases "b_link_section b = es_name scn") (auto simp: block_step_def in_section_def)
  with Cons show ?case by (simp add: section_pieces_def)
qed (simp add: section_pieces_def)

lemma calculate_step:
  assumes "blk_calculate_size_if_match pa_size a nm b = Inr b'"
  shows "block_step {Some nm} b b'"
  using assms
  by (auto simp: blk_calculate_size_if_match_def block_link_section_compare_def block_step_def gf_res
      split: if_splits option.splits dest!: block_calculate_size_InrD)

lemma iter_calculate_step:
  "iter_cells (\<lambda>blk u. res_bind (blk_calculate_size_if_match pa_size a nm blk) (\<lambda>blk'. Inr (blk', u))) bs () = Inr (bs', u)
    \<Longrightarrow> list_all2 (block_step {Some nm}) bs bs'"
  by (induction bs arbitrary: bs') (auto simp: gf_res dest: calculate_step split: prod.splits)

lemma process_section_cases:
  assumes "process_section cmp env pa_size gen scn (a, pm, out) = Inr (a', pm', out')"
  obtains (skip) "\<not> loads_name scn" "a' = a" "pm' = pm" "out' = out"
  | (blocks) nm bs where "loads_data scn" "es_name scn = Some nm" "a' = a\<lparr>a_blocks := (a_blocks a)\<lparr>elements := bs\<rparr>\<rparr>"
      "list_all2 (block_step {Some nm}) (elements (a_blocks a)) bs"
      "if gen then res_fold (blk_gen_image_if_match cmp env pa_size nm scn) bs (pm, out) = Inr (pm', out')
       else pm' = pm \<and> out' = out"
proof (cases "loads_name scn")
  case False
  then show ?thesis
    using assms by (intro that(1)) (auto simp: process_section_def loads_name_def split: if_splits option.splits)
next
  case True
  then obtain nm where nm: "es_name scn = Some nm" "loads_data scn" by (auto simp: loads_name_def)
  let ?calc = "\<lambda>blk u. res_bind (blk_calculate_size_if_match pa_size a nm blk) (\<lambda>blk'. Inr (blk', u))"
  obtain bs where b: "iter_cells ?calc (elements (a_blocks a)) () = Inr (bs, ())"
    and r: "if gen then res_fold (blk_gen_image_if_match cmp env pa_size nm scn) bs (pm, out) = Inr (pm', out')
      else pm' = pm \<and> out' = out"
    and a': "a' = a\<lparr>a_blocks := (a_blocks a)\<lparr>elements := bs\<rparr>\<rparr>"
    using assms nm by (auto simp: process_section_def iterate_vector_def visit_vector_def Let_def gf_res split: if_splits)
  show ?thesis by (rule that(2) [OF nm(2,1) a' iter_calculate_step [OF b] r])
qed

lemma process_section_step:
  assumes "process_section cmp env pa_size gen scn (a, pm, out) = Inr (a', pm', out')"
  shows "a_elf_file a' = a_elf_file a \<and>
    list_all2 (block_step (set (load_names [scn]))) (elements (a_blocks a)) (elements (a_blocks a'))"
  using assms
  by (cases rule: process_section_cases) (simp_all add: blocks_step_refl load_names_def loads_name_def)

lemma process_section_writes:
  assumes p: "process_section cmp env pa_size gen scn (a, pm, out) = Inr (a', pm', out')" and wf: "physmap_wf pm"
    and fits: "\<And>blk. gen \<Longrightarrow> blk \<in> set (elements (a_blocks a')) \<Longrightarrow> in_section scn blk \<Longrightarrow>
      block_fits cmp env pa_size scn blk"
  shows "writes (pm, out) (pm', out') (if gen then section_pieces scn (elements (a_blocks a')) else [])"
  using p
proof (cases rule: process_section_cases)
  case skip
  then show ?thesis using wf by (simp add: writes_refl section_pieces_def in_section_def)
next
  case (blocks nm bs)
  show ?thesis
  proof (cases gen)
    case True
    with blocks(5) have "res_fold (blk_gen_image_if_match cmp env pa_size nm scn) bs (pm, out) = Inr (pm', out')" by simp
    from blocks_write [OF this _ blocks(1,2)] True wf fits show ?thesis by (simp add: blocks(3))
  next
    case False
    with blocks(5) wf show ?thesis by (simp add: writes_refl)
  qed
qed

subsection \<open>The sections of a file\<close>

lemma load_names_Cons: "load_names (scn # scns) = load_names [scn] @ load_names scns"
  by (simp add: load_names_def)

lemma sections_step:
  assumes "res_fold (process_section cmp env pa_size gen) scns (a, pm, out) = Inr (a', pm', out')"
  shows "a_elf_file a' = a_elf_file a \<and>
    list_all2 (block_step (set (load_names scns))) (elements (a_blocks a)) (elements (a_blocks a'))"
  using assms
proof (induction scns arbitrary: a pm out)
  case (Cons scn scns)
  from Cons.prems obtain b pmb outb where p: "process_section cmp env pa_size gen scn (a, pm, out) = Inr (b, pmb, outb)"
    and r: "res_fold (process_section cmp env pa_size gen) scns (b, pmb, outb) = Inr (a', pm', out')"
    by (auto simp: gf_res)
  note 1 = process_section_step [OF p] and 2 = Cons.IH [OF r]
  have "list_all2 (block_step (set (load_names [scn]) \<union> set (load_names scns)))
      (elements (a_blocks a)) (elements (a_blocks a'))"
    using 1 2 by (blast intro: blocks_step_trans)
  with 1 2 show ?case by (simp add: load_names_Cons [of scn scns])
qed (simp add: blocks_step_refl)

lemma sections_write:
  assumes "res_fold (process_section cmp env pa_size gen) scns (a, pm, out) = Inr (a', pm', out')"
    and "physmap_wf pm" and "gen \<Longrightarrow> elf_fits cmp env pa_size scns (elements (a_blocks a'))"
  shows "writes (pm, out) (pm', out') (if gen then elf_pieces scns (elements (a_blocks a')) else [])"
  using assms
proof (induction scns arbitrary: a pm out)
  case Nil
  then show ?case by (simp add: elf_pieces_def writes_refl)
next
  case (Cons scn scns)
  from Cons.prems(1) obtain b pmb outb where p: "process_section cmp env pa_size gen scn (a, pm, out) = Inr (b, pmb, outb)"
    and r: "res_fold (process_section cmp env pa_size gen) scns (b, pmb, outb) = Inr (a', pm', out')"
    by (auto simp: gf_res)
  let ?bs = "elements (a_blocks a')"
  have st: "list_all2 (block_step (set (load_names scns))) (elements (a_blocks b)) ?bs"
    using sections_step [OF r] by simp
  have fresh: "es_name scn \<notin> set (load_names scns)" if gen "loads_name scn"
    using Cons.prems(3) that by (simp add: elf_fits_def load_names_def)
  have same: "section_pieces scn ?bs = section_pieces scn (elements (a_blocks b))" if gen
    by (rule section_pieces_step [OF st fresh [OF that]])
  have fits: "block_fits cmp env pa_size scn blk"
    if g: gen and blk: "blk \<in> set (elements (a_blocks b))" "in_section scn blk" for blk
  proof -
    obtain k where k: "k < length (elements (a_blocks b))" "elements (a_blocks b) ! k = blk"
      using blk(1) by (auto simp: in_set_conv_nth)
    have "loads_name scn" "b_link_section blk = es_name scn" using blk(2) by (simp_all add: in_section_def)
    then have "?bs ! k = blk" "k < length ?bs"
      using st k fresh [OF g] by (auto simp: list_all2_conv_all_nth block_step_def)
    then have "blk \<in> set ?bs" by (metis nth_mem)
    with Cons.prems(3) [OF g] blk(2) show ?thesis by (simp add: elf_fits_def)
  qed
  have w1: "writes (pm, out) (pmb, outb) (if gen then section_pieces scn ?bs else [])"
    using process_section_writes [OF p Cons.prems(2) fits] same by (simp split: if_splits)
  then have "physmap_wf pmb" by (simp add: writes_def)
  then have "writes (pmb, outb) (pm', out') (if gen then elf_pieces scns ?bs else [])"
    by (rule Cons.IH [OF r]) (use Cons.prems(3) in \<open>auto simp: elf_fits_def load_names_Cons [of scn scns]\<close>)
  from writes_trans [OF w1 this] show ?case by (cases gen) (simp_all add: elf_pieces_def)
qed

subsection \<open>The files of the applications\<close>

lemma scan_section_elf_file: "scan_section scn (a, n) = Inr (a', n') \<Longrightarrow> a_elf_file a' = a_elf_file a"
  by (auto simp: scan_section_def Let_def gf_res split: if_splits option.splits)

lemma scan_sections_elf_file: "res_fold scan_section scns s = Inr s' \<Longrightarrow> a_elf_file (fst s') = a_elf_file (fst s)"
  by (erule res_fold_invariant [where I = "\<lambda>t. a_elf_file (fst t) = a_elf_file (fst s)"])
    (auto dest: scan_section_elf_file)

lemma process_elf_file_writes:
  assumes p: "process_elf_file cmp env pa_size gen (Option.bind (a_elf_file a) elf_of) (a, pm, out) = Inr (a', pm', out')"
    and wf: "physmap_wf pm" and fits: "gen \<Longrightarrow> app_fits elf_of cmp env pa_size a'"
  shows "writes (pm, out) (pm', out') (if gen then app_pieces elf_of a' else [])"
proof -
  obtain scns where elf: "Option.bind (a_elf_file a) elf_of = Some scns"
    using p by (auto simp: process_elf_file_def split: option.splits)
  obtain a1 n where s: "res_fold scan_section scns (a, 0) = Inr (a1, n)"
    using p elf by (auto simp: process_elf_file_def gf_res)
  have "\<exists>a2. res_fold (process_section cmp env pa_size gen) scns (a2, pm, out) = Inr (a', pm', out') \<and>
      a_elf_file a2 = a_elf_file a1"
    using p elf s by (cases "n = 0"; cases "List.find (\<lambda>scn. es_ndx scn = n) scns")
      (auto simp: process_elf_file_def gf_res)
  then obtain a2 where r: "res_fold (process_section cmp env pa_size gen) scns (a2, pm, out) = Inr (a', pm', out')"
    and a2: "a_elf_file a2 = a_elf_file a1" by blast
  have "a_elf_file a' = a_elf_file a"
    using sections_step [OF r] a2 scan_sections_elf_file [OF s] by simp
  then have elf': "Option.bind (a_elf_file a') elf_of = Some scns" using elf by simp
  show ?thesis
    using sections_write [OF r wf] fits elf' by (auto simp: app_pieces_def app_fits_def split: if_splits)
qed

lemma iter_cells_ConsD:
  "iter_cells f (x # xs) s = Inr (zs, t) \<Longrightarrow>
    \<exists>y s1 ys. f x s = Inr (y, s1) \<and> iter_cells f xs s1 = Inr (ys, t) \<and> zs = y # ys"
  by (auto simp: gf_res split: prod.splits)

lemma apps_write:
  assumes "iter_cells (\<lambda>a (pm, out).
         res_bind (process_elf_file cmp env pa_size gen (Option.bind (a_elf_file a) elf_of) (a, pm, out))
           (\<lambda>(a', pm', out'). Inr (a', pm', out'))) as (pm, out) = Inr (as', pm', out')"
    and "physmap_wf pm" and "gen \<Longrightarrow> \<forall>a \<in> set as'. app_fits elf_of cmp env pa_size a"
  shows "writes (pm, out) (pm', out') (if gen then concat (map (app_pieces elf_of) as') else [])"
  using assms
proof (induction as arbitrary: as' pm out)
  case Nil
  then show ?case by (simp add: writes_refl)
next
  case (Cons a as)
  obtain b pmb outb bs where
    p: "process_elf_file cmp env pa_size gen (Option.bind (a_elf_file a) elf_of) (a, pm, out) = Inr (b, pmb, outb)"
    and r: "iter_cells (\<lambda>a (pm, out).
         res_bind (process_elf_file cmp env pa_size gen (Option.bind (a_elf_file a) elf_of) (a, pm, out))
           (\<lambda>(a', pm', out'). Inr (a', pm', out'))) as (pmb, outb) = Inr (bs, pm', out')"
    and as': "as' = b # bs"
    using iter_cells_ConsD [OF Cons.prems(1)] by (auto simp only: prod.case gf_res)
  have w: "writes (pm, out) (pmb, outb) (if gen then app_pieces elf_of b else [])"
    by (rule process_elf_file_writes [OF p Cons.prems(2)]) (use Cons.prems(3) as' in simp)
  then have "physmap_wf pmb" by (simp add: writes_def)
  then have "writes (pmb, outb) (pm', out') (if gen then concat (map (app_pieces elf_of) bs) else [])"
    by (rule Cons.IH [OF r]) (use Cons.prems(3) as' in simp)
  from writes_trans [OF w this] show ?case by (cases gen) (simp_all add: as')
qed

subsection \<open>A run\<close>

lemma writes_MMU_header: "writes s (pm, out) ps \<Longrightarrow> writes s (pm, out @ MMU_header) ps"
  by (simp add: writes_def MMU_header_def)

lemma run_writes:
  assumes run: "process_goldfinger_file env opts args infile g0 = Inr (g, out, str)"
    and fits: "image_fits env opts args g"
  shows "\<exists>pm. writes (pm, []) (g_Physmap g, out) (image_pieces env args g)"
proof -
  obtain g1 g2 apps pm out1 where p: "yyparse env infile (init_image_file_data_structures g0) = Inr g1"
    and f: "finish_image_file_init g1 = Inr g2"
    and e: "process_app_elf_files (e_elf env) (o_Compress opts) (o_EnvZero opts) (g_Pa_size g2)
        (c_genimage args) (g_apps g2, g_Physmap g2, []) = Inr (apps, pm, out1)"
    and t: "(if c_gentsbs args then gen_tsbs opts (g2\<lparr>g_apps := apps, g_Physmap := pm\<rparr>, out1)
        else Inr (g2\<lparr>g_apps := apps, g_Physmap := pm\<rparr>, out1)) = Inr (g, out)"
    using run by (rule run_steps)
  have wf: "physmap_wf (g_Physmap g2)"
    using yyparse_inv [OF p parse_inv_init] finish_physmap [OF f] by (simp add: parse_inv_def)
  have g: "g_apps g = apps" "g_Pa_size g = g_Pa_size g2"
    using t by (auto simp: gen_tsbs_def Let_def gf_res split: if_splits prod.splits)
  obtain xs where it: "iter_cells (\<lambda>a (pm, out).
         res_bind (process_elf_file (o_Compress opts) (o_EnvZero opts) (g_Pa_size g2) (c_genimage args)
             (Option.bind (a_elf_file a) (e_elf env)) (a, pm, out))
           (\<lambda>(a', pm', out'). Inr (a', pm', out'))) (elements (App_vector (g_apps g2))) (g_Physmap g2, []) =
      Inr (xs, pm, out1)" and xs: "elements (App_vector apps) = xs"
    using e by (auto simp: process_app_elf_files_def iterate_vector_def gf_res split: prod.splits)
  have w: "writes (g_Physmap g2, []) (pm, out1) (if c_genimage args then
      concat (map (app_pieces (e_elf env)) (elements (App_vector (g_apps g)))) else [])"
    unfolding g xs by (rule apps_write [OF it wf]) (use fits in \<open>simp add: image_fits_def g xs\<close>)
  have "writes (g_Physmap g2, []) (g_Physmap g, out) (image_pieces env args g)"
  proof (cases "c_gentsbs args")
    case True
    have "writes (pm, out1 @ MMU_header) (g_Physmap g, out) (run_pieces g)"
      using gen_tsbs_writes [of opts "g2\<lparr>g_apps := apps, g_Physmap := pm\<rparr>" out1 g out] t True fits w
      by (simp add: image_fits_def writes_def)
    from writes_trans [OF writes_MMU_header [OF w] this] True show ?thesis by (simp add: image_pieces_def)
  next
    case False
    with t w show ?thesis by (auto simp: image_pieces_def)
  qed
  then show ?thesis by blast
qed

text \<open>No address belongs to two pieces, and what belongs to none keeps its word.\<close>

lemma physmap_wf_list_tail: "physmap_wf_list (xs @ ys) \<Longrightarrow> physmap_wf_list ys"
  by (induction xs) auto

lemma writes_apart:
  assumes "writes s s' ps" and "i < length ps" and "j < length ps" and "i \<noteq> j" and "covers (ps ! i) x"
  shows "\<not> covers (ps ! j) x"
proof
  assume c: "covers (ps ! j) x"
  obtain es where e: "elements (fst s') = elements (fst s) @ es" "list_all2 piece_ok es ps"
    using assms(1) unfolding writes_def by blast
  have "physmap_wf_list (elements (fst s) @ es)"
    using assms(1) unfolding writes_def physmap_wf_def e(1) by blast
  then have "physmap_wf_list es" by (rule physmap_wf_list_tail)
  then have "region (es ! i) \<inter> region (es ! j) = {}"
    using physmap_wf_list_nth assms(2-4) e(2) by (metis apart_disjoint list_all2_lengthD)
  moreover have "x \<in> region (es ! i)" "x \<in> region (es ! j)"
    using piece_covers_region [OF list_all2_nthD2 [OF e(2)]] assms(2,3,5) c by blast+
  ultimately show False by blast
qed

lemma run_loads:
  assumes "process_goldfinger_file env opts args infile g0 = Inr (g, out, str)"
    and "image_fits env opts args g" and "ps = image_pieces env args g"
  shows "p \<in> set ps \<Longrightarrow> holds (snd (load_items out s0)) p"
    and "i < length ps \<Longrightarrow> j < length ps \<Longrightarrow> i \<noteq> j \<Longrightarrow> covers (ps ! i) x \<Longrightarrow> \<not> covers (ps ! j) x"
    and "(\<And>p. p \<in> set ps \<Longrightarrow> \<not> covers p x) \<Longrightarrow> snd (load_items out s0) x = snd s0 x"
proof -
  obtain pm where w: "writes (pm, []) (g_Physmap g, out) ps" using run_writes [OF assms(1,2)] assms(3) by blast
  show "p \<in> set ps \<Longrightarrow> holds (snd (load_items out s0)) p"
    using written_words [OF w, of p] written_fits [OF w, of p] by (simp add: holds_def)
  show "i < length ps \<Longrightarrow> j < length ps \<Longrightarrow> i \<noteq> j \<Longrightarrow> covers (ps ! i) x \<Longrightarrow> \<not> covers (ps ! j) x"
    by (rule writes_apart [OF w])
  have "snd (load_items out s0) = store_pieces ps (snd s0)" using w by (cases s0) (simp add: writes_def)
  then show "(\<And>p. p \<in> set ps \<Longrightarrow> \<not> covers p x) \<Longrightarrow> snd (load_items out s0) x = snd s0 x"
    by (simp add: store_pieces_outside)
qed

end
