(* ===== verification/Gf_Demo.thy ===== *)
theory Gf_Demo
  imports Gf_Goldfinger "HOL-Library.Code_Target_Nat"
begin

text \<open>
  A small description to run the model on: one application whose section \<^verbatim>\<open>.text\<close> has
  three pages of 16 bytes, a TSB and a TSBCSM of two entries each, both with a link area. The
  first and the last page collide in both tables.
\<close>

definition demo_start :: gf_state where
  "demo_start =
    \<lparr>g_apps = \<lparr>App_vector = init_vector None init_app, Open_app_index = NO_OPEN_APP\<rparr>,
     g_Physmap = init_physmap,
     g_tsbs = \<lparr>Tsb_vector = init_vector None init_tsb, Open_tsb_index = NO_OPEN_TSB\<rparr>,
     g_tsb_links = \<lparr>Link_vector = init_vector None init_tsb_link, Open_link_index = NO_OPEN_TSB_LINK\<rparr>,
     g_tsbcsms = \<lparr>Tsb_vector = init_vector None init_tsbcsm, Open_tsb_index = NO_OPEN_TSB\<rparr>,
     g_tsbcsm_links = \<lparr>Link_vector = init_vector None init_tsbcsm_link, Open_link_index = NO_OPEN_TSB_LINK\<rparr>,
     g_Pa_size = 40\<rparr>"

definition demo_block :: "app_action list" where
  "demo_block =
    [Open_block ''b'' 4, Block_line (Section_name ''.text''), Block_line (Link_section ''.text''),
     Block_line (Va 0x40), Block_line (Ra 0x1040), Block_line (Pa 0x1040), Open_block_tsb ''t'' 5,
     Block_tsb_line (Tag_base 0), Block_tsb_line (Data_base 0x8000000000000000),
     Block_tsb_line (Page_size 16), Block_tsb_line (Va_index_bits 4 4),
     Block_tsb_line (Tag_addr_bits 63 5), Block_tsb_line (Tte_tag_addr_bits 63 5),
     Block_tsb_line (Data_addr_bits 39 4), Close_block_tsb, Open_block_tsbcsm ''c'' 6,
     Clump_num 7, Close_block_tsbcsm, Close_block]"

definition demo_tables :: "action list" where
  "demo_tables =
    [Set_pa_size 40, Tsb_link_action (Open_link ''tl'' 1), Tsb_link_action (Link_start_addr 0x20000),
     Tsb_link_action Close_link, Tsbcsm_link_action (Open_link ''cl'' 1),
     Tsbcsm_link_action (Link_start_addr 0x30000), Tsbcsm_link_action Close_link,
     Tsb_action (Open_table ''t'' 2), Tsb_action (Num_entries 2), Tsb_action (Start_addr 0x10000),
     Tsb_action (Link_area ''tl''), Tsb_action Close_table,
     Tsbcsm_action (Open_table ''c'' 2), Tsbcsm_action (Num_entries 2),
     Tsbcsm_action (Start_addr 0x11000), Tsbcsm_action (Link_area ''cl''),
     Tsbcsm_action Close_table]"

definition demo_actions :: "action list" where
  "demo_actions =
    demo_tables @ map App_action ([Open_app ''a'' 3, Elf_file ''f''] @ demo_block @ [Close_app])"

definition demo_section :: elf_section where
  "demo_section =
    \<lparr>es_ndx = 1, es_type = SHT_PROGBITS, es_name = Some ''.text'', es_addr = 0x40, es_size = 48,
     es_entsize = 0, es_data = map of_nat [0..<48], es_syms = []\<rparr>"

definition demo_symbols :: elf_section where
  "demo_symbols =
    \<lparr>es_ndx = 2, es_type = SHT_SYMTAB, es_name = Some ''.symtab'', es_addr = 0, es_size = 48,
     es_entsize = 24, es_data = [],
     es_syms = [\<lparr>st_name = Some [], st_shndx = 0, st_value = 0, st_size = 0\<rparr>,
                \<lparr>st_name = Some ''main'', st_shndx = 1, st_value = 0x50, st_size = 8\<rparr>]\<rparr>"

definition demo_env :: environment where
  "demo_env =
    \<lparr>e_open_read = \<lambda>_. True, e_chdir = \<lambda>_. True, e_open_write = \<lambda>_. True,
     e_actions = \<lambda>_. demo_actions, e_syntax_ok = \<lambda>_. True,
     e_elf = \<lambda>f. if f = ''f'' then Some [demo_section, demo_symbols] else None\<rparr>"

subsection \<open>The state after the initialisation\<close>

definition demo_block_tsb :: block_tsb where
  "demo_block_tsb =
    init_block_tsb\<lparr>bt_name := ''t'', bt_tsb := Some 0, bt_va_index_bits := \<lparr>hi = 4, lo = 4\<rparr>,
      bt_tag_addr_bits := \<lparr>hi = 63, lo = 5\<rparr>, bt_tte_tag_addr_bits := \<lparr>hi = 63, lo = 5\<rparr>,
      bt_data_addr_bits := \<lparr>hi = 39, lo = 4\<rparr>, bt_page_size := 16, bt_tag_base := 0,
      bt_data_base := 0x8000000000000000, bt_lineno := 5\<rparr>"

definition demo_block_tsbcsm :: block_tsbcsm where
  "demo_block_tsbcsm =
    init_block_tsbcsm\<lparr>bc_name := ''c'', bc_tsbcsm := Some 0, bc_clump_num := 7, bc_lineno := 6\<rparr>"

definition demo_blk :: block where
  "demo_blk =
    init_block\<lparr>b_name := ''b'', b_section_name := ''.text'', b_link_section := Some ''.text'',
      b_va := 0x40, b_ra := 0x1040, b_pa := 0x1040,
      b_tsbs := (init_vector (Some ''block_tsbs_vector'') init_block_tsb)\<lparr>elements := [demo_block_tsb]\<rparr>,
      b_tsbcsms := (init_vector (Some ''block_tsbcsms_vector'') init_block_tsbcsm)
        \<lparr>elements := [demo_block_tsbcsm]\<rparr>,
      b_linked_section_obj := Some 0, b_lineno := 4, b_open_block_tsb_index := - 1,
      b_open_block_tsbcsm_index := - 1\<rparr>"

definition demo_ls :: linked_section where
  "demo_ls =
    init_linked_section\<lparr>ls_name := ''.text'', ls_section_name := Some ''.text'',
      ls_segment_name := Some ''<unknown>''\<rparr>"

definition demo_app :: "block \<Rightarrow> linked_section \<Rightarrow> app" where
  "demo_app blk ls =
    init_app\<lparr>a_name := ''a'', a_elf_file := Some ''f'',
      a_blocks := (init_vector (Some ''block_vector'') init_block)\<lparr>elements := [blk]\<rparr>,
      a_linked_sections := (init_vector (Some ''linked_section_vector'') init_linked_section)
        \<lparr>elements := [ls]\<rparr>, a_lineno := 3\<rparr>"

definition demo_apps :: "block \<Rightarrow> linked_section \<Rightarrow> app_state" where
  "demo_apps blk ls =
    \<lparr>App_vector = (init_vector (Some ''app_vector'') init_app)\<lparr>elements := [demo_app blk ls]\<rparr>,
     Open_app_index = NO_OPEN_APP\<rparr>"

definition demo_tsb :: "tsb_entry list \<Rightarrow> tsb" where
  "demo_tsb es =
    init_tsb\<lparr>t_name := ''t'', t_num_entries := 2, t_start_addr := 0x10000, t_link_area := Some ''tl'',
      t_link_ptr := Some 0, t_entries := es, t_lineno := 2\<rparr>"

definition demo_tsbcsm :: "tsbcsm_entry list \<Rightarrow> tsbcsm" where
  "demo_tsbcsm es =
    init_tsbcsm\<lparr>t_name := ''c'', t_num_entries := 2, t_start_addr := 0x11000, t_link_area := Some ''cl'',
      t_link_ptr := Some 0, t_entries := es, t_lineno := 2\<rparr>"

definition demo_link :: "tsb_link_entry list \<Rightarrow> tsb_link" where
  "demo_link es =
    init_tsb_link\<lparr>tl_name := ''tl'', tl_start_addr := 0x20000,
      tl_entries := (tl_entries init_tsb_link)\<lparr>elements := es\<rparr>, tl_lineno := 1\<rparr>"

definition demo_csm_link :: "tsbcsm_link_entry list \<Rightarrow> tsbcsm_link" where
  "demo_csm_link es =
    init_tsbcsm_link\<lparr>tl_name := ''cl'', tl_start_addr := 0x30000,
      tl_entries := (tl_entries init_tsbcsm_link)\<lparr>elements := es\<rparr>, tl_lineno := 1\<rparr>"

definition demo_heap :: "tsb_entry list \<Rightarrow> tsb_link_entry list \<Rightarrow> tsb_heap" where
  "demo_heap es ns =
    ((init_vector (Some ''Tsb_vector'') init_tsb)\<lparr>elements := [demo_tsb es]\<rparr>,
     (init_vector (Some ''Tsb_link_vector'') init_tsb_link)\<lparr>elements := [demo_link ns]\<rparr>)"

definition demo_csm_heap :: "tsbcsm_entry list \<Rightarrow> tsbcsm_link_entry list \<Rightarrow> tsbcsm_heap" where
  "demo_csm_heap es ns =
    ((init_vector (Some ''Tsbcsm_vector'') init_tsbcsm)\<lparr>elements := [demo_tsbcsm es]\<rparr>,
     (init_vector (Some ''Tsbcsm_link_vector'') init_tsbcsm_link)\<lparr>elements := [demo_csm_link ns]\<rparr>)"

definition demo_state :: "app_state \<Rightarrow> physmap \<Rightarrow> tsb_heap \<Rightarrow> tsbcsm_heap \<Rightarrow> gf_state" where
  "demo_state apps pm hp chp =
    \<lparr>g_apps = apps, g_Physmap = pm,
     g_tsbs = \<lparr>Tsb_vector = fst hp, Open_tsb_index = NO_OPEN_TSB\<rparr>,
     g_tsb_links = \<lparr>Link_vector = snd hp, Open_link_index = NO_OPEN_TSB_LINK\<rparr>,
     g_tsbcsms = \<lparr>Tsb_vector = fst chp, Open_tsb_index = NO_OPEN_TSB\<rparr>,
     g_tsbcsm_links = \<lparr>Link_vector = snd chp, Open_link_index = NO_OPEN_TSB_LINK\<rparr>,
     g_Pa_size = 40\<rparr>"

lemmas demo_state_defs = demo_block_tsb_def demo_block_tsbcsm_def demo_blk_def demo_ls_def demo_app_def
  demo_apps_def demo_tsb_def demo_tsbcsm_def demo_link_def demo_csm_link_def demo_heap_def
  demo_csm_heap_def demo_state_def

subsection \<open>The run, evaluated by the simplifier\<close>

lemma numeral_le_1: "(numeral k :: u64) \<le> 1 \<longleftrightarrow> unat (numeral k :: u64) \<le> 1"
  by (simp add: word_le_nat_alt)

lemma replicate_2: "replicate 2 x = [x, x]"
  by (simp add: numeral_2_eq_2)

text \<open>All definitions of the model, for the evaluation of closed terms.\<close>

lemmas code_defs =
  NO_ADDR_def error_codes_def SENTINEL_ERROR_def Errstrings_def errmsg_def VERBOSE_SILENT_def
  VERBOSE_DEBUG_def set_verbose_level_def Pa_size_default_def set_pa_size_def pa_mask_def log2_def
  is_pow2_def is_aligned_def bit_range_to_shifted_mask_64_def bit_range_to_mask_64_def
  VECTOR_LEN_def DEFAULT_ALLOC_LEN_def init_vector_def deallocate_vector_def grow_vector_def
  preallocate_vector_def add_vector_elements_def iterate_vector_def visit_vector_def
  iterate_vector2_def search_vector_def vector_elem_void_ptr_range_check_def vector_elem_def
  vector_modify_def init_symtab_entry_def init_symtab_def destroy_symtab_entry_def
  destroy_symtab_def symtab_ent_lookup_compare_def lookup_symtab_def add_to_symtab_def
  init_physmap_entry_def init_physmap_def destroy_physmap_entry_def destroy_physmap_def
  copy_physmap_entry_def STRBUF_SIZE_def get_ent_descr_string_def collision_error_def
  check_vector_elem_def check_entry_vs_vector_def add_entry_to_physmap_def
  add_block_to_physmap_def add_object_to_physmap_def region_def apart_def physmap_wf_def
  hex_digit_def hex16_def hex10_def hex8_def dec_lld_def NL_def TAB_def quoted_def render_def
  from_compressed_def advance_def put_words_def load_items_def gap_inv_def EOL_def LINK_SIZE_def
  node_addr_def link_index_def TSB_LINK_TAG_def NO_OPEN_TSB_LINK_def UNSPECIFIED_START_def
  init_entry_def init_csm_entry_def init_tsb_link_def init_tsbcsm_link_def
  clear_tsb_link_vector_def clear_tsbcsm_link_vector_def tsb_link_name_compare_def
  get_tsb_link_ptr_by_name_def label_link_def open_new_tsb_link_def sanity_check_tsb_link_def
  close_tsb_link_def set_tsb_link_def set_tsb_link_start_addr_def set_tsb_link_srcfile_def
  set_tsb_link_srcline_def tsbcsm_link_name_compare_def get_tsbcsm_link_ptr_by_name_def
  open_new_tsbcsm_link_def sanity_check_tsbcsm_link_def close_tsbcsm_link_def set_tsbcsm_link_def
  set_tsbcsm_link_start_addr_def set_tsbcsm_link_srcfile_def set_tsbcsm_link_srcline_def
  link_address_def start_new_chain_def hook_entry_def add_to_chain_def tsb_link_add_entry_def
  start_new_csm_chain_def hook_csm_entry_def add_csm_to_chain_def tsbcsm_link_add_entry_def
  write_tsb_link_entry_def write_tsbcsm_link_entry_def write_tsb_link_def write_tsbcsm_link_def
  write_tsb_links_def write_tsbcsm_links_def NO_OPEN_TSB_def TSB_SIZE_MAX_def BYTES_PER_ENTRY_def
  init_tsb_def init_tsbcsm_def clear_tsb_vector_def clear_tsbcsm_vector_def tsb_name_compare_def
  tsbcsm_name_compare_def get_tsb_ptr_by_name_def get_tsbcsm_ptr_by_name_def label_tsb_def
  open_new_tsb_def open_new_tsbcsm_def sanity_check_tsb_def sanity_check_tsbcsm_def close_tsb_def
  close_tsbcsm_def set_tsb_def set_tsb_num_entries_def set_tsb_size_bits_def set_tsb_split_def
  set_tsb_srcfile_def set_tsb_srcline_def set_tsb_start_addr_def set_tsb_link_area_def
  zero_tsb_entry_def zero_tsbcsm_entry_def alloc_entries_def finish_single_tsb_init_def
  finish_single_tsbcsm_init_def finish_tsb_init_def finish_tsbcsm_init_def get_tsb_size_bits_def
  get_tsbcsm_size_bits_def entry_at_def put_entry_def add_entry_def add_entry_csm_def
  close_gap_def write_row_def write_table_def write_tsb_def write_tsbcsm_def write_tsbs_def
  write_tsbcsms_def NO_BITS_def no_bits_def init_block_tsb_def init_block_tsbcsm_def
  finish_single_block_tsb_init_def finish_single_block_tsbcsm_init_def block_tsb_name_compare_def
  check_bit_def check_page_aligned_def sanity_check_block_tsb_def add_size_bits_def num_pages_def
  page_geometry_def page_va_def page_ra_def page_index_def page_tag_def page_data_def
  add_block_tsb_to_tsb_def add_block_tsbcsm_to_tsbcsm_def tag2va_def csmtag2va_def
  blk_tsb_set_name_def blk_tsb_set_tag_base_def blk_tsb_set_data_base_def
  blk_tsb_set_page_size_def blk_tsb_set_srcfile_def blk_tsb_set_srcline_def
  blk_tsbcsm_set_clump_num_def blk_tsb_set_va_index_bits_def blk_tsb_set_tag_addr_bits_def
  blk_tsb_set_tte_tag_addr_bits_def blk_tsb_set_data_addr_bits_def bit_no_def page_aligned_def
  page_slot_def slot_pages_def init_linked_section_def linked_section_name_compare_def
  add_linked_symbol_def build_linked_section_symbol_table_def belongs_def sym_of_def
  init_block_def finish_single_block_init_def block_name_compare_def
  block_link_section_compare_def sanity_check_block_def block_check_link_section_exists_def
  print_addr_def print_symtab_ent_if_in_range_def symtab_args_def block_print_symtab_def
  resolve_start_def resolve_length_def resolve_ra_pa_def block_calculate_size_def
  block_add_to_tsbs_def block_add_to_tsbcsms_def section_words_def end_compress_def
  block_generate_image_def blk_set_section_name_def blk_set_segment_name_def
  blk_set_link_section_def blk_set_srcfile_def blk_set_srcline_def blk_set_compress_def
  blk_set_in_image_def blk_set_va_def blk_set_ra_def blk_set_pa_def blk_set_no_end_range_check_def
  blk_set_ra_eq_va_def blk_set_pa_eq_va_def blk_set_start_label_def blk_set_end_label_def
  blk_set_end_va_def modify_open_block_tsb_def modify_open_block_tsbcsm_def
  blk_set_blk_tsb_tag_base_def blk_set_blk_tsb_data_base_def blk_set_blk_tsb_page_size_def
  blk_set_blk_tsb_srcfile_def blk_set_blk_tsb_srcline_def blk_set_blk_tsbcsm_clump_num_def
  blk_set_blk_tsb_va_index_bits_def blk_set_blk_tsb_tag_addr_bits_def
  blk_set_blk_tsb_tte_tag_addr_bits_def blk_set_blk_tsb_data_addr_bits_def NO_OPEN_APP_def
  NO_OPEN_BLOCK_def NO_OPEN_BLOCK_TSB_def init_app_def clear_app_vector_def app_name_compare_def
  get_app_ptr_by_name_def label_app_def open_new_app_def sanity_check_app_def close_app_def
  vector_update_def modify_open_app_def modify_open_block_def finish_single_app_init_def
  finish_app_init_def open_new_block_def get_linked_section_by_name_def find_or_add_section_def
  close_block_of_app_def close_block_def open_new_block_tsb_def open_new_block_tsbcsm_def
  close_block_tsb_def close_block_tsbcsm_def section_of_def loads_data_def scan_section_def
  linked_sec_build_symtab_def blk_calculate_size_if_match_def blk_gen_image_if_match_def
  process_section_def process_elf_file_def process_app_elf_files_def app_add_to_tsbs_def
  app_add_to_tsbcsms_def add_apps_to_tsbs_def add_apps_to_tsbcsms_def print_app_symtab_def
  print_symtab_def set_app_elf_file_def set_app_srcfile_def set_app_srcline_def
  set_block_section_name_def set_block_segment_name_def set_block_link_section_def
  set_block_srcfile_def set_block_srcline_def set_block_compress_def set_block_in_image_def
  set_block_no_end_range_check_def set_block_va_def set_block_ra_def set_block_pa_def
  set_block_start_label_def set_block_end_label_def set_block_end_va_def set_block_ra_eq_va_def
  set_block_pa_eq_va_def set_block_tsb_tag_base_def set_block_tsb_data_base_def
  set_block_tsb_page_size_def set_block_tsb_srcfile_def set_block_tsb_srcline_def
  set_block_tsbcsm_clump_num_def set_block_tsb_va_index_bits_def set_block_tsb_tag_addr_bits_def
  set_block_tsb_tte_tag_addr_bits_def set_block_tsb_data_addr_bits_def
  init_image_file_data_structures_def to_int_def flag_def on_apps_def on_tsbs_def on_tsb_links_def
  on_tsbcsms_def on_tsbcsm_links_def run_actions_def default_args_def default_options_def
  VERBOSE_CHATTY_def set_flag_def set_word_def process_cmdline_def finish_image_file_init_def
  require_file_def yyparse_def MMU_header_def gen_tsbs_def process_goldfinger_file_def

lemmas run_simps = code_defs demo_state_defs log2_loop.simps image_lines.simps upt_conv_Cons of_nat_Suc
  numeral_le_1 replicate_2

definition demo_blank :: gf_state where
  "demo_blank = demo_state (demo_apps demo_blk demo_ls) init_physmap
    (demo_heap [zero_tsb_entry, zero_tsb_entry] []) (demo_csm_heap [zero_tsbcsm_entry, zero_tsbcsm_entry] [])"

lemma demo_init:
  "res_bind (yyparse demo_env ''in'' (init_image_file_data_structures demo_start)) finish_image_file_init
    = Inr demo_blank"
  by (simp add: run_simps demo_blank_def demo_env_def demo_actions_def demo_start_def demo_block_def
      demo_tables_def)

definition demo_blk' :: block where
  "demo_blk' = demo_blk\<lparr>b_d_length := 48\<rparr>"

definition demo_ls' :: linked_section where
  "demo_ls' = demo_ls\<lparr>ls_symtab := init_symtab\<lparr>elements := [sym_entry ''main'' 80 8]\<rparr>, ls_shndx := 1,
     ls_start_va := 64, ls_length := 48\<rparr>"

definition demo_pm :: physmap where
  "demo_pm = init_physmap\<lparr>elements :=
    [\<lparr>pm_start = 4160, pm_stop = 4208, pm_srcfile = ''<unknown>'', pm_srcline = 0, pm_lineno = 4,
      pm_names = Block_e ''.text'' ''<unknown>''\<rparr>]\<rparr>"

definition demo_image :: "item list" where
  "demo_image =
    [Newline, At 4160 (''Section '' @ quoted ''.text'' @ '', segment '' @ quoted ''<unknown>''),
     Pair False 0x00010203 0x04050607, Pair True 0x08090A0B 0x0C0D0E0F, Pair True 0x10111213 0x14151617,
     Pair True 0x18191A1B 0x1C1D1E1F, Newline, Pair False 0x20212223 0x24252627,
     Pair True 0x28292A2B 0x2C2D2E2F, Newline]"

lemma demo_elf:
  "process_app_elf_files (e_elf demo_env) True True 40 True (g_apps demo_blank, g_Physmap demo_blank, []) =
    Inr (demo_apps demo_blk' demo_ls', demo_pm, demo_image)"
  by (simp add: run_simps demo_blank_def demo_env_def demo_section_def demo_symbols_def demo_blk'_def demo_ls'_def
      demo_pm_def demo_image_def)

definition demo_tsb_entries :: "tsb_entry list" where
  "demo_tsb_entries =
    [\<lparr>te_tag = - 1, te_data = 0x20000, te_block = Some (0, 0), te_block_tsb = Some (0, 0, 0)\<rparr>,
     \<lparr>te_tag = 64, te_data = 0x8000000000001050, te_block = Some (0, 0), te_block_tsb = Some (0, 0, 0)\<rparr>]"

definition demo_tsb_nodes :: "tsb_link_entry list" where
  "demo_tsb_nodes =
    [\<lparr>le_tag = 64, le_data = 0x8000000000001040, le_link = 0x20020, le_block = Some (0, 0),
      le_block_tsb = Some (0, 0, 0), le_my_link = 0x20000, le_next = Some 1\<rparr>,
     \<lparr>le_tag = 96, le_data = 0x8000000000001060, le_link = - 1, le_block = Some (0, 0),
      le_block_tsb = Some (0, 0, 0), le_my_link = 0x20020, le_next = None\<rparr>]"

definition demo_csm_entries :: "tsbcsm_entry list" where
  "demo_csm_entries =
    [\<lparr>ce_tag = - 1, ce_data = 0x30000, ce_clump_num = 7, ce_block = Some (0, 0), ce_block_tsb = Some (0, 0, 0)\<rparr>,
     \<lparr>ce_tag = 64, ce_data = 0x8000000000001050, ce_clump_num = 7, ce_block = Some (0, 0),
      ce_block_tsb = Some (0, 0, 0)\<rparr>]"

definition demo_csm_nodes :: "tsbcsm_link_entry list" where
  "demo_csm_nodes =
    [\<lparr>cl_tag = 64, cl_clump_num = 7, cl_link = 0x30020, cl_block = Some (0, 0),
      cl_block_tsb = Some (0, 0, 0), cl_my_link = 0x30000, cl_next = Some 1\<rparr>,
     \<lparr>cl_tag = 96, cl_clump_num = 7, cl_link = - 1, cl_block = Some (0, 0),
      cl_block_tsb = Some (0, 0, 0), cl_my_link = 0x30020, cl_next = None\<rparr>]"

definition demo_object :: "addr_t \<Rightarrow> addr_t \<Rightarrow> int \<Rightarrow> string \<Rightarrow> string \<Rightarrow> physmap_ent" where
  "demo_object a b n t nm = \<lparr>pm_start = a, pm_stop = b, pm_srcfile = ''<unknown>'', pm_srcline = 0,
     pm_lineno = n, pm_names = Object_e t nm\<rparr>"

definition demo_pm' :: physmap where
  "demo_pm' = demo_pm\<lparr>elements := elements demo_pm @
    [demo_object 0x10000 0x10020 2 ''TSB'' ''t'', demo_object 0x20000 0x20040 1 ''TSB_LINK'' ''tl'',
     demo_object 0x11000 0x11020 2 ''TSB'' ''c'', demo_object 0x30000 0x30040 1 ''TSBCSM_LINK'' ''cl'']\<rparr>"

definition demo_mmu_image :: "item list" where
  "demo_mmu_image =
    MMU_header @
    [At 0x10000 (''TSB '' @ quoted ''t''), Quad (- 1) 0x20000 64 0x8000000000001050, Newline,
     At 0x20000 (''TSB_LINK '' @ quoted ''tl''), Quad 64 0x8000000000001040 0x20020 0x20020,
     Quad 96 0x8000000000001060 (- 1) (- 1),
     At 0x11000 (''TSBCSM '' @ quoted ''c''), Quad (- 1) 7 64 7, Newline,
     At 0x30000 (''TSBCSM_LINK '' @ quoted ''cl''), Quad 64 7 0x30020 0x30020, Quad 96 7 (- 1) (- 1)]"

definition demo_final :: gf_state where
  "demo_final = demo_state (demo_apps demo_blk' demo_ls') demo_pm' (demo_heap demo_tsb_entries demo_tsb_nodes)
    (demo_csm_heap demo_csm_entries demo_csm_nodes)"

lemma demo_gen:
  "gen_tsbs (default_options\<lparr>o_Allow_tsb_conflicts := True\<rparr>)
     (demo_blank\<lparr>g_apps := demo_apps demo_blk' demo_ls', g_Physmap := demo_pm\<rparr>, demo_image) =
   Inr (demo_final, demo_image @ demo_mmu_image)"
  by (simp add: run_simps demo_blank_def demo_blk'_def demo_ls'_def demo_pm_def demo_final_def demo_pm'_def
      demo_object_def demo_mmu_image_def demo_tsb_entries_def demo_tsb_nodes_def demo_csm_entries_def
      demo_csm_nodes_def)

definition demo_symtab :: string where
  "demo_symtab = ''.text.main'' @ TAB @ ''0000000000000050 0000001050 0000001050'' @ NL"

lemma hex_digits_numeral:
  "hex_digits (numeral k) n = hex_digits (pred_numeral k) (n div 16) @ [hex_digit (n mod 16)]"
  by (simp only: numeral_eq_Suc [of k] hex_digits.simps)

lemma demo_hex:
  "hex_digits 16 80 = ''0000000000000050''" "hex_digits 10 4176 = ''0000001050''"
  by (simp_all add: hex_digits_numeral hex_digit_def)

lemma demo_sym:
  "print_symtab 40 (App_vector (demo_apps demo_blk' demo_ls')) [] = Inr demo_symtab"
  by (simp add: run_simps demo_blk'_def demo_ls'_def demo_symtab_def demo_hex)

definition demo_options :: options where
  "demo_options = default_options\<lparr>o_Allow_tsb_conflicts := True\<rparr>"

definition demo_args :: cmdline_args where
  "demo_args = default_args\<lparr>c_genimage := True, c_gentsbs := True, c_gensymtab := True\<rparr>"

lemma demo_run:
  "process_goldfinger_file demo_env demo_options demo_args ''in'' demo_start =
    Inr (demo_final, demo_image @ demo_mmu_image, Some demo_symtab)"
proof -
  obtain g1 where p: "yyparse demo_env ''in'' (init_image_file_data_structures demo_start) = Inr g1"
    and f: "finish_image_file_init g1 = Inr demo_blank"
    using demo_init by (auto simp: gf_res)
  have o: "o_Compress demo_options = True" "o_EnvZero demo_options = True" "g_Pa_size demo_blank = 40"
    by (simp_all add: demo_options_def default_options_def demo_blank_def demo_state_def)
  have a: "c_genimage demo_args" "c_gentsbs demo_args" "c_gensymtab demo_args" "c_srcdir demo_args = None"
      "c_imagefile demo_args = None" "c_symtabfile demo_args = None"
    by (simp_all add: demo_args_def default_args_def)
  have g: "g_Pa_size demo_final = 40" "g_apps demo_final = demo_apps demo_blk' demo_ls'"
    by (simp_all add: demo_final_def demo_state_def)
  show ?thesis
    by (simp add: process_goldfinger_file_def require_file_def demo_env_def [THEN arg_cong [where f = e_open_read]]
        p f o a g demo_elf demo_gen [folded demo_options_def] demo_sym)
qed

end
