(* ===== verification/Prop_Run.thy ===== *)
theory Prop_Run
  imports Gf_Exact Gf_Demo
begin

text \<open>
  The properties of a whole run (\<^verbatim>\<open>goldfinger.c\<close>, \<^verbatim>\<open>app.c\<close>), with the run of the example as
  their instance.
\<close>

lemma demo_proper:
  "\<forall>a \<in> set (elements (App_vector (g_apps demo_final))). proper_app (tsb_sizes demo_final) a"
proof -
  have s: "tsb_sizes demo_final = [0]"
    by (simp add: tsb_sizes_def sizes_def demo_final_def demo_state_def demo_heap_def demo_tsb_def init_tsb_def)
  have g: "\<exists>g. page_geometry demo_blk' demo_block_tsb 0 = Inr g \<and>
      (\<forall>k < 3. page_tag g k \<noteq> TSB_LINK_TAG \<and> page_tag g k \<noteq> 0) \<and> g_num_pages g = 3"
    by (simp add: run_simps demo_blk'_def numeral_3_eq_3 All_less_Suc)
  show ?thesis
    using g unfolding s
    by (auto simp: demo_final_def demo_state_def demo_apps_def demo_app_def init_app_def proper_app_def
        proper_pages_def demo_blk'_def demo_blk_def init_vector_def demo_block_tsb_def)
qed

lemma demo_pages:
  "app_pages [0] 0 0 (demo_app demo_blk' demo_ls') = [(64, 0x8000000000001040), (96, 0x8000000000001060)]"
  "app_pages [0] 0 1 (demo_app demo_blk' demo_ls') = [(64, 0x8000000000001050)]"
  "csm_app_pages [0] 0 0 (demo_app demo_blk' demo_ls') = [(64, 7), (96, 7)]"
  by (simp_all add: app_pages_def block_pages_def tsb_pages_def csm_app_pages_def csm_block_pages_def
      csm_pages_def slot_pages_def page_slot_def demo_blk'_def run_simps)

text \<open>
  C2: A run that returns and was asked for the TSBs leaves, in every bucket of every TSB and
  of every TSBCSM, exactly the pages of all blocks of all applications that fall on it, in the
  order of the description, each as the pair that the block computes for it; the heap is well
  formed. The pages must not look like empty or linked entries.
\<close>

theorem run_fills_tables:
  assumes "process_goldfinger_file env opts args infile g0 = Inr (g, out, str)" and "c_gentsbs args"
    and "\<forall>a \<in> set (elements (App_vector (g_apps g))). proper_app (tsb_sizes g) a"
  shows "heap_wf (tsb_heap_of g) \<and> csm_heap_wf (csm_heap_of g) \<and>
    (\<forall>q j. bucket (tsb_heap_of g) q j =
      concat (map (app_pages (tsb_sizes g) q j) (elements (App_vector (g_apps g)))) \<and>
     csm_bucket (csm_heap_of g) q j =
      concat (map (csm_app_pages (tsb_sizes g) q j) (elements (App_vector (g_apps g)))))"
  using assms by (rule run_tables)

theorem run_fills_tables_witness:
  "heap_wf (tsb_heap_of demo_final) \<and>
   bucket (tsb_heap_of demo_final) 0 0 = [(64, 0x8000000000001040), (96, 0x8000000000001060)] \<and>
   bucket (tsb_heap_of demo_final) 0 1 = [(64, 0x8000000000001050)] \<and>
   csm_bucket (csm_heap_of demo_final) 0 0 = [(64, 7), (96, 7)]"
proof -
  have s: "tsb_sizes demo_final = [0]"
    by (simp add: tsb_sizes_def sizes_def demo_final_def demo_state_def demo_heap_def demo_tsb_def init_tsb_def)
  have a: "elements (App_vector (g_apps demo_final)) = [demo_app demo_blk' demo_ls']"
    by (simp add: demo_final_def demo_state_def demo_apps_def)
  have c: "c_gentsbs demo_args" by (simp add: demo_args_def)
  show ?thesis
    using run_fills_tables [OF demo_run c demo_proper] demo_pages unfolding s a by simp
qed

subsection \<open>From the description to the memory of the simulator\<close>

lemma demo_run_fits: "run_fits demo_final"
  by (auto simp: run_fits_def table_fits_def demo_final_def demo_state_def demo_heap_def demo_csm_heap_def
      demo_tsb_def demo_tsbcsm_def demo_csm_entries_def ce_vacant_def)

text \<open>
  C1: The memory that a simulator has after it loaded the image of a run holds the tables as
  the hardware reads them: at the index \<open>j\<close> of every TSB the reader, which follows the links
  from node to node, finds exactly the pages of all blocks that fall on \<open>j\<close>, in the order of
  the description. The tables must have an even number of entries that fit in the address
  space, and suppressed zeros must be written as counts.
\<close>

theorem run_image_readable:
  assumes "process_goldfinger_file env opts args infile g0 = Inr (g, out, str)" and "c_gentsbs args"
    and "\<forall>a \<in> set (elements (App_vector (g_apps g))). proper_app (tsb_sizes g) a"
    and "run_fits g" and "o_Suppress_zero opts \<Longrightarrow> o_EnvZero opts"
    and "q < length (elements (Tsb_vector (g_tsbs g)))" and "t = elements (Tsb_vector (g_tsbs g)) ! q"
    and "j < unat (t_num_entries t)"
    and "\<And>l. l \<in> set (elements (Link_vector (g_tsb_links g))) \<Longrightarrow> length (nodes l) \<le> n"
  shows "read_tsb (snd (load_items out s0)) n (t_start_addr t) j =
    Some (concat (map (app_pages (tsb_sizes g) q j) (elements (App_vector (g_apps g)))))"
  using assms by (rule run_reads)

theorem run_image_readable_witness:
  "read_tsb (snd (load_items (demo_image @ demo_mmu_image) (0, Map.empty))) 2 0x10000 0 =
    Some [(64, 0x8000000000001040), (96, 0x8000000000001060)]"
proof -
  have v: "elements (Tsb_vector (g_tsbs demo_final)) = [demo_tsb demo_tsb_entries]"
    "elements (Link_vector (g_tsb_links demo_final)) = [demo_link demo_tsb_nodes]"
    by (simp_all add: demo_final_def demo_state_def demo_heap_def)
  have a: "elements (App_vector (g_apps demo_final)) = [demo_app demo_blk' demo_ls']" "tsb_sizes demo_final = [0]"
    by (simp_all add: demo_final_def demo_state_def demo_apps_def tsb_sizes_def sizes_def demo_heap_def
        demo_tsb_def init_tsb_def)
  have t: "t_start_addr (demo_tsb demo_tsb_entries) = 0x10000" "t_num_entries (demo_tsb demo_tsb_entries) = 2"
    by (simp_all add: demo_tsb_def)
  have l: "length (nodes (demo_link demo_tsb_nodes)) = 2" by (simp add: demo_link_def demo_tsb_nodes_def)
  have c: "c_gentsbs demo_args" "o_EnvZero demo_options"
    by (simp_all add: demo_args_def demo_options_def default_options_def)
  show ?thesis
    using run_image_readable [OF demo_run c(1) demo_proper demo_run_fits c(2), of 0 "demo_tsb demo_tsb_entries" 0 2]
    unfolding v a by (simp add: t l demo_pages(1))
qed

text \<open>
  C3: The memory image of a whole run. The pieces of a run are its blocks, each with the
  words of its section, for every application and every section of its ELF file, and then
  its tables and link areas. In the memory that a simulator has after it loaded the output,
  every piece stands whole at its address, no address belongs to two pieces, and every word
  outside of the pieces is what it was. For this the blocks must lie below the size of
  physical memory, since the image gets the address cut to that size and the map of
  physical memory the whole one; they must have whole 64-bit words and no last line that the
  stale flag hides; the sections of a file must have different names; and the tables must
  fit as for the first property.
\<close>

theorem run_image_pieces:
  assumes "process_goldfinger_file env opts args infile g0 = Inr (g, out, str)"
    and "image_fits env opts args g" and "ps = image_pieces env args g"
  shows "(\<forall>i k. i < length ps \<and> k < length (snd (ps ! i)) \<longrightarrow>
      snd (load_items out s0) (advance (fst (ps ! i)) k) = Some (snd (ps ! i) ! k)) \<and>
    (\<forall>i j x. i < length ps \<and> j < length ps \<and> i \<noteq> j \<longrightarrow> \<not> (covers (ps ! i) x \<and> covers (ps ! j) x)) \<and>
    (\<forall>x. (\<forall>p \<in> set ps. \<not> covers p x) \<longrightarrow> snd (load_items out s0) x = snd s0 x)"
proof (intro conjI allI impI)
  fix i k
  assume "i < length ps \<and> k < length (snd (ps ! i))"
  then show "snd (load_items out s0) (advance (fst (ps ! i)) k) = Some (snd (ps ! i) ! k)"
    using run_loads(1) [OF assms, of "ps ! i" s0] by (simp add: holds_def)
next
  fix i j x
  assume "i < length ps \<and> j < length ps \<and> i \<noteq> j"
  then show "\<not> (covers (ps ! i) x \<and> covers (ps ! j) x)"
    using run_loads(2) [OF assms, of i j x] by blast
next
  fix x
  assume "\<forall>p \<in> set ps. \<not> covers p x"
  then show "snd (load_items out s0) x = snd s0 x"
    using run_loads(3) [OF assms, of x s0] by blast
qed

lemma demo_words:
  "block_words demo_section demo_blk' =
    [0x00010203, 0x04050607, 0x08090A0B, 0x0C0D0E0F, 0x10111213, 0x14151617,
     0x18191A1B, 0x1C1D1E1F, 0x20212223, 0x24252627, 0x28292A2B, 0x2C2D2E2F]"
  by (simp add: block_words_def run_simps demo_blk'_def demo_section_def)

lemma demo_image_fits: "image_fits demo_env demo_options demo_args demo_final"
proof -
  have "\<not> stale_tail (block_words demo_section demo_blk')"
    by (simp add: stale_tail_def demo_words tail_flag.simps)
  then have "block_fits c True 40 demo_section demo_blk'" for c
    by (simp add: block_fits_def demo_blk'_def demo_blk_def)
  then show ?thesis
    using demo_run_fits
    by (auto simp: image_fits_def app_fits_def elf_fits_def load_names_def loads_name_def loads_data_def
        in_section_def demo_env_def demo_section_def demo_symbols_def demo_options_def default_options_def
        demo_final_def demo_state_def demo_apps_def demo_app_def)
qed

theorem run_image_pieces_witness:
  "snd (load_items (demo_image @ demo_mmu_image) (0, Map.empty)) 0x1048 = Some 0x08090A0B0C0D0E0F \<and>
   \<not> (covers (image_pieces demo_env demo_args demo_final ! 0) 0x1048 \<and>
      covers (image_pieces demo_env demo_args demo_final ! 1) 0x1048) \<and>
   length (image_pieces demo_env demo_args demo_final) = 5"
proof -
  let ?ps = "image_pieces demo_env demo_args demo_final"
  have a: "elements (App_vector (g_apps demo_final)) = [demo_app demo_blk' demo_ls']"
    by (simp add: demo_final_def demo_state_def demo_apps_def)
  have p: "app_pieces (e_elf demo_env) (demo_app demo_blk' demo_ls') = [block_piece demo_section demo_blk']"
    by (simp add: app_pieces_def elf_pieces_def section_pieces_def in_section_def loads_name_def loads_data_def
        demo_app_def demo_env_def demo_section_def demo_symbols_def demo_blk'_def demo_blk_def init_block_def)
  have c: "c_genimage demo_args" "c_gentsbs demo_args" by (simp_all add: demo_args_def)
  have ps: "?ps = block_piece demo_section demo_blk' # run_pieces demo_final"
    by (simp add: image_pieces_def a p c)
  have n: "length (run_pieces demo_final) = 4"
    by (simp add: run_pieces_def demo_final_def demo_state_def demo_heap_def demo_csm_heap_def)
  have pa: "b_pa demo_blk' = 0x1040" by (simp add: demo_blk'_def demo_blk_def)
  have 0: "fst (?ps ! 0) = 0x1040" "snd (?ps ! 0) ! 1 = 0x08090A0B0C0D0E0F" "length (snd (?ps ! 0)) = 6"
    by (simp_all add: ps block_piece_def demo_words pa word_cat_eq)
  note R = run_image_pieces [OF demo_run demo_image_fits refl, of "(0, Map.empty)"]
  have 1: "0 < length ?ps \<and> 1 < length (snd (?ps ! 0))" and 2: "0 < length ?ps \<and> 1 < length ?ps \<and> (0 :: nat) \<noteq> 1"
    unfolding 0 by (simp_all add: ps n)
  show ?thesis
    using R [THEN conjunct1, rule_format, OF 1] R [THEN conjunct2, THEN conjunct1, rule_format, OF 2]
    unfolding 0 by (simp add: advance_def ps n)
qed

end
