(* ===== verification/Prop_Tables.thy ===== *)
theory Prop_Tables
  imports Gf_Demo Gf_Csm_Pages
begin

text \<open>
  The properties of the tables and link areas (\<^verbatim>\<open>tsb.c\<close>, \<^verbatim>\<open>tsb_link.c\<close>), each with an
  instance on the tables of the example.
\<close>

subsection \<open>The example, before the page that collides is added\<close>

definition demo_full :: "tsb_entry list" where
  "demo_full =
    [\<lparr>te_tag = 64, te_data = 0x8000000000001040, te_block = Some (0, 0), te_block_tsb = Some (0, 0, 0)\<rparr>,
     \<lparr>te_tag = 64, te_data = 0x8000000000001050, te_block = Some (0, 0), te_block_tsb = Some (0, 0, 0)\<rparr>]"

definition demo_csm_full :: "tsbcsm_entry list" where
  "demo_csm_full =
    [\<lparr>ce_tag = 64, ce_data = 0x8000000000001040, ce_clump_num = 7, ce_block = Some (0, 0),
      ce_block_tsb = Some (0, 0, 0)\<rparr>,
     \<lparr>ce_tag = 64, ce_data = 0x8000000000001050, ce_clump_num = 7, ce_block = Some (0, 0),
      ce_block_tsb = Some (0, 0, 0)\<rparr>]"

lemma demo_full_wf: "heap_wf (demo_heap demo_full [])" "csm_heap_wf (demo_csm_heap demo_csm_full [])"
  by (auto simp: heap_wf_def csm_heap_wf_def cell_def area_def link_wf_def csm_link_wf_def area_wf_def
      demo_heap_def demo_csm_heap_def demo_tsb_def demo_tsbcsm_def demo_link_def demo_csm_link_def
      demo_full_def demo_csm_full_def TSB_LINK_TAG_def less_Suc_eq nth_Cons' split: if_splits)

lemma demo_collide:
  "add_entry va_of True 0 0 96 0x8000000000001060 (Some (0, 0)) (Some (0, 0, 0)) (demo_heap demo_full []) =
    Inr (demo_heap demo_tsb_entries demo_tsb_nodes)"
  "add_entry_csm va_of True 0 0 96 0x8000000000001060 7 (Some (0, 0)) (Some (0, 0, 0))
     (demo_csm_heap demo_csm_full []) = Inr (demo_csm_heap demo_csm_entries demo_csm_nodes)"
  by (simp_all add: run_simps demo_full_def demo_csm_full_def demo_tsb_entries_def demo_tsb_nodes_def
      demo_csm_entries_def demo_csm_nodes_def)

subsection \<open>Adding an entry\<close>

text \<open>
  C5: A successful \<^verbatim>\<open>add_entry\<close> appends its pair to one bucket, the list of the pairs that
  were added at that index of that TSB, and leaves every other bucket of every TSB alone; the
  invariant of the heap is kept. The pair must not look like an empty or a linked entry.
\<close>

theorem add_entry_appends:
  assumes "add_entry va_of allow p ix tag data blk btsb hp = Inr hp'" and "heap_wf hp"
    and "tag \<noteq> TSB_LINK_TAG" and "tag \<noteq> 0 \<or> data \<noteq> 0"
  shows "heap_wf hp' \<and> (\<forall>q j. bucket hp' q j = bucket hp q j @
    (if q = p \<and> j = unat ix then [(tag, data)] else []))"
  using add_entry_refines [OF assms] by simp

theorem add_entry_appends_witness:
  "heap_wf (demo_heap demo_tsb_entries demo_tsb_nodes) \<and>
   bucket (demo_heap demo_tsb_entries demo_tsb_nodes) 0 0 =
     bucket (demo_heap demo_full []) 0 0 @ [(96, 0x8000000000001060)]"
  using add_entry_appends [OF demo_collide(1) demo_full_wf(1)] by (simp add: TSB_LINK_TAG_def)

text \<open>C6: The same for \<^verbatim>\<open>add_entry_csm\<close>, whose pairs are a tag and a clump number.\<close>

theorem add_entry_csm_appends:
  assumes "add_entry_csm va_of allow p ix tag data clump blk btsb hp = Inr hp'" and "csm_heap_wf hp"
    and "tag \<noteq> TSB_LINK_TAG" and "tag \<noteq> 0 \<or> data \<noteq> 0"
  shows "csm_heap_wf hp' \<and> (\<forall>q j. csm_bucket hp' q j = csm_bucket hp q j @
    (if q = p \<and> j = unat ix then [(tag, clump)] else []))"
  using add_entry_csm_refines [OF assms] by simp

theorem add_entry_csm_appends_witness:
  "csm_heap_wf (demo_csm_heap demo_csm_entries demo_csm_nodes) \<and>
   csm_bucket (demo_csm_heap demo_csm_entries demo_csm_nodes) 0 0 =
     csm_bucket (demo_csm_heap demo_csm_full []) 0 0 @ [(96, 7)]"
  using add_entry_csm_appends [OF demo_collide(2) demo_full_wf(2)] by (simp add: TSB_LINK_TAG_def)

lemma mask_fault: "bit_range_to_mask_64 r = Inl f \<Longrightarrow> f = Undefined"
  by (auto simp: bit_range_to_mask_64_def bit_range_to_shifted_mask_64_def Let_def res_bind_Inl_iff split: if_splits)

lemma elem_fault: "vector_elem v i = Inl f \<Longrightarrow> f = Undefined"
  by (auto simp: vector_elem_def split: if_splits)

lemma tag2va_fault: "tag2va_at apps r tag index = Inl f \<Longrightarrow> f = Undefined"
  by (auto simp: tag2va_at_def tag2va_def Let_def res_bind_Inl_iff split: if_splits dest: mask_fault elem_fault)

text \<open>
  C7: What \<^verbatim>\<open>add_entry\<close> does with an index, when the allocated entries match the number of
  entries and the link area has room for two more nodes. An index behind the table ends the
  program with \<^verbatim>\<open>M_BADTSB\<close>. At any other index an empty entry is filled; a collision ends
  with \<^verbatim>\<open>M_VACOLLIDE\<close> unless conflicts are allowed, then with \<^verbatim>\<open>M_BADTSB\<close> if the TSB has no
  link area, and else it is added. The two reports of a collision read the blocks and the
  BLOCK_TSBs of both pages: a null pointer there, or a bit range that cannot be shifted by, is undefined
  behaviour instead of the exit. Nothing else is undefined, and no loop is endless.
\<close>

theorem add_entry_result:
  assumes "heap_wf hp" and "area (fst hp) p = Some t" and "unat (t_num_entries t) \<le> length (t_entries t)"
    and "\<And>k. t_link_ptr t = Some k \<Longrightarrow>
      \<exists>l. area (snd hp) k = Some l \<and> LINK_SIZE * Suc (length (nodes l)) < 2 ^ 31"
  shows "if t_num_entries t \<le> ix then add_entry (tag2va_at apps) allow p ix tag data blk btsb hp = Inl (Exit M_BADTSB)
    else \<exists>e. cell (fst hp) p (unat ix) = Some e \<and>
      (let report = (\<lambda>code. Inl (if report_ok (tag2va_at apps) ix tag blk btsb (te_tag e) (te_block e) (te_block_tsb e)
           then Exit code else Undefined))
       in if te_vacant e then \<exists>hp'. add_entry (tag2va_at apps) allow p ix tag data blk btsb hp = Inr hp'
       else if \<not> allow then add_entry (tag2va_at apps) allow p ix tag data blk btsb hp = report M_VACOLLIDE
       else if t_link_ptr t = None then add_entry (tag2va_at apps) allow p ix tag data blk btsb hp = report M_BADTSB
       else \<exists>hp'. add_entry (tag2va_at apps) allow p ix tag data blk btsb hp = Inr hp')"
proof (cases "t_num_entries t \<le> ix")
  case True
  with add_entry_outcome(1) [OF assms] show ?thesis by simp
next
  case False
  then have "ix < t_num_entries t" by simp
  from add_entry_outcome(2) [OF assms this, of "tag2va_at apps" allow tag data blk btsb]
  show ?thesis
    by (simp only: if_not_P [OF False] Let_def collision_exit_is [of "tag2va_at apps", OF tag2va_fault])
qed

definition demo_described :: "app vector" where
  "demo_described = (init_vector None init_app)\<lparr>elements := [demo_app demo_blk' demo_ls']\<rparr>"

theorem add_entry_result_witness:
  "add_entry (tag2va_at demo_described) True 0 5 96 0 None None (demo_heap demo_full []) = Inl (Exit M_BADTSB) \<and>
   add_entry (tag2va_at demo_described) False 0 1 96 0 (Some (0, 0)) (Some (0, 0, 0)) (demo_heap demo_full []) =
     Inl (Exit M_VACOLLIDE) \<and>
   add_entry (tag2va_at demo_described) False 0 1 96 0 None None (demo_heap demo_full []) = Inl Undefined"
proof -
  have a: "area (fst (demo_heap demo_full [])) 0 = Some (demo_tsb demo_full)"
    by (simp add: area_def demo_heap_def)
  have n: "t_num_entries (demo_tsb demo_full) = 2" "t_entries (demo_tsb demo_full) = demo_full"
    "t_link_ptr (demo_tsb demo_full) = Some 0"
    by (simp_all add: demo_tsb_def)
  have u: "unat (t_num_entries (demo_tsb demo_full)) \<le> length (t_entries (demo_tsb demo_full))"
    unfolding n by (simp add: demo_full_def)
  have l: "\<exists>l. area (snd (demo_heap demo_full [])) k = Some l \<and> LINK_SIZE * Suc (length (nodes l)) < 2 ^ 31"
    if "t_link_ptr (demo_tsb demo_full) = Some k" for k
    using that by (simp add: n area_def demo_heap_def demo_link_def LINK_SIZE_def)
  have e: "cell (fst (demo_heap demo_full [])) 0 (Suc 0) = Some (demo_full ! 1)"
    by (simp add: cell_def demo_heap_def demo_tsb_def demo_full_def)
  have v: "\<not> te_vacant (demo_full ! 1)" by (simp add: te_vacant_def demo_full_def)
  have va: "\<exists>v. tag2va_at demo_described (0, 0, 0) tag 1 = Inr v" for tag
    by (simp add: tag2va_at_def demo_described_def run_simps demo_blk'_def)
  then have r: "report_ok (tag2va_at demo_described) 1 96 (Some (0, 0)) (Some (0, 0, 0)) (te_tag (demo_full ! 1))
      (te_block (demo_full ! 1)) (te_block_tsb (demo_full ! 1))"
    by (simp add: report_ok_def demo_full_def)
  have "\<not> report_ok (tag2va_at demo_described) 1 96 None None (te_tag (demo_full ! 1))
      (te_block (demo_full ! 1)) (te_block_tsb (demo_full ! 1))" by (simp add: report_ok_def)
  then show ?thesis
    using add_entry_result [OF demo_full_wf(1) a u l, of 5 demo_described True 96 0 None None]
      add_entry_result [OF demo_full_wf(1) a u l, of 1 demo_described False 96 0 "Some (0, 0)" "Some (0, 0, 0)"]
      add_entry_result [OF demo_full_wf(1) a u l, of 1 demo_described False 96 0 None None] v r e
    by (simp add: n numeral_le_1 Let_def)
qed

subsection \<open>Chains\<close>

lemma demo_link_wf: "link_wf (demo_link [])" "link_wf (demo_link demo_tsb_nodes)"
  by (auto simp: link_wf_def area_wf_def node_ok_def demo_link_def demo_tsb_nodes_def LINK_SIZE_def
      node_addr_def EOL_def less_Suc_eq nth_Cons' split: if_splits)

text \<open>
  C8: In a well formed link area the loop that follows the \<^verbatim>\<open>next\<close> pointers ends, at a node
  without a successor, after at most as many steps as there are nodes.
\<close>

theorem chase_chain_ends:
  assumes "link_wf l" and "i < length (nodes l)"
  shows "\<exists>j. chase_chain (nodes l) (length (nodes l)) i = Inr j \<and> j < length (nodes l) \<and>
    le_next (nodes l ! j) = None"
  using tsbch.chase_last [OF assms [unfolded link_wf_def]] last_chain_idx [OF assms [unfolded link_wf_def]]
  by blast

theorem chase_chain_ends_witness:
  "\<exists>j. chase_chain demo_tsb_nodes 2 0 = Inr j \<and> le_next (demo_tsb_nodes ! j) = None"
  using chase_chain_ends [OF demo_link_wf(2), of 0]
  by (auto simp: demo_link_def demo_tsb_nodes_def numeral_2_eq_2)

text \<open>
  \<^verbatim>\<open>tsb_link_add_entry\<close> keeps a link area well formed. Afterwards the entry points to a
  chain with the pairs it stood for before, its own pair or those of its chain, and the new
  pair at the end; every other chain of the area is unchanged.
\<close>

theorem link_add_entry_chain:
  assumes "tsb_link_add_entry l tag data te blk btsb = Inr (l', te')" and "link_wf l"
    and "te_tag te = TSB_LINK_TAG \<Longrightarrow> link_root l (te_head l te)"
  shows "link_wf l' \<and> te_tag te' = TSB_LINK_TAG \<and> link_root l' (te_head l' te') \<and>
    chain_pairs l' (te_head l' te') =
      (if te_tag te = TSB_LINK_TAG then chain_pairs l (te_head l te) else [(te_tag te, te_data te)])
      @ [(tag, data)] \<and>
    (\<forall>g. link_root l g \<longrightarrow> link_root l' g \<and>
      ((te_tag te = TSB_LINK_TAG \<longrightarrow> g \<noteq> te_head l te) \<longrightarrow>
        g \<noteq> te_head l' te' \<and> chain_pairs l' g = chain_pairs l g))"
  using tsb_add_entry_InrD [OF assms] by blast

theorem link_add_entry_chain_witness:
  "chain_pairs (demo_link demo_tsb_nodes) (te_head (demo_link demo_tsb_nodes) (demo_tsb_entries ! 0)) =
    [(64, 0x8000000000001040), (96, 0x8000000000001060)]"
proof -
  have "tsb_link_add_entry (demo_link []) 96 0x8000000000001060 (demo_full ! 0) (Some (0, 0)) (Some (0, 0, 0)) =
      Inr (demo_link demo_tsb_nodes, demo_tsb_entries ! 0)"
    by (simp add: run_simps demo_full_def demo_tsb_entries_def demo_tsb_nodes_def)
  from link_add_entry_chain [OF this demo_link_wf(1)] show ?thesis
    by (simp add: demo_full_def TSB_LINK_TAG_def)
qed

text \<open>
  C16: The documentation of the option \<^verbatim>\<open>-allow_duplicate_tags\<close> says that adding a tag twice to
  a link area is an error unless the option is given. It never is: as long as two more nodes
  fit in the area, a tag that is in the chain already is accepted and appears in it twice.
\<close>

theorem duplicate_tag_accepted:
  assumes "link_wf l" and "te_tag te = TSB_LINK_TAG" and "link_root l (te_head l te)"
    and "LINK_SIZE * Suc (length (nodes l)) < 2 ^ 31" and "(tag, d) \<in> set (chain_pairs l (te_head l te))"
  shows "\<exists>l'. tsb_link_add_entry l tag data te blk btsb = Inr (l', te) \<and>
    chain_pairs l' (te_head l' te) = chain_pairs l (te_head l te) @ [(tag, data)] \<and>
    \<not> distinct (map fst (chain_pairs l' (te_head l' te)))"
proof -
  obtain l' te' where a: "tsb_link_add_entry l tag data te blk btsb = Inr (l', te')"
    using tsb_link_add_entry_total [OF assms(1,3,4)] by (metis surj_pair)
  have "te' = te" using a assms(2) by (auto simp: tsb_link_add_entry_def Let_def gf_res)
  with a have a: "tsb_link_add_entry l tag data te blk btsb = Inr (l', te)" by simp
  have c: "chain_pairs l' (te_head l' te) = chain_pairs l (te_head l te) @ [(tag, data)]"
    using tsb_add_entry_InrD [OF a assms(1,3)] assms(2) by auto
  have m: "tag \<in> fst ` set (chain_pairs l (te_head l te))" using assms(5) by force
  show ?thesis using a by (intro exI [of _ l'] conjI) (simp_all add: c m)
qed

theorem duplicate_tag_accepted_witness:
  "\<exists>l'. tsb_link_add_entry (demo_link demo_tsb_nodes) 64 5 (demo_tsb_entries ! 0) None None =
    Inr (l', demo_tsb_entries ! 0)"
proof -
  have h: "te_head (demo_link demo_tsb_nodes) (demo_tsb_entries ! 0) = 0"
    by (simp add: demo_link_def demo_tsb_entries_def link_index_def)
  have r: "link_root (demo_link demo_tsb_nodes) 0"
    by (auto simp: link_root_def is_root_def demo_link_def demo_tsb_nodes_def less_Suc_eq nth_Cons')
  have c: "(64, 0x8000000000001040) \<in> set (chain_pairs (demo_link demo_tsb_nodes) 0)"
    by (simp add: chain_pairs_def demo_link_def demo_tsb_nodes_def chain_idx.simps tsb_pair_def)
  have s: "LINK_SIZE * Suc (length (nodes (demo_link demo_tsb_nodes))) < 2 ^ 31"
    by (simp add: demo_link_def demo_tsb_nodes_def LINK_SIZE_def)
  have t: "te_tag (demo_tsb_entries ! 0) = TSB_LINK_TAG"
    by (simp add: demo_tsb_entries_def TSB_LINK_TAG_def)
  show ?thesis
    using duplicate_tag_accepted [OF demo_link_wf(2) t _ s, unfolded h, OF r c] by blast
qed

end
