(* ===== verification/Prop_Image.thy ===== *)
theory Prop_Image
  imports Gf_Block_Image Gf_Demo Prop_Tables
begin

text \<open>
  The properties of the memory image (\<^verbatim>\<open>block_generate_image\<close>, \<^verbatim>\<open>write_tsb\<close> and their
  siblings): what a simulator that loads the output has in memory afterwards.
\<close>

subsection \<open>Blocks\<close>

text \<open>
  C4: The items that \<^verbatim>\<open>block_generate_image\<close> writes for a block in the image, loaded into a
  memory, put the words of the block, two per 64-bit word, at its physical address and change
  nothing else. Compressed zeros must be written as counts (\<^verbatim>\<open>EnvZero\<close>), and no shorter last
  line may follow a suppressed one.
\<close>

theorem image_loads_block:
  assumes "block_generate_image cmp env pa_size scn blk pm = Inr (pm', out)" and "b_in_image blk \<noteq> 0"
    and "unat (b_pa blk) < 2 ^ nat pa_size"
    and "b_compress blk \<noteq> 0 \<Longrightarrow> cmp \<Longrightarrow> env \<and> \<not> stale_tail (block_words scn blk)"
  shows "snd (load_items out s0) = store64s (b_pa blk) (pair64 (block_words scn blk)) (snd s0)"
  using assms by (rule block_image_load)

definition demo_zeros :: elf_section where
  "demo_zeros = demo_section\<lparr>es_data := replicate 32 0 @ map of_nat [1..<17]\<rparr>"

definition demo_zblk :: block where
  "demo_zblk = demo_blk\<lparr>b_compress := 1, b_d_length := 48\<rparr>"

lemma demo_zblk_sel: "b_in_image demo_zblk = 1" "b_pa demo_zblk = 4160" "b_compress demo_zblk = 1"
  "b_d_length demo_zblk = 48" "b_d_offset demo_zblk = 0" "b_section_name demo_zblk = ''.text''"
  "b_segment_name demo_zblk = ''<unknown>''" "b_srcfile demo_zblk = ''<unknown>''" "b_srcline demo_zblk = 0"
  "b_lineno demo_zblk = 4"
  by (simp_all add: demo_zblk_def demo_blk_def init_block_def)

lemma replicate_numeral: "replicate (numeral k) x = x # replicate (pred_numeral k) x"
  by (simp only: numeral_eq_Suc [of k] replicate_Suc)

lemma demo_zeros_words:
  "section_words demo_zeros demo_zblk =
    [0, 0, 0, 0, 0, 0, 0, 0, 0x01020304, 0x05060708, 0x090A0B0C, 0x0D0E0F10]"
  by (simp add: section_words_def demo_zeros_def demo_section_def replicate_numeral upt_conv_Cons of_nat_Suc)

definition demo_zimage :: "bool \<Rightarrow> item list" where
  "demo_zimage cmp =
    [Newline, At 4160 (''Section '' @ quoted ''.text'' @ '', segment '' @ quoted ''<unknown>'')] @
    (if cmp then [] else [Pair False 0 0, Pair True 0 0, Pair True 0 0, Pair True 0 0, Newline]) @
    [Pair False 0x01020304 0x05060708, Pair True 0x090A0B0C 0x0D0E0F10, Newline] @
    (if cmp then [ZeroBytes 32] else [])"

lemma demo_zgen:
  "block_generate_image cmp True 40 demo_zeros demo_zblk init_physmap = Inr (demo_pm, demo_zimage cmp)"
  by (cases cmp) (simp_all add: run_simps demo_zblk_def demo_zeros_def demo_section_def replicate_numeral
      demo_zimage_def demo_pm_def)

theorem image_loads_block_witness:
  "snd (load_items (demo_zimage False) (0, Map.empty)) =
    store64s 4160 [0, 0, 0, 0, 0x0102030405060708, 0x090A0B0C0D0E0F10] Map.empty"
  using image_loads_block [OF demo_zgen [of False]]
  by (simp add: demo_zblk_sel block_words_def demo_zeros_words word_cat_eq)

text \<open>
  C14: Without that condition the image is wrong: whenever the whole lines of a compressed
  block end with a line of zeros and a shorter last line follows that has a word other than
  zero, the memory that is loaded is not the block. The flag \<^verbatim>\<open>zero_line\<close> still says that the
  last line is zero, so that neither the zeros before it nor its address are written, and
  its words stand where the zeros belong: some word of the block is zero and is loaded as
  another value.
\<close>

theorem stale_zero_line:
  assumes "block_generate_image True True pa_size scn blk pm = Inr (pm', out)"
    and "b_in_image blk \<noteq> 0" and "b_compress blk \<noteq> 0" and "unat (b_pa blk) < 2 ^ nat pa_size"
    and "ws = block_words scn blk" and "stale_tail ws"
    and "w \<in> set (drop (8 * (length ws div 8)) ws)" and "w \<noteq> 0"
  shows "(\<exists>i x. i < length (pair64 ws) \<and> pair64 ws ! i = 0 \<and> x \<noteq> 0 \<and>
      snd (load_items out s0) (advance (b_pa blk) i) = Some x) \<and>
    snd (load_items out s0) \<noteq> store64s (b_pa blk) (pair64 ws) (snd s0)"
proof -
  from block_generate_image_InrD [OF assms(1,2)] assms(5) have "length ws < 2 ^ 31" by metis
  then have "length (pair64 ws) \<le> 2 ^ 61" by (simp add: length_pair64)
  note S = store64s_inside [OF this, of _ "b_pa blk" "snd s0"]
  obtain i x where i: "i < length (pair64 ws)" "pair64 ws ! i = 0" "x \<noteq> 0"
    "snd (load_items out s0) (advance (b_pa blk) i) = Some x"
    using stale_block_load [OF assms, of s0] by blast
  with S [OF i(1)] have "snd (load_items out s0) \<noteq> store64s (b_pa blk) (pair64 ws) (snd s0)" by auto
  with i show ?thesis by blast
qed

theorem stale_zero_line_witness:
  "snd (load_items (demo_zimage True) (0, Map.empty)) \<noteq>
    store64s 4160 [0, 0, 0, 0, 0x0102030405060708, 0x090A0B0C0D0E0F10] Map.empty"
proof -
  have w: "block_words demo_zeros demo_zblk =
      [0, 0, 0, 0, 0, 0, 0, 0, 0x01020304, 0x05060708, 0x090A0B0C, 0x0D0E0F10]"
    by (simp add: block_words_def demo_zblk_sel demo_zeros_words)
  have s: "stale_tail (block_words demo_zeros demo_zblk)" by (simp add: w stale_tail_def tail_flag.simps)
  have n: "0x01020304 \<in> set (drop (8 * (length (block_words demo_zeros demo_zblk) div 8)) (block_words demo_zeros demo_zblk))"
    by (simp add: w)
  have p: "pair64 (block_words demo_zeros demo_zblk) = [0, 0, 0, 0, 0x0102030405060708, 0x090A0B0C0D0E0F10]"
    by (simp add: w word_cat_eq)
  show ?thesis
    using stale_zero_line [OF demo_zgen [of True] _ _ _ refl s n, of "(0, Map.empty)"]
    by (simp add: demo_zblk_sel p)
qed

text \<open>
  C13: A block whose size was calculated from its section lies in the data of that section, so
  that its image is generated without reading outside of it and without undefined shifts.
\<close>

theorem calculated_block_in_bounds:
  assumes "block_calculate_size pa_size ls blk = Inr blk'"
    and "b_end_label blk = None" "b_end_va blk = NO_ADDR \<or> b_no_end_range_check blk = Some 0"
    and "ls_length ls = es_size scn" "es_type scn \<noteq> SHT_NOBITS \<Longrightarrow> length (es_data scn) = unat (es_size scn)"
    and "0 \<le> pa_size" "pa_size < 64" and "unat (es_size scn) div 4 < 2 ^ 31 - 1" and "physmap_wf pm"
  shows "block_generate_image cmp env pa_size scn blk' pm \<noteq> Inl Undefined"
  using assms by (rule image_in_bounds)

theorem calculated_block_in_bounds_witness:
  "block_generate_image True True 40 demo_section demo_blk' init_physmap \<noteq> Inl Undefined"
proof -
  have c: "block_calculate_size 40 demo_ls' demo_blk = Inr demo_blk'"
    by (simp add: run_simps demo_blk'_def demo_ls'_def)
  have b: "b_end_label demo_blk = None" "b_end_va demo_blk = NO_ADDR"
    by (simp_all add: demo_blk_def init_block_def)
  have s: "ls_length demo_ls' = es_size demo_section" "length (es_data demo_section) = unat (es_size demo_section)"
    "unat (es_size demo_section) div 4 < 2 ^ 31 - 1"
    by (simp_all add: demo_ls'_def demo_section_def)
  show ?thesis
    by (rule calculated_block_in_bounds [OF c b(1) disjI1 [OF b(2)] s(1) s(2) _ _ s(3) physmap_wf_init]) simp_all
qed

subsection \<open>Tables and link areas\<close>

text \<open>
  C10: The items that \<^verbatim>\<open>write_tsb\<close> writes, loaded into a memory, put the tag and the data of
  every entry, in order, at the start address of the TSB and change nothing else, whatever
  rows of zeros were suppressed.
\<close>

theorem write_tsb_loads:
  assumes "write_tsb supp env t pm = Inr (pm', out)"
    and "16 * unat (t_num_entries t) < 2 ^ 64" and "even (unat (t_num_entries t))" and "supp \<Longrightarrow> env"
  shows "snd (load_items out s0) = store64s (t_start_addr t)
    (flat (\<lambda>e. (te_tag e, te_data e)) (take (unat (t_num_entries t)) (t_entries t))) (snd s0)"
  using assms by (rule write_tsb_image)

definition demo_tsb_out :: "tsb_entry list \<Rightarrow> item list" where
  "demo_tsb_out es = (case write_tsb True True (demo_tsb es) init_physmap of Inl _ \<Rightarrow> [] | Inr (pm, out) \<Rightarrow> out)"

theorem write_tsb_loads_witness:
  "snd (load_items (demo_tsb_out [zero_tsb_entry, zero_tsb_entry]) (0, Map.empty)) =
    store64s 0x10000 [0, 0, 0, 0] Map.empty"
proof -
  obtain pm' where w: "write_tsb True True (demo_tsb [zero_tsb_entry, zero_tsb_entry]) init_physmap =
      Inr (pm', demo_tsb_out [zero_tsb_entry, zero_tsb_entry])"
    by (simp add: run_simps demo_tsb_out_def)
  show ?thesis
    using write_tsb_loads [OF w, of "(0, Map.empty)"]
    by (simp add: demo_tsb_def zero_tsb_entry_def)
qed

text \<open>
  The items that \<^verbatim>\<open>write_tsb_link\<close> writes put four words for every node of the link area
  at its start address: tag, data and twice the address of the next node.
\<close>

theorem write_tsb_link_loads:
  assumes "write_tsb_link l pm = Inr (pm', out)"
  shows "snd (load_items out s0) = store64s (tl_start_addr l)
    (concat (map (\<lambda>e. [le_tag e, le_data e, le_link e, le_link e]) (nodes l))) (snd s0)"
  using assms by (rule write_tsb_link_image)

theorem write_tsb_link_loads_witness:
  "\<exists>pm' out. write_tsb_link (demo_link demo_tsb_nodes) init_physmap = Inr (pm', out) \<and>
    snd (load_items out (0, Map.empty)) = store64s 0x20000
      [64, 0x8000000000001040, 0x20020, 0x20020, 96, 0x8000000000001060, - 1, - 1] Map.empty"
proof -
  obtain pm' out where w: "write_tsb_link (demo_link demo_tsb_nodes) init_physmap = Inr (pm', out)"
    by (simp add: run_simps demo_tsb_nodes_def)
  show ?thesis
    using w write_tsb_link_loads [OF w, of "(0, Map.empty)"]
    by (simp add: demo_link_def demo_tsb_nodes_def)
qed

text \<open>
  C15: The output for a TSBCSM does not depend on the data words of its entries, as long as the
  same entries are empty. The address of a chain is only kept there, so that a reader of the
  image cannot find the chain of an entry that was hit more than once.
\<close>

lemma write_rows_map:
  assumes "\<And>e. e \<in> set es \<Longrightarrow> zero (f e) = zero e \<and> row (f e) = row e"
  shows "write_rows supp env start zero row (map f es) i st = write_rows supp env start zero row es i st"
  using assms by (induction es arbitrary: i st rule: induct_list012) simp_all

theorem write_tsbcsm_hides_data:
  assumes "\<forall>e \<in> set (t_entries t). (ce_tag e = 0 \<and> d e = 0) = ce_vacant e"
  shows "write_tsbcsm supp env (t\<lparr>t_entries := map (\<lambda>e. e\<lparr>ce_data := d e\<rparr>) (t_entries t)\<rparr>) pm =
    write_tsbcsm supp env t pm"
proof -
  have "write_rows supp env a (\<lambda>e. ce_tag e = 0 \<and> ce_data e = 0) (\<lambda>e. (ce_tag e, ce_clump_num e))
      (map (\<lambda>e. e\<lparr>ce_data := d e\<rparr>) (take n (t_entries t))) i st =
    write_rows supp env a (\<lambda>e. ce_tag e = 0 \<and> ce_data e = 0) (\<lambda>e. (ce_tag e, ce_clump_num e))
      (take n (t_entries t)) i st" for a n i st
    using assms by (intro write_rows_map) (auto simp: ce_vacant_def dest!: in_set_takeD)
  then show ?thesis by (simp add: write_tsbcsm_def write_table_def take_map cong: if_cong)
qed

theorem write_tsbcsm_hides_data_witness:
  "write_tsbcsm True True (demo_tsbcsm (map (\<lambda>e. e\<lparr>ce_data := 0\<rparr>) demo_csm_entries)) init_physmap =
    write_tsbcsm True True (demo_tsbcsm demo_csm_entries) init_physmap"
  using write_tsbcsm_hides_data [of "demo_tsbcsm demo_csm_entries" "\<lambda>_. 0" True True init_physmap]
  by (simp add: demo_tsbcsm_def init_tsbcsm_def demo_csm_entries_def ce_vacant_def)

end
