(* ===== verification/Prop_Pages.thy ===== *)
theory Prop_Pages
  imports Gf_Demo
begin

text \<open>
  The properties of the translation of a block's pages (\<^verbatim>\<open>block_tsb.c\<close>) and of the checks and
  the placement of blocks (\<^verbatim>\<open>block.c\<close>).
\<close>

subsection \<open>Pages\<close>

definition demo_geometry :: geometry where
  "demo_geometry = (case page_geometry demo_blk' demo_block_tsb 0 of Inr g \<Rightarrow> g)"

lemma demo_geometry: "page_geometry demo_blk' demo_block_tsb 0 = Inr demo_geometry"
  by (simp add: demo_geometry_def run_simps demo_blk'_def)

text \<open>
  \<^verbatim>\<open>sanity_check_block_tsb\<close> accepts exactly the BLOCK_TSBs whose bases are given, whose bits
  are numbers from 0 to 63, whose page size is a power of two below \<open>2 ^ 31\<close>, and whose block
  has aligned addresses.
\<close>

theorem block_tsb_checks: "sanity_check_block_tsb blk bt = Inr () \<longleftrightarrow> block_tsb_ok blk bt"
  by (rule sanity_check_block_tsb_iff)

text \<open>A block of \<open>d\<close> bytes has \<open>d\<close> divided by the page size pages, rounded up.\<close>

theorem pages_of_block:
  assumes "page_geometry blk bt sz = Inr g" and "bt_page_size bt = 2 ^ n" and "n < 64"
  shows "unat (g_num_pages g) = (unat (b_d_length blk) + (2 ^ n - 1)) div 2 ^ n"
  using page_geometry_InrD(10,11) [OF assms(1)] log2_pow2 [OF assms(3)] unat_num_pages [OF assms(3)]
  by (simp add: assms(2))

theorem pages_of_block_witness: "unat (g_num_pages demo_geometry) = (48 + (2 ^ 4 - 1)) div 2 ^ 4"
  using pages_of_block [OF demo_geometry, of 4] by (simp add: demo_block_tsb_def demo_blk'_def)

text \<open>
  The index of a page is made of the index bits of its virtual address, widened by the
  size bits of the TSB, and is smaller than the number of entries these bits can address.
\<close>

theorem page_index_bits:
  assumes "page_geometry blk bt sz = Inr g" and "page_index g k = Inr ix" and "r = bt_va_index_bits bt"
  shows "unat ix = unat (page_va g k) div 2 ^ nat (lo r) mod 2 ^ nat (add_size_bits (hi r) sz - lo r + 1) \<and>
    unat ix < 2 ^ nat (add_size_bits (hi r) sz - lo r + 1)"
  using page_slot_eq [OF assms(1,3)] page_slot_less [OF assms(1,3)] page_index_InrD [OF assms(2)] by simp

theorem page_index_bits_witness: "unat (page_va demo_geometry 1) div 2 ^ 4 mod 2 ^ 1 = 1"
proof -
  have i: "page_index demo_geometry 1 = Inr 1"
    by (simp add: demo_geometry_def run_simps demo_blk'_def)
  show ?thesis
    using page_index_bits [OF demo_geometry i refl] by (simp add: demo_block_tsb_def add_size_bits_def)
qed

text \<open>
  In the tag of a page the bits of the tag range are those that the TTE tag range selects
  from the virtual address, and all others those of the tag base.
\<close>

theorem page_tag_bits:
  assumes "page_geometry blk bt sz = Inr g" and "t = bt_tag_addr_bits bt" and "tt = bt_tte_tag_addr_bits bt"
    and "i < 64"
  shows "bit (page_tag g k) i \<longleftrightarrow>
    (if lo t \<le> int i \<and> int i \<le> hi t
     then int i - lo t + lo tt \<le> hi tt \<and> bit (page_va g k) (nat (int i - lo t + lo tt))
     else bit (bt_tag_base bt) i)"
  using assms by (rule bit_page_tag)

theorem page_tag_bits_witness: "bit (page_tag demo_geometry 0) 6 \<longleftrightarrow> bit (page_va demo_geometry 0) 6"
  using page_tag_bits [OF demo_geometry refl refl, of 6 0] by (simp add: demo_block_tsb_def)

text \<open>
  In the data of a page the bits of the data range are those of its real address, and all
  others those of the data base.
\<close>

theorem page_data_bits:
  assumes "page_geometry blk bt sz = Inr g" and "d = bt_data_addr_bits bt" and "i < 64"
  shows "bit (page_data g k) i \<longleftrightarrow>
    (if lo d \<le> int i \<and> int i \<le> hi d then bit (page_ra g k) i else bit (bt_data_base bt) i)"
  using assms by (rule bit_page_data)

theorem page_data_bits_witness:
  "(bit (page_data demo_geometry 1) 12 \<longleftrightarrow> bit (page_ra demo_geometry 1) 12) \<and> bit (page_data demo_geometry 1) 63"
  using page_data_bits [OF demo_geometry refl, of 12 1] page_data_bits [OF demo_geometry refl, of 63 1]
  by (simp add: demo_block_tsb_def bit_numeral_rec bit_iff_odd)

subsection \<open>Blocks\<close>

text \<open>
  C12: \<^verbatim>\<open>block_calculate_size\<close> only sets the addresses, the offset and the length of a block.
  The block starts inside its section, its offset is the distance from the start of the
  section, and it ends inside of it when its end was not given by a label or by an address
  that is not checked.
\<close>

theorem block_placed_in_section:
  assumes "block_calculate_size pa_size ls blk = Inr blk'"
  shows "\<exists>a n r p. blk' = blk\<lparr>b_va := a, b_d_offset := a - ls_start_va ls, b_d_length := n, b_ra := r, b_pa := p\<rparr> \<and>
    ls_start_va ls \<le> a \<and> a \<le> ls_start_va ls + ls_length ls \<and>
    (\<forall>bt \<in> set (elements (b_tsbs blk')). block_tsb_ok blk' bt) \<and>
    (b_end_label blk = None \<and> (b_end_va blk = NO_ADDR \<or> b_no_end_range_check blk = Some 0) \<longrightarrow>
      unat (a - ls_start_va ls) + unat n \<le> unat (ls_length ls))"
  using assms by (rule block_calculate_size_InrD)

theorem block_placed_in_section_witness:
  "ls_start_va demo_ls' \<le> b_va demo_blk' \<and>
   unat (b_d_offset demo_blk') + unat (b_d_length demo_blk') \<le> unat (ls_length demo_ls')"
proof -
  have c: "block_calculate_size 40 demo_ls' demo_blk = Inr demo_blk'"
    by (simp add: run_simps demo_blk'_def demo_ls'_def)
  obtain a n r p where b: "demo_blk' = demo_blk\<lparr>b_va := a, b_d_offset := a - ls_start_va demo_ls', b_d_length := n,
      b_ra := r, b_pa := p\<rparr>" "ls_start_va demo_ls' \<le> a"
    and l: "b_end_label demo_blk = None \<and> (b_end_va demo_blk = NO_ADDR \<or> b_no_end_range_check demo_blk = Some 0) \<longrightarrow>
      unat (a - ls_start_va demo_ls') + unat n \<le> unat (ls_length demo_ls')"
    using block_placed_in_section [OF c] by blast
  have "unat (a - ls_start_va demo_ls') + unat n \<le> unat (ls_length demo_ls')"
    by (rule mp [OF l]) (simp add: demo_blk_def init_block_def)
  with b(2) show ?thesis unfolding b(1) by simp
qed

end
