(* ===== verification/Prop_Base.thy ===== *)
theory Prop_Base
  imports Gf_Demo
begin

text \<open>
  The properties of the modules that all others rest on: the physical map, symbol tables,
  vectors, and the arithmetic of \<^verbatim>\<open>gf_error.c\<close>.
\<close>

subsection \<open>The physical map\<close>

lemma demo_pm_wf: "physmap_wf demo_pm"
  by (simp add: physmap_wf_def demo_pm_def)

text \<open>
  C11: \<^verbatim>\<open>add_entry_to_physmap\<close> ends the program with \<^verbatim>\<open>M_GOLDFINGERMISC\<close> when the region ends
  before it starts and with \<^verbatim>\<open>M_PACOLLIDE\<close> when it overlaps a region of the map; otherwise it
  appends the region, and the map stays well formed.
\<close>

theorem physmap_add_result:
  assumes "physmap_wf pm" and "pm_names e \<noteq> None_e"
  shows "if pm_stop e < pm_start e then add_entry_to_physmap pm e = Inl (Exit M_GOLDFINGERMISC)
    else if \<exists>x \<in> set (elements pm). \<not> apart e x then add_entry_to_physmap pm e = Inl (Exit M_PACOLLIDE)
    else \<exists>pm'. add_entry_to_physmap pm e = Inr pm' \<and> elements pm' = elements pm @ [e] \<and> physmap_wf pm'"
proof -
  note c = add_entry_to_physmap_cases [OF assms]
  consider "pm_stop e < pm_start e" | "pm_start e \<le> pm_stop e" "\<exists>x \<in> set (elements pm). \<not> apart e x"
    | "pm_start e \<le> pm_stop e" "\<forall>x \<in> set (elements pm). apart e x"
    by fastforce
  then show ?thesis
  proof cases
    case 3
    with c(3) add_entry_to_physmap_InrD(4) [OF _ assms] show ?thesis by (auto simp: not_less)
  qed (use c in \<open>auto simp: not_less\<close>)
qed

theorem physmap_add_result_witness:
  "add_entry_to_physmap demo_pm (demo_object 5 4 0 ''TSB'' ''t'') = Inl (Exit M_GOLDFINGERMISC) \<and>
   add_entry_to_physmap demo_pm (demo_object 4200 4300 0 ''TSB'' ''t'') = Inl (Exit M_PACOLLIDE) \<and>
   (\<exists>pm'. add_entry_to_physmap demo_pm (demo_object 4208 4300 0 ''TSB'' ''t'') = Inr pm')"
  using physmap_add_result [OF demo_pm_wf, of "demo_object 5 4 0 ''TSB'' ''t''"]
    physmap_add_result [OF demo_pm_wf, of "demo_object 4200 4300 0 ''TSB'' ''t''"]
    physmap_add_result [OF demo_pm_wf, of "demo_object 4208 4300 0 ''TSB'' ''t''"]
  by (auto simp: demo_object_def demo_pm_def apart_def split: if_splits)

subsection \<open>Symbol tables\<close>

text \<open>
  After \<^verbatim>\<open>add_to_symtab\<close> a lookup finds the new entry under its name if the name was not in
  the table, and what it found before otherwise: of several entries the oldest wins.
\<close>

theorem symtab_lookup_after_add:
  assumes "add_to_symtab st nm v sz = Inr st'"
  shows "lookup_symtab st' n =
    (case lookup_symtab st n of
       Some e \<Rightarrow> Some e
     | None \<Rightarrow> if n = nm then Some ((init_elem st)\<lparr>sym_name := nm, sym_value := v, sym_size := sz\<rparr>) else None)"
  using assms by (rule add_to_symtab_lookup)

theorem symtab_lookup_after_add_witness:
  "\<exists>st'. add_to_symtab init_symtab ''main'' 80 8 = Inr st' \<and> lookup_symtab st' ''main'' = Some (sym_entry ''main'' 80 8)"
proof -
  obtain st' where a: "add_to_symtab init_symtab ''main'' 80 8 = Inr st'" using add_to_symtab_total by blast
  have "lookup_symtab init_symtab ''main'' = None" by (simp add: lookup_symtab_eq init_symtab_def)
  with a symtab_lookup_after_add [OF a, of "''main''"] show ?thesis
    by (simp add: init_symtab_def init_symtab_entry_def)
qed

subsection \<open>Vectors\<close>

text \<open>
  \<^verbatim>\<open>add_vector_elements\<close> puts initialised objects behind the elements, returns the index of
  the first one, leaves the old elements alone, and never uses more cells than are allocated.
\<close>

theorem vector_add_capacity:
  assumes "length (elements v) \<le> alloc_len v" and "add_vector_elements v n = (v', i)"
  shows "elements v' = elements v @ replicate n (init_elem v) \<and> i = length (elements v) \<and>
    length (elements v') \<le> alloc_len v'"
  using assms elements_add_vector_elements [of v n]
  by (auto simp: add_vector_elements_def VECTOR_LEN_def grow_vector_def Let_def split: if_splits)

theorem vector_add_capacity_witness:
  "\<exists>v'. add_vector_elements (init_vector None (0 :: nat)) 41 = (v', 0) \<and> length (elements v') \<le> alloc_len v'"
proof -
  obtain v' i where a: "add_vector_elements (init_vector None (0 :: nat)) 41 = (v', i)" by (meson surj_pair)
  from vector_add_capacity [OF _ a] a show ?thesis by auto
qed

subsection \<open>Arithmetic\<close>

text \<open>\<^verbatim>\<open>log2\<close> is the logarithm to the base two, rounded down.\<close>

theorem log2_floor:
  assumes "num \<noteq> 0"
  shows "2 ^ unat (log2 num) \<le> unat num \<and> unat num < 2 ^ (unat (log2 num) + 1) \<and> unat (log2 num) < 64"
  using assms by (rule log2_bounds)

theorem log2_floor_witness: "2 ^ unat (log2 12345) \<le> (12345 :: nat) \<and> unat (log2 12345) < 64"
  using log2_floor [of 12345] by simp

text \<open>
  \<^verbatim>\<open>is_pow2\<close> accepts the powers of two below \<open>2 ^ 31\<close>, rejects every other number below
  \<open>2 ^ 31\<close>, and is undefined from there on, because it shifts an \<^verbatim>\<open>int\<close>.
\<close>

theorem is_pow2_result:
  "is_pow2 p =
    (if unat p < 2 ^ 31 then Inr (\<exists>k < 31. p = 2 ^ k) else Inl Undefined)"
proof (cases "p = 0")
  case True
  have "log2 0 = 0" by (simp add: log2_def)
  moreover have "(0 :: u64) \<noteq> 2 ^ k" if "k < 31" for k using pow2_nonzero [of k] that by simp
  ultimately show ?thesis using True by (auto simp: is_pow2_def)
next
  case False
  note B = log2_bounds [OF False]
  have lt: "unat p < 2 ^ 31 \<longleftrightarrow> unat (log2 p) < 31"
  proof
    assume "unat p < 2 ^ 31"
    with B have "(2 :: nat) ^ unat (log2 p) < 2 ^ 31" by linarith
    then show "unat (log2 p) < 31" by (rule power_less_imp_less_exp [rotated]) simp
  next
    assume "unat (log2 p) < 31"
    then have "(2 :: nat) ^ (unat (log2 p) + 1) \<le> 2 ^ 31" by (intro power_increasing) simp_all
    with B show "unat p < 2 ^ 31" by linarith
  qed
  show ?thesis
  proof (cases "unat (log2 p) < 31")
    case True
    then obtain b where b: "is_pow2 p = Inr b"
      by (simp add: is_pow2_def Let_def word_le_nat_alt)
    with is_pow2_power is_pow2_TrueD [of p] show ?thesis using True lt by (cases b) force+
  next
    case False
    then show ?thesis using lt by (simp add: is_pow2_def Let_def word_le_nat_alt)
  qed
qed

text \<open>The mask of a bit range has exactly the bits of the range.\<close>

theorem bit_range_mask_bits:
  assumes "bit_range_to_mask_64 r = Inr m"
  shows "bit m i \<longleftrightarrow> lo r \<le> int i \<and> int i \<le> hi r \<and> i < 64"
  using assms by (rule bit_mask_64)

theorem bit_range_mask_bits_witness: "bit (0xF0 :: u64) 7 \<and> \<not> bit (0xF0 :: u64) 8"
proof -
  have m: "bit_range_to_mask_64 \<lparr>hi = 7, lo = 4\<rparr> = Inr 0xF0"
    by (simp add: bit_range_to_mask_64_def bit_range_to_shifted_mask_64_def push_bit_eq_mult)
  from bit_range_mask_bits [OF m, of 7] bit_range_mask_bits [OF m, of 8] show ?thesis by simp
qed

end
