(* ===== verification/Prop_Parser.thy ===== *)
theory Prop_Parser
  imports Gf_Run Gf_Parser_Inv Gf_Demo
begin

text \<open>
  The properties of the description that the parser builds (\<^verbatim>\<open>parser.y\<close>, \<^verbatim>\<open>app.c\<close>, \<^verbatim>\<open>tsb.c\<close>),
  of the headers that come from the ELF file, and of the command line (\<^verbatim>\<open>goldfinger.c\<close>).
\<close>

subsection \<open>Reachable descriptions\<close>

text \<open>
  C9: Whatever actions the parser calls after the initialisation, in every state it reaches the
  names of applications, tables, link areas and linked sections are unique, tables and link
  areas are still empty, and the physical map is well formed. When the actions follow the
  nesting of the grammar, every block of every application also has a pointer to its linked
  section, the one of the name the block gave; only the block whose description is not yet
  closed has none.
\<close>

theorem parser_reaches_invariant:
  assumes "run_actions as (init_image_file_data_structures g) = Inr g'"
  shows "parse_inv g' \<and>
    (\<forall>s n a k blk. nesting as Outside = Some s \<and>
      n < length (elements (App_vector (g_apps g'))) \<and> a = elements (App_vector (g_apps g')) ! n \<and>
      k < length (elements (a_blocks a)) \<and> blk = elements (a_blocks a) ! k \<longrightarrow>
        in_block s \<and> int n = Open_app_index (g_apps g') \<and> int k = a_open_block_index a \<or>
        (\<exists>ls. section_of a blk = Some ls \<and> b_link_section blk = Some (ls_name ls)))"
proof (intro conjI allI impI)
  show "parse_inv g'" using run_actions_inv [OF assms parse_inv_init] .
next
  fix s n a k blk
  assume h: "nesting as Outside = Some s \<and> n < length (elements (App_vector (g_apps g'))) \<and>
    a = elements (App_vector (g_apps g')) ! n \<and> k < length (elements (a_blocks a)) \<and> blk = elements (a_blocks a) ! k"
  from run_actions_linked [OF assms conjunct1 [OF h] blocks_linked_init parse_inv_init] h
  show "in_block s \<and> int n = Open_app_index (g_apps g') \<and> int k = a_open_block_index a \<or>
      (\<exists>ls. section_of a blk = Some ls \<and> b_link_section blk = Some (ls_name ls))"
    by (auto simp: blocks_linked_def app_linked_def block_linked_def)
qed

lemma demo_parsed:
  "\<exists>g' a blk. run_actions demo_actions (init_image_file_data_structures demo_start) = Inr g' \<and>
    elements (App_vector (g_apps g')) = [a] \<and> elements (a_blocks a) = [blk] \<and> b_link_section blk = Some ''.text''"
  by (simp add: run_simps demo_actions_def demo_start_def demo_block_def demo_tables_def)

theorem parser_reaches_invariant_witness:
  "\<exists>g' a blk. run_actions demo_actions (init_image_file_data_structures demo_start) = Inr g' \<and> parse_inv g' \<and>
    elements (App_vector (g_apps g')) = [a] \<and> elements (a_blocks a) = [blk] \<and>
    (\<exists>ls. section_of a blk = Some ls \<and> ls_name ls = ''.text'')"
proof -
  obtain g' a blk where r: "run_actions demo_actions (init_image_file_data_structures demo_start) = Inr g'"
    and a: "elements (App_vector (g_apps g')) = [a]" and b: "elements (a_blocks a) = [blk]"
    and l: "b_link_section blk = Some ''.text''"
    using demo_parsed by blast
  have n: "nesting demo_actions Outside = Some Outside"
    by (simp add: demo_actions_def demo_tables_def demo_block_def goes_def)
  have "nesting demo_actions Outside = Some Outside \<and> 0 < length (elements (App_vector (g_apps g'))) \<and>
      a = elements (App_vector (g_apps g')) ! 0 \<and> 0 < length (elements (a_blocks a)) \<and>
      blk = elements (a_blocks a) ! 0"
    by (simp add: n a b)
  note L = parser_reaches_invariant [OF r, THEN conjunct2, rule_format, OF this]
  then have "\<exists>ls. section_of a blk = Some ls \<and> ls_name ls = ''.text''" by (auto simp: in_block_def l)
  with r a b parser_reaches_invariant [OF r] show ?thesis by blast
qed

text \<open>
  \<^verbatim>\<open>open_new_tsb\<close> ends the program with \<^verbatim>\<open>M_BADTSB\<close> if the name is in use. Otherwise it
  returns; the new TSB, behind all others, is the open one and is found under its name, and
  every other name is found as before.
\<close>

theorem open_tsb_names:
  shows "if get_tsb_ptr_by_name (Tsb_vector st) nm \<noteq> None then open_new_tsb nm lineno st = Inl (Exit M_BADTSB)
    else \<exists>st'. open_new_tsb nm lineno st = Inr st' \<and>
      Open_tsb_index st' = int (length (elements (Tsb_vector st))) \<and>
      get_tsb_ptr_by_name (Tsb_vector st') nm = Some (length (elements (Tsb_vector st))) \<and>
      (\<forall>m. m \<noteq> nm \<longrightarrow> get_tsb_ptr_by_name (Tsb_vector st') m = get_tsb_ptr_by_name (Tsb_vector st) m)"
proof (cases "get_tsb_ptr_by_name (Tsb_vector st) nm = None")
  case False
  then show ?thesis using open_new_tsb_dup by simp
next
  case True
  then have "\<exists>st'. open_new_tsb nm lineno st = Inr st'"
    using table_reg.open_total [of "Tsb_vector st" nm lineno]
    by (auto simp: open_new_tsb_def Let_def case_prod_beta)
  then obtain st' where o: "open_new_tsb nm lineno st = Inr st'" ..
  from o open_new_tsb_InrD [OF o] True show ?thesis by auto
qed

theorem open_tsb_names_witness:
  "\<exists>st'. open_new_tsb ''t'' 1 (g_tsbs demo_start) = Inr st' \<and>
    get_tsb_ptr_by_name (Tsb_vector st') ''t'' = Some 0 \<and> get_tsb_ptr_by_name (Tsb_vector st') ''u'' = None"
  using open_tsb_names [of "g_tsbs demo_start" "''t''" 1]
  by (auto simp: demo_start_def get_tsb_ptr_by_name_def search_vector_def split: if_splits)

text \<open>
  \<^verbatim>\<open>close_block\<close> accepts the open block only if its checks pass, and then makes it point to
  the linked section of its name, which is found or created; no other block changes, and the
  application stays well formed.
\<close>

theorem close_block_links:
  assumes "close_block_of_app a = Inr a'" and "app_wf a"
  shows "app_wf a' \<and> a_open_block_index a' = NO_OPEN_BLOCK \<and>
    (let n = nat (a_open_block_index a); blk = elements (a_blocks a) ! n
     in n < length (elements (a_blocks a)) \<and> block_ok blk \<and>
        elements (a_blocks a') = (elements (a_blocks a))[n := elements (a_blocks a') ! n] \<and>
        (\<exists>ls. section_of a' (elements (a_blocks a') ! n) = Some ls \<and> Some (ls_name ls) = b_link_section blk))"
  using assms by (rule close_block_wf)

definition demo_open_app :: app where
  "demo_open_app = (demo_app (demo_blk\<lparr>b_linked_section_obj := None\<rparr>) demo_ls)
     \<lparr>a_linked_sections := init_vector (Some ''linked_section_vector'') init_linked_section, a_open_block_index := 0\<rparr>"

theorem close_block_links_witness: "\<exists>a'. close_block_of_app demo_open_app = Inr a' \<and> app_wf a'"
proof -
  obtain a' where c: "close_block_of_app demo_open_app = Inr a'"
    by (simp add: demo_open_app_def run_simps)
  have "app_wf demo_open_app"
    by (simp add: app_wf_def demo_open_app_def demo_app_def section_ptr_ok_def init_app_def init_vector_def)
  with c close_block_links [OF c] show ?thesis by blast
qed

subsection \<open>Headers of the ELF file\<close>

text \<open>
  The first loop over the sections of an ELF file gives every linked section the index,
  the address and the size of the last section of its name that has data, leaves the others
  alone, and finds the last symbol table.
\<close>

theorem elf_headers_taken:
  assumes "distinct (map ls_name (elements (a_linked_sections a)))"
  shows "\<exists>v. res_fold scan_section scns (a, n) = Inr (a\<lparr>a_linked_sections := v\<rparr>, symtab_index scns n) \<and>
    elements v = map (take_header scns) (elements (a_linked_sections a))"
  using assms by (rule scan_sections)

theorem elf_headers_taken_witness:
  "\<exists>v. res_fold scan_section [demo_section, demo_symbols] (demo_app demo_blk demo_ls, 0) =
      Inr ((demo_app demo_blk demo_ls)\<lparr>a_linked_sections := v\<rparr>, 2) \<and>
    map ls_start_va (elements v) = [0x40]"
proof -
  have d: "distinct (map ls_name (elements (a_linked_sections (demo_app demo_blk demo_ls))))"
    by (simp add: demo_app_def)
  have s: "symtab_index [demo_section, demo_symbols] 0 = 2"
    by (simp add: symtab_index_def demo_section_def demo_symbols_def)
  have h: "ls_start_va (take_header [demo_section, demo_symbols] demo_ls) = 0x40"
    by (simp add: take_header_def named_data_def loads_data_def demo_section_def demo_symbols_def demo_ls_def)
  from elf_headers_taken [OF d, of "[demo_section, demo_symbols]" 0] show ?thesis
    unfolding s using h by (auto simp: demo_app_def)
qed

subsection \<open>The command line\<close>

text \<open>
  Every command line that is accepted keeps the suppression of zeros in tables and in blocks
  in step, and leaves a valid level of verbosity.
\<close>

theorem cmdline_options:
  assumes "process_cmdline argv opts = Inr (args, opts')" and "opts_inv opts"
  shows "opts_inv opts'"
  using cmdline_loop_inv assms by (auto simp: process_cmdline_def)

theorem cmdline_options_witness:
  "\<exists>args opts'. process_cmdline [''-nocompress'', ''-in'', ''x''] default_options = Inr (args, opts') \<and> opts_inv opts'"
proof -
  obtain args opts' where c: "process_cmdline [''-nocompress'', ''-in'', ''x''] default_options = Inr (args, opts')"
    by (simp add: process_cmdline_def set_word_def set_flag_def default_args_def)
  have "opts_inv default_options"
    by (simp add: opts_inv_def default_options_def set_verbose_level_def)
  with c cmdline_options [OF c] show ?thesis by blast
qed

end
