(* ===== verification/Gf_Split.thy ===== *)
theory Gf_Split
  imports Gf_Image
begin

text \<open>
  Section splitting (\<^verbatim>\<open>split.c\<close>): a line oriented state machine that copies the lines of a
  diag to one assembly file per section and its directives to the midas file. A file is
  modelled by its text, under its name; the midas file is kept apart, as it is open all the
  time. Strings hold no NUL character.
\<close>

definition MAX_LINE :: nat where "MAX_LINE = 2048"

definition MAX_SECTIONS :: nat where "MAX_SECTIONS = 4096 * 2"

definition START_TEMPFILE :: string where "START_TEMPFILE = ''sec_temp.s''"

record section_descr =
  sd_app_name :: string
  sd_section_name :: string
  sd_orig_section_name :: string
  sd_file_name :: string

text \<open>What the operating system answers.\<close>

record split_env =
  se_open_read :: bool
  se_chdir :: bool
  se_open_write :: "string \<Rightarrow> bool"    \<comment> \<open>\<^verbatim>\<open>fopen\<close> with mode \<^verbatim>\<open>w\<close> or \<^verbatim>\<open>a\<close>\<close>
  se_link :: bool                     \<comment> \<open>\<^verbatim>\<open>link\<close> to the first section file\<close>
  se_unlink :: bool

record split_state =
  ss_midas :: string
  ss_files :: "string \<Rightarrow> string option"
  ss_src :: string                    \<comment> \<open>the file \<^verbatim>\<open>src_fh\<close> writes to\<close>
  ss_last_midas :: bool               \<comment> \<open>\<^verbatim>\<open>last_fh == midas_fh\<close>\<close>
  ss_line_num :: int
  ss_in_block :: bool
  ss_in_multi :: bool
  ss_appname :: string
  ss_table :: "section_descr list"    \<comment> \<open>\<^verbatim>\<open>Section_table\<close>\<close>

subsection \<open>Lines and words\<close>

text \<open>\<^verbatim>\<open>fgets\<close> with a buffer of \<open>Suc n\<close> bytes, and the loop that calls it until the end.\<close>

fun fgets :: "nat \<Rightarrow> string \<Rightarrow> string \<times> string" where
  "fgets 0 s = ([], s)"
| "fgets (Suc n) [] = ([], [])"
| "fgets (Suc n) (c # s) =
    (if c = CHR 0x0A then ([c], s) else (let (l, r) = fgets n s in (c # l, r)))"

lemma fgets_append: "fst (fgets n s) @ snd (fgets n s) = s"
  by (induction n s rule: fgets.induct) (auto simp: case_prod_beta)

lemma fgets_nonempty: "n \<noteq> 0 \<Longrightarrow> s \<noteq> [] \<Longrightarrow> fst (fgets n s) \<noteq> []"
  by (cases n; cases s) (auto simp: case_prod_beta)

function fgets_all :: "nat \<Rightarrow> string \<Rightarrow> string list" where
  "fgets_all n s =
    (if s = [] \<or> n = 0 then [] else fst (fgets n s) # fgets_all n (snd (fgets n s)))"
  by pat_completeness auto

termination
proof (relation "measure (\<lambda>(n, s). length s)", simp, goal_cases)
  case (1 n s)
  then have "length (fst (fgets n s)) + length (snd (fgets n s)) = length s" "fst (fgets n s) \<noteq> []"
    using fgets_append [of n s] fgets_nonempty [of n s] by (simp_all flip: length_append)
  then show ?case by (cases "fst (fgets n s)") simp_all
qed

declare fgets_all.simps [simp del]

definition is_space :: "char \<Rightarrow> bool" where
  "is_space c \<longleftrightarrow> c = CHR 0x20 \<or> (9 \<le> (of_char c :: nat) \<and> (of_char c :: nat) \<le> 13)"

text \<open>The rest of the line from \<^verbatim>\<open>non_white\<close> on; empty for \<^verbatim>\<open>NULL\<close>.\<close>

definition non_white :: "string \<Rightarrow> string" where
  "non_white buf = dropWhile is_space buf"

definition starts_with :: "string \<Rightarrow> string \<Rightarrow> bool" where
  "starts_with p s \<longleftrightarrow> take (length p) s = p"

text \<open>\<^verbatim>\<open>strtok(s, " \t\n")\<close>: the token, and what is left behind it.\<close>

definition is_delim :: "char \<Rightarrow> bool" where
  "is_delim c \<longleftrightarrow> c = CHR 0x20 \<or> c = CHR 0x09 \<or> c = CHR 0x0A"

definition strtok :: "string \<Rightarrow> string \<times> string" where
  "strtok s = (let t = dropWhile is_delim s
               in (takeWhile (\<lambda>c. \<not> is_delim c) t, dropWhile (\<lambda>c. \<not> is_delim c) t))"

text \<open>
  \<^verbatim>\<open>strtok\<close> overwrites the character behind the token by NUL, and so cuts the line there.
\<close>

definition cut_after_token :: "string \<Rightarrow> string \<Rightarrow> string" where
  "cut_after_token buf s = take (length buf - length (snd (strtok s))) buf"

text \<open>\<^verbatim>\<open>(linelen > 2) && (buf[linelen-2] == '\\')\<close>\<close>

definition continued :: "string \<Rightarrow> bool" where
  "continued buf \<longleftrightarrow> length buf > 2 \<and> buf ! (length buf - 2) = CHR 0x5C"

definition to_lower :: "char \<Rightarrow> char" where
  "to_lower c = (if 65 \<le> (of_char c :: nat) \<and> (of_char c :: nat) \<le> 90
                 then char_of ((of_char c :: nat) + 32) else c)"

subsection \<open>The table of the sections\<close>

definition skip_dot :: "string \<Rightarrow> string" where
  "skip_dot s = (if length s > 1 \<and> hd s = CHR ''.'' then tl s else s)"

definition section_file_name :: "nat \<Rightarrow> string \<Rightarrow> string" where
  "section_file_name n secname = map to_lower (''sec'' @ dec_digits n @ ''.'' @ secname @ ''.s'')"

fun find_section :: "string \<Rightarrow> string \<Rightarrow> section_descr list \<Rightarrow> section_descr option" where
  "find_section app sec [] = None"
| "find_section app sec (d # ds) =
    (if sec = sd_section_name d \<and> app = sd_app_name d then Some d else find_section app sec ds)"

definition section_lookup :: "split_env \<Rightarrow> string \<Rightarrow> split_state \<Rightarrow> split_state res" where
  "section_lookup env orig_secname st =
    (let secname = skip_dot orig_secname; app = skip_dot (ss_appname st); tab = ss_table st in
     case find_section app secname tab of
       Some d \<Rightarrow>
         if se_open_write env (sd_file_name d) then Inr (st\<lparr>ss_src := sd_file_name d\<rparr>)
         else Inl (Exit M_FILE)
     | None \<Rightarrow>
         (let f = section_file_name (length tab) secname;
              files = (if tab = []
                       then (ss_files st)(f := ss_files st START_TEMPFILE, START_TEMPFILE := None)
                       else (ss_files st)(f := Some []))
          in if tab = [] \<and> (\<not> se_link env \<or> \<not> se_unlink env) then Inl (Exit M_FILE)
             else if \<not> se_open_write env f then Inl (Exit M_FILE)
             else if length tab = MAX_SECTIONS then Inl (Exit M_MEMORY)
             else Inr (st\<lparr>ss_files := files, ss_src := f, ss_table := tab @
               [\<lparr>sd_app_name = app, sd_section_name = secname, sd_orig_section_name = orig_secname,
                 sd_file_name = f\<rparr>]\<rparr>)))"

definition section_map_line :: "section_descr \<Rightarrow> string" where
  "section_map_line d =
    ''SPLITSEC APP='' @ sd_app_name d @ '' SECTION='' @ sd_orig_section_name d @
    '' FILE='' @ sd_file_name d @ NL"

definition write_section_map :: "section_descr list \<Rightarrow> string" where
  "write_section_map tab = concat (map section_map_line tab)"

subsection \<open>One line\<close>

text \<open>The chain of conditions in the loop.\<close>

datatype line_kind =
    Blank | Multi_line | Attr | Goldfinger | In_block | Section | Midas | Application | Source

definition kind_of :: "bool \<Rightarrow> bool \<Rightarrow> string \<Rightarrow> line_kind" where
  "kind_of in_multi in_block buf =
    (let nw = non_white buf in
     if nw = [] then Blank
     else if in_multi then Multi_line
     else if starts_with ''attr_'' nw then Attr
     else if starts_with ''goldfinger_'' nw then Goldfinger
     else if in_block then In_block
     else if starts_with ''SECTION'' nw then Section
     else if starts_with ''MIDAS_'' nw then Midas
     else if starts_with ''APPLICATION'' nw then Application
     else Source)"

definition put_src :: "string \<Rightarrow> split_state \<Rightarrow> split_state" where
  "put_src buf st =
    st\<lparr>ss_files := (ss_files st)(ss_src st := Some ((case ss_files st (ss_src st) of None \<Rightarrow> [] | Some t \<Rightarrow> t) @ buf))\<rparr>"

definition put_midas :: "string \<Rightarrow> split_state \<Rightarrow> split_state" where
  "put_midas buf st = st\<lparr>ss_midas := ss_midas st @ buf\<rparr>"

text \<open>A directive after a source line is preceded by its position in the input.\<close>

definition line_marker :: "string \<Rightarrow> split_state \<Rightarrow> string" where
  "line_marker input_file st =
    (if ss_last_midas st then []
     else ''#line '' @ dec_digits (nat (ss_line_num st)) @ '' '' @ [CHR 0x22] @ input_file @ [CHR 0x22] @ NL)"

definition has_brace :: "string \<Rightarrow> bool" where
  "has_brace s \<longleftrightarrow> CHR 0x7D \<in> set s"

definition directive :: "string \<Rightarrow> string \<Rightarrow> split_state \<Rightarrow> split_state" where
  "directive input_file buf st = (put_midas (line_marker input_file st @ buf) st)\<lparr>ss_last_midas := True\<rparr>"

definition split_line :: "split_env \<Rightarrow> string \<Rightarrow> string \<Rightarrow> split_state \<Rightarrow> split_state res" where
  "split_line env input_file buf st0 =
    (if ss_line_num st0 + 1 \<ge> 2 ^ 31 then Inl Undefined else
     let st = st0\<lparr>ss_line_num := ss_line_num st0 + 1\<rparr>; nw = non_white buf in
     case kind_of (ss_in_multi st) (ss_in_block st) buf of
       Blank \<Rightarrow> Inr (if ss_last_midas st then put_midas buf st else put_src buf st)
     | Multi_line \<Rightarrow> Inr ((put_midas buf st)\<lparr>ss_in_multi := continued buf\<rparr>)
     | Attr \<Rightarrow> Inr ((directive input_file buf st)\<lparr>ss_in_block := ss_in_block st \<or> \<not> has_brace nw\<rparr>)
     | Goldfinger \<Rightarrow> Inr ((directive input_file buf st)\<lparr>ss_in_block := ss_in_block st \<or> \<not> has_brace nw\<rparr>)
     | In_block \<Rightarrow> Inr ((put_midas buf st)\<lparr>ss_in_block := \<not> has_brace nw\<rparr>)
     | Section \<Rightarrow>
         (let secname = fst (strtok (drop 7 nw));
              st1 = (directive input_file buf st)\<lparr>ss_in_multi := continued buf\<rparr>
          in if secname = [] then Inl (Exit M_GOLDFINGERPARSE)
             else section_lookup env secname st1)
     | Midas \<Rightarrow> Inr ((directive input_file buf st)\<lparr>ss_in_multi := continued buf\<rparr>)
     | Application \<Rightarrow>
         (let orig_appname = fst (strtok (drop 11 nw)); cut = cut_after_token buf (drop 11 nw)
          in if orig_appname = [] then Inl (Exit M_GOLDFINGERPARSE)
             else Inr ((directive input_file cut (st\<lparr>ss_appname := orig_appname\<rparr>))
               \<lparr>ss_in_multi := continued cut\<rparr>))
     | Source \<Rightarrow> Inr (put_src buf (st\<lparr>ss_last_midas := False\<rparr>)))"

subsection \<open>The whole file\<close>

definition split_start :: split_state where
  "split_start =
    \<lparr>ss_midas = [], ss_files = [START_TEMPFILE \<mapsto> []], ss_src = START_TEMPFILE, ss_last_midas = False,
     ss_line_num = 0, ss_in_block = False, ss_in_multi = False, ss_appname = ''default'', ss_table = []\<rparr>"

definition split_lines :: "split_env \<Rightarrow> string \<Rightarrow> string list \<Rightarrow> split_state res" where
  "split_lines env input_file ls = res_fold (split_line env input_file) ls split_start"

text \<open>The result: the texts of the midas file and of the assembly files.\<close>

definition splitsec ::
  "split_env \<Rightarrow> string \<Rightarrow> string option \<Rightarrow> string \<Rightarrow> string \<Rightarrow> (string \<times> (string \<Rightarrow> string option)) res" where
  "splitsec env input_file dest_dir midas_file content =
    (if \<not> se_open_read env then Inl (Exit M_FILE)
     else if dest_dir \<noteq> None \<and> \<not> se_chdir env then Inl (Exit M_FILE)
     else if \<not> se_open_write env midas_file then Inl (Exit M_FILE)
     else if \<not> se_open_write env START_TEMPFILE then Inl (Exit M_FILE)
     else res_bind (split_lines env input_file (fgets_all (MAX_LINE - 1) content)) (\<lambda>st.
       Inr (ss_midas st @ write_section_map (ss_table st), ss_files st)))"

lemma concat_fgets_all: "n \<noteq> 0 \<Longrightarrow> concat (fgets_all n s) = s"
proof (induction n s rule: fgets_all.induct)
  case (1 n s)
  then show ?case using fgets_append [of n s] by (subst fgets_all.simps) auto
qed

end
