(* ===== verification/Gf_Split_Refine.thy ===== *)
theory Gf_Split_Refine
  imports Gf_Split
begin

text \<open>
  What \<^verbatim>\<open>splitsec\<close> promises: the assembly file of a section gets the source lines that stand
  under the section's name, in order, and the first section those before any section, too.
  The specification only keeps a text per section; the refinement says that the table, the
  file names, the renaming of the first file and the appending to reopened files implement it.
\<close>

type_synonym section_key = "string \<times> string"

record split_spec =
  sp_last_midas :: bool
  sp_in_block :: bool
  sp_in_multi :: bool
  sp_appname :: string
  sp_cur :: "section_key option"
  sp_text :: "section_key option \<Rightarrow> string"

definition put_text :: "string \<Rightarrow> split_spec \<Rightarrow> split_spec" where
  "put_text buf sp = sp\<lparr>sp_text := (sp_text sp)(sp_cur sp := sp_text sp (sp_cur sp) @ buf)\<rparr>"

definition spec_line :: "string \<Rightarrow> split_spec \<Rightarrow> split_spec" where
  "spec_line buf sp =
    (let nw = non_white buf; dir = sp\<lparr>sp_last_midas := True\<rparr> in
     case kind_of (sp_in_multi sp) (sp_in_block sp) buf of
       Blank \<Rightarrow> if sp_last_midas sp then sp else put_text buf sp
     | Multi_line \<Rightarrow> sp\<lparr>sp_in_multi := continued buf\<rparr>
     | Attr \<Rightarrow> dir\<lparr>sp_in_block := sp_in_block sp \<or> \<not> has_brace nw\<rparr>
     | Goldfinger \<Rightarrow> dir\<lparr>sp_in_block := sp_in_block sp \<or> \<not> has_brace nw\<rparr>
     | In_block \<Rightarrow> sp\<lparr>sp_in_block := \<not> has_brace nw\<rparr>
     | Section \<Rightarrow> dir\<lparr>sp_in_multi := continued buf,
         sp_cur := Some (skip_dot (sp_appname sp), skip_dot (fst (strtok (drop 7 nw))))\<rparr>
     | Midas \<Rightarrow> dir\<lparr>sp_in_multi := continued buf\<rparr>
     | Application \<Rightarrow> dir\<lparr>sp_appname := fst (strtok (drop 11 nw)),
         sp_in_multi := continued (cut_after_token buf (drop 11 nw))\<rparr>
     | Source \<Rightarrow> (put_text buf sp)\<lparr>sp_last_midas := False\<rparr>)"

definition spec_start :: split_spec where
  "spec_start = \<lparr>sp_last_midas = False, sp_in_block = False, sp_in_multi = False, sp_appname = ''default'',
     sp_cur = None, sp_text = \<lambda>_. []\<rparr>"

definition spec_lines :: "string list \<Rightarrow> split_spec" where
  "spec_lines ls = fold spec_line ls spec_start"

subsection \<open>File names\<close>

lemma decimal_digit:
  assumes "k < 10"
  shows "hex_digit k \<in> set ''0123456789''" and "(of_char (hex_digit k) :: nat) = 48 + k"
proof -
  have "list_all (\<lambda>k. hex_digit k \<in> set ''0123456789'' \<and> (of_char (hex_digit k) :: nat) = 48 + k) [0..<10]"
    by (simp add: upt_rec hex_digit_def)
  moreover have "k \<in> set [0..<10]" using assms by simp
  ultimately show "hex_digit k \<in> set ''0123456789''" "(of_char (hex_digit k) :: nat) = 48 + k"
    by (auto simp only: list_all_iff)
qed

lemma dec_digits_digit: "set (dec_digits n) \<subseteq> set ''0123456789''"
proof (induction n rule: less_induct)
  case (less n)
  show ?case
  proof (cases "n < 10")
    case True
    then show ?thesis using decimal_digit(1) [of n] by (simp add: dec_digits.simps [of n])
  next
    case False
    then show ?thesis using decimal_digit(1) [of "n mod 10"] less [of "n div 10"]
      by (simp add: dec_digits.simps [of n])
  qed
qed

definition digit_val :: "string \<Rightarrow> nat" where
  "digit_val s = fold (\<lambda>c v. 10 * v + (of_char c - 48)) s 0"

lemma dec_digits_val: "digit_val (dec_digits n) = n"
proof (induction n rule: less_induct)
  case (less n)
  show ?case
  proof (cases "n < 10")
    case True
    then show ?thesis using decimal_digit(2) [of n] by (simp add: dec_digits.simps [of n] digit_val_def)
  next
    case False
    then show ?thesis using decimal_digit(2) [of "n mod 10"] less [of "n div 10"]
      by (simp add: dec_digits.simps [of n] digit_val_def)
  qed
qed

lemma dec_digits_inj: "dec_digits m = dec_digits n \<Longrightarrow> m = n"
  using dec_digits_val by metis

lemma to_lower_digit: "c \<in> set ''0123456789.'' \<Longrightarrow> to_lower c = c"
  by (auto simp: to_lower_def)

lemma section_file_name_inj:
  assumes "section_file_name m s = section_file_name n t"
  shows "m = n"
proof -
  have low: "map to_lower (dec_digits k) = dec_digits k" for k
    using dec_digits_digit [of k] by (intro map_idI to_lower_digit) auto
  have nd: "takeWhile (\<lambda>c. c \<noteq> CHR ''.'') (dec_digits k @ CHR ''.'' # r) = dec_digits k" for k r
    using dec_digits_digit [of k] by (subst takeWhile_append2) auto
  have eq: "drop 3 (section_file_name k u) = dec_digits k @ CHR ''.'' # map to_lower (u @ ''.s'')" for k u
    using low by (simp add: section_file_name_def to_lower_def)
  have "takeWhile (\<lambda>c. c \<noteq> CHR ''.'') (drop 3 (section_file_name m s)) =
    takeWhile (\<lambda>c. c \<noteq> CHR ''.'') (drop 3 (section_file_name n t))"
    by (simp only: assms)
  then have "dec_digits m = dec_digits n" unfolding eq nd .
  then show ?thesis by (rule dec_digits_inj)
qed

lemma section_file_name_start: "section_file_name n s \<noteq> START_TEMPFILE"
proof
  assume a: "section_file_name n s = START_TEMPFILE"
  have ne: "dec_digits n \<noteq> []" by (simp add: dec_digits.simps [of n])
  have "section_file_name n s ! 3 = to_lower (dec_digits n ! 0)"
    using ne by (simp add: section_file_name_def nth_append)
  moreover have "dec_digits n ! 0 \<in> set ''0123456789''"
    by (rule subsetD [OF dec_digits_digit nth_mem]) (simp add: ne)
  ultimately have "section_file_name n s ! 3 \<in> set ''0123456789''"
    using to_lower_digit [of "dec_digits n ! 0"] by auto
  with a show False by (simp add: START_TEMPFILE_def)
qed

subsection \<open>The simulation\<close>

definition key_of :: "section_descr \<Rightarrow> section_key" where
  "key_of d = (sd_app_name d, sd_section_name d)"

definition same_control :: "split_state \<Rightarrow> split_spec \<Rightarrow> bool" where
  "same_control st sp \<longleftrightarrow>
    sp_last_midas sp = ss_last_midas st \<and> sp_in_block sp = ss_in_block st \<and>
    sp_in_multi sp = ss_in_multi st \<and> sp_appname sp = ss_appname st"

definition named_by_index :: "section_descr list \<Rightarrow> bool" where
  "named_by_index tab \<longleftrightarrow>
    (\<forall>i < length tab. sd_file_name (tab ! i) = section_file_name i (sd_section_name (tab ! i)))"

definition text_of :: "split_spec \<Rightarrow> section_descr list \<Rightarrow> nat \<Rightarrow> string" where
  "text_of sp tab i = (if i = 0 then sp_text sp None else []) @ sp_text sp (Some (key_of (tab ! i)))"

definition files_ok :: "split_state \<Rightarrow> split_spec \<Rightarrow> bool" where
  "files_ok st sp \<longleftrightarrow>
    (let tab = ss_table st in
     distinct (map key_of tab) \<and> named_by_index tab \<and>
     (\<forall>i < length tab. ss_files st (sd_file_name (tab ! i)) = Some (text_of sp tab i)) \<and>
     (\<forall>k. k \<notin> set (map key_of tab) \<longrightarrow> sp_text sp (Some k) = []) \<and>
     (case sp_cur sp of
        None \<Rightarrow> tab = [] \<and> ss_src st = START_TEMPFILE \<and> ss_files st START_TEMPFILE = Some (sp_text sp None)
      | Some k \<Rightarrow> \<exists>i < length tab. k = key_of (tab ! i) \<and> ss_src st = sd_file_name (tab ! i)))"

lemma text_of_cur [simp]: "text_of (sp\<lparr>sp_cur := x\<rparr>) = text_of sp"
  by (simp add: text_of_def fun_eq_iff)

lemma put_src_control [simp]:
  "ss_last_midas (put_src b st) = ss_last_midas st" "ss_in_block (put_src b st) = ss_in_block st"
  "ss_in_multi (put_src b st) = ss_in_multi st" "ss_appname (put_src b st) = ss_appname st"
  by (simp_all add: put_src_def)

lemma put_text_control [simp]:
  "sp_last_midas (put_text b sp) = sp_last_midas sp" "sp_in_block (put_text b sp) = sp_in_block sp"
  "sp_in_multi (put_text b sp) = sp_in_multi sp" "sp_appname (put_text b sp) = sp_appname sp"
  by (simp_all add: put_text_def)

lemma named_by_index_Nil [simp]: "named_by_index []"
  by (simp add: named_by_index_def)

lemma named_by_index_inj:
  "named_by_index tab \<Longrightarrow> i < length tab \<Longrightarrow> j < length tab \<Longrightarrow>
   sd_file_name (tab ! i) = sd_file_name (tab ! j) \<longleftrightarrow> i = j"
  by (auto simp: named_by_index_def dest: section_file_name_inj)

lemma find_section_Some:
  "find_section app sec tab = Some d \<Longrightarrow> \<exists>i < length tab. d = tab ! i \<and> key_of d = (app, sec)"
proof (induction tab)
  case (Cons e tab)
  then show ?case by (force simp: key_of_def split: if_splits intro: exI [of _ 0])
qed simp

lemma find_section_None: "find_section app sec tab = None \<Longrightarrow> (app, sec) \<notin> set (map key_of tab)"
  by (induction tab) (auto simp: key_of_def split: if_splits)

text \<open>A source line is appended to the text of the current section and to its file.\<close>

lemma put_files_ok:
  assumes ok: "files_ok st sp"
  shows "files_ok (put_src buf st) (put_text buf sp)"
proof (cases "sp_cur sp")
  case None
  then show ?thesis using ok by (simp add: files_ok_def Let_def put_src_def put_text_def)
next
  case (Some k)
  let ?tab = "ss_table st"
  obtain i where i: "i < length ?tab" "k = key_of (?tab ! i)" "ss_src st = sd_file_name (?tab ! i)"
    using ok Some by (auto simp: files_ok_def Let_def)
  have d: "distinct (map key_of ?tab)" "named_by_index ?tab"
    and f: "\<And>j. j < length ?tab \<Longrightarrow> ss_files st (sd_file_name (?tab ! j)) = Some (text_of sp ?tab j)"
    using ok by (auto simp: files_ok_def Let_def)
  have kk: "key_of (?tab ! j) = k \<longleftrightarrow> j = i" if "j < length ?tab" for j
    using nth_eq_iff_index_eq [OF d(1), of j i] that i by auto
  have "ss_files (put_src buf st) (sd_file_name (?tab ! j)) = Some (text_of (put_text buf sp) ?tab j)"
    if j: "j < length ?tab" for j
    using f [OF j] f [OF i(1)] kk [OF j] named_by_index_inj [OF d(2) j i(1)] i Some
    by (cases "j = i") (auto simp: put_src_def put_text_def text_of_def)
  moreover have "sp_text (put_text buf sp) (Some x) = []" if "x \<notin> set (map key_of ?tab)" for x
  proof -
    have "sp_text sp (Some x) = []" using ok that unfolding files_ok_def Let_def by blast
    moreover have "x \<noteq> k" using that i by auto
    ultimately show ?thesis using Some by (simp add: put_text_def)
  qed
  moreover have "ss_table (put_src buf st) = ?tab" "sp_cur (put_text buf sp) = Some k"
    "ss_src (put_src buf st) = sd_file_name (?tab ! i)"
    using Some i by (simp_all add: put_src_def put_text_def)
  ultimately show ?thesis using d i by (auto simp: files_ok_def Let_def)
qed

lemma files_ok_cong:
  "ss_files st' = ss_files st \<Longrightarrow> ss_src st' = ss_src st \<Longrightarrow> ss_table st' = ss_table st \<Longrightarrow>
   sp_cur sp' = sp_cur sp \<Longrightarrow> sp_text sp' = sp_text sp \<Longrightarrow> files_ok st' sp' = files_ok st sp"
  by (simp only: files_ok_def text_of_def Let_def)

lemma section_lookup_control:
  "section_lookup env s st = Inr st' \<Longrightarrow>
   ss_last_midas st' = ss_last_midas st \<and> ss_in_block st' = ss_in_block st \<and> ss_in_multi st' = ss_in_multi st \<and>
   ss_appname st' = ss_appname st"
  by (auto simp: section_lookup_def Let_def split: option.splits if_splits)

lemma section_lookup_files:
  assumes l: "section_lookup env s st = Inr st'" and ok: "files_ok st sp"
  shows "files_ok st' (sp\<lparr>sp_cur := Some (skip_dot (ss_appname st), skip_dot s)\<rparr>)"
proof (cases "find_section (skip_dot (ss_appname st)) (skip_dot s) (ss_table st)")
  case (Some d)
  then obtain i where "i < length (ss_table st)" "d = ss_table st ! i"
    "key_of d = (skip_dot (ss_appname st), skip_dot s)"
    using find_section_Some by blast
  with Some l ok show ?thesis
    by (auto simp: section_lookup_def Let_def files_ok_def split: if_splits)
next
  case None
  let ?tab = "ss_table st" and ?key = "(skip_dot (ss_appname st), skip_dot s)"
  let ?f = "section_file_name (length ?tab) (skip_dot s)"
  define d where "d = \<lparr>sd_app_name = skip_dot (ss_appname st), sd_section_name = skip_dot s,
    sd_orig_section_name = s, sd_file_name = ?f\<rparr>"
  have d: "sd_file_name d = ?f" "key_of d = ?key" "sd_section_name d = skip_dot s"
    by (simp_all add: d_def key_of_def)
  have st': "ss_table st' = ?tab @ [d]" "ss_src st' = ?f"
      "ss_files st' = (if ?tab = [] then (ss_files st)(?f := ss_files st START_TEMPFILE, START_TEMPFILE := None)
         else (ss_files st)(?f := Some []))"
    using l None by (auto simp: section_lookup_def Let_def d_def split: if_splits)
  have ok': "distinct (map key_of ?tab)" "named_by_index ?tab"
    "\<And>i. i < length ?tab \<Longrightarrow> ss_files st (sd_file_name (?tab ! i)) = Some (text_of sp ?tab i)"
    "\<And>k. k \<notin> set (map key_of ?tab) \<Longrightarrow> sp_text sp (Some k) = []"
    "?tab = [] \<Longrightarrow> ss_files st START_TEMPFILE = Some (sp_text sp None)"
    using ok by (auto simp: files_ok_def Let_def split: option.splits)
  have new: "?key \<notin> set (map key_of ?tab)" by (rule find_section_None [OF None])
  have nb: "named_by_index (?tab @ [d])"
    using ok'(2) d by (auto simp: named_by_index_def nth_append less_Suc_eq)
  have "ss_files st' (sd_file_name ((?tab @ [d]) ! i)) = Some (text_of sp (?tab @ [d]) i)"
    if i: "i < length (?tab @ [d])" for i
  proof (cases "i = length ?tab")
    case True
    then show ?thesis
      using ok'(4) [OF new] ok'(5) d st'(3) section_file_name_start [of "length ?tab" "skip_dot s"]
      by (auto simp: text_of_def)
  next
    case False
    then have i': "i < length ?tab" using i by simp
    then have "sd_file_name (?tab ! i) \<noteq> ?f"
      using ok'(2) by (auto simp: named_by_index_def dest: section_file_name_inj)
    with i' ok'(3) [OF i'] st'(3) show ?thesis by (auto simp: text_of_def nth_append)
  qed
  then show ?thesis
    using ok' new nb d st' by (auto simp: files_ok_def Let_def text_of_def intro: exI [of _ "length ?tab"])
qed

lemma files_ok_updates [simp]:
  "files_ok (st\<lparr>ss_midas := a\<rparr>) sp = files_ok st sp" "files_ok (st\<lparr>ss_last_midas := b\<rparr>) sp = files_ok st sp"
  "files_ok (st\<lparr>ss_line_num := n\<rparr>) sp = files_ok st sp" "files_ok (st\<lparr>ss_in_block := b\<rparr>) sp = files_ok st sp"
  "files_ok (st\<lparr>ss_in_multi := b\<rparr>) sp = files_ok st sp" "files_ok (st\<lparr>ss_appname := a\<rparr>) sp = files_ok st sp"
  "files_ok st (sp\<lparr>sp_last_midas := b\<rparr>) = files_ok st sp" "files_ok st (sp\<lparr>sp_in_block := b\<rparr>) = files_ok st sp"
  "files_ok st (sp\<lparr>sp_in_multi := b\<rparr>) = files_ok st sp" "files_ok st (sp\<lparr>sp_appname := a\<rparr>) = files_ok st sp"
  by (rule files_ok_cong; simp)+

lemma split_line_refines:
  assumes s: "split_line env f buf st = Inr st'" and c: "same_control st sp" and ok: "files_ok st sp"
  shows "same_control st' (spec_line buf sp) \<and> files_ok st' (spec_line buf sp)"
proof -
  let ?st = "st\<lparr>ss_line_num := ss_line_num st + 1\<rparr>"
  have C: "sp_last_midas sp = ss_last_midas st" "sp_in_block sp = ss_in_block st"
    "sp_in_multi sp = ss_in_multi st" "sp_appname sp = ss_appname st"
    using c by (simp_all add: same_control_def)
  have n: "\<not> ss_line_num st + 1 \<ge> 2 ^ 31" using s by (auto simp: split_line_def split: if_splits)
  note s' = s [unfolded split_line_def if_not_P [OF n] Let_def]
  show ?thesis
  proof (cases "kind_of (ss_in_multi st) (ss_in_block st) buf")
    case Blank
    then show ?thesis
      using s' ok put_files_ok [of ?st sp buf]
      by (cases "ss_last_midas st") (auto simp: spec_line_def same_control_def put_midas_def C)
  next
    case Source
    then show ?thesis
      using s' ok put_files_ok [of "?st\<lparr>ss_last_midas := False\<rparr>" sp buf]
      by (auto simp: spec_line_def same_control_def C)
  next
    case Section
    define st1 where "st1 = (directive f buf ?st)\<lparr>ss_in_multi := continued buf\<rparr>"
    have l: "section_lookup env (fst (strtok (drop 7 (non_white buf)))) st1 = Inr st'"
      using Section s' by (auto simp: st1_def split: if_splits)
    have a: "ss_appname st1 = sp_appname sp"
      by (simp add: st1_def directive_def put_midas_def C)
    have "files_ok st1 (sp\<lparr>sp_last_midas := True, sp_in_multi := continued buf\<rparr>)"
      using ok by (simp add: st1_def directive_def put_midas_def)
    from section_lookup_files [OF l this] section_lookup_control [OF l] Section show ?thesis
      by (simp add: spec_line_def same_control_def Let_def a st1_def directive_def put_midas_def C)
  next
    case Application
    then show ?thesis using s' ok
      by (cases "fst (strtok (drop 11 (non_white buf))) = []")
        (auto simp: spec_line_def same_control_def directive_def put_midas_def C Let_def)
  qed (use s' ok in \<open>auto simp: spec_line_def same_control_def directive_def put_midas_def C Let_def\<close>)
qed

lemma split_lines_refines:
  assumes "split_lines env f ls = Inr st"
  shows "files_ok st (spec_lines ls)"
proof -
  have "res_fold (split_line env f) ls st0 = Inr st \<Longrightarrow> same_control st0 sp \<Longrightarrow> files_ok st0 sp \<Longrightarrow>
      files_ok st (fold spec_line ls sp)" for st0 sp
    by (induction ls arbitrary: st0 sp) (auto simp: gf_res dest: split_line_refines)
  moreover have "same_control split_start spec_start" "files_ok split_start spec_start"
    by (simp_all add: same_control_def files_ok_def split_start_def spec_start_def named_by_index_def)
  ultimately show ?thesis using assms by (auto simp: split_lines_def spec_lines_def)
qed

end
