(* ===== verification/Prop_Split.thy ===== *)
theory Prop_Split
  imports Gf_Split_Refine
begin

text \<open>The properties of section splitting (\<^verbatim>\<open>split.c\<close>), with a small diag as their instance.\<close>

definition split_env_ok :: split_env where
  "split_env_ok = \<lparr>se_open_read = True, se_chdir = True, se_open_write = \<lambda>_. True, se_link = True, se_unlink = True\<rparr>"

definition demo_diag :: "string list" where
  "demo_diag =
    [''a'' @ NL, ''SECTION .text'' @ NL, ''b'' @ NL, ''MIDAS_x'' @ NL, NL, ''SECTION data'' @ NL, ''c'' @ NL,
     ''SECTION text'' @ NL, ''d'' @ NL]"

lemmas split_simps = Let_def split_lines_def split_line_def split_start_def split_env_ok_def kind_of_def non_white_def
  is_space_def starts_with_def strtok_def is_delim_def continued_def to_lower_def skip_dot_def
  section_file_name_def section_lookup_def put_src_def put_midas_def line_marker_def has_brace_def
  directive_def NL_def START_TEMPFILE_def MAX_SECTIONS_def dec_digits.simps hex_digit_def cut_after_token_def

lemma demo_split: "\<exists>st. split_lines split_env_ok ''f'' demo_diag = Inr st \<and>
    ss_files st ''sec0.text.s'' = Some (''a'' @ NL @ ''b'' @ NL @ ''d'' @ NL) \<and>
    map key_of (ss_table st) = [(''default'', ''text''), (''default'', ''data'')]"
  by (simp add: demo_diag_def split_simps key_of_def)

text \<open>
  C17: When \<^verbatim>\<open>splitsec\<close> returns, every section, a pair of an application and a name without a
  leading dot, stands in the table once, and its assembly file holds exactly the source lines
  that stand under it in the input, in order; the file of the first section starts with the
  lines before any section. Lines under a section that is not in the table do not exist.
\<close>

theorem split_sections:
  assumes "split_lines env f ls = Inr st" and "tab = ss_table st" and "sp = spec_lines ls"
  shows "distinct (map key_of tab) \<and>
    (\<forall>i < length tab. ss_files st (sd_file_name (tab ! i)) =
      Some ((if i = 0 then sp_text sp None else []) @ sp_text sp (Some (key_of (tab ! i))))) \<and>
    (\<forall>k. k \<notin> set (map key_of tab) \<longrightarrow> sp_text sp (Some k) = []) \<and>
    (tab = [] \<longrightarrow> ss_files st START_TEMPFILE = Some (sp_text sp None))"
proof -
  have ok: "files_ok st sp" using split_lines_refines [OF assms(1)] assms(3) by simp
  then have "\<forall>i < length tab. ss_files st (sd_file_name (tab ! i)) = Some (text_of sp tab i)"
    unfolding files_ok_def Let_def assms(2) by blast
  then show ?thesis
    using ok unfolding files_ok_def Let_def assms(2) text_of_def
    by (cases "sp_cur sp") auto
qed

theorem split_sections_witness:
  "sp_text (spec_lines demo_diag) None @ sp_text (spec_lines demo_diag) (Some (''default'', ''text'')) =
    ''a'' @ NL @ ''b'' @ NL @ ''d'' @ NL"
proof -
  obtain st where s: "split_lines split_env_ok ''f'' demo_diag = Inr st"
    and f: "ss_files st ''sec0.text.s'' = Some (''a'' @ NL @ ''b'' @ NL @ ''d'' @ NL)"
    and k: "map key_of (ss_table st) = [(''default'', ''text''), (''default'', ''data'')]"
    using demo_split by (elim exE conjE) (rule that)
  have n: "0 < length (ss_table st)" using k by (cases "ss_table st") simp_all
  then have k0: "key_of (ss_table st ! 0) = (''default'', ''text'')"
    using k by (metis nth_Cons_0 nth_map)
  have "named_by_index (ss_table st)"
    using split_lines_refines [OF s] by (simp add: files_ok_def Let_def)
  then have "sd_file_name (ss_table st ! 0) = section_file_name 0 ''text''"
    using n k0 by (simp add: named_by_index_def key_of_def)
  moreover have "section_file_name 0 ''text'' = ''sec0.text.s''" by (simp add: split_simps)
  ultimately have "sd_file_name (ss_table st ! 0) = ''sec0.text.s''" by simp
  then show ?thesis
    using split_sections [OF s refl refl] n k0 f by auto
qed

text \<open>
  An \<^verbatim>\<open>APPLICATION\<close> directive is copied to the midas file without its end: the name was
  cut out of the line by \<^verbatim>\<open>strtok\<close> before the line is printed, so that the line break is lost
  and the next directive goes on in the same line.
\<close>

theorem application_line_cut:
  assumes "split_line env f buf st = Inr st'"
    and "kind_of (ss_in_multi st) (ss_in_block st) buf = Application"
  shows "ss_midas st' \<noteq> [] \<and> last (ss_midas st') \<noteq> CHR 0x0A \<and> ss_last_midas st'"
proof -
  let ?s = "drop 11 (non_white buf)"
  let ?t = "dropWhile is_delim ?s"
  have tok: "fst (strtok ?s) \<noteq> []"
    and m: "\<exists>pre. ss_midas st' = pre @ cut_after_token buf ?s" "ss_last_midas st'"
    using assms by (auto simp: split_line_def Let_def directive_def put_midas_def split: if_splits)
  have "\<exists>p. buf = p @ ?s"
    unfolding non_white_def using takeWhile_dropWhile_id [of is_space buf] append_take_drop_id [of 11 "dropWhile is_space buf"]
    by (metis append.assoc)
  then obtain p where p: "buf = p @ ?s" ..
  have s: "?s = takeWhile is_delim ?s @ fst (strtok ?s) @ snd (strtok ?s)"
    by (simp add: strtok_def Let_def)
  have "cut_after_token buf ?s = p @ takeWhile is_delim ?s @ fst (strtok ?s)"
  proof -
    have b: "buf = (p @ takeWhile is_delim ?s @ fst (strtok ?s)) @ snd (strtok ?s)"
      using p s by (metis append.assoc)
    have "take (length buf - length (snd (strtok ?s))) buf = p @ takeWhile is_delim ?s @ fst (strtok ?s)"
      by (subst (2) b, subst b) simp
    then show ?thesis by (simp add: cut_after_token_def)
  qed
  moreover have "\<not> is_delim (last (fst (strtok ?s)))"
    using last_in_set [OF tok] by (auto simp: strtok_def Let_def dest: set_takeWhileD)
  ultimately show ?thesis using m tok by (auto simp: is_delim_def)
qed

theorem application_line_cut_witness:
  "\<exists>st'. split_line split_env_ok ''f'' (''APPLICATION x'' @ NL) split_start = Inr st' \<and>
    last (ss_midas st') \<noteq> CHR 0x0A"
proof -
  obtain st' where s: "split_line split_env_ok ''f'' (''APPLICATION x'' @ NL) split_start = Inr st'"
    by (simp add: split_simps)
  have k: "kind_of (ss_in_multi split_start) (ss_in_block split_start) (''APPLICATION x'' @ NL) = Application"
    by (simp add: split_simps)
  show ?thesis using s application_line_cut [OF s k] by blast
qed

end
