(* ===== verification/Mem_Ecc.thy ===== *)
theory Mem_Ecc
  imports Gf_Prelude
begin

text \<open>
  The check nibbles of a memory line (\<^verbatim>\<open>hamming\<close> and \<^verbatim>\<open>addr_parity\<close> of
  \<^verbatim>\<open>tools/pli/mem/mem.c\<close>): 32 data nibbles, four check nibbles, with products in the field of
  sixteen elements. The local variables of the C code are of type \<^verbatim>\<open>int\<close> and stay below \<open>2 ^ 8\<close>.
\<close>

subsection \<open>The product of two nibbles\<close>

definition mult_loop :: "int \<Rightarrow> int \<Rightarrow> int" where
  "mult_loop m x = fold (\<lambda>multc r. if drop_bit multc x AND 1 = 1 then r XOR push_bit multc m else r) [0..<4] 0"

definition div_loop :: "int \<Rightarrow> int" where
  "div_loop r = fold (\<lambda>divc d.
     if d AND 0xffff0 \<noteq> 0
     then (if drop_bit (7 - divc) d AND 1 = 1 then d XOR push_bit (3 - divc) 0x13 else d)
     else d) [0..<4] r"

definition gf_mul :: "int \<Rightarrow> int \<Rightarrow> int" where
  "gf_mul m x = div_loop (mult_loop m x)"

subsection \<open>The check nibbles\<close>

definition hword :: "u8 list \<Rightarrow> int list" where
  "hword word =
    fold (\<lambda>count h. h[31 - count * 2 - 1 := uint (word ! count) AND 0xf,
                      31 - count * 2 := drop_bit 4 (uint (word ! count)) AND 0xf])
      [0..<16] (replicate 32 0)"

definition mult_count1 :: "nat \<Rightarrow> nat" where
  "mult_count1 count = (if count > 14 then (if count = 31 then 0 else count - 15) else count)"

definition mult_count4 :: "nat \<Rightarrow> nat" where
  "mult_count4 count =
    (if count = 0 \<or> count = 15 \<or> count = 30 then 0
     else if count = 1 \<or> count = 16 then 8
     else if count = 2 \<or> count = 17 then 13
     else if count = 3 \<or> count = 18 then 12
     else if count = 4 \<or> count = 19 then 10
     else if count = 5 \<or> count = 20 then 6
     else if count = 6 \<or> count = 21 then 5
     else if count = 7 \<or> count = 22 then 14
     else if count = 8 \<or> count = 23 then 1
     else if count = 9 \<or> count = 24 then 11
     else if count = 10 \<or> count = 25 then 4
     else if count = 11 \<or> count = 26 then 9
     else if count = 12 \<or> count = 27 then 3
     else if count = 13 \<or> count = 28 then 2
     else 7)"

definition parity1 :: "int list \<Rightarrow> int" where
  "parity1 h = fold (\<lambda>count p. if count \<noteq> 30 then p XOR gf_mul (int (mult_count1 count) + 1) (h ! count) else p)
    [0..<32] 0"

definition parity2 :: "int list \<Rightarrow> int" where
  "parity2 h = fold (\<lambda>count p. p XOR h ! count) [0..<15] 0 XOR h ! 30 XOR h ! 31"

definition parity3 :: "int list \<Rightarrow> int" where
  "parity3 h = fold (\<lambda>count p. p XOR h ! count) [15..<32] 0"

definition parity4 :: "int list \<Rightarrow> int" where
  "parity4 h = fold (\<lambda>count p. p XOR gf_mul (int (mult_count4 count) + 1) (h ! count)) [0..<31] 0"

definition hamming :: "u8 list \<Rightarrow> u8 list" where
  "hamming word =
    (let h = hword word
     in map (\<lambda>p. word_of_int (p AND 0xf)) [parity2 h, parity1 h, parity4 h, parity3 h])"

text \<open>
  \<open>shift\<close> is \<^verbatim>\<open>8 - (start_bit + ch2)\<close>, \<open>bits\<close> is \<^verbatim>\<open>40 - (8 - ch2)\<close>; the right shift of the
  address is arithmetic.
\<close>

definition address_parity :: "nat \<Rightarrow> nat \<Rightarrow> 64 word \<Rightarrow> bool" where
  "address_parity shift bits addr =
    fold (\<lambda>i p. p \<noteq> bit (signed_drop_bit shift addr) i) [0..<bits] False"

definition addr_parity :: "u8 list \<Rightarrow> 64 word \<Rightarrow> nat \<Rightarrow> nat \<Rightarrow> u8 list" where
  "addr_parity data addr start_bit ch2 =
    (let parity = (if address_parity (8 - (start_bit + ch2)) (40 - (8 - ch2)) addr then 0xff else 0)
     in map (\<lambda>i. (data ! i XOR parity) AND 0xf) [0..<4])"

subsection \<open>The field of sixteen elements\<close>

text \<open>Products are linear in the second factor.\<close>

lemma odd_drop_bit: "(drop_bit k x AND 1 = (1::int)) \<longleftrightarrow> bit x k"
  by (simp add: and_one_eq bit_iff_odd_drop_bit mod_2_eq_odd)

lemma fold_xor_if:
  fixes a b :: int
  shows "fold (\<lambda>k r. if P k then r XOR f k else r) ks a XOR fold (\<lambda>k r. if Q k then r XOR f k else r) ks b
    = fold (\<lambda>k r. if P k \<noteq> Q k then r XOR f k else r) ks (a XOR b)"
proof (induction ks arbitrary: a b)
  case (Cons k ks)
  have "(if P k then a XOR f k else a) XOR (if Q k then b XOR f k else b) =
      (if P k \<noteq> Q k then (a XOR b) XOR f k else a XOR b)"
    by (simp add: bit_eq_iff bit_xor_iff) blast
  then show ?case by (simp only: fold_Cons o_apply Cons.IH)
qed simp

lemma mult_loop_xor: "mult_loop m (x XOR y) = mult_loop m x XOR mult_loop m y"
  by (simp only: mult_loop_def odd_drop_bit fold_xor_if bit_xor_iff xor_self_eq)

definition div_step :: "nat \<Rightarrow> int \<Rightarrow> int" where
  "div_step k d = (if bit d (7 - k) then d XOR push_bit (3 - k) 0x13 else d)"

lemma div_step_xor: "div_step k (x XOR y) = div_step k x XOR div_step k y"
  by (simp add: div_step_def bit_eq_iff bit_xor_iff) blast

lemma div_step_eq:
  assumes "k < 4"
  shows "(if d AND 0xffff0 \<noteq> 0
     then (if drop_bit (7 - k) d AND 1 = 1 then d XOR push_bit (3 - k) 0x13 else d) else d) = div_step k d"
proof -
  have "bit (0xffff0 :: int) (7 - k)"
    using assms by (simp add: numeral_eq_Suc less_Suc_eq) auto
  then have "bit d (7 - k) \<Longrightarrow> bit (d AND 0xffff0) (7 - k)" by (simp add: bit_and_iff)
  then show ?thesis by (auto simp: div_step_def odd_drop_bit)
qed

lemma div_loop_eq: "div_loop r = fold div_step [0..<4] r"
  unfolding div_loop_def by (rule fold_cong) (simp_all only: div_step_eq atLeastLessThan_upt [symmetric] atLeastLessThan_iff refl)

lemma div_loop_xor: "div_loop (x XOR y) = div_loop x XOR div_loop y"
proof -
  have "fold div_step ks (x XOR y) = fold div_step ks x XOR fold div_step ks y" for ks
    by (induction ks arbitrary: x y) (simp_all add: div_step_xor)
  then show ?thesis by (simp only: div_loop_eq)
qed

lemma gf_mul_xor: "gf_mul m (x XOR y) = gf_mul m x XOR gf_mul m y"
  by (simp add: gf_mul_def mult_loop_xor div_loop_xor)

text \<open>Products are sums of logarithms.\<close>

definition nibs :: "int list" where
  "nibs = [0, 1, 2, 3, 4, 5, 6, 7, 8, 9, 10, 11, 12, 13, 14, 15]"

definition gf_exp :: "int list" where
  "gf_exp = [1, 2, 4, 8, 3, 6, 12, 11, 5, 10, 7, 14, 15, 13, 9]"

definition gf_log :: "int list" where
  "gf_log = [0, 0, 1, 4, 2, 8, 5, 10, 3, 14, 9, 7, 6, 13, 11, 12]"

lemma gf_mul_table:
  "list_all (\<lambda>a. list_all (\<lambda>b. gf_mul a b = (if a = 0 \<or> b = 0 then 0
    else gf_exp ! nat ((gf_log ! nat a + gf_log ! nat b) mod 15))) nibs) nibs"
  by code_simp


end
