(* ===== verification/Mem_Gf.thy ===== *)
theory Mem_Gf
  imports Mem_Ecc
begin

text \<open>
  The nibbles with the addition \<^verbatim>\<open>^\<close> and the product of \<^verbatim>\<open>hamming\<close> are a field; and the facts on sums
  over a field that bound the number of nibbles in which two lines with the same check nibbles
  can differ.
\<close>

lemma nibs_iff: "x \<in> {0..<16} \<longleftrightarrow> x \<in> set nibs"
proof -
  have n: "nibs = [0..15]" unfolding nibs_def by code_simp
  have "set nibs = {0..15}" unfolding n by (rule set_upto)
  then show ?thesis by auto
qed

lemma gf_mul_log:
  assumes "a \<in> {0..<16}" and "b \<in> {0..<16}"
  shows "gf_mul a b = (if a = 0 \<or> b = 0 then 0 else gf_exp ! nat ((gf_log ! nat a + gf_log ! nat b) mod 15))"
  using gf_mul_table assms unfolding nibs_iff list_all_iff by blast

lemma gf_log_exp:
  assumes "k \<in> {0..<15}"
  shows "gf_exp ! nat k \<in> {1..<16}" and "gf_log ! nat (gf_exp ! nat k) = k"
proof -
  have "list_all (\<lambda>k. gf_exp ! nat k \<in> {1..<16} \<and> gf_log ! nat (gf_exp ! nat k) = k)
      [0, 1, 2, 3, 4, 5, 6, 7, 8, 9, 10, 11, 12, 13, 14]"
    by (simp add: gf_exp_def gf_log_def)
  moreover have "[0, 1, 2, 3, 4, 5, 6, 7, 8, 9, 10, 11, 12, 13, 14] = [0..14::int]"
    by code_simp
  then have "k \<in> set [0, 1, 2, 3, 4, 5, 6, 7, 8, 9, 10, 11, 12, 13, 14]"
    using assms by (simp only: set_upto) auto
  ultimately have "gf_exp ! nat k \<in> {1..<16} \<and> gf_log ! nat (gf_exp ! nat k) = k"
    unfolding list_all_iff by (rule bspec)
  then show "gf_exp ! nat k \<in> {1..<16}" and "gf_log ! nat (gf_exp ! nat k) = k" by simp_all
qed

lemma gf_exp_log:
  assumes "a \<in> {1..<16}"
  shows "gf_log ! nat a \<in> {0..<15}" and "gf_exp ! nat (gf_log ! nat a) = a"
proof -
  have "list_all (\<lambda>a. gf_log ! nat a \<in> {0..<15} \<and> gf_exp ! nat (gf_log ! nat a) = a)
      [1, 2, 3, 4, 5, 6, 7, 8, 9, 10, 11, 12, 13, 14, 15]"
    by (simp add: gf_exp_def gf_log_def)
  moreover have "[1, 2, 3, 4, 5, 6, 7, 8, 9, 10, 11, 12, 13, 14, 15] = [1..15::int]"
    by code_simp
  then have "a \<in> set [1, 2, 3, 4, 5, 6, 7, 8, 9, 10, 11, 12, 13, 14, 15]"
    using assms by (simp only: set_upto) auto
  ultimately have "gf_log ! nat a \<in> {0..<15} \<and> gf_exp ! nat (gf_log ! nat a) = a"
    unfolding list_all_iff by (rule bspec)
  then show "gf_log ! nat a \<in> {0..<15}" and "gf_exp ! nat (gf_log ! nat a) = a" by simp_all
qed

lemma gf_mul_range:
  assumes "a \<in> {0..<16}" and "b \<in> {0..<16}"
  shows "gf_mul a b \<in> {0..<16}"
  using gf_log_exp(1) [of "(gf_log ! nat a + gf_log ! nat b) mod 15"] by (auto simp: gf_mul_log [OF assms])

lemma gf_mul_nonzero:
  assumes "a \<in> {1..<16}" and "b \<in> {1..<16}"
  shows "gf_mul a b \<in> {1..<16}" and "gf_log ! nat (gf_mul a b) = (gf_log ! nat a + gf_log ! nat b) mod 15"
  using assms gf_log_exp [of "(gf_log ! nat a + gf_log ! nat b) mod 15"] by (simp_all add: gf_mul_log)

lemma gf_mul_comm:
  assumes "a \<in> {0..<16}" and "b \<in> {0..<16}"
  shows "gf_mul a b = gf_mul b a"
  using assms by (simp add: gf_mul_log add.commute)

lemma gf_mul_assoc:
  assumes "a \<in> {0..<16}" and "b \<in> {0..<16}" and "c \<in> {0..<16}"
  shows "gf_mul (gf_mul a b) c = gf_mul a (gf_mul b c)"
proof (cases "a = 0 \<or> b = 0 \<or> c = 0")
  case True
  have z: "gf_mul 0 x = 0" "gf_mul x 0 = 0" if "x \<in> {0..<16}" for x
    using that by (simp_all add: gf_mul_log)
  show ?thesis
    using True z [OF assms(1)] z [OF assms(2)] z [OF assms(3)] z [OF gf_mul_range [OF assms(1,2)]]
      z [OF gf_mul_range [OF assms(2,3)]] by fastforce
next
  case False
  then have n: "a \<in> {1..<16}" "b \<in> {1..<16}" "c \<in> {1..<16}" using assms by auto
  have l: "gf_mul x y = gf_exp ! nat ((gf_log ! nat x + gf_log ! nat y) mod 15)"
    if "x \<in> {1..<16}" "y \<in> {1..<16}" for x y
    using that by (simp add: gf_mul_log)
  show ?thesis
    by (simp only: l [OF gf_mul_nonzero(1) [OF n(1,2)] n(3)] l [OF n(1) gf_mul_nonzero(1) [OF n(2,3)]]
      gf_mul_nonzero(2) [OF n(1,2)] gf_mul_nonzero(2) [OF n(2,3)] mod_simps add.assoc)
qed

lemma gf_mul_one: "a \<in> {0..<16} \<Longrightarrow> gf_mul 1 a = a"
  using gf_exp_log [of a] by (auto simp: gf_mul_log gf_log_def)

lemma xor_nibble:
  fixes a b :: int
  assumes "a \<in> {0..<16}" and "b \<in> {0..<16}"
  shows "a XOR b \<in> {0..<16}"
  using assms XOR_upper [of a 4 b] by auto

typedef gf16 = "{0..<16 :: int}"
  by (rule exI [of _ 0]) simp

setup_lifting type_definition_gf16

instantiation gf16 :: field
begin

lift_definition zero_gf16 :: gf16 is 0 by simp

lift_definition one_gf16 :: gf16 is 1 by simp

lift_definition plus_gf16 :: "gf16 \<Rightarrow> gf16 \<Rightarrow> gf16" is "\<lambda>a b. a XOR b" by (rule xor_nibble)

lift_definition uminus_gf16 :: "gf16 \<Rightarrow> gf16" is "\<lambda>a. a" .

lift_definition minus_gf16 :: "gf16 \<Rightarrow> gf16 \<Rightarrow> gf16" is "\<lambda>a b. a XOR b" by (rule xor_nibble)

lift_definition times_gf16 :: "gf16 \<Rightarrow> gf16 \<Rightarrow> gf16" is gf_mul by (rule gf_mul_range)

lift_definition inverse_gf16 :: "gf16 \<Rightarrow> gf16" is
  "\<lambda>a. if a = 0 then 0 else gf_exp ! nat ((15 - gf_log ! nat a) mod 15)"
proof -
  fix a :: int
  have "gf_exp ! nat ((15 - gf_log ! nat a) mod 15) \<in> {1..<16}" by (rule gf_log_exp(1)) simp
  then show "(if a = 0 then 0 else gf_exp ! nat ((15 - gf_log ! nat a) mod 15)) \<in> {0..<16}" by simp
qed

definition divide_gf16 :: "gf16 \<Rightarrow> gf16 \<Rightarrow> gf16" where
  "divide_gf16 a b = a * inverse b"

instance
proof
  fix a b c :: gf16
  show "a + b + c = a + (b + c)" by transfer (simp add: xor.assoc)
  show "a + b = b + a" by transfer (simp add: xor.commute)
  show "0 + a = a" by transfer simp
  show "- a + a = 0" by transfer simp
  show "a - b = a + - b" by transfer simp
  show "a * b * c = a * (b * c)" by transfer (rule gf_mul_assoc)
  show "a * b = b * a" by transfer (rule gf_mul_comm)
  show "1 * a = a" by transfer (rule gf_mul_one)
  show "(a + b) * c = a * c + b * c"
    by transfer (metis gf_mul_comm gf_mul_xor xor_nibble)
  show "(0::gf16) \<noteq> 1" by transfer simp
  show "inverse a * a = 1" if "a \<noteq> 0"
    using that
  proof transfer
    fix a :: int
    assume a: "a \<in> {0..<16}" "a \<noteq> 0"
    let ?k = "(15 - gf_log ! nat a) mod 15"
    have "(?k + gf_log ! nat a) mod 15 = 0" by (simp add: mod_simps)
    then show "gf_mul (if a = 0 then 0 else gf_exp ! nat ?k) a = 1"
      using a gf_log_exp [of ?k] by (simp add: gf_mul_log gf_exp_def)
  qed
  show "inverse (0::gf16) = 0" by transfer simp
  show "a div b = a * inverse b" by (rule divide_gf16_def)
qed

end

lemma gf16_double [simp]: "(x :: gf16) + x = 0" "- x = x"
  by (transfer; simp)+

subsection \<open>Vectors of small weight\<close>

lemma sum_support:
  fixes d :: "'k \<Rightarrow> 'a::field"
  assumes "finite A"
  shows "(\<Sum>k\<in>A. f k * d k) = (\<Sum>k\<in>{k \<in> A. d k \<noteq> 0}. f k * d k)"
  by (rule sum.mono_neutral_right) (use assms in auto)

lemma vandermonde_zero:
  fixes a b c x y z :: "'a::field"
  assumes "x + y + z = 0" and "a * x + b * y + c * z = 0" and "b * c * x + a * c * y + a * b * z = 0"
    and "a \<noteq> b" and "c \<noteq> b"
  shows "y = 0"
proof -
  have "(a - b) * ((c - b) * y) = 0" using assms(1-3) by algebra
  then show ?thesis using assms(4,5) by simp
qed

lemma weight_three_zero:
  fixes d al be :: "'k \<Rightarrow> 'a::field"
  assumes fin: "finite A" and inj: "inj_on al A" and inv: "\<And>k. k \<in> A \<Longrightarrow> al k * be k = 1"
    and c: "card {k \<in> A. d k \<noteq> 0} \<le> 3"
    and s: "(\<Sum>k\<in>A. d k) = 0" "(\<Sum>k\<in>A. al k * d k) = 0" "(\<Sum>k\<in>A. be k * d k) = 0"
  shows "\<forall>k \<in> A. d k = 0"
proof -
  let ?T = "{k \<in> A. d k \<noteq> 0}"
  have T: "(\<Sum>k\<in>?T. d k) = 0" "(\<Sum>k\<in>?T. al k * d k) = 0" "(\<Sum>k\<in>?T. be k * d k) = 0"
    using s sum_support [OF fin, of "\<lambda>_. 1" d] sum_support [OF fin, of al d] sum_support [OF fin, of be d] by simp_all
  consider "card ?T = 0" | "card ?T = 1" | "card ?T = 2" | "card ?T = 3" using c by linarith
  then have "?T = {}"
  proof cases
    case 1
    then show ?thesis using fin by simp
  next
    case 2
    then obtain i where i: "?T = {i}" by (auto simp: card_1_singleton_iff)
    then show ?thesis using T(1) by auto
  next
    case 3
    then obtain i j where ij: "?T = {i, j}" "i \<noteq> j" by (auto simp: card_2_iff)
    then have "i \<in> A" "j \<in> A" "d j \<noteq> 0" by auto
    moreover have "d i = - d j" "al i * d i + al j * d j = 0"
      using T(1,2) ij by (auto simp: eq_neg_iff_add_eq_0)
    ultimately show ?thesis using inj ij(2) by (auto dest: inj_onD)
  next
    case 4
    then obtain i j k where ijk: "?T = {i, j, k}" "i \<noteq> j" "i \<noteq> k" "j \<noteq> k" by (auto simp: card_3_iff)
    then have A: "i \<in> A" "j \<in> A" "k \<in> A" and n: "d j \<noteq> 0" by auto
    have e: "d i + d j + d k = 0" "al i * d i + al j * d j + al k * d k = 0"
        "be i * d i + be j * d j + be k * d k = 0"
      using T ijk by (simp_all add: add.assoc)
    have "al j * al k * d i + al i * al k * d j + al i * al j * d k =
        al i * al j * al k * (be i * d i + be j * d j + be k * d k)"
      using inv [OF A(1)] inv [OF A(2)] inv [OF A(3)] by algebra
    then have "d j = 0"
      using e(3) inj A ijk(2-4) by (intro vandermonde_zero [OF e(1,2)]) (auto dest: inj_onD)
    then show ?thesis using n by simp
  qed
  then show ?thesis by auto
qed

end
