(* ===== verification/Mem_Code.thy ===== *)
theory Mem_Code
  imports Mem_Gf
begin

text \<open>The check nibbles as sums over the field, and what follows for lines with equal ones.\<close>

abbreviation gf :: "int \<Rightarrow> gf16" where "gf \<equiv> Abs_gf16"

abbreviation nibble :: "int \<Rightarrow> bool" where "nibble x \<equiv> x \<in> {0..<16}"

lemma gf_inject: "nibble x \<Longrightarrow> nibble y \<Longrightarrow> gf x = gf y \<longleftrightarrow> x = y"
  by (rule Abs_gf16_inject)

lemma gf_ops:
  assumes "nibble x" and "nibble y"
  shows "gf (x XOR y) = gf x + gf y" and "gf (gf_mul x y) = gf x * gf y"
  using assms by (simp_all add: plus_gf16.abs_eq times_gf16.abs_eq eq_onp_def)

lemma gf_const: "gf 0 = 0" "gf 1 = 1"
  by (simp_all add: zero_gf16_def one_gf16_def)

lemma fold_xor_sum:
  assumes "\<And>k. k \<in> set ks \<Longrightarrow> nibble (f k)" and "nibble p"
  shows "nibble (fold (\<lambda>k p. p XOR f k) ks p) \<and>
    gf (fold (\<lambda>k p. p XOR f k) ks p) = gf p + (\<Sum>k\<leftarrow>ks. gf (f k))"
  using assms
proof (induction ks arbitrary: p)
  case (Cons k ks)
  then have "nibble (p XOR f k)" by (intro xor_nibble) auto
  with Cons show ?case by (simp add: gf_ops add.assoc del: atLeastLessThan_iff)
qed simp

lemma fold_xor_interval:
  assumes "\<And>k. k \<in> {m..<n} \<Longrightarrow> nibble (f k)"
  shows "nibble (fold (\<lambda>k p. p XOR f k) [m..<n] 0)"
    and "gf (fold (\<lambda>k p. p XOR f k) [m..<n] 0) = (\<Sum>k\<in>{m..<n}. gf (f k))"
  using fold_xor_sum [of "[m..<n]" f 0] assms
  by (simp_all add: gf_const interv_sum_list_conv_sum_set_nat)

subsection \<open>The nibbles of a line\<close>

lemma hword_length: "length (hword w) = 32"
proof -
  have "length (fold (\<lambda>count h. h[31 - count * 2 - 1 := f count, 31 - count * 2 := g count]) ks h) = length h"
    for ks and f g :: "nat \<Rightarrow> int" and h
    by (induction ks arbitrary: h) simp_all
  then show ?thesis by (simp add: hword_def)
qed

lemma hword_nth:
  assumes "k < 32"
  shows "hword w ! k = (if even k then uint (w ! ((31 - k) div 2)) AND 0xf
    else drop_bit 4 (uint (w ! ((31 - k) div 2))) AND 0xf)"
proof -
  let ?h = "\<lambda>n. fold (\<lambda>count h. h[31 - count * 2 - 1 := uint (w ! count) AND 0xf,
      31 - count * 2 := drop_bit 4 (uint (w ! count)) AND 0xf]) [0..<n] (replicate 32 0)"
  have "length (?h n) = 32 \<and> (\<forall>k<32. 31 < k + 2 * n \<longrightarrow> ?h n ! k = (if even k then uint (w ! ((31 - k) div 2)) AND 0xf
      else drop_bit 4 (uint (w ! ((31 - k) div 2))) AND 0xf))" if "n \<le> 16" for n
    using that
  proof (induction n)
    case (Suc n)
    have h: "?h (Suc n) = (?h n)[31 - n * 2 - 1 := uint (w ! n) AND 0xf, 31 - n * 2 := drop_bit 4 (uint (w ! n)) AND 0xf]"
      by simp
    have l: "length (?h n) = 32" using Suc by simp
    show ?case
    proof (intro conjI allI impI)
      show "length (?h (Suc n)) = 32" unfolding h using l by simp
      fix k :: nat
      assume k: "k < 32" "31 < k + 2 * Suc n"
      have "k = 31 - n * 2 \<or> k = 31 - n * 2 - 1 \<or> 31 < k + 2 * n" using k Suc.prems by presburger
      then consider "k = 31 - n * 2" | "k = 31 - n * 2 - 1" | "31 < k + 2 * n" by blast
      then show "?h (Suc n) ! k = (if even k then uint (w ! ((31 - k) div 2)) AND 0xf
          else drop_bit 4 (uint (w ! ((31 - k) div 2))) AND 0xf)"
      proof cases
        case 1
        then have "odd k" "(31 - k) div 2 = n" using Suc.prems by presburger+
        then show ?thesis unfolding h using 1 l by simp
      next
        case 2
        then have "even k" "(31 - k) div 2 = n" "k \<noteq> 31 - n * 2" using Suc.prems by presburger+
        then show ?thesis unfolding h using 2 l by simp
      next
        case 3
        then show ?thesis unfolding h using Suc k by simp
      qed
    qed
  qed simp
  from this [of 16] show ?thesis using assms by (simp add: hword_def)
qed

lemma and_15_nibble: "nibble (x AND 0xf)"
  using AND_upper2' [of 15 15 x] by (simp add: AND_lower)

lemma hword_nibble: "k < 32 \<Longrightarrow> nibble (hword w ! k)"
  by (simp only: hword_nth and_15_nibble split: if_split) simp

lemma word_from_hword:
  assumes "c < 16"
  shows "w ! c = word_of_int (push_bit 4 (hword w ! (31 - 2 * c)) OR hword w ! (30 - 2 * c))"
proof -
  have "odd (31 - 2 * c)" "even (30 - 2 * c)" "(31 - (31 - 2 * c)) div 2 = c" "(31 - (30 - 2 * c)) div 2 = c"
    using assms by presburger+
  then have "hword w ! (31 - 2 * c) = drop_bit 4 (uint (w ! c)) AND 0xf" "hword w ! (30 - 2 * c) = uint (w ! c) AND 0xf"
    using assms by (simp_all add: hword_nth)
  moreover have m: "(0xf :: int) = mask 4" by (simp add: mask_eq_exp_minus_1)
  have "uint (w ! c) = push_bit 4 (drop_bit 4 (uint (w ! c)) AND 0xf) OR (uint (w ! c) AND 0xf)"
    unfolding m by (auto simp: bit_eq_iff bit_or_iff bit_and_iff bit_push_bit_iff bit_drop_bit_eq bit_mask_iff bit_uint_iff)
  ultimately show ?thesis by (metis word_of_int_uint)
qed

lemma hword_inject:
  assumes "length w = 16" and "length w' = 16" and "\<And>k. k < 32 \<Longrightarrow> hword w ! k = hword w' ! k"
  shows "w = w'"
proof (rule nth_equalityI)
  show "length w = length w'" using assms by simp
  fix c
  assume "c < length w"
  then have c: "c < 16" using assms(1) by simp
  then show "w ! c = w' ! c"
    using assms(3) [of "31 - 2 * c"] assms(3) [of "30 - 2 * c"] by (simp add: word_from_hword [OF c])
qed

subsection \<open>The check nibbles as sums\<close>

definition coeff1 :: "nat \<Rightarrow> gf16" where "coeff1 k = gf (int (mult_count1 k) + 1)"

definition coeff4 :: "nat \<Rightarrow> gf16" where "coeff4 k = gf (int (mult_count4 k) + 1)"

lemma mult_counts: "mult_count1 k < 15 \<or> k \<ge> 30" "mult_count4 k < 15"
  by (auto simp: mult_count1_def mult_count4_def)

lemma coeff_facts:
  "k < 30 \<Longrightarrow> coeff1 k * coeff4 k = 1" "coeff1 31 = 1" "coeff4 30 = 1"
proof -
  have "\<forall>k \<in> set [0..<30]. gf_mul (int (mult_count1 k) + 1) (int (mult_count4 k) + 1) = 1"
    by (simp add: upt_rec gf_mul_log gf_log_def gf_exp_def mult_count1_def mult_count4_def)
  then show "coeff1 k * coeff4 k = 1" if "k < 30"
    using that mult_counts [of k] by (simp add: coeff1_def coeff4_def gf_ops [symmetric] gf_const)
qed (simp_all add: coeff1_def coeff4_def mult_count1_def mult_count4_def gf_const)

lemma coeff1_inj: "inj_on coeff1 {0..<15}" "inj_on coeff1 {15..<30}"
  by (auto intro!: inj_onI simp: coeff1_def gf_inject mult_count1_def split: if_splits)

lemma sum_0_32:
  fixes f :: "nat \<Rightarrow> 'a::comm_monoid_add"
  shows "(\<Sum>k\<in>{0..<32}. f k) = (\<Sum>k\<in>{0..<15}. f k) + (\<Sum>k\<in>{15..<30}. f k) + f 30 + f 31"
    and "(\<Sum>k\<in>{0..<31}. f k) = (\<Sum>k\<in>{0..<15}. f k) + (\<Sum>k\<in>{15..<30}. f k) + f 30"
    and "(\<Sum>k\<in>{15..<32}. f k) = (\<Sum>k\<in>{15..<30}. f k) + f 30 + f 31"
proof -
  have a: "(\<Sum>k\<in>{30..<32}. f k) = f 30 + f 31" "(\<Sum>k\<in>{30..<31}. f k) = f 30"
    by (simp_all add: numeral_eq_Suc)
  have "(\<Sum>k\<in>{0..<32}. f k) = (\<Sum>k\<in>{0..<15}. f k) + ((\<Sum>k\<in>{15..<30}. f k) + (\<Sum>k\<in>{30..<32}. f k))"
    by (simp add: sum.atLeastLessThan_concat)
  then show "(\<Sum>k\<in>{0..<32}. f k) = (\<Sum>k\<in>{0..<15}. f k) + (\<Sum>k\<in>{15..<30}. f k) + f 30 + f 31"
    by (simp only: a add.assoc)
  have "(\<Sum>k\<in>{0..<31}. f k) = (\<Sum>k\<in>{0..<15}. f k) + ((\<Sum>k\<in>{15..<30}. f k) + (\<Sum>k\<in>{30..<31}. f k))"
    by (simp add: sum.atLeastLessThan_concat)
  then show "(\<Sum>k\<in>{0..<31}. f k) = (\<Sum>k\<in>{0..<15}. f k) + (\<Sum>k\<in>{15..<30}. f k) + f 30"
    by (simp only: a add.assoc)
  have "(\<Sum>k\<in>{15..<32}. f k) = (\<Sum>k\<in>{15..<30}. f k) + (\<Sum>k\<in>{30..<32}. f k)"
    by (simp add: sum.atLeastLessThan_concat)
  then show "(\<Sum>k\<in>{15..<32}. f k) = (\<Sum>k\<in>{15..<30}. f k) + f 30 + f 31"
    by (simp only: a add.assoc)
qed

definition nibbles :: "int list \<Rightarrow> bool" where
  "nibbles h \<longleftrightarrow> (\<forall>k < 32. nibble (h ! k))"

lemma nibblesD: "nibbles h \<Longrightarrow> k < 32 \<Longrightarrow> nibble (h ! k)"
  by (simp add: nibbles_def)

lemma term1: "nibbles h \<Longrightarrow> k < 32 \<Longrightarrow> nibble (if k \<noteq> 30 then gf_mul (int (mult_count1 k) + 1) (h ! k) else 0)"
  using nibblesD [of h k] mult_counts(1) [of k] gf_mul_range [of "int (mult_count1 k) + 1" "h ! k"]
  by (auto simp: mult_count1_def)

lemma term4: "nibbles h \<Longrightarrow> k < 32 \<Longrightarrow> nibble (gf_mul (int (mult_count4 k) + 1) (h ! k))"
  using nibblesD [of h k] mult_counts(2) [of k] by (intro gf_mul_range) simp_all

lemma gf_term:
  assumes "nibbles h" and "k < 32"
  shows "gf (gf_mul (int (mult_count4 k) + 1) (h ! k)) = coeff4 k * gf (h ! k)"
    and "k \<noteq> 30 \<Longrightarrow> gf (gf_mul (int (mult_count1 k) + 1) (h ! k)) = coeff1 k * gf (h ! k)"
proof -
  have "nibble (int (mult_count4 k) + 1)" "k \<noteq> 30 \<Longrightarrow> nibble (int (mult_count1 k) + 1)"
    using mult_counts [of k] assms(2) by (auto simp: mult_count1_def)
  then show "gf (gf_mul (int (mult_count4 k) + 1) (h ! k)) = coeff4 k * gf (h ! k)"
    and "k \<noteq> 30 \<Longrightarrow> gf (gf_mul (int (mult_count1 k) + 1) (h ! k)) = coeff1 k * gf (h ! k)"
    using nibblesD [OF assms] by (simp_all only: coeff4_def coeff1_def gf_ops not_False_eq_True simp_thms)
qed

lemma parity1_sum:
  assumes "nibbles h"
  shows "nibble (parity1 h) \<and> gf (parity1 h) =
    (\<Sum>k\<in>{0..<15}. coeff1 k * gf (h ! k)) + (\<Sum>k\<in>{15..<30}. coeff1 k * gf (h ! k)) + gf (h ! 31)"
proof -
  have e: "parity1 h = fold (\<lambda>k p. p XOR (if k \<noteq> 30 then gf_mul (int (mult_count1 k) + 1) (h ! k) else 0)) [0..<32] 0"
    unfolding parity1_def by (rule fold_cong) auto
  have "(\<Sum>k\<in>{0..<32}. gf (if k \<noteq> 30 then gf_mul (int (mult_count1 k) + 1) (h ! k) else 0)) =
      (\<Sum>k\<in>{0..<15}. coeff1 k * gf (h ! k)) + (\<Sum>k\<in>{15..<30}. coeff1 k * gf (h ! k)) + gf (h ! 31)"
    by (simp add: sum_0_32 gf_term [OF assms] gf_const coeff_facts)
  then show ?thesis
    unfolding e using fold_xor_interval [of 0 32 "\<lambda>k. if k \<noteq> 30 then gf_mul (int (mult_count1 k) + 1) (h ! k) else 0"] term1 [OF assms]
    by (simp del: upt_conv_Cons)
qed

lemma parity4_sum:
  assumes "nibbles h"
  shows "nibble (parity4 h) \<and> gf (parity4 h) =
    (\<Sum>k\<in>{0..<15}. coeff4 k * gf (h ! k)) + (\<Sum>k\<in>{15..<30}. coeff4 k * gf (h ! k)) + gf (h ! 30)"
proof -
  have "(\<Sum>k\<in>{0..<31}. gf (gf_mul (int (mult_count4 k) + 1) (h ! k))) =
      (\<Sum>k\<in>{0..<15}. coeff4 k * gf (h ! k)) + (\<Sum>k\<in>{15..<30}. coeff4 k * gf (h ! k)) + gf (h ! 30)"
    by (simp add: sum_0_32 gf_term [OF assms] coeff_facts)
  then show ?thesis
    unfolding parity4_def using fold_xor_interval [of 0 31 "\<lambda>k. gf_mul (int (mult_count4 k) + 1) (h ! k)"] term4 [OF assms]
    by simp
qed

lemma parity2_sum:
  assumes "nibbles h"
  shows "nibble (parity2 h) \<and> gf (parity2 h) = (\<Sum>k\<in>{0..<15}. gf (h ! k)) + gf (h ! 30) + gf (h ! 31)"
proof -
  have "nibble (fold (\<lambda>k p. p XOR h ! k) [0..<15] 0)"
    and "gf (fold (\<lambda>k p. p XOR h ! k) [0..<15] 0) = (\<Sum>k\<in>{0..<15}. gf (h ! k))"
    using fold_xor_interval [of 0 15 "\<lambda>k. h ! k"] nibblesD [OF assms] by simp_all
  then show ?thesis
    unfolding parity2_def using nibblesD [OF assms, of 30] nibblesD [OF assms, of 31] xor_nibble by (simp add: gf_ops del: atLeastLessThan_iff)
qed

lemma parity3_sum:
  assumes "nibbles h"
  shows "nibble (parity3 h) \<and> gf (parity3 h) = (\<Sum>k\<in>{15..<30}. gf (h ! k)) + gf (h ! 30) + gf (h ! 31)"
  unfolding parity3_def using fold_xor_interval [of 15 32 "\<lambda>k. h ! k"] nibblesD [OF assms] by (simp add: sum_0_32)


lemma nibble_byte_inject:
  assumes "nibble x" and "nibble y" and "(word_of_int (x AND 0xf) :: u8) = word_of_int (y AND 0xf)"
  shows "x = y"
proof -
  have m: "(0xf :: int) = mask 4" by (simp add: mask_eq_exp_minus_1)
  have "z AND 0xf = z" if "nibble z" for z :: int
    using that unfolding m by (simp add: take_bit_eq_mask [symmetric] take_bit_int_eq_self)
  moreover have "uint (word_of_int z :: u8) = z" if "nibble z" for z
    using that by (simp add: uint_word_of_int_eq take_bit_int_eq_self)
  ultimately show ?thesis using assms by metis
qed

lemma nibbles_hword: "nibbles (hword w)"
  by (simp only: nibbles_def) (blast intro: hword_nibble)

lemma hamming_parities:
  assumes "hamming w = hamming w'"
  shows "parity1 (hword w) = parity1 (hword w')" and "parity2 (hword w) = parity2 (hword w')"
    and "parity3 (hword w) = parity3 (hword w')" and "parity4 (hword w) = parity4 (hword w')"
  using assms unfolding hamming_def Let_def list.map list.inject
  by (auto intro: nibble_byte_inject simp del: atLeastLessThan_iff
    simp: parity1_sum parity2_sum parity3_sum parity4_sum nibbles_hword)

subsection \<open>Differences of few nibbles\<close>

text \<open>The sums of the four check nibbles vanish on a vector with at most three entries only at zero.\<close>

lemma card_split:
  assumes "card {k \<in> {0..<32::nat}. P k} \<le> 3"
  shows "card {k \<in> {0..<15}. P k} + card {k \<in> {15..<30}. P k} + (if P 30 then 1 else 0) + (if P 31 then 1 else 0) \<le> 3"
proof -
  have "{k \<in> {0..<32::nat}. P k} = {k \<in> {0..<15}. P k} \<union> {k \<in> {15..<30}. P k} \<union> {k \<in> {30, 31}. P k}" by auto
  moreover have "card {k \<in> {30, 31::nat}. P k} = (if P 30 then 1 else 0) + (if P 31 then 1 else 0)"
    by (cases "P 30"; cases "P 31") (simp_all add: Collect_conv_if conj_disj_distribR Collect_disj_eq)
  ultimately show ?thesis
    using assms by (simp add: card_Un_disjoint disjoint_iff)
qed

lemma sum_card_0:
  fixes d :: "nat \<Rightarrow> gf16"
  assumes "finite A" and "card {k \<in> A. d k \<noteq> 0} = 0"
  shows "(\<Sum>k\<in>A. f k * d k) = 0"
  using assms by (intro sum.neutral) auto

lemma sum_card_1:
  fixes d :: "nat \<Rightarrow> gf16"
  assumes "finite A" and "card {k \<in> A. d k \<noteq> 0} = 1"
  obtains i where "i \<in> A" and "d i \<noteq> 0" and "\<And>f. (\<Sum>k\<in>A. f k * d k) = f i * d i"
proof -
  obtain i where i: "{k \<in> A. d k \<noteq> 0} = {i}" using assms(2) by (auto simp: card_1_singleton_iff)
  then have "(\<Sum>k\<in>A. f k * d k) = f i * d i" for f using sum_support [OF assms(1), of f d] by simp
  then show ?thesis using i that by blast
qed

lemma coeffs_equal:
  assumes "i < 15" and "15 \<le> j" and "j < 30" and "coeff1 i = coeff1 j \<or> coeff4 i = coeff4 j"
  shows "coeff1 i = coeff1 j" and "coeff4 i = coeff4 j"
proof -
  have "coeff1 i * coeff4 i = 1" "coeff1 j * coeff4 j = 1" using coeff_facts(1) assms by auto
  then have "coeff1 i = coeff1 j \<longleftrightarrow> coeff4 i = coeff4 j"
    by (metis mult.commute mult.left_commute mult.right_neutral)
  then show "coeff1 i = coeff1 j" and "coeff4 i = coeff4 j" using assms(4) by simp_all
qed

lemma small_vector_zero:
  fixes d :: "nat \<Rightarrow> gf16"
  defines "S f m n \<equiv> (\<Sum>k\<in>{m..<n::nat}. f k * d k)"
  assumes 1: "S coeff1 0 15 + S coeff1 15 30 + d 31 = 0" and 4: "S coeff4 0 15 + S coeff4 15 30 + d 30 = 0"
    and 2: "S (\<lambda>_. 1) 0 15 + d 30 + d 31 = 0" and 3: "S (\<lambda>_. 1) 15 30 + d 30 + d 31 = 0"
    and c: "card {k \<in> {0..<32}. d k \<noteq> 0} \<le> 3"
  shows "\<forall>k \<in> {0..<32}. d k = 0"
proof -
  let ?c = "\<lambda>m n. card {k \<in> {m..<n::nat}. d k \<noteq> 0}"
  note c' = card_split [OF c]
  have z: "?c m n = 0 \<Longrightarrow> S f m n = 0" for m n f unfolding S_def by (rule sum_card_0) simp_all
  have one: "\<exists>i. m \<le> i \<and> i < n \<and> d i \<noteq> 0 \<and> (\<forall>f. S f m n = f i * d i)" if "?c m n = 1" for m n
    by (rule sum_card_1 [OF finite_atLeastLessThan that]) (auto simp: S_def)
  have char2: "x + y = 0 \<longleftrightarrow> x = y" for x y :: gf16 by (simp add: eq_neg_iff_add_eq_0 [symmetric])
  have all: ?thesis if "?c 0 15 = 0" "?c 15 30 = 0" "d 30 = 0" "d 31 = 0"
  proof
    fix k :: nat
    assume "k \<in> {0..<32}"
    then have "k \<in> {0..<15} \<or> k \<in> {15..<30} \<or> k = 30 \<or> k = 31" by auto
    then show "d k = 0" using that by auto
  qed
  have pure: "?c m n = 0" if "S (\<lambda>_. 1) m n = 0" "S coeff1 m n = 0" "S coeff4 m n = 0" "?c m n \<le> 3"
    "(m, n) = (0, 15) \<or> (m, n) = (15, 30)" for m n
  proof -
    have "inj_on coeff1 {m..<n}" "\<And>k. k \<in> {m..<n} \<Longrightarrow> coeff1 k * coeff4 k = 1"
      using that(5) coeff1_inj coeff_facts(1) by auto
    then have "\<forall>k \<in> {m..<n}. d k = 0"
      by (rule weight_three_zero [OF finite_atLeastLessThan])
        (use that(1-4) in \<open>simp_all only: S_def mult_1\<close>)
    then have "{k \<in> {m..<n}. d k \<noteq> 0} = {}" by blast
    then show ?thesis by (simp only: card.empty)
  qed
  show ?thesis
  proof (cases "d 30 = 0"; cases "d 31 = 0")
    assume e: "d 30 = 0" "d 31 = 0"
    then have s: "S (\<lambda>_. 1) 0 15 = 0" "S (\<lambda>_. 1) 15 30 = 0" using 2 3 by simp_all
    have n: "?c 0 15 \<noteq> 1" "?c 15 30 \<noteq> 1"
      using s one [of 0 15] one [of 15 30] by auto
    then have "?c 0 15 = 0 \<or> ?c 15 30 = 0" using c' by linarith
    then show ?thesis
    proof (rule disjE)
      assume c0: "?c 0 15 = 0"
      have "?c 15 30 = 0" by (rule pure) (use z [OF c0] s c' 1 4 e in simp_all)
      then show ?thesis by (rule all [OF c0 _ e])
    next
      assume c0: "?c 15 30 = 0"
      have "?c 0 15 = 0" by (rule pure) (use z [OF c0] s c' 1 4 e in simp_all)
      then show ?thesis by (rule all [OF _ c0 e])
    qed
  next
    assume e: "d 30 \<noteq> 0" "d 31 \<noteq> 0"
    then have c': "?c 0 15 + ?c 15 30 + 2 \<le> 3" using c' by (simp split: if_splits)
    then have "?c 0 15 = 0 \<or> ?c 15 30 = 0" using c' by linarith
    then have "d 30 = d 31" using 2 3 z [of 0 15] z [of 15 30] by (auto simp: char2)
    then have "S (\<lambda>_. 1) 0 15 = 0" "S (\<lambda>_. 1) 15 30 = 0" using 2 3 by (simp_all add: add.assoc)
    then have "?c 0 15 \<noteq> 1" "?c 15 30 \<noteq> 1" using one [of 0 15] one [of 15 30] by auto
    then have "?c 0 15 = 0" "?c 15 30 = 0" using c' by linarith+
    then show ?thesis using 1 z [of 0 15] z [of 15 30] e by simp
  next
    assume e: "d 30 \<noteq> 0" "d 31 = 0"
    then have c': "?c 0 15 + ?c 15 30 + 1 \<le> 3" using c' by (simp split: if_splits)
    then have s: "S (\<lambda>_. 1) 0 15 = d 30" "S (\<lambda>_. 1) 15 30 = d 30" using 2 3 by (simp_all only: e add_0_right char2)
    then have "?c 0 15 \<noteq> 0" "?c 15 30 \<noteq> 0" using z e by metis+
    then have "?c 0 15 = 1" "?c 15 30 = 1" using c' by linarith+
    then obtain i j where i: "i < 15" "\<And>f. S f 0 15 = f i * d i" and j: "15 \<le> j" "j < 30" "\<And>f. S f 15 30 = f j * d j"
      using one [of 0 15] one [of 15 30] by metis
    have "d i = d 30" "d j = d 30" using s i j by simp_all
    then have "coeff1 i = coeff1 j" using 1 i j e by (simp add: char2)
    then show ?thesis using 4 i j e coeffs_equal(2) [OF i(1) j(1,2)] \<open>d i = d 30\<close> \<open>d j = d 30\<close> by simp
  next
    assume e: "d 30 = 0" "d 31 \<noteq> 0"
    then have c': "?c 0 15 + ?c 15 30 + 1 \<le> 3" using c' by (simp split: if_splits)
    then have s: "S (\<lambda>_. 1) 0 15 = d 31" "S (\<lambda>_. 1) 15 30 = d 31" using 2 3 by (simp_all only: e add_0_right char2)
    then have "?c 0 15 \<noteq> 0" "?c 15 30 \<noteq> 0" using z e by metis+
    then have "?c 0 15 = 1" "?c 15 30 = 1" using c' by linarith+
    then obtain i j where i: "i < 15" "\<And>f. S f 0 15 = f i * d i" and j: "15 \<le> j" "j < 30" "\<And>f. S f 15 30 = f j * d j"
      using one [of 0 15] one [of 15 30] by metis
    have "d i = d 31" "d j = d 31" using s i j by simp_all
    then have "coeff4 i = coeff4 j" using 4 i j e by (simp add: char2)
    then show ?thesis using 1 i j e coeffs_equal(1) [OF i(1) j(1,2)] \<open>d i = d 31\<close> \<open>d j = d 31\<close> by simp
  qed
qed

lemma hamming_distance:
  assumes "length w = 16" and "length w' = 16" and "hamming w = hamming w'"
    and "card {k \<in> {0..<32}. hword w ! k \<noteq> hword w' ! k} \<le> 3"
  shows "w = w'"
proof -
  let ?d = "\<lambda>k. gf (hword w ! k) - gf (hword w' ! k)"
  note p = hamming_parities [OF assms(3)]
  have e: "k < 32 \<Longrightarrow> ?d k = 0 \<longleftrightarrow> hword w ! k = hword w' ! k" for k
    using gf_inject hword_nibble by simp
  have "\<forall>k \<in> {0..<32}. ?d k = 0"
  proof (rule small_vector_zero)
    show "(\<Sum>k\<in>{0..<15}. coeff1 k * ?d k) + (\<Sum>k\<in>{15..<30}. coeff1 k * ?d k) + ?d 31 = 0"
      using p(1) parity1_sum [OF nibbles_hword, of w] parity1_sum [OF nibbles_hword, of w']
      by (simp add: right_diff_distrib sum_subtractf algebra_simps)
    show "(\<Sum>k\<in>{0..<15}. coeff4 k * ?d k) + (\<Sum>k\<in>{15..<30}. coeff4 k * ?d k) + ?d 30 = 0"
      using p(4) parity4_sum [OF nibbles_hword, of w] parity4_sum [OF nibbles_hword, of w']
      by (simp add: right_diff_distrib sum_subtractf algebra_simps)
    show "(\<Sum>k\<in>{0..<15}. 1 * ?d k) + ?d 30 + ?d 31 = 0"
      using p(2) parity2_sum [OF nibbles_hword, of w] parity2_sum [OF nibbles_hword, of w']
      by (simp add: sum_subtractf algebra_simps)
    show "(\<Sum>k\<in>{15..<30}. 1 * ?d k) + ?d 30 + ?d 31 = 0"
      using p(3) parity3_sum [OF nibbles_hword, of w] parity3_sum [OF nibbles_hword, of w']
      by (simp add: sum_subtractf algebra_simps)
    have "{k \<in> {0..<32}. ?d k \<noteq> 0} = {k \<in> {0..<32}. hword w ! k \<noteq> hword w' ! k}" using e by auto
    then show "card {k \<in> {0..<32}. ?d k \<noteq> 0} \<le> 3" using assms(4) by simp
  qed
  then show ?thesis using hword_inject [OF assms(1,2)] e by simp
qed

end
