(* ===== verification/Mem_Way.thy ===== *)
theory Mem_Way
  imports Gf_Prelude
begin

text \<open>
  How \<^verbatim>\<open>mem.c\<close> maps physical addresses to nodes of the memory (\<^verbatim>\<open>d_way\<close>) and places in a
  node (\<^verbatim>\<open>bank\<close>). The configuration \<^verbatim>\<open>dram_type\<close> is a bit mask. Three functions do the mapping:
  \<^verbatim>\<open>access_dram_call\<close> (read), \<^verbatim>\<open>write_dram_call\<close> (write) and
  \<^verbatim>\<open>cal_2channel\<close>, \<^verbatim>\<open>cal_4channel\<close> (load). The C code shifts signed numbers to the right; as the
  results are masked to bits below the sign, \<open>drop_bit\<close> gives the same.
\<close>

type_synonym dtype = "32 word"

definition dtype_bit :: "dtype \<Rightarrow> dtype \<Rightarrow> bool" where
  "dtype_bit dt m \<longleftrightarrow> dt AND m \<noteq> 0"

definition two_channel :: "dtype \<Rightarrow> bool" where
  "two_channel dt \<longleftrightarrow> dtype_bit dt 0x10 \<or> dtype_bit dt 0x20 \<or> dtype_bit dt 0x8000 \<or> dtype_bit dt 0x4000"

text \<open>\<^verbatim>\<open>0xffffffffff >> (n - (dram_type & 0xf))\<close>\<close>

definition addr_mask :: "nat \<Rightarrow> dtype \<Rightarrow> u64 res" where
  "addr_mask n dt =
    (if n < unat (dt AND 0xf) then Inl Undefined else Inr (drop_bit (n - unat (dt AND 0xf)) 0xffffffffff))"

definition masked_addr :: "nat \<Rightarrow> dtype \<Rightarrow> u64 \<Rightarrow> u64 res" where
  "masked_addr n dt addr =
    (if dtype_bit dt 0x100 then Inr (addr AND 0xffffffffff)
     else res_bind (addr_mask n dt) (\<lambda>m. Inr (addr AND m)))"

text \<open>\<^verbatim>\<open>(d_way & m) | ((d_way >> a) << b)\<close>\<close>

definition squeeze :: "u64 \<Rightarrow> nat \<Rightarrow> nat \<Rightarrow> u64 \<Rightarrow> u64" where
  "squeeze m a b d_way = (d_way AND m) OR push_bit b (drop_bit a d_way)"

text \<open>Way and chip select in the four channel mode; the same in all three functions.\<close>

definition stack4 :: "dtype \<Rightarrow> u64 \<Rightarrow> u64 \<Rightarrow> u64 \<times> u64" where
  "stack4 dt addr d_way =
    (if dtype_bit dt 0x100 then
       (if dt AND 0xc0 = 0 then (d_way, 0)
        else if dt AND 0xc0 = 0x40 then
          (if dtype_bit dt 2 then (squeeze 0x1f 6 5 d_way, drop_bit 11 addr AND 1)
           else (squeeze 0xf 5 4 d_way, drop_bit 10 addr AND 1))
        else if dt AND 0xc0 = 0x80 then
          (if dtype_bit dt 2 then (squeeze 0x1f 6 5 d_way, drop_bit 10 addr AND 2)
           else (squeeze 0xf 5 4 d_way, drop_bit 9 addr AND 2))
        else
          (if dtype_bit dt 2 then (squeeze 0x1f 7 5 d_way, drop_bit 11 addr AND 3)
           else (squeeze 0xf 6 4 d_way, drop_bit 10 addr AND 3)))
     else if dtype_bit dt 0x40 then (d_way, drop_bit (32 + unat (dt AND 0xf)) addr AND 3)
     else (d_way, push_bit 1 (drop_bit (32 + unat (dt AND 0xf)) addr AND 1) AND 2))"

text \<open>The two channel mode of \<^verbatim>\<open>access_dram_call\<close>.\<close>

definition stack2_read :: "dtype \<Rightarrow> u64 \<Rightarrow> u64 \<Rightarrow> u64 \<times> u64" where
  "stack2_read dt addr d_way =
    (if dtype_bit dt 0x100 then
       (if dt AND 0xc0 = 0 then (d_way, 0)
        else if dt AND 0xc0 = 0x40 then
          (if dtype_bit dt 2 then (squeeze 0x3f 7 6 d_way, drop_bit 11 addr AND 1)
           else (squeeze 0x1f 6 5 d_way, drop_bit 10 addr AND 1))
        else if dt AND 0xc0 = 0x80 then
          (if dtype_bit dt 2 then (squeeze 0x3f 7 6 d_way, drop_bit 10 addr AND 2)
           else (squeeze 0x1f 6 5 d_way, drop_bit 9 addr AND 2))
        else
          (if dtype_bit dt 2 then (squeeze 0x3f 8 6 d_way, drop_bit 11 addr AND 3)
           else (squeeze 0x1f 7 5 d_way, drop_bit 10 addr AND 3)))
     else if dtype_bit dt 0x40 then (d_way, drop_bit (31 + unat (dt AND 0xf)) addr AND 3)
     else (d_way, push_bit 1 (drop_bit (31 + unat (dt AND 0xf)) addr AND 1) AND 2))"

text \<open>The two channel mode of \<^verbatim>\<open>cal_2channel\<close>.\<close>

definition stack2 :: "dtype \<Rightarrow> u64 \<Rightarrow> u64 \<Rightarrow> u64 \<times> u64" where
  "stack2 dt addr d_way =
    (if dtype_bit dt 0x100 then
       (if dt AND 0xc0 = 0 then (d_way, 0)
        else if dt AND 0xc0 = 0x40 then
          (if dtype_bit dt 2 then (squeeze 0x1f 6 5 d_way, drop_bit 10 addr AND 1)
           else (squeeze 0xf 5 4 d_way, drop_bit 9 addr AND 1))
        else if dt AND 0xc0 = 0x80 then
          (if dtype_bit dt 2 then (squeeze 0x1f 6 5 d_way, drop_bit 9 addr AND 2)
           else (squeeze 0xf 5 4 d_way, drop_bit 8 addr AND 2))
        else
          (if dtype_bit dt 2 then (squeeze 0x3f 7 5 d_way, drop_bit 10 addr AND 3)
           else (squeeze 0x1f 6 4 d_way, drop_bit 9 addr AND 3)))
     else if dtype_bit dt 0x40 then (d_way, drop_bit (31 + unat (dt AND 0xf)) addr AND 3)
     else (d_way, push_bit 1 (drop_bit (31 + unat (dt AND 0xf)) addr AND 1) AND 2))"

text \<open>The two channel mode of \<^verbatim>\<open>write_dram_call\<close> differs from it for \<^verbatim>\<open>case 0x80\<close>.\<close>

definition stack2_write :: "dtype \<Rightarrow> u64 \<Rightarrow> u64 \<Rightarrow> u64 \<times> u64" where
  "stack2_write dt addr d_way =
    (if dtype_bit dt 0x100 \<and> dt AND 0xc0 = 0x80 \<and> dtype_bit dt 2
     then (squeeze 0x3f 6 5 d_way, drop_bit 9 addr AND 2)
     else stack2 dt addr d_way)"

definition bank2 :: "dtype \<Rightarrow> nat \<Rightarrow> nat" where
  "bank2 dt bank_s =
    (if dtype_bit dt 0x4000 then (if bank_s = 0 then 32 * 2 else 32)
     else if dtype_bit dt 0x8000 then (if bank_s = 0 then 0 else 32 * 3)
     else if dtype_bit dt 0x20 then 64 + bank_s * 32 else bank_s * 32)"

definition with_low_bits :: "u64 \<Rightarrow> u64 \<Rightarrow> u64" where
  "with_low_bits d_way addr = push_bit 2 d_way OR (drop_bit 4 addr AND 3)"

text \<open>Results: \<^verbatim>\<open>d_way\<close>, \<^verbatim>\<open>bank_s\<close>, \<^verbatim>\<open>bank\<close>. In \<^verbatim>\<open>cs << 30\<close> the number \<^verbatim>\<open>cs\<close> is an \<^verbatim>\<open>int\<close>.\<close>

definition way4 :: "dtype \<Rightarrow> u64 \<Rightarrow> (u64 \<times> nat \<times> nat) res" where
  "way4 dt addr =
    res_bind (masked_addr 8 dt addr) (\<lambda>a.
      let (d_way, cs) = stack4 dt addr (with_low_bits (drop_bit 8 a) addr);
          bank_s = unat (drop_bit 6 addr AND 3)
      in Inr (d_way OR push_bit 29 cs, bank_s, bank_s * 32))"

definition access_way :: "dtype \<Rightarrow> u64 \<Rightarrow> (u64 \<times> nat \<times> nat) res" where
  "access_way dt addr =
    (if two_channel dt then
       res_bind (masked_addr 8 dt addr) (\<lambda>a.
         let (d_way, cs) = stack2_read dt addr (with_low_bits (drop_bit 7 a) addr);
             bank_s = unat (drop_bit 6 addr AND 1)
         in if cs \<ge> 2 then Inl Undefined else Inr (d_way OR push_bit 30 cs, bank_s, bank2 dt bank_s))
     else way4 dt addr)"

definition write_way :: "dtype \<Rightarrow> u64 \<Rightarrow> (u64 \<times> nat \<times> nat) res" where
  "write_way dt addr =
    (if two_channel dt then
       res_bind (masked_addr 8 dt addr) (\<lambda>a.
         let (d_way, cs) = stack2_write dt addr (with_low_bits (drop_bit 7 a) addr);
             bank_s = unat (drop_bit 6 addr AND 1)
         in Inr (d_way OR push_bit 29 cs, bank_s, bank2 dt bank_s))
     else way4 dt addr)"

text \<open>The bank bits of an address are the sum of three groups of bits.\<close>

definition bank_hash :: "nat \<Rightarrow> u64 \<Rightarrow> u64 \<Rightarrow> u64 \<Rightarrow> u64" where
  "bank_hash k m keep addr =
    (let addr_tmp = addr AND 0xffffffffff;
         b_new = ((drop_bit k addr_tmp AND m) XOR (drop_bit 18 addr_tmp AND m)) XOR (drop_bit 28 addr_tmp AND m)
     in (addr AND keep) OR push_bit k b_new)"

definition hash4 :: "dtype \<Rightarrow> u64 \<Rightarrow> u64" where
  "hash4 dt addr =
    (if dtype_bit dt 0x1000 then bank_hash 8 7 0xfffffff8ff addr else bank_hash 8 3 0xfffffffcff addr)"

definition hash2 :: "dtype \<Rightarrow> u64 \<Rightarrow> u64" where
  "hash2 dt addr =
    (if dtype_bit dt 0x1000 then bank_hash 7 7 0xfffffffc7f addr else bank_hash 7 3 0xfffffffe7f addr)"

definition cal_4channel :: "dtype \<Rightarrow> u64 \<Rightarrow> (u64 \<times> nat \<times> nat) res" where
  "cal_4channel dt addr = way4 dt (hash4 dt addr)"

definition cal_2channel :: "dtype \<Rightarrow> u64 \<Rightarrow> (u64 \<times> nat \<times> nat) res" where
  "cal_2channel dt addr0 =
    (let addr = hash2 dt addr0 in
     res_bind (masked_addr 9 dt addr) (\<lambda>a.
       let (d_way, cs) = stack2 dt addr (with_low_bits (drop_bit 7 a) addr);
           bank_s = unat (drop_bit 6 addr AND 1)
       in Inr (d_way OR push_bit 29 cs, bank_s, bank2 dt bank_s)))"

definition load_way :: "dtype \<Rightarrow> u64 \<Rightarrow> (u64 \<times> nat \<times> nat) res" where
  "load_way dt addr = (if two_channel dt then cal_2channel dt addr else cal_4channel dt addr)"

text \<open>
  The address that enters the check nibbles of a line nobody loaded: a node number with its
  bank bits hashed. \<^verbatim>\<open>addr_tmp\<close> and \<^verbatim>\<open>dexor_addr\<close> are of type \<^verbatim>\<open>int\<close> there.
\<close>

definition dexor :: "nat \<Rightarrow> nat \<Rightarrow> nat \<Rightarrow> u64 \<Rightarrow> u64 \<Rightarrow> u64 \<Rightarrow> u64" where
  "dexor k k2 k3 m keep addr =
    (let addr_tmp = (ucast (addr AND 0xffffffffff) :: u32); m32 = (ucast m :: u32);
         b_new = ((signed_drop_bit k addr_tmp AND m32) XOR (signed_drop_bit k2 addr_tmp AND m32))
                   XOR (signed_drop_bit k3 addr_tmp AND m32)
     in scast (ucast ((addr AND keep) OR ucast (push_bit k b_new)) :: u32))"

definition dexor_op :: "dtype \<Rightarrow> bool \<Rightarrow> u64 \<Rightarrow> u64" where
  "dexor_op dt ch2 addr =
    (if dtype_bit dt 0x1000
     then (if \<not> ch2 then dexor 2 12 22 7 0xffffffffe3 addr else dexor 2 13 23 7 0xffffffffe3 addr)
     else (if \<not> ch2 then dexor 2 12 22 3 0xfffffffff3 addr else dexor 2 13 23 3 0xfffffffff3 addr))"

definition dexor_no_search :: "dtype \<Rightarrow> bool \<Rightarrow> u64 \<Rightarrow> u64" where
  "dexor_no_search dt ch2 addr =
    (if dtype_bit dt 0x1000
     then (if \<not> ch2 then dexor 2 12 22 7 0xffffffffe3 addr else dexor 2 13 23 7 0xffffffffe3 addr)
     else (if \<not> ch2 then dexor 2 12 22 3 0xfffffffff3 addr else dexor 1 11 21 3 0xfffffffff9 addr))"

end
