(* ===== verification/Mem_Way_Inj.thy ===== *)
theory Mem_Way_Inj
  imports Mem_Way
begin

text \<open>
  No two doublewords share a place in the four channel mode with the stack bit behind the row
  bits, and the bank hash is its own inverse.
\<close>

definition new_stack :: "dtype \<Rightarrow> nat \<Rightarrow> bool" where
  "new_stack dt k \<longleftrightarrow> \<not> two_channel dt \<and> \<not> dtype_bit dt 0x100 \<and> unat (dt AND 0xf) = k \<and> k \<le> 3"

lemma mask40: "(0xffffffffff :: u64) = mask 40"
  by (simp add: mask_eq_exp_minus_1)

lemma bit_numeral_masks [simp]:
  "bit (3 :: u64) n \<longleftrightarrow> n < 2" "bit (2 :: u64) n \<longleftrightarrow> n = 1" "bit (7 :: u64) n \<longleftrightarrow> n < 3" "bit (1 :: u64) n \<longleftrightarrow> n = 0"
proof -
  have m: "(3 :: u64) = mask 2" "(7 :: u64) = mask 3" "(2 :: u64) = push_bit 1 1" by (simp_all add: mask_eq_exp_minus_1)
  show "bit (3 :: u64) n \<longleftrightarrow> n < 2" "bit (7 :: u64) n \<longleftrightarrow> n < 3"
    by (simp_all only: m bit_mask_iff) auto
  show "bit (2 :: u64) n \<longleftrightarrow> n = 1" by (simp only: m bit_push_bit_iff) (auto simp: bit_1_iff)
  show "bit (1 :: u64) n \<longleftrightarrow> n = 0" by (auto simp: bit_1_iff)
qed

lemma masked_addr_new:
  assumes "new_stack dt k"
  shows "masked_addr 8 dt a = Inr (a AND mask (32 + k))"
proof -
  have "drop_bit (8 - k) (mask 40 :: u64) = mask (32 + k)"
    using assms by (auto simp: new_stack_def bit_eq_iff bit_drop_bit_eq bit_mask_iff)
  then show ?thesis using assms by (simp add: masked_addr_def addr_mask_def new_stack_def mask40)
qed

definition select :: "dtype \<Rightarrow> nat \<Rightarrow> u64 \<Rightarrow> u64" where
  "select dt k a =
    (if dtype_bit dt 0x40 then drop_bit (32 + k) a AND 3 else push_bit 1 (drop_bit (32 + k) a AND 1) AND 2)"

lemma way4_new:
  assumes "new_stack dt k"
  shows "way4 dt a = Inr (with_low_bits (drop_bit 8 (a AND mask (32 + k))) a OR push_bit 29 (select dt k a),
    unat (drop_bit 6 a AND 3), unat (drop_bit 6 a AND 3) * 32)"
  using assms masked_addr_new [OF assms, of a]
  by (simp only: way4_def stack4_def select_def new_stack_def if_False res_bind.simps Let_def prod.case split: if_split)
    simp

lemma way_bits:
  assumes "k \<le> 3" and "d = with_low_bits (drop_bit 8 (a AND mask (32 + k))) a OR push_bit 29 (select dt k a)"
  shows "2 \<le> j \<Longrightarrow> j < 26 + k \<Longrightarrow> bit d j = bit a (j + 6)"
    and "bit d 0 = bit a 4" and "bit d 1 = bit a 5"
    and "dtype_bit dt 0x40 \<Longrightarrow> bit d 29 = bit a (32 + k)" and "dtype_bit dt 0x40 \<Longrightarrow> bit d 30 = bit a (33 + k)"
    and "\<not> dtype_bit dt 0x40 \<Longrightarrow> bit d 30 = bit a (32 + k)"
  using assms(1) unfolding assms(2) with_low_bits_def select_def
  by (simp_all only: bit_or_iff bit_and_iff bit_push_bit_iff bit_drop_bit_eq bit_mask_iff o_apply
      bit_numeral_masks if_True if_False split: if_split) (auto simp: add.commute)

text \<open>Addresses up to the selected bits.\<close>

definition reach :: "dtype \<Rightarrow> nat \<Rightarrow> nat" where
  "reach dt k = (if dtype_bit dt 0x40 then 34 + k else 33 + k)"

lemma bit_below: "a < 2 ^ n \<Longrightarrow> n < 64 \<Longrightarrow> bit (a :: u64) i \<Longrightarrow> i < n"
proof (rule ccontr)
  assume a: "a < 2 ^ n" "n < 64" "bit a i" "\<not> i < n"
  have "unat a < 2 ^ n" using a(1,2) by (simp add: word_less_nat_alt unat_pow2)
  then have "take_bit n (unat a) = unat a" by (simp add: take_bit_nat_eq_self)
  then have "\<not> bit (unat a) i" using a(4) by (metis bit_take_bit_iff)
  then show False using a(3) by (simp add: bit_unsigned_iff bit_imp_le_length)
qed

lemma way4_inject:
  assumes "new_stack dt k" and "way4 dt a = Inr (d, s, b)" and "way4 dt a' = Inr (d, s, b)"
    and "bit a 3 = bit a' 3" and "a < 2 ^ reach dt k" and "a' < 2 ^ reach dt k"
  shows "drop_bit 3 a = drop_bit 3 a'"
proof (rule bit_word_eqI)
  fix i
  have k: "k \<le> 3" using assms(1) by (simp add: new_stack_def)
  have d: "d = with_low_bits (drop_bit 8 (a AND mask (32 + k))) a OR push_bit 29 (select dt k a)"
      "d = with_low_bits (drop_bit 8 (a' AND mask (32 + k))) a' OR push_bit 29 (select dt k a')"
      and s: "unat (drop_bit 6 a AND 3) = unat (drop_bit 6 a' AND 3)"
    using assms(2,3) way4_new [OF assms(1)] by auto
  note w = way_bits [OF k d(1)] and w' = way_bits [OF k d(2)]
  have 67: "bit a (6 + j) = bit a' (6 + j)" if "j < 2" for j
  proof -
    have "drop_bit 6 a AND 3 = drop_bit 6 a' AND 3" using s by (simp only: unsigned_word_eqI)
    then have "bit (drop_bit 6 a AND 3) j = bit (drop_bit 6 a' AND 3) j" by (simp only:)
    then show ?thesis using that by (simp only: bit_and_iff bit_drop_bit_eq o_apply bit_numeral_masks simp_thms)
  qed
  have r: "reach dt k < 64" "reach dt k \<le> 34 + k" "\<not> dtype_bit dt 0x40 \<Longrightarrow> reach dt k = 33 + k"
    using k by (auto simp: reach_def)
  consider "i = 0" | "i = 1" | "i = 2" | "i = 3" | "i = 4" | "5 \<le> i" "i < 29 + k" | "i = 29 + k" | "i = 30 + k"
    | "31 + k \<le> i" by linarith
  then have "bit a (3 + i) = bit a' (3 + i)"
  proof cases
    case 1 then show ?thesis using assms(4) by simp
  next
    case 2 then show ?thesis using w(2) w'(2) by (simp add: eval_nat_numeral)
  next
    case 3 then show ?thesis using w(3) w'(3) by (simp add: eval_nat_numeral)
  next
    case 4 then show ?thesis using 67 [of 0] by simp
  next
    case 5 then show ?thesis using 67 [of 1] by simp
  next
    case 6
    then show ?thesis using w(1) [of "i - 3"] w'(1) [of "i - 3"] by (simp add: add.commute)
  next
    case 7
    then show ?thesis using w(4,6) w'(4,6) by (cases "dtype_bit dt 0x40") (auto simp: add.commute)
  next
    case 8
    then show ?thesis
      using w(5) w'(5) bit_below [OF assms(5) r(1)] bit_below [OF assms(6) r(1)] r(3)
      by (cases "dtype_bit dt 0x40") (auto simp: add.commute)
  next
    case 9
    then show ?thesis
      using bit_below [OF assms(5) r(1)] bit_below [OF assms(6) r(1)] r(2) by fastforce
  qed
  then show "bit (drop_bit 3 a) i = bit (drop_bit 3 a') i" by (simp add: bit_drop_bit_eq)
qed

subsection \<open>The hash\<close>

lemma bit_hash4:
  assumes "i < 64"
  shows "bit (hash4 dt a) i = (i < 40 \<and>
    (if 8 \<le> i \<and> i < (if dtype_bit dt 0x1000 then 11 else 10)
     then (bit a i \<noteq> bit a (i + 10)) \<noteq> bit a (i + 20) else bit a i))"
proof -
  have m: "bit (0xfffffff8ff :: u64) i = (i < 40 \<and> \<not> (8 \<le> i \<and> i < 11))"
    "bit (0xfffffffcff :: u64) i = (i < 40 \<and> \<not> (8 \<le> i \<and> i < 10))"
  proof -
    have m: "(0xfffffff8ff :: u64) = mask 40 AND NOT (push_bit 8 (mask 3))"
      "(0xfffffffcff :: u64) = mask 40 AND NOT (push_bit 8 (mask 2))"
      by (simp_all add: mask_eq_exp_minus_1)
    then show "bit (0xfffffff8ff :: u64) i = (i < 40 \<and> \<not> (8 \<le> i \<and> i < 11))"
      "bit (0xfffffffcff :: u64) i = (i < 40 \<and> \<not> (8 \<le> i \<and> i < 10))"
      using assms by (simp_all only: m bit_and_iff bit_not_iff bit_push_bit_iff bit_mask_iff) auto
  qed
  show ?thesis
    using assms
    by (simp_all only: hash4_def bank_hash_def Let_def mask40 m bit_or_iff bit_and_iff bit_xor_iff
        bit_push_bit_iff bit_drop_bit_eq bit_mask_iff bit_numeral_masks o_apply split: if_split)
      (auto simp: add.commute)
qed

lemma hash4_twice:
  assumes "a < 2 ^ 40"
  shows "hash4 dt (hash4 dt a) = a"
proof (rule bit_word_eqI)
  fix i
  assume "i < LENGTH(64)"
  then have i: "i < 64" by simp
  have "\<not> i < 40 \<Longrightarrow> \<not> bit a i" using bit_below [OF assms] by auto
  then show "bit (hash4 dt (hash4 dt a)) i = bit a i"
    using i bit_hash4 [of i dt "hash4 dt a"] bit_hash4 [of i dt a] bit_hash4 [of "i + 10" dt a] bit_hash4 [of "i + 20" dt a]
    by (cases "i < 40"; cases "8 \<le> i \<and> i < (if dtype_bit dt 0x1000 then 11 else 10)") (auto split: if_splits)
qed

lemma hash4_below:
  assumes "a < 2 ^ n" and "31 \<le> n" and "n \<le> 40"
  shows "hash4 dt a < 2 ^ n"
proof -
  have "take_bit n (hash4 dt a) = hash4 dt a"
  proof (rule bit_word_eqI)
    fix i
    assume "i < LENGTH(64)"
    then have i: "i < 64" by simp
    have "n < 64" using assms(3) by simp
    then have "\<not> i < n \<Longrightarrow> \<not> bit a i" using bit_below [OF assms(1)] by blast
    then show "bit (take_bit n (hash4 dt a)) i = bit (hash4 dt a) i"
      using bit_hash4 [OF i, of dt a] assms(2) by (auto simp: bit_take_bit_iff split: if_splits)
  qed
  then have "unat (hash4 dt a) = unat (hash4 dt a) mod 2 ^ n"
    by (metis take_bit_eq_mod unsigned_take_bit_eq)
  then have "unat (hash4 dt a) < 2 ^ n"
    by (metis mod_less_divisor zero_less_numeral zero_less_power)
  then show ?thesis using assms(3) by (simp add: word_less_nat_alt unat_pow2)
qed

lemma hash4_low: "i < 8 \<Longrightarrow> bit (hash4 dt x) i = bit x i"
  using bit_hash4 [of i dt x] by auto

lemma reach_bounds:
  fixes x :: u64
  assumes "new_stack dt k"
  shows "31 \<le> reach dt k" and "reach dt k \<le> 40" and "x < 2 ^ reach dt k \<Longrightarrow> x < 2 ^ 40"
proof -
  show k: "31 \<le> reach dt k" "reach dt k \<le> 40" using assms by (auto simp: reach_def new_stack_def)
  have "(2::nat) ^ reach dt k \<le> 2 ^ 40" using k by (intro power_increasing) auto
  then show "x < 2 ^ reach dt k \<Longrightarrow> x < 2 ^ 40"
    using k by (simp add: word_less_nat_alt unat_pow2 del: power_increasing_iff)
qed

lemma hash4_inject:
  assumes "a < 2 ^ 40" and "b < 2 ^ 40" and "drop_bit 3 (hash4 dt a) = drop_bit 3 (hash4 dt b)"
  shows "drop_bit 3 a = drop_bit 3 b"
proof (rule bit_word_eqI)
  fix i
  have e: "bit (hash4 dt a) (3 + i) = bit (hash4 dt b) (3 + i)" for i
    using assms(3) by (metis bit_drop_bit_eq comp_apply)
  have "bit (hash4 dt (hash4 dt a)) (3 + i) = bit (hash4 dt (hash4 dt b)) (3 + i)"
  proof (cases "3 + i < 64")
    case True
    show ?thesis
      using e [of i] e [of "i + 10"] e [of "i + 20"]
      by (simp only: bit_hash4 [OF True]) (simp add: add.assoc)
  next
    case False
    then have "\<not> bit w (3 + i)" for w :: u64 by (auto dest: bit_imp_le_length)
    then show ?thesis by simp
  qed
  then show "bit (drop_bit 3 a) i = bit (drop_bit 3 b) i"
    using assms(1,2) by (simp add: hash4_twice bit_drop_bit_eq)
qed

lemma and_8_bit: "(x :: u64) AND 8 \<noteq> 0 \<longleftrightarrow> bit x 3"
proof -
  have "x AND 8 = x AND push_bit 3 1" by simp
  then show ?thesis by (simp only: and_exp_eq_0_iff_not_bit push_bit_of_1) simp
qed

lemma places_distinct:
  assumes "new_stack dt k" and "a < 2 ^ reach dt k" and "b < 2 ^ reach dt k"
    and "cal_4channel dt a = Inr (d, s, m)" and "cal_4channel dt b = Inr (d, s, m)"
    and "bit a 3 = bit b 3"
  shows "drop_bit 3 a = drop_bit 3 b"
  by (rule hash4_inject, rule reach_bounds(3) [OF assms(1) assms(2)], rule reach_bounds(3) [OF assms(1) assms(3)],
      rule way4_inject [OF assms(1)])
    (use assms reach_bounds(1,2) [OF assms(1)] in \<open>auto simp: cal_4channel_def hash4_below hash4_low\<close>)

end
