(* ===== verification/Mem_Avl.thy ===== *)
theory Mem_Avl
  imports Gf_Prelude
begin

text \<open>
  The search tree of the sparse memory of the simulator interface
  (\<^verbatim>\<open>tools/pli/mem/utility.h\<close>). Its users insert nodes and change the value of a node in
  place; nothing is ever deleted, so that a pointer to a node is as good as its address.
  \<^verbatim>\<open>state\<close> is written once and never read; a value stands for the node's own copy of the
  data (and, for events, its comment). \<^verbatim>\<open>balance\<close> holds a height, not a difference. It is an
  unbounded integer here; the C code would need a tree of more than \<open>2 ^ 30\<close> nodes in one path
  to leave the range of \<^verbatim>\<open>int\<close>. Following a null pointer is \<open>Undefined\<close>.
\<close>

type_synonym ll = "64 word"    \<comment> \<open>\<^verbatim>\<open>long long\<close>, compared by \<open>sint\<close>\<close>

datatype 'v avl = Null | Node "'v avl" ll 'v int "'v avl"    \<comment> \<open>left, address, value, balance, right\<close>

definition create_avl_node :: "ll \<Rightarrow> 'v \<Rightarrow> 'v avl" where
  "create_avl_node addr val = Node Null addr val 0 Null"

text \<open>\<open>-1\<close> for a null pointer, as the local variables \<^verbatim>\<open>left\<close> and \<^verbatim>\<open>right\<close> have it.\<close>

fun bal :: "'v avl \<Rightarrow> int" where
  "bal Null = -1"
| "bal (Node l a v b r) = b"

fun difference :: "'v avl \<Rightarrow> int" where
  "difference Null = 0"
| "difference (Node l a v b r) = bal l - bal r"

fun rotate_right :: "'v avl \<Rightarrow> 'v avl" where
  "rotate_right (Node (Node ll la lv lb lr) a v b r) = Node ll la lv lb (Node lr a v b r)"
| "rotate_right t = t"

fun rotate_left :: "'v avl \<Rightarrow> 'v avl" where
  "rotate_left (Node l a v b (Node rl ra rv rb rr)) = Node (Node l a v b rl) ra rv rb rr"
| "rotate_left t = t"

text \<open>\<^verbatim>\<open>t->balance += k\<close>, \<^verbatim>\<open>t->leftPtr->balance += k\<close>, \<^verbatim>\<open>t->rightPtr->balance += k\<close>.\<close>

fun bump :: "int \<Rightarrow> 'v avl \<Rightarrow> 'v avl res" where
  "bump k Null = Inl Undefined"
| "bump k (Node l a v b r) = Inr (Node l a v (b + k) r)"

fun bump_left :: "int \<Rightarrow> 'v avl \<Rightarrow> 'v avl res" where
  "bump_left k Null = Inl Undefined"
| "bump_left k (Node l a v b r) = res_bind (bump k l) (\<lambda>l'. Inr (Node l' a v b r))"

fun bump_right :: "int \<Rightarrow> 'v avl \<Rightarrow> 'v avl res" where
  "bump_right k Null = Inl Undefined"
| "bump_right k (Node l a v b r) = res_bind (bump k r) (\<lambda>r'. Inr (Node l a v b r'))"

fun balance_right :: "'v avl \<Rightarrow> 'v avl res" where
  "balance_right Null = Inl Undefined"
| "balance_right (Node l a v b r) =
    (if difference r = 0 then
       res_bind (bump (-1) (rotate_left (Node l a v b r))) (bump_left 1)
     else if difference r < 0 then
       bump_left (-2) (rotate_left (Node l a v b r))
     else
       res_bind (bump 1 (rotate_left (Node l a v b (rotate_right r)))) (\<lambda>t.
       res_bind (bump_left (-2) t) (bump_right (-1))))"

fun balance_left :: "'v avl \<Rightarrow> 'v avl res" where
  "balance_left Null = Inl Undefined"
| "balance_left (Node l a v b r) =
    (if difference l = 0 then
       res_bind (bump (-1) (rotate_right (Node l a v b r))) (bump_right 1)
     else if difference l < 0 then
       bump_right (-2) (rotate_right (Node l a v b r))
     else
       res_bind (bump 1 (rotate_right (Node (rotate_left l) a v b r))) (\<lambda>t.
       res_bind (bump_right (-2) t) (bump_left (-1))))"

fun fixFB :: "'v avl \<Rightarrow> 'v avl res" where
  "fixFB Null = Inl Undefined"
| "fixFB (Node l a v b r) = Inr (Node l a v (if bal l > bal r then bal l + 1 else bal r + 1) r)"

definition rebalance :: "'v avl \<Rightarrow> 'v avl res" where
  "rebalance t =
    res_bind (fixFB t) (\<lambda>t.
      if difference t > 1 then balance_left t
      else if difference t < -1 then balance_right t
      else Inr t)"

text \<open>The parameter \<open>f\<close> is what happens to the value of a node that is found.\<close>

fun insert_node :: "('v \<Rightarrow> 'v) \<Rightarrow> ll \<Rightarrow> 'v \<Rightarrow> 'v avl \<Rightarrow> 'v avl res" where
  "insert_node f addr val Null = Inr (create_avl_node addr val)"
| "insert_node f addr val (Node l a v b r) =
    (if addr = a then Inr (Node l a (f v) b r)
     else if sint addr < sint a then
       res_bind (insert_node f addr val l) (\<lambda>l'. rebalance (Node l' a v b r))
     else
       res_bind (insert_node f addr val r) (\<lambda>r'. rebalance (Node l a v b r')))"

definition insert_avl_node :: "ll \<Rightarrow> 'v \<Rightarrow> 'v avl \<Rightarrow> 'v avl res" where
  "insert_avl_node = insert_node (\<lambda>v. v)"

text \<open>Events: the data of a node that is found are replaced, its comment stays.\<close>

record event =
  ev_reg :: int                    \<comment> \<open>\<^verbatim>\<open>val[0].aval.ival[0]\<close>\<close>
  ev_type :: int                   \<comment> \<open>\<^verbatim>\<open>val[0].bval[0]\<close>\<close>
  ev_comment :: "string option"

definition create_event :: "int \<Rightarrow> int \<Rightarrow> string \<Rightarrow> event" where
  "create_event reg type buf =
    \<lparr>ev_reg = reg, ev_type = type, ev_comment = (if buf = [] then None else Some buf)\<rparr>"

definition insert_event_node :: "ll \<Rightarrow> int \<Rightarrow> int \<Rightarrow> string \<Rightarrow> event avl \<Rightarrow> event avl res" where
  "insert_event_node addr reg type buf =
    insert_node (\<lambda>v. v\<lparr>ev_reg := reg, ev_type := type\<rparr>) addr (create_event reg type buf)"

text \<open>A pointer to a node is given by its value; \<open>None\<close> is the null pointer.\<close>

fun search_node :: "ll \<Rightarrow> 'v avl \<Rightarrow> 'v option res" where
  "search_node addr Null = Inl Undefined"
| "search_node addr (Node l a v b r) =
    (if a = addr then Inr (Some v)
     else if sint a > sint addr then (if l = Null then Inr None else search_node addr l)
     else (if r = Null then Inr None else search_node addr r))"

text \<open>An assignment through the pointer that \<open>search_node\<close> returned.\<close>

fun update_node :: "ll \<Rightarrow> ('v \<Rightarrow> 'v) \<Rightarrow> 'v avl \<Rightarrow> 'v avl" where
  "update_node addr f Null = Null"
| "update_node addr f (Node l a v b r) =
    (if a = addr then Node l a (f v) b r
     else if sint a > sint addr then Node (update_node addr f l) a v b r
     else Node l a v b (update_node addr f r))"

subsection \<open>What a tree holds\<close>

fun inorder :: "'v avl \<Rightarrow> (ll \<times> 'v) list" where
  "inorder Null = []"
| "inorder (Node l a v b r) = inorder l @ (a, v) # inorder r"

abbreviation key_sorted :: "(ll \<times> 'v) list \<Rightarrow> bool" where
  "key_sorted ps \<equiv> sorted_wrt (<) (map (\<lambda>p. sint (fst p)) ps)"

definition avl_map :: "'v avl \<Rightarrow> ll \<Rightarrow> 'v option" where
  "avl_map t = map_of (inorder t)"

text \<open>No stored height is below that of a null pointer: enough for never following one.\<close>

fun heights_ok :: "'v avl \<Rightarrow> bool" where
  "heights_ok Null \<longleftrightarrow> True"
| "heights_ok (Node l a v b r) \<longleftrightarrow> b \<ge> -1 \<and> heights_ok l \<and> heights_ok r"

definition avl_wf :: "'v avl \<Rightarrow> bool" where
  "avl_wf t \<longleftrightarrow> heights_ok t \<and> key_sorted (inorder t)"

fun height :: "'v avl \<Rightarrow> int" where
  "height Null = -1"
| "height (Node l a v b r) = max (height l) (height r) + 1"

subsection \<open>Rotations\<close>

lemma inorder_rotate [simp]:
  "inorder (rotate_right t) = inorder t" "inorder (rotate_left t) = inorder t"
  by (induction t rule: rotate_right.induct; simp) (induction t rule: rotate_left.induct; simp)

lemma heights_ok_bal: "heights_ok t \<Longrightarrow> bal t \<ge> -1"
  by (cases t) auto

lemma bump_inorder: "bump k t = Inr t' \<Longrightarrow> inorder t' = inorder t"
  by (cases t) auto

lemma bump_left_inorder: "bump_left k t = Inr t' \<Longrightarrow> inorder t' = inorder t"
  by (cases t) (auto simp: gf_res dest: bump_inorder)

lemma bump_right_inorder: "bump_right k t = Inr t' \<Longrightarrow> inorder t' = inorder t"
  by (cases t) (auto simp: gf_res dest: bump_inorder)

lemmas bump_inorders = bump_inorder bump_left_inorder bump_right_inorder

lemma balance_right_inorder: "balance_right t = Inr t' \<Longrightarrow> inorder t' = inorder t"
  by (cases t) (auto simp: gf_res split: if_splits dest!: bump_inorders)

lemma balance_left_inorder: "balance_left t = Inr t' \<Longrightarrow> inorder t' = inorder t"
  by (cases t) (auto simp: gf_res split: if_splits dest!: bump_inorders)

lemma rebalance_inorder: "rebalance t = Inr t' \<Longrightarrow> inorder t' = inorder t"
  by (cases t) (auto simp: rebalance_def simp del: balance_left.simps balance_right.simps
    split: if_splits dest!: balance_left_inorder balance_right_inorder)

text \<open>
  The rotations find the nodes they touch: the taller subtree exists, and the subtree that its
  \<^verbatim>\<open>difference\<close> calls the taller one, too.
\<close>

lemma balance_left_ok:
  assumes "heights_ok (Node l a v (bal l + 1) r)" and "bal l - bal r > 1"
  shows "\<exists>t'. balance_left (Node l a v (bal l + 1) r) = Inr t' \<and> heights_ok t'"
proof -
  obtain x y z b w where l: "l = Node x y z b w"
    using assms heights_ok_bal [of r] by (cases l) auto
  show ?thesis
    using assms heights_ok_bal [of r] heights_ok_bal [of x] heights_ok_bal [of w]
    unfolding l by (cases w; cases x) auto
qed

lemma balance_right_ok:
  assumes "heights_ok (Node l a v (bal r + 1) r)" and "bal l - bal r < -1"
  shows "\<exists>t'. balance_right (Node l a v (bal r + 1) r) = Inr t' \<and> heights_ok t'"
proof -
  obtain x y z b w where r: "r = Node x y z b w"
    using assms heights_ok_bal [of l] by (cases r) auto
  show ?thesis
    using assms heights_ok_bal [of l] heights_ok_bal [of x] heights_ok_bal [of w]
    unfolding r by (cases x; cases w) auto
qed

lemma rebalance_ok:
  assumes "heights_ok l" and "heights_ok r"
  shows "\<exists>t'. rebalance (Node l a v b r) = Inr t' \<and> heights_ok t'"
proof -
  have "heights_ok (Node l a v (bal l + 1) r)" "heights_ok (Node l a v (bal r + 1) r)"
    using assms heights_ok_bal [of l] heights_ok_bal [of r] by auto
  then show ?thesis
    using balance_left_ok [of l a v r] balance_right_ok [of l a v r] by (auto simp: rebalance_def)
qed

lemma insert_node_ok:
  assumes "heights_ok t"
  shows "\<exists>t'. insert_node f addr val t = Inr t' \<and> heights_ok t'"
  using assms
proof (induction t)
  case Null
  then show ?case by (simp add: create_avl_node_def)
next
  case (Node l a v b r)
  then obtain l' r' where "insert_node f addr val l = Inr l'" "heights_ok l'"
      "insert_node f addr val r = Inr r'" "heights_ok r'" "heights_ok l" "heights_ok r" "b \<ge> -1"
    by auto
  then show ?case using rebalance_ok [of l' r a v b] rebalance_ok [of l r' a v b] by auto
qed

subsection \<open>Insertion and lookup\<close>

definition upsert :: "('v \<Rightarrow> 'v) \<Rightarrow> ll \<Rightarrow> 'v \<Rightarrow> (ll \<Rightarrow> 'v option) \<Rightarrow> (ll \<Rightarrow> 'v option)" where
  "upsert f addr val m = m(addr := (case m addr of None \<Rightarrow> Some val | Some v \<Rightarrow> Some (f v)))"

lemma sorted_map_of:
  assumes "key_sorted (xs @ (a, v) # ys)"
  shows "map_of (xs @ (a, v) # ys) k =
    (if k = a then Some v else if sint k < sint a then map_of xs k else map_of ys k)"
proof -
  have out: "map_of zs k = None" if "\<forall>p \<in> set zs. fst p \<noteq> k" for zs
    using that by (induction zs) auto
  have x: "sint (fst p) < sint a" if "p \<in> set xs" for p
    using assms that by (auto simp: sorted_wrt_append)
  have y: "sint a < sint (fst p)" if "p \<in> set ys" for p
    using assms that by (auto simp: sorted_wrt_append)
  have "k \<noteq> a \<Longrightarrow> \<not> sint k < sint a \<Longrightarrow> map_of xs k = None" by (rule out) (use x in force)
  moreover have "k \<noteq> a \<Longrightarrow> sint k < sint a \<Longrightarrow> map_of ys k = None" by (rule out) (use y in force)
  moreover have "map_of xs a = None" by (rule ccontr) (use x map_of_SomeD [of xs a] in fastforce)
  ultimately show ?thesis by (auto simp: map_add_def split: option.splits)
qed

definition keys :: "'v avl \<Rightarrow> ll set" where
  "keys t = fst ` set (inorder t)"

lemma keys_simps [simp]: "keys Null = {}" "keys (Node l a v b r) = insert a (keys l \<union> keys r)"
  by (auto simp: keys_def)

lemma rebalance_keys: "rebalance t = Inr t' \<Longrightarrow> keys t' = keys t"
  by (simp add: keys_def rebalance_inorder)

lemma insert_node_keys:
  assumes "insert_node f addr val t = Inr t'"
  shows "keys t' = insert addr (keys t)"
  using assms
proof (induction t arbitrary: t')
  case Null
  then show ?case by (auto simp: create_avl_node_def)
next
  case (Node l a v b r)
  show ?case
  proof (cases "addr = a")
    case True
    then show ?thesis using Node.prems by auto
  next
    case False
    then show ?thesis
      using Node by (auto simp: gf_res split: if_splits dest!: rebalance_keys)
  qed
qed

lemma key_sorted_node:
  "key_sorted (inorder l @ (a, v) # inorder r) \<longleftrightarrow>
    key_sorted (inorder l) \<and> key_sorted (inorder r) \<and>
    (\<forall>k \<in> keys l. sint k < sint a) \<and> (\<forall>k \<in> keys r. sint a < sint k)"
  by (force simp: sorted_wrt_append keys_def)

lemma key_sorted_nodeD:
  assumes "key_sorted (inorder (Node l a v b r))"
  shows "key_sorted (inorder l)" and "key_sorted (inorder r)"
    and "k \<in> keys l \<Longrightarrow> sint k < sint a"
    and "k \<in> keys r \<Longrightarrow> sint a < sint k"
  using assms by (simp_all only: inorder.simps key_sorted_node bex_simps)

lemma sint_eq_iff: "sint (x :: ll) = sint y \<longleftrightarrow> x = y"
  by (metis signed_word_eqI)

lemma insert_node_sorted:
  assumes "insert_node f addr val t = Inr t'" and "key_sorted (inorder t)"
  shows "key_sorted (inorder t')"
  using assms
proof (induction t arbitrary: t')
  case Null
  then show ?case by (auto simp: create_avl_node_def)
next
  case (Node l a v b r)
  note k = key_sorted_nodeD [OF Node.prems(2)]
  consider "addr = a" | (l) "addr \<noteq> a" "sint addr < sint a" | (r) "addr \<noteq> a" "sint a < sint addr"
    using sint_eq_iff [of addr a] by linarith
  then show ?case
  proof cases
    case 1
    then have "t' = Node l a (f v) b r" using Node.prems by simp
    then show ?thesis using k by (simp only: inorder.simps key_sorted_node) auto
  next
    case l
    then obtain l' where l': "insert_node f addr val l = Inr l'" "rebalance (Node l' a v b r) = Inr t'"
      using Node.prems by (auto simp: gf_res)
    then show ?thesis
      using Node.IH(1) [OF l'(1) k(1)] insert_node_keys [OF l'(1)] k l
      by (simp only: rebalance_inorder [OF l'(2)] inorder.simps key_sorted_node) auto
  next
    case r
    then obtain r' where r': "insert_node f addr val r = Inr r'" "rebalance (Node l a v b r') = Inr t'"
      using Node.prems by (auto simp: gf_res)
    then show ?thesis
      using Node.IH(2) [OF r'(1) k(2)] insert_node_keys [OF r'(1)] k r
      by (simp only: rebalance_inorder [OF r'(2)] inorder.simps key_sorted_node) auto
  qed
qed

lemma avl_map_node:
  assumes "key_sorted (inorder (Node l a v b r))"
  shows "avl_map (Node l a v b r) k =
    (if k = a then Some v else if sint k < sint a then avl_map l k else avl_map r k)"
  using sorted_map_of [of "inorder l" a v "inorder r" k] assms by (simp add: avl_map_def)

lemma insert_node_map:
  assumes "insert_node f addr val t = Inr t'" and "key_sorted (inorder t)"
  shows "avl_map t' k = upsert f addr val (avl_map t) k"
  using assms
proof (induction t arbitrary: t')
  case Null
  then show ?case by (auto simp: create_avl_node_def avl_map_def upsert_def)
next
  case (Node l a v b r)
  note k = key_sorted_nodeD [OF Node.prems(2)]
  have s': "key_sorted (inorder t')" by (rule insert_node_sorted [OF Node.prems])
  consider "addr = a" | (l) "addr \<noteq> a" "sint addr < sint a" | (r) "addr \<noteq> a" "sint a < sint addr"
    using sint_eq_iff [of addr a] by linarith
  then show ?case
  proof cases
    case 1
    then have t': "t' = Node l a (f v) b r" using Node.prems by auto
    show ?thesis
      using 1 avl_map_node [OF s' [unfolded t']] avl_map_node [OF Node.prems(2)]
      unfolding t' by (auto simp: upsert_def)
  next
    case l
    then obtain l' where l': "insert_node f addr val l = Inr l'" "rebalance (Node l' a v b r) = Inr t'"
      using Node.prems by (auto simp: gf_res)
    have m: "avl_map t' = avl_map (Node l' a v b r)" and s: "key_sorted (inorder (Node l' a v b r))"
      using rebalance_inorder [OF l'(2)] s' by (simp_all add: avl_map_def)
    show ?thesis
      using l Node.IH(1) [OF l'(1) k(1)]
      by (auto simp: m avl_map_node [OF s] avl_map_node [OF Node.prems(2)] upsert_def split: option.splits)
  next
    case r
    then obtain r' where r': "insert_node f addr val r = Inr r'" "rebalance (Node l a v b r') = Inr t'"
      using Node.prems by (auto simp: gf_res)
    have m: "avl_map t' = avl_map (Node l a v b r')" and s: "key_sorted (inorder (Node l a v b r'))"
      using rebalance_inorder [OF r'(2)] s' by (simp_all add: avl_map_def)
    show ?thesis
      using r Node.IH(2) [OF r'(1) k(2)]
      by (auto simp: m avl_map_node [OF s] avl_map_node [OF Node.prems(2)] upsert_def split: option.splits)
  qed
qed

lemma insert_node_refines:
  assumes "avl_wf t"
  shows "\<exists>t'. insert_node f addr val t = Inr t' \<and> avl_wf t' \<and> t' \<noteq> Null \<and>
    avl_map t' = upsert f addr val (avl_map t)"
proof -
  obtain t' where t': "insert_node f addr val t = Inr t'" "heights_ok t'"
    using insert_node_ok [of t f addr val] assms by (auto simp: avl_wf_def)
  have "t' \<noteq> Null" using insert_node_keys [OF t'(1)] by auto
  then show ?thesis
    using t' insert_node_map [OF t'(1)] insert_node_sorted [OF t'(1)] assms
    by (auto simp: avl_wf_def fun_eq_iff)
qed

lemma search_node_refines:
  assumes "key_sorted (inorder t)" and "t \<noteq> Null"
  shows "search_node addr t = Inr (avl_map t addr)"
  using assms
proof (induction t)
  case Null
  then show ?case by simp
next
  case (Node l a v b r)
  note k = key_sorted_nodeD [OF Node.prems(1)]
  have e: "avl_map Null k = None" for k :: ll by (simp add: avl_map_def)
  show ?case
    using Node.IH(1) [OF k(1)] Node.IH(2) [OF k(2)] sint_eq_iff [of addr a]
    by (auto simp: avl_map_node [OF Node.prems(1)] e)
qed

lemma update_node_inorder:
  assumes "key_sorted (inorder t)"
  shows "inorder (update_node addr f t) = map (\<lambda>(k, v). (k, if k = addr then f v else v)) (inorder t)"
proof -
  have out: "map (\<lambda>(k, v). (k, if k = addr then f v else v)) zs = zs"
    if "\<forall>k \<in> fst ` set zs. k \<noteq> addr" for zs
    using that by (induction zs) auto
  show ?thesis using assms
  proof (induction t)
    case (Node l a v b r)
    note k = key_sorted_nodeD [OF Node.prems]
    have "sint addr \<ge> sint a \<Longrightarrow> map (\<lambda>(k, v). (k, if k = addr then f v else v)) (inorder l) = inorder l"
      by (rule out) (use k(3) in \<open>fastforce simp: keys_def\<close>)
    moreover have "sint addr \<le> sint a \<Longrightarrow> map (\<lambda>(k, v). (k, if k = addr then f v else v)) (inorder r) = inorder r"
      by (rule out) (use k(4) in \<open>fastforce simp: keys_def\<close>)
    ultimately show ?case
      using Node.IH(1) [OF k(1)] Node.IH(2) [OF k(2)] sint_eq_iff [of addr a] by auto
  qed simp
qed

lemma update_node_map:
  assumes "avl_wf t"
  shows "avl_map (update_node addr f t) = (avl_map t)(addr := map_option f (avl_map t addr))"
proof -
  have "map_of (map (\<lambda>(k, v). (k, if k = addr then f v else v)) ps) =
      (map_of ps)(addr := map_option f (map_of ps addr))" for ps
    by (induction ps) auto
  then show ?thesis using assms by (simp add: avl_map_def avl_wf_def update_node_inorder)
qed

lemma update_node_Null: "update_node addr f t = Null \<longleftrightarrow> t = Null"
  by (cases t) auto

lemma update_node_bal: "bal (update_node addr f t) = bal t"
  by (cases t) auto

lemma update_node_wf:
  assumes "avl_wf t"
  shows "avl_wf (update_node addr f t)"
proof -
  have "heights_ok (update_node addr f t)" if "heights_ok t" using that by (induction t) auto
  moreover have "map (\<lambda>p. sint (fst p)) (map (\<lambda>(k, v). (k, if k = addr then f v else v)) ps) =
      map (\<lambda>p. sint (fst p)) ps" for ps :: "(ll \<times> 'a) list" by (induction ps) auto
  ultimately show ?thesis using assms by (simp only: avl_wf_def update_node_inorder)
qed

lemma Null_wf: "avl_wf Null" "avl_map Null = (\<lambda>_. None)"
  by (simp_all add: avl_wf_def avl_map_def)

end
