(* ===== verification/Mem_Store.thy ===== *)
theory Mem_Store
  imports Mem_Avl
begin

text \<open>
  What the memory needs of its search tree: a locale with the laws of a map whose entries are
  added and changed but never removed, the operation ``change the node, or add a fresh one''
  on top of it, and the tree of \<^verbatim>\<open>utility.h\<close> as the provider.
\<close>

locale node_store =
  fixes nil :: 't and wf :: "'t \<Rightarrow> bool" and view :: "'t \<Rightarrow> 'k \<Rightarrow> 'v option"
    and ins :: "'k \<Rightarrow> 'v \<Rightarrow> 't \<Rightarrow> 't res" and find :: "'k \<Rightarrow> 't \<Rightarrow> 'v option res"
    and upd :: "'k \<Rightarrow> ('v \<Rightarrow> 'v) \<Rightarrow> 't \<Rightarrow> 't res"
  assumes wf_nil: "wf nil" and view_nil: "view nil = (\<lambda>_. None)"
    and ins: "wf t \<Longrightarrow> view t k = None \<Longrightarrow> \<exists>t'. ins k v t = Inr t' \<and> wf t' \<and> view t' = (view t)(k \<mapsto> v)"
    and find: "wf t \<Longrightarrow> find k t = Inr (view t k)"
    and upd: "wf t \<Longrightarrow> \<exists>t'. upd k f t = Inr t' \<and> wf t' \<and> view t' = (view t)(k := map_option f (view t k))"
begin

definition put :: "'v \<Rightarrow> 'k \<Rightarrow> ('v \<Rightarrow> 'v) \<Rightarrow> 't \<Rightarrow> 't res" where
  "put fresh k f t =
    res_bind (find k t) (\<lambda>old. if old = None then ins k (f fresh) t else upd k f t)"

definition contents :: "'v \<Rightarrow> 't \<Rightarrow> 'k \<Rightarrow> 'v" where
  "contents fresh t k = (case view t k of None \<Rightarrow> fresh | Some v \<Rightarrow> v)"

lemma put_total:
  assumes "wf t"
  shows "\<exists>t'. put fresh k f t = Inr t' \<and> wf t' \<and> view t' = (view t)(k \<mapsto> f (contents fresh t k))"
proof (cases "view t k")
  case None
  then show ?thesis using assms ins [of t k "f fresh"] by (auto simp: put_def find contents_def)
next
  case (Some v)
  then show ?thesis using assms upd [of t k f] by (auto simp: put_def find contents_def)
qed

lemma contents_put:
  assumes "wf t" and "put fresh k f t = Inr t'"
  shows "contents fresh t' j = (if j = k then f (contents fresh t k) else contents fresh t j)"
    and "wf t'"
  using put_total [OF assms(1), of fresh k f] assms(2) by (auto simp: contents_def)

end

text \<open>The guard \<^verbatim>\<open>dram_tree->data ? search_node(...) : 0\<close>.\<close>

definition find_node :: "ll \<Rightarrow> 'v avl \<Rightarrow> 'v option res" where
  "find_node addr t = (if t = Null then Inr None else search_node addr t)"

lemma find_node_refines: "avl_wf t \<Longrightarrow> find_node addr t = Inr (avl_map t addr)"
  by (simp add: find_node_def search_node_refines avl_wf_def Null_wf)

interpretation avl: node_store Null avl_wf avl_map insert_avl_node find_node "\<lambda>k f t. Inr (update_node k f t)"
proof (unfold_locales, goal_cases)
  case (3 t k v)
  then show ?case
    using insert_node_refines [OF 3(1), of "\<lambda>v. v" k v]
    by (auto simp: insert_avl_node_def upsert_def)
qed (simp_all add: Null_wf find_node_refines update_node_wf update_node_map)

definition put_node :: "'v \<Rightarrow> ll \<Rightarrow> ('v \<Rightarrow> 'v) \<Rightarrow> 'v avl \<Rightarrow> 'v avl res" where
  "put_node fresh k f t =
    res_bind (find_node k t) (\<lambda>old. if old = None then insert_avl_node k (f fresh) t else Inr (update_node k f t))"

definition node_at :: "'v \<Rightarrow> 'v avl \<Rightarrow> ll \<Rightarrow> 'v" where
  "node_at fresh t k = (case avl_map t k of None \<Rightarrow> fresh | Some v \<Rightarrow> v)"

lemma put_node_put: "put_node = avl.put"
  by (simp add: fun_eq_iff put_node_def avl.put_def)

lemma node_at_contents: "node_at = avl.contents"
  by (simp add: fun_eq_iff node_at_def avl.contents_def)

lemmas put_node_total = avl.put_total [folded put_node_put node_at_contents]
lemmas node_at_put = avl.contents_put [folded put_node_put node_at_contents]

end
