(* ===== verification/Mem_Dram.thy ===== *)
theory Mem_Dram
  imports Mem_Store Mem_Ecc Mem_Way
begin

text \<open>
  The memory of \<^verbatim>\<open>tools/pli/mem/mem.c\<close>: nodes of 144 nibbles (four banks of 32 data nibbles and
  four times four check nibbles) in a search tree, the list of address ranges declared to be
  zero, and the calls that read and write nodes. \<^verbatim>\<open>char\<close> is signed. The random numbers are the
  stream \<open>rnd\<close>; the state counts how many have been drawn. The call arguments that the
  simulator passes by \<^verbatim>\<open>tf_getp\<close> are arguments of the definitions, and the value that
  \<^verbatim>\<open>slam_memory\<close> hands to the simulator is a result.
\<close>

record state_node =
  sn_cval :: "u8 list"
  sn_bval :: "u8 list"

definition fresh_node :: state_node where
  "fresh_node = \<lparr>sn_cval = replicate 144 0xff, sn_bval = replicate 144 0xff\<rparr>"

subsection \<open>The queue of zero ranges\<close>

record Q_node =
  qn_begin :: ll
  qn_end :: ll
  qn_addr :: ll
  qn_range :: int

text \<open>\<^verbatim>\<open>next_ptr\<close> is the index of a node, or the null pointer.\<close>

record Q_head =
  q_nodes :: "Q_node list"
  q_next :: "nat option"

definition enqueue :: "Q_node \<Rightarrow> Q_head \<Rightarrow> Q_head" where
  "enqueue item q = q\<lparr>q_nodes := q_nodes q @ [item]\<rparr>"

definition setQ :: "Q_head \<Rightarrow> Q_head" where
  "setQ q = q\<lparr>q_next := (if q_nodes q = [] then None else Some 0)\<rparr>"

definition nextQ :: "Q_head \<Rightarrow> Q_node option \<times> Q_head" where
  "nextQ q = (case q_next q of
     None \<Rightarrow> (None, q)
   | Some i \<Rightarrow> (Some (q_nodes q ! i),
       q\<lparr>q_next := (if Suc i < length (q_nodes q) then Some (Suc i) else None)\<rparr>))"

subsection \<open>The memory\<close>

record dram =
  dm_data :: "state_node avl"
  dm_obj :: Q_head
  dm_obj_on :: bool
  dm_spill :: bool
  dm_prev_addr :: ll
  dm_prev :: bool                 \<comment> \<open>\<^verbatim>\<open>prev_ptr\<close> is set, and then to the node at \<^verbatim>\<open>prev_addr\<close>\<close>
  dm_error :: int
  dm_error_counter :: int
  dm_error_percent :: int
  dm_taken :: int
  dm_not_taken :: int
  dm_alist :: "ll list"
  dm_cptr :: nat
  dm_fp :: string                 \<comment> \<open>what was written to the spill file\<close>
  dm_slam_val :: bool
  dm_type :: dtype
  dm_ch2 :: bool
  dm_drawn :: nat                 \<comment> \<open>random numbers drawn so far\<close>

type_synonym stream = "nat \<Rightarrow> nat"

definition random :: "stream \<Rightarrow> dram \<Rightarrow> nat \<times> dram" where
  "random rnd dm = (rnd (dm_drawn dm), dm\<lparr>dm_drawn := Suc (dm_drawn dm)\<rparr>)"

definition in_zero_range :: "ll \<Rightarrow> Q_node \<Rightarrow> bool" where
  "in_zero_range addr node \<longleftrightarrow> sint addr \<ge> sint (qn_begin node) \<and> sint addr < sint (qn_end node)"

text \<open>The loop over the queue; the fuel is its length.\<close>

fun zero_loop :: "nat \<Rightarrow> ll \<Rightarrow> Q_head \<Rightarrow> bool \<times> Q_head" where
  "zero_loop 0 addr q = (False, q)"
| "zero_loop (Suc n) addr q =
    (case nextQ q of
       (None, q') \<Rightarrow> (False, q')
     | (Some node, q') \<Rightarrow> if in_zero_range addr node then (True, q') else zero_loop n addr q')"

definition check_zero_byte :: "ll \<Rightarrow> dram \<Rightarrow> bool \<times> dram" where
  "check_zero_byte addr dm =
    (if dm_obj_on dm
     then (let (found, q) = zero_loop (Suc (length (q_nodes (dm_obj dm)))) addr (setQ (dm_obj dm))
           in (found, dm\<lparr>dm_obj := q\<rparr>))
     else (False, dm))"

subsection \<open>Cells of a node\<close>

fun put_cells :: "nat \<Rightarrow> u8 list \<Rightarrow> state_node \<Rightarrow> state_node" where
  "put_cells start [] nd = nd"
| "put_cells start (v # vs) nd =
    put_cells (Suc start) vs (nd\<lparr>sn_cval := (sn_cval nd)[start := v], sn_bval := (sn_bval nd)[start := 0]\<rparr>)"

text \<open>Sixteen cells from the nibbles \<^verbatim>\<open>buf[15]\<close> to \<^verbatim>\<open>buf[0]\<close>.\<close>

definition put_nibbles :: "nat \<Rightarrow> u8 list \<Rightarrow> state_node \<Rightarrow> state_node" where
  "put_nibbles start buf = put_cells start (map (\<lambda>i. buf ! (15 - i) AND 0xf) [0..<16])"

text \<open>Nibbles of eight bytes, the high one first.\<close>

definition split_bytes :: "u8 list \<Rightarrow> u8 list" where
  "split_bytes bytes = concat (map (\<lambda>b. [drop_bit 4 b AND 0xf, b AND 0xf]) bytes)"

definition fill_bank :: "nat \<Rightarrow> u8 list \<Rightarrow> u8 list \<Rightarrow> state_node \<Rightarrow> state_node" where
  "fill_bank bank d_buf ecc nd =
    put_cells (128 + bank * 4) ecc
      (put_nibbles (bank * 32 + 16) (split_bytes (drop 8 d_buf))
        (put_nibbles (bank * 32) (split_bytes (take 8 d_buf)) nd))"

text \<open>\<^verbatim>\<open>handle / 32\<close>, and the bank of a check nibble.\<close>

definition handle_bank :: "nat \<Rightarrow> nat" where
  "handle_bank handle = (if handle div 32 = 4 then (handle - 128) div 4 else handle div 32)"

text \<open>The sixteen bytes of memory nobody has written.\<close>

fun random_bytes :: "stream \<Rightarrow> nat \<Rightarrow> dram \<Rightarrow> u8 list \<times> dram" where
  "random_bytes rnd 0 dm = ([], dm)"
| "random_bytes rnd (Suc n) dm =
    (let (r, dm1) = random rnd dm; (bs, dm2) = random_bytes rnd n dm1
     in ((word_of_nat r AND 0xff) # bs, dm2))"

definition ram_data :: "stream \<Rightarrow> bool \<Rightarrow> dram \<Rightarrow> u8 list \<times> dram" where
  "ram_data rnd byte_on dm =
    (if dm_slam_val dm \<and> \<not> byte_on then random_bytes rnd 16 dm else (replicate 16 0, dm))"

definition uninitialised :: "nat \<Rightarrow> state_node \<Rightarrow> bool" where
  "uninitialised bank nd \<longleftrightarrow> sn_bval nd ! (bank * 32) = 0xff"

definition line_ecc :: "u8 list \<Rightarrow> ll \<Rightarrow> u8 list" where
  "line_ecc d_buf addr = addr_parity (hamming d_buf) addr 6 0"

definition store_op :: "stream \<Rightarrow> ll \<Rightarrow> nat \<Rightarrow> dram \<Rightarrow> dram res" where
  "store_op rnd addr handle dm0 =
    res_bind (search_node addr (dm_data dm0)) (\<lambda>t_ptr.
      let (byte_on, dm1) = check_zero_byte addr dm0; bank = handle_bank handle
      in if (case t_ptr of None \<Rightarrow> True | Some nd \<Rightarrow> uninitialised bank nd) then
           (let (d_buf, dm2) = ram_data rnd byte_on dm1;
                ecc = line_ecc d_buf (dexor_op (dm_type dm2) (dm_ch2 dm2) addr)
            in res_bind (put_node fresh_node addr (fill_bank bank d_buf ecc) (dm_data dm2)) (\<lambda>t.
               Inr (dm2\<lparr>dm_data := t\<rparr>)))
         else Inr dm1)"

text \<open>\<^verbatim>\<open>byte_on\<close> is not initialised by the caller of \<^verbatim>\<open>store_no_search\<close>.\<close>

definition store_no_search :: "stream \<Rightarrow> ll \<Rightarrow> nat \<Rightarrow> dram \<Rightarrow> dram res" where
  "store_no_search rnd addr handle dm =
    (let bank = handle_bank handle in
     case avl_map (dm_data dm) addr of
       None \<Rightarrow> Inl Undefined
     | Some nd \<Rightarrow>
         if \<not> uninitialised bank nd then Inr dm
         else if dm_slam_val dm then Inl Undefined
         else (let d_buf = replicate 16 0;
                   ecc = line_ecc d_buf (dexor_no_search (dm_type dm) (dm_ch2 dm) addr)
               in Inr (dm\<lparr>dm_data := update_node addr (fill_bank bank d_buf ecc) (dm_data dm)\<rparr>)))"

subsection \<open>Reading a nibble, with injected errors\<close>

definition percent :: "stream \<Rightarrow> dram \<Rightarrow> bool \<times> dram" where
  "percent rnd dm0 =
    (if dm_error_percent dm0 = 0 then (False, dm0) else
     let (r, dm) = random rnd dm0; num = int (r mod 100);
         (ret, dm1) =
           (if num > dm_error_percent dm then
              (if dm_not_taken dm = 100 - dm_error_percent dm
               then (True, dm\<lparr>dm_taken := dm_taken dm + 1\<rparr>)
               else (False, dm\<lparr>dm_not_taken := dm_not_taken dm + 1\<rparr>))
            else
              (if dm_taken dm = dm_error_percent dm
               then (False, dm\<lparr>dm_not_taken := dm_not_taken dm + 1\<rparr>)
               else (True, dm\<lparr>dm_taken := dm_taken dm + 1\<rparr>)));
         dm2 = (if dm_taken dm1 + dm_not_taken dm1 = 100
                then dm1\<lparr>dm_taken := 0, dm_not_taken := 0\<rparr> else dm1)
     in (ret, dm2))"

definition flip :: "nat \<Rightarrow> u8 \<Rightarrow> u8" where
  "flip num c = c XOR push_bit num 1"

definition inject_error :: "stream \<Rightarrow> u8 \<Rightarrow> dram \<Rightarrow> u8 \<times> dram" where
  "inject_error rnd c dm =
    (if dm_error dm = 1 then
       (if dm_error_counter dm \<noteq> 0 then (c, dm) else
        case percent rnd dm of
          (False, dm1) \<Rightarrow> (c, dm1)
        | (True, dm1) \<Rightarrow>
            (let (r, dm2) = random rnd dm1; num = r mod 4; c1 = flip num c; (b, dm3) = random rnd dm2;
                 (c2, dm4) =
                   (if odd b then
                      (let (r', dm') = random rnd dm3; num1 = r' mod 4;
                           num1 = (if num = num1 then (if num1 + 1 = 4 then 2 else num1 + 1) else num1)
                       in (flip num1 c1, dm'))
                    else (c1, dm3))
             in (c2, dm4\<lparr>dm_error_counter := 1\<rparr>)))
     else if dm_error dm = 2 then
       (if dm_error_counter dm \<ge> 2 then (c, dm) else
        case percent rnd dm of
          (False, dm1) \<Rightarrow> (c, dm1)
        | (True, dm1) \<Rightarrow>
            (let (r, dm2) = random rnd dm1
             in (flip (r mod 4) c, dm2\<lparr>dm_error_counter := dm_error_counter dm2 + 1\<rparr>)))
     else if dm_error dm = 3 then
       (case percent rnd dm of
          (False, dm1) \<Rightarrow> (c, dm1)
        | (True, dm1) \<Rightarrow> (let (r, dm2) = random rnd dm1 in (flip (r mod 4) c, dm2)))
     else (c, dm))"

text \<open>Four groups of 144 handles; the group is part of the node number.\<close>

definition decode_handle :: "nat \<Rightarrow> ll \<Rightarrow> nat \<times> ll" where
  "decode_handle handled addr =
    (if handled < 288 \<and> handled \<ge> 144 then (handled - 144, addr OR push_bit 28 2)
     else if handled < 432 \<and> handled \<ge> 288 then (handled - 288, addr OR push_bit 28 4)
     else if handled \<ge> 432 then (handled - 432, addr OR push_bit 28 6)
     else (handled, addr))"

text \<open>The result: what the simulator gets, unless the memory only spills.\<close>

definition read_mem_call :: "stream \<Rightarrow> nat \<Rightarrow> ll \<Rightarrow> dram \<Rightarrow> ((u8 \<times> u8) option \<times> dram) res" where
  "read_mem_call rnd handled0 addr0 dm =
    (if dm_spill dm then Inr (None, dm) else
     let (handled, addr) = decode_handle handled0 addr0 in
     if handled \<ge> 144 then Inl Undefined else
     res_bind
       (if dm_prev dm \<and> dm_prev_addr dm = addr then store_no_search rnd addr handled dm
        else res_bind (store_op rnd addr handled dm) (\<lambda>dm1.
          Inr (dm1\<lparr>dm_prev_addr := addr, dm_prev := True, dm_error_counter := 0\<rparr>)))
       (\<lambda>dm1. case avl_map (dm_data dm1) addr of
          None \<Rightarrow> Inl Undefined
        | Some nd \<Rightarrow>
            (let ch_temp = sn_cval nd ! handled; (ch, dm2) = inject_error rnd ch_temp dm1;
                 t = update_node addr (\<lambda>n. n\<lparr>sn_cval := (sn_cval n)[handled := ch]\<rparr>) (dm_data dm2);
                 out = (sn_cval (node_at fresh_node t addr) ! handled, sn_bval nd ! handled);
                 t' = update_node addr (\<lambda>n. n\<lparr>sn_cval := (sn_cval n)[handled := ch_temp]\<rparr>) t
             in Inr (Some out, dm2\<lparr>dm_data := t'\<rparr>))))"

text \<open>\<open>c\<close> and \<open>b\<close> are what \<^verbatim>\<open>dump_memory\<close> reads from the simulator.\<close>

definition write_mem_call :: "nat \<Rightarrow> ll \<Rightarrow> u8 \<Rightarrow> u8 \<Rightarrow> dram \<Rightarrow> dram res" where
  "write_mem_call handle0 addr0 c b dm =
    (if dm_spill dm then Inr dm else
     let (handle, addr) = decode_handle handle0 addr0;
         put = (\<lambda>n. n\<lparr>sn_cval := (sn_cval n)[handle := c], sn_bval := (sn_bval n)[handle := b]\<rparr>)
     in if handle \<ge> 144 then Inl Undefined
        else if dm_data dm = Null then Inl Undefined
        else res_bind (put_node fresh_node addr put (dm_data dm)) (\<lambda>t. Inr (dm\<lparr>dm_data := t\<rparr>)))"

subsection \<open>Doublewords\<close>

definition get_word :: "nat \<Rightarrow> state_node \<Rightarrow> u64" where
  "get_word bank nd =
    fold (\<lambda>i_bank word. push_bit 4 word OR (ucast (sn_cval nd ! (bank + i_bank)) AND 0xf)) (rev [0..<16]) 0"

definition half_bank :: "u64 \<Rightarrow> nat \<Rightarrow> nat" where
  "half_bank addr bank = (if addr AND 0x8 \<noteq> 0 then bank + 16 else bank)"

definition access_dram_call :: "u64 \<Rightarrow> dram \<Rightarrow> u64 res" where
  "access_dram_call addr dm =
    res_bind (access_way (dm_type dm) addr) (\<lambda>(d_way, bank_s, bank).
    res_bind (find_node d_way (dm_data dm)) (\<lambda>t_ptr.
      Inr (case t_ptr of None \<Rightarrow> 0 | Some nd \<Rightarrow> get_word (half_bank addr bank) nd)))"

end
