(* ===== verification/Mem_Text.thy ===== *)
theory Mem_Text
  imports Gf_Split
begin

text \<open>Lines of text and the numbers in them, as both readers of \<^verbatim>\<open>mem.image\<close> take them apart.\<close>

definition BUFFER :: nat where "BUFFER = 1024"

abbreviation NUL :: char where "NUL \<equiv> CHR 0x00"
abbreviation LF :: char where "LF \<equiv> CHR 0x0A"
abbreviation SPACE :: char where "SPACE \<equiv> CHR 0x20"

definition char_at :: "string \<Rightarrow> nat \<Rightarrow> char" where
  "char_at buf i = (if i < length buf then buf ! i else NUL)"

definition line_end :: "char \<Rightarrow> bool" where
  "line_end c \<longleftrightarrow> c = LF \<or> c = NUL"

definition strlen :: "string \<Rightarrow> nat" where
  "strlen buf = length (takeWhile (\<lambda>c. c \<noteq> NUL) buf)"

text \<open>\<^verbatim>\<open>strncmp(buf + i, s, strlen(s)) == 0\<close>\<close>

definition has_prefix :: "string \<Rightarrow> string \<Rightarrow> nat \<Rightarrow> bool" where
  "has_prefix s buf i \<longleftrightarrow> take (length s) (drop i buf) = s"

subsection \<open>Words of a line\<close>

definition remove_leading_space :: "string \<Rightarrow> nat \<Rightarrow> nat option" where
  "remove_leading_space buf index =
    (let i = index + length (takeWhile (\<lambda>c. c = SPACE \<or> c = CHR 0x09) (drop index buf))
     in if line_end (char_at buf i) then None else Some i)"

definition token_at :: "string \<Rightarrow> nat \<Rightarrow> string" where
  "token_at buf i = takeWhile (\<lambda>c. c \<noteq> SPACE \<and> \<not> line_end c) (drop i buf)"

definition hex_value :: "char \<Rightarrow> u8" where
  "hex_value c = (let v = (of_char c :: u8) in if 57 <s v then (v AND 0xf) + 9 else v AND 0xf)"

definition ato_long :: "string \<Rightarrow> nat \<Rightarrow> u64" where
  "ato_long buf i = foldl (\<lambda>val c. push_bit 4 val OR scast (hex_value c)) 0 (token_at buf i)"

text \<open>At most eight characters, so that the number is in the range of \<^verbatim>\<open>int\<close>.\<close>

definition is_digit :: "char \<Rightarrow> bool" where
  "is_digit c \<longleftrightarrow> 48 \<le> (of_char c :: nat) \<and> (of_char c :: nat) \<le> 57"

definition decimal :: "string \<Rightarrow> int" where
  "decimal s = foldl (\<lambda>n c. 10 * n + int (of_char c) - 48) 0
    (takeWhile is_digit s)"

definition atoi :: "string \<Rightarrow> int" where
  "atoi s0 = (let s = dropWhile is_space s0 in
     if s \<noteq> [] \<and> hd s = CHR ''-'' then - decimal (tl s)
     else if s \<noteq> [] \<and> hd s = CHR ''+'' then decimal (tl s) else decimal s)"

definition mask_value :: "nat \<Rightarrow> u64 \<Rightarrow> u64" where
  "mask_value width val = val AND NOT (push_bit width (NOT 0))"

end
