(* ===== verification/Mem_Load.thy ===== *)
theory Mem_Load
  imports Mem_Dram Mem_Text
begin

text \<open>
  The loader of \<^verbatim>\<open>mem.image\<close> (\<^verbatim>\<open>build_rdram\<close> of \<^verbatim>\<open>tools/pli/mem/mem.c\<close>). The line buffer is the
  array of 1024 characters that the C code has, with what earlier lines left in it: a line
  ends at the first NUL or line feed. An access outside of an array is \<open>Undefined\<close>.
\<close>

subsection \<open>Spilling for the other simulator\<close>

definition check_alist :: "ll \<Rightarrow> dram \<Rightarrow> bool \<times> dram" where
  "check_alist addr dm =
    (if addr \<in> set (take 4 (dm_alist dm)) then (False, dm)
     else (True, dm\<lparr>dm_alist := (dm_alist dm)[dm_cptr dm := addr],
                    dm_cptr := (if dm_cptr dm = 3 then 0 else dm_cptr dm + 1)\<rparr>))"

fun plain_hex :: "nat \<Rightarrow> string" where
  "plain_hex n = (if n < 16 then [hex_digit n] else plain_hex (n div 16) @ [hex_digit (n mod 16)])"

definition byte_digits :: "u8 \<Rightarrow> string" where
  "byte_digits b = [hex_digit (unat b div 16), hex_digit (unat b mod 16)]"

definition denali_line :: "ll \<Rightarrow> u8 list \<Rightarrow> u8 list \<Rightarrow> string" where
  "denali_line addr d_buf ecc =
    [CHR 0x27, CHR ''h''] @ plain_hex (unat (addr AND 0xfffffffff)) @ ''/'' @
    concat (map (\<lambda>i. plain_hex (unat (d_buf ! i AND 0xf))) [1, 0, 3, 2]) @
    concat (map byte_digits ecc) @ '';'' @ [LF]"

text \<open>The line address after bank hashing; only addresses below a bound are spilled.\<close>

definition denali_addr :: "ll \<Rightarrow> ll" where
  "denali_addr addr = drop_bit 4 (bank_hash 8 7 0xfffffff8ff (addr AND 0xffffffffff)) AND 0xfffffffff"

definition spilled :: "ll \<Rightarrow> bool" where
  "spilled addr \<longleftrightarrow> drop_bit 28 addr AND 0xfff < 0x200"

definition ch2_bit :: "dram \<Rightarrow> nat" where
  "ch2_bit dm = (if dm_ch2 dm then 1 else 0)"

fun denali_data :: "nat \<Rightarrow> ll \<Rightarrow> dram \<Rightarrow> dram" where
  "denali_data 0 addr dm = dm"
| "denali_data (Suc n) addr dm =
    (let ecc = replicate 16 0; d_buf = addr_parity (hamming ecc) addr 0 (ch2_bit dm); a = denali_addr addr;
         dm' = (if spilled addr then
                  (let (isnew, dm1) = check_alist a dm
                   in if isnew then dm1\<lparr>dm_fp := dm_fp dm1 @ denali_line a d_buf ecc\<rparr> else dm1)
                else dm)
     in denali_data n (addr + 16) dm')"

subsection \<open>Comments\<close>

text \<open>
  A comment may declare a range of zeros behind the current address. The result tells whether
  there is a comment.
\<close>

definition check_single_comment :: "nat \<Rightarrow> string \<Rightarrow> u64 \<Rightarrow> dram \<Rightarrow> (bool \<times> u64 \<times> dram) res" where
  "check_single_comment idx buf addr dm =
    (if \<not> has_prefix ''//'' buf idx then Inr (False, addr, dm) else
     case remove_leading_space buf (idx + 2) of
       None \<Rightarrow> Inl Undefined
     | Some i \<Rightarrow>
         if \<not> has_prefix ''zero_bytes'' buf i then Inr (True, addr, dm)
         else (case remove_leading_space buf (i + 10) of
           None \<Rightarrow> Inl Undefined
         | Some j \<Rightarrow>
             if length (token_at buf j) > 8 then Inl Undefined
             else
               (let range = atoi (token_at buf j); stop = addr + word_of_int range in
                res_bind (load_way (dm_type dm) addr) (\<lambda>(begin', _, _).
                res_bind (load_way (dm_type dm) stop) (\<lambda>(end', _, _).
                  let item = \<lparr>qn_begin = begin', qn_end = end', qn_addr = addr, qn_range = range\<rparr>;
                      dm1 = dm\<lparr>dm_obj := enqueue item (dm_obj dm), dm_obj_on := True\<rparr>
                  in Inr (True, stop,
                       if dm_spill dm1 then denali_data (nat ((range + 15) div 16)) addr dm1 else dm1))))))"

subsection \<open>Doublewords\<close>

record loader =
  ld_dram :: dram
  ld_addr :: u64
  ld_d_buf :: "u8 list"
  ld_d_ind :: nat
  ld_num_bit :: nat
  ld_ecc :: "u8 option list"      \<comment> \<open>\<open>None\<close> is not initialised\<close>

definition convert_a2b :: "string \<Rightarrow> loader \<Rightarrow> loader res" where
  "convert_a2b token ld =
    (if ld_d_ind ld + length token > BUFFER then Inl Undefined
     else Inr (ld\<lparr>
       ld_d_buf := take (ld_d_ind ld) (ld_d_buf ld) @ map hex_value token @
         drop (ld_d_ind ld + length token) (ld_d_buf ld),
       ld_d_ind := ld_d_ind ld + length token,
       ld_num_bit := ld_num_bit ld + 4 * length token\<rparr>))"

definition got_ecc :: "state_node \<Rightarrow> nat \<Rightarrow> u8 list" where
  "got_ecc nd bank =
    map (\<lambda>idx. let i = (if idx < 8 then bank - 16 + 2 * (7 - idx) else bank + 2 * (15 - idx))
               in push_bit 4 (sn_cval nd ! (i + 1)) OR sn_cval nd ! i) [0..<16]"

definition ecc_bank :: "dtype \<Rightarrow> nat \<Rightarrow> nat" where
  "ecc_bank wh bank_s =
    (if dtype_bit wh 0x20 then 128 + 8 + bank_s * 4
     else if dtype_bit wh 0x8000 then (if bank_s = 0 then 128 else 128 + 3 * 4)
     else if dtype_bit wh 0x4000 then (if bank_s = 0 then 128 + 2 * 4 else 128 + 4)
     else 128 + bank_s * 4)"

text \<open>The eight bytes of the doubleword in \<^verbatim>\<open>d_buf\<close> enter \<^verbatim>\<open>ecc\<close>.\<close>

definition ecc_bytes :: "u8 list \<Rightarrow> nat \<Rightarrow> u8 option list \<Rightarrow> u8 option list" where
  "ecc_bytes d_buf i_bank ecc =
    take i_bank ecc @ map (\<lambda>j. Some (d_buf ! (j * 2 + 1) OR push_bit 4 (d_buf ! (j * 2)))) [0..<8] @
    drop (i_bank + 8) ecc"

text \<open>The node before the doubleword (\<^verbatim>\<open>t_ptr\<close>), and \<^verbatim>\<open>already\<close>, which a new node leaves unset.\<close>

definition place_nibbles :: "ll \<Rightarrow> nat \<Rightarrow> loader \<Rightarrow> (state_node option \<times> bool option \<times> loader) res" where
  "place_nibbles d_way bank ld =
    (let dm = ld_dram ld in
     res_bind (find_node d_way (dm_data dm)) (\<lambda>t_ptr.
     case t_ptr of
       None \<Rightarrow>
         res_bind (insert_avl_node d_way (put_nibbles bank (ld_d_buf ld) fresh_node) (dm_data dm)) (\<lambda>t.
           Inr (None, None, ld\<lparr>ld_dram := dm\<lparr>dm_data := t\<rparr>, ld_d_ind := ld_d_ind ld - 16\<rparr>))
     | Some nd \<Rightarrow>
         if sint (sn_cval nd ! bank) = 255 \<and> sint (sn_bval nd ! bank) = 255
         then Inr (Some nd, Some True, ld)
         else Inr (Some (put_nibbles bank (ld_d_buf ld) nd), Some False,
           ld\<lparr>ld_dram := dm\<lparr>dm_data := update_node d_way (put_nibbles bank (ld_d_buf ld)) (dm_data dm)\<rparr>,
              ld_d_ind := ld_d_ind ld - 16\<rparr>)))"

text \<open>The end of a line of sixteen bytes: its check nibbles.\<close>

definition finish_line ::
  "dtype \<Rightarrow> ll \<Rightarrow> nat \<Rightarrow> nat \<Rightarrow> state_node option \<Rightarrow> bool option \<Rightarrow> loader \<Rightarrow> loader res" where
  "finish_line wh d_way bank_s bank t_ptr already ld =
    (let dm = ld_dram ld;
         ecc = (if dm_spill dm then ld_ecc ld
                else case t_ptr of Some nd \<Rightarrow> map Some (got_ecc nd bank) | None \<Rightarrow> ld_ecc ld)
     in if None \<in> set ecc then Inl Undefined else
        let bytes = map the ecc; parity = addr_parity (hamming bytes) (ld_addr ld) 0 (ch2_bit dm);
            ld1 = ld\<lparr>ld_ecc := ecc, ld_d_buf := parity @ drop 4 (ld_d_buf ld)\<rparr>;
            a = denali_addr (ld_addr ld)
        in if \<not> dm_spill dm then
             (case already of
                None \<Rightarrow> Inl Undefined
              | Some skip \<Rightarrow>
                  Inr (if skip then ld1
                       else ld1\<lparr>ld_dram := dm\<lparr>dm_data :=
                         update_node d_way (put_cells (ecc_bank wh bank_s) parity) (dm_data dm)\<rparr>\<rparr>))
           else if spilled (ld_addr ld) then
             (let (isnew, dm1) = check_alist a dm
              in if isnew \<or> (\<exists>b \<in> set bytes. b \<noteq> 0)
                 then Inr (ld1\<lparr>ld_dram := dm1\<lparr>dm_fp := dm_fp dm1 @ denali_line a parity bytes\<rparr>\<rparr>)
                 else Inr (ld1\<lparr>ld_dram := dm1\<rparr>))
           else Inr ld1)"

definition store_doubleword :: "dtype \<Rightarrow> loader \<Rightarrow> loader res" where
  "store_doubleword wh ld0 =
    (let addr = ld_addr ld0 in
     res_bind (load_way wh addr) (\<lambda>(d_way, bank_s, bank0).
       let bank = half_bank addr bank0; second = (addr AND 0x8 \<noteq> 0) in
       res_bind
         (if dm_spill (ld_dram ld0) then Inr (None, None, ld0\<lparr>ld_d_ind := ld_d_ind ld0 - 16\<rparr>)
          else place_nibbles d_way bank ld0) (\<lambda>(t_ptr, already, ld1).
       let ld2 = ld1\<lparr>ld_ecc := ecc_bytes (ld_d_buf ld1) (if second then 8 else 0) (ld_ecc ld1)\<rparr> in
       res_bind (if second then finish_line wh d_way bank_s bank t_ptr already ld2 else Inr ld2) (\<lambda>ld3.
         Inr (ld3\<lparr>ld_addr := addr + 8, ld_num_bit := ld_num_bit ld3 - 64\<rparr>)))))"

function store_loop :: "dtype \<Rightarrow> string \<Rightarrow> nat \<Rightarrow> loader \<Rightarrow> loader res" where
  "store_loop wh buf index ld =
    (case remove_leading_space buf index of
       None \<Rightarrow> Inr ld
     | Some i \<Rightarrow>
         res_bind (check_single_comment i buf (ld_addr ld) (ld_dram ld)) (\<lambda>(found, addr, dm).
         let ld1 = ld\<lparr>ld_addr := addr, ld_dram := dm\<rparr> in
         if found then Inr ld1
         else res_bind (convert_a2b (token_at buf i) ld1) (\<lambda>ld2.
              res_bind (if ld_num_bit ld2 \<ge> 64 then store_doubleword wh ld2 else Inr ld2) (\<lambda>ld3.
              store_loop wh buf (i + length (token_at buf i)) ld3))))"
  by pat_completeness auto

lemma remove_leading_space_Some:
  assumes "remove_leading_space buf index = Some i"
  shows "index \<le> i" and "i < length buf" and "buf ! i \<noteq> SPACE" and "\<not> line_end (buf ! i)"
proof -
  let ?b = "\<lambda>c. c = SPACE \<or> c = CHR 0x09" and ?d = "drop index buf"
  have i: "i = index + length (takeWhile ?b ?d)" and e: "\<not> line_end (char_at buf i)"
    using assms by (auto simp: remove_leading_space_def Let_def split: if_splits)
  then show 1: "index \<le> i" "i < length buf" by (auto simp: char_at_def line_end_def split: if_splits)
  then have "length (takeWhile ?b ?d) < length ?d" using i by simp
  then have "\<not> ?b (?d ! length (takeWhile ?b ?d))" by (rule nth_length_takeWhile)
  moreover have "buf ! i = ?d ! length (takeWhile ?b ?d)" using i 1 by simp
  ultimately show "buf ! i \<noteq> SPACE" by simp
  show "\<not> line_end (buf ! i)" using e 1 by (simp add: char_at_def)
qed

lemma token_at_nonempty:
  assumes "remove_leading_space buf index = Some i"
  shows "token_at buf i \<noteq> []"
  using remove_leading_space_Some [OF assms]
  by (simp add: token_at_def takeWhile_eq_Nil_iff hd_drop_conv_nth)

lemma token_end:
  assumes "remove_leading_space buf index = Some i"
  shows "index < i + length (token_at buf i)" and "index < length buf"
proof -
  have "0 < length (token_at buf i)" using token_at_nonempty [OF assms] by simp
  then show "index < i + length (token_at buf i)" using remove_leading_space_Some(1) [OF assms] by linarith
  show "index < length buf" using remove_leading_space_Some(1,2) [OF assms] by linarith
qed

termination store_loop
  by (relation "measure (\<lambda>(wh, buf, index, ld). length buf - index)")
    (auto intro!: diff_less_mono2 token_end)

declare store_loop.simps [simp del]

text \<open>\<^verbatim>\<open>ch2\<close> is a global variable, set here and read by later calls.\<close>

definition store_into_rdram :: "dtype \<Rightarrow> string \<Rightarrow> nat \<Rightarrow> loader \<Rightarrow> loader res" where
  "store_into_rdram wh buf index ld =
    store_loop wh buf index (ld\<lparr>ld_dram := (ld_dram ld)\<lparr>dm_ch2 := two_channel wh\<rparr>\<rparr>)"

subsection \<open>Filling up lines\<close>

text \<open>\<^verbatim>\<open>buf[i] = c\<close>\<close>

definition poke :: "nat \<Rightarrow> char \<Rightarrow> string \<Rightarrow> string res" where
  "poke i c buf = (if i < length buf then Inr (buf[i := c]) else Inl Undefined)"

text \<open>How many digits a line has, up to 64, and where they end.\<close>

fun count_digits :: "string \<Rightarrow> nat \<Rightarrow> nat \<Rightarrow> nat \<times> nat" where
  "count_digits [] ind num = (ind, num)"
| "count_digits (c # cs) ind num =
    (if num \<ge> 64 then (ind, num)
     else if c = SPACE then count_digits cs (Suc ind) num
     else if line_end c then (ind, num)
     else count_digits cs (Suc ind) (Suc num))"

text \<open>Writes digits \<open>num\<close> to \<open>num + n - 1\<close>, with a space in front of every sixteenth.\<close>

fun put_zeros :: "bool \<Rightarrow> nat \<Rightarrow> nat \<Rightarrow> nat \<Rightarrow> string \<Rightarrow> (nat \<times> string) res" where
  "put_zeros first 0 num ind buf = Inr (ind, buf)"
| "put_zeros first (Suc n) num ind buf =
    res_bind (if num mod 16 = 0 \<and> (first \<or> num \<noteq> 0)
              then res_bind (poke ind SPACE buf) (\<lambda>b. Inr (Suc ind, b)) else Inr (ind, buf)) (\<lambda>(ind1, buf1).
    res_bind (poke ind1 (CHR ''0'') buf1) (\<lambda>buf2.
    put_zeros first n (Suc num) (Suc ind1) buf2))"

text \<open>
  If the line is empty, the character in front of the array is read; \<open>prior\<close> is what stands
  there. If it is a space, the function writes there, too.
\<close>

definition padding :: "char \<Rightarrow> string \<Rightarrow> nat \<Rightarrow> string res" where
  "padding prior buf index =
    (let (ind, num) = count_digits (drop index buf) index 0 in
     if num \<ge> 64 then Inr buf
     else if ind = 0 \<and> prior = SPACE then Inl Undefined
     else res_bind (put_zeros True (64 - num) num
            (if ind \<noteq> 0 \<and> buf ! (ind - 1) = SPACE then ind - 1 else ind) buf) (\<lambda>(ind', buf').
          poke ind' LF buf'))"

definition padding_front :: "string \<Rightarrow> nat \<Rightarrow> string res" where
  "padding_front buf tot =
    res_bind (put_zeros False tot 0 0 buf) (\<lambda>(ind, buf'). poke ind LF buf')"

text \<open>\<^verbatim>\<open>for(ind = 0; ind < len; ind++)buf[shift + ind] = buf[ind]\<close>, then a line feed\<close>

fun shift_up :: "nat \<Rightarrow> nat \<Rightarrow> nat \<Rightarrow> string \<Rightarrow> string res" where
  "shift_up shift 0 ind buf = poke (shift + ind) LF buf"
| "shift_up shift (Suc n) ind buf =
    res_bind (poke (shift + ind) (buf ! ind) buf) (\<lambda>buf'. shift_up shift n (Suc ind) buf')"

definition padding_zero :: "string \<Rightarrow> u64 \<Rightarrow> (string \<times> u64) res" where
  "padding_zero buf addr =
    (if addr AND 0x3f = 0 then Inr (buf, addr) else
     let fill = unat (addr AND 0x3f); spc = fill div 8; addr' = (addr OR 0x3f) XOR 0x3f; len = strlen buf
     in if len \<ge> length buf then Inl Undefined
        else res_bind (shift_up (2 * fill + spc) len 0 buf) (\<lambda>buf1.
             res_bind (put_zeros False (2 * fill) 0 0 buf1) (\<lambda>(ind, buf2).
             res_bind (poke ind SPACE buf2) (\<lambda>buf3. Inr (buf3, addr')))))"

subsection \<open>The file\<close>

text \<open>
  An address: the digits behind an at sign. If the line has a slash, it is cut behind the last
  decimal digit in front of it. The results: the buffer, the address, the place of the slash.
\<close>

definition cut_at_slash :: "string \<Rightarrow> string \<times> nat" where
  "cut_at_slash buf =
    (let i = length (takeWhile (\<lambda>c. c \<noteq> NUL \<and> c \<noteq> CHR ''/'') buf) in
     if char_at buf i \<noteq> CHR ''/'' then (buf, 0)
     else (case filter (\<lambda>j. is_digit (buf ! j)) (rev [0..<i]) of
             [] \<Rightarrow> (buf, i)
           | j # _ \<Rightarrow> (buf[j + 1 := NUL], i)))"

definition check_at_symbol :: "string \<Rightarrow> u64 \<Rightarrow> bool \<times> string \<times> u64 \<times> nat" where
  "check_at_symbol buf addr =
    (let (buf', idx) = cut_at_slash buf;
         i = length (takeWhile (\<lambda>c. c \<noteq> NUL \<and> c \<noteq> CHR ''@'') buf')
     in if char_at buf' i = CHR ''@'' then (True, buf', ato_long buf' (i + 1), idx)
        else (False, buf', addr, idx))"

record build_state =
  bs_ld :: loader
  bs_buf :: string
  bs_new_addr :: bool
  bs_beg :: bool

text \<open>The rest of the current line of 64 bytes is filled with zeros.\<close>

definition fill_line :: "char \<Rightarrow> dtype \<Rightarrow> string \<Rightarrow> loader \<Rightarrow> (string \<times> loader) res" where
  "fill_line prior wh buf ld =
    res_bind (poke 0 NUL buf) (\<lambda>buf1.
    res_bind (padding prior buf1 0) (\<lambda>buf2.
    res_bind (store_into_rdram wh buf2 0 ld) (\<lambda>ld'. Inr (buf2, ld'))))"

definition unaligned :: "u64 \<Rightarrow> bool" where
  "unaligned addr \<longleftrightarrow> addr AND 0x3f \<noteq> 0"

text \<open>A line of the file, which \<^verbatim>\<open>fgets\<close> puts into the buffer with a NUL behind it.\<close>

definition fill_buffer :: "string \<Rightarrow> string \<Rightarrow> string" where
  "fill_buffer line buf = line @ NUL # drop (length line + 1) buf"

definition new_address :: "char \<Rightarrow> dtype \<Rightarrow> nat \<Rightarrow> string \<Rightarrow> u64 \<Rightarrow> nat \<Rightarrow> build_state \<Rightarrow> build_state res" where
  "new_address prior wh index buf addr aidx st =
    (let ld0 = bs_ld st; tmp_addr = ld_addr ld0 in
     res_bind (if aidx \<noteq> 0 then check_single_comment aidx buf addr (ld_dram ld0)
               else Inr (False, addr, ld_dram ld0)) (\<lambda>(_, addr1, dm1).
     res_bind (if unaligned tmp_addr then fill_line prior wh buf (ld0\<lparr>ld_dram := dm1\<rparr>)
               else Inr (buf, ld0\<lparr>ld_dram := dm1\<rparr>)) (\<lambda>(buf2, ld2).
     let addr2 = mask_value 40 addr1; ld3 = ld2\<lparr>ld_d_ind := 0, ld_num_bit := 0\<rparr> in
     res_bind (if unaligned addr2 \<and> dm_spill (ld_dram ld3) then
                 res_bind (poke 0 NUL buf2) (\<lambda>b1.
                 res_bind (padding_front b1 64) (\<lambda>b2.
                 res_bind (store_into_rdram wh b2 (if unaligned tmp_addr then 0 else index)
                   (ld3\<lparr>ld_addr := (addr2 OR 0x3f) XOR 0x3f\<rparr>)) (\<lambda>ld. Inr (b2, ld))))
               else Inr (buf2, ld3)) (\<lambda>(buf3, ld4).
     Inr (st\<lparr>bs_ld := ld4\<lparr>ld_addr := addr2\<rparr>, bs_buf := buf3, bs_new_addr := True\<rparr>)))))"

definition build_line :: "char \<Rightarrow> dtype \<Rightarrow> string \<Rightarrow> build_state \<Rightarrow> build_state res" where
  "build_line prior wh line st =
    (let buf = fill_buffer line (bs_buf st); ld = bs_ld st; st1 = st\<lparr>bs_buf := buf\<rparr> in
     case remove_leading_space buf 0 of
       None \<Rightarrow> Inr st1
     | Some index \<Rightarrow>
         if has_prefix ''//'' buf 0 then
           res_bind (check_single_comment index buf (ld_addr ld) (ld_dram ld)) (\<lambda>(_, addr, dm).
             Inr (st1\<lparr>bs_ld := ld\<lparr>ld_addr := addr, ld_dram := dm\<rparr>\<rparr>))
         else
           (case check_at_symbol buf (ld_addr ld) of
              (True, buf', addr, aidx) \<Rightarrow> new_address prior wh index buf' addr aidx st1
            | (False, buf', addr, aidx) \<Rightarrow>
                res_bind (padding prior buf' index) (\<lambda>buf2.
                res_bind (if \<not> dm_spill (ld_dram ld) \<and> (bs_new_addr st \<or> bs_beg st)
                          then padding_zero buf2 addr else Inr (buf2, addr)) (\<lambda>(buf3, addr3).
                res_bind (store_into_rdram wh buf3 index (ld\<lparr>ld_addr := addr3\<rparr>)) (\<lambda>ld'.
                Inr (st1\<lparr>bs_ld := ld', bs_buf := buf3, bs_new_addr := False, bs_beg := False\<rparr>))))))"

text \<open>\<open>garbage\<close> and \<open>digits\<close> are what the arrays hold before they are written.\<close>

definition build_start :: "string \<Rightarrow> u8 list \<Rightarrow> dram \<Rightarrow> build_state" where
  "build_start garbage digits dm =
    \<lparr>bs_ld = \<lparr>ld_dram = dm, ld_addr = 0, ld_d_buf = digits, ld_d_ind = 0, ld_num_bit = 0,
               ld_ecc = replicate 16 None\<rparr>,
     bs_buf = garbage, bs_new_addr = False, bs_beg = True\<rparr>"

definition build_rdram :: "char \<Rightarrow> string \<Rightarrow> u8 list \<Rightarrow> dtype \<Rightarrow> string \<Rightarrow> dram \<Rightarrow> dram res" where
  "build_rdram prior garbage digits wh content dm =
    res_bind (res_fold (build_line prior wh) (fgets_all (BUFFER - 1) content)
      (build_start garbage digits dm)) (\<lambda>st.
    res_bind (if unaligned (ld_addr (bs_ld st)) then fill_line prior wh (bs_buf st) (bs_ld st)
              else Inr (bs_buf st, bs_ld st)) (\<lambda>(_, ld).
    Inr (ld_dram ld)))"

end
