(* ===== verification/Prop_Mem.thy ===== *)
theory Prop_Mem
  imports Mem_Code Mem_Way_Inj Mem_Load
begin

text \<open>The properties of the memory of the simulator interface (\<^verbatim>\<open>tools/pli/mem\<close>).\<close>

text \<open>
  C18: Nodes can be inserted into the tree in any order: no null pointer is followed, the tree
  stays sorted, and a search finds the value with which its address was inserted first (a
  second insertion of an address changes nothing).
\<close>

theorem avl_inserts_refine:
  "\<exists>t. res_fold (\<lambda>(a, v). insert_avl_node a v) ps Null = Inr t \<and> key_sorted (inorder t) \<and>
    (\<forall>a. find_node a t = Inr (map_of ps a))"
proof -
  have "\<exists>t. res_fold (\<lambda>(a, v). insert_avl_node a v) ps t0 = Inr t \<and> avl_wf t \<and>
      avl_map t = map_of ps ++ avl_map t0" if "avl_wf t0" for t0
    using that
  proof (induction ps arbitrary: t0)
    case Nil
    then show ?case by simp
  next
    case (Cons p ps)
    obtain a v where p: "p = (a, v)" by (cases p)
    obtain t1 where t1: "insert_avl_node a v t0 = Inr t1" "avl_wf t1"
        "avl_map t1 = upsert (\<lambda>v. v) a v (avl_map t0)"
      using insert_node_refines [OF Cons.prems, of "\<lambda>v. v" a v] by (auto simp: insert_avl_node_def)
    show ?case
      using Cons.IH [OF t1(2)] t1
      by (auto simp: p upsert_def fun_eq_iff map_add_def split: option.splits)
  qed
  from this [OF Null_wf(1)] show ?thesis
    by (auto simp: Null_wf find_node_refines avl_wf_def [symmetric]) (auto simp: avl_wf_def)
qed

text \<open>
  C23: The rebalancing of the left side is wrong (\<^verbatim>\<open>balance_left\<close> has its single and its double
  rotation exchanged): three addresses inserted in descending order leave a root with the
  recorded height 2, although its height is 1. In ascending order the record is right.
\<close>

theorem descending_heights_wrong:
  assumes "sint a < sint b" and "sint b < sint c"
  shows "\<exists>t t'. res_fold (\<lambda>(k, v). insert_avl_node k v) [(c, z), (b, y), (a, x)] Null = Inr t \<and>
      res_fold (\<lambda>(k, v). insert_avl_node k v) [(a, x), (b, y), (c, z)] Null = Inr t' \<and>
      height t = 1 \<and> bal t = 2 \<and> height t' = 1 \<and> bal t' = 1"
proof -
  have "c \<noteq> b" "c \<noteq> a" "b \<noteq> a" "\<not> sint c < sint a" "\<not> sint b < sint a" "\<not> sint c < sint b" "sint a < sint c"
    using assms by auto
  then show ?thesis
    using assms by (simp add: insert_avl_node_def create_avl_node_def rebalance_def)
qed

theorem descending_heights_wrong_witness:
  "\<exists>t t'. res_fold (\<lambda>(k, v). insert_avl_node k v) [(3, ()), (2, ()), (1, ())] Null = Inr t \<and>
      res_fold (\<lambda>(k, v). insert_avl_node k v) [(1, ()), (2, ()), (3, ())] Null = Inr t' \<and>
      height t = 1 \<and> bal t = 2 \<and> height t' = 1 \<and> bal t' = 1"
  by (rule descending_heights_wrong) simp_all

text \<open>
  C19: The check nibbles show every change of one, two or three of the 32 data nibbles of a line:
  two lines with the same check nibbles that differ in at most three nibbles are equal.
\<close>

theorem hamming_detects_three:
  assumes "length w = 16" and "length w' = 16" and "hamming w = hamming w'"
    and "card {k \<in> {0..<32}. hword w ! k \<noteq> hword w' ! k} \<le> 3"
  shows "w = w'"
  using assms by (rule hamming_distance)

theorem hamming_detects_three_witness:
  "hamming (replicate 16 0) \<noteq> hamming (0x12 # replicate 15 0)"
proof
  assume h: "hamming (replicate 16 0) = hamming (0x12 # replicate 15 0)"
  have "{k \<in> {0..<32}. hword (replicate 16 0) ! k \<noteq> hword (0x12 # replicate 15 0) ! k} \<subseteq> {30, 31}"
  proof
    fix k
    assume k: "k \<in> {k \<in> {0..<32}. hword (replicate 16 0) ! k \<noteq> hword (0x12 # replicate 15 0 :: u8 list) ! k}"
    show "k \<in> {30, 31}"
    proof (rule ccontr)
      assume "k \<notin> {30, 31}"
      then have "(31 - k) div 2 = Suc ((31 - k) div 2 - 1)" "(31 - k) div 2 - 1 < 15" "(31 - k) div 2 < 16"
        using k by (simp, presburger)+
      then have "(replicate 16 0 :: u8 list) ! ((31 - k) div 2) = (0x12 # replicate 15 0) ! ((31 - k) div 2)"
        by (metis nth_Cons_Suc nth_replicate)
      then have "hword (replicate 16 0) ! k = hword (0x12 # replicate 15 0) ! k"
        using k by (simp only: hword_nth mem_Collect_eq atLeastLessThan_iff)
      then show False using k by simp
    qed
  qed
  then have "card {k \<in> {0..<32}. hword (replicate 16 0) ! k \<noteq> hword (0x12 # replicate 15 0) ! k} \<le> card {30, 31 :: nat}"
    by (rule card_mono [rotated]) simp
  then have c: "card {k \<in> {0..<32}. hword (replicate 16 0) ! k \<noteq> hword (0x12 # replicate 15 0) ! k} \<le> 3"
    by (rule order_trans) simp
  have "replicate 16 0 = (0x12 # replicate 15 0 :: u8 list)"
    by (rule hamming_detects_three [OF length_replicate _ h c]) simp
  then have "hd (replicate 16 0) = hd (0x12 # replicate 15 0 :: u8 list)" by (rule arg_cong)
  then show False by simp
qed

text \<open>
  C20: The loader does not put two doublewords at the same place: with four channels and the
  stack bit behind the row bits, addresses within the reach of the memory that agree in node,
  bank and half of the bank are addresses of the same doubleword.
\<close>

theorem load_places_distinct:
  assumes "new_stack dt k" and "a < 2 ^ reach dt k" and "b < 2 ^ reach dt k"
    and "cal_4channel dt a = Inr (d, s, m)" and "cal_4channel dt b = Inr (d, s, m)"
    and "half_bank a m = half_bank b m"
  shows "a div 8 = b div 8"
proof -
  have "bit a 3 = bit b 3" using assms(6) by (auto simp: half_bank_def and_8_bit split: if_splits)
  then show ?thesis using places_distinct [OF assms(1-5)] by (simp add: drop_bit_eq_div)
qed

theorem load_places_distinct_witness:
  "\<exists>d s m. cal_4channel 0 0x123458 = Inr (d, s, m) \<and>
    (\<forall>b < 2 ^ 33. cal_4channel 0 b = Inr (d, s, m) \<longrightarrow> half_bank b m = half_bank 0x123458 m \<longrightarrow> b div 8 = 0x2468b)"
proof -
  have n: "new_stack 0 0" and r: "reach 0 0 = 33" by (simp_all add: new_stack_def two_channel_def dtype_bit_def reach_def)
  obtain d s m where c: "cal_4channel 0 0x123458 = Inr (d, s, m)"
    unfolding cal_4channel_def way4_new [OF n] by blast
  have "b div 8 = 0x2468b" if b: "b < 2 ^ 33" "cal_4channel 0 b = Inr (d, s, m)" "half_bank b m = half_bank 0x123458 m" for b
  proof -
    have "b div 8 = 0x123458 div 8"
      by (rule load_places_distinct [OF n _ _ b(2) c b(3)]) (use b r in simp_all)
    then show ?thesis by simp
  qed
  then show ?thesis using c by blast
qed

text \<open>
  C22: \<^verbatim>\<open>access_dram_call\<close> does not hash the bank bits as the loader does. With four channels it
  reads at an address what the loader stored for the hashed address, and so the right place
  exactly for the addresses that the hash leaves alone.
\<close>

theorem access_misses_hash:
  assumes "new_stack dt k" and "a < 2 ^ reach dt k"
  shows "access_way dt a = load_way dt (hash4 dt a) \<and> (access_way dt a = load_way dt a \<longleftrightarrow> hash4 dt a = a)"
proof -
  have t: "\<not> two_channel dt" using assms(1) by (simp add: new_stack_def)
  have a: "access_way dt a = load_way dt (hash4 dt a)"
    using t reach_bounds(3) [OF assms] by (simp add: access_way_def load_way_def cal_4channel_def hash4_twice)
  have "hash4 dt a = a" if e: "load_way dt (hash4 dt a) = load_way dt a"
  proof -
    obtain d s m where c: "cal_4channel dt a = Inr (d, s, m)"
      unfolding cal_4channel_def way4_new [OF assms(1)] by blast
    have "drop_bit 3 (hash4 dt a) = drop_bit 3 a"
      by (rule places_distinct [OF assms(1) hash4_below assms(2)])
        (use t c e assms(2) reach_bounds(1,2) [OF assms(1)] in \<open>auto simp: load_way_def hash4_low\<close>)
    then have h: "bit (hash4 dt a) (3 + i) = bit a (3 + i)" for i by (metis bit_drop_bit_eq comp_apply)
    show ?thesis
    proof (rule bit_word_eqI)
      fix i
      show "bit (hash4 dt a) i = bit a i" using h [of "i - 3"] hash4_low [of i dt a] by (cases "i < 3") auto
    qed
  qed
  then show ?thesis using a by auto
qed

theorem access_misses_hash_witness: "access_way 0 0x40000 \<noteq> load_way 0 0x40000"
proof -
  have n: "new_stack 0 0" and r: "reach 0 0 = 33" by (simp_all add: new_stack_def two_channel_def dtype_bit_def reach_def)
  have "hash4 0 0x40000 \<noteq> 0x40000" by (simp add: hash4_def bank_hash_def dtype_bit_def)
  moreover have "(0x40000 :: u64) < 2 ^ reach 0 0" using r by simp
  ultimately show ?thesis using access_misses_hash [OF n] by blast
qed

text \<open>Injected errors flip at most two different bits of the nibble and leave the memory alone.\<close>

definition flips :: "nat \<Rightarrow> u8 \<Rightarrow> u8 \<Rightarrow> bool" where
  "flips n c c' \<longleftrightarrow> (\<exists>ks. distinct ks \<and> set ks \<subseteq> {0..<4} \<and> length ks \<le> n \<and> c' = fold flip ks c)"

lemma flips_simps: "flips n c c" "k < 4 \<Longrightarrow> flips (Suc n) c (flip k c)"
  "k < 4 \<Longrightarrow> l < 4 \<Longrightarrow> k \<noteq> l \<Longrightarrow> flips (Suc (Suc n)) c (flip l (flip k c))"
  unfolding flips_def by (rule exI [of _ "[]"], simp) (rule exI [of _ "[k]"], simp, rule exI [of _ "[k, l]"], simp)

lemma random_data: "random rnd dm = (r, dm') \<Longrightarrow> dm_data dm' = dm_data dm"
  by (auto simp: random_def)

lemma percent_data: "percent rnd dm = (b, dm') \<Longrightarrow> dm_data dm' = dm_data dm"
  by (auto simp: percent_def Let_def random_def split: if_splits)

lemma inject_error_flips:
  assumes "inject_error rnd c dm = (c', dm')"
  shows "dm_data dm' = dm_data dm \<and> flips (if dm_error dm = 1 then 2 else 1) c c'"
proof -
  have m: "r mod 4 < 4" for r :: nat by simp
  obtain b dm1 where p: "percent rnd dm = (b, dm1)" by (cases "percent rnd dm")
  note d = percent_data [OF p]
  consider "dm_error dm = 1" | "dm_error dm = 2" | "dm_error dm = 3" | "dm_error dm \<notin> {1, 2, 3}" by auto
  then show ?thesis
  proof cases
    case 1
    have n: "(if k = l then (if l + 1 = 4 then 2 else l + 1) else l) < 4 \<and>
        k \<noteq> (if k = l then (if l + 1 = 4 then 2 else l + 1) else l)" if "k < 4" "l < 4" for k l :: nat
      using that by auto
    show ?thesis
      using 1 assms d n [OF m m] flips_simps(2) [OF m, of 1] flips_simps(3) [OF m, of _ _ 0] flips_simps(3) [of 3 2 0]
      by (auto simp: inject_error_def p random_def Let_def flips_simps(1) numeral_2_eq_2 split: bool.splits if_splits)
  next
    case 2
    then show ?thesis
      using assms d flips_simps(2) [OF m, of 0]
      by (auto simp: inject_error_def p random_def Let_def flips_simps(1) split: bool.splits if_splits)
  next
    case 3
    then show ?thesis
      using assms d flips_simps(2) [OF m, of 0]
      by (auto simp: inject_error_def p random_def Let_def flips_simps(1) split: bool.splits if_splits)
  next
    case 4
    then show ?thesis using assms by (auto simp: inject_error_def flips_simps(1))
  qed
qed

lemma check_zero_byte_data: "dm_data (snd (check_zero_byte addr dm)) = dm_data dm"
  by (simp add: check_zero_byte_def case_prod_beta Let_def)

text \<open>
  C21: Reading a nibble of a bank that has been written leaves every node of the memory as it
  was, also when an error is injected, and what the simulator gets differs from the stored
  nibble in at most two of its four bits, or in one unless the error mode is 1.
\<close>

theorem read_mem_restores:
  assumes "avl_wf (dm_data dm)" and "\<not> dm_spill dm" and "decode_handle h0 a0 = (h, a)" and "h < 144"
    and "avl_map (dm_data dm) a = Some nd" and "length (sn_cval nd) = 144" and "\<not> uninitialised (handle_bank h) nd"
  shows "\<exists>c dm'. read_mem_call rnd h0 a0 dm = Inr (Some (c, sn_bval nd ! h), dm') \<and>
    avl_map (dm_data dm') = avl_map (dm_data dm) \<and> flips (if dm_error dm = 1 then 2 else 1) (sn_cval nd ! h) c"
proof -
  have ne: "dm_data dm \<noteq> Null" using assms(5) by (auto simp: Null_wf)
  let ?store = "if dm_prev dm \<and> dm_prev_addr dm = a then store_no_search rnd a h dm
        else res_bind (store_op rnd a h dm) (\<lambda>dm1.
          Inr (dm1\<lparr>dm_prev_addr := a, dm_prev := True, dm_error_counter := 0\<rparr>))"
  have "\<exists>dm1. ?store = Inr dm1 \<and> dm_data dm1 = dm_data dm \<and> dm_error dm1 = dm_error dm"
  proof (cases "dm_prev dm \<and> dm_prev_addr dm = a")
    case True
    then show ?thesis using assms(5,7) by (simp add: store_no_search_def Let_def)
  next
    case False
    have s: "search_node a (dm_data dm) = Inr (Some nd)"
      using assms(1,5) ne by (simp add: search_node_refines avl_wf_def)
    have "dm_error (snd (check_zero_byte a dm)) = dm_error dm"
      by (simp add: check_zero_byte_def case_prod_beta Let_def)
    then show ?thesis
      using s assms(7) check_zero_byte_data [of a dm]
      by (simp only: if_not_P [OF False]) (simp add: store_op_def Let_def case_prod_beta)
  qed
  then obtain dm1 where 1: "?store = Inr dm1" "dm_data dm1 = dm_data dm" "dm_error dm1 = dm_error dm" by blast
  obtain c dm2 where e: "inject_error rnd (sn_cval nd ! h) dm1 = (c, dm2)" by (cases "inject_error rnd (sn_cval nd ! h) dm1")
  note f = inject_error_flips [OF e]
  let ?t = "update_node a (\<lambda>n. n\<lparr>sn_cval := (sn_cval n)[h := c]\<rparr>) (dm_data dm)"
  let ?t' = "update_node a (\<lambda>n. n\<lparr>sn_cval := (sn_cval n)[h := sn_cval nd ! h]\<rparr>) ?t"
  have t: "avl_map ?t a = Some (nd\<lparr>sn_cval := (sn_cval nd)[h := c]\<rparr>)"
    using assms(5) by (simp add: update_node_map [OF assms(1)])
  have "avl_map ?t' = avl_map (dm_data dm)"
    using assms(5) by (simp add: update_node_map [OF update_node_wf [OF assms(1)]] update_node_map [OF assms(1)] fun_eq_iff)
  moreover have "read_mem_call rnd h0 a0 dm = Inr (Some (c, sn_bval nd ! h), dm2\<lparr>dm_data := ?t'\<rparr>)"
    using assms(2-6) 1 e f t by (simp add: read_mem_call_def Let_def node_at_def)
  ultimately show ?thesis using f 1(3) by auto
qed

definition demo_dram :: dram where
  "demo_dram =
    \<lparr>dm_data = Node Null 5 (put_nibbles 0 (replicate 16 3) fresh_node) 0 Null, dm_obj = \<lparr>q_nodes = [], q_next = None\<rparr>,
     dm_obj_on = False, dm_spill = False, dm_prev_addr = 0, dm_prev = False, dm_error = 3, dm_error_counter = 0,
     dm_error_percent = 10, dm_taken = 0, dm_not_taken = 0, dm_alist = [0, 0, 0, 0], dm_cptr = 0, dm_fp = [],
     dm_slam_val = True, dm_type = 0, dm_ch2 = False, dm_drawn = 0\<rparr>"

theorem read_mem_restores_witness:
  "\<exists>c dm'. read_mem_call (\<lambda>_. 0) 1 5 demo_dram = Inr (Some (c, 0), dm') \<and>
    avl_map (dm_data dm') = avl_map (dm_data demo_dram) \<and> flips 1 3 c"
proof -
  let ?nd = "put_nibbles 0 (replicate 16 3) fresh_node"
  have cells: "sn_cval ?nd ! 1 = 3" "sn_bval ?nd ! 1 = 0" "sn_bval ?nd ! 0 = 0" "length (sn_cval ?nd) = 144"
    by (simp_all add: put_nibbles_def fresh_node_def upt_rec nth_list_update)
  have "avl_wf (dm_data demo_dram)" "avl_map (dm_data demo_dram) 5 = Some ?nd"
    by (simp_all add: demo_dram_def avl_wf_def avl_map_def)
  from read_mem_restores [OF this(1) _ _ _ this(2), of 1 5 1 "\<lambda>_. 0"] show ?thesis
    using cells by (simp add: demo_dram_def decode_handle_def handle_bank_def uninitialised_def)
qed

end
