(* ===== verification/Cpp_Heap.thy ===== *)
theory Cpp_Heap
  imports Gf_Prelude
begin

text \<open>
  Nodes that are linked by pointers, for the lists of the C++ classes. The nodes of a list are in a
  heap that belongs to it: \<^verbatim>\<open>new\<close> takes the next cell, \<^verbatim>\<open>delete\<close> empties a cell, and an address is
  never used again. Following a null pointer or a pointer to a deleted node is \<open>Undefined\<close>, and
  so is an access outside of an array.
\<close>

subsection \<open>Arrays\<close>

definition array_at :: "nat \<Rightarrow> 'a list \<Rightarrow> 'a res" where
  "array_at i xs = (if i < length xs then Inr (xs ! i) else Inl Undefined)"

definition array_put :: "nat \<Rightarrow> 'a \<Rightarrow> 'a list \<Rightarrow> 'a list res" where
  "array_put i x xs = (if i < length xs then Inr (xs[i := x]) else Inl Undefined)"

lemma array_at_set: "array_at i xs = Inr x \<Longrightarrow> x \<in> set xs"
  by (auto simp: array_at_def split: if_splits)

subsection \<open>Nodes\<close>

definition deref :: "'n option list \<Rightarrow> nat option \<Rightarrow> 'n res" where
  "deref h p =
    (case p of
       None \<Rightarrow> Inl Undefined
     | Some i \<Rightarrow> if i < length h then (case h ! i of None \<Rightarrow> Inl Undefined | Some n \<Rightarrow> Inr n) else Inl Undefined)"

definition update_at :: "nat option \<Rightarrow> ('n \<Rightarrow> 'n) \<Rightarrow> 'n option list \<Rightarrow> 'n option list res" where
  "update_at p f h = res_bind (deref h p) (\<lambda>n. Inr (h[the p := Some (f n)]))"

definition delete_at :: "nat option \<Rightarrow> 'n option list \<Rightarrow> 'n option list" where
  "delete_at p h = (case p of None \<Rightarrow> h | Some i \<Rightarrow> h[i := None])"

lemma deref_live: "deref h p = Inr n \<Longrightarrow> \<exists>i. p = Some i \<and> i < length h \<and> h ! i = Some n"
  by (auto simp: deref_def split: option.splits if_splits)

lemma delete_live:
  assumes "deref h p = Inr n"
  shows "length (filter (\<lambda>c. c \<noteq> None) (delete_at p h)) < length (filter (\<lambda>c. c \<noteq> None) h)"
proof -
  obtain i where i: "p = Some i" "i < length h" "h ! i = Some n" using deref_live [OF assms] by blast
  have "h = take i h @ h ! i # drop (Suc i) h" using i(2) by (rule id_take_nth_drop)
  then have "length (filter (\<lambda>c. c \<noteq> None) h) = length (filter (\<lambda>c. c \<noteq> None) (take i h @ h ! i # drop (Suc i) h))" by simp
  then show ?thesis using i by (simp add: delete_at_def upd_conv_take_nth_drop)
qed

lemma deref_less: "deref h (Some i) = Inr n \<Longrightarrow> i < length h"
  using deref_live by fastforce

lemma deref_set [simp]:
  "i < length h \<Longrightarrow> deref (h[i := c]) (Some j) =
    (if j = i then (case c of None \<Rightarrow> Inl Undefined | Some n \<Rightarrow> Inr n) else deref h (Some j))"
  by (simp add: deref_def)

lemma deref_new [simp]:
  "deref (h @ [Some n]) (Some j) = (if j = length h then Inr n else deref h (Some j))"
  by (auto simp: deref_def nth_append split: option.splits)

end
