(* ===== verification/Iop_Btree.thy ===== *)
theory Iop_Btree
  imports Cpp_Heap
begin

text \<open>
  The B-tree of the boot ROM and I/O model of the simulator interface (\<^verbatim>\<open>tools/pli/iop/b_ary.c\<close>).
  A node is the value of its structure: the arrays \<^verbatim>\<open>data\<close> and \<^verbatim>\<open>child\<close> with all their cells, the
  ones beyond \<^verbatim>\<open>size\<close> included. A cell that was not assigned since \<^verbatim>\<open>malloc\<close> is \<open>None\<close> in \<^verbatim>\<open>data\<close> and
  \<open>Wild\<close> in \<^verbatim>\<open>child\<close>; to use it is \<open>Undefined\<close>. The field \<^verbatim>\<open>parent\<close> is only read by \<^verbatim>\<open>b_delete\<close>, which
  the program never calls; here its assignments only check that the pointers can be followed. An
  atom is its key with the rest of the structure.
\<close>

definition B_TREE_ORDER :: nat where "B_TREE_ORDER = 2"

definition B_TREE_MAX :: nat where "B_TREE_MAX = 2 * B_TREE_ORDER"

type_synonym 'v b_tree_atom = "u64 \<times> 'v"

datatype 'v b_tree_node =
    b_tree_node (bn_size: nat) (bn_data: "'v b_tree_atom option list") (bn_child: "'v b_tree_ptr list")
and 'v b_tree_ptr = Wild | Nowhere | To "'v b_tree_node"

subsection \<open>Cells\<close>

definition atom_at :: "nat \<Rightarrow> 'v b_tree_node \<Rightarrow> 'v b_tree_atom res" where
  "atom_at i node = res_bind (array_at i (bn_data node)) (\<lambda>d. case d of None \<Rightarrow> Inl Undefined | Some a \<Rightarrow> Inr a)"

definition put_slot :: "nat \<Rightarrow> 'v b_tree_atom option \<Rightarrow> 'v b_tree_ptr \<Rightarrow> 'v b_tree_node \<Rightarrow> 'v b_tree_node res" where
  "put_slot i d c node =
    res_bind (array_put i d (bn_data node)) (\<lambda>ds.
    res_bind (array_put i c (bn_child node)) (\<lambda>cs. Inr (b_tree_node (bn_size node) ds cs)))"

definition put_child :: "nat \<Rightarrow> 'v b_tree_ptr \<Rightarrow> 'v b_tree_node \<Rightarrow> 'v b_tree_node res" where
  "put_child i c node =
    res_bind (array_put i c (bn_child node)) (\<lambda>cs. Inr (b_tree_node (bn_size node) (bn_data node) cs))"

definition set_size :: "nat \<Rightarrow> 'v b_tree_node \<Rightarrow> 'v b_tree_node" where
  "set_size n node = b_tree_node n (bn_data node) (bn_child node)"

subsection \<open>Operations\<close>

text \<open>A node from \<^verbatim>\<open>malloc\<close>; \<^verbatim>\<open>b_create\<close> clears all children but the last.\<close>

definition malloc_node :: "'v b_tree_node" where
  "malloc_node = b_tree_node 0 (replicate (B_TREE_MAX + 1) None) (replicate (B_TREE_MAX + 2) Wild)"

definition b_create :: "'v b_tree_node" where
  "b_create = b_tree_node 0 (replicate (B_TREE_MAX + 1) None) (replicate (B_TREE_MAX + 1) Nowhere @ [Wild])"

text \<open>
  \<open>p = None\<close> when \<^verbatim>\<open>p\<close> and \<^verbatim>\<open>q\<close> are the same node, so that a step reads what the steps before it
  have written.
\<close>

definition copy_cell :: "'v b_tree_node option \<Rightarrow> nat \<Rightarrow> nat \<Rightarrow> 'v b_tree_node \<Rightarrow> 'v b_tree_node res" where
  "copy_cell p j i q =
    (let src = (case p of None \<Rightarrow> q | Some n \<Rightarrow> n)
     in res_bind (array_at j (bn_data src)) (\<lambda>d.
        res_bind (array_at j (bn_child src)) (\<lambda>c. put_slot i d c q)))"

definition b_copy :: "'v b_tree_node option \<Rightarrow> nat \<Rightarrow> nat \<Rightarrow> 'v b_tree_node \<Rightarrow> nat \<Rightarrow> nat \<Rightarrow> 'v b_tree_node res" where
  "b_copy p pLo pHi q qLo qHi =
    (if pHi + qLo = qHi + pLo \<and> qLo \<le> qHi then
       if qLo < pLo then res_fold (\<lambda>i. copy_cell p (i + pLo - qLo) i) [qLo..<Suc qHi] q
       else res_fold (\<lambda>i. copy_cell p (i + pHi - qHi) i) (rev [qLo..<Suc qHi]) q
     else Inr q)"

function scan_loop :: "'v b_tree_node \<Rightarrow> u64 \<Rightarrow> nat \<Rightarrow> nat \<Rightarrow> nat res" where
  "scan_loop node key low high =
    (if low < high then
       let middle = (low + high + 1) div 2
       in res_bind (atom_at middle node) (\<lambda>a.
            if key < fst a then scan_loop node key low (middle - 1) else scan_loop node key middle high)
     else Inr low)"
  by pat_completeness auto

termination
  by (relation "measure (\<lambda>(node, key, low, high). high - low)") auto

declare scan_loop.simps [simp del]

definition b_scanNode :: "'v b_tree_node \<Rightarrow> u64 \<Rightarrow> (bool \<times> nat) res" where
  "b_scanNode node key =
    res_bind (scan_loop node key 0 (bn_size node)) (\<lambda>low.
    if low = 0 then Inr (False, low)
    else res_bind (atom_at low node) (\<lambda>a. Inr (fst a = key, low)))"

text \<open>The results are the new values of \<^verbatim>\<open>*node\<close>, \<^verbatim>\<open>*rp\<close> and \<^verbatim>\<open>*promoted\<close>.\<close>

definition b_addData :: "'v b_tree_atom \<Rightarrow> nat \<Rightarrow> 'v b_tree_node \<Rightarrow> 'v b_tree_ptr \<Rightarrow> 'v b_tree_atom option \<Rightarrow>
    ('v b_tree_node \<times> 'v b_tree_ptr \<times> 'v b_tree_atom option) res" where
  "b_addData atom index node rp promoted =
    (if bn_size node < B_TREE_MAX then
       res_bind (if index < bn_size node
                 then b_copy None (index + 1) (bn_size node) node (index + 2) (bn_size node + 1) else Inr node)
         (\<lambda>node. res_bind (put_slot (index + 1) (Some atom) rp (set_size (bn_size node + 1) node))
         (\<lambda>node. Inr (node, Nowhere, promoted)))
     else
       let right = set_size B_TREE_ORDER malloc_node; node = set_size B_TREE_ORDER node
       in if index \<le> B_TREE_ORDER then
            res_bind (b_copy (Some node) (B_TREE_ORDER + 1) B_TREE_MAX right 1 B_TREE_ORDER) (\<lambda>right.
            if index = B_TREE_ORDER then
              res_bind (put_child 0 rp right) (\<lambda>right. Inr (node, To right, Some atom))
            else
              res_bind (atom_at B_TREE_ORDER node) (\<lambda>middle.
              res_bind (array_at B_TREE_ORDER (bn_child node)) (\<lambda>c.
              res_bind (put_child 0 c right) (\<lambda>right.
              res_bind (b_copy None (index + 1) (B_TREE_ORDER - 1) node (index + 2) B_TREE_ORDER) (\<lambda>node.
              res_bind (put_slot (index + 1) (Some atom) rp node) (\<lambda>node.
              Inr (node, To right, Some middle)))))))
          else
            res_bind (array_at (B_TREE_ORDER + 1) (bn_child node)) (\<lambda>c.
            res_bind (put_child 0 c right) (\<lambda>right.
            res_bind (atom_at (B_TREE_ORDER + 1) node) (\<lambda>middle.
            res_bind (b_copy (Some node) (B_TREE_ORDER + 2) index right 1 (index - B_TREE_ORDER - 1)) (\<lambda>right.
            res_bind (put_slot (index - B_TREE_ORDER) (Some atom) rp right) (\<lambda>right.
            res_bind (b_copy (Some node) (index + 1) B_TREE_MAX right (index - B_TREE_ORDER + 1) B_TREE_ORDER) (\<lambda>right.
            Inr (node, To right, Some middle))))))))"

text \<open>The loops that assign \<^verbatim>\<open>parent\<close> in the children of a split node and of its new sibling.\<close>

definition follow :: "'v b_tree_ptr \<Rightarrow> unit res" where
  "follow p = (if p = Wild then Inl Undefined else Inr ())"

definition set_parents :: "'v b_tree_node \<Rightarrow> 'v b_tree_node \<Rightarrow> unit res" where
  "set_parents node right =
    res_fold (\<lambda>i _. res_bind (array_at i (bn_child node)) (\<lambda>c. res_bind (follow c)
      (\<lambda>_. res_bind (array_at i (bn_child right)) follow))) [0..<B_TREE_ORDER + 1] ()"

definition parents_updated :: "'v b_tree_node \<Rightarrow> 'v b_tree_ptr \<Rightarrow> unit res" where
  "parents_updated node rp = (case rp of To right \<Rightarrow> set_parents node right | _ \<Rightarrow> Inr ())"

lemma child_smaller: "array_at i (bn_child node) = Inr (To c) \<Longrightarrow> size c < size node"
proof -
  assume "array_at i (bn_child node) = Inr (To c)"
  then have "To c \<in> set (bn_child node)" by (rule array_at_set)
  then have "size (To c) \<le> size_list size (bn_child node)" by (rule size_list_estimation') simp
  then show ?thesis by (cases node) simp
qed

declare res_bind_cong [fundef_cong]

function b_recursiveInsert :: "'v b_tree_atom \<Rightarrow> 'v b_tree_node \<Rightarrow> 'v b_tree_atom option \<Rightarrow> 'v b_tree_ptr \<Rightarrow>
    ('v b_tree_node \<times> 'v b_tree_ptr \<times> 'v b_tree_atom option) res" where
  "b_recursiveInsert atom node promoted rp =
    res_bind (b_scanNode node (fst atom)) (\<lambda>(found, index).
    if found then Inr (node, rp, promoted)
    else res_bind (array_at index (bn_child node)) (\<lambda>c.
      case c of
        Wild \<Rightarrow> Inl Undefined
      | Nowhere \<Rightarrow> b_addData atom index node rp promoted
      | To child \<Rightarrow>
          res_bind (b_recursiveInsert atom child promoted rp) (\<lambda>(child, rp, promoted).
          res_bind (put_child index (To child) node) (\<lambda>node.
          case rp of
            To right \<Rightarrow>
              res_bind (set_parents node right) (\<lambda>_.
              case promoted of
                None \<Rightarrow> Inl Undefined
              | Some up \<Rightarrow>
                  res_bind (b_scanNode node (fst up)) (\<lambda>(_, index).
                  res_bind (b_addData up index node rp promoted) (\<lambda>(node, rp, promoted).
                  res_bind (parents_updated node rp) (\<lambda>_. Inr (node, rp, promoted)))))
          | _ \<Rightarrow> Inr (node, rp, promoted)))))"
  by pat_completeness auto

termination
  by (relation "measure (\<lambda>(atom, node, promoted, rp). size node)") (auto simp: child_smaller)

declare b_recursiveInsert.simps [simp del]

definition b_insert :: "'v b_tree_atom \<Rightarrow> 'v b_tree_node \<Rightarrow> 'v b_tree_node res" where
  "b_insert atom root =
    res_bind (b_recursiveInsert atom root None Nowhere) (\<lambda>(node, rp, promoted).
    case rp of
      To right \<Rightarrow>
        (case promoted of
           None \<Rightarrow> Inl Undefined
         | Some up \<Rightarrow>
             res_bind (put_child 0 (To node) (set_size 1 b_create)) (put_slot 1 (Some up) rp))
    | _ \<Rightarrow> Inr node)"

function b_Find :: "u64 \<Rightarrow> 'v b_tree_node \<Rightarrow> 'v b_tree_atom option res" where
  "b_Find key node =
    res_bind (b_scanNode node key) (\<lambda>(found, index).
    if found then res_bind (atom_at index node) (\<lambda>a. Inr (Some a))
    else res_bind (array_at index (bn_child node)) (\<lambda>c.
      case c of Wild \<Rightarrow> Inl Undefined | Nowhere \<Rightarrow> Inr None | To child \<Rightarrow> b_Find key child))"
  by pat_completeness auto

termination
  by (relation "measure (\<lambda>(key, node). size node)") (auto simp: child_smaller)

declare b_Find.simps [simp del]

definition b_update :: "'v b_tree_atom \<Rightarrow> 'v b_tree_node \<Rightarrow> bool res" where
  "b_update atom node = res_bind (b_Find (fst atom) node) (\<lambda>a. Inr (a \<noteq> None))"

text \<open>An assignment to the structure that \<^verbatim>\<open>b_Find\<close> points to.\<close>

function b_modify :: "u64 \<Rightarrow> ('v \<Rightarrow> 'v) \<Rightarrow> 'v b_tree_node \<Rightarrow> 'v b_tree_node res" where
  "b_modify key f node =
    res_bind (b_scanNode node key) (\<lambda>(found, index).
    if found then
      res_bind (atom_at index node) (\<lambda>a.
      res_bind (array_put index (Some (fst a, f (snd a))) (bn_data node)) (\<lambda>ds.
      Inr (b_tree_node (bn_size node) ds (bn_child node))))
    else res_bind (array_at index (bn_child node)) (\<lambda>c.
      case c of
        Wild \<Rightarrow> Inl Undefined
      | Nowhere \<Rightarrow> Inr node
      | To child \<Rightarrow> res_bind (b_modify key f child) (\<lambda>child. put_child index (To child) node)))"
  by pat_completeness auto

termination
  by (relation "measure (\<lambda>(key, f, node). size node)") (auto simp: child_smaller)

declare b_modify.simps [simp del]

end
