(* ===== verification/Iop_Lib.thy ===== *)
theory Iop_Lib
  imports Iop_Btree Mem_Text
begin

text \<open>
  The functions of \<^verbatim>\<open>tools/pli/iop/bw_lib.c\<close>: the second reader of \<^verbatim>\<open>mem.image\<close>, which puts the
  lines of 64 bytes into the B-tree. The line buffer is the line as a C string, and behind it is
  a NUL. \<^verbatim>\<open>cbuf\<close> and the bytes of an atom are arrays whose cells are \<open>None\<close> until they are assigned.
\<close>

subsection \<open>Text\<close>

definition rmSpace :: "string \<Rightarrow> nat \<Rightarrow> nat option" where
  "rmSpace buf index = remove_leading_space buf index"

definition getEight :: "string \<Rightarrow> nat \<Rightarrow> u64" where
  "getEight buf idx = foldl (\<lambda>addr c. push_bit 4 addr OR scast (hex_value c)) 0 (drop idx buf)"

text \<open>The first slash ends the address: it is cut behind the last decimal digit before the slash.\<close>

definition cut_comment :: "string \<Rightarrow> nat \<Rightarrow> string" where
  "cut_comment buf idx =
    (let i = idx + length (takeWhile (\<lambda>c. c \<noteq> CHR ''/'') (drop idx buf))
     in if i < length buf \<and> (\<exists>j<i. is_digit (buf ! j))
        then take (length (dropWhile (\<lambda>c. \<not> is_digit c) (rev (take i buf)))) buf else buf)"

definition getAddr :: "string \<Rightarrow> nat \<Rightarrow> string \<times> u64 option" where
  "getAddr buf0 idx =
    (let buf = cut_comment buf0 idx; i = idx + length (takeWhile (\<lambda>c. c \<noteq> CHR ''@'') (drop idx buf))
     in (buf, if i < length buf then Some (getEight buf (i + 1)) else None))"

fun a2h :: "string \<Rightarrow> u8 list" where
  "a2h [] = []"
| "a2h [c] =
    (if line_end c \<or> c = SPACE then [] else [push_bit 4 (hex_value c)])"
| "a2h (c # d # s) =
    (if line_end c then []
     else if c = SPACE then a2h (d # s)
     else if line_end d then [push_bit 4 (hex_value c)]
     else (push_bit 4 (hex_value c) OR hex_value d) # a2h s)"

definition mask_addr :: "u64 \<Rightarrow> u64" where
  "mask_addr addr = drop_bit 6 addr AND 0x3ffffffff"

subsection \<open>The reader\<close>

definition ATOM_DATA_SIZE :: nat where "ATOM_DATA_SIZE = 64"

record atom_body =
  at_size :: nat
  at_data :: "u8 option list"

record read_state =
  rm_root :: "atom_body b_tree_node"
  rm_addr_list :: "u64 list"
  rm_cbuf :: "u8 option list"
  rm_cidx :: nat
  rm_addr :: u64
  rm_zero :: bool

text \<open>An atom with the first bytes of \<^verbatim>\<open>cbuf\<close> and a NUL behind them.\<close>

definition new_body :: "nat \<Rightarrow> u8 option list \<Rightarrow> atom_body" where
  "new_body n cbuf =
    \<lparr>at_size = n, at_data = take n cbuf @ Some 0 # replicate (ATOM_DATA_SIZE - n) None\<rparr>"

definition below_io :: "u64 \<Rightarrow> bool" where
  "below_io addr \<longleftrightarrow> drop_bit 28 addr AND 0xfff < 0x200"

definition save_atom :: "nat \<Rightarrow> u64 \<Rightarrow> read_state \<Rightarrow> read_state res" where
  "save_atom n addr st =
    res_bind (b_insert (mask_addr addr, new_body n (rm_cbuf st)) (rm_root st)) (\<lambda>root.
    Inr (st\<lparr>rm_root := root,
            rm_addr_list := (if below_io addr \<and> \<not> rm_zero st then rm_addr_list st @ [addr] else rm_addr_list st)\<rparr>))"

definition align_buf :: "u8 option list \<Rightarrow> nat \<Rightarrow> u8 option list \<times> nat" where
  "align_buf cbuf cidx =
    (if cidx < 64 then (cbuf, cidx) else (take (cidx - 64) (drop 64 cbuf) @ drop (cidx - 64) cbuf, 64))"

definition store_bytes :: "u8 list \<Rightarrow> read_state \<Rightarrow> read_state res" where
  "store_bytes bs st =
    (let n = rm_cidx st + length bs
     in if n > length (rm_cbuf st) then Inl Undefined
        else Inr (st\<lparr>rm_cbuf := take (rm_cidx st) (rm_cbuf st) @ map Some bs @ drop n (rm_cbuf st), rm_cidx := n\<rparr>))"

function save_lines :: "read_state \<Rightarrow> read_state res" where
  "save_lines st =
    (if rm_cidx st \<ge> 64 then
       res_bind (save_atom 64 (rm_addr st) st) (\<lambda>st1.
         let (cbuf, n) = align_buf (rm_cbuf st) (rm_cidx st)
         in save_lines (st1\<lparr>rm_cbuf := cbuf, rm_cidx := rm_cidx st - n, rm_addr := rm_addr st + 64\<rparr>))
     else Inr st)"
  by pat_completeness auto

termination
  by (relation "measure rm_cidx") (auto simp: align_buf_def)

declare save_lines.simps [simp del]

text \<open>
  One turn of the loop. \<^verbatim>\<open>prior\<close> is the byte in front of the buffer: after an empty line or an empty
  comment the index is \<open>-1\<close> and \<^verbatim>\<open>strncmp\<close> starts there.
\<close>

definition zero_comment :: "char \<Rightarrow> string \<Rightarrow> nat \<Rightarrow> bool" where
  "zero_comment prior buf start =
    (case rmSpace buf start of
       None \<Rightarrow> has_prefix ''zero_bytes'' (prior # buf) 0
     | Some j \<Rightarrow> has_prefix ''zero_bytes'' buf j)"

definition read_line :: "char \<Rightarrow> string \<Rightarrow> read_state \<Rightarrow> read_state res" where
  "read_line prior line st =
    (let buf = takeWhile (\<lambda>c. c \<noteq> NUL) line; idx = rmSpace buf 0
     in case (if has_prefix ''//'' buf 0 then None else idx) of
       None \<Rightarrow>
         (let start = (case idx of None \<Rightarrow> 1 | Some i \<Rightarrow> i + 2)
          in if start > length buf then Inl Undefined
             else Inr (if zero_comment prior buf start then st\<lparr>rm_zero := True\<rparr> else st))
     | Some i \<Rightarrow>
         (case getAddr buf i of
            (buf, Some addr) \<Rightarrow>
              res_bind (if rm_cidx st > 0 then
                  res_bind (save_atom (rm_cidx st) (rm_addr st) st) (\<lambda>st. Inr (st\<lparr>rm_zero := False\<rparr>)) else Inr st)
                (\<lambda>st. Inr (st\<lparr>rm_addr := addr, rm_cidx := unat (addr AND 0x3f)\<rparr>))
          | (buf, None) \<Rightarrow> res_bind (store_bytes (a2h (drop i buf)) st) save_lines))"

definition start_state :: "atom_body b_tree_node \<Rightarrow> read_state" where
  "start_state root =
    \<lparr>rm_root = root, rm_addr_list = [], rm_cbuf = replicate BUFFER None, rm_cidx = 0, rm_addr = 0, rm_zero = False\<rparr>"

definition read_mem :: "char \<Rightarrow> string \<Rightarrow> atom_body b_tree_node \<Rightarrow> (atom_body b_tree_node \<times> u64 list) res" where
  "read_mem prior file root =
    res_bind (res_fold (read_line prior) (fgets_all (BUFFER - 1) file) (start_state root)) (\<lambda>st.
    Inr (rm_root st, rm_addr_list st))"

subsection \<open>The address bus\<close>

definition get_j_ad :: "32 word list \<Rightarrow> (int \<times> u64) res" where
  "get_j_ad groups =
    (let j_ad = rev groups
     in if length j_ad \<noteq> 4 then Inl Undefined
        else Inr (uint (drop_bit 11 (j_ad ! 2) AND 0x1f), push_bit 32 (ucast (j_ad ! 2 AND 0x7ff)) OR ucast (j_ad ! 3)))"

end
