(* ===== verification/Iop_Main.thy ===== *)
theory Iop_Main
  imports Iop_Lib
begin

text \<open>
  The memory that the I/O model serves (\<^verbatim>\<open>tools/pli/iop/iob_main.cc\<close>): lines of 64 bytes in the
  B-tree, read and written in doublewords, with the atom that was used last remembered for every
  thread. A pointer to an atom is the key of the atom, as atoms are never moved or freed.
\<close>

record pli_state =
  sysMem :: "atom_body b_tree_node"
  last_addr :: "u64 list"
  pli_data :: "u64 option list"

text \<open>
  \<^verbatim>\<open>last_addr\<close> starts at \<open>-1\<close> or at 0, \<^verbatim>\<open>data\<close> with null pointers. The idle values of the bus in
  \<^verbatim>\<open>jbus_root\<close>, which no function of the model reads, are left out; their first \<^verbatim>\<open>strcpy\<close> writes 40 bytes
  into an array of 33, over members of the same object that are set next. So are the other
  classes and the cache warmer.
\<close>

definition init_jbus_model :: "char \<Rightarrow> string \<Rightarrow> bool \<Rightarrow> (pli_state \<times> u64 list) res" where
  "init_jbus_model prior file oram =
    res_bind (if oram then Inr (b_create, []) else read_mem prior file b_create) (\<lambda>(root, addrs).
    Inr (\<lparr>sysMem = root, last_addr = replicate 32 (if oram then -1 else 0), pli_data = replicate 32 None\<rparr>, addrs))"

text \<open>\<^verbatim>\<open>low\<close> is converted by way of \<^verbatim>\<open>unsigned\<close>; the sign of \<^verbatim>\<open>high\<close> is shifted out.\<close>

definition join_words :: "32 word \<Rightarrow> 32 word \<Rightarrow> u64" where
  "join_words high low = push_bit 32 (scast high) OR ucast low"

definition line_of :: "u64 \<Rightarrow> u64" where
  "line_of key = drop_bit 6 (key AND 0xffffffffff)"

definition byte_offset :: "u64 \<Rightarrow> nat" where
  "byte_offset key = unat (key AND 0x38)"

definition byte_at :: "nat \<Rightarrow> u8 option list \<Rightarrow> u8 res" where
  "byte_at i data = res_bind (array_at i data) (\<lambda>b. case b of None \<Rightarrow> Inl Undefined | Some b \<Rightarrow> Inr b)"

definition get_eight_byte :: "u8 option list \<Rightarrow> u64 \<Rightarrow> u64 res" where
  "get_eight_byte data key =
    res_fold (\<lambda>i val. res_bind (byte_at (byte_offset key + i) data) (\<lambda>b. Inr (push_bit 8 val OR ucast b))) [0..<8] 0"

definition write_eight_byte :: "u8 option list \<Rightarrow> u64 \<Rightarrow> u64 \<Rightarrow> u8 option list res" where
  "write_eight_byte data key val =
    res_bind (res_fold (\<lambda>i (data, val). res_bind (array_put (byte_offset key + i) (Some (ucast val)) data) (\<lambda>data.
      Inr (data, drop_bit 8 val))) (rev [0..<8]) (data, val)) (\<lambda>(data, _). Inr data)"

text \<open>The body that a pointer leads to.\<close>

definition follow_atom :: "u64 option \<Rightarrow> atom_body b_tree_node \<Rightarrow> atom_body res" where
  "follow_atom p root =
    (case p of
       None \<Rightarrow> Inl Undefined
     | Some k \<Rightarrow> res_bind (b_Find k root) (\<lambda>a. case a of None \<Rightarrow> Inl Undefined | Some a \<Rightarrow> Inr (snd a)))"

definition cached_read :: "nat \<Rightarrow> u64 \<Rightarrow> u64 \<Rightarrow> pli_state \<Rightarrow> (u64 \<times> pli_state) res" where
  "cached_read thread line key st =
    res_bind (array_at thread (last_addr st)) (\<lambda>la.
    if la = line then
      res_bind (array_at thread (pli_data st)) (\<lambda>p.
      res_bind (follow_atom p (sysMem st)) (\<lambda>body.
      res_bind (get_eight_byte (at_data body) key) (\<lambda>val. Inr (val, st))))
    else
      res_bind (b_Find line (sysMem st)) (\<lambda>found.
      case found of
        None \<Rightarrow> Inr (0, st)
      | Some a \<Rightarrow>
          res_bind (array_put thread (Some (fst a)) (pli_data st)) (\<lambda>data.
          res_bind (array_put thread line (last_addr st)) (\<lambda>las.
          res_bind (get_eight_byte (at_data (snd a)) key) (\<lambda>val.
          Inr (val, st\<lparr>pli_data := data, last_addr := las\<rparr>))))))"

definition access_sys_call :: "nat \<Rightarrow> u64 \<Rightarrow> pli_state \<Rightarrow> (u64 \<times> pli_state) res" where
  "access_sys_call thread key st = cached_read thread (mask_addr key) key st"

definition read_64b_call :: "32 word \<Rightarrow> 32 word \<Rightarrow> pli_state \<Rightarrow> ((32 word \<times> 32 word) \<times> pli_state) res" where
  "read_64b_call high low st =
    (let key = join_words high low
     in res_bind (cached_read 0 (line_of key) key st) (\<lambda>(data, st).
        Inr ((ucast (drop_bit 32 data), ucast data), st)))"

definition clear_body :: atom_body where
  "clear_body = \<lparr>at_size = 64, at_data = replicate ATOM_DATA_SIZE (Some 0) @ [None]\<rparr>"

definition write_64b_call :: "32 word \<Rightarrow> 32 word \<Rightarrow> 32 word \<Rightarrow> 32 word \<Rightarrow> pli_state \<Rightarrow> pli_state res" where
  "write_64b_call high low vhigh vlow st0 =
    (let key = join_words high low; val = push_bit 32 (ucast vhigh) OR ucast vlow; line = line_of key;
         st = (if last_addr st0 ! 0 = line then st0\<lparr>last_addr := (last_addr st0)[0 := 0]\<rparr> else st0)
     in res_bind (b_Find line (sysMem st)) (\<lambda>found.
        case found of
          Some a \<Rightarrow>
            res_bind (write_eight_byte (at_data (snd a)) key val) (\<lambda>data.
            res_bind (b_modify line (\<lambda>body. body\<lparr>at_data := data\<rparr>) (sysMem st)) (\<lambda>root.
            Inr (st\<lparr>sysMem := root, pli_data := (pli_data st)[0 := Some (fst a)], last_addr := (last_addr st)[0 := line]\<rparr>)))
        | None \<Rightarrow>
            res_bind (write_eight_byte (at_data clear_body) key val) (\<lambda>data.
            res_bind (b_insert (line, clear_body\<lparr>at_data := data\<rparr>) (sysMem st)) (\<lambda>root.
            Inr (st\<lparr>sysMem := root\<rparr>)))))"

end
