(* ===== verification/Iop_Btree_Node.thy ===== *)
theory Iop_Btree_Node
  imports Iop_Btree
begin

text \<open>
  What the B-tree stands for: a tree of nodes with a leftmost child and a list of pairs, each of an
  atom and the child on its right. The operations on arrays are shown to work on these lists, and
  never to use a cell that was not assigned.
\<close>

datatype 'v btree = Leaf | Branch "'v btree" "('v b_tree_atom \<times> 'v btree) list"

type_synonym 'v entry = "'v b_tree_atom \<times> 'v btree"

fun abs_node :: "'v b_tree_node \<Rightarrow> 'v btree" and abs_ptr :: "'v b_tree_ptr \<Rightarrow> 'v btree" where
  "abs_node (b_tree_node n ds cs) =
    (let ts = map abs_ptr cs in Branch (hd ts) (take n (zip (map the (tl ds)) (tl ts))))"
| "abs_ptr (To node) = abs_node node"
| "abs_ptr Nowhere = Leaf"
| "abs_ptr Wild = Leaf"

fun bnode_ok :: "'v b_tree_node \<Rightarrow> bool" and ptr_ok :: "'v b_tree_ptr \<Rightarrow> bool" where
  "bnode_ok (b_tree_node n ds cs) \<longleftrightarrow>
    length ds = B_TREE_MAX + 1 \<and> length cs = B_TREE_MAX + 2 \<and> n \<le> B_TREE_MAX \<and>
    None \<notin> set (take n (tl ds)) \<and> Wild \<notin> set (take (Suc (max n B_TREE_ORDER)) cs) \<and>
    list_all ptr_ok cs"
| "ptr_ok (To node) \<longleftrightarrow> bnode_ok node"
| "ptr_ok Nowhere \<longleftrightarrow> True"
| "ptr_ok Wild \<longleftrightarrow> True"

subsection \<open>Adding an entry to a node\<close>

text \<open>A node with one entry too many is cut in the middle.\<close>

definition cut :: "'v btree \<Rightarrow> 'v entry list \<Rightarrow> 'v btree \<times> ('v b_tree_atom \<times> 'v btree) option" where
  "cut t ps =
    (if length ps \<le> B_TREE_MAX then (Branch t ps, None)
     else case ps ! B_TREE_ORDER of (a, c) \<Rightarrow>
       (Branch t (take B_TREE_ORDER ps), Some (a, Branch c (drop (B_TREE_ORDER + 1) ps))))"

text \<open>What \<^verbatim>\<open>*rp\<close> and \<^verbatim>\<open>*promoted\<close> say after a call.\<close>

fun sibling :: "'v b_tree_ptr \<Rightarrow> 'v b_tree_atom option \<Rightarrow> ('v b_tree_atom \<times> 'v btree) option" where
  "sibling (To right) (Some a) = Some (a, abs_node right)"
| "sibling _ _ = None"

lemma length5: "length xs = 5 \<longleftrightarrow> (\<exists>a b c d e. xs = [a, b, c, d, e])"
  by (auto simp: eval_nat_numeral length_Suc_conv)

lemma length6: "length xs = 6 \<longleftrightarrow> (\<exists>a b c d e f. xs = [a, b, c, d, e, f])"
  by (auto simp: eval_nat_numeral length_Suc_conv)

lemmas array_simps = b_addData_def put_slot_def put_child_def atom_at_def array_put_def array_at_def b_copy_def
  copy_cell_def set_size_def malloc_node_def cut_def B_TREE_MAX_def B_TREE_ORDER_def eval_nat_numeral upt_rec

lemma addData_lists:
  assumes "bnode_ok node" and "ptr_ok rp" and "rp \<noteq> Wild" and "abs_node node = Branch t ps" and "i \<le> length ps"
  shows "\<exists>node' rp' pr'. b_addData a i node rp pr = Inr (node', rp', pr') \<and> bnode_ok node' \<and>
    rp' \<noteq> Wild \<and> ptr_ok rp' \<and> (rp' \<noteq> Nowhere \<longrightarrow> pr' \<noteq> None) \<and>
    (abs_node node', sibling rp' pr') = cut t (take i ps @ (a, abs_ptr rp) # drop i ps)"
    (is "?P i")
proof -
  obtain n ds cs where node: "node = b_tree_node n ds cs" by (cases node)
  have n: "n \<le> 4" and l: "length ds = 5" "length cs = 6"
    using assms(1) by (simp_all add: node B_TREE_MAX_def B_TREE_ORDER_def)
  obtain d0 d1 d2 d3 d4 where ds: "ds = [d0, d1, d2, d3, d4]" using l(1) by (auto simp: length5)
  obtain c0 c1 c2 c3 c4 c5 where cs: "cs = [c0, c1, c2, c3, c4, c5]" using l(2) by (auto simp: length6)
  have ps: "t = abs_ptr c0"
    "ps = take n [(the d1, abs_ptr c1), (the d2, abs_ptr c2), (the d3, abs_ptr c3), (the d4, abs_ptr c4)]"
    using assms(4) by (simp_all add: node ds cs Let_def eval_nat_numeral)
  have i: "i \<le> n" using assms(5) n by (simp add: ps)
  note c = assms(1-3) [unfolded node ds cs]
  consider "n = 0" | "n = 1" | "n = 2" | "n = 3" | "n = 4" using n by arith
  then show ?thesis
  proof cases
    case 1
    then show ?thesis using c i by (simp add: ps node ds cs array_simps)
  next
    case 2
    then have "i = 0 \<or> i = 1" using i by arith
    then show ?thesis using c 2 by (cases d1) (auto simp: ps node ds cs array_simps)
  next
    case 3
    then have "i = 0 \<or> i = 1 \<or> i = 2" using i by arith
    then show ?thesis using c 3 by (cases d1; cases d2) (auto simp: ps node ds cs array_simps)
  next
    case 4
    then have "i = 0 \<or> i = 1 \<or> i = 2 \<or> i = 3" using i by arith
    then show ?thesis using c 4 by (cases d1; cases d2; cases d3) (auto simp: ps node ds cs array_simps)
  next
    case 5
    then have "i = 0 \<or> i = 1 \<or> i = 2 \<or> i = 3 \<or> i = 4" using i by arith
    then show ?thesis using c 5 by (cases d1; cases d2; cases d3; cases d4) (auto simp: ps node ds cs array_simps)
  qed
qed

subsection \<open>Entries, children and search in one node\<close>

definition nth_child :: "nat \<Rightarrow> 'v btree \<Rightarrow> 'v entry list \<Rightarrow> 'v btree" where
  "nth_child i t ps = (if i = 0 then t else snd (ps ! (i - 1)))"

definition leftmost_with :: "nat \<Rightarrow> 'v btree \<Rightarrow> 'v btree \<Rightarrow> 'v btree" where
  "leftmost_with i c t = (if i = 0 then c else t)"

definition pairs_with :: "nat \<Rightarrow> 'v btree \<Rightarrow> 'v entry list \<Rightarrow> 'v entry list" where
  "pairs_with i c ps = (if i = 0 then ps else ps[i - 1 := (fst (ps ! (i - 1)), c)])"

definition key_at :: "'v entry list \<Rightarrow> nat \<Rightarrow> u64" where
  "key_at ps j = fst (fst (ps ! j))"

definition pos :: "u64 \<Rightarrow> 'v entry list \<Rightarrow> nat" where
  "pos key ps = length (takeWhile (\<lambda>p. fst (fst p) \<le> key) ps)"

lemma pos_eqI:
  assumes "i \<le> length ps" and "\<And>j. j < i \<Longrightarrow> key_at ps j \<le> key" and "i < length ps \<Longrightarrow> key < key_at ps i"
  shows "pos key ps = i"
proof -
  have "takeWhile (\<lambda>p. fst (fst p) \<le> key) ps = take i ps"
    by (rule takeWhile_eq_take_P_nth) (use assms in \<open>auto simp: key_at_def not_le\<close>)
  then show ?thesis using assms(1) by (simp add: pos_def)
qed

lemma abs_shape:
  assumes "bnode_ok node" and "abs_node node = Branch t ps"
  shows "bn_size node = length ps" and "length ps \<le> B_TREE_MAX"
    and "j < length ps \<Longrightarrow> atom_at (Suc j) node = Inr (fst (ps ! j))"
    and "i \<le> length ps \<Longrightarrow> \<exists>c. array_at i (bn_child node) = Inr c \<and> c \<noteq> Wild \<and> ptr_ok c \<and> abs_ptr c = nth_child i t ps"
proof -
  obtain n ds cs where node: "node = b_tree_node n ds cs" by (cases node)
  have ok: "length ds = 5" "length cs = 6" "n \<le> 4" "None \<notin> set (take n (tl ds))"
    "Wild \<notin> set (take (Suc (max n B_TREE_ORDER)) cs)" "list_all ptr_ok cs"
    using assms(1) by (simp_all add: node B_TREE_MAX_def B_TREE_ORDER_def)
  have ps: "t = hd (map abs_ptr cs)" "ps = take n (zip (map the (tl ds)) (tl (map abs_ptr cs)))"
    using assms(2) by (simp_all add: node Let_def)
  have n: "length ps = n" using ok by (simp add: ps)
  show "bn_size node = length ps" "length ps \<le> B_TREE_MAX"
    using ok(3) n by (simp_all add: node B_TREE_MAX_def B_TREE_ORDER_def)
  show "atom_at (Suc j) node = Inr (fst (ps ! j))" if j: "j < length ps"
  proof -
    have "tl ds ! j = ds ! Suc j" using j n ok by (simp add: nth_tl)
    moreover have "tl ds ! j \<in> set (take n (tl ds))"
      using j n ok by (auto simp: in_set_conv_nth intro!: exI [of _ j])
    ultimately show ?thesis using j n ok
      by (cases "ds ! Suc j") (auto simp: node atom_at_def array_at_def ps nth_tl)
  qed
  show "\<exists>c. array_at i (bn_child node) = Inr c \<and> c \<noteq> Wild \<and> ptr_ok c \<and> abs_ptr c = nth_child i t ps" if i: "i \<le> length ps"
  proof -
    have "cs ! i \<in> set (take (Suc (max n B_TREE_ORDER)) cs)"
      using i n ok by (auto simp: in_set_conv_nth intro!: exI [of _ i])
    then have "cs ! i \<noteq> Wild" using ok(5) by auto
    moreover have "ptr_ok (cs ! i)" using ok i n by (simp add: list_all_length)
    moreover have "abs_ptr (cs ! i) = nth_child i t ps"
      using i n ok by (cases i; cases cs) (auto simp: nth_child_def ps nth_tl)
    ultimately show ?thesis using i n ok by (simp add: node array_at_def)
  qed
qed

lemma zip_update_snd: "j < length xs \<Longrightarrow> zip xs (ys[j := y]) = (zip xs ys)[j := (xs ! j, y)]"
  by (simp add: update_zip)

lemma zip_update_fst: "j < length ys \<Longrightarrow> zip (xs[j := x]) ys = (zip xs ys)[j := (x, ys ! j)]"
  by (simp add: update_zip)

lemma put_child_abs:
  assumes "bnode_ok node" and "abs_node node = Branch t ps" and "i \<le> length ps" and "bnode_ok c"
  shows "\<exists>node'. put_child i (To c) node = Inr node' \<and> bnode_ok node' \<and>
    abs_node node' = Branch (leftmost_with i (abs_node c) t) (pairs_with i (abs_node c) ps)"
proof -
  obtain n ds cs where node: "node = b_tree_node n ds cs" by (cases node)
  have ok: "length ds = 5" "length cs = 6" "n \<le> 4" "None \<notin> set (take n (tl ds))"
    "Wild \<notin> set (take (Suc (max n B_TREE_ORDER)) cs)" "list_all ptr_ok cs"
    using assms(1) by (simp_all add: node B_TREE_MAX_def B_TREE_ORDER_def)
  have ps: "t = hd (map abs_ptr cs)" "ps = take n (zip (map the (tl ds)) (tl (map abs_ptr cs)))"
    using assms(2) by (simp_all add: node Let_def)
  have n: "length ps = n" using ok by (simp add: ps)
  have "bnode_ok (b_tree_node n ds (cs[i := To c]))"
    using ok assms(4) by (auto simp: B_TREE_MAX_def B_TREE_ORDER_def list_all_iff take_update_swap
      dest: set_update_subset_insert [THEN subsetD])
  moreover have "abs_node (b_tree_node n ds (cs[i := To c])) =
      Branch (leftmost_with i (abs_node c) t) (pairs_with i (abs_node c) ps)"
    using ok assms(3) n
    by (cases i; cases cs) (simp_all add: Let_def leftmost_with_def pairs_with_def ps map_update take_update_swap zip_update_snd)
  ultimately show ?thesis using ok assms(3) n by (simp add: node put_child_def array_put_def)
qed

definition keys_of :: "'v entry list \<Rightarrow> u64 list" where
  "keys_of ps = map (\<lambda>p. fst (fst p)) ps"

lemma scan_loop_pos:
  assumes "bnode_ok node" and "abs_node node = Branch t ps" and "sorted_wrt (<) (keys_of ps)"
    and "low \<le> high" and "high \<le> length ps" and "\<And>j. j < low \<Longrightarrow> key_at ps j \<le> key"
    and "\<And>j. high \<le> j \<Longrightarrow> j < length ps \<Longrightarrow> key < key_at ps j"
  shows "scan_loop node key low high = Inr (pos key ps)"
  using assms
proof (induction node key low high rule: scan_loop.induct)
  case (1 n key low high)
  have mono: "key_at ps i \<le> key_at ps j" if "i \<le> j" "j < length ps" for i j
    using that sorted_wrt_nth_less [OF 1(5), of i j] by (cases "i = j") (auto simp: keys_of_def key_at_def)
  show ?case
  proof (cases "low < high")
    case True
    define m where "m = (low + high + 1) div 2"
    have m: "low < m" "m \<le> high" "m - 1 < length ps" using True 1(7) by (auto simp: m_def)
    have a: "atom_at m n = Inr (fst (ps ! (m - 1)))"
      using abs_shape(3) [OF 1(3,4) m(3)] m(1) by simp
    have step: "scan_loop n key low high =
        (if key < key_at ps (m - 1) then scan_loop n key low (m - 1) else scan_loop n key m high)"
      unfolding scan_loop.simps [of n key low high] Let_def m_def [symmetric]
      using True a by (simp add: key_at_def)
    show ?thesis
    proof (cases "key < key_at ps (m - 1)")
      case less: True
      have "scan_loop n key low (m - 1) = Inr (pos key ps)"
      proof (rule 1(1) [OF True m_def])
        show "key < key_at ps j" if "m - 1 \<le> j" "j < length ps" for j
          using mono [OF that] less by simp
      qed (use 1(3-) m less in \<open>simp_all add: key_at_def\<close>)
      then show ?thesis using step less by simp
    next
      case False
      have "scan_loop n key m high = Inr (pos key ps)"
      proof (rule 1(2) [OF True m_def])
        show "key_at ps j \<le> key" if "j < m" for j
        proof -
          have "key_at ps j \<le> key_at ps (m - 1)" by (rule mono) (use that m in simp_all)
          then show ?thesis using False by simp
        qed
      qed (use 1(3-) m False in \<open>simp_all add: key_at_def\<close>)
      then show ?thesis using step False by simp
    qed
  next
    case False
    then have "pos key ps = low" using 1(3-) by (intro pos_eqI) auto
    then show ?thesis using False by (simp add: scan_loop.simps)
  qed
qed

lemma b_scanNode_pos:
  assumes "bnode_ok node" and "abs_node node = Branch t ps" and "sorted_wrt (<) (keys_of ps)"
  shows "b_scanNode node key = Inr (0 < pos key ps \<and> key_at ps (pos key ps - 1) = key, pos key ps)"
proof -
  have "scan_loop node key 0 (length ps) = Inr (pos key ps)"
    by (rule scan_loop_pos [OF assms]) simp_all
  moreover have "pos key ps \<le> length ps" by (simp add: pos_def length_takeWhile_le)
  ultimately show ?thesis
    using abs_shape(1) [OF assms(1,2)] abs_shape(3) [OF assms(1,2), of "pos key ps - 1"]
    by (auto simp: b_scanNode_def key_at_def)
qed

end
