(* ===== verification/Iop_Btree_Refine.thy ===== *)
theory Iop_Btree_Refine
  imports Iop_Btree_Node
begin

text \<open>
  The atoms of a B-tree in order, the invariant (sorted keys, between two and four entries in every
  node but the root, all leaves at the same depth), and the recursive insertion, which keeps the invariant and puts
  the new atom at its place.
\<close>

subsection \<open>The atoms in order\<close>

fun atoms :: "'v btree \<Rightarrow> 'v b_tree_atom list" where
  "atoms Leaf = []"
| "atoms (Branch t ps) = atoms t @ concat (map (\<lambda>p. fst p # atoms (snd p)) ps)"

abbreviation entries :: "'v entry list \<Rightarrow> 'v b_tree_atom list" where
  "entries ps \<equiv> concat (map (\<lambda>p. fst p # atoms (snd p)) ps)"

definition lefts :: "nat \<Rightarrow> 'v btree \<Rightarrow> 'v entry list \<Rightarrow> 'v b_tree_atom list" where
  "lefts i t ps = (if i = 0 then [] else atoms t @ entries (take (i - 1) ps) @ [fst (ps ! (i - 1))])"

lemma entries_at: "j < length ps \<Longrightarrow>
    entries ps = entries (take j ps) @ fst (ps ! j) # atoms (snd (ps ! j)) @ entries (drop (Suc j) ps)"
  by (subst (1) id_take_nth_drop [of j ps]) simp_all

lemma atoms_at:
  assumes "i \<le> length ps"
  shows "atoms (Branch t ps) = lefts i t ps @ atoms (nth_child i t ps) @ entries (drop i ps)"
    and "atoms (Branch (leftmost_with i c t) (pairs_with i c ps)) = lefts i t ps @ atoms c @ entries (drop i ps)"
    and "atoms (Branch (leftmost_with i c t) (take i (pairs_with i c ps) @ (b, r) # drop i (pairs_with i c ps))) =
      lefts i t ps @ atoms c @ b # atoms r @ entries (drop i ps)"
proof -
  show "atoms (Branch t ps) = lefts i t ps @ atoms (nth_child i t ps) @ entries (drop i ps)"
    using assms entries_at [of "i - 1" ps] by (cases i) (auto simp: lefts_def nth_child_def)
  show 2: "atoms (Branch (leftmost_with i c t) (pairs_with i c ps)) = lefts i t ps @ atoms c @ entries (drop i ps)"
    using assms entries_at [of "i - 1" "pairs_with i c ps"]
    by (cases i) (auto simp: lefts_def leftmost_with_def pairs_with_def)
  have "atoms (Branch u (take i qs @ (b, r) # drop i qs)) = lefts i t ps @ atoms c @ b # atoms r @ entries (drop i ps)"
    if "atoms (Branch u qs) = lefts i t ps @ atoms c @ entries (drop i ps)" "drop i qs = drop i ps" for u qs
  proof -
    have "entries qs = entries (take i qs) @ entries (drop i qs)"
      by (metis append_take_drop_id concat_append map_append)
    then show ?thesis using that by simp
  qed
  moreover have "drop i (pairs_with i c ps) = drop i ps" by (simp add: pairs_with_def)
  ultimately show "atoms (Branch (leftmost_with i c t) (take i (pairs_with i c ps) @ (b, r) # drop i (pairs_with i c ps))) =
      lefts i t ps @ atoms c @ b # atoms r @ entries (drop i ps)" using 2 by blast
qed

fun joined :: "'v btree \<times> ('v b_tree_atom \<times> 'v btree) option \<Rightarrow> 'v b_tree_atom list" where
  "joined (t, None) = atoms t"
| "joined (t, Some (b, r)) = atoms t @ b # atoms r"

lemma joined_cut: "joined (cut t ps) = atoms (Branch t ps)"
proof (cases "length ps \<le> B_TREE_MAX")
  case False
  then have "B_TREE_ORDER < length ps" by (simp add: B_TREE_MAX_def B_TREE_ORDER_def)
  from entries_at [OF this] show ?thesis using False by (simp add: cut_def split: prod.splits)
qed (simp add: cut_def)

text \<open>An atom with a new key is put at its place; an atom with an old key changes nothing.\<close>

definition inserted :: "'v b_tree_atom \<Rightarrow> 'v b_tree_atom list \<Rightarrow> 'v b_tree_atom list \<Rightarrow> bool" where
  "inserted a xs ys \<longleftrightarrow>
    (if fst a \<in> fst ` set xs then ys = xs
     else \<exists>us vs. xs = us @ vs \<and> ys = us @ a # vs \<and> (\<forall>x\<in>set us. fst x < fst a) \<and> (\<forall>x\<in>set vs. fst a < fst x))"

abbreviation sorted_atoms :: "'v b_tree_atom list \<Rightarrow> bool" where
  "sorted_atoms xs \<equiv> sorted_wrt (<) (map fst xs)"

lemma keys_apart:
  fixes key :: u64
  shows "\<forall>x\<in>set us. fst x < key \<Longrightarrow> key \<notin> fst ` set us" and "\<forall>x\<in>set us. key < fst x \<Longrightarrow> key \<notin> fst ` set us"
  by (metis imageE less_irrefl)+

lemma inserted_context:
  assumes "inserted a m m'" and "\<forall>x\<in>set us. fst x < fst a" and "\<forall>x\<in>set vs. fst a < fst x"
  shows "inserted a (us @ m @ vs) (us @ m' @ vs)"
proof (cases "fst a \<in> fst ` set m")
  case True
  then show ?thesis using assms(1) by (simp add: inserted_def image_Un)
next
  case False
  then obtain ms ns where m: "m = ms @ ns" "m' = ms @ a # ns" "\<forall>x\<in>set ms. fst x < fst a" "\<forall>x\<in>set ns. fst a < fst x"
    using assms(1) by (auto simp: inserted_def)
  have "fst a \<notin> fst ` set (us @ m @ vs)"
  proof -
    have "fst a \<notin> fst ` set us" "fst a \<notin> fst ` set vs" 
      using keys_apart(1) [OF assms(2)] keys_apart(2) [OF assms(3)] by simp_all
    then show ?thesis using False by (simp only: set_append image_Un) blast
  qed
  note new = this
  show ?thesis unfolding inserted_def if_not_P [OF new]
    by (rule exI [of _ "us @ ms"], rule exI [of _ "ns @ vs"]) (use m assms(2,3) in auto)
qed

lemma inserted_sorted: "sorted_atoms xs \<Longrightarrow> inserted a xs ys \<Longrightarrow> sorted_atoms ys"
  by (auto simp: inserted_def sorted_wrt_append split: if_splits)

lemma inserted_map_of:
  assumes "inserted a xs ys"
  shows "map_of ys = (if fst a \<in> dom (map_of xs) then map_of xs else (map_of xs)(fst a \<mapsto> snd a))"
proof (cases "fst a \<in> fst ` set xs")
  case True
  then show ?thesis using assms by (simp add: inserted_def dom_map_of_conv_image_fst)
next
  case False
  then obtain us vs where 1: "xs = us @ vs" "ys = us @ a # vs" using assms by (auto simp: inserted_def)
  then have "map_of us (fst a) = None" using False by (auto simp: map_of_eq_None_iff)
  then have "map_of ys = (map_of xs)(fst a \<mapsto> snd a)"
    by (auto simp: 1 fun_eq_iff map_add_def split: option.splits)
  then show ?thesis using False by (simp add: dom_map_of_conv_image_fst)
qed

text \<open>All nodes but the root have between two and four entries, and all leaves the same depth.\<close>

fun balanced :: "nat \<Rightarrow> nat \<Rightarrow> 'v btree \<Rightarrow> bool" where
  "balanced lo 0 t \<longleftrightarrow> t = Leaf"
| "balanced lo (Suc h) Leaf \<longleftrightarrow> False"
| "balanced lo (Suc h) (Branch t ps) \<longleftrightarrow> lo \<le> length ps \<and> length ps \<le> B_TREE_MAX \<and>
    balanced B_TREE_ORDER h t \<and> (\<forall>p\<in>set ps. balanced B_TREE_ORDER h (snd p))"

fun balanced_pair :: "nat \<Rightarrow> nat \<Rightarrow> 'v btree \<times> ('v b_tree_atom \<times> 'v btree) option \<Rightarrow> bool" where
  "balanced_pair lo h (t, None) \<longleftrightarrow> balanced lo h t"
| "balanced_pair lo h (t, Some (b, r)) \<longleftrightarrow> balanced B_TREE_ORDER h t \<and> balanced B_TREE_ORDER h r"

lemma cut_balanced:
  assumes "balanced B_TREE_ORDER h t" and "\<forall>p\<in>set ps. balanced B_TREE_ORDER h (snd p)"
    and "lo \<le> length ps" and "length ps \<le> Suc B_TREE_MAX"
  shows "balanced_pair lo (Suc h) (cut t ps)"
proof (cases "length ps \<le> B_TREE_MAX")
  case False
  then have l: "length ps = 5" using assms(4) by (simp add: B_TREE_MAX_def B_TREE_ORDER_def)
  obtain a c where m: "ps ! B_TREE_ORDER = (a, c)" by (cases "ps ! B_TREE_ORDER")
  then have "balanced B_TREE_ORDER h c"
    using assms(2) l nth_mem [of B_TREE_ORDER ps] by (simp add: B_TREE_ORDER_def) (metis snd_conv)
  then show ?thesis using l m assms
    by (auto simp: cut_def B_TREE_MAX_def B_TREE_ORDER_def dest: in_set_takeD in_set_dropD)
qed (use assms in \<open>simp add: cut_def\<close>)

lemma balanced_child: "balanced lo (Suc h) (Branch t ps) \<Longrightarrow> i \<le> length ps \<Longrightarrow> balanced B_TREE_ORDER h (nth_child i t ps)"
  by (auto simp: nth_child_def)

lemma balanced_with:
  assumes "balanced lo (Suc h) (Branch t ps)" and "balanced B_TREE_ORDER h c"
  shows "balanced lo (Suc h) (Branch (leftmost_with i c t) (pairs_with i c ps))"
  using assms
  by (auto simp: leftmost_with_def pairs_with_def dest!: set_update_subset_insert [THEN subsetD])

subsection \<open>The place of a key\<close>

lemma sorted_keys: "sorted_atoms (atoms (Branch t ps)) \<Longrightarrow> sorted_wrt (<) (keys_of ps)"
proof -
  have "sorted_atoms (entries ps) \<Longrightarrow> sorted_wrt (<) (keys_of ps)"
    by (induction ps) (auto simp: keys_of_def sorted_wrt_append)
  then show "sorted_atoms (atoms (Branch t ps)) \<Longrightarrow> ?thesis" by (simp add: sorted_wrt_append)
qed

lemma pos_le: "pos key ps \<le> length ps"
  by (simp add: pos_def length_takeWhile_le)

lemma sorted_around:
  assumes "sorted_atoms (us @ x # vs)"
  shows "fst x < key \<Longrightarrow> \<forall>y\<in>set (us @ [x]). fst y < key" and "key < fst x \<Longrightarrow> \<forall>y\<in>set (x # vs). key < fst y"
  using assms by (auto simp: sorted_wrt_append intro: order.strict_trans)

lemma sorted_mid:
  assumes "sorted_atoms (us @ (ms @ b # ns) @ vs)"
  shows "\<forall>x\<in>set us. fst x < fst b" and "\<forall>x\<in>set vs. fst b < fst x"
  using assms by (auto simp: sorted_wrt_append)

lemma place_of_key:
  assumes "sorted_atoms (atoms (Branch t ps))" and "\<not> (0 < pos key ps \<and> key_at ps (pos key ps - 1) = key)"
  shows "\<forall>x\<in>set (lefts (pos key ps) t ps). fst x < key" and "\<forall>x\<in>set (entries (drop (pos key ps) ps)). key < fst x"
proof -
  define i where "i = pos key ps"
  have s: "sorted_atoms (lefts i t ps @ atoms (nth_child i t ps) @ entries (drop i ps))"
    using assms(1) unfolding i_def atoms_at(1) [OF pos_le [of key ps], of t] .
  have below: "key_at ps j \<le> key" if "j < i" for j
  proof -
    have "takeWhile (\<lambda>p. fst (fst p) \<le> key) ps ! j \<in> set (takeWhile (\<lambda>p. fst (fst p) \<le> key) ps)"
      using that by (intro nth_mem) (simp add: i_def pos_def)
    then have "fst (fst (takeWhile (\<lambda>p. fst (fst p) \<le> key) ps ! j)) \<le> key" by (rule set_takeWhileD [THEN conjunct2])
    then show ?thesis using that by (simp add: i_def pos_def key_at_def takeWhile_nth)
  qed
  have above: "key < key_at ps i" if "i < length ps"
    using that nth_length_takeWhile [of "\<lambda>p. fst (fst p) \<le> key" ps] by (simp add: i_def pos_def key_at_def)
  show "\<forall>x\<in>set (lefts (pos key ps) t ps). fst x < key"
  proof (cases i)
    case (Suc j)
    have x: "fst (fst (ps ! j)) < key" using Suc below [of j] assms(2) by (auto simp: i_def key_at_def)
    have l: "lefts i t ps = (atoms t @ entries (take j ps)) @ [fst (ps ! j)]" by (simp add: lefts_def Suc)
    have "sorted_atoms ((atoms t @ entries (take j ps)) @ fst (ps ! j) # atoms (nth_child i t ps) @ entries (drop i ps))"
      using s unfolding l by (simp only: append_assoc append.simps)
    from sorted_around(1) [OF this x] show ?thesis unfolding i_def [symmetric] l .
  qed (simp add: lefts_def i_def [symmetric])
  show "\<forall>x\<in>set (entries (drop (pos key ps) ps)). key < fst x"
  proof (cases "i < length ps")
    case True
    then have "entries (drop i ps) = fst (ps ! i) # atoms (snd (ps ! i)) @ entries (drop (Suc i) ps)"
      by (simp flip: Cons_nth_drop_Suc)
    note e = this
    have "sorted_atoms ((lefts i t ps @ atoms (nth_child i t ps)) @ fst (ps ! i) # atoms (snd (ps ! i)) @ entries (drop (Suc i) ps))"
      using s unfolding e by (simp only: append_assoc append.simps)
    from sorted_around(2) [OF this above [OF True, unfolded key_at_def]] show ?thesis unfolding i_def [symmetric] e .
  qed (simp add: i_def)
qed

lemma keys_of_pairs_with: "keys_of (pairs_with i c ps) = keys_of ps"
proof -
  have "map f (ps[j := x]) = map f ps" if "j < length ps \<longrightarrow> f x = f (ps ! j)" for f :: "'a entry \<Rightarrow> u64" and j x
    using that by (cases "j < length ps") (simp_all add: map_update list_update_same_conv list_update_beyond)
  then show ?thesis by (simp add: keys_of_def pairs_with_def)
qed

lemma pos_between:
  assumes "i \<le> length ps" and "\<forall>x\<in>set (lefts i t ps). fst x < key" and "\<forall>x\<in>set (entries (drop i ps)). key < fst x"
  shows "pos key ps = i"
proof (rule pos_eqI [OF assms(1)])
  fix j assume j: "j < i"
  have "fst (ps ! j) \<in> set (lefts i t ps)"
  proof (cases "j = i - 1")
    case False
    then have "ps ! j \<in> set (take (i - 1) ps)" using j assms(1) by (auto simp: in_set_conv_nth intro!: exI [of _ j])
    then show ?thesis using j by (auto simp: lefts_def)
  qed (use j in \<open>simp add: lefts_def\<close>)
  then show "key_at ps j \<le> key" using assms(2) by (auto simp: key_at_def dest: order.strict_implies_order)
next
  assume "i < length ps"
  then have "fst (ps ! i) \<in> set (entries (drop i ps))" by (simp flip: Cons_nth_drop_Suc)
  with assms(3) show "key < key_at ps i" unfolding key_at_def by blast
qed

lemma pos_keys: "keys_of ps = keys_of qs \<Longrightarrow> pos key ps = pos key qs"
proof -
  have "pos key ps = length (takeWhile (\<lambda>k. k \<le> key) (keys_of ps))" for ps :: "'c entry list"
    by (simp add: pos_def keys_of_def takeWhile_map o_def)
  then show "keys_of ps = keys_of qs \<Longrightarrow> pos key ps = pos key qs" by metis
qed

lemma with_same:
  "leftmost_with i (nth_child i t ps) t = t" "i \<le> length ps \<Longrightarrow> pairs_with i (nth_child i t ps) ps = ps"
  by (auto simp: leftmost_with_def nth_child_def pairs_with_def)

subsection \<open>Insertion\<close>

lemma set_parents_ok: "bnode_ok node \<Longrightarrow> bnode_ok right \<Longrightarrow> set_parents node right = Inr ()"
proof -
  have "\<exists>c. array_at i (bn_child n) = Inr c \<and> c \<noteq> Wild" if "bnode_ok n" "i \<le> 2" for n :: "'a b_tree_node" and i
  proof -
    obtain k ds cs where n: "n = b_tree_node k ds cs" by (cases n)
    then have "length cs = 6" "Wild \<notin> set (take (Suc (max k 2)) cs)"
      using that(1) by (simp_all add: B_TREE_MAX_def B_TREE_ORDER_def)
    moreover from this have "cs ! i \<in> set (take (Suc (max k 2)) cs)"
      using that(2) by (auto simp: in_set_conv_nth intro!: exI [of _ i])
    ultimately show ?thesis using that(2) by (auto simp: n array_at_def)
  qed
  note c = this
  assume a: "bnode_ok node" "bnode_ok right"
  have "res_fold (\<lambda>i _. res_bind (array_at i (bn_child node)) (\<lambda>c. res_bind (follow c)
      (\<lambda>_. res_bind (array_at i (bn_child right)) follow))) is () = Inr ()" if "\<forall>i\<in>set is. i \<le> 2" for "is"
    using that
  proof (induction "is")
    case (Cons i "is")
    then show ?case using c [OF a(1), of i] c [OF a(2), of i] by (auto simp: follow_def)
  qed simp
  then show ?thesis by (simp add: set_parents_def B_TREE_ORDER_def)
qed

lemma cut_add:
  assumes "balanced lo (Suc h) (Branch t ps)" and "balanced B_TREE_ORDER h r" and "i \<le> length ps" and "lo \<le> B_TREE_ORDER"
  shows "balanced_pair lo (Suc h) (cut t (take i ps @ (b, r) # drop i ps))"
  by (rule cut_balanced) (use assms in \<open>auto dest: in_set_takeD in_set_dropD\<close>)

lemma recursiveInsert_ok:
  assumes "bnode_ok node" and "balanced lo h (abs_node node)" and "sorted_atoms (atoms (abs_node node))" and "lo \<le> B_TREE_ORDER"
  shows "\<exists>node' rp pr'. b_recursiveInsert a node pr Nowhere = Inr (node', rp, pr') \<and>
    bnode_ok node' \<and> ptr_ok rp \<and> rp \<noteq> Wild \<and> (rp \<noteq> Nowhere \<longrightarrow> pr' \<noteq> None) \<and>
    balanced_pair lo h (abs_node node', sibling rp pr') \<and>
    inserted a (atoms (abs_node node)) (joined (abs_node node', sibling rp pr'))"
  using assms
proof (induction h arbitrary: node pr lo)
  case 0
  then show ?case by (cases node) (simp add: Let_def)
next
  case (Suc h)
  obtain t ps where tp: "abs_node node = Branch t ps" by (cases node) (simp add: Let_def)
  note [simp del] = atoms.simps(2) balanced.simps(3)
  define i where "i = pos (fst a) ps"
  have sorted: "sorted_atoms (atoms (Branch t ps))" and bal: "balanced lo (Suc h) (Branch t ps)"
    using Suc.prems(2,3) tp by simp_all
  have i: "i \<le> length ps" by (simp add: i_def pos_le)
  have scan: "b_scanNode node (fst a) = Inr (0 < i \<and> key_at ps (i - 1) = fst a, i)"
    unfolding i_def by (rule b_scanNode_pos [OF Suc.prems(1) tp sorted_keys [OF sorted]])
  obtain c where c: "array_at i (bn_child node) = Inr c" "c \<noteq> Wild" "ptr_ok c" "abs_ptr c = nth_child i t ps"
    using abs_shape(4) [OF Suc.prems(1) tp i] by blast
  show ?case
  proof (cases "0 < i \<and> key_at ps (i - 1) = fst a")
    case True
    then have "fst (ps ! (i - 1)) \<in> set (atoms (Branch t ps))"
      using atoms_at(1) [OF i, of t] by (simp add: lefts_def)
    then have "inserted a (atoms (Branch t ps)) (atoms (Branch t ps))"
      using True by (simp add: inserted_def key_at_def) (metis imageI)
    then show ?thesis
      using True Suc.prems(1,2) by (simp add: b_recursiveInsert.simps [of a node] scan tp)
  next
    case False
    have around: "\<forall>x\<in>set (lefts i t ps). fst x < fst a" "\<forall>x\<in>set (entries (drop i ps)). fst a < fst x"
      using place_of_key [OF sorted] False unfolding i_def by blast+
    have scanF: "b_scanNode node (fst a) = Inr (False, i)" using scan False by simp
    show ?thesis
    proof (cases c)
      case Nowhere
      then have leaf: "nth_child i t ps = Leaf" using c(4) by simp
      note bl = balanced_child [OF bal i, unfolded leaf]
      obtain node' rp pr' where add: "b_addData a i node Nowhere pr = Inr (node', rp, pr')" "bnode_ok node'"
          "rp \<noteq> Wild" "ptr_ok rp" "rp \<noteq> Nowhere \<longrightarrow> pr' \<noteq> None"
          "(abs_node node', sibling rp pr') = cut t (take i ps @ (a, Leaf) # drop i ps)"
        using addData_lists [OF Suc.prems(1) _ _ tp i, of Nowhere a pr] by auto
      have e1: "atoms (Branch t (take i ps @ (a, Leaf) # drop i ps)) = lefts i t ps @ [a] @ entries (drop i ps)"
        using atoms_at(3) [OF i, of Leaf t a Leaf] with_same(1) [of i t ps] with_same(2) [OF i, of t] leaf by simp
      have e2: "atoms (Branch t ps) = lefts i t ps @ [] @ entries (drop i ps)"
        using atoms_at(1) [OF i, of t] leaf by simp
      have "inserted a (atoms (Branch t ps)) (joined (abs_node node', sibling rp pr'))"
        unfolding add(6) joined_cut e1 e2 by (rule inserted_context [OF _ around]) (simp add: inserted_def)
      then show ?thesis
        using scanF c(1) Nowhere add cut_add [OF bal bl i Suc.prems(4)]
        by (simp add: b_recursiveInsert.simps [of a node] tp)
    next
      case (To child)
      have ch: "bnode_ok child" "abs_node child = nth_child i t ps" using c(3,4) To by simp_all
      have sc: "sorted_atoms (atoms (abs_node child))"
        using sorted unfolding atoms_at(1) [OF i, of t] ch(2) by (simp add: sorted_wrt_append)
      obtain child' rp pr' where rec: "b_recursiveInsert a child pr Nowhere = Inr (child', rp, pr')" "bnode_ok child'"
          "ptr_ok rp" "rp \<noteq> Wild" "rp \<noteq> Nowhere \<longrightarrow> pr' \<noteq> None"
          "balanced_pair B_TREE_ORDER h (abs_node child', sibling rp pr')"
          "inserted a (atoms (nth_child i t ps)) (joined (abs_node child', sibling rp pr'))"
        using Suc.IH [OF ch(1) balanced_child [OF bal i, folded ch(2)] sc order_refl, of pr] unfolding ch(2) by blast
      have ins: "inserted a (atoms (Branch t ps))
          (lefts i t ps @ joined (abs_node child', sibling rp pr') @ entries (drop i ps))"
        unfolding atoms_at(1) [OF i, of t] by (rule inserted_context [OF rec(7) around])
      obtain node' where put: "put_child i (To child') node = Inr node'" "bnode_ok node'"
          "abs_node node' = Branch (leftmost_with i (abs_node child') t) (pairs_with i (abs_node child') ps)"
        using put_child_abs [OF Suc.prems(1) tp i rec(2)] by blast
      show ?thesis
      proof (cases rp)
        case Nowhere
        then show ?thesis
          using scanF c(1) To rec put ins balanced_with [OF bal] atoms_at(2) [OF i, of "abs_node child'" t]
          by (simp add: b_recursiveInsert.simps [of a node] tp)
      next
        case To2: (To right)
        then obtain b where b: "pr' = Some b" using rec(5) by auto
        define t' ps' where "t' = leftmost_with i (abs_node child') t" and "ps' = pairs_with i (abs_node child') ps"
        have node': "abs_node node' = Branch t' ps'" using put(3) by (simp add: t'_def ps'_def)
        have i': "i \<le> length ps'" using i by (simp add: ps'_def pairs_with_def)
        have ok: "bnode_ok right" using rec(3) To2 by simp
        have sib: "sibling rp pr' = Some (b, abs_node right)" using To2 b by simp
        note s' = inserted_sorted [OF sorted ins, unfolded sib joined.simps]
        have keys: "sorted_wrt (<) (keys_of ps')"
          using sorted_keys [OF sorted] by (simp add: ps'_def keys_of_pairs_with)
        have "pos (fst b) ps = i" by (rule pos_between [OF i sorted_mid [OF s']])
        then have p: "pos (fst b) ps' = i" using pos_keys [OF keys_of_pairs_with] by (metis ps'_def)
        obtain z where scan': "b_scanNode node' (fst b) = Inr (z, i)"
          using b_scanNode_pos [OF put(2) node' keys, of "fst b"] p by simp
        obtain node2 rp2 pr2 where add: "b_addData b i node' rp pr' = Inr (node2, rp2, pr2)" "bnode_ok node2"
            "rp2 \<noteq> Wild" "ptr_ok rp2" "rp2 \<noteq> Nowhere \<longrightarrow> pr2 \<noteq> None"
            "(abs_node node2, sibling rp2 pr2) = cut t' (take i ps' @ (b, abs_node right) # drop i ps')"
          using addData_lists [OF put(2) rec(3,4) node' i', of b pr'] To2 by auto
        have "balanced_pair B_TREE_ORDER h (abs_node child', Some (b, abs_node right))" using rec(6) sib by simp
        then have bal': "balanced lo (Suc h) (Branch t' ps')" "balanced B_TREE_ORDER h (abs_node right)"
          using balanced_with [OF bal] by (simp_all add: t'_def ps'_def)
        have "joined (abs_node node2, sibling rp2 pr2) =
            lefts i t ps @ joined (abs_node child', sibling rp pr') @ entries (drop i ps)"
          unfolding add(6) joined_cut sib using atoms_at(3) [OF i] by (simp add: t'_def ps'_def)
        moreover have "parents_updated node2 rp2 = Inr ()"
          using add(2,3,4) by (cases rp2) (simp_all add: parents_updated_def set_parents_ok)
        ultimately show ?thesis
          using scanF c(1) To rec(1) put(1) To2 b set_parents_ok [OF put(2) ok] scan' add
            cut_add [OF bal' i' Suc.prems(4), of b] ins
          by (simp add: b_recursiveInsert.simps [of a node] tp)
      qed (use rec in simp)
    qed (use c in simp)
  qed
qed

end
