(* ===== verification/Iop_Btree_Map.thy ===== *)
theory Iop_Btree_Map
  imports Iop_Btree_Refine Mem_Store
begin

text \<open>
  The B-tree as a map: the operations of \<^verbatim>\<open>b_ary.c\<close> implement insertion (of a key that is not
  present; otherwise nothing changes), lookup and change of a value, and so the B-tree is a second
  provider of the interface \<open>node_store\<close>.
\<close>

subsection \<open>The tree as a map\<close>

definition btree_wf :: "'v b_tree_node \<Rightarrow> bool" where
  "btree_wf root \<longleftrightarrow> bnode_ok root \<and> sorted_atoms (atoms (abs_node root)) \<and>
    (\<exists>h. balanced (min 1 h) (Suc h) (abs_node root))"

definition btree_map :: "'v b_tree_node \<Rightarrow> u64 \<Rightarrow> 'v option" where
  "btree_map root = map_of (atoms (abs_node root))"

lemma b_create_wf: "btree_wf b_create" and b_create_map: "btree_map b_create = (\<lambda>_. None)"
proof -
  have "balanced (min 1 0) (Suc 0) (abs_node b_create)"
    by (simp add: b_create_def B_TREE_MAX_def B_TREE_ORDER_def Let_def eval_nat_numeral)
  then show "btree_wf b_create"
    unfolding btree_wf_def
    by (auto simp: b_create_def B_TREE_MAX_def B_TREE_ORDER_def Let_def eval_nat_numeral intro!: exI [of _ 0])
  show "btree_map b_create = (\<lambda>_. None)"
    by (simp add: btree_map_def b_create_def B_TREE_MAX_def B_TREE_ORDER_def Let_def eval_nat_numeral)
qed

lemma b_insert_ok:
  assumes "btree_wf root"
  shows "\<exists>root'. b_insert a root = Inr root' \<and> btree_wf root' \<and> inserted a (atoms (abs_node root)) (atoms (abs_node root'))"
proof -
  obtain h where wf: "bnode_ok root" "balanced (min 1 h) (Suc h) (abs_node root)" "sorted_atoms (atoms (abs_node root))"
    using assms by (auto simp: btree_wf_def)
  obtain node rp pr where r: "b_recursiveInsert a root None Nowhere = Inr (node, rp, pr)" "bnode_ok node" "ptr_ok rp"
      "rp \<noteq> Wild" "rp \<noteq> Nowhere \<longrightarrow> pr \<noteq> None"
      "balanced_pair (min 1 h) (Suc h) (abs_node node, sibling rp pr)"
      "inserted a (atoms (abs_node root)) (joined (abs_node node, sibling rp pr))"
  proof -
    have "min 1 h \<le> B_TREE_ORDER" by (simp add: B_TREE_ORDER_def)
    from recursiveInsert_ok [OF wf this, of a None] show thesis using that by blast
  qed
  note sorted = inserted_sorted [OF wf(3) r(7)]
  show ?thesis
  proof (cases rp)
    case Nowhere
    then show ?thesis using r sorted by (auto simp: b_insert_def btree_wf_def)
  next
    case (To right)
    then obtain up where up: "pr = Some up" using r(5) by auto
    define root' where "root' = b_tree_node 1 [None, Some up, None, None, None] [To node, rp, Nowhere, Nowhere, Nowhere, Wild]"
    have new: "b_insert a root = Inr root'"
      by (simp add: b_insert_def r(1) To up b_create_def put_child_def put_slot_def array_put_def set_size_def
          B_TREE_MAX_def B_TREE_ORDER_def root'_def eval_nat_numeral)
    have "abs_node root' = Branch (abs_node node) [(up, abs_node right)]"
      by (simp add: root'_def Let_def To)
    moreover have "bnode_ok root'"
      using r(2,3) by (simp add: root'_def To B_TREE_MAX_def B_TREE_ORDER_def eval_nat_numeral)
    moreover have "balanced B_TREE_ORDER (Suc h) (abs_node node)" "balanced B_TREE_ORDER (Suc h) (abs_node right)"
      using r(6) To up by simp_all
    ultimately show ?thesis using new r(7) sorted To up
      by (auto simp: btree_wf_def B_TREE_MAX_def B_TREE_ORDER_def intro!: exI [of _ "Suc h"])
  qed (use r in simp)
qed

lemma b_insert_map:
  assumes "btree_wf root"
  shows "\<exists>root'. b_insert a root = Inr root' \<and> btree_wf root' \<and>
    btree_map root' = (if btree_map root (fst a) = None then (btree_map root)(fst a \<mapsto> snd a) else btree_map root)"
  using b_insert_ok [OF assms, of a] by (auto simp: btree_map_def dest!: inserted_map_of)

lemma map_of_around:
  fixes key :: u64
  assumes "\<forall>x\<in>set us. fst x < key" and "\<forall>x\<in>set vs. key < fst x"
  shows "map_of (us @ m @ vs) key = map_of m key"
proof -
  have "map_of us key = None" "map_of vs key = None"
    using keys_apart(1) [OF assms(1)] keys_apart(2) [OF assms(2)] by (simp_all only: map_of_eq_None_iff not_False_eq_True)
  then show ?thesis by (auto simp: map_add_def split: option.splits)
qed

definition amap :: "u64 \<Rightarrow> ('v \<Rightarrow> 'v) \<Rightarrow> 'v b_tree_atom list \<Rightarrow> 'v b_tree_atom list" where
  "amap key f xs = map (\<lambda>a. if fst a = key then (fst a, f (snd a)) else a) xs"

lemma amap_other: "key \<notin> fst ` set xs \<Longrightarrow> amap key f xs = xs"
  unfolding amap_def by (rule map_idI) (metis imageI)

lemma amap_append: "amap key f (xs @ ys) = amap key f xs @ amap key f ys"
  by (simp add: amap_def)

lemma amap_around:
  assumes "\<forall>x\<in>set us. fst x < key" and "\<forall>x\<in>set vs. key < fst x"
  shows "amap key f (us @ m @ vs) = us @ amap key f m @ vs"
proof -
  have "key \<notin> fst ` set us" "key \<notin> fst ` set vs"
    using keys_apart(1) [OF assms(1)] keys_apart(2) [OF assms(2)] by simp_all
  then show ?thesis by (simp add: amap_append amap_other)
qed

lemma map_fst_amap: "map fst (amap key f xs) = map fst xs"
  by (simp add: amap_def o_def if_distrib cong: if_cong)

lemma map_of_amap: "map_of (amap key f xs) = (map_of xs)(key := map_option f (map_of xs key))"
  by (induction xs) (auto simp: amap_def fun_eq_iff)

lemma found_split:
  assumes "0 < i" and "i \<le> length ps"
  shows "atoms (Branch t ps) = (atoms t @ entries (take (i - 1) ps)) @ fst (ps ! (i - 1)) #
    (atoms (snd (ps ! (i - 1))) @ entries (drop i ps))"
  using entries_at [of "i - 1" ps] assms by simp

lemma sorted_atoms_map_of:
  assumes "sorted_atoms (us @ x # vs)"
  shows "map_of (us @ x # vs) (fst x) = Some (snd x)" and "amap (fst x) f (us @ x # vs) = us @ (fst x, f (snd x)) # vs"
proof -
  have o: "fst x \<notin> fst ` set us" "fst x \<notin> fst ` set vs"
    using assms by (auto simp: sorted_wrt_append)
  then have "map_of us (fst x) = None" by (simp add: map_of_eq_None_iff)
  then show "map_of (us @ x # vs) (fst x) = Some (snd x)" by (simp add: map_add_def)
  show "amap (fst x) f (us @ x # vs) = us @ (fst x, f (snd x)) # vs"
    using o by (simp add: amap_append amap_other) (simp add: amap_def amap_other [unfolded amap_def])
qed

lemma one_node:
  fixes key :: u64
  assumes "bnode_ok node" and "abs_node node = Branch t ps" and "sorted_atoms (atoms (Branch t ps))"
  defines "i \<equiv> pos key ps"
  obtains (found) "b_scanNode node key = Inr (True, i)" "0 < i" "atom_at i node = Inr (fst (ps ! (i - 1)))"
      "fst (fst (ps ! (i - 1))) = key"
  | (below) c where "b_scanNode node key = Inr (False, i)" "array_at i (bn_child node) = Inr c" "c \<noteq> Wild" "ptr_ok c"
      "abs_ptr c = nth_child i t ps" "\<forall>x\<in>set (lefts i t ps). fst x < key" "\<forall>x\<in>set (entries (drop i ps)). key < fst x"
proof (cases "0 < i \<and> key_at ps (i - 1) = key")
  case True
  then have "i - 1 < length ps" using pos_le [of key ps] unfolding i_def by linarith
  then have "atom_at i node = Inr (fst (ps ! (i - 1)))"
    using abs_shape(3) [OF assms(1,2), of "i - 1"] True by simp
  then show thesis using True b_scanNode_pos [OF assms(1,2) sorted_keys [OF assms(3)], of key]
    by (intro found) (simp_all add: i_def key_at_def)
next
  case False
  then have "b_scanNode node key = Inr (False, i)"
    using b_scanNode_pos [OF assms(1,2) sorted_keys [OF assms(3)], of key] by (simp add: i_def)
  then show thesis
    using abs_shape(4) [OF assms(1,2) pos_le [of key ps]] place_of_key [OF assms(3) False [unfolded i_def]] below
    unfolding i_def by blast
qed

lemma sorted_child:
  assumes "sorted_atoms (atoms (Branch t ps))" and "i \<le> length ps"
  shows "sorted_atoms (atoms (nth_child i t ps))"
  using assms(1) unfolding atoms_at(1) [OF assms(2), of t] by (simp add: sorted_wrt_append)

lemma b_Find_ok:
  assumes "bnode_ok node" and "balanced lo h (abs_node node)" and "sorted_atoms (atoms (abs_node node))"
  shows "b_Find key node = Inr (map_option (Pair key) (map_of (atoms (abs_node node)) key))"
  using assms
proof (induction h arbitrary: node lo)
  case 0
  then show ?case by (cases node) (simp add: Let_def)
next
  case (Suc h)
  obtain t ps where tp: "abs_node node = Branch t ps" by (cases node) (simp add: Let_def)
  note bal = Suc.prems(2) [unfolded tp] and sorted = Suc.prems(3) [unfolded tp]
  define i where "i = pos key ps"
  have i: "i \<le> length ps" by (simp add: i_def pos_le)
  note [simp del] = atoms.simps(2) balanced.simps(3)
  from Suc.prems(1) tp sorted show ?case
  proof (cases rule: one_node [where key = key])
    case found
    note e = found_split [OF found(2) pos_le, of t]
    have "map_of (atoms (Branch t ps)) (fst (fst (ps ! (pos key ps - 1)))) = Some (snd (fst (ps ! (pos key ps - 1))))"
      unfolding e by (rule sorted_atoms_map_of(1) [OF sorted [unfolded e]])
    then have "map_of (atoms (Branch t ps)) key = Some (snd (fst (ps ! (i - 1))))"
      unfolding found(4) i_def .
    then show ?thesis using found unfolding tp by (simp add: b_Find.simps [of key node] prod_eq_iff i_def)
  next
    case (below c)
    have m: "map_of (atoms (Branch t ps)) key = map_of (atoms (nth_child i t ps)) key"
      using below(6,7) unfolding i_def [symmetric] atoms_at(1) [OF i, of t] by (rule map_of_around)
    show ?thesis
    proof (cases c)
      case Nowhere
      then have "nth_child i t ps = Leaf" using below(5) by (simp add: i_def)
      then show ?thesis using below(1,2) Nowhere m unfolding tp by (simp add: b_Find.simps [of key node])
    next
      case (To child)
      then have ch: "abs_node child = nth_child i t ps" using below(5) by (simp add: i_def)
      have "b_Find key child = Inr (map_option (Pair key) (map_of (atoms (abs_node child)) key))"
        by (rule Suc.IH) (use below(4) To ch balanced_child [OF bal i] sorted_child [OF sorted i] in simp_all)
      then show ?thesis using below(1,2) To m ch unfolding tp by (simp add: b_Find.simps [of key node])
    qed (use below in simp)
  qed
qed

lemma put_data_abs:
  assumes "bnode_ok node" and "abs_node node = Branch t ps" and "0 < i" and "i \<le> length ps"
  shows "\<exists>ds. array_put i (Some a) (bn_data node) = Inr ds \<and> bnode_ok (b_tree_node (bn_size node) ds (bn_child node)) \<and>
    abs_node (b_tree_node (bn_size node) ds (bn_child node)) = Branch t (ps[i - 1 := (a, snd (ps ! (i - 1)))])"
proof -
  obtain n ds cs where node: "node = b_tree_node n ds cs" by (cases node)
  have ok: "length ds = 5" "length cs = 6" "n \<le> 4" "None \<notin> set (take n (tl ds))"
    "Wild \<notin> set (take (Suc (max n B_TREE_ORDER)) cs)" "list_all ptr_ok cs"
    using assms(1) by (simp_all add: node B_TREE_MAX_def B_TREE_ORDER_def)
  have ps: "t = hd (map abs_ptr cs)" "ps = take n (zip (map the (tl ds)) (tl (map abs_ptr cs)))"
    using assms(2) by (simp_all add: node Let_def)
  have n: "length ps = n" using ok by (simp add: ps)
  obtain j where j: "i = Suc j" "j < n" using assms(3,4) n by (cases i) auto
  obtain d ds' where ds: "ds = d # ds'" using ok(1) by (cases ds) auto
  have "None \<notin> set (take n (ds'[j := Some a]))"
    using ok(4) ds by (auto simp: take_update_swap dest: set_update_subset_insert [THEN subsetD])
  then have "bnode_ok (b_tree_node n (ds[i := Some a]) cs)"
    using ok ds j by (simp add: B_TREE_MAX_def B_TREE_ORDER_def)
  moreover have "abs_node (b_tree_node n (ds[i := Some a]) cs) = Branch t (ps[i - 1 := (a, snd (ps ! (i - 1)))])"
    using ok j ds by (simp add: Let_def ps take_update_swap map_update zip_update_fst)
  ultimately show ?thesis using j ok by (auto simp: node array_put_def)
qed

lemma b_modify_ok:
  assumes "bnode_ok node" and "balanced lo h (abs_node node)" and "sorted_atoms (atoms (abs_node node))"
  shows "\<exists>node'. b_modify key f node = Inr node' \<and> bnode_ok node' \<and> balanced lo h (abs_node node') \<and>
    atoms (abs_node node') = amap key f (atoms (abs_node node))"
  using assms
proof (induction h arbitrary: node lo)
  case 0
  then show ?case by (cases node) (simp add: Let_def)
next
  case (Suc h)
  obtain t ps where tp: "abs_node node = Branch t ps" by (cases node) (simp add: Let_def)
  note bal = Suc.prems(2) [unfolded tp] and sorted = Suc.prems(3) [unfolded tp]
  define i where "i = pos key ps"
  have i: "i \<le> length ps" by (simp add: i_def pos_le)
  from Suc.prems(1) tp sorted show ?case
  proof (cases rule: one_node [where key = key])
    case found
    define a where "a = fst (ps ! (i - 1))"
    have a: "fst a = key" using found(4) by (simp add: a_def i_def)
    obtain ds where ds: "array_put i (Some (fst a, f (snd a))) (bn_data node) = Inr ds"
        "bnode_ok (b_tree_node (bn_size node) ds (bn_child node))"
        "abs_node (b_tree_node (bn_size node) ds (bn_child node)) = Branch t (ps[i - 1 := ((fst a, f (snd a)), snd (ps ! (i - 1)))])"
      using put_data_abs [OF Suc.prems(1) tp _ i] found(2) unfolding i_def [symmetric] by blast
    define qs where "qs = ps[i - 1 := ((fst a, f (snd a)), snd (ps ! (i - 1)))]"
    have j: "0 < i" "i - 1 < length ps" using found(2) i by (simp_all add: i_def)
    have "balanced lo (Suc h) (Branch t qs)"
      using bal nth_mem [OF j(2)] by (auto simp: qs_def dest!: set_update_subset_insert [THEN subsetD])
    moreover have "atoms (Branch t qs) = amap key f (atoms (Branch t ps))"
    proof -
      note e = found_split [OF j(1) i, of t, folded a_def]
      have "atoms (Branch t qs) = (atoms t @ entries (take (i - 1) ps)) @ (fst a, f (snd a)) # (atoms (snd (ps ! (i - 1))) @ entries (drop i ps))"
        using found_split [OF j(1), of qs t] j i by (simp add: qs_def)
      then show ?thesis unfolding e a [symmetric] sorted_atoms_map_of(2) [OF sorted [unfolded e]] by simp
    qed
    moreover have "b_modify key f node = Inr (b_tree_node (bn_size node) ds (bn_child node))"
      using found(1,3) ds(1) by (simp add: b_modify.simps [of key f node] a_def i_def)
    ultimately show ?thesis using ds(2,3) unfolding tp qs_def [symmetric] by auto
  next
    case (below c)
    have e: "amap key f (atoms (Branch t ps)) = lefts i t ps @ amap key f (atoms (nth_child i t ps)) @ entries (drop i ps)"
      using below(6,7) unfolding i_def [symmetric] atoms_at(1) [OF i, of t] by (rule amap_around)
    show ?thesis
    proof (cases c)
      case Nowhere
      then have l: "nth_child i t ps = Leaf" using below(5) by (simp add: i_def)
      have "amap key f (atoms (Branch t ps)) = lefts i t ps @ [] @ entries (drop i ps)"
        unfolding e l by (simp add: amap_def)
      also have "\<dots> = atoms (Branch t ps)" unfolding atoms_at(1) [OF i, of t] l by simp
      finally have "amap key f (atoms (Branch t ps)) = atoms (Branch t ps)" .
      then show ?thesis using below(1,2) Nowhere Suc.prems(1) bal unfolding tp
        by (simp add: b_modify.simps [of key f node] tp del: atoms.simps)
    next
      case (To child)
      have ch: "abs_node child = nth_child i t ps" using below(5) To by (simp add: i_def)
      obtain child' where c': "b_modify key f child = Inr child'" "bnode_ok child'"
          "balanced B_TREE_ORDER h (abs_node child')" "atoms (abs_node child') = amap key f (atoms (abs_node child))"
        using Suc.IH [of child B_TREE_ORDER] below(4) To ch balanced_child [OF bal i] sorted_child [OF sorted i] by auto
      obtain node' where put: "put_child i (To child') node = Inr node'" "bnode_ok node'"
          "abs_node node' = Branch (leftmost_with i (abs_node child') t) (pairs_with i (abs_node child') ps)"
        using put_child_abs [OF Suc.prems(1) tp i c'(2)] by blast
      have "atoms (abs_node node') = amap key f (atoms (Branch t ps))"
        unfolding put(3) atoms_at(2) [OF i] e c'(4) ch ..
      moreover have "b_modify key f node = Inr node'"
        using below(1,2) To c'(1) put(1) by (simp add: b_modify.simps [of key f node] i_def)
      ultimately show ?thesis
        using put balanced_with [OF bal c'(3)] unfolding tp by auto
    qed (use below in simp)
  qed
qed

lemma b_Find_map:
  assumes "btree_wf root"
  shows "b_Find key root = Inr (map_option (Pair key) (btree_map root key))"
  using assms b_Find_ok unfolding btree_wf_def btree_map_def by blast

lemma b_modify_map:
  assumes "btree_wf root"
  shows "\<exists>root'. b_modify key f root = Inr root' \<and> btree_wf root' \<and>
    btree_map root' = (btree_map root)(key := map_option f (btree_map root key))"
proof -
  obtain h where wf: "bnode_ok root" "balanced (min 1 h) (Suc h) (abs_node root)" "sorted_atoms (atoms (abs_node root))"
    using assms by (auto simp: btree_wf_def)
  from b_modify_ok [OF this] obtain root' where r: "b_modify key f root = Inr root'" "bnode_ok root'"
      "balanced (min 1 h) (Suc h) (abs_node root')" "atoms (abs_node root') = amap key f (atoms (abs_node root))"
    by blast
  then show ?thesis using wf(3)
    by (auto simp: btree_wf_def btree_map_def map_fst_amap map_of_amap)
qed

text \<open>The search for a body, and the B-tree as a provider of the interface.\<close>

definition b_lookup :: "u64 \<Rightarrow> 'v b_tree_node \<Rightarrow> 'v option res" where
  "b_lookup key root = res_bind (b_Find key root) (\<lambda>found. Inr (map_option snd found))"

interpretation btree: node_store b_create btree_wf btree_map "\<lambda>k v. b_insert (k, v)" b_lookup b_modify
proof (unfold_locales, goal_cases)
  case (3 t k v)
  then show ?case using b_insert_map [OF 3(1), of "(k, v)"] by auto
next
  case (5 t k f)
  then show ?case by (rule b_modify_map)
qed (simp_all add: b_create_wf b_create_map b_lookup_def b_Find_map option.map_comp o_def option.map_ident)

subsection \<open>The height\<close>

lemma entries_length:
  "\<forall>p\<in>set ps. m \<le> length (atoms (snd p)) + 1 \<Longrightarrow> m * length ps \<le> length (entries ps)"
  by (induction ps) auto

lemma balanced_size: "balanced lo (Suc h) t \<Longrightarrow> (lo + 1) * (B_TREE_ORDER + 1) ^ h \<le> length (atoms t) + 1"
proof (induction h arbitrary: lo t)
  case 0
  then obtain c ps where t: "t = Branch c ps" and lo: "lo \<le> length ps" by (cases t) auto
  have "1 * length ps \<le> length (entries ps)" by (rule entries_length) simp
  then show ?case using lo t by simp
next
  case (Suc h)
  then obtain c ps where t: "t = Branch c ps" and lo: "lo \<le> length ps" and
    sub: "balanced B_TREE_ORDER (Suc h) c" "\<forall>p\<in>set ps. balanced B_TREE_ORDER (Suc h) (snd p)" by (cases t) auto
  define m where "m = (B_TREE_ORDER + 1) ^ Suc h"
  have c: "m \<le> length (atoms c) + 1" using Suc.IH [OF sub(1)] by (simp add: m_def)
  have "m * length ps \<le> length (entries ps)"
    by (rule entries_length) (use Suc.IH sub(2) in \<open>auto simp: m_def\<close>)
  then have "m * lo \<le> length (entries ps)" using lo by (meson le_trans mult_le_mono2)
  then have "(lo + 1) * m \<le> length (atoms (Branch c ps)) + 1" using c by (simp add: mult.commute)
  then show ?case unfolding t m_def .
qed

end
