(* ===== verification/Iop_Main_Refine.thy ===== *)
theory Iop_Main_Refine
  imports Iop_Main Iop_Btree_Map
begin

text \<open>
  The memory of \<^verbatim>\<open>iob_main.cc\<close> as a function from the addresses of doublewords to their values.
  The bytes of a doubleword are in order of decreasing weight.
\<close>

subsection \<open>Words and their bytes\<close>

definition bytes_word :: "u8 list \<Rightarrow> u64" where
  "bytes_word bs = foldl (\<lambda>val b. push_bit 8 val OR ucast b) 0 bs"

fun word_bytes :: "nat \<Rightarrow> u64 \<Rightarrow> u8 list" where
  "word_bytes 0 v = []"
| "word_bytes (Suc n) v = word_bytes n (drop_bit 8 v) @ [ucast v]"

lemma length_word_bytes [simp]: "length (word_bytes n v) = n"
  by (induction n v rule: word_bytes.induct) simp_all

lemma bytes_word_word_bytes: "bytes_word (word_bytes n v) = take_bit (8 * n) v"
proof (induction n v rule: word_bytes.induct)
  case (2 n v)
  have "push_bit 8 (take_bit (8 * n) (drop_bit 8 v)) OR ucast (ucast v :: u8) = take_bit (8 * Suc n) v"
    by (rule bit_word_eqI) (auto simp: bit_simps)
  then show ?case using 2 by (simp add: bytes_word_def)
qed (simp add: bytes_word_def)

lemma bytes_word_eight: "bytes_word (word_bytes 8 v) = v"
  unfolding bytes_word_word_bytes by (simp add: take_bit_word_eq_self)

subsection \<open>Bytes in an array\<close>

definition slice :: "nat \<Rightarrow> nat \<Rightarrow> 'a list \<Rightarrow> 'a list" where
  "slice i n xs = take n (drop i xs)"

lemma get_bytes:
  assumes "i + n \<le> length data" and "None \<notin> set (slice i n data)"
  shows "res_fold (\<lambda>k val. res_bind (byte_at (i + k) data) (\<lambda>b. Inr (push_bit 8 val OR ucast b))) [0..<n] 0 =
    Inr (bytes_word (map the (slice i n data)))"
  using assms
proof (induction n)
  case (Suc n)
  have s: "slice i (Suc n) data = slice i n data @ [data ! (i + n)]"
    using Suc.prems(1) by (simp add: slice_def take_Suc_conv_app_nth)
  then obtain b where "data ! (i + n) = Some b" using Suc.prems(2) by (cases "data ! (i + n)") auto
  then show ?case using Suc s by (simp add: res_fold_append byte_at_def array_at_def bytes_word_def)
qed (simp add: slice_def bytes_word_def)

lemma put_bytes:
  assumes "i + n \<le> length data"
  shows "res_fold (\<lambda>k (data, val). res_bind (array_put (i + k) (Some (ucast (val :: u64))) data) (\<lambda>data.
      Inr (data, drop_bit 8 val))) (rev [0..<n]) (data, val) =
    Inr (take i data @ map Some (word_bytes n val) @ drop (i + n) data, drop_bit (8 * n) val)"
  using assms
proof (induction n arbitrary: data val)
  case (Suc n)
  have "take i (data[i + n := Some (ucast val)]) @ map Some (word_bytes n (drop_bit 8 val)) @ drop (i + n) (data[i + n := Some (ucast val)]) =
      take i data @ map Some (word_bytes (Suc n) val) @ drop (i + Suc n) data"
    using Suc.prems by (simp add: drop_update_cancel Cons_nth_drop_Suc [symmetric] nth_list_update drop_update_swap)
  then show ?case using Suc by (simp add: array_put_def drop_bit_drop_bit add.commute)
qed simp

subsection \<open>Addresses\<close>

definition dword :: "u64 \<Rightarrow> u64" where
  "dword key = drop_bit 3 (key AND 0xffffffffff)"

lemma masks: "(0xffffffffff :: u64) = mask 40" "(0x3ffffffff :: u64) = mask 34" "(0x38 :: u64) = push_bit 3 (mask 3)"
    "(0x3f :: u64) = mask 6"
  by (simp_all add: mask_eq_exp_minus_1 push_bit_eq_mult)

lemma line_of_dword: "line_of key = drop_bit 3 (dword key)"
  by (simp add: line_of_def dword_def drop_bit_drop_bit)

lemma byte_offset_dword: "byte_offset key = 8 * unat (take_bit 3 (dword key))"
proof -
  have "key AND 0x38 = push_bit 3 (take_bit 3 (dword key))"
    unfolding masks dword_def by (rule bit_word_eqI) (auto simp: bit_simps)
  moreover have "unat (take_bit 3 (dword key)) < 8" 
    using take_bit_nat_less_exp [of 3 "unat (dword key)"] by (simp add: unsigned_take_bit_eq)
  ultimately show ?thesis
    by (simp add: byte_offset_def push_bit_eq_mult unat_word_ariths)
qed

lemma mask_addr_line: "mask_addr key = line_of key"
  unfolding mask_addr_def line_of_def masks by (rule bit_word_eqI) (auto simp: bit_simps)

lemma line_of_ne: "line_of key \<noteq> -1"
proof
  assume "line_of key = -1"
  then have "bit (line_of key) 63 = bit (-1 :: u64) 63" by simp
  then show False unfolding line_of_def masks by (simp add: bit_simps)
qed

lemma dword_eq: "line_of k = line_of k' \<Longrightarrow> byte_offset k = byte_offset k' \<Longrightarrow> dword k = dword k'"
  unfolding line_of_dword byte_offset_dword
  by (metis bits_ident mult_cancel_left word_unat_eq_iff zero_neq_numeral)

lemma join_words_split: "join_words (ucast (drop_bit 32 w)) (ucast (w :: u64)) = w"
  unfolding join_words_def by (rule bit_word_eqI) (auto simp: bit_simps)

lemma byte_offset_le: "byte_offset key \<le> 56"
  using take_bit_nat_less_exp [of 3 "unat (dword key)"] by (simp add: byte_offset_dword unsigned_take_bit_eq)

lemma byte_offset_apart:
  "byte_offset k \<noteq> byte_offset k' \<Longrightarrow> byte_offset k + 8 \<le> byte_offset k' \<or> byte_offset k' + 8 \<le> byte_offset k"
  unfolding byte_offset_dword by arith

subsection \<open>Slices\<close>

lemma slice_put:
  assumes "i + length bs \<le> length xs" and "j + n \<le> length xs" and "j + n \<le> i \<or> i + length bs \<le> j"
  shows "slice j n (take i xs @ bs @ drop (i + length bs) xs) = slice j n xs"
  using assms(3)
proof
  assume "j + n \<le> i"
  then have "take n (drop j (take i xs)) = take n (drop j xs)" by (simp add: drop_take min_def)
  then show ?thesis using assms(1) \<open>j + n \<le> i\<close> by (simp add: slice_def)
next
  assume "i + length bs \<le> j"
  then show ?thesis using assms(1) by (simp add: slice_def)
qed

lemma slice_put_same: "i + length bs \<le> length xs \<Longrightarrow> slice i (length bs) (take i xs @ bs @ drop (i + length bs) xs) = bs"
  by (simp add: slice_def)

subsection \<open>The memory\<close>

definition body_ok :: "atom_body \<Rightarrow> bool" where
  "body_ok body \<longleftrightarrow> length (at_data body) = 65 \<and> None \<notin> set (take 64 (at_data body))"

definition body_word :: "u64 \<Rightarrow> atom_body \<Rightarrow> u64" where
  "body_word key body = bytes_word (map the (slice (byte_offset key) 8 (at_data body)))"

definition mem_word :: "atom_body b_tree_node \<Rightarrow> u64 \<Rightarrow> u64" where
  "mem_word root key = (case btree_map root (line_of key) of None \<Rightarrow> 0 | Some body \<Rightarrow> body_word key body)"

definition mem_ok :: "atom_body b_tree_node \<Rightarrow> bool" where
  "mem_ok root \<longleftrightarrow> btree_wf root \<and> (\<forall>k body. btree_map root k = Some body \<longrightarrow> body_ok body)"

text \<open>A remembered line is in the tree; \<open>z\<close> is what \<^verbatim>\<open>last_addr\<close> starts with.\<close>

definition slot_ok :: "u64 \<Rightarrow> atom_body b_tree_node \<Rightarrow> u64 option \<Rightarrow> u64 \<Rightarrow> bool" where
  "slot_ok z root p la \<longleftrightarrow>
    (case p of None \<Rightarrow> la = z | Some k \<Rightarrow> la = k \<and> btree_map root k \<noteq> None)"

definition pli_wf :: "u64 \<Rightarrow> pli_state \<Rightarrow> bool" where
  "pli_wf z st \<longleftrightarrow> mem_ok (sysMem st) \<and> length (last_addr st) = 32 \<and> length (pli_data st) = 32 \<and>
    (\<forall>t < 32. slot_ok z (sysMem st) (pli_data st ! t) (last_addr st ! t))"

lemma body_slice:
  assumes "body_ok body"
  shows "byte_offset key + 8 \<le> length (at_data body)" and "None \<notin> set (slice (byte_offset key) 8 (at_data body))"
proof -
  show "byte_offset key + 8 \<le> length (at_data body)"
    using assms byte_offset_le [of key] by (simp add: body_ok_def)
  have "slice (byte_offset key) 8 (at_data body) = take 8 (drop (byte_offset key) (take 64 (at_data body)))"
    using byte_offset_le [of key] by (simp add: slice_def take_drop min_def)
  then show "None \<notin> set (slice (byte_offset key) 8 (at_data body))"
    using assms by (metis body_ok_def in_set_dropD in_set_takeD)
qed

lemma get_eight_ok: "body_ok body \<Longrightarrow> get_eight_byte (at_data body) key = Inr (body_word key body)"
  unfolding get_eight_byte_def body_word_def using get_bytes body_slice by blast

lemma write_eight_ok:
  assumes "length data = 65"
  shows "\<exists>data'. write_eight_byte data key val = Inr data' \<and> length data' = 65 \<and>
    (None \<notin> set (take 64 data) \<longrightarrow> None \<notin> set (take 64 data')) \<and>
    (\<forall>key'. bytes_word (map the (slice (byte_offset key') 8 data')) =
      (if byte_offset key' = byte_offset key then val else bytes_word (map the (slice (byte_offset key') 8 data))))"
proof -
  define i where "i = byte_offset key"
  define data' where "data' = take i data @ map Some (word_bytes 8 val) @ drop (i + 8) data"
  have i: "i + 8 \<le> 64" using byte_offset_le [of key] by (simp add: i_def)
  have w: "write_eight_byte data key val = Inr data'"
    unfolding write_eight_byte_def i_def [symmetric] put_bytes [OF order_trans [OF i], of data, unfolded assms, simplified] data'_def
    by simp
  have "take 64 data' = take i data @ map Some (word_bytes 8 val) @ drop (i + 8) (take 64 data)"
    using i assms by (simp add: data'_def take_drop min_def)
  moreover have "take i data = take i (take 64 data)" using i by (simp add: min_def)
  ultimately have e: "take 64 data' = take i (take 64 data) @ map Some (word_bytes 8 val) @ drop (i + 8) (take 64 data)"
    by (simp only:)
  have n: "None \<notin> set (take 64 data) \<longrightarrow> None \<notin> set (take 64 data')"
    unfolding e by (auto simp del: take_take dest: in_set_takeD in_set_dropD)
  have "slice (byte_offset key') 8 data' = (if byte_offset key' = i then map Some (word_bytes 8 val) else slice (byte_offset key') 8 data)" for key'
  proof (cases "byte_offset key' = i")
    case True
    then show ?thesis using slice_put_same [of i "map Some (word_bytes 8 val)" data] i assms by (simp add: data'_def)
  next
    case False
    then show ?thesis
      using slice_put [of i "map Some (word_bytes 8 val)" data "byte_offset key'" 8] byte_offset_apart [of key' key]
        byte_offset_le [of key'] i assms by (auto simp: data'_def i_def)
  qed
  moreover have "bytes_word (map the (map Some (word_bytes 8 val))) = val" by (simp add: o_def bytes_word_eight)
  ultimately show ?thesis using w n i assms by (auto simp: i_def data'_def)
qed

lemma remember_wf:
  assumes "pli_wf z st" and "mem_ok root" and "btree_map root k \<noteq> None"
    and "\<And>j. btree_map (sysMem st) j \<noteq> None \<Longrightarrow> btree_map root j \<noteq> None"
  shows "pli_wf z (st\<lparr>sysMem := root, pli_data := (pli_data st)[t := Some k], last_addr := (last_addr st)[t := k]\<rparr>)"
proof -
  have "slot_ok z root ((pli_data st)[t := Some k] ! u) ((last_addr st)[t := k] ! u)" if "u < 32" for u
    using that assms by (cases "u = t") (auto simp: pli_wf_def slot_ok_def split: option.splits)
  then show ?thesis using assms(1,2) by (simp add: pli_wf_def)
qed

lemma cached_read_ok:
  assumes "pli_wf z st" and "t < 32" and "line_of key \<noteq> z"
  shows "\<exists>st'. cached_read t (line_of key) key st = Inr (mem_word (sysMem st) key, st') \<and> pli_wf z st' \<and> sysMem st' = sysMem st"
proof -
  have m: "mem_ok (sysMem st)" and l: "length (last_addr st) = 32" "length (pli_data st) = 32"
    and c: "slot_ok z (sysMem st) (pli_data st ! t) (last_addr st ! t)"
    using assms by (auto simp: pli_wf_def)
  note wf = m [unfolded mem_ok_def, THEN conjunct1]
  have ok: "body_ok body" if "btree_map (sysMem st) k = Some body" for k body
    using m that by (auto simp: mem_ok_def)
  show ?thesis
  proof (cases "last_addr st ! t = line_of key")
    case True
    then obtain body where p: "pli_data st ! t = Some (line_of key)" and b: "btree_map (sysMem st) (line_of key) = Some body"
      using c assms(3) by (auto simp: slot_ok_def split: option.splits)
    have "cached_read t (line_of key) key st = Inr (mem_word (sysMem st) key, st)"
      using True p b l assms(2) get_eight_ok [OF ok [OF b]]
      by (simp add: cached_read_def array_at_def follow_atom_def b_Find_map [OF wf] mem_word_def)
    then show ?thesis using assms(1) by blast
  next
    case False
    note miss = False
    show ?thesis
    proof (cases "btree_map (sysMem st) (line_of key)")
      case None
      then have "cached_read t (line_of key) key st = Inr (mem_word (sysMem st) key, st)"
        using miss l assms(2) by (simp add: cached_read_def array_at_def b_Find_map [OF wf] mem_word_def)
      then show ?thesis using assms(1) by blast
    next
      case (Some body)
      define st' where "st' = st\<lparr>sysMem := sysMem st, pli_data := (pli_data st)[t := Some (line_of key)], last_addr := (last_addr st)[t := line_of key]\<rparr>"
      have "cached_read t (line_of key) key st = Inr (mem_word (sysMem st) key, st')"
        using miss l assms(2) Some get_eight_ok [OF ok [OF Some]]
        by (simp add: cached_read_def array_at_def array_put_def b_Find_map [OF wf] mem_word_def st'_def)
      moreover have "pli_wf z st'"
        unfolding st'_def by (rule remember_wf [OF assms(1)]) (use m Some in simp_all)
      ultimately show ?thesis by (auto simp: st'_def)
    qed
  qed
qed

lemma mem_word_change:
  assumes "mem_ok root" and "btree_wf root'" and "body_ok body'"
    and "btree_map root' = (btree_map root)(line_of key \<mapsto> body')"
    and "\<And>key'. line_of key' = line_of key \<Longrightarrow>
      body_word key' body' = (if byte_offset key' = byte_offset key then val else mem_word root key')"
  shows "mem_ok root' \<and> (\<forall>key'. mem_word root' key' = (if dword key' = dword key then val else mem_word root key'))"
proof -
  have "mem_ok root'" using assms(1-4) by (auto simp: mem_ok_def)
  moreover have "mem_word root' key' = (if dword key' = dword key then val else mem_word root key')" for key'
  proof (cases "line_of key' = line_of key")
    case True
    then have "dword key' = dword key \<longleftrightarrow> byte_offset key' = byte_offset key"
      using dword_eq [OF True] by (auto simp: byte_offset_dword)
    then show ?thesis using assms(5) [OF True] True by (simp add: mem_word_def assms(4))
  next
    case False
    then have "dword key' \<noteq> dword key" by (auto simp: line_of_dword)
    then show ?thesis using False by (simp add: mem_word_def assms(4))
  qed
  ultimately show ?thesis by blast
qed

lemma write_64b_ok:
  fixes high low vhigh vlow :: "32 word"
  assumes "pli_wf z st" and "line_of (join_words high low) \<noteq> z"
  defines "key \<equiv> join_words high low" and "val \<equiv> push_bit 32 (ucast vhigh) OR ucast (vlow :: 32 word)"
  shows "\<exists>st'. write_64b_call high low vhigh vlow st = Inr st' \<and> pli_wf z st' \<and>
    (\<forall>key'. mem_word (sysMem st') key' = (if dword key' = dword key then val else mem_word (sysMem st) key'))"
proof -
  have m: "mem_ok (sysMem st)" and l: "length (last_addr st) = 32" "length (pli_data st) = 32"
    and c: "slot_ok z (sysMem st) (pli_data st ! 0) (last_addr st ! 0)"
    using assms(1) by (auto simp: pli_wf_def)
  note wf = m [unfolded mem_ok_def, THEN conjunct1]
  show ?thesis
  proof (cases "btree_map (sysMem st) (line_of key)")
    case None
    then have miss: "last_addr st ! 0 \<noteq> line_of key"
      using c assms(2) by (auto simp: slot_ok_def key_def split: option.splits)
    obtain data where w: "write_eight_byte (at_data clear_body) key val = Inr data" "length data = 65"
        "None \<notin> set (take 64 data)"
        "\<forall>key'. bytes_word (map the (slice (byte_offset key') 8 data)) =
          (if byte_offset key' = byte_offset key then val else bytes_word (map the (slice (byte_offset key') 8 (at_data clear_body))))"
      using write_eight_ok [of "at_data clear_body" key val] by (auto simp: clear_body_def ATOM_DATA_SIZE_def)
    obtain root where i: "b_insert (line_of key, clear_body\<lparr>at_data := data\<rparr>) (sysMem st) = Inr root" "btree_wf root"
        "btree_map root = (btree_map (sysMem st))(line_of key \<mapsto> clear_body\<lparr>at_data := data\<rparr>)"
      using btree.ins [OF wf None] by blast
    have z: "bytes_word (map the (slice (byte_offset key') 8 (at_data clear_body))) = 0" for key'
    proof -
      have "slice (byte_offset key') 8 (at_data clear_body) = replicate 8 (Some 0)"
        using byte_offset_le [of key'] by (simp add: slice_def clear_body_def ATOM_DATA_SIZE_def)
      then show ?thesis by (simp add: bytes_word_def eval_nat_numeral)
    qed
    have "mem_ok root \<and> (\<forall>key'. mem_word root key' = (if dword key' = dword key then val else mem_word (sysMem st) key'))"
      by (rule mem_word_change [OF m i(2) _ i(3)])
        (use w None z in \<open>auto simp: body_ok_def body_word_def mem_word_def\<close>)
    moreover have "write_64b_call high low vhigh vlow st = Inr (st\<lparr>sysMem := root\<rparr>)"
      using miss None w(1) i(1)
      by (simp add: write_64b_call_def Let_def b_Find_map [OF wf] key_def [symmetric] val_def [symmetric])
    moreover have "pli_wf z (st\<lparr>sysMem := root\<rparr>)"
      using calculation(1) assms(1) i(3) by (auto simp: pli_wf_def slot_ok_def split: option.splits)
    ultimately show ?thesis by auto
  next
    case (Some body)
    then have ok: "body_ok body" using m by (auto simp: mem_ok_def)
    obtain data where w: "write_eight_byte (at_data body) key val = Inr data" "length data = 65"
        "None \<notin> set (take 64 data)"
        "\<forall>key'. bytes_word (map the (slice (byte_offset key') 8 data)) =
          (if byte_offset key' = byte_offset key then val else bytes_word (map the (slice (byte_offset key') 8 (at_data body))))"
      using write_eight_ok [of "at_data body" key val] ok by (auto simp: body_ok_def)
    obtain root where u: "b_modify (line_of key) (\<lambda>b. b\<lparr>at_data := data\<rparr>) (sysMem st) = Inr root" "btree_wf root"
        "btree_map root = (btree_map (sysMem st))(line_of key \<mapsto> body\<lparr>at_data := data\<rparr>)"
      using btree.upd [OF wf, of "line_of key" "\<lambda>b. b\<lparr>at_data := data\<rparr>"] Some by auto
    have "mem_ok root \<and> (\<forall>key'. mem_word root key' = (if dword key' = dword key then val else mem_word (sysMem st) key'))"
      by (rule mem_word_change [OF m u(2) _ u(3)])
        (use w Some in \<open>auto simp: body_ok_def body_word_def mem_word_def\<close>)
    moreover define st' where "st' = st\<lparr>sysMem := root, pli_data := (pli_data st)[0 := Some (line_of key)],
        last_addr := (last_addr st)[0 := line_of key]\<rparr>"
    moreover have "write_64b_call high low vhigh vlow st = Inr st'"
      using Some w(1) u(1)
      by (simp add: write_64b_call_def Let_def b_Find_map [OF wf] key_def [symmetric] val_def [symmetric] st'_def)
    moreover have "pli_wf z st'"
      unfolding st'_def by (rule remember_wf [OF assms(1)]) (use calculation(1) u(3) Some in auto)
    ultimately show ?thesis by auto
  qed
qed

end
