(* ===== verification/Mem_Hex.thy ===== *)
theory Mem_Hex
  imports Mem_Text
begin

text \<open>Hexadecimal digits as goldfinger prints them and as the readers of the image take them.\<close>

lemma below16: "(d :: nat) < 16 \<Longrightarrow> d \<in> set [0, 1, 2, 3, 4, 5, 6, 7, 8, 9, 10, 11, 12, 13, 14, 15]"
  by (simp; presburger)

lemma digit_facts:
  "list_all (\<lambda>d. hex_value (hex_digit d) = word_of_nat d \<and> hex_digit d \<notin> {LF, NUL, SPACE, CHR 0x09, CHR ''/'', CHR ''@''} \<and>
      is_digit (hex_digit d) = (d < 10) \<and> scast (word_of_nat d :: u8) = (word_of_nat d :: u64))
    [0, 1, 2, 3, 4, 5, 6, 7, 8, 9, 10, 11, 12, 13, 14, 15]"
  by code_simp

lemma hex_value_digit: "d < 16 \<Longrightarrow> hex_value (hex_digit d) = word_of_nat d"
  and hex_digit_plain: "d < 16 \<Longrightarrow> hex_digit d \<notin> {LF, NUL, SPACE, CHR 0x09, CHR ''/'', CHR ''@''}"
  and hex_digit_decimal: "d < 16 \<Longrightarrow> is_digit (hex_digit d) \<longleftrightarrow> d < 10"
  and scast_digit: "d < 16 \<Longrightarrow> scast (word_of_nat d :: u8) = (word_of_nat d :: u64)"
  using bspec [OF digit_facts [unfolded list_all_iff] below16] by blast+

lemma hex_digits_plain: "c \<in> set (hex_digits w n) \<Longrightarrow> c \<notin> {LF, NUL, SPACE, CHR 0x09, CHR ''/'', CHR ''@''}"
proof (induction w arbitrary: n)
  case (Suc w)
  have "hex_digit (n mod 16) \<notin> {LF, NUL, SPACE, CHR 0x09, CHR ''/'', CHR ''@''}"
    by (rule hex_digit_plain) simp
  then show ?case using Suc by auto
qed simp

lemma word_digit:
  assumes "n < 2 ^ LENGTH('a)" and "4 \<le> LENGTH('a)"
  shows "push_bit 4 (word_of_nat (n div 16)) OR word_of_nat (n mod 16) = (word_of_nat n :: 'a::len word)"
proof (rule bit_word_eqI)
  fix i assume "i < LENGTH('a)"
  have d: "n div 16 = drop_bit 4 n" "n mod 16 = take_bit 4 n" by (simp_all add: drop_bit_eq_div take_bit_eq_mod)
  show "bit (push_bit 4 (word_of_nat (n div 16)) OR word_of_nat (n mod 16) :: 'a word) i = bit (word_of_nat n :: 'a word) i"
    unfolding d by (auto simp: bit_simps)
qed

text \<open>The readers put digits together with shifts.\<close>

lemma foldl_hex_digits:
  fixes put :: "u64 \<Rightarrow> char \<Rightarrow> u64"
  assumes "\<And>v d. d < 16 \<Longrightarrow> put v (hex_digit d) = push_bit 4 v OR word_of_nat d" and "n < 16 ^ w" and "w \<le> 16"
  shows "foldl put 0 (hex_digits w n) = word_of_nat n"
  using assms(2,3)
proof (induction w arbitrary: n)
  case (Suc w)
  have n: "n div 16 < 16 ^ w" using Suc.prems by (simp add: less_mult_imp_div_less mult.commute)
  have "(16 :: nat) ^ Suc w \<le> 16 ^ 16" using Suc.prems(2) by (intro power_increasing) simp_all
  then have "n < 2 ^ LENGTH(64)" using Suc.prems(1) by simp
  from word_digit [OF this] show ?case using Suc.IH [OF n] Suc.prems(2) assms(1) [of "n mod 16"] by simp
qed simp

lemma foldl_hex16:
  fixes put :: "u64 \<Rightarrow> char \<Rightarrow> u64"
  assumes "\<And>v d. d < 16 \<Longrightarrow> put v (hex_digit d) = push_bit 4 v OR word_of_nat d"
  shows "foldl put 0 (hex16 w) = w"
  unfolding hex16_def using foldl_hex_digits [OF assms, of "unat w" 16] unat_less_64 [of w] by simp

subsection \<open>Lines\<close>

lemma fgets_line:
  assumes "LF \<notin> set l" and "length l < n"
  shows "fgets n (l @ LF # s) = (l @ [LF], s)"
  using assms
proof (induction l arbitrary: n)
  case Nil
  then show ?case by (cases n) simp_all
next
  case (Cons c l)
  then show ?case by (cases n) auto
qed

lemma fgets_all_lines:
  assumes "\<forall>l\<in>set ls. LF \<notin> set l \<and> length l < n"
  shows "fgets_all n (concat (map (\<lambda>l. l @ [LF]) ls)) = map (\<lambda>l. l @ [LF]) ls"
  using assms
proof (induction ls)
  case Nil
  then show ?case by (simp add: fgets_all.simps)
next
  case (Cons l ls)
  then show ?case by (simp add: fgets_all.simps [of n "l @ _"] fgets_line)
qed

end
