(* ===== verification/Iop_Load.thy ===== *)
theory Iop_Load
  imports Iop_Main_Refine Mem_Hex
begin

text \<open>
  What the reader of \<^verbatim>\<open>bw_lib.c\<close> makes of the lines that goldfinger prints: address lines, lines of
  words, comments and empty lines. The words after an address are cut into lines of eight, and each
  is inserted under its address; the first one with an address wins.
\<close>

subsection \<open>Lines of the image\<close>

datatype text_line =
    At_line u64 string
  | Data_line "u64 list"
  | Comment_line string
  | Blank_line

fun words_text :: "u64 list \<Rightarrow> string" where
  "words_text [] = []"
| "words_text [w] = hex16 w"
| "words_text (w # ws) = hex16 w @ SPACE # words_text ws"

fun line_text :: "text_line \<Rightarrow> string" where
  "line_text (At_line a c) = ''@'' @ hex16 a @ TAB @ ''// '' @ c"
| "line_text (Data_line ws) = words_text ws"
| "line_text (Comment_line c) = ''// '' @ c"
| "line_text Blank_line = []"

definition file_text :: "text_line list \<Rightarrow> string" where
  "file_text ls = concat (map (\<lambda>l. line_text l @ [LF]) ls)"

definition words_bytes :: "u64 list \<Rightarrow> u8 list" where
  "words_bytes ws = concat (map (word_bytes 8) ws)"

lemma length_words_bytes [simp]: "length (words_bytes ws) = 8 * length ws"
  by (induction ws) (simp_all add: words_bytes_def)

lemma words_bytes_append: "words_bytes (xs @ ys) = words_bytes xs @ words_bytes ys"
  by (simp add: words_bytes_def)

lemma take_words_bytes: "take (8 * n) (words_bytes ws) = words_bytes (take n ws)"
  and drop_words_bytes: "drop (8 * n) (words_bytes ws) = words_bytes (drop n ws)"
proof (induction ws arbitrary: n)
  case (Cons w ws)
  {
    case 1
    show ?case using Cons.IH(1) [of "n - 1"] by (cases n) (simp_all add: words_bytes_def)
  next
    case 2
    show ?case using Cons.IH(2) [of "n - 1"] by (cases n) (simp_all add: words_bytes_def)
  }
qed (simp_all add: words_bytes_def)

subsection \<open>Digits to bytes\<close>

lemma a2h_pair:
  assumes "c < 16" and "d < 16"
  shows "a2h (hex_digit c # hex_digit d # s) = (push_bit 4 (word_of_nat c) OR word_of_nat d) # a2h s"
  using hex_digit_plain [OF assms(1)] hex_digit_plain [OF assms(2)]
  by (simp add: line_end_def hex_value_digit assms)

lemma a2h_space: "a2h (SPACE # s) = a2h s"
  by (cases s) (simp_all add: line_end_def)

lemma a2h_hex_digits:
  "n < 2 ^ 64 \<Longrightarrow> a2h (hex_digits (2 * k) n @ s) = word_bytes k (word_of_nat n) @ a2h s"
proof (induction k arbitrary: n s)
  case (Suc k)
  have d: "n div 256 = drop_bit 8 n" "n div 16 mod 16 = take_bit 4 (drop_bit 4 n)" "n mod 16 = take_bit 4 n"
    by (simp_all add: drop_bit_eq_div take_bit_eq_mod)
  have b: "push_bit 4 (word_of_nat (n div 16 mod 16)) OR word_of_nat (n mod 16) = (ucast (word_of_nat n :: u64) :: u8)"
    unfolding d by (rule bit_word_eqI) (auto simp: bit_simps)
  have h: "(word_of_nat (n div 256) :: u64) = drop_bit 8 (word_of_nat n)"
    using Suc.prems by (simp add: word_unat_eq_iff unat_drop_bit64 unat_of_nat64 div_le_dividend order_le_less_trans)
  have "hex_digits (2 * Suc k) n @ s = hex_digits (2 * k) (n div 256) @ hex_digit (n div 16 mod 16) # hex_digit (n mod 16) # s"
    by (simp add: div_mult2_eq [symmetric])
  moreover have "n div 256 < 2 ^ 64" using Suc.prems by simp
  ultimately show ?case using Suc.IH [of "n div 256"] b h by (simp add: a2h_pair del: a2h.simps)
qed simp

lemma a2h_hex16: "a2h (hex16 w @ s) = word_bytes 8 w @ a2h s"
  using a2h_hex_digits [of "unat w" 8 s] unat_less_64 [of w] by (simp add: hex16_def)

lemma a2h_words: "a2h (words_text ws @ [LF]) = words_bytes ws"
  by (induction ws rule: words_text.induct) (simp_all add: a2h_hex16 a2h_space words_bytes_def line_end_def)

subsection \<open>One line\<close>

definition plain :: "string \<Rightarrow> bool" where
  "plain c \<longleftrightarrow> LF \<notin> set c \<and> NUL \<notin> set c"

fun line_ok :: "text_line \<Rightarrow> bool" where
  "line_ok (At_line a c) \<longleftrightarrow> a AND 0x3f = 0 \<and> plain c \<and> length c < 900"
| "line_ok (Data_line ws) \<longleftrightarrow> ws \<noteq> [] \<and> length ws \<le> 8"
| "line_ok (Comment_line c) \<longleftrightarrow> plain c \<and> length c < 900"
| "line_ok Blank_line \<longleftrightarrow> True"

lemma hex16_plain: "c \<in> set (hex16 a) \<Longrightarrow> c \<notin> {LF, NUL, SPACE, CHR 0x09, CHR ''/'', CHR ''@''}"
  unfolding hex16_def by (rule hex_digits_plain)

lemma words_text_chars: "c \<in> set (words_text ws) \<Longrightarrow> c = SPACE \<or> c \<in> (\<Union>w. set (hex16 w))"
  by (induction ws rule: words_text.induct) auto

lemma words_text_plain: "c \<in> set (words_text ws) \<Longrightarrow> c \<notin> {LF, NUL, CHR 0x09, CHR ''/'', CHR ''@''}"
  using words_text_chars hex16_plain by fastforce

lemma hex16_hd: "hex16 w = hd (hex16 w) # tl (hex16 w)" and hex16_length: "length (hex16 w) = 16"
proof -
  show "length (hex16 w) = 16" by (simp add: hex16_def)
  then show "hex16 w = hd (hex16 w) # tl (hex16 w)" by (cases "hex16 w") simp_all
qed

lemma words_text_hd: "ws \<noteq> [] \<Longrightarrow> \<exists>c s. words_text ws = c # s \<and> c \<notin> {LF, NUL, SPACE, CHR 0x09, CHR ''/'', CHR ''@''}"
proof -
  assume "ws \<noteq> []"
  then obtain w s where "words_text ws = hex16 w @ s" by (cases ws rule: words_text.cases) auto
  moreover have "hd (hex16 w) \<in> set (hex16 w)" using hex16_hd [of w] by (metis list.set_intros(1))
  ultimately show ?thesis using hex16_plain hex16_hd [of w] by (metis append_Cons)
qed

lemma words_text_length: "length (words_text ws) \<le> 17 * length ws"
  by (induction ws rule: words_text.induct) (simp_all add: hex16_length)

lemma line_text_ok:
  assumes "line_ok l"
  shows "LF \<notin> set (line_text l)" and "NUL \<notin> set (line_text l)" and "length (line_text l) < 1022"
proof -
  show "LF \<notin> set (line_text l)" "NUL \<notin> set (line_text l)"
    using assms words_text_plain hex16_plain by (cases l; fastforce simp: plain_def TAB_def)+
  show "length (line_text l) < 1022"
  proof (cases l)
    case (Data_line ws)
    then show ?thesis using assms words_text_length [of ws] by simp
  qed (use assms in \<open>simp_all add: hex16_length TAB_def\<close>)
qed

lemma takeWhile_line:
  assumes "line_ok l"
  shows "takeWhile (\<lambda>c. c \<noteq> NUL) (line_text l @ [LF]) = line_text l @ [LF]"
  using line_text_ok(2) [OF assms] by (simp add: takeWhile_eq_all_conv) auto

lemma getAddr_data: "getAddr (words_text ws @ [LF]) 0 = (words_text ws @ [LF], None)"
proof -
  have "takeWhile (\<lambda>c. c \<noteq> x) (words_text ws @ [LF]) = words_text ws @ [LF]" if "x = CHR ''/'' \<or> x = CHR ''@''" for x
    using words_text_plain that by (simp add: takeWhile_eq_all_conv) blast
  then show ?thesis by (simp add: getAddr_def cut_comment_def Let_def)
qed

lemma getAddr_at:
  assumes "a AND 0x3f = 0"
  shows "getAddr (''@'' @ hex16 a @ TAB @ ''// '' @ c @ [LF]) 0 = (''@'' @ hex16 a, Some a)"
proof -
  define buf where "buf = ''@'' @ hex16 a @ TAB @ ''// '' @ c @ [LF]"
  have "unat a mod 16 = 0"
  proof -
    have "take_bit 6 a = 0" using assms by (simp add: masks take_bit_eq_mask)
    then have "take_bit 4 (take_bit 6 a) = 0" by simp
    then have "unat (take_bit 4 a) = 0" by (simp add: take_bit_take_bit)
    then show ?thesis by (simp add: unat_mod take_bit_eq_mod)
  qed
  then obtain s where s: "hex16 a = s @ [hex_digit 0]" using hex_digits.simps(2) [of 15 "unat a"] by (simp add: hex16_def)
  have d: "is_digit (hex_digit 0)" by (simp add: hex_digit_decimal)
  have t: "takeWhile (\<lambda>x. x \<noteq> CHR ''/'') buf = ''@'' @ hex16 a @ TAB"
  proof -
    have "CHR ''/'' \<notin> set (hex16 a)" using hex16_plain by blast
    then have "takeWhile (\<lambda>x. x \<noteq> CHR ''/'') (hex16 a @ TAB @ ''// '' @ c @ [LF]) = hex16 a @ TAB"
      by (subst takeWhile_append2) (auto simp: TAB_def)
    then show ?thesis by (simp add: buf_def)
  qed
  have len: "length s = 15" using hex16_length [of a] by (simp add: s)
  have tab: "\<not> is_digit (CHR 0x09)" by (simp add: is_digit_def)
  have digit: "\<exists>j<18. is_digit (buf ! j)"
    using d len by (intro exI [of _ 16]) (simp add: buf_def s nth_append nth_Cons')
  have "take 18 buf = ''@'' @ s @ [hex_digit 0, CHR 0x09]" using len by (simp add: buf_def s TAB_def)
  then have "dropWhile (\<lambda>c. \<not> is_digit c) (rev (take 18 buf)) = hex_digit 0 # rev (''@'' @ s)"
    using d tab by simp
  then have "cut_comment buf 0 = take 17 buf"
    using t digit len hex16_length [of a] by (simp add: cut_comment_def Let_def TAB_def) (simp add: buf_def hex16_length)
  then have "cut_comment buf 0 = ''@'' @ hex16 a" by (simp add: buf_def hex16_length)
  moreover have "getEight (''@'' @ hex16 a) 1 = a"
    unfolding getEight_def by (simp add: foldl_hex16 hex_value_digit scast_digit)
  ultimately show ?thesis by (simp add: getAddr_def Let_def buf_def)
qed

lemma read_data_line:
  assumes "line_ok (Data_line ws)"
  shows "read_line prior (line_text (Data_line ws) @ [LF]) st = res_bind (store_bytes (words_bytes ws) st) save_lines"
proof -
  obtain c s where hd: "words_text ws = c # s" "c \<notin> {LF, NUL, SPACE, CHR 0x09, CHR ''/'', CHR ''@''}"
    using words_text_hd assms by force
  have r: "rmSpace (words_text ws @ [LF]) 0 = Some 0"
    using hd by (simp add: rmSpace_def remove_leading_space_def char_at_def line_end_def)
  have "\<not> has_prefix ''//'' (words_text ws @ [LF]) 0" using hd by (simp add: has_prefix_def)
  then show ?thesis
    using takeWhile_line [OF assms] r getAddr_data [of ws] a2h_words [of ws]
    by (simp add: read_line_def Let_def)
qed

lemma read_at_line:
  assumes "line_ok (At_line a c)" and "rm_cidx st = 0"
  shows "read_line prior (line_text (At_line a c) @ [LF]) st = Inr (st\<lparr>rm_addr := a, rm_cidx := 0\<rparr>)"
proof -
  have r: "rmSpace (line_text (At_line a c) @ [LF]) 0 = Some 0"
    by (simp add: rmSpace_def remove_leading_space_def char_at_def line_end_def)
  have "\<not> has_prefix ''//'' (line_text (At_line a c) @ [LF]) 0" by (simp add: has_prefix_def)
  then show ?thesis
    using takeWhile_line [OF assms(1)] r getAddr_at [of a c] assms by (simp add: read_line_def Let_def)
qed

lemma read_blank_line: "read_line prior (line_text Blank_line @ [LF]) st = Inr st"
  by (simp add: read_line_def rmSpace_def remove_leading_space_def char_at_def line_end_def has_prefix_def
      zero_comment_def Let_def)

lemma read_comment_line:
  assumes "line_ok (Comment_line c)"
  shows "\<exists>z. read_line prior (line_text (Comment_line c) @ [LF]) st = Inr (st\<lparr>rm_zero := z\<rparr>)"
proof -
  have r: "rmSpace (line_text (Comment_line c) @ [LF]) 0 = Some 0"
    by (simp add: rmSpace_def remove_leading_space_def char_at_def line_end_def)
  have h: "has_prefix ''//'' (line_text (Comment_line c) @ [LF]) 0" by (simp add: has_prefix_def)
  have "read_line prior (line_text (Comment_line c) @ [LF]) st =
      Inr (st\<lparr>rm_zero := rm_zero st \<or> zero_comment prior (line_text (Comment_line c) @ [LF]) 2\<rparr>)"
    using takeWhile_line [OF assms] r h
    by (cases "zero_comment prior (line_text (Comment_line c) @ [LF]) 2") (simp_all add: read_line_def numeral_2_eq_2)
  then show ?thesis by blast
qed

subsection \<open>The lines of 64 bytes\<close>

function lines_of :: "u64 \<Rightarrow> u64 list \<Rightarrow> (u64 \<times> u64 list) list" where
  "lines_of a ws = (if 8 \<le> length ws then (a, take 8 ws) # lines_of (a + 64) (drop 8 ws) else [])"
  by pat_completeness auto

termination
  by (relation "measure (\<lambda>(a, ws). length ws)") auto

declare lines_of.simps [simp del]

definition line_body :: "u64 list \<Rightarrow> atom_body" where
  "line_body ws = \<lparr>at_size = 64, at_data = map Some (words_bytes ws) @ [Some 0]\<rparr>"

definition put_line :: "u64 \<times> u64 list \<Rightarrow> (u64 \<Rightarrow> atom_body option) \<Rightarrow> (u64 \<Rightarrow> atom_body option)" where
  "put_line l m = (if m (line_of (fst l)) = None then m(line_of (fst l) \<mapsto> line_body (snd l)) else m)"

definition reading :: "u64 \<Rightarrow> u64 list \<Rightarrow> read_state \<Rightarrow> bool" where
  "reading a pend st \<longleftrightarrow> rm_addr st = a \<and> rm_cidx st = 8 * length pend \<and> length (rm_cbuf st) = BUFFER \<and>
    take (8 * length pend) (rm_cbuf st) = map Some (words_bytes pend) \<and> btree_wf (rm_root st)"

lemma store_bytes_reading:
  assumes "reading a pend st" and "length pend + length ws \<le> 128"
  shows "\<exists>st'. store_bytes (words_bytes ws) st = Inr st' \<and> reading a (pend @ ws) st' \<and> rm_root st' = rm_root st \<and>
    rm_addr_list st' = rm_addr_list st"
  using assms by (simp add: reading_def store_bytes_def Let_def BUFFER_def words_bytes_append)

lemma save_lines_reading:
  assumes "reading a pend st" and "length pend \<le> 128"
  shows "\<exists>st'. save_lines st = Inr st' \<and>
    reading (a + 64 * of_nat (length pend div 8)) (drop (8 * (length pend div 8)) pend) st' \<and>
    btree_map (rm_root st') = fold put_line (lines_of a pend) (btree_map (rm_root st))"
  using assms
proof (induction pend arbitrary: a st rule: length_induct)
  case (1 pend)
  note r = 1(2) [unfolded reading_def]
  show ?case
  proof (cases "8 \<le> length pend")
    case False
    then have "save_lines st = Inr st" using r by (simp add: save_lines.simps)
    then show ?thesis using False 1(2) by (simp add: lines_of.simps [of a pend])
  next
    case True
    have c: "64 \<le> rm_cidx st" "rm_cidx st \<le> BUFFER" using True r 1(3) by (simp_all add: BUFFER_def)
    have "take 64 (rm_cbuf st) = take 64 (take (8 * length pend) (rm_cbuf st))" using True by (simp add: min_def)
    also have "\<dots> = map Some (words_bytes (take 8 pend))"
      using r take_words_bytes [of 8 pend] by (simp add: take_map)
    finally have b: "new_body 64 (rm_cbuf st) = line_body (take 8 pend)"
      by (simp add: new_body_def line_body_def ATOM_DATA_SIZE_def)
    obtain root where i: "b_insert (mask_addr a, line_body (take 8 pend)) (rm_root st) = Inr root" "btree_wf root"
        "btree_map root = put_line (a, take 8 pend) (btree_map (rm_root st))"
      using b_insert_map [of "rm_root st" "(mask_addr a, line_body (take 8 pend))"] r
      by (auto simp: put_line_def mask_addr_line)
    obtain al where save: "save_atom 64 a st = Inr (st\<lparr>rm_root := root, rm_addr_list := al\<rparr>)"
      using i(1) b by (simp add: save_atom_def)
    define st1 where "st1 = st\<lparr>rm_root := root, rm_addr_list := al,
      rm_cbuf := take (rm_cidx st - 64) (drop 64 (rm_cbuf st)) @ drop (rm_cidx st - 64) (rm_cbuf st),
      rm_cidx := rm_cidx st - 64, rm_addr := a + 64\<rparr>"
    have step: "save_lines st = save_lines st1"
      using c r save by (simp add: save_lines.simps [of st] align_buf_def st1_def)
    have "take (rm_cidx st - 64) (drop 64 (rm_cbuf st)) = drop 64 (take (8 * length pend) (rm_cbuf st))"
      unfolding r [THEN conjunct2, THEN conjunct1] by (rule drop_take [symmetric])
    also have "\<dots> = map Some (words_bytes (drop 8 pend))"
      using r drop_words_bytes [of 8 pend] by (simp add: drop_map)
    finally have r1: "reading (a + 64) (drop 8 pend) st1"
      using r c i(2) by (auto simp: reading_def st1_def)
    have lt: "length (drop 8 pend) < length pend" and le: "length (drop 8 pend) \<le> 128" using True 1(3) by auto
    obtain st' where st': "save_lines st1 = Inr st'"
        "reading (a + 64 + 64 * of_nat (length (drop 8 pend) div 8)) (drop (8 * (length (drop 8 pend) div 8)) (drop 8 pend)) st'"
        "btree_map (rm_root st') = fold put_line (lines_of (a + 64) (drop 8 pend)) (btree_map root)"
      using 1(1) [rule_format, OF lt r1 le] by (auto simp: st1_def)
    have n: "length pend div 8 = Suc (length (drop 8 pend) div 8)"
      using True by (simp add: div_if)
    have e: "a + 64 + 64 * of_nat (length (drop 8 pend) div 8) = a + 64 * of_nat (length pend div 8)"
      "drop (8 * (length (drop 8 pend) div 8)) (drop 8 pend) = drop (8 * (length pend div 8)) pend"
      unfolding n by (simp_all add: algebra_simps)
    show ?thesis using step st'(1,3) st'(2) [unfolded e] True i(3) by (simp add: lines_of.simps [of a pend])
  qed
qed

subsection \<open>The file\<close>

fun tidy :: "text_line list \<Rightarrow> nat \<Rightarrow> bool" where
  "tidy [] n \<longleftrightarrow> n = 0"
| "tidy (At_line a c # ls) n \<longleftrightarrow> line_ok (At_line a c) \<and> n = 0 \<and> tidy ls 0"
| "tidy (Data_line ws # ls) n \<longleftrightarrow> line_ok (Data_line ws) \<and> tidy ls ((n + length ws) mod 8)"
| "tidy (l # ls) n \<longleftrightarrow> line_ok l \<and> tidy ls n"

fun file_lines :: "text_line list \<Rightarrow> u64 \<Rightarrow> u64 list \<Rightarrow> (u64 \<times> u64 list) list" where
  "file_lines [] a pend = []"
| "file_lines (At_line b c # ls) a pend = file_lines ls b []"
| "file_lines (Data_line ws # ls) a pend =
    lines_of a (pend @ ws) @
    file_lines ls (a + 64 * of_nat (length (pend @ ws) div 8)) (drop (8 * (length (pend @ ws) div 8)) (pend @ ws))"
| "file_lines (_ # ls) a pend = file_lines ls a pend"

lemma read_lines_fold:
  assumes "tidy ls (length pend)" and "reading a pend st" and "length pend < 8"
  shows "\<exists>st' b. res_fold (read_line prior) (map (\<lambda>l. line_text l @ [LF]) ls) st = Inr st' \<and> reading b [] st' \<and>
    btree_map (rm_root st') = fold put_line (file_lines ls a pend) (btree_map (rm_root st))"
  using assms
proof (induction ls arbitrary: a pend st)
  case Nil
  then show ?case by auto
next
  case (Cons l ls)
  show ?case
  proof (cases l)
    case (At_line b c)
    then have "reading b [] (st\<lparr>rm_addr := b, rm_cidx := 0\<rparr>)" "tidy ls 0" "line_ok (At_line b c)" "rm_cidx st = 0"
      using Cons.prems by (auto simp: reading_def words_bytes_def)
    then show ?thesis using Cons.IH [of "[]" b "st\<lparr>rm_addr := b, rm_cidx := 0\<rparr>"] At_line read_at_line
      by (simp del: line_text.simps line_ok.simps)
  next
    case (Data_line ws)
    define n where "n = length (pend @ ws) div 8"
    have ok: "line_ok (Data_line ws)" "length ws \<le> 8" "tidy ls ((length pend + length ws) mod 8)"
      using Cons.prems(1) Data_line by auto
    obtain st1 where st1: "store_bytes (words_bytes ws) st = Inr st1" "reading a (pend @ ws) st1" "rm_root st1 = rm_root st"
      using store_bytes_reading [OF Cons.prems(2), of ws] ok(2) Cons.prems(3) by auto
    obtain st2 where st2: "save_lines st1 = Inr st2" "reading (a + 64 * of_nat n) (drop (8 * n) (pend @ ws)) st2"
        "btree_map (rm_root st2) = fold put_line (lines_of a (pend @ ws)) (btree_map (rm_root st))"
      using save_lines_reading [OF st1(2)] ok(2) Cons.prems(3) st1(3) by (auto simp: n_def)
    have m: "length (drop (8 * n) (pend @ ws)) = (length pend + length ws) mod 8"
      unfolding n_def length_drop minus_mult_div_eq_mod by simp
    then obtain st' b where "res_fold (read_line prior) (map (\<lambda>l. line_text l @ [LF]) ls) st2 = Inr st'" "reading b [] st'"
        "btree_map (rm_root st') = fold put_line (file_lines ls (a + 64 * of_nat n) (drop (8 * n) (pend @ ws))) (btree_map (rm_root st2))"
      using Cons.IH [OF _ st2(2)] ok(3) by auto
    then show ?thesis
      using read_data_line [OF ok(1)] st1(1) st2(1,3) by (auto simp: Data_line n_def simp del: line_text.simps)
  next
    case (Comment_line c)
    then obtain z where "read_line prior (line_text l @ [LF]) st = Inr (st\<lparr>rm_zero := z\<rparr>)"
      using read_comment_line Cons.prems(1) by fastforce
    moreover have "reading a pend (st\<lparr>rm_zero := z\<rparr>)" using Cons.prems(2) by (simp add: reading_def)
    ultimately show ?thesis using Cons.IH [of pend a "st\<lparr>rm_zero := z\<rparr>"] Cons.prems Comment_line
      by (simp del: line_text.simps)
  next
    case Blank_line
    then show ?thesis using Cons read_blank_line by (simp del: line_text.simps)
  qed
qed

lemma tidy_ok: "tidy ls n \<Longrightarrow> l \<in> set ls \<Longrightarrow> line_ok l"
  by (induction ls n rule: tidy.induct) auto

lemma file_text_lines:
  assumes "\<forall>l\<in>set ls. line_ok l"
  shows "fgets_all (BUFFER - 1) (file_text ls) = map (\<lambda>l. line_text l @ [LF]) ls"
  using fgets_all_lines [of "map line_text ls" "BUFFER - 1"] assms line_text_ok
  by (force simp: file_text_def BUFFER_def o_def)

lemma read_mem_lines:
  assumes "tidy ls 0" and "btree_wf root"
  shows "\<exists>root' addrs. read_mem prior (file_text ls) root = Inr (root', addrs) \<and> btree_wf root' \<and>
    btree_map root' = fold put_line (file_lines ls 0 []) (btree_map root)"
proof -
  have "fgets_all (BUFFER - 1) (file_text ls) = map (\<lambda>l. line_text l @ [LF]) ls"
    using file_text_lines tidy_ok [OF assms(1)] by blast
  moreover have "reading 0 [] (start_state root)" using assms(2) by (simp add: reading_def start_state_def words_bytes_def)
  ultimately show ?thesis
    using read_lines_fold [of ls "[]" 0 "start_state root" prior] assms(1)
    by (auto simp: read_mem_def start_state_def reading_def)
qed

subsection \<open>A last line that is not full\<close>

fun line_words :: "text_line \<Rightarrow> u64 list" where
  "line_words (Data_line ws) = ws"
| "line_words _ = []"

text \<open>Lines without an address, with less words than fill a line, leave the memory alone.\<close>

definition short_tail :: "text_line list \<Rightarrow> bool" where
  "short_tail ls \<longleftrightarrow>
    (\<forall>l \<in> set ls. line_ok l \<and> (\<forall>a c. l \<noteq> At_line a c)) \<and> length (concat (map line_words ls)) < 8"

lemma read_tail_fold:
  assumes "short_tail ls" and "reading a pend st" and "length pend + length (concat (map line_words ls)) < 8"
  shows "\<exists>st'. res_fold (read_line prior) (map (\<lambda>l. line_text l @ [LF]) ls) st = Inr st' \<and>
    rm_root st' = rm_root st \<and> rm_addr_list st' = rm_addr_list st"
  using assms
proof (induction ls arbitrary: pend st)
  case (Cons l ls)
  have ok: "line_ok l" "short_tail ls" using Cons.prems(1) by (auto simp: short_tail_def)
  show ?case
  proof (cases l)
    case (At_line b c)
    then show ?thesis using Cons.prems(1) by (auto simp: short_tail_def)
  next
    case (Data_line ws)
    obtain st1 where st1: "store_bytes (words_bytes ws) st = Inr st1" "reading a (pend @ ws) st1"
        "rm_root st1 = rm_root st" "rm_addr_list st1 = rm_addr_list st"
      using store_bytes_reading [OF Cons.prems(2), of ws] Cons.prems(3) Data_line by auto
    have "save_lines st1 = Inr st1"
      using st1(2) Cons.prems(3) Data_line by (simp add: save_lines.simps reading_def)
    then have "read_line prior (line_text l @ [LF]) st = Inr st1"
      unfolding Data_line using read_data_line ok(1) st1(1) Data_line by (simp del: line_text.simps)
    then show ?thesis using Cons.IH [OF ok(2) st1(2)] Cons.prems(3) st1(3,4) Data_line by (simp del: line_text.simps)
  next
    case (Comment_line c)
    then obtain z where "read_line prior (line_text l @ [LF]) st = Inr (st\<lparr>rm_zero := z\<rparr>)"
      using read_comment_line ok(1) by fastforce
    moreover have "reading a pend (st\<lparr>rm_zero := z\<rparr>)" using Cons.prems(2) by (simp add: reading_def)
    ultimately show ?thesis using Cons.IH [OF ok(2), of pend "st\<lparr>rm_zero := z\<rparr>"] Cons.prems(3) Comment_line
      by (simp del: line_text.simps)
  next
    case Blank_line
    then show ?thesis using Cons.IH [OF ok(2) Cons.prems(2)] Cons.prems(3) read_blank_line by (simp del: line_text.simps)
  qed
qed simp

lemma read_mem_tail:
  assumes "tidy ls 0" and "short_tail ts" and "btree_wf root"
  shows "read_mem prior (file_text (ls @ ts)) root = read_mem prior (file_text ls) root"
proof -
  have "\<forall>l \<in> set (ls @ ts). line_ok l" using tidy_ok [OF assms(1)] assms(2) by (auto simp: short_tail_def)
  then have f: "fgets_all (BUFFER - 1) (file_text (ls @ ts)) = map (\<lambda>l. line_text l @ [LF]) (ls @ ts)"
    "fgets_all (BUFFER - 1) (file_text ls) = map (\<lambda>l. line_text l @ [LF]) ls"
    using file_text_lines [of "ls @ ts"] file_text_lines [of ls] by simp_all
  have "reading 0 [] (start_state root)" using assms(3) by (simp add: reading_def start_state_def words_bytes_def)
  then obtain st b where st: "res_fold (read_line prior) (map (\<lambda>l. line_text l @ [LF]) ls) (start_state root) = Inr st"
      "reading b [] st"
    using read_lines_fold [of ls "[]" 0 "start_state root" prior] assms(1) by auto
  obtain st' where "res_fold (read_line prior) (map (\<lambda>l. line_text l @ [LF]) ts) st = Inr st'"
      "rm_root st' = rm_root st" "rm_addr_list st' = rm_addr_list st"
    using read_tail_fold [OF assms(2) st(2), of prior] assms(2) unfolding short_tail_def by auto
  then show ?thesis unfolding read_mem_def f by (simp add: res_fold_append st(1) del: line_text.simps)
qed

end
