(* ===== verification/Iop_Image.thy ===== *)
theory Iop_Image
  imports Iop_Load
begin

text \<open>
  The image that goldfinger prints, read by the I/O model: when the words of the image fill whole
  lines of 64 bytes and no line is given twice, the memory in the B-tree is the memory that the
  items of the image describe, with zeros where there is none.
\<close>

subsection \<open>Items as lines of text\<close>

text \<open>\<open>p\<close> are the words on the line so far.\<close>

fun text_lines :: "item list \<Rightarrow> u64 list \<Rightarrow> text_line list" where
  "text_lines [] p = []"
| "text_lines (Newline # is) p = (if p = [] then Blank_line else Data_line p) # text_lines is []"
| "text_lines (At a c # is) p = At_line a c # text_lines is []"
| "text_lines (Comment c # is) p = Comment_line c # text_lines is []"
| "text_lines (Quad a b c d # is) p = Data_line [a, b, c, d] # text_lines is []"
| "text_lines (Pair sp a b # is) p = text_lines is (p @ [word_cat a b])"
| "text_lines (ZeroBytes n # is) p = text_lines is p"

fun printable :: "item list \<Rightarrow> u64 list \<Rightarrow> bool" where
  "printable [] p \<longleftrightarrow> p = []"
| "printable (Newline # is) p \<longleftrightarrow> printable is []"
| "printable (Pair sp a b # is) p \<longleftrightarrow> (sp \<longleftrightarrow> p \<noteq> []) \<and> printable is (p @ [word_cat a b])"
| "printable (ZeroBytes n # is) p \<longleftrightarrow> False"
| "printable (i # is) p \<longleftrightarrow> p = [] \<and> printable is []"

lemma words_text_snoc: "words_text (p @ [w]) = words_text p @ (if p = [] then [] else [SPACE]) @ hex16 w"
  by (induction p rule: words_text.induct) simp_all

lemma hex_digits_add: "hex_digits (v + w) n = hex_digits v (n div 16 ^ w) @ hex_digits w (n mod 16 ^ w)"
proof (induction w arbitrary: n)
  case (Suc w)
  have "n div 16 div 16 ^ w = n div 16 ^ Suc w" by (simp add: div_mult2_eq)
  moreover have "n div 16 mod 16 ^ w = n mod 16 ^ Suc w div 16" by (simp add: mod_mult2_eq)
  moreover have "n mod 16 ^ Suc w mod 16 = n mod 16" by (simp add: mod_mod_cancel)
  ultimately show ?case using Suc.IH [of "n div 16"] by simp
qed simp

lemma hex16_word_cat: "hex16 (word_cat a b) = hex8 a @ hex8 b"
proof -
  let ?w = "word_cat a b :: u64"
  have "drop_bit 32 ?w = ucast a"
    by (rule bit_word_eqI) (auto simp: bit_simps dest: bit_imp_le_length)
  moreover have "take_bit 32 ?w = ucast b"
    by (rule bit_word_eqI) (auto simp: bit_simps dest: bit_imp_le_length)
  ultimately have "unat (drop_bit 32 ?w) = unat a" "unat (take_bit 32 ?w) = unat b" 
    by (simp_all add: unsigned_ucast_eq take_bit_nat_eq_self order_less_trans [OF unsigned_less])
  then have "unat ?w div 2 ^ 32 = unat a" "unat ?w mod 2 ^ 32 = unat b"
    by (simp_all add: unat_drop_bit64 unsigned_take_bit_eq take_bit_eq_mod unat_mod)
  then show ?thesis using hex_digits_add [of 8 8 "unat ?w"] by (simp add: hex16_def hex8_def)
qed

lemma render_text: "printable is p \<Longrightarrow> words_text p @ render is = file_text (text_lines is p)"
proof (induction "is" p rule: text_lines.induct)
  case (6 sp a b "is" p)
  then have "words_text (p @ [word_cat a b]) @ render is = file_text (text_lines is (p @ [word_cat a b]))" by simp
  then show ?case using 6(2) by (auto simp: words_text_snoc hex16_word_cat render_def)
qed (auto simp: render_def file_text_def NL_def)

lemma text_lines_append:
  "printable is p \<Longrightarrow> text_lines (is @ js) p = text_lines is p @ text_lines js [] \<and>
    printable (is @ js) p = printable js []"
  by (induction "is" p rule: text_lines.induct) auto

text \<open>The end of an image that fills no whole line of 64 bytes is not read.\<close>

lemma read_mem_short:
  assumes "printable is []" and "tidy (text_lines is []) 0"
    and "printable js []" and "short_tail (text_lines js [])" and "btree_wf root"
  shows "read_mem prior (render (is @ js)) root = read_mem prior (render is) root"
proof -
  have "render (is @ js) = file_text (text_lines is [] @ text_lines js [])"
    using text_lines_append [OF assms(1), of js] assms(3) render_text [of "is @ js" "[]"] by simp
  moreover have "render is = file_text (text_lines is [])" using render_text [OF assms(1)] by simp
  ultimately show ?thesis using read_mem_tail [OF assms(2,4,5)] by simp
qed

subsection \<open>The memory that the lines describe\<close>

definition load_line :: "u64 \<times> u64 list \<Rightarrow> memory \<Rightarrow> memory" where
  "load_line l m = store64s (fst l) (snd l) m"

text \<open>The words that do not fill a line are stored behind the lines.\<close>

lemma load_lines_of:
  "store64s (a + 64 * of_nat (length ws div 8)) (drop (8 * (length ws div 8)) ws) (fold load_line (lines_of a ws) m) =
    store64s a ws m"
proof (induction a ws arbitrary: m rule: lines_of.induct)
  case (1 a ws)
  show ?case
  proof (cases "8 \<le> length ws")
    case True
    define n where "n = length (drop 8 ws) div 8"
    have n: "length ws div 8 = Suc n" using True by (simp add: n_def div_if)
    have s: "store64s a ws m = store64s (a + 64) (drop 8 ws) (store64s a (take 8 ws) m)"
    proof -
      have "advance a (length (take 8 ws)) = a + 64" using True by (simp add: advance_def min_def)
      then show ?thesis using store64s_append [of a "take 8 ws" "drop 8 ws" m] by (simp only: append_take_drop_id)
    qed
    have e: "a + 64 * of_nat (length ws div 8) = a + 64 + 64 * of_nat n" "drop (8 * (length ws div 8)) ws = drop (8 * n) (drop 8 ws)"
      unfolding n by (simp_all add: algebra_simps)
    have l: "fold load_line (lines_of a ws) m = fold load_line (lines_of (a + 64) (drop 8 ws)) (store64s a (take 8 ws) m)"
      using True by (simp add: lines_of.simps [of a ws] load_line_def)
    show ?thesis unfolding s e l using 1 [OF True, of "store64s a (take 8 ws) m"] unfolding n_def .
  next
    case False
    then show ?thesis by (simp add: lines_of.simps [of a ws])
  qed
qed

lemma cursor_of:
  "advance (a + 64 * of_nat (length ws div 8)) (length (drop (8 * (length ws div 8)) ws)) = advance a (length ws)"
proof -
  define k where "k = length ws div 8"
  have k: "8 * k \<le> length ws" by (simp add: k_def)
  have "(64 :: u64) * of_nat k = of_nat (8 * (8 * k))" by (simp only: of_nat_mult) simp
  moreover have "8 * (8 * k) + 8 * (length ws - 8 * k) = 8 * length ws" using k by arith
  ultimately show ?thesis
    unfolding advance_def length_drop k_def [symmetric] by (simp only: add.assoc flip: of_nat_add)
qed

lemma load_items_lines:
  assumes "printable is p" and "tidy (text_lines is p) (length pend)"
  shows "snd (load_items is (advance a (length (pend @ p)), store64s a (pend @ p) m)) =
    fold load_line (file_lines (text_lines is p) a pend) m"
  using assms
proof (induction "is" p arbitrary: a pend m rule: text_lines.induct)
  case (2 "is" p)
  show ?case
  proof (cases "p = []")
    case True
    then show ?thesis using 2(1) [of pend a m] 2(2,3) by simp
  next
    case False
    have t: "tidy (text_lines is []) (length (drop (8 * (length (pend @ p) div 8)) (pend @ p)))"
      using 2(3) False unfolding length_drop minus_mult_div_eq_mod by simp
    show ?thesis
      using 2(1) [OF _ t, of "a + 64 * of_nat (length (pend @ p) div 8)" "fold load_line (lines_of a (pend @ p)) m"] 2(2) False
      unfolding append_Nil2 cursor_of load_lines_of by simp
  qed
next
  case (3 b c "is" p)
  then show ?case using 3(1) [of "[]" b m] by (simp del: line_ok.simps)
next
  case (5 w x y z "is" p)
  let ?q = "[w, x, y, z]"
  have t: "tidy (text_lines is []) (length (drop (8 * (length (pend @ ?q) div 8)) (pend @ ?q)))"
    using 5(3) unfolding length_drop minus_mult_div_eq_mod by (simp add: add.commute)
  have "put_words ?q (advance a (length pend), store64s a pend m) = (advance a (length (pend @ ?q)), store64s a (pend @ ?q) m)"
    by (simp add: put_words_def store64s_append advance_advance)
  then show ?case
    using 5(1) [OF _ t, of "a + 64 * of_nat (length (pend @ ?q) div 8)" "fold load_line (lines_of a (pend @ ?q)) m"] 5(2)
    unfolding append_Nil2 cursor_of load_lines_of by simp
next
  case (6 sp v w "is" p)
  have "put_words [word_cat v w] (advance a (length (pend @ p)), store64s a (pend @ p) m) =
      (advance a (length (pend @ p @ [word_cat v w])), store64s a (pend @ p @ [word_cat v w]) m)"
    using store64s_append [of a "pend @ p" "[word_cat v w]" m] by (simp add: put_words_def advance_advance)
  then show ?case using 6(1) [of pend a m] 6(2,3) by simp
qed auto

subsection \<open>The two memories\<close>

text \<open>What a map of lines and a memory of words hold at the address of a doubleword.\<close>

definition map_word :: "(u64 \<Rightarrow> atom_body option) \<Rightarrow> u64 \<Rightarrow> u64" where
  "map_word b x = (case b (line_of x) of None \<Rightarrow> 0 | Some body \<Rightarrow> body_word x body)"

definition line_fits :: "u64 \<times> u64 list \<Rightarrow> bool" where
  "line_fits l \<longleftrightarrow> take_bit 6 (fst l) = 0 \<and> fst l < 2 ^ 40 \<and> length (snd l) = 8"

definition in_reach :: "u64 \<Rightarrow> bool" where
  "in_reach x \<longleftrightarrow> take_bit 3 x = 0 \<and> x < 2 ^ 40"

lemma line_of_nat: "unat (line_of x) = unat x mod 2 ^ 40 div 64"
  unfolding line_of_def masks
  by (simp add: unat_drop_bit64 take_bit_eq_mask [symmetric] unsigned_take_bit_eq take_bit_eq_mod unat_mod)

lemma byte_offset_nat: "byte_offset x = 8 * (unat x div 8 mod 8)"
proof -
  have "take_bit 3 (dword x) = take_bit 3 (drop_bit 3 x)"
    unfolding dword_def masks by (rule bit_word_eqI) (auto simp: bit_simps)
  then show ?thesis
    by (simp add: byte_offset_dword unsigned_take_bit_eq unat_drop_bit64 take_bit_eq_mod unat_mod)
qed

lemma reach_nat:
  "x < 2 ^ 40 \<Longrightarrow> unat (x :: u64) < 2 ^ 40" "take_bit 3 (x :: u64) = 0 \<Longrightarrow> unat x mod 8 = 0" "take_bit 6 (x :: u64) = 0 \<Longrightarrow> unat x mod 64 = 0"
proof -
  show "x < 2 ^ 40 \<Longrightarrow> unat x < 2 ^ 40" by (simp add: word_less_nat_alt)
  have "take_bit n x = 0 \<Longrightarrow> unat x mod 2 ^ n = 0" for n
    by (metis take_bit_eq_mod unsigned_0 unsigned_take_bit_eq)
  from this [of 3] this [of 6] show "take_bit 3 x = 0 \<Longrightarrow> unat x mod 8 = 0" "take_bit 6 x = 0 \<Longrightarrow> unat x mod 64 = 0"
    by simp_all
qed

lemma body_word_line:
  assumes "k < length ws" and "length ws = 8" and "byte_offset x = 8 * k"
  shows "body_word x (line_body ws) = ws ! k"
proof -
  have "slice (8 * k) 8 (words_bytes ws) = take 8 (words_bytes (drop k ws))" by (simp add: slice_def drop_words_bytes)
  also have "\<dots> = word_bytes 8 (ws ! k)"
    using assms(1) by (simp add: words_bytes_def Cons_nth_drop_Suc [symmetric] del: word_bytes.simps)
  finally have "map the (slice (8 * k) 8 (map Some (words_bytes ws) @ [Some 0])) = word_bytes 8 (ws ! k)"
    using assms(1,2) by (simp add: slice_def take_map drop_map)
  then show ?thesis by (simp add: body_word_def line_body_def assms(3) bytes_word_eight)
qed

lemma same_line: "x mod 8 = 0 \<Longrightarrow> a mod 64 = 0 \<Longrightarrow> x div 64 = a div 64 \<Longrightarrow> (x :: nat) = a + 8 * (x div 8 mod 8)"
proof -
  assume "x mod 8 = 0" "a mod 64 = 0" and d: "x div 64 = a div 64"
  then obtain y b where "x = 8 * y" "a = 64 * b" by (metis mult.commute mod_0_imp_dvd dvd_def)
  moreover from this d have "y div 8 = b" by (simp add: div_mult2_eq [of "8 * y" 8 8, simplified])
  ultimately show ?thesis using div_mult_mod_eq [of y 8] by simp
qed

lemma line_fits_word:
  assumes "line_fits l" and "in_reach x"
  shows "store64s (fst l) (snd l) m x = (if line_of x = line_of (fst l) then Some (body_word x (line_body (snd l))) else m x)"
proof -
  obtain a ws where l: "l = (a, ws)" by (cases l)
  have a: "unat a mod 64 = 0" "unat a < 2 ^ 40" and ws: "length ws = 8"
    using assms(1) reach_nat by (auto simp: l line_fits_def)
  have x: "unat x mod 8 = 0" "unat x < 2 ^ 40" using assms(2) reach_nat by (auto simp: in_reach_def)
  have adv: "unat (advance a k) = unat a + 8 * k" if "k < 8" for k
  proof -
    define b where "b = (of_nat (8 * k) :: u64)"
    have b: "unat b = 8 * k" unfolding b_def using that by (intro unat_of_nat64) simp
    then have "unat a + unat b < 2 ^ LENGTH(64)" using that a(2) by simp
    then have "unat (a + b) = unat a + unat b" by (rule iffD1 [OF unat_add_lem])
    then show ?thesis by (simp only: advance_def b_def [symmetric] b)
  qed
  have lines: "line_of x = line_of a \<longleftrightarrow> unat x div 64 = unat a div 64"
    using a(2) x(2) by (simp add: word_unat_eq_iff line_of_nat)
  show ?thesis
  proof (cases "line_of x = line_of a")
    case True
    define k where "k = unat x div 8 mod 8"
    have k: "k < 8" by (simp add: k_def)
    have "unat x = unat a + 8 * k"
      unfolding k_def by (rule same_line) (use True lines a(1) x(1) in blast)+
    then have "x = advance a k" using adv [OF k] by (simp only: word_unat_eq_iff)
    then have "store64s a ws m x = Some (ws ! k)" using store64s_inside [of ws k a m] ws k by simp
    then show ?thesis using True body_word_line [of k ws x] k ws by (simp add: l byte_offset_nat k_def)
  next
    case False
    have "x \<noteq> advance a k" if "k < 8" for k
    proof
      assume "x = advance a k"
      then have "unat x = unat a + 8 * k" using adv [OF that] by simp
      then have "unat x div 64 = unat a div 64" using that a(1) by (auto simp: mod_eq_0_iff_dvd elim!: dvdE)
      then show False using False lines by blast
    qed
    then show ?thesis using False store64s_outside [of ws x a m] ws by (simp add: l)
  qed
qed

lemma fold_lines:
  assumes "\<forall>l\<in>set ls. line_fits l" and "distinct (map (\<lambda>l. line_of (fst l)) ls)"
    and "\<forall>l\<in>set ls. b (line_of (fst l)) = None"
    and "\<And>x. in_reach x \<Longrightarrow> map_word b x = (case m x of None \<Rightarrow> 0 | Some w \<Rightarrow> w)" and "in_reach x"
  shows "map_word (fold put_line ls b) x = (case fold load_line ls m x of None \<Rightarrow> 0 | Some w \<Rightarrow> w)"
  using assms(1-4)
proof (induction ls arbitrary: b m)
  case Nil
  then show ?case using assms(5) by simp
next
  case (Cons l ls)
  have b: "put_line l b = b(line_of (fst l) \<mapsto> line_body (snd l))" using Cons.prems(3) by (simp add: put_line_def)
  have "map_word (put_line l b) x = (case load_line l m x of None \<Rightarrow> 0 | Some w \<Rightarrow> w)" if "in_reach x" for x
    using Cons.prems(4) [OF that] line_fits_word [OF _ that, of l m] Cons.prems(1)
    by (simp add: b load_line_def map_word_def)
  moreover have "\<forall>k\<in>set ls. put_line l b (line_of (fst k)) = None"
    using Cons.prems(2,3) by (auto simp: b image_iff)
  ultimately show ?case using Cons.IH [of "put_line l b" "load_line l m"] Cons.prems(1,2) by simp
qed

subsection \<open>Whole images\<close>

text \<open>The image is made of whole lines, in reach of the memory, and no line is given twice.\<close>

definition whole_lines :: "item list \<Rightarrow> bool" where
  "whole_lines is \<longleftrightarrow> printable is [] \<and> tidy (text_lines is []) 0 \<and>
    (let ls = file_lines (text_lines is []) 0 [] in list_all line_fits ls \<and> distinct (map (\<lambda>l. line_of (fst l)) ls))"

lemma body_ok_line: "length ws = 8 \<Longrightarrow> body_ok (line_body ws)"
  by (auto simp: body_ok_def line_body_def)

lemma put_lines_ok:
  assumes "\<forall>l\<in>set ls. line_fits l" and "\<forall>k body. b k = Some body \<longrightarrow> body_ok body"
  shows "\<forall>k body. fold put_line ls b k = Some body \<longrightarrow> body_ok body"
  using assms
proof (induction ls arbitrary: b)
  case (Cons l ls)
  have "\<forall>k body. put_line l b k = Some body \<longrightarrow> body_ok body"
    using Cons.prems by (auto simp: put_line_def line_fits_def body_ok_line)
  then show ?case using Cons by simp
qed simp

lemma read_mem_image:
  assumes "whole_lines is"
  shows "\<exists>root addrs. read_mem prior (render is) b_create = Inr (root, addrs) \<and> mem_ok root \<and>
    (\<forall>x. in_reach x \<longrightarrow> mem_word root x = (case snd (load_items is (0, Map.empty)) x of None \<Rightarrow> 0 | Some w \<Rightarrow> w))"
proof -
  define ls where "ls = file_lines (text_lines is []) 0 []"
  have p: "printable is []" "tidy (text_lines is []) 0" and ls: "\<forall>l\<in>set ls. line_fits l" "distinct (map (\<lambda>l. line_of (fst l)) ls)"
    using assms by (simp_all add: whole_lines_def ls_def Let_def list_all_iff)
  obtain root addrs where r: "read_mem prior (render is) b_create = Inr (root, addrs)" "btree_wf root"
      "btree_map root = fold put_line ls (\<lambda>_. None)"
    using read_mem_lines [OF p(2) b_create_wf, of prior] render_text [OF p(1)] by (auto simp: ls_def b_create_map)
  have "mem_ok root" using put_lines_ok [OF ls(1), of "\<lambda>_. None"] r(2,3) by (simp add: mem_ok_def)
  moreover have "snd (load_items is (0, Map.empty)) = fold load_line ls Map.empty"
    using load_items_lines [of "is" "[]" "[]" 0 Map.empty] p by (simp add: ls_def)
  moreover have "mem_word root x = map_word (fold put_line ls (\<lambda>_. None)) x" for x
    by (simp add: mem_word_def map_word_def r(3))
  ultimately show ?thesis
    using r(1) fold_lines [OF ls, of "\<lambda>_. None" Map.empty] by (auto simp: map_word_def)
qed

end
