(* ===== verification/Prop_Iop.thy ===== *)
theory Prop_Iop
  imports Iop_Image Gf_Walk
begin

text \<open>
  The properties of the memory of the I/O model (\<^verbatim>\<open>tools/pli/iop\<close>): its B-tree, the reads and writes
  of doublewords, and its reader of \<^verbatim>\<open>mem.image\<close>.
\<close>

subsection \<open>The B-tree\<close>

lemma b_inserts:
  assumes "btree_wf root"
  shows "\<exists>root'. res_fold b_insert as root = Inr root' \<and> btree_wf root' \<and> btree_map root' = map_of as ++ btree_map root"
  using assms
proof (induction as arbitrary: root)
  case (Cons a as)
  obtain r where r: "b_insert a root = Inr r" "btree_wf r"
      "btree_map r = (if btree_map root (fst a) = None then (btree_map root)(fst a \<mapsto> snd a) else btree_map root)"
    using b_insert_map [OF Cons.prems] by blast
  have e: "map_of as ++ btree_map r = map_of (a # as) ++ btree_map root"
    by (auto simp: r(3) fun_eq_iff map_add_def split: option.splits)
  show ?case using Cons.IH [OF r(2)] r(1) unfolding e by (simp del: map_of.simps)
qed simp

text \<open>
  C36: Atoms can be inserted into an empty B-tree in any order: no cell is used before it is
  assigned, the tree stays well formed, and a search finds the atom that was inserted first under
  its key (\<^verbatim>\<open>b_insert\<close> drops an atom whose key is present).
\<close>

theorem b_inserts_refine:
  "\<exists>root. res_fold b_insert as b_create = Inr root \<and> btree_wf root \<and>
    (\<forall>key. b_Find key root = Inr (map_option (Product_Type.Pair key) (map_of as key)))"
proof -
  obtain root where r: "res_fold b_insert as b_create = Inr root" "btree_wf root" "btree_map root = map_of as ++ btree_map b_create"
    using b_inserts [OF b_create_wf] by blast
  then have "btree_map root = map_of as" by (simp add: b_create_map)
  then show ?thesis using r(1,2) b_Find_map by metis
qed

text \<open>
  C37: After insertions of atoms with \<open>n\<close> different keys all leaves of the B-tree have the same depth,
  every node but the root has between two and four atoms, and for the depth \<open>h\<close> of the leaves
  below the root (a search reads at most \<open>h + 1\<close> nodes) \<open>2 * 3 ^ h \<le> n + 1\<close> holds.
\<close>

theorem b_inserts_height:
  assumes "as \<noteq> []"
  shows "\<exists>root h. res_fold b_insert as b_create = Inr root \<and> balanced 1 (Suc h) (abs_node root) \<and>
    2 * 3 ^ h \<le> card (fst ` set as) + 1"
proof -
  obtain root where r: "res_fold b_insert as b_create = Inr root" "btree_wf root" "btree_map root = map_of as"
    using b_inserts [OF b_create_wf, of as] by (auto simp: b_create_map)
  let ?xs = "atoms (abs_node root)"
  obtain h where h: "balanced (min 1 h) (Suc h) (abs_node root)" using r(2) by (auto simp: btree_wf_def)
  have d: "fst ` set ?xs = fst ` set as"
    using arg_cong [OF r(3), of dom] by (simp add: btree_map_def dom_map_of_conv_image_fst)
  have "distinct (map fst ?xs)" using r(2) by (auto simp: btree_wf_def strict_sorted_iff)
  then have n: "length ?xs = card (fst ` set as)" unfolding d [symmetric] by (metis distinct_card length_map set_map)
  have ne: "?xs \<noteq> []" using d assms by auto
  have "balanced 1 (Suc h) (abs_node root)"
  proof (cases h)
    case 0
    then obtain t ps where "abs_node root = Branch t ps" "t = Leaf" using h by (cases "abs_node root") auto
    then show ?thesis using h 0 ne by (cases ps) auto
  qed (use h in simp)
  then show ?thesis using r(1) balanced_size [of 1 h "abs_node root"] n by (auto simp: B_TREE_ORDER_def)
qed

definition demo_atoms :: "string b_tree_atom list" where
  "demo_atoms = [(5, ''a''), (3, ''b''), (9, ''c''), (1, ''d''), (7, ''e''), (3, ''f'')]"

theorem b_inserts_height_witness:
  "\<exists>root h. res_fold b_insert demo_atoms b_create = Inr root \<and> balanced 1 (Suc h) (abs_node root) \<and> 2 * 3 ^ h \<le> (6::nat)"
proof -
  have "card (fst ` set demo_atoms) = 5" and "demo_atoms \<noteq> []" by (code_simp, simp add: demo_atoms_def)
  then show ?thesis using b_inserts_height [of demo_atoms] by simp
qed

subsection \<open>Reads and writes\<close>

text \<open>What the simulator asks for: doublewords by their address, and what a memory answers.\<close>

datatype mem_request = Access nat u64 | Read64 u64 | Write64 u64 u64

definition high_word :: "u64 \<Rightarrow> 32 word" where
  "high_word w = ucast (drop_bit 32 w)"

definition low_word :: "u64 \<Rightarrow> 32 word" where
  "low_word w = ucast w"

fun serve :: "mem_request \<Rightarrow> u64 list \<times> pli_state \<Rightarrow> (u64 list \<times> pli_state) res" where
  "serve (Access thread key) (out, st) =
    res_bind (access_sys_call thread key st) (\<lambda>(v, st). Inr (out @ [v], st))"
| "serve (Read64 key) (out, st) =
    res_bind (read_64b_call (high_word key) (low_word key) st) (\<lambda>((h, l), st). Inr (out @ [push_bit 32 (ucast h) OR ucast l], st))"
| "serve (Write64 key val) (out, st) =
    res_bind (write_64b_call (high_word key) (low_word key) (high_word val) (low_word val) st) (\<lambda>st. Inr (out, st))"

fun answer :: "mem_request \<Rightarrow> u64 list \<times> (u64 \<Rightarrow> u64) \<Rightarrow> u64 list \<times> (u64 \<Rightarrow> u64)" where
  "answer (Access thread key) (out, m) = (out @ [m (dword key)], m)"
| "answer (Read64 key) (out, m) = (out @ [m (dword key)], m)"
| "answer (Write64 key val) (out, m) = (out, m(dword key := val))"

text \<open>There are 32 threads; the line \<open>z\<close> is left alone.\<close>

fun request_ok :: "u64 \<Rightarrow> mem_request \<Rightarrow> bool" where
  "request_ok z (Access thread key) \<longleftrightarrow> thread < 32 \<and> line_of key \<noteq> z"
| "request_ok z (Read64 key) \<longleftrightarrow> line_of key \<noteq> z"
| "request_ok z (Write64 key val) \<longleftrightarrow> line_of key \<noteq> z"

lemma words_joined: "join_words (high_word w) (low_word w) = w" "push_bit 32 (ucast (high_word w)) OR ucast (low_word w) = w"
proof -
  show "join_words (high_word w) (low_word w) = w" by (simp add: high_word_def low_word_def join_words_split)
  show "push_bit 32 (ucast (high_word w)) OR ucast (low_word w) = w"
    unfolding high_word_def low_word_def by (rule bit_word_eqI) (auto simp: bit_simps)
qed

lemma serve_answer:
  assumes "pli_wf z st" and "request_ok z r" and "\<And>key. mem_word (sysMem st) key = m (dword key)"
  shows "\<exists>st'. serve r (out, st) = Inr (fst (answer r (out, m)), st') \<and> pli_wf z st' \<and>
    (\<forall>key. mem_word (sysMem st') key = snd (answer r (out, m)) (dword key))"
proof (cases r)
  case (Access thread key)
  then show ?thesis using cached_read_ok [OF assms(1), of thread key] assms(2,3)
    by (auto simp: access_sys_call_def mask_addr_line)
next
  case (Read64 key)
  have j: "push_bit 32 (ucast (ucast (drop_bit 32 v) :: 32 word)) OR ucast (ucast v :: 32 word) = v" for v :: u64
    using words_joined(2) [of v] by (simp add: high_word_def low_word_def)
  obtain st' where "cached_read 0 (line_of key) key st = Inr (mem_word (sysMem st) key, st')" "pli_wf z st'" "sysMem st' = sysMem st"
    using cached_read_ok [OF assms(1), of 0 key] assms(2) Read64 by auto
  then show ?thesis using assms(3) Read64 by (simp add: read_64b_call_def words_joined j)
next
  case (Write64 key val)
  then show ?thesis
    using write_64b_ok [OF assms(1), of "high_word key" "low_word key" "high_word val" "low_word val"] assms(2,3)
    by (auto simp: words_joined)
qed

lemma serves_answers:
  assumes "pli_wf z st" and "\<forall>r\<in>set rs. request_ok z r" and "\<And>key. mem_word (sysMem st) key = m (dword key)"
  shows "\<exists>st'. res_fold serve rs (out, st) = Inr (fst (fold answer rs (out, m)), st')"
  using assms
proof (induction rs arbitrary: st m out)
  case (Cons r rs)
  obtain st1 where st1: "serve r (out, st) = Inr (fst (answer r (out, m)), st1)" "pli_wf z st1"
      "\<forall>key. mem_word (sysMem st1) key = snd (answer r (out, m)) (dword key)"
    using serve_answer [OF Cons.prems(1) _ Cons.prems(3), of r out] Cons.prems(2) by auto
  then show ?case
    using Cons.IH [OF st1(2), of "snd (answer r (out, m))" "fst (answer r (out, m))"] Cons.prems(2) by simp
qed simp

lemma array_word: "mem_word root (push_bit 3 (dword key)) = mem_word root key"
proof -
  have "dword (push_bit 3 (dword key)) = dword key"
    unfolding dword_def masks by (rule bit_word_eqI) (auto simp: bit_simps)
  then have "line_of (push_bit 3 (dword key)) = line_of key" "byte_offset (push_bit 3 (dword key)) = byte_offset key"
    by (simp_all only: line_of_dword byte_offset_dword)
  moreover from this have "body_word (push_bit 3 (dword key)) body = body_word key body" for body
    by (simp add: body_word_def)
  ultimately show ?thesis
    unfolding mem_word_def by (cases "btree_map root (line_of key)"; simp only: option.case)
qed

lemma array_reach: "in_reach (push_bit 3 (dword key))"
proof -
  have "take_bit 40 (push_bit 3 (dword key)) = push_bit 3 (dword key)" "take_bit 3 (push_bit 3 (dword key)) = 0"
    unfolding dword_def masks by (rule bit_word_eqI; auto simp: bit_simps)+
  moreover have "unat (take_bit 40 (push_bit 3 (dword key))) < 2 ^ 40"
    unfolding unsigned_take_bit_eq by (rule take_bit_nat_less_exp)
  ultimately show ?thesis by (simp add: in_reach_def word_less_nat_alt)
qed

text \<open>
  C24: Started without an image, the memory answers every sequence of reads and writes by up to 32
  threads as an array of doublewords does that is zero at first: a read returns what was written
  last to the doubleword (the low 40 bits of the address count), whatever lines the threads
  remember, and no call fails.
\<close>

theorem memory_refines_array:
  assumes "\<forall>r\<in>set rs. request_ok (-1) r"
  shows "\<exists>st addrs st'. init_jbus_model prior file True = Inr (st, addrs) \<and>
    res_fold serve rs ([], st) = Inr (fst (fold answer rs ([], \<lambda>_. 0)), st')"
proof -
  define st where "st = \<lparr>sysMem = b_create :: atom_body b_tree_node, last_addr = replicate 32 (-1), pli_data = replicate 32 None\<rparr>"
  have i: "init_jbus_model prior file True = Inr (st, [])" by (simp add: init_jbus_model_def st_def)
  have wf: "pli_wf (-1) st" by (simp add: pli_wf_def st_def mem_ok_def b_create_wf b_create_map slot_ok_def)
  have z: "mem_word (sysMem st) key = (\<lambda>_. 0) (dword key)" for key by (simp add: mem_word_def st_def b_create_map)
  show ?thesis using i serves_answers [OF wf assms, of "\<lambda>_. 0" "[]"] z by auto
qed

definition demo_requests :: "mem_request list" where
  "demo_requests = [Write64 0x1008 7, Read64 0x1008, Access 3 0x1010, Write64 0x1008 9, Access 3 0x1008]"

theorem memory_refines_array_witness:
  "\<exists>st addrs st'. init_jbus_model NUL [] True = Inr (st, addrs) \<and> res_fold serve demo_requests ([], st) = Inr ([7, 0, 9], st')"
proof -
  have "\<forall>r\<in>set demo_requests. request_ok (-1) r" by (simp add: demo_requests_def line_of_ne)
  moreover have "fst (fold answer demo_requests ([], \<lambda>_. 0)) = [7, 0, 9]"
    by (simp add: demo_requests_def dword_def)
  ultimately show ?thesis using memory_refines_array by metis
qed

text \<open>
  C25: Started with an image that goldfinger printed, if the words of the image fill whole lines of
  64 bytes below \<open>2 ^ 40\<close> and no line is given twice, the memory answers every sequence of reads and
  writes outside of the first line as an array does that holds the words of the image (and zeros
  where there are none): the reader of the image takes every line as goldfinger means it.
\<close>

theorem image_served:
  assumes "whole_lines is" and "\<forall>r\<in>set rs. request_ok 0 r"
  shows "\<exists>st addrs st'. init_jbus_model prior (render is) False = Inr (st, addrs) \<and>
    res_fold serve rs ([], st) = Inr (fst (fold answer rs ([], \<lambda>d.
      case snd (load_items is (0, Map.empty)) (push_bit 3 d) of None \<Rightarrow> 0 | Some w \<Rightarrow> w)), st')"
proof -
  obtain root addrs where r: "read_mem prior (render is) b_create = Inr (root, addrs)" "mem_ok root"
      "\<And>x. in_reach x \<Longrightarrow> mem_word root x = (case snd (load_items is (0, Map.empty)) x of None \<Rightarrow> 0 | Some w \<Rightarrow> w)"
    using read_mem_image [OF assms(1)] by blast
  define st where "st = \<lparr>sysMem = root, last_addr = replicate 32 0, pli_data = replicate 32 None\<rparr>"
  have i: "init_jbus_model prior (render is) False = Inr (st, addrs)" by (simp add: init_jbus_model_def st_def r(1))
  have wf: "pli_wf 0 st" by (simp add: pli_wf_def st_def r(2) slot_ok_def)
  have "mem_word (sysMem st) key = (case snd (load_items is (0, Map.empty)) (push_bit 3 (dword key)) of None \<Rightarrow> 0 | Some w \<Rightarrow> w)" for key
    using r(3) [OF array_reach [of key]] by (simp add: array_word st_def)
  then show ?thesis
    using i serves_answers [OF wf assms(2), of "\<lambda>d. case snd (load_items is (0, Map.empty)) (push_bit 3 d) of None \<Rightarrow> 0 | Some w \<Rightarrow> w" "[]"]
    by auto
qed

definition demo_whole_image :: "item list" where
  "demo_whole_image = [At 0x40 ''x'', Quad 1 2 3 4, Quad 5 6 7 8, Newline]"

definition demo_reads :: "mem_request list" where
  "demo_reads = [Read64 0x48, Write64 0x48 9, Access 1 0x48, Access 1 0x78, Read64 0x1000]"

theorem image_served_witness:
  "\<exists>st addrs st'. init_jbus_model NUL (render demo_whole_image) False = Inr (st, addrs) \<and>
    res_fold serve demo_reads ([], st) = Inr ([2, 9, 8, 0], st')"
proof -
  have "whole_lines demo_whole_image" by code_simp
  moreover have "\<forall>r\<in>set demo_reads. request_ok 0 r" by (simp add: demo_reads_def line_of_def)
  moreover have "fst (fold answer demo_reads ([], \<lambda>d.
      case snd (load_items demo_whole_image (0, Map.empty)) (push_bit 3 d) of None \<Rightarrow> 0 | Some w \<Rightarrow> w)) = [2, 9, 8, 0]"
    by (simp add: demo_reads_def demo_whole_image_def dword_def advance_def put_words_def)
  ultimately show ?thesis using image_served [of demo_whole_image demo_reads NUL] by metis
qed

text \<open>
  C38: Started with an image, the first line cannot be used: the program says of every thread that it
  remembers line 0, but has no pointer to an atom, and so the first read in that line by a thread
  that has not read elsewhere follows a null pointer.
\<close>

theorem first_line_null:
  assumes "read_mem prior file b_create = Inr (root, addrs)" and "line_of key = 0" and "thread < 32"
  shows "\<exists>st. init_jbus_model prior file False = Inr (st, addrs) \<and> access_sys_call thread key st = Inl Undefined"
  using assms by (simp add: init_jbus_model_def access_sys_call_def mask_addr_line cached_read_def array_at_def follow_atom_def)

theorem first_line_null_witness:
  "\<exists>st. init_jbus_model NUL [] False = Inr (st, []) \<and> access_sys_call 3 8 st = Inl Undefined"
proof -
  have "read_mem NUL [] b_create = Inr (b_create, [])" by (simp add: read_mem_def fgets_all.simps start_state_def)
  moreover have "line_of 8 = 0" by (simp add: line_of_def)
  ultimately show ?thesis using first_line_null [of NUL "[]" b_create "[]" 8 3] by simp
qed

text \<open>
  C39: An image that ends in the middle of a line of 64 bytes loses that line, since the reader
  stores a line when it is full or when another address comes: whatever comes before, as
  long as it fills whole lines, data of less than eight words at the end of the image changes
  neither the memory that is read nor the list of addresses; the memory has the whole lines
  before it and nothing else.
\<close>

theorem last_line_lost:
  assumes "printable is []" and "tidy (text_lines is []) 0"
    and "printable js []" and "short_tail (text_lines js [])"
  shows "\<exists>root addrs. read_mem prior (render (is @ js)) b_create = Inr (root, addrs) \<and>
    read_mem prior (render is) b_create = Inr (root, addrs) \<and>
    btree_map root = fold put_line (file_lines (text_lines is []) 0 []) (\<lambda>_. None)"
proof -
  obtain root addrs where "read_mem prior (render is) b_create = Inr (root, addrs)"
      "btree_map root = fold put_line (file_lines (text_lines is []) 0 []) (\<lambda>_. None)"
    using read_mem_lines [OF assms(2) b_create_wf, of prior] render_text [OF assms(1)] by (auto simp: b_create_map)
  with read_mem_short [OF assms b_create_wf, of prior] show ?thesis by auto
qed

theorem last_line_lost_witness:
  "\<exists>root addrs. read_mem NUL (render [At 0x40 ''x'', Quad 1 2 3 4, Quad 5 6 7 8, Quad 9 10 11 12]) b_create = Inr (root, addrs) \<and>
    btree_map root 1 = Some (line_body [1, 2, 3, 4, 5, 6, 7, 8]) \<and> btree_map root 2 = None"
proof -
  let ?is = "[At 0x40 ''x'', Quad 1 2 3 4, Quad 5 6 7 8]" and ?js = "[Quad 9 10 11 12]"
  have t: "tidy (text_lines ?is []) 0" by (simp add: plain_def)
  have s: "short_tail (text_lines ?js [])" by (simp add: short_tail_def)
  have short: "lines_of a ws = []" if "length ws < 8" for a ws
    using that by (simp add: lines_of.simps)
  have "lines_of a ws = [(a, ws)]" if "length ws = 8" for a ws
    using that short [of "drop 8 ws"] by (subst lines_of.simps) simp
  with short have l: "file_lines (text_lines ?is []) 0 [] = [(0x40, [1, 2, 3, 4, 5, 6, 7, 8])]" by simp
  have n: "line_of 0x40 = 1" by (simp add: line_of_def)
  show ?thesis
    using last_line_lost [OF _ t _ s, of NUL, unfolded l] by (auto simp: put_line_def n)
qed

end
