(* ===== verification/Iop_List.thy ===== *)
theory Iop_List
  imports Cpp_Heap
begin

text \<open>
  The doubly linked list of the I/O model (\<^verbatim>\<open>tools/pli/iop/list.cc\<close>), a class template. The nodes
  are in a heap that belongs to the list: \<^verbatim>\<open>new\<close> takes the next cell, \<^verbatim>\<open>delete\<close> empties a cell, and an
  address is never used again. Following a null pointer, a pointer to a deleted node or a pointer
  that was not assigned (\<open>None\<close> in \<open>l_next_ptr\<close> and \<open>l_current\<close>) is \<open>Undefined\<close>. An item stands for
  the structure its pointer leads to; items are never null.
\<close>

record 'a ll_node =
  ll_data :: 'a
  ll_next :: "nat option"
  ll_prev :: "nat option"

record 'a ll_list =
  l_heap :: "'a ll_node option list"
  l_head :: "nat option"
  l_tail :: "nat option"
  l_size :: int
  l_next_ptr :: "nat option option"
  l_current :: "nat option option"

definition list_new :: "'a ll_list" where
  "list_new = \<lparr>l_heap = [], l_head = None, l_tail = None, l_size = 0, l_next_ptr = None, l_current = None\<rparr>"

subsection \<open>Pointers\<close>

definition assigned :: "nat option option \<Rightarrow> nat option res" where
  "assigned p = (case p of None \<Rightarrow> Inl Undefined | Some q \<Rightarrow> Inr q)"

subsection \<open>Operations\<close>

definition list_shift :: "'a ll_list \<Rightarrow> ('a option \<times> 'a ll_list) res" where
  "list_shift l =
    (if l_head l = None then Inr (None, l)
     else res_bind (deref (l_heap l) (l_head l)) (\<lambda>p.
       Inr (Some (ll_data p), l\<lparr>l_head := ll_next p, l_heap := delete_at (l_head l) (l_heap l), l_size := l_size l - 1\<rparr>)))"

definition list_search :: "'a ll_list \<Rightarrow> ('a option \<times> 'a ll_list) res" where
  "list_search l =
    (if l_head l = None then Inr (None, l)
     else res_bind (deref (l_heap l) (l_head l)) (\<lambda>p.
       Inr (Some (ll_data p), l\<lparr>l_head := ll_next p, l_heap := delete_at (l_head l) (l_heap l), l_size := l_size l - 1\<rparr>)))"

declare res_bind_cong [fundef_cong]

function list_destroy :: "'a ll_list \<Rightarrow> 'a ll_list res" where
  "list_destroy l =
    (if l_head l = None then Inr l
     else res_bind (deref (l_heap l) (l_head l)) (\<lambda>p.
       list_destroy (l\<lparr>l_head := ll_next p, l_heap := delete_at (l_head l) (l_heap l), l_size := l_size l - 1\<rparr>)))"
  by pat_completeness auto

termination
  by (relation "measure (\<lambda>l. length (filter (\<lambda>c. c \<noteq> None) (l_heap l)))") (simp_all add: delete_live del: not_None_eq)

declare list_destroy.simps [simp del]

definition list_front :: "'a ll_list \<Rightarrow> 'a option res" where
  "list_front l =
    (if l_head l = None then Inr None else res_bind (deref (l_heap l) (l_head l)) (\<lambda>p. Inr (Some (ll_data p))))"

definition list_back :: "'a ll_list \<Rightarrow> 'a option res" where
  "list_back l =
    (if l_head l = None then Inr None else res_bind (deref (l_heap l) (l_tail l)) (\<lambda>p. Inr (Some (ll_data p))))"

text \<open>\<^verbatim>\<open>next\<close> walks with \<^verbatim>\<open>next_ptr\<close>, which nothing ever assigns; \<^verbatim>\<open>set_next\<close> sets \<^verbatim>\<open>current_ptr\<close>.\<close>

definition list_next :: "'a ll_list \<Rightarrow> ('a option \<times> 'a ll_list) res" where
  "list_next l =
    res_bind (assigned (l_next_ptr l)) (\<lambda>np.
    if np = None then Inr (None, l)
    else res_bind (deref (l_heap l) np) (\<lambda>p. Inr (Some (ll_data p), l\<lparr>l_next_ptr := Some (ll_next p)\<rparr>)))"

definition set_next :: "'a ll_list \<Rightarrow> 'a ll_list" where
  "set_next l = l\<lparr>l_current := Some (l_head l)\<rparr>"

definition list_current :: "'a ll_list \<Rightarrow> 'a option res" where
  "list_current l =
    res_bind (assigned (l_current l)) (\<lambda>cp.
    if cp = None then Inr None else res_bind (deref (l_heap l) cp) (\<lambda>p. Inr (Some (ll_data p))))"

definition list_nextQ :: "'a ll_list \<Rightarrow> (bool \<times> 'a ll_list) res" where
  "list_nextQ l =
    res_bind (assigned (l_current l)) (\<lambda>cp.
    if cp = None then Inr (False, l)
    else res_bind (deref (l_heap l) cp) (\<lambda>p. Inr (True, l\<lparr>l_current := Some (ll_next p)\<rparr>)))"

definition relink :: "'a ll_node \<Rightarrow> 'a ll_node option list \<Rightarrow> 'a ll_node option list res" where
  "relink p h =
    (if ll_next p = None then Inr h else update_at (ll_next p) (\<lambda>n. n\<lparr>ll_prev := ll_prev p\<rparr>) h)"

definition list_remove :: "'a ll_list \<Rightarrow> 'a ll_list res" where
  "list_remove l =
    res_bind (assigned (l_current l)) (\<lambda>cp.
    res_bind (deref (l_heap l) cp) (\<lambda>p.
    let head = (if l_head l = cp then ll_next p else l_head l);
        tail = (if l_tail l = cp then ll_prev p else l_tail l)
    in res_bind (relink p (l_heap l)) (\<lambda>h.
    Inr (l\<lparr>l_head := head, l_tail := tail, l_current := Some (ll_next p), l_size := l_size l - 1, l_heap := delete_at cp h\<rparr>))))"

definition list_append :: "'a \<Rightarrow> 'a ll_list \<Rightarrow> 'a ll_list res" where
  "list_append item l =
    (let p = length (l_heap l)
     in if l_head l = None then
          Inr (l\<lparr>l_heap := l_heap l @ [Some \<lparr>ll_data = item, ll_next = None, ll_prev = None\<rparr>],
                 l_head := Some p, l_tail := Some p, l_size := l_size l + 1\<rparr>)
        else
          res_bind (update_at (l_tail l) (\<lambda>n. n\<lparr>ll_next := Some p\<rparr>)
            (l_heap l @ [Some \<lparr>ll_data = item, ll_next = None, ll_prev = l_tail l\<rparr>])) (\<lambda>h.
          Inr (l\<lparr>l_heap := h, l_tail := Some p, l_size := l_size l + 1\<rparr>)))"

definition list_empty :: "'a ll_list \<Rightarrow> bool" where
  "list_empty l \<longleftrightarrow> l_head l = None"

text \<open>An assignment to the structure that \<^verbatim>\<open>front\<close> points to.\<close>

definition modify_front :: "('a \<Rightarrow> 'a) \<Rightarrow> 'a ll_list \<Rightarrow> 'a ll_list res" where
  "modify_front f l =
    res_bind (update_at (l_head l) (\<lambda>n. n\<lparr>ll_data := f (ll_data n)\<rparr>) (l_heap l)) (\<lambda>h. Inr (l\<lparr>l_heap := h\<rparr>))"

subsection \<open>The items of a list\<close>

text \<open>\<open>path h p is xs\<close>: from \<open>p\<close> on, the next pointers lead through the nodes \<open>is\<close>, which hold \<open>xs\<close>.\<close>

fun path :: "'a ll_node option list \<Rightarrow> nat option \<Rightarrow> nat list \<Rightarrow> 'a list \<Rightarrow> bool" where
  "path h p [] xs \<longleftrightarrow> p = None \<and> xs = []"
| "path h p (i # is) [] \<longleftrightarrow> False"
| "path h p (i # is) (x # xs) \<longleftrightarrow> p = Some i \<and>
    (\<exists>n. deref h (Some i) = Inr n \<and> ll_data n = x \<and> path h (ll_next n) is xs)"

definition list_wf :: "'a ll_list \<Rightarrow> 'a list \<Rightarrow> bool" where
  "list_wf l xs \<longleftrightarrow> (\<exists>is. path (l_heap l) (l_head l) is xs \<and> distinct is \<and>
    (is \<noteq> [] \<longrightarrow> l_tail l = Some (last is)) \<and> l_size l = int (length xs))"

lemma path_Nil [simp]: "path h p is [] \<longleftrightarrow> p = None \<and> is = []"
  by (cases "is") auto

lemma path_Cons: "path h p is (x # xs) \<longleftrightarrow>
  (\<exists>i js n. is = i # js \<and> p = Some i \<and> deref h (Some i) = Inr n \<and> ll_data n = x \<and> path h (ll_next n) js xs)"
  by (cases "is") auto

lemma path_length: "path h p is xs \<Longrightarrow> length is = length xs"
  by (induction h p "is" xs rule: path.induct) auto

lemma path_live: "path h p is xs \<Longrightarrow> j \<in> set is \<Longrightarrow> \<exists>n. deref h (Some j) = Inr n"
  by (induction h p "is" xs rule: path.induct) auto

lemma path_cong:
  assumes "path h p is xs" and "\<And>j. j \<in> set is \<Longrightarrow> deref h' (Some j) = deref h (Some j)"
  shows "path h' p is xs"
  using assms by (induction h p "is" xs rule: path.induct) auto

lemma list_new_wf [simp]: "list_wf list_new []"
  by (simp add: list_wf_def list_new_def)

lemma list_wf_head: "list_wf l xs \<Longrightarrow> l_head l = None \<longleftrightarrow> xs = []"
  by (cases xs) (auto simp: list_wf_def path_Cons)

lemma list_wf_empty: "list_wf l xs \<Longrightarrow> list_empty l \<longleftrightarrow> xs = []"
  by (simp add: list_empty_def list_wf_head)

lemma list_front_ok: "list_wf l xs \<Longrightarrow> list_front l = Inr (case xs of [] \<Rightarrow> None | x # _ \<Rightarrow> Some x)"
  by (cases xs) (auto simp: list_front_def list_wf_def path_Cons)

lemma list_shift_ok:
  assumes "list_wf l (x # xs)"
  shows "\<exists>l'. list_shift l = Inr (Some x, l') \<and> list_wf l' xs"
proof -
  obtain i js n where p: "path (l_heap l) (ll_next n) js xs" "l_head l = Some i" "deref (l_heap l) (Some i) = Inr n"
      "ll_data n = x" "distinct (i # js)" "l_tail l = Some (last (i # js))" "l_size l = int (length (x # xs))"
    using assms by (auto simp: list_wf_def path_Cons)
  define l' where "l' = l\<lparr>l_head := ll_next n, l_heap := delete_at (Some i) (l_heap l), l_size := l_size l - 1\<rparr>"
  have "path (delete_at (Some i) (l_heap l)) (ll_next n) js xs"
    by (rule path_cong [OF p(1)]) (use p(5) deref_less [OF p(3)] in \<open>auto simp: delete_at_def\<close>)
  then have "list_wf l' xs"
    unfolding list_wf_def by (intro exI [of _ js]) (use p(5,6,7) in \<open>auto simp: l'_def\<close>)
  moreover have "list_shift l = Inr (Some x, l')" using p by (simp add: list_shift_def l'_def)
  ultimately show ?thesis by blast
qed

lemma list_shift_empty: "list_wf l [] \<Longrightarrow> list_shift l = Inr (None, l)"
  by (simp add: list_shift_def list_wf_head)

lemma path_extend:
  assumes "path h p is xs" and "distinct is" and "is \<noteq> []"
    and "deref h (Some (last is)) = Inr m" and "deref h' (Some (last is)) = Inr (m\<lparr>ll_next := Some j\<rparr>)"
    and "\<And>k. k \<in> set is \<Longrightarrow> k \<noteq> last is \<Longrightarrow> deref h' (Some k) = deref h (Some k)"
    and "deref h' (Some j) = Inr n" and "ll_next n = None"
  shows "path h' p (is @ [j]) (xs @ [ll_data n])"
  using assms(1-6)
proof (induction h p "is" xs rule: path.induct)
  case (3 h p i "is" x xs)
  show ?case
  proof (cases "is = []")
    case True
    then show ?thesis using 3 assms(7,8) by auto
  next
    case False
    then have "i \<noteq> last is" using 3 by auto
    then show ?thesis using 3 False by auto
  qed
qed auto

lemma list_append_ok:
  assumes "list_wf l xs"
  shows "\<exists>l'. list_append y l = Inr l' \<and> list_wf l' (xs @ [y])"
proof -
  obtain "is" where p: "path (l_heap l) (l_head l) is xs" "distinct is" "is \<noteq> [] \<longrightarrow> l_tail l = Some (last is)"
      "l_size l = int (length xs)"
    using assms by (auto simp: list_wf_def)
  let ?j = "length (l_heap l)"
  show ?thesis
  proof (cases xs)
    case Nil
    then show ?thesis using p
      by (auto simp: list_append_def list_wf_def Let_def intro!: exI [of _ "[?j]"])
  next
    case (Cons x zs)
    then have ne: "is \<noteq> []" "l_head l \<noteq> None" using p(1) by (auto simp: path_Cons)
    have less: "k < ?j" if k: "k \<in> set is" for k using path_live [OF p(1) k] by (auto dest: deref_less)
    obtain m where m: "deref (l_heap l) (Some (last is)) = Inr m" using path_live [OF p(1)] ne(1) by force
    define h where "h = (l_heap l @ [Some \<lparr>ll_data = y, ll_next = None, ll_prev = l_tail l\<rparr>])[last is := Some (m\<lparr>ll_next := Some ?j\<rparr>)]"
    have last: "last is < ?j" using less ne(1) by simp
    have "path h (l_head l) (is @ [?j]) (xs @ [ll_data \<lparr>ll_data = y, ll_next = None, ll_prev = l_tail l\<rparr>])"
      by (rule path_extend [OF p(1,2) ne(1) m]) (use last less in \<open>auto simp: h_def dest: less\<close>)
    moreover have "distinct (is @ [?j])" using p(2) less by fastforce
    ultimately have "list_wf (l\<lparr>l_heap := h, l_tail := Some ?j, l_size := l_size l + 1\<rparr>) (xs @ [y])"
      using p(4) by (auto simp: list_wf_def intro!: exI [of _ "is @ [?j]"])
    moreover have "list_append y l = Inr (l\<lparr>l_heap := h, l_tail := Some ?j, l_size := l_size l + 1\<rparr>)"
      using ne p(3) m last by (auto simp: list_append_def Let_def update_at_def h_def)
    ultimately show ?thesis by blast
  qed
qed

lemma modify_front_ok:
  assumes "list_wf l (x # xs)"
  shows "\<exists>l'. modify_front f l = Inr l' \<and> list_wf l' (f x # xs)"
proof -
  obtain i js n where p: "path (l_heap l) (ll_next n) js xs" "l_head l = Some i" "deref (l_heap l) (Some i) = Inr n"
      "ll_data n = x" "distinct (i # js)" "l_tail l = Some (last (i # js))" "l_size l = int (length (x # xs))"
    using assms by (auto simp: list_wf_def path_Cons)
  define h where "h = (l_heap l)[i := Some (n\<lparr>ll_data := f x\<rparr>)]"
  have "path h (ll_next n) js xs"
    by (rule path_cong [OF p(1)]) (use p(5) deref_less [OF p(3)] in \<open>auto simp: h_def\<close>)
  then have "list_wf (l\<lparr>l_heap := h\<rparr>) (f x # xs)"
    unfolding list_wf_def by (intro exI [of _ "i # js"]) (use p deref_less [OF p(3)] in \<open>auto simp: h_def\<close>)
  moreover have "modify_front f l = Inr (l\<lparr>l_heap := h\<rparr>)"
    using p by (simp add: modify_front_def update_at_def h_def)
  ultimately show ?thesis by blast
qed

lemma list_destroy_ok: "list_wf l xs \<Longrightarrow> \<exists>l'. list_destroy l = Inr l' \<and> list_wf l' []"
proof (induction xs arbitrary: l)
  case Nil
  then show ?case by (simp add: list_destroy.simps [of l] list_wf_head)
next
  case (Cons x xs)
  obtain l' where l': "list_shift l = Inr (Some x, l')" "list_wf l' xs" using list_shift_ok [OF Cons.prems] by blast
  then have "list_destroy l = list_destroy l'"
    by (auto simp: list_destroy.simps [of l] list_shift_def gf_res split: if_splits)
  then show ?case using Cons.IH [OF l'(2)] by simp
qed

subsection \<open>The list as a queue\<close>

locale fifo =
  fixes nil :: 'q and wf :: "'q \<Rightarrow> 'a list \<Rightarrow> bool" and push :: "'a \<Rightarrow> 'q \<Rightarrow> 'q res"
    and pop :: "'q \<Rightarrow> ('a option \<times> 'q) res" and peek :: "'q \<Rightarrow> 'a option res"
    and change :: "('a \<Rightarrow> 'a) \<Rightarrow> 'q \<Rightarrow> 'q res" and is_empty :: "'q \<Rightarrow> bool"
  assumes nil: "wf nil []"
    and push: "wf q xs \<Longrightarrow> \<exists>q'. push x q = Inr q' \<and> wf q' (xs @ [x])"
    and pop: "wf q (x # xs) \<Longrightarrow> \<exists>q'. pop q = Inr (Some x, q') \<and> wf q' xs"
    and pop_nil: "wf q [] \<Longrightarrow> pop q = Inr (None, q)"
    and peek: "wf q (x # xs) \<Longrightarrow> peek q = Inr (Some x)"
    and change: "wf q (x # xs) \<Longrightarrow> \<exists>q'. change f q = Inr q' \<and> wf q' (f x # xs)"
    and is_empty: "wf q xs \<Longrightarrow> is_empty q \<longleftrightarrow> xs = []"
begin

lemma pushes: "wf q ys \<Longrightarrow> \<exists>q'. res_fold push xs q = Inr q' \<and> wf q' (ys @ xs)"
proof (induction xs arbitrary: q ys)
  case (Cons x xs)
  obtain q1 where "push x q = Inr q1" "wf q1 (ys @ [x])" using push [OF Cons.prems] by blast
  then show ?case using Cons.IH [of q1 "ys @ [x]"] by simp
qed simp

definition pop_into :: "'a list \<times> 'q \<Rightarrow> ('a list \<times> 'q) res" where
  "pop_into s = res_bind (pop (snd s)) (\<lambda>(x, q). Inr (fst s @ (case x of None \<Rightarrow> [] | Some x \<Rightarrow> [x]), q))"

lemma pops: "wf q xs \<Longrightarrow> \<exists>q'. res_fold (\<lambda>_. pop_into) [0..<length xs] (ys, q) = Inr (ys @ xs, q') \<and> wf q' []"
proof (induction xs arbitrary: q ys)
  case (Cons x xs)
  obtain q1 where q1: "pop q = Inr (Some x, q1)" "wf q1 xs" using pop [OF Cons.prems] by blast
  have f: "res_fold (\<lambda>_. pop_into) zs s = res_fold (\<lambda>_. pop_into) zs' s" if "length zs = length zs'" for zs zs' :: "nat list" and s
    using that by (induction zs zs' arbitrary: s rule: list_induct2) (simp_all cong: res_bind_cong)
  have "res_fold (\<lambda>_. pop_into) [0..<length (x # xs)] (ys, q) = res_fold (\<lambda>_. pop_into) (0 # [0..<length xs]) (ys, q)"
    by (rule f) simp
  moreover have "pop_into (ys, q) = Inr (ys @ [x], q1)" using q1(1) by (simp add: pop_into_def)
  ultimately show ?case using Cons.IH [OF q1(2), of "ys @ [x]"] by simp
qed simp

end

interpretation ll: fifo list_new list_wf list_append list_shift list_front modify_front list_empty
  by unfold_locales (simp_all add: list_append_ok list_shift_ok list_shift_empty list_front_ok modify_front_ok list_wf_empty)

subsection \<open>Walking and removing\<close>

primrec list_advance :: "nat \<Rightarrow> 'a ll_list \<Rightarrow> 'a ll_list res" where
  "list_advance 0 l = Inr l"
| "list_advance (Suc k) l = res_bind (list_advance k l) (\<lambda>l. res_bind (list_nextQ l) (\<lambda>(_, l). Inr l))"

lemma list_advance_ok:
  assumes "l_current l = Some (q 0)" and "\<forall>j<m. \<exists>n. deref (l_heap l) (q j) = Inr n \<and> ll_next n = q (Suc j)"
  shows "list_advance m l = Inr (l\<lparr>l_current := Some (q m)\<rparr>)"
  using assms(2)
proof (induction m)
  case (Suc m)
  then obtain n where n: "deref (l_heap l) (q m) = Inr n" "ll_next n = q (Suc m)" by blast
  then have "q m \<noteq> None" using deref_live by fastforce
  then show ?case using Suc n by (auto simp: list_nextQ_def assigned_def)
qed (use assms(1) in simp)

lemma path_nth:
  assumes "path h p is xs" and "k < length is"
  shows "\<exists>n. deref h (Some (is ! k)) = Inr n \<and> ll_data n = xs ! k \<and>
    ll_next n = (if Suc k < length is then Some (is ! Suc k) else None)"
  using assms
proof (induction h p "is" xs arbitrary: k rule: path.induct)
  case (3 h p i "is" x xs)
  then obtain n where n: "deref h (Some i) = Inr n" "ll_data n = x" "path h (ll_next n) is xs" by auto
  show ?case
  proof (cases k)
    case 0
    have "ll_next n = (if is = [] then None else Some (is ! 0))" using n(3) by (cases xs) (auto simp: path_Cons)
    then show ?thesis using n 0 by simp
  next
    case (Suc j)
    then show ?thesis using "3.IH" [OF n(3), of j] "3.prems"(2) by auto
  qed
qed auto

lemma walk_ok:
  assumes "list_wf l xs" and "k < length xs"
  shows "\<exists>l'. list_advance k (set_next l) = Inr l' \<and> list_current l' = Inr (Some (xs ! k)) \<and> list_wf l' xs"
proof -
  obtain "is" where p: "path (l_heap l) (l_head l) is xs" using assms(1) by (auto simp: list_wf_def)
  define q where "q j = (if j < length is then Some (is ! j) else None)" for j
  have "l_head l = q 0" using p by (cases xs) (auto simp: path_Cons q_def)
  moreover have len: "length is = length xs" using path_length [OF p] .
  moreover have "\<exists>n. deref (l_heap l) (q j) = Inr n \<and> ll_next n = q (Suc j)" if "j < k" for j
    using path_nth [OF p, of j] that assms(2) len by (auto simp: q_def)
  ultimately have "list_advance k (set_next l) = Inr ((set_next l)\<lparr>l_current := Some (q k)\<rparr>)"
    by (intro list_advance_ok) (auto simp: set_next_def)
  then show ?thesis
    using path_nth [OF p, of k] assms len by (auto simp: list_current_def assigned_def set_next_def q_def list_wf_def)
qed

lemma remove_dangles:
  assumes "list_wf l xs" and "Suc k < length xs"
  shows "\<exists>l1 l2 l3. list_advance (Suc k) (set_next l) = Inr l1 \<and> list_remove l1 = Inr l2 \<and>
    list_advance (Suc k) (set_next l2) = Inr l3 \<and> list_current l3 = Inl Undefined"
proof -
  obtain "is" where p: "path (l_heap l) (l_head l) is xs" and d: "distinct is"
    using assms(1) by (auto simp: list_wf_def)
  have len: "length is = length xs" using path_length [OF p] .
  define q where "q j = (if j < length is then Some (is ! j) else None)" for j
  have h0: "l_head l = q 0" using p by (cases xs) (auto simp: path_Cons q_def)
  have nth: "\<exists>n. deref (l_heap l) (q j) = Inr n \<and> ll_next n = q (Suc j)" if "j < length is" for j
    using path_nth [OF p that] that by (auto simp: q_def)
  have less: "is ! j < length (l_heap l)" if "j < length is" for j
    using nth [OF that] deref_less that by (fastforce simp: q_def)
  have at: "list_advance (Suc k) (set_next l) = Inr (l\<lparr>l_current := Some (q (Suc k))\<rparr>)" (is "_ = Inr ?l1")
    using list_advance_ok [of "set_next l" q "Suc k"] nth assms(2) len h0 by (simp add: set_next_def)
  obtain m where m: "deref (l_heap l) (q (Suc k)) = Inr m" "ll_next m = q (Suc (Suc k))"
    using nth [of "Suc k"] assms(2) len by auto
  define h where "h = (if Suc (Suc k) < length is
    then (l_heap l)[is ! Suc (Suc k) := Some ((the (l_heap l ! (is ! Suc (Suc k))))\<lparr>ll_prev := ll_prev m\<rparr>)] else l_heap l)"
  have "relink m (l_heap l) = Inr h"
  proof (cases "Suc (Suc k) < length is")
    case True
    then obtain n where "deref (l_heap l) (Some (is ! Suc (Suc k))) = Inr n" using nth by (auto simp: q_def)
    then show ?thesis using True deref_live [of "l_heap l"]
      by (fastforce simp: relink_def m(2) q_def update_at_def h_def)
  qed (simp add: relink_def m(2) q_def h_def)
  moreover have q1: "q (Suc k) = Some (is ! Suc k)" using assms(2) len by (simp add: q_def)
  moreover have hd: "l_head l \<noteq> q (Suc k)" using d assms(2) len by (auto simp: h0 q_def nth_eq_iff_index_eq)
  ultimately obtain l2 where l2: "list_remove ?l1 = Inr l2" "l_head l2 = q 0" "l_heap l2 = h[is ! Suc k := None]"
    using m h0 by (simp add: list_remove_def assigned_def Let_def delete_at_def)
  have "\<exists>n. deref (l_heap l2) (q j) = Inr n \<and> ll_next n = q (Suc j)" if "j < Suc k" for j
  proof -
    have j: "j < length is" "is ! j \<noteq> is ! Suc k" "Suc (Suc k) < length is \<Longrightarrow> is ! j \<noteq> is ! Suc (Suc k)"
      using that assms(2) len d by (auto simp: nth_eq_iff_index_eq)
    then have "deref (l_heap l2) (q j) = deref (l_heap l) (q j)"
      using less [of "Suc k"] less [of "Suc (Suc k)"] assms(2) len by (simp add: l2(3) h_def q_def)
    then show ?thesis using nth [OF j(1)] by simp
  qed
  then have "list_advance (Suc k) (set_next l2) = Inr ((set_next l2)\<lparr>l_current := Some (q (Suc k))\<rparr>)"
    using list_advance_ok [of "set_next l2" q "Suc k"] l2(2) by (simp add: set_next_def)
  moreover have "deref (l_heap l2) (q (Suc k)) = Inl Undefined"
    using less [of "Suc k"] less [of "Suc (Suc k)"] assms(2) len q1 by (auto simp: l2(3) h_def)
  ultimately show ?thesis
    using at l2(1) q1 by (auto simp: list_current_def assigned_def set_next_def)
qed

end
