(* ===== verification/Iop_Avl.thy ===== *)
theory Iop_Avl
  imports Mem_Store
begin

text \<open>
  The search tree of the I/O model (\<^verbatim>\<open>tools/pli/iop/avl.cc\<close>), a class template. Its nodes, rotations
  and heights are the ones of the memory's tree, statement by statement (\<open>Mem_Avl\<close>), but the keys are
  unsigned and an insertion replaces the item of a key that is present. An item stands for the
  structure its pointer leads to. The results of \<^verbatim>\<open>insert\<close> are never used. \<^verbatim>\<open>remove\<close> is never called.
\<close>

fun avl_insert_node :: "u64 \<Rightarrow> 'v \<Rightarrow> 'v avl \<Rightarrow> 'v avl res" where
  "avl_insert_node key item Null = Inr (Node Null key item 0 Null)"
| "avl_insert_node key item (Node l k v b r) =
    (if key = k then Inr (Node l k item b r)
     else if key < k then res_bind (avl_insert_node key item l) (\<lambda>l. rebalance (Node l k v b r))
     else res_bind (avl_insert_node key item r) (\<lambda>r. rebalance (Node l k v b r)))"

definition avl_insert :: "u64 \<Rightarrow> 'v \<Rightarrow> 'v avl \<Rightarrow> 'v avl res" where
  "avl_insert key item root = avl_insert_node key item root"

fun avl_search_node :: "u64 \<Rightarrow> 'v avl \<Rightarrow> 'v option res" where
  "avl_search_node key Null = Inl Undefined"
| "avl_search_node key (Node l k v b r) =
    (if k = key then Inr (Some v)
     else if key < k then (if l = Null then Inr None else avl_search_node key l)
     else (if r = Null then Inr None else avl_search_node key r))"

definition avl_search :: "u64 \<Rightarrow> 'v avl \<Rightarrow> 'v option res" where
  "avl_search key root = (if root = Null then Inr None else avl_search_node key root)"

text \<open>An assignment to the structure that \<^verbatim>\<open>search\<close> points to.\<close>

fun avl_update :: "u64 \<Rightarrow> ('v \<Rightarrow> 'v) \<Rightarrow> 'v avl \<Rightarrow> 'v avl" where
  "avl_update key f Null = Null"
| "avl_update key f (Node l k v b r) =
    (if k = key then Node l k (f v) b r
     else if key < k then Node (avl_update key f l) k v b r
     else Node l k v b (avl_update key f r))"

subsection \<open>Signed and unsigned keys\<close>

text \<open>Adding \<open>2 ^ 63\<close> turns the unsigned order of the keys into the signed one.\<close>

definition signed_key :: "u64 \<Rightarrow> ll" where
  "signed_key k = k + 2 ^ 63"

lemma sint_signed_key: "sint (signed_key k) = uint k - 2 ^ 63"
proof -
  have "uint (signed_key k) = (uint k + 2 ^ 63) mod 2 ^ 64"
    by (simp add: signed_key_def uint_word_ariths)
  then have "sint (signed_key k) = ((uint k + 2 ^ 63) mod 2 ^ 64 + 2 ^ 63) mod 2 ^ 64 - 2 ^ 63"
    by (simp add: sint_uint signed_take_bit_eq_take_bit_shift take_bit_eq_mod)
  also have "\<dots> = (uint k + 2 ^ 63 + 2 ^ 63) mod 2 ^ 64 - 2 ^ 63" by (simp add: mod_add_left_eq)
  also have "\<dots> = (uint k + 2 ^ 64) mod 2 ^ 64 - 2 ^ 63" by simp
  also have "\<dots> = uint k - 2 ^ 63" using uint_bounded [of k] uint_ge_0 [of k] by simp
  finally show ?thesis .
qed

lemma signed_key_less: "sint (signed_key j) < sint (signed_key k) \<longleftrightarrow> j < k"
  by (simp add: sint_signed_key word_less_def)

lemma signed_key_eq [simp]: "signed_key j = signed_key k \<longleftrightarrow> j = k"
  by (simp add: signed_key_def)

fun signed_tree :: "'v avl \<Rightarrow> 'v avl" where
  "signed_tree Null = Null"
| "signed_tree (Node l k v b r) = Node (signed_tree l) (signed_key k) v b (signed_tree r)"

lemma signed_Null [simp]: "signed_tree t = Null \<longleftrightarrow> t = Null"
  by (cases t) auto

lemma bal_signed [simp]: "bal (signed_tree t) = bal t"
  by (cases t) auto

lemma difference_signed [simp]: "difference (signed_tree t) = difference t"
  by (cases t) auto

lemma rotate_signed: "rotate_right (signed_tree t) = signed_tree (rotate_right t)" "rotate_left (signed_tree t) = signed_tree (rotate_left t)"
  by (cases t rule: rotate_right.cases; simp) (cases t rule: rotate_left.cases; simp)

lemma rotate_signed_node:
  "rotate_right (Node (signed_tree l) (signed_key k) v b (signed_tree r)) = signed_tree (rotate_right (Node l k v b r))"
  "rotate_left (Node (signed_tree l) (signed_key k) v b (signed_tree r)) = signed_tree (rotate_left (Node l k v b r))"
  using rotate_signed [of "Node l k v b r"] by simp_all

abbreviation signed_res :: "'v avl res \<Rightarrow> 'v avl res" where
  "signed_res m \<equiv> res_bind m (\<lambda>t. Inr (signed_tree t))"

lemma bump_signed: "bump i (signed_tree t) = signed_res (bump i t)"
  by (cases t) auto

lemma bump_left_signed: "bump_left i (signed_tree t) = signed_res (bump_left i t)"
  by (cases t) (simp_all add: bump_signed res_bind_assoc)

lemma bump_right_signed: "bump_right i (signed_tree t) = signed_res (bump_right i t)"
  by (cases t) (simp_all add: bump_signed res_bind_assoc)

lemmas bumps_signed = bump_signed bump_left_signed bump_right_signed rotate_signed rotate_signed_node res_bind_assoc

lemma balance_left_signed: "balance_left (signed_tree t) = signed_res (balance_left t)"
  by (cases t) (simp_all add: bumps_signed)

lemma balance_right_signed: "balance_right (signed_tree t) = signed_res (balance_right t)"
  by (cases t) (simp_all add: bumps_signed)

lemma rebalance_signed:
  "rebalance (Node (signed_tree l) (signed_key k) v b (signed_tree r)) = signed_res (rebalance (Node l k v b r))"
proof -
  define c where "c = (if bal l > bal r then bal l + 1 else bal r + 1)"
  have "fixFB (Node (signed_tree l) (signed_key k) v b (signed_tree r)) = Inr (signed_tree (Node l k v c r))"
    "fixFB (Node l k v b r) = Inr (Node l k v c r)" by (simp_all add: c_def)
  then show ?thesis
    unfolding rebalance_def by (simp only: res_bind.simps difference_signed balance_left_signed balance_right_signed if_distrib [of "\<lambda>m. res_bind m _"])
qed

lemma avl_insert_signed:
  "insert_node (\<lambda>_. item) (signed_key key) item (signed_tree t) = signed_res (avl_insert_node key item t)"
  by (induction t) (simp_all add: create_avl_node_def signed_key_less rebalance_signed res_bind_assoc)

lemma avl_search_signed: "search_node (signed_key key) (signed_tree t) = avl_search_node key t"
  by (induction t) (auto simp: signed_key_less)

lemma avl_update_signed: "update_node (signed_key key) f (signed_tree t) = signed_tree (avl_update key f t)"
  by (induction t) (auto simp: signed_key_less)

subsection \<open>The tree as a map\<close>

definition utree_wf :: "'v avl \<Rightarrow> bool" where
  "utree_wf t \<longleftrightarrow> avl_wf (signed_tree t)"

definition utree_map :: "'v avl \<Rightarrow> u64 \<Rightarrow> 'v option" where
  "utree_map t key = avl_map (signed_tree t) (signed_key key)"

lemma avl_insert_map:
  assumes "utree_wf t"
  shows "\<exists>t'. avl_insert key item t = Inr t' \<and> utree_wf t' \<and> utree_map t' = (utree_map t)(key \<mapsto> item)"
  using insert_node_refines [of "signed_tree t" "\<lambda>_. item" "signed_key key" item] assms
  by (auto simp: utree_wf_def utree_map_def avl_insert_def avl_insert_signed gf_res upsert_def fun_eq_iff split: option.splits)

lemma avl_search_map: "utree_wf t \<Longrightarrow> avl_search key t = Inr (utree_map t key)"
  using find_node_refines [of "signed_tree t" "signed_key key"]
  by (auto simp: utree_wf_def utree_map_def avl_search_def find_node_def avl_search_signed split: if_splits)

interpretation utree: node_store Null utree_wf utree_map avl_insert avl_search "\<lambda>k f t. Inr (avl_update k f t)"
proof (unfold_locales, goal_cases)
  case (3 t k v)
  show ?case by (rule avl_insert_map [OF 3(1)])
next
  case (5 t k f)
  then have "avl_wf (signed_tree t)" by (simp add: utree_wf_def)
  then have "avl_wf (signed_tree (avl_update k f t))" "avl_map (signed_tree (avl_update k f t)) =
      (avl_map (signed_tree t))(signed_key k := map_option f (avl_map (signed_tree t) (signed_key k)))"
    unfolding avl_update_signed [symmetric] by (rule update_node_wf, rule update_node_map)
  then show ?case by (simp add: utree_wf_def utree_map_def fun_eq_iff)
qed (simp_all add: utree_wf_def utree_map_def Null_wf avl_search_map fun_eq_iff)

end
