(* ===== verification/Iop_Sys.thy ===== *)
theory Iop_Sys
  imports Iop_List Iop_Avl Iop_Main
begin

text \<open>
  The boot ROM behind the serial system interface (\<^verbatim>\<open>tools/pli/iop/bw_sys.cc\<close>, with the text helpers of
  \<^verbatim>\<open>strclass.cc\<close>). In every cycle the simulator calls \<^verbatim>\<open>ssi\<close> with the bit that the chip sends and \<^verbatim>\<open>sso\<close>
  for the bit that it receives. A request has a start bit, 95 bits and a parity bit; a reply waits
  in a queue until it is sent bit by bit. The single object of the class is static, so that its
  members start as zeros; \<^verbatim>\<open>new\<close> leaves the members of a reply unassigned (\<open>None\<close>).

  A \<^verbatim>\<open>char\<close> that holds a bit is an \<open>u8\<close>. The call \<^verbatim>\<open>tf_dofinish\<close> ends the simulation after the current
  time step and returns; \<open>y_finish\<close> records it. The constant \<^verbatim>\<open>0xfff << 28\<close> overflows \<^verbatim>\<open>int\<close>; as compilers
  fold it, the bits above 31 are dropped. A random number is an argument.
\<close>

subsection \<open>Text\<close>

definition replace_chars :: "string \<Rightarrow> string" where
  "replace_chars str = map (\<lambda>c. if c \<in> {CHR ''('', CHR '')'', CHR ''-'', CHR ''>'', CHR 0x22, CHR '',''} then SPACE else c) str"

definition copy_token :: "string \<Rightarrow> nat \<Rightarrow> string \<times> nat" where
  "copy_token buf idx =
    (let cbuf = takeWhile (\<lambda>c. c \<noteq> NUL \<and> c \<noteq> LF \<and> c \<noteq> SPACE) (drop idx buf) in (cbuf, idx + length cbuf))"

definition rmhexa :: "string \<Rightarrow> string" where
  "rmhexa buf = drop 1 (dropWhile (\<lambda>c. c \<noteq> CHR ''h'' \<and> c \<noteq> CHR ''x'') buf)"

definition key_value :: "string \<Rightarrow> u64" where
  "key_value buf = foldl (\<lambda>key c. push_bit 4 key OR scast (hex_value c)) 0 buf"

subsection \<open>The state\<close>

definition SSI_NUM :: nat where "SSI_NUM = 95"
definition SSO_NUM :: nat where "SSO_NUM = 65"

record sso_record =
  sr_serial :: "u8 option list"
  sr_num :: "nat option"
  sr_idx :: "nat option"
  sr_wait :: nat

record bw_sys =
  y_phy_event :: "int ll_list avl"    \<comment> \<open>an event is its type\<close>
  y_off_random :: bool
  y_start_bit :: bool
  y_sso_ready :: bool
  y_ssi_idx :: nat
  y_hit :: bool
  y_rcv :: "u8 list"
  y_addr :: u64
  y_sso_Q :: "sso_record ll_list"
  y_sso_r :: "sso_record option"
  y_dont_kill :: bool
  y_finish :: bool

type_synonym sys_state = "bw_sys \<times> atom_body b_tree_node"

definition sys_init :: bw_sys where
  "sys_init =
    \<lparr>y_phy_event = Null, y_off_random = False, y_start_bit = False, y_sso_ready = False, y_ssi_idx = 0,
     y_hit = False, y_rcv = replicate SSI_NUM 0, y_addr = 0, y_sso_Q = list_new, y_sso_r = None,
     y_dont_kill = False, y_finish = False\<rparr>"

subsection \<open>Options and events\<close>

definition add_error :: "u64 \<Rightarrow> int ll_list avl \<Rightarrow> int ll_list avl res" where
  "add_error key tree =
    res_bind (avl_search key tree) (\<lambda>found.
    case found of
      Some evs \<Rightarrow> res_bind (list_append 1 evs) (\<lambda>evs. Inr (avl_update key (\<lambda>_. evs) tree))
    | None \<Rightarrow> res_bind (list_append 1 list_new) (\<lambda>evs. avl_insert key evs tree))"

definition event_line :: "string \<Rightarrow> int ll_list avl \<Rightarrow> int ll_list avl res" where
  "event_line line tree =
    (let buf = replace_chars (takeWhile (\<lambda>c. c \<noteq> NUL) line)
     in if \<not> has_prefix ''ssi_error '' buf 0 then Inr tree
        else case rmSpace buf 10 of
          None \<Rightarrow> Inl Undefined
        | Some idx \<Rightarrow> add_error (key_value (rmhexa (fst (copy_token buf idx)))) tree)"

definition read_evfile :: "string \<Rightarrow> bw_sys \<Rightarrow> bw_sys res" where
  "read_evfile file st =
    res_bind (res_fold event_line (fgets_all (BUFFER - 1) file) (y_phy_event st)) (\<lambda>tree.
    Inr (st\<lparr>y_phy_event := tree\<rparr>))"

text \<open>\<open>off_random_sys\<close> and \<open>ignore_ssi_parity\<close> say whether these options are on the command line.\<close>

definition sys_option :: "bool \<Rightarrow> bool \<Rightarrow> string \<Rightarrow> bw_sys \<Rightarrow> bw_sys res" where
  "sys_option off_random_sys ignore_ssi_parity file st =
    res_bind (read_evfile file (st\<lparr>y_off_random := off_random_sys\<rparr>)) (\<lambda>st.
    Inr (if ignore_ssi_parity then st\<lparr>y_dont_kill := True\<rparr> else st))"

definition manual_init :: "bw_sys \<Rightarrow> bw_sys" where
  "manual_init st = st\<lparr>y_start_bit := False, y_sso_ready := False, y_off_random := False, y_dont_kill := False\<rparr>"

definition hit_addr :: "bw_sys \<Rightarrow> bw_sys res" where
  "hit_addr st =
    (let key = y_addr st AND 0xffffffffff
     in res_bind (avl_search key (y_phy_event st)) (\<lambda>found.
        case found of
          None \<Rightarrow> Inr (st\<lparr>y_hit := False\<rparr>)
        | Some evs \<Rightarrow>
            res_bind (list_shift evs) (\<lambda>(_, evs).
            Inr (st\<lparr>y_phy_event := avl_update key (\<lambda>_. evs) (y_phy_event st), y_hit := True\<rparr>))))"

subsection \<open>Bits\<close>

definition parity :: "u8 list \<Rightarrow> nat \<Rightarrow> bool" where
  "parity buf num \<longleftrightarrow> foldl (XOR) 0 (take num buf) XOR 1 \<noteq> 0"

definition merged :: "u8 list \<Rightarrow> nat \<Rightarrow> nat \<Rightarrow> 32 word" where
  "merged sr st en = foldl (\<lambda>tmp idx. push_bit 1 tmp OR scast (sr ! idx)) 0 (rev [en..<Suc st])"

definition mergedl :: "u8 list \<Rightarrow> nat \<Rightarrow> nat \<Rightarrow> u64" where
  "mergedl sr st en = foldl (\<lambda>tmp idx. push_bit 1 tmp OR scast (sr ! idx)) 0 (rev [en..<Suc st])"

subsection \<open>Reading and writing the boot ROM\<close>

text \<open>A byte, lowest bit first, into the cells from \<open>n - 1\<close> downwards; \<open>n\<close> is \<^verbatim>\<open>ridx + 1\<close>.\<close>

definition put_byte :: "u8 \<Rightarrow> u8 option list \<times> nat \<Rightarrow> (u8 option list \<times> nat) res" where
  "put_byte ch s =
    res_bind (res_fold (\<lambda>i (serial, ch, n).
      if n = 0 then Inl Undefined
      else res_bind (array_put (n - 1) (Some (ch AND 1)) serial) (\<lambda>serial. Inr (serial, drop_bit 1 ch, n - 1)))
      [0..<8] (fst s, ch, snd s)) (\<lambda>(serial, _, n). Inr (serial, n))"

definition align_serial :: "nat \<Rightarrow> nat \<Rightarrow> u8 option list \<Rightarrow> u8 option list res" where
  "align_serial ind sv serial =
    (if ind = 0 then Inr serial
     else res_fold (\<lambda>i serial. res_bind (array_at i serial) (\<lambda>b. array_put (i - ind) b serial)) [ind..<Suc sv] serial)"

definition get_data :: "u64 \<Rightarrow> u8 option list \<Rightarrow> u8 option list \<Rightarrow> nat \<Rightarrow> u8 option list res" where
  "get_data addr data serial ridx =
    res_bind (res_fold (\<lambda>idx s. res_bind (byte_at (byte_offset addr + idx) data) (\<lambda>ch. put_byte ch s))
      (rev [0..<8]) (serial, ridx + 1)) (\<lambda>(serial, _).
    align_serial (unat (addr AND 0x7) * 8) ridx serial)"

definition unpack :: "u64 \<Rightarrow> u8 list" where
  "unpack write_data = map (\<lambda>idx. ucast (drop_bit (8 * idx) write_data)) [0..<8]"

definition put_bytes :: "nat \<Rightarrow> nat \<Rightarrow> u8 list \<Rightarrow> u8 option list \<Rightarrow> u8 option list res" where
  "put_bytes off len ch_array data =
    res_fold (\<lambda>idx data. array_put (off + len - idx - 1) (Some (ch_array ! (idx + (8 - len)))) data) [0..<len] data"

definition write_sys :: "nat \<Rightarrow> u64 \<Rightarrow> u64 \<Rightarrow> atom_body b_tree_node \<Rightarrow> atom_body b_tree_node res" where
  "write_sys sz addr write_data mem =
    (let off = unat (addr AND 0x3f); len = 2 ^ sz; ch_array = unpack write_data; line = mask_addr addr
     in res_bind (b_Find line mem) (\<lambda>data.
        case data of
          Some a \<Rightarrow>
            res_bind (put_bytes off len ch_array (at_data (snd a))) (\<lambda>bytes.
            b_modify line (\<lambda>body. body\<lparr>at_data := bytes\<rparr>) mem)
        | None \<Rightarrow>
            res_bind (put_bytes off len ch_array (replicate 64 (Some 0) @ [Some 0])) (\<lambda>bytes.
            b_insert (line, \<lparr>at_size = 64, at_data = bytes\<rparr>) mem)))"

subsection \<open>Requests\<close>

definition cells :: "nat \<Rightarrow> u8 option list \<Rightarrow> u8 list res" where
  "cells num serial = res_fold (\<lambda>i bs. res_bind (byte_at i serial) (\<lambda>b. Inr (bs @ [b]))) [0..<num] []"

text \<open>The parity bit behind \<open>num\<close> data bits, wrong after a hit.\<close>

definition close_reply :: "nat \<Rightarrow> bool \<Rightarrow> sso_record \<Rightarrow> sso_record res" where
  "close_reply num hit t =
    res_bind (cells num (sr_serial t)) (\<lambda>bs.
    res_bind (array_put num (Some (of_bool (parity bs num \<noteq> hit))) (sr_serial t)) (\<lambda>serial.
    Inr (t\<lparr>sr_serial := serial, sr_num := Some (num + 1)\<rparr>)))"

definition new_reply :: "32 word \<Rightarrow> bw_sys \<Rightarrow> sso_record" where
  "new_reply rand st =
    \<lparr>sr_serial = replicate SSO_NUM None, sr_num = None, sr_idx = None,
     sr_wait = (if y_off_random st then 3 else unat (rand AND (0x3 + 1)))\<rparr>"

definition write_reply :: "sso_record \<Rightarrow> sso_record" where
  "write_reply t = t\<lparr>sr_num := Some 3, sr_serial := [Some 1, Some 1, Some 0] @ drop 3 (sr_serial t)\<rparr>"

definition recover_addr :: "32 word \<Rightarrow> u64" where
  "recover_addr low = scast low OR scast (push_bit 28 (0xfff :: 32 word))"

definition xlation :: "32 word \<Rightarrow> sys_state \<Rightarrow> sys_state res" where
  "xlation rand s =
    (let (st, mem) = s; rcv = y_rcv st; t = new_reply rand st;
         sz = unat (merged rcv 93 92);
         addr = recover_addr (merged rcv 91 64);
         st = st\<lparr>y_addr := addr\<rparr>
     in res_bind
          (if rcv ! 94 = 0 then
             res_bind (write_sys sz addr (mergedl rcv 63 0) mem) (\<lambda>mem. Inr (write_reply t, st, mem))
           else if rcv ! 94 = 1 then
             res_bind (b_Find (mask_addr addr) mem) (\<lambda>data.
             case data of
               None \<Rightarrow> Inl Undefined
             | Some a \<Rightarrow>
                 res_bind (get_data addr (at_data (snd a)) (sr_serial t) 63) (\<lambda>serial.
                 res_bind (hit_addr st) (\<lambda>st.
                 res_bind (close_reply (8 * 2 ^ sz) (y_hit st) (t\<lparr>sr_serial := serial\<rparr>)) (\<lambda>t. Inr (t, st, mem)))))
           else Inr (t, st, mem))
          (\<lambda>(t, st, mem). res_bind (list_append t (y_sso_Q st)) (\<lambda>q. Inr (st\<lparr>y_sso_Q := q\<rparr>, mem))))"

definition ssi :: "32 word \<Rightarrow> u8 \<Rightarrow> sys_state \<Rightarrow> sys_state res" where
  "ssi rand ch s =
    (let (st, mem) = s
     in if ch \<noteq> 0 \<or> y_start_bit st then
          if \<not> y_start_bit st then Inr (st\<lparr>y_ssi_idx := SSI_NUM, y_start_bit := True\<rparr>, mem)
          else if y_ssi_idx st = 0 then
            let wrong = of_bool (parity (y_rcv st) 95) \<noteq> ch
            in res_bind (xlation rand (if wrong \<and> \<not> y_dont_kill st then st\<lparr>y_finish := True\<rparr> else st, mem))
                 (\<lambda>(st, mem). Inr (st\<lparr>y_start_bit := False\<rparr>, mem))
          else
            res_bind (array_put (y_ssi_idx st - 1) ch (y_rcv st)) (\<lambda>rcv.
            Inr (st\<lparr>y_ssi_idx := y_ssi_idx st - 1, y_rcv := rcv\<rparr>, mem))
        else Inr (st, mem))"

subsection \<open>Replies\<close>

definition send_bit :: "sso_record \<Rightarrow> (u8 \<times> sso_record option) res" where
  "send_bit t =
    (case (sr_idx t, sr_num t) of
       (Some idx, Some num) \<Rightarrow>
         res_bind (byte_at idx (sr_serial t)) (\<lambda>b.
         Inr (b, if num = idx + 1 then None else Some (t\<lparr>sr_idx := Some (idx + 1)\<rparr>)))
     | _ \<Rightarrow> Inl Undefined)"

definition start_reply :: "sso_record \<Rightarrow> sso_record res" where
  "start_reply t =
    (case sr_num t of
       None \<Rightarrow> Inl Undefined
     | Some num \<Rightarrow> Inr (t\<lparr>sr_idx := Some (if num = 3 then 1 else 0)\<rparr>))"

definition sso :: "bw_sys \<Rightarrow> (u8 \<times> bw_sys) res" where
  "sso st =
    (if \<not> list_empty (y_sso_Q st) \<or> y_sso_ready st then
       if y_sso_ready st then
         (case y_sso_r st of
            None \<Rightarrow> Inl Undefined
          | Some t \<Rightarrow>
              res_bind (send_bit t) (\<lambda>(b, t). Inr (b, st\<lparr>y_sso_ready := t \<noteq> None, y_sso_r := t\<rparr>)))
       else
         res_bind (modify_front (\<lambda>t. t\<lparr>sr_wait := sr_wait t - 1\<rparr>) (y_sso_Q st)) (\<lambda>q.
         res_bind (list_front q) (\<lambda>front.
         case front of
           None \<Rightarrow> Inl Undefined
         | Some t \<Rightarrow>
             if sr_wait t = 0 then
               res_bind (list_shift q) (\<lambda>(_, q).
               res_bind (start_reply t) (\<lambda>t. Inr (1, st\<lparr>y_sso_Q := q, y_sso_r := Some t, y_sso_ready := True\<rparr>)))
             else Inr (0, st\<lparr>y_sso_Q := q\<rparr>)))
     else Inr (0, st))"

text \<open>The call in every cycle: the random number and the bit that comes in; the bit that goes out.\<close>

definition ssi_drive_call :: "32 word \<times> u8 \<Rightarrow> u8 list \<times> sys_state \<Rightarrow> (u8 list \<times> sys_state) res" where
  "ssi_drive_call input s =
    res_bind (ssi (fst input) (snd input) (snd s)) (\<lambda>(st, mem).
    res_bind (sso st) (\<lambda>(out, st). Inr (fst s @ [out], (st, mem))))"

end
