(* ===== verification/Iop_Sys_Data.thy ===== *)
theory Iop_Sys_Data
  imports Iop_Sys Iop_Main_Refine
begin

text \<open>
  What the operations of the boot ROM do to its data: bits of a request as numbers, the bytes of a
  doubleword as a row of bits, the bytes of a write in a line.
\<close>

subsection \<open>Bits as numbers\<close>

definition bits :: "nat \<Rightarrow> 'a::len word \<Rightarrow> u8 list" where
  "bits n w = map (\<lambda>i. of_bool (bit w i)) [0..<n]"

lemma length_bits [simp]: "length (bits n w) = n"
  by (simp add: bits_def)

lemma bits_nth [simp]: "i < n \<Longrightarrow> bits n w ! i = of_bool (bit w i)"
  by (simp add: bits_def)

text \<open>The loops of \<open>merged\<close> and \<open>mergedl\<close>.\<close>

definition merge_bits :: "u8 list \<Rightarrow> nat \<Rightarrow> nat \<Rightarrow> 'a::len word" where
  "merge_bits sr upper lower = foldl (\<lambda>tmp idx. push_bit 1 tmp OR scast (sr ! idx)) 0 (rev [lower..<upper])"

lemma merge_bits_bit:
  assumes "\<forall>i. lower \<le> i \<and> i < lower + n \<longrightarrow> sr ! i = of_bool (b i)"
  shows "bit (merge_bits sr (lower + n) lower :: 'a::len word) k \<longleftrightarrow> k < n \<and> k < LENGTH('a) \<and> b (lower + k)"
  using assms
proof (induction n arbitrary: lower k)
  case 0
  then show ?case by (simp add: merge_bits_def)
next
  case (Suc n)
  have s: "[lower..<lower + Suc n] = lower # [Suc lower..<Suc lower + n]" by (simp add: upt_conv_Cons)
  have m: "merge_bits sr (lower + Suc n) lower = push_bit 1 (merge_bits sr (Suc lower + n) (Suc lower)) OR (scast (sr ! lower) :: 'a word)"
    unfolding merge_bits_def s by simp
  have "bit (merge_bits sr (Suc lower + n) (Suc lower) :: 'a word) j \<longleftrightarrow> j < n \<and> j < LENGTH('a) \<and> b (Suc lower + j)" for j
    by (rule Suc.IH) (use Suc.prems in auto)
  moreover have "sr ! lower = of_bool (b lower)" using Suc.prems by simp
  moreover have "scast (of_bool c :: u8) = (of_bool c :: 'a word)" for c by (cases c) simp_all
  moreover have "bit (push_bit 1 v OR of_bool c) k \<longleftrightarrow> (1 \<le> k \<and> k < LENGTH('a) \<and> bit v (k - 1)) \<or> (c \<and> k = 0)" for v :: "'a word" and c
    unfolding bit_or_iff bit_push_bit_iff by (auto simp: bit_of_bool_iff dest: bit_imp_le_length)
  ultimately show ?case
    unfolding m by (cases k) auto
qed

lemma merge_bits_word:
  fixes w :: "'b::len word"
  assumes "\<And>i. i < n \<Longrightarrow> sr ! (lower + i) = of_bool (bit w i)" and "LENGTH('b) = n"
  shows "merge_bits sr (lower + n) lower = (ucast w :: 'a::len word)"
proof (rule bit_word_eqI)
  fix k
  have "\<forall>i. lower \<le> i \<and> i < lower + n \<longrightarrow> sr ! i = of_bool (bit w (i - lower))" 
  proof (intro allI impI)
    fix i assume "lower \<le> i \<and> i < lower + n"
    then have "i - lower < n" "lower + (i - lower) = i" by auto
    then show "sr ! i = of_bool (bit w (i - lower))" using assms(1) by metis
  qed
  from merge_bits_bit [OF this, of k, where ?'a = 'a]
  show "bit (merge_bits sr (lower + n) lower :: 'a word) k \<longleftrightarrow> bit (ucast w :: 'a word) k"
    if "k < LENGTH('a)"
    using assms(2) that by (auto simp: bit_ucast_iff dest: bit_imp_le_length)
qed

lemma merged_bits: "merged sr st lower = merge_bits sr (Suc st) lower" "mergedl sr st lower = merge_bits sr (Suc st) lower"
  by (simp_all add: merged_def mergedl_def merge_bits_def)

subsection \<open>Rows of cells\<close>

definition overwrite :: "nat \<Rightarrow> 'a list \<Rightarrow> 'a list \<Rightarrow> 'a list" where
  "overwrite p ys xs = take p xs @ ys @ drop (p + length ys) xs"

lemma overwrite_Nil [simp]: "overwrite p [] xs = xs"
  by (simp add: overwrite_def)

lemma length_overwrite [simp]: "p + length ys \<le> length xs \<Longrightarrow> length (overwrite p ys xs) = length xs"
  by (simp add: overwrite_def)

lemma overwrite_before:
  assumes "0 < p" and "p + length ys \<le> length xs"
  shows "(overwrite p ys xs)[p - 1 := y] = overwrite (p - 1) (y # ys) xs"
  using assms by (cases p) (auto simp: overwrite_def take_Suc_conv_app_nth list_update_append)

lemma overwrite_after:
  assumes "p + length ys < length xs"
  shows "(overwrite p ys xs)[p + length ys := y] = overwrite p (ys @ [y]) xs"
proof -
  have "drop (p + length ys) xs = xs ! (p + length ys) # drop (Suc (p + length ys)) xs"
    using assms by (simp add: Cons_nth_drop_Suc)
  then show ?thesis using assms by (simp add: overwrite_def list_update_append)
qed

lemma overwrite_overwrite:
  assumes "p + length ys + length zs \<le> length xs"
  shows "overwrite p zs (overwrite (p + length zs) ys xs) = overwrite p (zs @ ys) xs"
  using assms by (simp add: overwrite_def min_def add.assoc)

lemma overwrite_nth:
  assumes "p + length ys \<le> length xs" and "i < length xs"
  shows "overwrite p ys xs ! i = (if p \<le> i \<and> i < p + length ys then ys ! (i - p) else xs ! i)"
  using assms by (auto simp: overwrite_def nth_append min_def)

subsection \<open>The bits of a doubleword\<close>

definition byte_bits :: "u8 \<Rightarrow> u8 list" where
  "byte_bits ch = rev (bits 8 ch)"

lemma length_byte_bits [simp]: "length (byte_bits ch) = 8"
  by (simp add: byte_bits_def)

lemma put_byte_steps:
  assumes "k \<le> 8" and "8 \<le> n" and "n \<le> length serial"
  shows "res_fold (\<lambda>i (serial, ch, n).
      if n = 0 then Inl Undefined
      else res_bind (array_put (n - 1) (Some (ch AND 1)) serial) (\<lambda>serial. Inr (serial, drop_bit 1 ch, n - 1)))
      [0..<k] (serial, ch, n) = Inr (overwrite (n - k) (map Some (rev (bits k ch))) serial, drop_bit k ch, n - k)"
  using assms(1)
proof (induction k)
  case (Suc k)
  have b: "drop_bit k ch AND 1 = (of_bool (bit ch k) :: u8)"
    by (rule bit_word_eqI) (auto simp: bit_simps)
  have "(overwrite (n - k) (map Some (rev (bits k ch))) serial)[n - k - 1 := Some (of_bool (bit ch k))] =
      overwrite (n - k - 1) (Some (of_bool (bit ch k)) # map Some (rev (bits k ch))) serial"
    by (rule overwrite_before) (use Suc.prems assms in auto)
  then show ?case using Suc assms
    by (simp add: res_fold_append array_put_def b bits_def drop_bit_drop_bit)
qed (simp add: bits_def)

lemma put_byte_ok:
  assumes "8 \<le> n" and "n \<le> length serial"
  shows "put_byte ch (serial, n) = Inr (overwrite (n - 8) (map Some (byte_bits ch)) serial, n - 8)"
  unfolding put_byte_def byte_bits_def using put_byte_steps [of 8 n serial ch] assms by simp

lemma put_bytes_rows:
  assumes "8 * length bs \<le> n" and "n \<le> length serial"
  shows "res_fold put_byte (rev bs) (serial, n) =
    Inr (overwrite (n - 8 * length bs) (map Some (concat (map byte_bits bs))) serial, n - 8 * length bs)"
  using assms
proof (induction bs)
  case (Cons b bs)
  let ?p = "n - 8 * length bs"
  have len: "length (concat (map byte_bits bs)) = 8 * length bs" by (induction bs) auto
  have "put_byte b (overwrite ?p (map Some (concat (map byte_bits bs))) serial, ?p) =
      Inr (overwrite (?p - 8) (map Some (byte_bits b)) (overwrite ?p (map Some (concat (map byte_bits bs))) serial), ?p - 8)"
    by (rule put_byte_ok) (use Cons.prems len in auto)
  moreover have "overwrite (?p - 8) (map Some (byte_bits b)) (overwrite (?p - 8 + length (map Some (byte_bits b))) (map Some (concat (map byte_bits bs))) serial) =
      overwrite (?p - 8) (map Some (byte_bits b) @ map Some (concat (map byte_bits bs))) serial"
    by (rule overwrite_overwrite) (use Cons.prems len in auto)
  ultimately show ?case using Cons by (simp add: res_fold_append add.commute)
qed simp

lemma align_steps:
  assumes "0 < ind" and "ind + k \<le> length serial"
  shows "res_fold (\<lambda>i serial. res_bind (array_at i serial) (\<lambda>b. array_put (i - ind) b serial)) [ind..<ind + k] serial =
    Inr (overwrite 0 (take k (drop ind serial)) serial)"
  using assms(2)
proof (induction k)
  case (Suc k)
  let ?s = "overwrite 0 (take k (drop ind serial)) serial"
  have len: "length (take k (drop ind serial)) = k" using Suc.prems by simp
  have "?s ! (ind + k) = serial ! (ind + k)" using Suc.prems assms(1) len by (subst overwrite_nth) auto
  moreover have "?s[0 + length (take k (drop ind serial)) := serial ! (ind + k)] =
      overwrite 0 (take k (drop ind serial) @ [serial ! (ind + k)]) serial"
    by (rule overwrite_after) (use Suc.prems assms(1) in simp)
  moreover have "take (Suc k) (drop ind serial) = take k (drop ind serial) @ [serial ! (ind + k)]"
    using Suc.prems by (simp add: take_Suc_conv_app_nth)
  ultimately show ?case using Suc len by (simp add: res_fold_append array_at_def array_put_def)
qed simp

lemma align_serial_ok:
  assumes "ind \<le> sv" and "sv < length serial"
  shows "align_serial ind sv serial = Inr (overwrite 0 (drop ind (take (Suc sv) serial)) serial)"
proof (cases "ind = 0")
  case True
  then show ?thesis using assms by (simp add: align_serial_def overwrite_def)
next
  case False
  then show ?thesis using align_steps [of ind "Suc sv - ind" serial] assms
    by (simp add: align_serial_def take_drop)
qed

lemma get_data_ok:
  fixes addr :: u64
  assumes "length data = 65" and "None \<notin> set (take 64 data)" and "length serial = 65"
  defines "row \<equiv> concat (map byte_bits (map the (slice (byte_offset addr) 8 data)))"
  shows "\<exists>serial'. get_data addr data serial 63 = Inr serial' \<and> length serial' = 65 \<and>
    take (64 - 8 * unat (addr AND 0x7)) serial' = map Some (drop (8 * unat (addr AND 0x7)) row)"
proof -
  let ?bs = "map the (slice (byte_offset addr) 8 data)" and ?o = "byte_offset addr"
  have o: "?o \<le> 56" by (rule byte_offset_le)
  have len: "length ?bs = 8" using assms(1) o by (simp add: slice_def)
  have at: "byte_at (?o + i) data = Inr (?bs ! i)" if "i < 8" for i
  proof -
    have "data ! (?o + i) \<in> set (take 64 data)" using that o assms(1) by (auto simp: in_set_conv_nth intro!: exI [of _ "?o + i"])
    then have "data ! (?o + i) \<noteq> None" using assms(2) by metis
    then obtain b where "data ! (?o + i) = Some b" by blast
    then show ?thesis using that o assms(1) by (simp add: byte_at_def array_at_def slice_def)
  qed
  have "res_fold (\<lambda>i s. res_bind (byte_at (?o + i) data) (\<lambda>ch. put_byte ch s)) is s = res_fold put_byte (map (nth ?bs) is) s"
    if "\<forall>i\<in>set is. i < 8" for "is" s
    using that by (induction "is" arbitrary: s) (simp_all add: at cong: res_bind_cong)
  from this [of "rev [0..<8]" "(serial, 64)"]
  have "res_fold (\<lambda>i s. res_bind (byte_at (?o + i) data) (\<lambda>ch. put_byte ch s)) (rev [0..<8]) (serial, 64) =
      res_fold put_byte (rev (map (nth ?bs) [0..<8])) (serial, 64)"
    by (simp add: rev_map)
  also have "map (nth ?bs) [0..<8] = ?bs" using map_nth [of ?bs] len by simp
  finally have g: "res_fold (\<lambda>i s. res_bind (byte_at (?o + i) data) (\<lambda>ch. put_byte ch s)) (rev [0..<8]) (serial, 64) =
      Inr (overwrite 0 (map Some row) serial, 0)"
    using put_bytes_rows [of ?bs 64 serial] len assms(3) by (simp add: row_def)
  have row: "length row = 64" using len by (simp add: row_def length_concat o_def sum_list_triv)
  define ind where "ind = 8 * unat (addr AND 0x7)"
  have "unat (addr AND 0x7) \<le> 7" using word_and_le1 [of addr 7] by (simp add: word_le_nat_alt)
  then have ind: "ind \<le> 56" by (simp add: ind_def)
  have "align_serial ind 63 (overwrite 0 (map Some row) serial) =
      Inr (overwrite 0 (drop ind (map Some row)) (overwrite 0 (map Some row) serial))"
    using align_serial_ok [of ind 63 "overwrite 0 (map Some row) serial"] ind row assms(3) by (simp add: overwrite_def)
  moreover have "take (64 - ind) (overwrite 0 (drop ind (map Some row)) (overwrite 0 (map Some row) serial)) = map Some (drop ind row)"
    using row ind by (simp add: overwrite_def drop_map)
  moreover have "length (overwrite 0 (drop ind (map Some row)) (overwrite 0 (map Some row) serial)) = 65"
    using row ind assms(3) by (simp add: overwrite_def)
  ultimately show ?thesis using g by (simp add: get_data_def ind_def mult.commute)
qed

subsection \<open>The bytes of a write\<close>

lemma unpack_word_bytes: "rev (unpack v) = word_bytes 8 v"
  by (simp add: unpack_def eval_nat_numeral drop_bit_drop_bit)

lemma put_bytes_ok:
  assumes "k \<le> n" and "n \<le> 8" and "length ch = 8" and "p + n \<le> length data"
  shows "res_fold (\<lambda>idx data. array_put (p + n - idx - 1) (Some (ch ! (idx + (8 - n)))) data) [0..<k] data =
    Inr (overwrite (p + n - k) (map Some (rev (take k (drop (8 - n) ch)))) data)"
  using assms(1)
proof (induction k)
  case (Suc k)
  let ?ys = "map Some (rev (take k (drop (8 - n) ch)))"
  have len: "length ?ys = k" using assms Suc.prems by simp
  have "(overwrite (p + n - k) ?ys data)[p + n - k - 1 := Some (ch ! (k + (8 - n)))] =
      overwrite (p + n - k - 1) (Some (ch ! (k + (8 - n))) # ?ys) data"
    by (rule overwrite_before) (use Suc.prems assms len in auto)
  moreover have "take (Suc k) (drop (8 - n) ch) = take k (drop (8 - n) ch) @ [ch ! (k + (8 - n))]"
    using Suc.prems assms by (simp add: take_Suc_conv_app_nth add.commute)
  ultimately show ?case using Suc assms len by (simp add: res_fold_append array_put_def)
qed simp

lemma put_sys_bytes:
  assumes "n \<le> 8" and "p + n \<le> length data"
  shows "put_bytes p n (unpack v) data = Inr (overwrite p (map Some (take n (word_bytes 8 v))) data)"
proof -
  have len: "length (unpack v) = 8" by (simp add: unpack_def)
  have "rev (drop (8 - n) (unpack v)) = take n (word_bytes 8 v)"
    unfolding rev_drop unpack_word_bytes len using assms(1) by (simp del: word_bytes.simps)
  then show ?thesis
    using put_bytes_ok [of n n "unpack v" p data] assms len by (simp add: put_bytes_def del: word_bytes.simps)
qed

end
