(* ===== verification/Iop_Sys_Reply.thy ===== *)
theory Iop_Sys_Reply
  imports Iop_Sys
begin

text \<open>
  The output of the boot ROM: a reply in the queue waits, then its start bit and its bits go out, one
  in every cycle, and after them the next reply of the queue.
\<close>

text \<open>The bits that a reply in the queue will send behind its start bit, and the ones still to send.\<close>

definition good_reply :: "u8 list \<Rightarrow> sso_record \<Rightarrow> bool" where
  "good_reply bs t \<longleftrightarrow> bs \<noteq> [] \<and> (\<exists>num. sr_num t = Some num \<and> num \<le> length (sr_serial t) \<and>
    drop (if num = 3 then 1 else 0) (take num (sr_serial t)) = map Some bs)"

definition remaining :: "u8 list \<Rightarrow> sso_record \<Rightarrow> bool" where
  "remaining bs t \<longleftrightarrow> bs \<noteq> [] \<and> (\<exists>idx num. sr_idx t = Some idx \<and> sr_num t = Some num \<and> num \<le> length (sr_serial t) \<and>
    drop idx (take num (sr_serial t)) = map Some bs)"

primrec sso_ticks :: "nat \<Rightarrow> u8 list \<times> bw_sys \<Rightarrow> (u8 list \<times> bw_sys) res" where
  "sso_ticks 0 s = Inr s"
| "sso_ticks (Suc n) s = res_bind (sso (snd s)) (\<lambda>(b, st). sso_ticks n (fst s @ [b], st))"

lemma sso_ticks_add: "sso_ticks (m + n) s = res_bind (sso_ticks m s) (sso_ticks n)"
  by (induction m arbitrary: s) (auto simp: res_bind_assoc case_prod_unfold)

subsection \<open>The phases of the output\<close>

text \<open>What \<^verbatim>\<open>sso\<close> leaves alone.\<close>

definition same_input :: "bw_sys \<Rightarrow> bw_sys \<Rightarrow> bool" where
  "same_input st st' \<longleftrightarrow> y_phy_event st' = y_phy_event st \<and> y_rcv st' = y_rcv st \<and> y_start_bit st' = y_start_bit st \<and>
    y_ssi_idx st' = y_ssi_idx st \<and> y_off_random st' = y_off_random st \<and> y_dont_kill st' = y_dont_kill st \<and> y_finish st' = y_finish st"

lemma same_input_refl [simp]: "same_input st st"
  by (simp add: same_input_def)

lemma same_input_trans: "same_input st st1 \<Longrightarrow> same_input st1 st2 \<Longrightarrow> same_input st st2"
  by (simp add: same_input_def)

lemma sso_same: "sso st = Inr (b, st') \<Longrightarrow> same_input st st'"
  by (auto simp: sso_def gf_res same_input_def split: if_splits option.splits)

lemma sso_ticks_same: "sso_ticks n (outs, st) = Inr (outs', st') \<Longrightarrow> same_input st st'"
proof (induction n arbitrary: outs st)
  case (Suc n)
  then obtain b st1 where "sso st = Inr (b, st1)" "sso_ticks n (outs @ [b], st1) = Inr (outs', st')"
    by (auto simp: gf_res)
  then show ?case using Suc.IH sso_same same_input_trans by blast
qed simp

definition silent :: "bw_sys \<Rightarrow> bool" where
  "silent st \<longleftrightarrow> list_wf (y_sso_Q st) [] \<and> \<not> y_sso_ready st"

lemma silent_sso: "silent st \<Longrightarrow> sso st = Inr (0, st)"
  using list_wf_empty [of "y_sso_Q st" "[]"] by (simp add: silent_def sso_def)

lemma silent_ticks: "silent st \<Longrightarrow> sso_ticks n (outs, st) = Inr (outs @ replicate n 0, st)"
  by (induction n arbitrary: outs) (simp_all add: silent_sso)

lemma send_step:
  assumes "remaining (b # bs) t"
  shows "if bs = [] then send_bit t = Inr (b, None) else \<exists>t'. send_bit t = Inr (b, Some t') \<and> remaining bs t'"
proof -
  obtain idx num where t: "sr_idx t = Some idx" "sr_num t = Some num" "num \<le> length (sr_serial t)"
      "drop idx (take num (sr_serial t)) = map Some (b # bs)"
    using assms by (auto simp: remaining_def)
  have len: "num - idx = Suc (length bs)" using arg_cong [OF t(4), of length] t(3) by simp
  have d: "drop idx (take num (sr_serial t)) = sr_serial t ! idx # drop (Suc idx) (take num (sr_serial t))"
    using len t(3) by (simp add: Cons_nth_drop_Suc [symmetric])
  then have "sr_serial t ! idx = Some b" "drop (Suc idx) (take num (sr_serial t)) = map Some bs" using t(4) by simp_all
  moreover have "num = idx + 1 \<longleftrightarrow> bs = []" using len by (cases bs) auto
  moreover have "idx < length (sr_serial t)" using len t(3) by simp
  ultimately show ?thesis
    using t(1,2,3) by (auto simp: send_bit_def byte_at_def array_at_def remaining_def)
qed

lemma send_phase:
  assumes "y_sso_ready st" and "y_sso_r st = Some t" and "remaining bs t" and "list_wf (y_sso_Q st) ts"
  shows "\<exists>st'. sso_ticks (length bs) (outs, st) = Inr (outs @ bs, st') \<and> list_wf (y_sso_Q st') ts \<and> \<not> y_sso_ready st'"
  using assms
proof (induction bs arbitrary: st t outs)
  case Nil
  then show ?case by (simp add: remaining_def)
next
  case (Cons b bs)
  show ?case
  proof (cases "bs = []")
    case True
    then show ?thesis using send_step [OF Cons.prems(3)] Cons.prems by (simp add: sso_def)
  next
    case False
    then obtain t' where t': "send_bit t = Inr (b, Some t')" "remaining bs t'" using send_step [OF Cons.prems(3)] by auto
    define st1 where "st1 = st\<lparr>y_sso_r := Some t'\<rparr>"
    have "sso st = Inr (b, st1)" using Cons.prems(1,2) t'(1) by (simp add: sso_def st1_def)
    then show ?thesis using Cons.IH [of st1 t' "outs @ [b]"] Cons.prems t'(2) by (simp add: st1_def)
  qed
qed

lemma start_ok:
  assumes "good_reply bs t"
  shows "\<exists>t'. start_reply t = Inr t' \<and> remaining bs t'"
  using assms by (auto simp: good_reply_def start_reply_def remaining_def)

lemma wait_phase:
  assumes "list_wf (y_sso_Q st) (t # ts)" and "\<not> y_sso_ready st" and "good_reply bs t"
  shows "\<exists>st' t'. sso_ticks (max 1 (sr_wait t)) (outs, st) = Inr (outs @ replicate (sr_wait t - 1) 0 @ [1], st') \<and>
    list_wf (y_sso_Q st') ts \<and> y_sso_ready st' \<and> y_sso_r st' = Some t' \<and> remaining bs t'"
  using assms
proof (induction "sr_wait t" arbitrary: st t outs rule: less_induct)
  case less
  let ?t = "t\<lparr>sr_wait := sr_wait t - 1\<rparr>"
  obtain q where q: "modify_front (\<lambda>t. t\<lparr>sr_wait := sr_wait t - 1\<rparr>) (y_sso_Q st) = Inr q" "list_wf q (?t # ts)"
    using ll.change [OF less.prems(1)] by blast
  have front: "list_front q = Inr (Some ?t)" by (rule ll.peek [OF q(2)])
  have good: "good_reply bs ?t" using less.prems(3) by (simp add: good_reply_def)
  have ne: "\<not> list_empty (y_sso_Q st)" using less.prems(1) list_wf_empty by blast
  show ?case
  proof (cases "sr_wait t - 1 = 0")
    case True
    obtain q' where q': "list_shift q = Inr (Some ?t, q')" "list_wf q' ts" using ll.pop [OF q(2)] by blast
    obtain t' where t': "start_reply ?t = Inr t'" "remaining bs t'" using start_ok [OF good] by blast
    have "sso st = Inr (1, st\<lparr>y_sso_Q := q', y_sso_r := Some t', y_sso_ready := True\<rparr>)"
      using less.prems(2) ne q(1) front True q'(1) t'(1) by (simp add: sso_def)
    moreover have "max 1 (sr_wait t) = Suc 0" using True by simp
    ultimately show ?thesis using True q'(2) t'(2) by simp
  next
    case False
    define st1 where "st1 = st\<lparr>y_sso_Q := q\<rparr>"
    have s: "sso st = Inr (0, st1)"
      using less.prems(2) ne q(1) front False by (simp add: sso_def st1_def)
    have "\<exists>st' t'. sso_ticks (max 1 (sr_wait ?t)) (outs @ [0], st1) = Inr ((outs @ [0]) @ replicate (sr_wait ?t - 1) 0 @ [1], st') \<and>
        list_wf (y_sso_Q st') ts \<and> y_sso_ready st' \<and> y_sso_r st' = Some t' \<and> remaining bs t'"
      by (rule less.hyps) (use False q(2) less.prems(2) good in \<open>simp_all add: st1_def\<close>)
    moreover obtain w where "sr_wait t = Suc (Suc w)" using False by (cases "sr_wait t"; cases "sr_wait t - 1") auto
    ultimately show ?thesis using s by simp
  qed
qed

text \<open>The number of cycles until a reply has been sent, and what is sent in them.\<close>

definition reply_time :: "sso_record \<times> u8 list \<Rightarrow> nat" where
  "reply_time p = max 1 (sr_wait (fst p)) + length (snd p)"

definition reply_row :: "sso_record \<times> u8 list \<Rightarrow> u8 list" where
  "reply_row p = replicate (sr_wait (fst p) - 1) 0 @ 1 # snd p"

lemma reply_phase:
  assumes "list_wf (y_sso_Q st) (t # ts)" and "\<not> y_sso_ready st" and "good_reply bs t"
  shows "\<exists>st'. sso_ticks (reply_time (t, bs)) (outs, st) = Inr (outs @ reply_row (t, bs), st') \<and>
    list_wf (y_sso_Q st') ts \<and> \<not> y_sso_ready st'"
proof -
  obtain st1 t' where st1: "sso_ticks (max 1 (sr_wait t)) (outs, st) = Inr (outs @ replicate (sr_wait t - 1) 0 @ [1], st1)"
      "list_wf (y_sso_Q st1) ts" "y_sso_ready st1" "y_sso_r st1 = Some t'" "remaining bs t'"
    using wait_phase [OF assms] by blast
  from send_phase [OF st1(3-5,2), of "outs @ replicate (sr_wait t - 1) 0 @ [1]"] show ?thesis
    using st1(1) by (auto simp: reply_time_def reply_row_def sso_ticks_add)
qed

lemma drain:
  assumes "list_wf (y_sso_Q st) (map fst ps)" and "\<not> y_sso_ready st" and "\<forall>p\<in>set ps. good_reply (snd p) (fst p)"
  shows "\<exists>st'. sso_ticks (sum_list (map reply_time ps)) (outs, st) = Inr (outs @ concat (map reply_row ps), st') \<and> silent st'"
  using assms
proof (induction ps arbitrary: st outs)
  case Nil
  then show ?case by (simp add: silent_def)
next
  case (Cons p ps)
  obtain t bs where p: "p = (t, bs)" by (cases p)
  obtain st1 where st1: "sso_ticks (reply_time p) (outs, st) = Inr (outs @ reply_row p, st1)"
      "list_wf (y_sso_Q st1) (map fst ps)" "\<not> y_sso_ready st1"
    using reply_phase [of st t "map fst ps" bs outs] Cons.prems by (auto simp: p)
  then show ?case using Cons.IH [of st1 "outs @ reply_row p"] Cons.prems(3) by (simp add: sso_ticks_add)
qed

end
