(* ===== verification/Iop_Sys_Refine.thy ===== *)
theory Iop_Sys_Refine
  imports Iop_Sys_Data Iop_Sys_Reply Iop_Image
begin

text \<open>
  The boot ROM as a server: requests with a command, a size and an address, the bits that stand for
  them, and what they do to a memory of lines of 64 bytes.
\<close>

subsection \<open>Requests\<close>

text \<open>The logarithm of the number of bytes, the address in the boot ROM, and 64 bits of data.\<close>

datatype ssi_request = Boot_write nat "28 word" u64 | Boot_read nat "28 word" u64

fun request_bits :: "ssi_request \<Rightarrow> u8 list" where
  "request_bits (Boot_write sz a d) = bits 64 d @ bits 28 a @ bits 2 (of_nat sz :: 2 word) @ [0]"
| "request_bits (Boot_read sz a d) = bits 64 d @ bits 28 a @ bits 2 (of_nat sz :: 2 word) @ [1]"

definition parity_bit :: "u8 list \<Rightarrow> bool" where
  "parity_bit bs \<longleftrightarrow> even (count_list bs 1)"

definition frame :: "ssi_request \<Rightarrow> u8 list" where
  "frame r = 1 # rev (request_bits r) @ [of_bool (parity_bit (request_bits r))]"

definition boot_addr :: "28 word \<Rightarrow> u64" where
  "boot_addr a = 0xfff0000000 OR ucast a"

definition boot_line :: "28 word \<Rightarrow> u64" where
  "boot_line a = drop_bit 6 (boot_addr a)"

definition boot_off :: "28 word \<Rightarrow> nat" where
  "boot_off a = unat a mod 64"

type_synonym boot_mem = "u64 \<Rightarrow> u8 list option"

fun boot_ok :: "boot_mem \<Rightarrow> ssi_request \<Rightarrow> bool" where
  "boot_ok m (Boot_write sz a d) \<longleftrightarrow> sz < 4 \<and> 2 ^ sz dvd unat a"
| "boot_ok m (Boot_read sz a d) \<longleftrightarrow> sz < 4 \<and> 2 ^ sz dvd unat a \<and> m (boot_line a) \<noteq> None"

fun boot_step :: "ssi_request \<Rightarrow> boot_mem \<Rightarrow> boot_mem" where
  "boot_step (Boot_write sz a d) m =
    m(boot_line a \<mapsto> overwrite (boot_off a) (take (2 ^ sz) (word_bytes 8 d))
      (case m (boot_line a) of None \<Rightarrow> replicate 64 0 | Some l \<Rightarrow> l))"
| "boot_step (Boot_read sz a d) m = m"

fun boot_reply :: "u64 set \<Rightarrow> boot_mem \<Rightarrow> ssi_request \<Rightarrow> u8 list" where
  "boot_reply errs m (Boot_write sz a d) = [1, 0]"
| "boot_reply errs m (Boot_read sz a d) =
    (let bs = concat (map byte_bits (slice (boot_off a) (2 ^ sz) (the (m (boot_line a)))))
     in bs @ [of_bool (parity_bit bs \<noteq> (boot_addr a \<in> errs))])"

definition mem_lines :: "atom_body b_tree_node \<Rightarrow> boot_mem" where
  "mem_lines mem k = map_option (\<lambda>body. map the (take 64 (at_data body))) (btree_map mem k)"

subsection \<open>Parity\<close>

lemma parity_fold:
  "set bs \<subseteq> {0, 1} \<Longrightarrow> foldl (XOR) (of_bool p :: u8) bs = of_bool (p \<noteq> odd (count_list bs 1))"
proof (induction bs arbitrary: p)
  case (Cons b bs)
  then have b: "b = of_bool (b = 1)" by auto
  have "(of_bool p :: u8) XOR b = of_bool (p \<noteq> (b = 1))" by (subst b, cases p; cases "b = 1") simp_all
  then show ?case using Cons by auto
qed simp

lemma parity_ok: "set (take n bs) \<subseteq> {0, 1} \<Longrightarrow> parity bs n = parity_bit (take n bs)"
  using parity_fold [of "take n bs" False] by (auto simp: parity_def parity_bit_def)

lemma bits_range: "set (bits n w) \<subseteq> {0, 1}"
  by (auto simp: bits_def)

lemma byte_bits_range: "set (concat (map byte_bits bs)) \<subseteq> {0, 1}"
  using bits_range by (fastforce simp: byte_bits_def)

lemma request_bits_range: "set (request_bits r) \<subseteq> {0, 1}"
  by (cases r) (auto dest!: bits_range [THEN subsetD])

lemma length_request_bits [simp]: "length (request_bits r) = 95"
  by (cases r) simp_all

subsection \<open>Addresses\<close>

definition sys_addr :: "28 word \<Rightarrow> u64" where
  "sys_addr a = recover_addr (ucast a)"

lemma sys_addr_high: "sys_addr a = ucast a OR push_bit 28 (mask 36)"
proof -
  have "scast (push_bit 28 (0xfff :: 32 word)) = (push_bit 28 (mask 36) :: u64)" by (simp add: mask_eq_exp_minus_1)
  moreover have "scast (ucast a :: 32 word) = (ucast a :: u64)"
    by (rule bit_word_eqI) (auto simp: bit_simps min_def dest: bit_imp_le_length)
  ultimately show ?thesis by (simp only: sys_addr_def recover_addr_def)
qed

lemma boot_addr_high: "boot_addr a = ucast a OR push_bit 28 (mask 12)"
  by (simp add: boot_addr_def mask_eq_exp_minus_1 or.commute)

lemma sys_addr_key: "sys_addr a AND 0xffffffffff = boot_addr a"
  unfolding sys_addr_high boot_addr_high masks
  by (rule bit_word_eqI) (auto simp: bit_simps dest: bit_imp_le_length)

lemma sys_addr_line: "mask_addr (sys_addr a) = boot_line a"
  unfolding mask_addr_def boot_line_def sys_addr_high boot_addr_high masks
  by (rule bit_word_eqI) (auto simp: bit_simps dest: bit_imp_le_length)

lemma sys_addr_take: "n \<le> 28 \<Longrightarrow> unat (take_bit n (sys_addr a)) = unat a mod 2 ^ n"
proof -
  assume n: "n \<le> 28"
  have "take_bit n (sys_addr a) = take_bit n (ucast a)"
    unfolding sys_addr_high by (rule bit_word_eqI) (use n in \<open>auto simp: bit_simps\<close>)
  moreover have "unat a < 2 ^ LENGTH(28)" by (rule unsigned_less)
  then have "unat (ucast a :: u64) = unat a" by (simp add: unsigned_ucast_eq take_bit_nat_eq_self)
  ultimately show ?thesis by (simp only: unsigned_take_bit_eq take_bit_eq_mod [of n "unat _"])
qed

lemma sys_addr_off: "unat (sys_addr a AND 0x3f) = boot_off a"
  using sys_addr_take [of 6 a] unfolding masks take_bit_eq_mask [symmetric] by (simp add: boot_off_def)

lemma sys_addr_rest: "unat (sys_addr a AND 0x7) = boot_off a mod 8"
proof -
  have "(0x7 :: u64) = mask 3" by (simp add: mask_eq_exp_minus_1)
  then have "unat (sys_addr a AND 0x7) = unat a mod 8"
    using sys_addr_take [of 3 a] by (simp add: take_bit_eq_mask)
  then show ?thesis by (simp add: boot_off_def mod_mod_cancel)
qed

lemma sys_addr_word: "byte_offset (sys_addr a) = 8 * (boot_off a div 8)"
proof -
  have "unat (sys_addr a) mod 64 = boot_off a"
    using sys_addr_take [of 6 a]
    unfolding unsigned_take_bit_eq boot_off_def by (simp add: take_bit_eq_mod [of 6 "unat _"])
  moreover have "n div 8 mod 8 = n mod 64 div 8" for n :: nat using mod_mult2_eq [of n 8 8] by simp
  ultimately show ?thesis by (simp add: byte_offset_nat)
qed

lemma dvd_mod_fits:
  assumes "p dvd n" and "p dvd q" and "0 < (q :: nat)"
  shows "n mod q + p \<le> q"
proof -
  obtain b where b: "q = p * b" using assms(2) by (elim dvdE)
  obtain a where a: "n mod q = p * a" using assms(1,2) dvd_mod [of p n q] by (elim dvdE) auto
  have "p * a < p * b" using assms(3) a b by (metis mod_less_divisor)
  then have "Suc a \<le> b" by (cases "a < b") auto
  then have "p * Suc a \<le> p * b" by (rule mult_le_mono2)
  then show ?thesis using a b by simp
qed

lemma aligned_fits:
  assumes "sz < 4" and "2 ^ sz dvd unat a"
  shows "boot_off a + 2 ^ sz \<le> 64" and "boot_off a mod 8 + 2 ^ sz \<le> 8"
proof -
  have "(2::nat) ^ sz dvd 2 ^ 6" "(2::nat) ^ sz dvd 2 ^ 3" by (rule le_imp_power_dvd; use assms(1) in simp)+
  then show "boot_off a + 2 ^ sz \<le> 64" "boot_off a mod 8 + 2 ^ sz \<le> 8"
    using dvd_mod_fits [OF assms(2), of 64] dvd_mod_fits [OF assms(2), of 8] by (simp_all add: boot_off_def mod_mod_cancel)
qed

subsection \<open>Writing\<close>

lemma take_overwrite: "p + length ys \<le> n \<Longrightarrow> n \<le> length xs \<Longrightarrow> take n (overwrite p ys xs) = overwrite p ys (take n xs)"
  by (simp add: overwrite_def drop_take)

lemma map_overwrite: "map f (overwrite p ys xs) = overwrite p (map f ys) (map f xs)"
  by (simp add: overwrite_def take_map drop_map)

lemma overwrite_body:
  assumes "body_ok body" and "p + length bs \<le> 64"
  shows "body_ok (body\<lparr>at_data := overwrite p (map Some bs) (at_data body)\<rparr>)"
    and "map the (take 64 (overwrite p (map Some bs) (at_data body))) = overwrite p bs (map the (take 64 (at_data body)))"
proof -
  have t: "take 64 (overwrite p (map Some bs) (at_data body)) = overwrite p (map Some bs) (take 64 (at_data body))"
    by (rule take_overwrite) (use assms in \<open>auto simp: body_ok_def\<close>)
  show "map the (take 64 (overwrite p (map Some bs) (at_data body))) = overwrite p bs (map the (take 64 (at_data body)))"
    unfolding t map_overwrite by (simp add: o_def)
  have "set (overwrite p ys xs) \<subseteq> set xs \<union> set ys" for ys xs :: "u8 option list"
    by (auto simp: overwrite_def dest: in_set_takeD in_set_dropD)
  from this [of "map Some bs" "take 64 (at_data body)"]
  have "None \<notin> set (overwrite p (map Some bs) (take 64 (at_data body)))"
    using assms(1) unfolding body_ok_def by auto
  then show "body_ok (body\<lparr>at_data := overwrite p (map Some bs) (at_data body)\<rparr>)"
    using assms t by (simp add: body_ok_def)
qed

lemma mem_ok_change:
  assumes "mem_ok mem" and "btree_wf mem'" and "btree_map mem' = (btree_map mem)(k \<mapsto> body)" and "body_ok body"
  shows "mem_ok mem'" and "mem_lines mem' = (mem_lines mem)(k \<mapsto> map the (take 64 (at_data body)))"
  using assms by (auto simp: mem_ok_def mem_lines_def fun_eq_iff)

lemma write_sys_ok:
  assumes "mem_ok mem" and "sz < 4" and "2 ^ sz dvd unat a"
  shows "\<exists>mem'. write_sys sz (sys_addr a) d mem = Inr mem' \<and> mem_ok mem' \<and>
    mem_lines mem' = boot_step (Boot_write sz a d) (mem_lines mem)"
proof -
  define bs where "bs = take (2 ^ sz) (word_bytes 8 d)"
  have n: "(2::nat) ^ sz \<le> 8" using power_increasing [of sz 3 "2::nat"] assms(2) by simp
  have len: "length bs = 2 ^ sz" using n by (simp add: bs_def del: word_bytes.simps)
  have fits: "boot_off a + length bs \<le> 64" using aligned_fits [OF assms(2,3)] len by simp
  have wf: "btree_wf mem" using assms(1) by (simp add: mem_ok_def)
  have put: "put_bytes (boot_off a) (2 ^ sz) (unpack d) (at_data body) = Inr (overwrite (boot_off a) (map Some bs) (at_data body))"
    if "body_ok body" for body
    using put_sys_bytes [of "2 ^ sz" "boot_off a" "at_data body" d] n fits len that by (simp add: bs_def body_ok_def del: word_bytes.simps)
  note step = write_sys_def Let_def sys_addr_off sys_addr_line b_Find_map [OF wf]
  show ?thesis
  proof (cases "btree_map mem (boot_line a)")
    case None
    define body :: atom_body where "body = \<lparr>at_size = 64, at_data = replicate 64 (Some 0) @ [Some 0]\<rparr>"
    have ok: "body_ok body" by (simp add: body_ok_def body_def)
    define body' where "body' = body\<lparr>at_data := overwrite (boot_off a) (map Some bs) (at_data body)\<rparr>"
    note b = overwrite_body [OF ok fits]
    obtain mem' where m: "b_insert (boot_line a, body') mem = Inr mem'" "btree_wf mem'"
        "btree_map mem' = (btree_map mem)(boot_line a \<mapsto> body')"
      using btree.ins [OF wf None] by blast
    have "write_sys sz (sys_addr a) d mem = Inr mem'"
      using None put [OF ok] m(1) by (simp add: step body_def body'_def)
    moreover have "map the (take 64 (at_data body)) = replicate 64 0" by (simp add: body_def)
    ultimately show ?thesis
      using mem_ok_change [OF assms(1) m(2,3)] b None
      by (simp add: body'_def bs_def mem_lines_def del: word_bytes.simps)
  next
    case (Some body)
    have ok: "body_ok body" using assms(1) Some by (auto simp: mem_ok_def)
    define body' where "body' = body\<lparr>at_data := overwrite (boot_off a) (map Some bs) (at_data body)\<rparr>"
    note b = overwrite_body [OF ok fits]
    obtain mem' where m: "b_modify (boot_line a) (\<lambda>b. b\<lparr>at_data := at_data body'\<rparr>) mem = Inr mem'" "btree_wf mem'"
        "btree_map mem' = (btree_map mem)(boot_line a \<mapsto> body')"
      using btree.upd [OF wf, of "boot_line a" "\<lambda>b. b\<lparr>at_data := at_data body'\<rparr>"] Some by (auto simp: body'_def)
    have "write_sys sz (sys_addr a) d mem = Inr mem'"
      using Some put [OF ok] m(1) by (simp add: step body'_def)
    then show ?thesis
      using mem_ok_change [OF assms(1) m(2,3)] b Some
      by (simp add: body'_def bs_def mem_lines_def del: word_bytes.simps)
  qed
qed

subsection \<open>Reading\<close>

lemma concat_bits: "take (8 * n) (drop (8 * k) (concat (map byte_bits bs))) = concat (map byte_bits (take n (drop k bs)))"
proof -
  have d: "drop (8 * k) (concat (map byte_bits bs)) = concat (map byte_bits (drop k bs))" for bs
  proof (induction k arbitrary: bs)
    case (Suc k)
    then show ?case by (cases bs) simp_all
  qed simp
  have t: "take (8 * n) (concat (map byte_bits bs)) = concat (map byte_bits (take n bs))" for bs
  proof (induction n arbitrary: bs)
    case (Suc n)
    then show ?case by (cases bs) simp_all
  qed simp
  show ?thesis by (simp only: d t)
qed

lemma cells_ok: "take n serial = map Some bs \<Longrightarrow> n \<le> length serial \<Longrightarrow> cells n serial = Inr bs"
proof (induction n arbitrary: bs)
  case 0
  then show ?case by (simp add: cells_def)
next
  case (Suc n)
  have t: "take (Suc n) serial = take n serial @ [serial ! n]" using Suc.prems(2) by (simp add: take_Suc_conv_app_nth)
  then obtain cs c where bs: "bs = cs @ [c]" using Suc.prems by (cases bs rule: rev_cases) auto
  then have "take n serial = map Some cs" "serial ! n = Some c" using Suc.prems(1) t by simp_all
  then show ?case using Suc.IH [of cs] Suc.prems(2)
    by (simp add: cells_def res_fold_append byte_at_def array_at_def bs)
qed

lemma close_reply_ok:
  assumes "take num (sr_serial t) = map Some bs" and "length (sr_serial t) = 65" and "num \<le> 64" and "set bs \<subseteq> {0, 1}"
    and "num \<ge> 8"
  shows "\<exists>t'. close_reply num hit t = Inr t' \<and> good_reply (bs @ [of_bool (parity_bit bs \<noteq> hit)]) t' \<and> sr_wait t' = sr_wait t"
proof -
  have len: "length bs = num" using arg_cong [OF assms(1), of length] assms(2,3) by simp
  have "cells num (sr_serial t) = Inr bs" by (rule cells_ok [OF assms(1)]) (use assms in simp)
  moreover have "parity bs num = parity_bit bs" using parity_ok [of num bs] assms(4) len by simp
  moreover define serial where "serial = (sr_serial t)[num := Some (of_bool (parity_bit bs \<noteq> hit) :: u8)]"
  moreover have "take (num + 1) serial = map Some (bs @ [of_bool (parity_bit bs \<noteq> hit)])"
    using assms(1,2,3) by (simp add: serial_def take_Suc_conv_app_nth)
  ultimately show ?thesis
    using assms(2,3,5) by (auto simp: close_reply_def array_put_def good_reply_def)
qed

lemma get_data_slice:
  assumes "body_ok body" and "length serial = 65" and "sz < 4" and "2 ^ sz dvd unat a"
  shows "\<exists>serial'. get_data (sys_addr a) (at_data body) serial 63 = Inr serial' \<and> length serial' = 65 \<and>
    take (8 * 2 ^ sz) serial' = map Some (concat (map byte_bits (slice (boot_off a) (2 ^ sz) (map the (take 64 (at_data body))))))"
proof -
  let ?p = "8 * (boot_off a div 8)" and ?k = "boot_off a mod 8" and ?l = "map the (take 64 (at_data body))"
  obtain serial' where s: "get_data (sys_addr a) (at_data body) serial 63 = Inr serial'" "length serial' = 65"
      "take (64 - 8 * ?k) serial' = map Some (drop (8 * ?k) (concat (map byte_bits (map the (slice ?p 8 (at_data body))))))"
    using get_data_ok [of "at_data body" serial "sys_addr a"] assms(1,2)
    unfolding sys_addr_rest sys_addr_word body_ok_def by blast
  have k: "?k + 2 ^ sz \<le> 8" and o: "boot_off a + 2 ^ sz \<le> 64" using aligned_fits [OF assms(3,4)] by auto
  have p: "?p + ?k = boot_off a" by simp
  have "take (8 * 2 ^ sz) serial' = take (8 * 2 ^ sz) (take (64 - 8 * ?k) serial')" using k by (simp add: min_def)
  also have "\<dots> = map Some (take (8 * 2 ^ sz) (drop (8 * ?k) (concat (map byte_bits (map the (slice ?p 8 (at_data body)))))))"
    unfolding s(3) by (rule take_map)
  also have "\<dots> = map Some (concat (map byte_bits (take (2 ^ sz) (drop ?k (map the (slice ?p 8 (at_data body)))))))"
    by (simp only: concat_bits)
  also have "take (2 ^ sz) (drop ?k (map the (slice ?p 8 (at_data body)))) = map the (take (2 ^ sz) (drop ?k (slice ?p 8 (at_data body))))"
    by (simp add: take_map drop_map)
  also have "take (2 ^ sz) (drop ?k (slice ?p 8 (at_data body))) = slice (boot_off a) (2 ^ sz) (at_data body)"
    unfolding slice_def using k p by (simp add: drop_take min_def add.commute)
  also have "map the (slice (boot_off a) (2 ^ sz) (at_data body)) = slice (boot_off a) (2 ^ sz) ?l"
    unfolding slice_def using o by (simp add: take_map drop_map drop_take min_def)
  finally show ?thesis using s(1,2) by blast
qed

subsection \<open>Events\<close>

definition events_ok :: "u64 set \<Rightarrow> int ll_list avl \<Rightarrow> bool" where
  "events_ok errs tree \<longleftrightarrow> utree_wf tree \<and> dom (utree_map tree) = errs \<and>
    (\<forall>k evs. utree_map tree k = Some evs \<longrightarrow> (\<exists>xs. list_wf evs xs))"

lemma add_error_ok:
  assumes "events_ok errs tree"
  shows "\<exists>tree'. add_error key tree = Inr tree' \<and> events_ok (insert key errs) tree'"
proof (cases "utree_map tree key")
  case None
  obtain evs where e: "list_append 1 list_new = Inr evs" "list_wf evs [1 :: int]"
    using ll.push [OF ll.nil, of 1] by auto
  obtain tree' where t: "avl_insert key evs tree = Inr tree'" "utree_wf tree'" "utree_map tree' = (utree_map tree)(key \<mapsto> evs)"
    using utree.ins [of tree key evs] assms None by (auto simp: events_ok_def)
  have "add_error key tree = Inr tree'"
    using assms None e(1) t(1) by (simp add: add_error_def events_ok_def utree.find)
  then show ?thesis using assms e(2) t by (auto simp: events_ok_def)
next
  case (Some evs)
  then obtain xs where xs: "list_wf evs xs" using assms by (auto simp: events_ok_def)
  obtain evs' where e: "list_append 1 evs = Inr evs'" "list_wf evs' (xs @ [1])" using ll.push [OF xs] by blast
  have m: "utree_wf (avl_update key (\<lambda>_. evs') tree)" "utree_map (avl_update key (\<lambda>_. evs') tree) = (utree_map tree)(key \<mapsto> evs')"
    using utree.upd [of tree key "\<lambda>_. evs'"] assms Some by (auto simp: events_ok_def)
  have "add_error key tree = Inr (avl_update key (\<lambda>_. evs') tree)"
    using assms Some e(1) by (simp add: add_error_def events_ok_def utree.find)
  then show ?thesis using assms e(2) m Some by (auto simp: events_ok_def)
qed

lemma hit_addr_ok:
  assumes "events_ok errs (y_phy_event st)"
  shows "\<exists>tree. hit_addr st = Inr (st\<lparr>y_phy_event := tree, y_hit := (y_addr st AND 0xffffffffff \<in> errs)\<rparr>) \<and> events_ok errs tree"
proof -
  define key where "key = y_addr st AND 0xffffffffff"
  have f: "avl_search key (y_phy_event st) = Inr (utree_map (y_phy_event st) key)"
    using assms by (simp add: events_ok_def utree.find)
  show ?thesis
  proof (cases "utree_map (y_phy_event st) key")
    case None
    then have "key \<notin> errs" using assms by (auto simp: events_ok_def)
    then show ?thesis using None f assms
      by (intro exI [of _ "y_phy_event st"]) (simp add: hit_addr_def Let_def key_def [symmetric])
  next
    case (Some evs)
    then obtain xs where xs: "list_wf evs xs" using assms by (auto simp: events_ok_def)
    have "\<exists>x evs' xs'. list_shift evs = Inr (x, evs') \<and> list_wf evs' xs'"
    proof (cases xs)
      case Nil
      then show ?thesis using ll.pop_nil xs by blast
    next
      case (Cons y ys)
      then show ?thesis using ll.pop [OF xs [unfolded Cons]] by blast
    qed
    then obtain x evs' xs' where e: "list_shift evs = Inr (x, evs')" "list_wf evs' xs'" by blast
    let ?tree = "avl_update key (\<lambda>_. evs') (y_phy_event st)"
    have m: "utree_wf ?tree" "utree_map ?tree = (utree_map (y_phy_event st))(key \<mapsto> evs')"
      using utree.upd [of "y_phy_event st" key "\<lambda>_. evs'"] assms Some by (auto simp: events_ok_def)
    have "key \<in> errs" using Some assms by (auto simp: events_ok_def)
    then have "hit_addr st = Inr (st\<lparr>y_phy_event := ?tree, y_hit := (key \<in> errs)\<rparr>)"
      using f Some e(1) by (simp add: hit_addr_def Let_def key_def [symmetric])
    moreover have "events_ok errs ?tree" using assms m e(2) Some by (auto simp: events_ok_def)
    ultimately show ?thesis unfolding key_def by blast
  qed
qed

end
