(* ===== verification/Iop_Sys_Run.thy ===== *)
theory Iop_Sys_Run
  imports Iop_Sys_Refine
begin

text \<open>
  Whole requests: the bits of a frame reach \<^verbatim>\<open>rcv\<close>, \<^verbatim>\<open>xlation\<close> does what the request says, and the
  reply goes out while nothing comes in.
\<close>

subsection \<open>The request in the bits\<close>

lemma fields_bits:
  fixes d :: u64 and a :: "28 word" and c :: u8
  assumes "sz < 4"
  defines "rcv \<equiv> bits 64 d @ bits 28 a @ bits 2 (of_nat sz :: 2 word) @ [c]"
  shows "rcv ! 94 = c" and "unat (merged rcv 93 92) = sz" and "merged rcv 91 64 = ucast a" and "mergedl rcv 63 0 = d"
proof -
  show "rcv ! 94 = c" by (simp add: rcv_def nth_append)
  have "rcv ! (92 + i) = of_bool (bit (of_nat sz :: 2 word) i)" if "i < 2" for i
    using that by (simp add: rcv_def nth_append)
  then have "merge_bits rcv (92 + 2) 92 = (ucast (of_nat sz :: 2 word) :: 32 word)"
    by (intro merge_bits_word) simp_all
  then have "merged rcv 93 92 = ucast (of_nat sz :: 2 word)" by (simp add: merged_bits)
  moreover have "unat (of_nat sz :: 2 word) = sz" using assms(1) by (simp add: unsigned_of_nat take_bit_nat_eq_self)
  ultimately show "unat (merged rcv 93 92) = sz"
    using assms(1) by (simp add: unsigned_ucast_eq take_bit_nat_eq_self)
  have "rcv ! (64 + i) = of_bool (bit a i)" if "i < 28" for i
    using that by (simp add: rcv_def nth_append)
  then have "merge_bits rcv (64 + 28) 64 = (ucast a :: 32 word)" by (intro merge_bits_word) simp_all
  then show "merged rcv 91 64 = ucast a" by (simp add: merged_bits)
  have "rcv ! (0 + i) = of_bool (bit d i)" if "i < 64" for i
    using that by (simp add: rcv_def nth_append)
  then have "merge_bits rcv (0 + 64) 0 = (ucast d :: u64)" by (intro merge_bits_word) simp_all
  then show "mergedl rcv 63 0 = d" by (simp add: merged_bits)
qed

text \<open>What \<^verbatim>\<open>xlation\<close> leaves as it is.\<close>

definition after_request :: "bw_sys \<Rightarrow> u64 \<Rightarrow> int ll_list avl \<Rightarrow> bool \<Rightarrow> sso_record ll_list \<Rightarrow> bw_sys" where
  "after_request st addr tree h q = st\<lparr>y_addr := addr, y_phy_event := tree, y_hit := h, y_sso_Q := q\<rparr>"

lemma append_reply:
  assumes "list_wf (y_sso_Q st) qs"
  shows "\<exists>q. list_append t (y_sso_Q st) = Inr q \<and> list_wf q (qs @ [t])"
  using ll.push [OF assms] .

lemma new_reply_wait: "sr_wait (new_reply r st) \<le> 4"
proof -
  have "r AND 4 \<le> 4" by (rule word_and_le1)
  then show ?thesis by (simp add: new_reply_def word_le_nat_alt)
qed

lemma xlation_ok:
  assumes "y_rcv st = request_bits r" and "boot_ok (mem_lines mem) r" and "mem_ok mem"
    and "events_ok errs (y_phy_event st)" and "list_wf (y_sso_Q st) qs"
  shows "\<exists>addr tree h q t mem'. xlation rand (st, mem) = Inr (after_request st addr tree h q, mem') \<and>
    events_ok errs tree \<and> list_wf q (qs @ [t]) \<and> good_reply (boot_reply errs (mem_lines mem) r) t \<and> sr_wait t \<le> 4 \<and>
    mem_ok mem' \<and> mem_lines mem' = boot_step r (mem_lines mem)"
proof -
  let ?t = "new_reply rand st"
  have wait: "sr_wait ?t \<le> 4" by (rule new_reply_wait)
  show ?thesis
  proof (cases r)
    case (Boot_write sz a d)
    have ok: "sz < 4" "2 ^ sz dvd unat a" using assms(2) Boot_write by simp_all
    note f = fields_bits [OF ok(1), of d a 0]
    obtain mem' where m: "write_sys sz (sys_addr a) d mem = Inr mem'" "mem_ok mem'" "mem_lines mem' = boot_step r (mem_lines mem)"
      using write_sys_ok [OF assms(3) ok] Boot_write by blast
    obtain q where q: "list_append (write_reply ?t) (y_sso_Q st) = Inr q" "list_wf q (qs @ [write_reply ?t])"
      using append_reply [OF assms(5)] by blast
    have x: "xlation rand (st, mem) = Inr (after_request st (sys_addr a) (y_phy_event st) (y_hit st) q, mem')"
      using m(1) q(1)
      by (simp add: xlation_def Let_def assms(1) Boot_write f sys_addr_def [symmetric] after_request_def)
    have g: "good_reply (boot_reply errs (mem_lines mem) r) (write_reply ?t)"
      unfolding Boot_write by (simp add: good_reply_def write_reply_def new_reply_def SSO_NUM_def)
    have "sr_wait (write_reply ?t) \<le> 4" using wait by (simp add: write_reply_def)
    then show ?thesis using x g m(2,3) q(2) assms(4) by blast
  next
    case (Boot_read sz a d)
    then obtain body where ok: "sz < 4" "2 ^ sz dvd unat a" "btree_map mem (boot_line a) = Some body"
      using assms(2) by (auto simp: mem_lines_def)
    note f = fields_bits [OF ok(1), of d a 1]
    have wf: "btree_wf mem" and body: "body_ok body" using assms(3) ok(3) by (auto simp: mem_ok_def)
    define bs where "bs = concat (map byte_bits (slice (boot_off a) (2 ^ sz) (map the (take 64 (at_data body)))))"
    obtain serial where s: "get_data (sys_addr a) (at_data body) (sr_serial ?t) 63 = Inr serial" "length serial = 65"
        "take (8 * 2 ^ sz) serial = map Some bs"
      using get_data_slice [OF body _ ok(1,2), of "sr_serial ?t"] by (auto simp: bs_def new_reply_def SSO_NUM_def)
    define st1 where "st1 = st\<lparr>y_addr := sys_addr a\<rparr>"
    obtain tree where h: "hit_addr st1 = Inr (st1\<lparr>y_phy_event := tree, y_hit := (boot_addr a \<in> errs)\<rparr>)" "events_ok errs tree"
      using hit_addr_ok [of errs st1] assms(4) by (auto simp: st1_def sys_addr_key)
    have "(2::nat) ^ sz \<le> 2 ^ 3" using ok(1) by (intro power_increasing) auto
    then have n: "8 * (2::nat) ^ sz \<le> 64" by simp
    obtain t where t: "close_reply (8 * 2 ^ sz) (boot_addr a \<in> errs) (?t\<lparr>sr_serial := serial\<rparr>) = Inr t"
        "good_reply (bs @ [of_bool (parity_bit bs \<noteq> (boot_addr a \<in> errs))]) t" "sr_wait t = sr_wait ?t"
      using close_reply_ok [of "8 * 2 ^ sz" "?t\<lparr>sr_serial := serial\<rparr>" bs "boot_addr a \<in> errs"] s n byte_bits_range
      by (auto simp: bs_def)
    obtain q where q: "list_append t (y_sso_Q st) = Inr q" "list_wf q (qs @ [t])"
      using append_reply [OF assms(5)] by blast
    have x: "xlation rand (st, mem) = Inr (after_request st (sys_addr a) tree (boot_addr a \<in> errs) q, mem)"
      using s(1) t(1) q(1) h(1) ok(3)
      by (simp add: xlation_def Let_def assms(1) Boot_read f sys_addr_def [symmetric] sys_addr_line b_Find_map [OF wf]
          after_request_def st1_def)
    have "boot_reply errs (mem_lines mem) r = bs @ [of_bool (parity_bit bs \<noteq> (boot_addr a \<in> errs))]"
      using ok(3) by (simp add: Boot_read bs_def mem_lines_def Let_def)
    then have g: "good_reply (boot_reply errs (mem_lines mem) r) t" using t(2) by simp
    have "sr_wait t \<le> 4" "mem_lines mem = boot_step r (mem_lines mem)" using t(3) wait Boot_read by simp_all
    then show ?thesis using x g h(2) q(2) assms(3) by blast
  qed
qed

subsection \<open>Frames\<close>

definition sys_ready :: "u64 set \<Rightarrow> sys_state \<Rightarrow> bool" where
  "sys_ready errs s \<longleftrightarrow> (case s of (st, mem) \<Rightarrow>
    silent st \<and> \<not> y_start_bit st \<and> length (y_rcv st) = 95 \<and> events_ok errs (y_phy_event st) \<and> mem_ok mem)"

lemma tick_silent:
  assumes "ssi rand c (st, mem) = Inr (st', mem')" and "silent st'"
  shows "ssi_drive_call (rand, c) (outs, (st, mem)) = Inr (outs @ [0], (st', mem'))"
  using assms by (simp add: ssi_drive_call_def silent_sso)

lemma shift_bits:
  assumes "silent st" and "y_start_bit st" and "y_ssi_idx st = length ins" and "length ins \<le> length (y_rcv st)"
  shows "res_fold ssi_drive_call ins (outs, (st, mem)) = Inr (outs @ replicate (length ins) 0,
    (st\<lparr>y_ssi_idx := 0, y_rcv := rev (map snd ins) @ drop (length ins) (y_rcv st)\<rparr>, mem))"
  using assms
proof (induction ins arbitrary: st outs)
  case (Cons x ins)
  obtain rand c where x: "x = (rand, c)" by (cases x)
  define st1 where "st1 = st\<lparr>y_ssi_idx := length ins, y_rcv := (y_rcv st)[length ins := c]\<rparr>"
  have "ssi rand c (st, mem) = Inr (st1, mem)"
    using Cons.prems by (simp add: ssi_def array_put_def st1_def)
  moreover have s1: "silent st1" using Cons.prems(1) by (simp add: st1_def silent_def)
  ultimately have "ssi_drive_call x (outs, (st, mem)) = Inr (outs @ [0], (st1, mem))" unfolding x by (rule tick_silent)
  moreover have "res_fold ssi_drive_call ins (outs @ [0], (st1, mem)) = Inr ((outs @ [0]) @ replicate (length ins) 0,
      (st1\<lparr>y_ssi_idx := 0, y_rcv := rev (map snd ins) @ drop (length ins) (y_rcv st1)\<rparr>, mem))"
    by (rule Cons.IH [OF s1]) (use Cons.prems in \<open>simp_all add: st1_def\<close>)
  moreover have "drop (length ins) (y_rcv st1) = c # drop (Suc (length ins)) (y_rcv st)"
    using Cons.prems(4) by (simp add: st1_def Cons_nth_drop_Suc [symmetric] drop_update_swap)
  ultimately show ?case by (simp add: x st1_def)
next
  case Nil
  then show ?case by (cases st) simp
qed

lemma frame_in:
  assumes "silent st" and "\<not> y_start_bit st" and "length (y_rcv st) = 95" and "map snd ins = 1 # bs" and "length bs = 95"
  shows "res_fold ssi_drive_call ins (outs, (st, mem)) = Inr (outs @ replicate 96 0,
    (st\<lparr>y_start_bit := True, y_ssi_idx := 0, y_rcv := rev bs\<rparr>, mem))"
proof -
  obtain rand c ins' where ins: "ins = (rand, c) # ins'" "c = 1" "map snd ins' = bs" using assms(4) by (cases ins) auto
  have len: "length ins' = 95" using ins(3) assms(5) by auto
  define st1 where "st1 = st\<lparr>y_ssi_idx := SSI_NUM, y_start_bit := True\<rparr>"
  have "ssi_drive_call (rand, c) (outs, (st, mem)) = Inr (outs @ [0], (st1, mem))"
    by (rule tick_silent) (use assms(1,2) ins(2) in \<open>simp_all add: ssi_def st1_def silent_def\<close>)
  moreover have "res_fold ssi_drive_call ins' (outs @ [0], (st1, mem)) = Inr ((outs @ [0]) @ replicate (length ins') 0,
      (st1\<lparr>y_ssi_idx := 0, y_rcv := rev (map snd ins') @ drop (length ins') (y_rcv st1)\<rparr>, mem))"
    by (rule shift_bits) (use assms len in \<open>simp_all add: st1_def silent_def SSI_NUM_def\<close>)
  moreover have "[0] @ replicate 95 0 = replicate 96 (0::u8)" by (simp flip: replicate_Suc)
  ultimately show ?thesis using assms(3) len by (simp add: ins(1,3) st1_def)
qed

lemma quiet_ticks:
  assumes "\<not> y_start_bit st" and "\<forall>x\<in>set ins. snd x = 0"
  shows "res_fold ssi_drive_call ins (outs, (st, mem)) =
    res_bind (sso_ticks (length ins) (outs, st)) (\<lambda>(outs, st). Inr (outs, (st, mem)))"
  using assms
proof (induction ins arbitrary: st outs)
  case (Cons x ins)
  have "ssi (fst x) (snd x) (st, mem) = Inr (st, mem)" using Cons.prems by (simp add: ssi_def)
  then have d: "ssi_drive_call x (outs, (st, mem)) = res_bind (sso st) (\<lambda>(out, st). Inr (outs @ [out], (st, mem)))"
    by (simp add: ssi_drive_call_def)
  show ?case
  proof (cases "sso st")
    case (Inl e)
    then show ?thesis using d by simp
  next
    case (Inr p)
    obtain b st1 where p: "p = (b, st1)" by (cases p)
    have "\<not> y_start_bit st1" using sso_same [OF Inr [unfolded p]] Cons.prems(1) by (simp add: same_input_def)
    then show ?thesis using d Inr p Cons.IH [of st1 "outs @ [b]"] Cons.prems(2) by simp
  qed
qed simp

lemma parity_tick:
  assumes "y_start_bit st" and "y_ssi_idx st = 0" and "xlation rand (st1, mem) = Inr (st', mem')"
    and "st1 = (if of_bool (parity (y_rcv st) 95) \<noteq> c \<and> \<not> y_dont_kill st then st\<lparr>y_finish := True\<rparr> else st)"
  shows "ssi_drive_call (rand, c) (outs, (st, mem)) =
    res_bind (sso_ticks 1 (outs, st'\<lparr>y_start_bit := False\<rparr>)) (\<lambda>(outs, st). Inr (outs, (st, mem')))"
  using assms by (auto simp: ssi_drive_call_def ssi_def Let_def res_bind_assoc case_prod_unfold)

subsection \<open>Transactions\<close>

text \<open>The output during a request and the cycles after it.\<close>

definition answered :: "nat \<Rightarrow> u8 list \<Rightarrow> u8 list \<Rightarrow> bool" where
  "answered n reply outs \<longleftrightarrow> (\<exists>w\<le>3. outs = replicate (96 + w) 0 @ 1 # reply @ replicate (n - (97 + w + length reply)) 0)"

definition transaction :: "ssi_request \<Rightarrow> nat \<Rightarrow> u8 list" where
  "transaction r k = frame r @ replicate k 0"

lemma boot_reply_length: "boot_ok m r \<Longrightarrow> length (boot_reply errs m r) \<le> 65"
proof (cases r)
  case (Boot_read sz a d)
  assume "boot_ok m r"
  then have "(2::nat) ^ sz \<le> 2 ^ 3" using Boot_read by (intro power_increasing) auto
  then have "length (slice (boot_off a) (2 ^ sz) (the (m (boot_line a)))) \<le> 8" by (simp add: slice_def)
  then show ?thesis by (simp add: Boot_read Let_def length_concat o_def sum_list_triv)
qed simp

lemma transaction_ok:
  assumes "sys_ready errs (st, mem)" and "boot_ok (mem_lines mem) r" and "map snd ins = transaction r k" and "70 \<le> k"
  shows "\<exists>outs' st' mem'. res_fold ssi_drive_call ins (outs, (st, mem)) = Inr (outs @ outs', (st', mem')) \<and>
    answered (97 + k) (boot_reply errs (mem_lines mem) r) outs' \<and> sys_ready errs (st', mem') \<and>
    mem_lines mem' = boot_step r (mem_lines mem) \<and> y_finish st' = y_finish st"
proof -
  have s: "silent st" "\<not> y_start_bit st" "length (y_rcv st) = 95" "events_ok errs (y_phy_event st)" "mem_ok mem"
    using assms(1) by (auto simp: sys_ready_def)
  define ins1 where "ins1 = take 96 ins"
  define ins2 where "ins2 = drop 97 ins"
  have len: "length ins = 97 + k" using arg_cong [OF assms(3), of length] by (simp add: transaction_def frame_def)
  have i: "ins = ins1 @ ins ! 96 # ins2" using len id_take_nth_drop [of 96 ins] by (simp add: ins1_def ins2_def)
  have i1: "map snd ins1 = 1 # rev (request_bits r)"
    using assms(3) by (simp add: ins1_def take_map [symmetric] transaction_def frame_def)
  have "map snd ins ! 96 = of_bool (parity_bit (request_bits r))"
    using assms(3) by (simp add: transaction_def frame_def nth_append)
  then obtain rand where mid: "ins ! 96 = (rand, of_bool (parity_bit (request_bits r)))"
    using len by (cases "ins ! 96") simp
  have m2: "map snd ins2 = replicate k 0"
    using assms(3) by (simp add: ins2_def drop_map [symmetric] transaction_def frame_def)
  have "length ins2 = k" using arg_cong [OF m2, of length] by simp
  moreover have "snd ` set ins2 \<subseteq> {0}" using arg_cong [OF m2, of set] by (auto split: if_splits)
  ultimately have i2: "\<forall>x\<in>set ins2. snd x = 0" "length ins2 = k" by auto
  define st1 where "st1 = st\<lparr>y_start_bit := True, y_ssi_idx := 0, y_rcv := request_bits r\<rparr>"
  have run1: "res_fold ssi_drive_call ins1 (outs, (st, mem)) = Inr (outs @ replicate 96 0, (st1, mem))"
    using frame_in [OF s(1-3) i1, of outs mem] by (simp add: st1_def)
  obtain addr tree h q t mem' where x: "xlation rand (st1, mem) = Inr (after_request st1 addr tree h q, mem')"
      "events_ok errs tree" "list_wf q [t]" "good_reply (boot_reply errs (mem_lines mem) r) t" "sr_wait t \<le> 4"
      "mem_ok mem'" "mem_lines mem' = boot_step r (mem_lines mem)"
    using xlation_ok [of st1 r mem errs "[]" rand] s assms(2) by (auto simp: st1_def silent_def)
  define st2 where "st2 = (after_request st1 addr tree h q)\<lparr>y_start_bit := False\<rparr>"
  have par: "parity (request_bits r) 95 = parity_bit (request_bits r)"
    using parity_ok [of 95 "request_bits r"] request_bits_range by simp
  have run2: "ssi_drive_call (ins ! 96) (outs @ replicate 96 0, (st1, mem)) =
      res_bind (sso_ticks 1 (outs @ replicate 96 0, st2)) (\<lambda>(outs, st). Inr (outs, (st, mem')))"
    unfolding mid st2_def by (rule parity_tick [OF _ _ x(1)]) (simp_all add: st1_def par)
  let ?reply = "boot_reply errs (mem_lines mem) r"
  have st2: "list_wf (y_sso_Q st2) (map fst [(t, ?reply)])" "\<not> y_sso_ready st2" "\<forall>p\<in>set [(t, ?reply)]. good_reply (snd p) (fst p)"
    using s(1) x(3,4) by (simp_all add: st2_def after_request_def st1_def silent_def)
  obtain st3 where st3: "sso_ticks (reply_time (t, ?reply)) (outs @ replicate 96 0, st2) =
      Inr ((outs @ replicate 96 0) @ reply_row (t, ?reply), st3)" "silent st3"
    using drain [OF st2, of "outs @ replicate 96 0"] by auto
  define n where "n = Suc k - reply_time (t, ?reply)"
  have n: "Suc k = reply_time (t, ?reply) + n"
    using boot_reply_length [OF assms(2), of errs] x(5) assms(4) by (simp add: n_def reply_time_def)
  have all: "sso_ticks (Suc k) (outs @ replicate 96 0, st2) =
      Inr (outs @ replicate 96 0 @ reply_row (t, ?reply) @ replicate n 0, st3)"
    unfolding n sso_ticks_add using st3 silent_ticks [OF st3(2)] by simp
  have "res_fold ssi_drive_call ins (outs, (st, mem)) =
      res_bind (sso_ticks 1 (outs @ replicate 96 0, st2)) (\<lambda>(outs, st). res_fold ssi_drive_call ins2 (outs, (st, mem')))"
    by (subst i) (simp add: res_fold_append run1 run2 res_bind_assoc case_prod_unfold)
  also have "\<dots> = res_bind (sso_ticks 1 (outs @ replicate 96 0, st2)) (\<lambda>(outs, st).
      res_bind (sso_ticks k (outs, st)) (\<lambda>(outs, st). Inr (outs, (st, mem'))))"
  proof (rule res_bind_cong [OF refl], clarify)
    fix o1 st' assume "sso_ticks 1 (outs @ replicate 96 0, st2) = Inr (o1, st')"
    then have "\<not> y_start_bit st'" using sso_ticks_same by (fastforce simp: same_input_def st2_def)
    then show "res_fold ssi_drive_call ins2 (o1, (st', mem')) = res_bind (sso_ticks k (o1, st')) (\<lambda>(outs, st). Inr (outs, (st, mem')))"
      using quiet_ticks [of st' ins2 o1 mem'] i2 by simp
  qed
  also have "\<dots> = res_bind (sso_ticks (1 + k) (outs @ replicate 96 0, st2)) (\<lambda>(outs, st). Inr (outs, (st, mem')))"
    unfolding sso_ticks_add by (simp add: res_bind_assoc case_prod_unfold)
  finally have run: "res_fold ssi_drive_call ins (outs, (st, mem)) =
      Inr (outs @ replicate 96 0 @ reply_row (t, ?reply) @ replicate n 0, (st3, mem'))" using all by simp
  have "answered (97 + k) ?reply (replicate 96 0 @ reply_row (t, ?reply) @ replicate n 0)"
    unfolding answered_def
    by (rule exI [of _ "sr_wait t - 1"]) (use x(5) n in \<open>auto simp: reply_row_def reply_time_def replicate_add\<close>)
  moreover have "sys_ready errs (st3, mem')" "y_finish st3 = y_finish st"
    using sso_ticks_same [OF all] x(2,6) st3(2) s(3)
    by (auto simp: sys_ready_def same_input_def st2_def after_request_def st1_def)
  ultimately show ?thesis using run x(7) by blast
qed

end
