(* ===== verification/Iop_Sys_Types.thy ===== *)
theory Iop_Sys_Types
  imports Iop_Sys
begin

text \<open>
  Whatever bits come in: the shift register, the replies in the queue and the output of the boot ROM
  hold bits, and the index of the register stays in range.
\<close>

abbreviation bit_cells :: "u8 option list \<Rightarrow> bool" where
  "bit_cells xs \<equiv> set xs \<subseteq> {None, Some 0, Some 1}"

definition reply_typed :: "sso_record \<Rightarrow> bool" where
  "reply_typed t \<longleftrightarrow> bit_cells (sr_serial t) \<and> length (sr_serial t) = SSO_NUM"

definition sys_typed :: "sys_state \<Rightarrow> bool" where
  "sys_typed s \<longleftrightarrow> (case s of (st, mem) \<Rightarrow>
    length (y_rcv st) = SSI_NUM \<and> set (y_rcv st) \<subseteq> {0, 1} \<and> y_ssi_idx st \<le> SSI_NUM \<and>
    (\<exists>qs. list_wf (y_sso_Q st) qs \<and> (\<forall>t\<in>set qs. reply_typed t)) \<and> (\<forall>t. y_sso_r st = Some t \<longrightarrow> reply_typed t))"

lemma array_put_typed: "array_put i x xs = Inr ys \<Longrightarrow> set xs \<subseteq> A \<Longrightarrow> x \<in> A \<Longrightarrow> set ys \<subseteq> A \<and> length ys = length xs"
  by (auto simp: array_put_def dest: set_update_subset_insert [THEN subsetD] split: if_splits)

lemma and_1_bit: "(x :: u8) AND 1 \<in> {0, 1}"
proof -
  have "x AND 1 = of_bool (odd x)" by (rule and_one_eq [unfolded mod_2_eq_odd])
  then show ?thesis by simp
qed

abbreviation row_typed :: "u8 option list \<Rightarrow> bool" where
  "row_typed xs \<equiv> bit_cells xs \<and> length xs = SSO_NUM"

lemma put_byte_typed:
  assumes "put_byte ch s = Inr s'" and "row_typed (fst s)"
  shows "row_typed (fst s')"
proof -
  obtain s1 where s1: "res_fold (\<lambda>i (serial, ch, n).
      if n = 0 then Inl Undefined
      else res_bind (array_put (n - 1) (Some (ch AND 1)) serial) (\<lambda>serial. Inr (serial, drop_bit 1 ch, n - 1)))
      [0..<8] (fst s, ch, snd s) = Inr s1" "fst s' = fst s1"
    using assms(1) by (auto simp: put_byte_def gf_res)
  have "row_typed (fst s1)"
  proof (rule res_fold_invariant [OF s1(1)])
    fix x :: nat and t t' :: "u8 option list \<times> u8 \<times> nat"
    obtain serial c n where t: "t = (serial, c, n)" by (cases t)
    assume "row_typed (fst t)" and "(case t of (serial, ch, n) \<Rightarrow>
      if n = 0 then Inl Undefined
      else res_bind (array_put (n - 1) (Some (ch AND 1)) serial) (\<lambda>serial. Inr (serial, drop_bit 1 ch, n - 1))) = Inr t'"
    then show "row_typed (fst t')"
      using and_1_bit [of c] array_put_typed [of "n - 1" "Some (c AND 1)" serial _ "{None, Some 0, Some 1}"]
      by (auto simp: t gf_res)
  qed (use assms(2) in simp)
  then show ?thesis using s1(2) by simp
qed

lemma align_serial_typed:
  assumes "align_serial ind sv serial = Inr serial'" and "row_typed serial"
  shows "row_typed serial'"
proof (cases "ind = 0")
  case True
  then show ?thesis using assms by (simp add: align_serial_def)
next
  case False
  then have "res_fold (\<lambda>i serial. res_bind (array_at i serial) (\<lambda>b. array_put (i - ind) b serial)) [ind..<Suc sv] serial = Inr serial'"
    using assms(1) by (simp add: align_serial_def)
  then show ?thesis
  proof (rule res_fold_invariant)
    fix x t t'
    assume "row_typed t" and "res_bind (array_at x t) (\<lambda>b. array_put (x - ind) b t) = Inr t'"
    then show "row_typed t'"
      using array_at_set array_put_typed [of "x - ind" _ t t' "{None, Some 0, Some 1}"] by (fastforce simp: gf_res)
  qed (rule assms(2))
qed

lemma get_data_typed:
  assumes "get_data addr data serial ridx = Inr serial'" and "row_typed serial"
  shows "row_typed serial'"
proof -
  obtain s where s: "res_fold (\<lambda>idx s. res_bind (byte_at (byte_offset addr + idx) data) (\<lambda>ch. put_byte ch s))
      (rev [0..<8]) (serial, ridx + 1) = Inr s" "align_serial (unat (addr AND 0x7) * 8) ridx (fst s) = Inr serial'"
    using assms(1) by (auto simp: get_data_def gf_res)
  have "row_typed (fst s)"
  proof (rule res_fold_invariant [OF s(1)])
    fix x t t'
    assume t: "row_typed (fst t)" and "res_bind (byte_at (byte_offset addr + x) data) (\<lambda>ch. put_byte ch t) = Inr t'"
    then obtain ch where "put_byte ch t = Inr t'" by (auto simp: gf_res)
    then show "row_typed (fst t')" using t by (rule put_byte_typed)
  qed (use assms(2) in simp)
  then show ?thesis using align_serial_typed [OF s(2)] by simp
qed

lemma close_reply_typed:
  assumes "close_reply num hit t = Inr t'" and "reply_typed t"
  shows "reply_typed t'"
proof -
  obtain c :: bool and serial where c: "array_put num (Some (of_bool c)) (sr_serial t) = Inr serial" "sr_serial t' = serial"
    using assms(1) by (auto simp: close_reply_def gf_res)
  have "Some (of_bool c :: u8) \<in> {None, Some 0, Some 1}" by simp
  then show ?thesis using array_put_typed [OF c(1)] assms(2) c(2) unfolding reply_typed_def by metis
qed

lemma new_reply_typed: "reply_typed (new_reply rand st)"
  by (auto simp: reply_typed_def new_reply_def)

lemma write_reply_typed: "reply_typed (write_reply (new_reply rand st))"
  by (auto simp: reply_typed_def new_reply_def write_reply_def SSO_NUM_def)

lemma hit_addr_same: "hit_addr st = Inr st' \<Longrightarrow> \<exists>tree h. st' = st\<lparr>y_phy_event := tree, y_hit := h\<rparr>"
  by (cases st, auto simp: hit_addr_def Let_def gf_res split: option.splits)
    (rule exI [of _ True], rule TrueI)

lemma xlation_typed:
  assumes "xlation rand s = Inr s'" and "sys_typed s"
  shows "sys_typed s' \<and> y_ssi_idx (fst s') = y_ssi_idx (fst s)"
proof -
  obtain st mem where s: "s = (st, mem)" by (cases s)
  obtain qs where q: "list_wf (y_sso_Q st) qs" "\<forall>t\<in>set qs. reply_typed t" using assms(2) by (auto simp: s sys_typed_def)
  let ?addr = "recover_addr (merged (y_rcv st) 91 64)"
  obtain t st1 mem1 q1 where x: "list_append t (y_sso_Q st1) = Inr q1" "s' = (st1\<lparr>y_sso_Q := q1\<rparr>, mem1)" "reply_typed t"
      "\<exists>tree h. st1 = st\<lparr>y_addr := ?addr, y_phy_event := tree, y_hit := h\<rparr>"
  proof (cases "y_rcv st ! 94 = 1")
    case True
    then obtain data serial st1 t q1 where x: "get_data ?addr data (sr_serial (new_reply rand st)) 63 = Inr serial"
        "hit_addr (st\<lparr>y_addr := ?addr\<rparr>) = Inr st1"
        "close_reply (8 * 2 ^ unat (merged (y_rcv st) 93 92)) (y_hit st1) ((new_reply rand st)\<lparr>sr_serial := serial\<rparr>) = Inr t"
        "list_append t (y_sso_Q st1) = Inr q1" "s' = (st1\<lparr>y_sso_Q := q1\<rparr>, mem)"
      using assms(1) by (auto simp: s xlation_def Let_def gf_res split: option.splits)
    have "row_typed serial" using get_data_typed [OF x(1)] new_reply_typed by (simp add: reply_typed_def)
    then have "reply_typed t" using close_reply_typed [OF x(3)] by (simp add: reply_typed_def)
    moreover have "\<exists>tree h. st1 = st\<lparr>y_addr := ?addr, y_phy_event := tree, y_hit := h\<rparr>"
      using hit_addr_same [OF x(2)] by auto
    ultimately show thesis using that x(4,5) by blast
  next
    case False
    have e: "\<exists>tree h. st\<lparr>y_addr := ?addr\<rparr> = st\<lparr>y_addr := ?addr, y_phy_event := tree, y_hit := h\<rparr>"
      by (rule exI [of _ "y_phy_event st"], rule exI [of _ "y_hit st"]) simp
    show thesis
    proof (cases "y_rcv st ! 94 = 0")
      case True
      then obtain mem1 q1 where "list_append (write_reply (new_reply rand st)) (y_sso_Q st) = Inr q1"
          "s' = (st\<lparr>y_addr := ?addr, y_sso_Q := q1\<rparr>, mem1)"
        using assms(1) by (auto simp: s xlation_def Let_def gf_res)
      then show thesis using that [of "write_reply (new_reply rand st)" "st\<lparr>y_addr := ?addr\<rparr>" q1 mem1] write_reply_typed e by auto
    next
      case False
      then obtain q1 where "list_append (new_reply rand st) (y_sso_Q st) = Inr q1" "s' = (st\<lparr>y_addr := ?addr, y_sso_Q := q1\<rparr>, mem)"
        using assms(1) \<open>y_rcv st ! 94 \<noteq> 1\<close> by (auto simp: s xlation_def Let_def gf_res)
      then show thesis using that [of "new_reply rand st" "st\<lparr>y_addr := ?addr\<rparr>" q1 mem] new_reply_typed e by auto
    qed
  qed
  obtain tree h where st1: "st1 = st\<lparr>y_addr := ?addr, y_phy_event := tree, y_hit := h\<rparr>" using x(4) by blast
  obtain q2 where "list_append t (y_sso_Q st1) = Inr q2" "list_wf q2 (qs @ [t])"
    using ll.push [OF q(1), of t] st1 by auto
  then have "list_wf q1 (qs @ [t])" using x(1) by simp
  moreover have "\<forall>t\<in>set (qs @ [t]). reply_typed t" using q(2) x(3) by simp
  ultimately show ?thesis using assms(2) x(2) by (auto simp: s sys_typed_def st1 simp del: set_append)
qed

lemma ssi_typed:
  assumes "ssi rand ch s = Inr s'" and "sys_typed s" and "ch \<in> {0, 1}"
  shows "sys_typed s'"
proof -
  obtain st mem where s: "s = (st, mem)" by (cases s)
  consider (start) "ch \<noteq> 0" "\<not> y_start_bit st" | (none) "ch = 0" "\<not> y_start_bit st"
    | (last) "y_start_bit st" "y_ssi_idx st = 0" | (shift) "y_start_bit st" "y_ssi_idx st \<noteq> 0" by blast
  then show ?thesis
  proof cases
    case last
    define st1 where "st1 = (if of_bool (parity (y_rcv st) 95) \<noteq> ch \<and> \<not> y_dont_kill st then st\<lparr>y_finish := True\<rparr> else st)"
    obtain st2 mem2 where x: "xlation rand (st1, mem) = Inr (st2, mem2)" "s' = (st2\<lparr>y_start_bit := False\<rparr>, mem2)"
      using assms(1) last by (auto simp: s ssi_def Let_def gf_res st1_def)
    have "sys_typed (st1, mem)" using assms(2) by (simp add: s sys_typed_def st1_def)
    from xlation_typed [OF x(1) this] show ?thesis by (simp add: x(2) sys_typed_def)
  next
    case shift
    then obtain rcv where r: "array_put (y_ssi_idx st - 1) ch (y_rcv st) = Inr rcv"
        "s' = (st\<lparr>y_ssi_idx := y_ssi_idx st - 1, y_rcv := rcv\<rparr>, mem)"
      using assms(1) by (auto simp: s ssi_def gf_res)
    then show ?thesis
      using array_put_typed [OF r(1), of "{0, 1}"] assms(2,3) by (auto simp: s sys_typed_def)
  qed (use assms(1,2) in \<open>auto simp: s ssi_def sys_typed_def\<close>)
qed

lemma sso_typed:
  assumes "sso st = Inr (b, st')" and "sys_typed (st, mem)"
  shows "b \<in> {0, 1} \<and> sys_typed (st', mem)"
proof -
  obtain qs where q: "list_wf (y_sso_Q st) qs" "\<forall>t\<in>set qs. reply_typed t" using assms(2) by (auto simp: sys_typed_def)
  show ?thesis
  proof (cases "y_sso_ready st")
    case True
    then obtain t r where t: "y_sso_r st = Some t" "send_bit t = Inr (b, r)" "st' = st\<lparr>y_sso_ready := r \<noteq> None, y_sso_r := r\<rparr>"
      using assms(1) by (auto simp: sso_def gf_res split: option.splits)
    have "reply_typed t" using assms(2) t(1) by (auto simp: sys_typed_def)
    then have "b \<in> {0, 1} \<and> (\<forall>t'. r = Some t' \<longrightarrow> reply_typed t')"
      using t(2) array_at_set by (fastforce simp: send_bit_def gf_res byte_at_def reply_typed_def split: option.splits if_splits)
    then show ?thesis using assms(2) by (auto simp: t(3) sys_typed_def)
  next
    case False
    show ?thesis
    proof (cases qs)
      case Nil
      then have "list_empty (y_sso_Q st)" using list_wf_empty [OF q(1)] by simp
      then show ?thesis using assms False by (auto simp: sso_def)
    next
      case (Cons t ts)
      let ?t = "t\<lparr>sr_wait := sr_wait t - 1\<rparr>"
      have ne: "\<not> list_empty (y_sso_Q st)" using q(1) Cons list_wf_empty by blast
      obtain q1 where q1: "modify_front (\<lambda>t. t\<lparr>sr_wait := sr_wait t - 1\<rparr>) (y_sso_Q st) = Inr q1" "list_wf q1 (?t # ts)"
        using ll.change [OF q(1) [unfolded Cons]] by blast
      obtain q2 where q2: "list_shift q1 = Inr (Some ?t, q2)" "list_wf q2 ts" using ll.pop [OF q1(2)] by blast
      have ty: "reply_typed ?t" "\<forall>t\<in>set ts. reply_typed t" using q(2) Cons by (auto simp: reply_typed_def)
      have front: "list_front q1 = Inr (Some ?t)" by (rule ll.peek [OF q1(2)])
      show ?thesis
      proof (cases "sr_wait ?t = 0")
        case True
        then obtain t' where t': "start_reply ?t = Inr t'" "b = 1" "st' = st\<lparr>y_sso_Q := q2, y_sso_r := Some t', y_sso_ready := True\<rparr>"
          using assms(1) False ne q1(1) front q2(1) by (auto simp: sso_def gf_res)
        moreover have "reply_typed t'" using t'(1) ty(1) by (auto simp: start_reply_def reply_typed_def split: option.splits)
        ultimately show ?thesis using assms(2) q2(2) ty(2) by (auto simp: sys_typed_def)
      next
        case wait: False
        then have "b = 0" "st' = st\<lparr>y_sso_Q := q1\<rparr>" using assms(1) False ne q1(1) front by (auto simp: sso_def gf_res)
        moreover have "\<forall>t\<in>set (?t # ts). reply_typed t" using ty by simp
        ultimately show ?thesis using assms(2) q1(2) by (auto simp: sys_typed_def simp del: list.set)
      qed
    qed
  qed
qed

lemma drive_typed:
  assumes "ssi_drive_call x (outs, s) = Inr (outs', s')" and "sys_typed s" and "snd x \<in> {0, 1}"
  shows "sys_typed s' \<and> (\<exists>b\<in>{0, 1}. outs' = outs @ [b])"
proof -
  obtain st mem st' b where d: "ssi (fst x) (snd x) s = Inr (st, mem)" "sso st = Inr (b, st')" "outs' = outs @ [b]" "s' = (st', mem)"
    using assms(1) by (auto simp: ssi_drive_call_def gf_res)
  show ?thesis using sso_typed [OF d(2) ssi_typed [OF d(1) assms(2,3)]] d(3,4) by auto
qed

end
