(* ===== verification/Prop_Sys.thy ===== *)
theory Prop_Sys
  imports Iop_Sys_Run Iop_Sys_Types
begin

text \<open>
  The properties of the boot ROM behind the serial interface (\<^verbatim>\<open>tools/pli/iop/bw_sys.cc\<close>) and of the
  list that holds its replies (\<^verbatim>\<open>list.cc\<close>).
\<close>

subsection \<open>Sequences of requests\<close>

fun boot_replies :: "u64 set \<Rightarrow> boot_mem \<Rightarrow> ssi_request list \<Rightarrow> u8 list list" where
  "boot_replies errs m [] = []"
| "boot_replies errs m (r # rs) = boot_reply errs m r # boot_replies errs (boot_step r m) rs"

fun boots_ok :: "boot_mem \<Rightarrow> ssi_request list \<Rightarrow> bool" where
  "boots_ok m [] \<longleftrightarrow> True"
| "boots_ok m (r # rs) \<longleftrightarrow> boot_ok m r \<and> boots_ok (boot_step r m) rs"

lemma transactions_ok:
  assumes "sys_ready errs s" and "boots_ok (mem_lines (snd s)) rs" and "70 \<le> k"
    and "map snd ins = concat (map (\<lambda>r. transaction r k) rs)"
  shows "\<exists>outss s'. res_fold ssi_drive_call ins (outs, s) = Inr (outs @ concat outss, s') \<and>
    list_all2 (answered (97 + k)) (boot_replies errs (mem_lines (snd s)) rs) outss \<and>
    sys_ready errs s' \<and> mem_lines (snd s') = fold boot_step rs (mem_lines (snd s)) \<and> y_finish (fst s') = y_finish (fst s)"
  using assms
proof (induction rs arbitrary: s ins outs)
  case Nil
  then show ?case by (auto intro!: exI [of _ "[]"])
next
  case (Cons r rs)
  obtain st mem where s: "s = (st, mem)" by (cases s)
  define n where "n = length (transaction r k)"
  have i1: "map snd (take n ins) = transaction r k" and i2: "map snd (drop n ins) = concat (map (\<lambda>r. transaction r k) rs)"
    using Cons.prems(4) by (simp_all add: n_def take_map [symmetric] drop_map [symmetric])
  have ok: "boot_ok (mem_lines mem) r" using Cons.prems(2) by (simp add: s)
  obtain outs1 st1 mem1 where t: "res_fold ssi_drive_call (take n ins) (outs, (st, mem)) = Inr (outs @ outs1, (st1, mem1))"
      "answered (97 + k) (boot_reply errs (mem_lines mem) r) outs1" "sys_ready errs (st1, mem1)"
      "mem_lines mem1 = boot_step r (mem_lines mem)" "y_finish st1 = y_finish st"
    using transaction_ok [OF Cons.prems(1) [unfolded s] ok i1 Cons.prems(3), of outs] by blast
  obtain outss s' where r: "res_fold ssi_drive_call (drop n ins) (outs @ outs1, (st1, mem1)) = Inr ((outs @ outs1) @ concat outss, s')"
      "list_all2 (answered (97 + k)) (boot_replies errs (mem_lines mem1) rs) outss" "sys_ready errs s'"
      "mem_lines (snd s') = fold boot_step rs (mem_lines mem1)" "y_finish (fst s') = y_finish st1"
    using Cons.IH [of "(st1, mem1)" "drop n ins" "outs @ outs1"] t(3,4) Cons.prems(2,3) i2 by (auto simp: s)
  have "res_fold ssi_drive_call (take n ins @ drop n ins) (outs, s) = Inr (outs @ concat (outs1 # outss), s')"
    unfolding res_fold_append using t(1) r(1) by (simp add: s)
  then show ?case using t(2,4,5) r(2-5) by (intro exI [of _ "outs1 # outss"] exI [of _ s']) (simp add: s)
qed

text \<open>
  C26: Requests that come in as frames of bits (start bit, 95 bits, parity bit), each with at least 70
  quiet cycles behind it, are served in order, whatever \<^verbatim>\<open>rand\<close> returns: reads answer what was written
  last to the line, writes are acknowledged, the parity bit of a reply is wrong exactly at the
  addresses with an injected error, and 96 to 99 cycles after the start bit of a request the start
  bit of its reply goes out. Then the boot ROM is ready again, with the memory that the writes leave.
\<close>

theorem boot_rom_serves:
  assumes "sys_ready errs s" and "boots_ok (mem_lines (snd s)) rs" and "70 \<le> k"
    and "map snd ins = concat (map (\<lambda>r. transaction r k) rs)"
  shows "\<exists>outss s'. res_fold ssi_drive_call ins ([], s) = Inr (concat outss, s') \<and>
    list_all2 (answered (97 + k)) (boot_replies errs (mem_lines (snd s)) rs) outss \<and>
    sys_ready errs s' \<and> mem_lines (snd s') = fold boot_step rs (mem_lines (snd s))"
  using transactions_ok [OF assms, of "[]"] by auto

definition demo_boots :: "ssi_request list" where
  "demo_boots = [Boot_write 3 0x40 0x123456789abcdef0, Boot_read 1 0x42 0]"

lemma no_events: "events_ok {} Null"
  by (simp add: events_ok_def utree.wf_nil utree.view_nil)

lemma started: "sys_ready {} (manual_init sys_init, b_create)"
  using ll.nil no_events
  by (simp add: sys_ready_def silent_def manual_init_def sys_init_def SSI_NUM_def mem_ok_def b_create_wf b_create_map)

lemma mem_lines_create: "mem_lines b_create = (\<lambda>_. None)"
  by (simp add: mem_lines_def b_create_map fun_eq_iff)

theorem boot_rom_serves_witness:
  "\<exists>outss s'. res_fold ssi_drive_call (map (\<lambda>b. (0, b)) (concat (map (\<lambda>r. transaction r 70) demo_boots)))
      ([], (manual_init sys_init, b_create)) = Inr (concat outss, s') \<and>
    list_all2 (answered 167) [[1, 0], [0, 1, 0, 1, 0, 1, 1, 0, 0, 1, 1, 1, 1, 0, 0, 0, 1]] outss"
proof -
  have "boots_ok (\<lambda>_. None) demo_boots" by code_simp
  then have ok: "boots_ok (mem_lines (snd (manual_init sys_init, b_create))) demo_boots" by (simp only: snd_conv mem_lines_create)
  have "boot_replies {} (\<lambda>_. None) demo_boots = [[1, 0], [0, 1, 0, 1, 0, 1, 1, 0, 0, 1, 1, 1, 1, 0, 0, 0, 1]]"
    by code_simp
  then have rep: "boot_replies {} (mem_lines (snd (manual_init sys_init, b_create))) demo_boots =
      [[1, 0], [0, 1, 0, 1, 0, 1, 1, 0, 0, 1, 1, 1, 1, 0, 0, 0, 1]]"
    by (simp only: snd_conv mem_lines_create)
  have "map snd (map (\<lambda>b. (0 :: 32 word, b)) bs) = bs" for bs :: "u8 list" by (simp add: o_def)
  from boot_rom_serves [OF started ok _ this, of 70] show ?thesis unfolding rep by auto
qed

subsection \<open>A write and a read\<close>

lemma doubleword_bits: "concat (map byte_bits (word_bytes 8 d)) = rev (bits 64 d)"
proof -
  have "concat (map byte_bits (word_bytes n d)) = rev (bits (8 * n) d)" for n and d :: u64
  proof (induction n d rule: word_bytes.induct)
    case (2 n v)
    have "bits (8 * Suc n) v = bits 8 (ucast v :: u8) @ bits (8 * n) (drop_bit 8 v)"
      by (rule nth_equalityI) (auto simp: nth_append bit_simps)
    then show ?case using 2 by (simp add: byte_bits_def)
  qed (simp add: bits_def)
  from this [of 8 d] show ?thesis by simp
qed

text \<open>
  C27: What is written to the boot ROM can be read back: the reply to a read of the same size at the
  same address as the write before it sends the highest bits of the data that was written, the
  highest bit first, and a parity bit.
\<close>

theorem boot_rom_write_read:
  assumes "sys_ready errs s" and "sz < 4" and "2 ^ sz dvd unat a" and "boot_addr a \<notin> errs" and "70 \<le> k"
    and "map snd ins = transaction (Boot_write sz a d) k @ transaction (Boot_read sz a e) k"
  defines "bs \<equiv> take (8 * 2 ^ sz) (rev (bits 64 d))"
  shows "\<exists>outs1 outs2 s'. res_fold ssi_drive_call ins ([], s) = Inr (outs1 @ outs2, s') \<and>
    answered (97 + k) [1, 0] outs1 \<and> answered (97 + k) (bs @ [of_bool (parity_bit bs)]) outs2"
proof -
  obtain st mem where s: "s = (st, mem)" by (cases s)
  let ?m = "mem_lines mem" and ?n = "2 ^ sz :: nat"
  let ?l = "case ?m (boot_line a) of None \<Rightarrow> replicate 64 0 | Some l \<Rightarrow> l"
  have "length ?l = 64"
    using assms(1) by (auto simp: s sys_ready_def mem_lines_def mem_ok_def body_ok_def split: option.splits)
  moreover have "?n \<le> 2 ^ 3" by (rule power_increasing) (use assms(2) in auto)
  moreover have "boot_off a + ?n \<le> 64" by (rule aligned_fits [OF assms(2,3)])
  ultimately have "slice (boot_off a) ?n (overwrite (boot_off a) (take ?n (word_bytes 8 d)) ?l) = take ?n (word_bytes 8 d)"
    by (simp add: slice_def overwrite_def del: word_bytes.simps)
  moreover have "concat (map byte_bits (take ?n (word_bytes 8 d))) = bs"
    using concat_bits [of ?n 0 "word_bytes 8 d"] by (simp add: bs_def doubleword_bits del: word_bytes.simps)
  ultimately have reply: "boot_reply errs (boot_step (Boot_write sz a d) ?m) (Boot_read sz a e) = bs @ [of_bool (parity_bit bs)]"
    using assms(4) by (simp add: Let_def del: word_bytes.simps)
  have "boots_ok ?m [Boot_write sz a d, Boot_read sz a e]" using assms(2,3) by simp
  then obtain outss s' where r: "res_fold ssi_drive_call ins ([], s) = Inr (concat outss, s')"
      "list_all2 (answered (97 + k)) (boot_replies errs ?m [Boot_write sz a d, Boot_read sz a e]) outss"
    using transactions_ok [of errs s "[Boot_write sz a d, Boot_read sz a e]" k ins "[]"] assms(1,5,6) by (auto simp: s)
  then obtain outs1 outs2 where "outss = [outs1, outs2]" "answered (97 + k) [1, 0] outs1"
      "answered (97 + k) (bs @ [of_bool (parity_bit bs)]) outs2"
    using reply by (auto simp: list_all2_Cons1 simp del: boot_step.simps boot_reply.simps(2))
  moreover from this r(1) have "res_fold ssi_drive_call ins ([], s) = Inr (outs1 @ outs2, s')" by simp
  ultimately show ?thesis by blast
qed

theorem boot_rom_write_read_witness:
  "\<exists>outs1 outs2 s'. res_fold ssi_drive_call
      (map (\<lambda>b. (0, b)) (transaction (Boot_write 0 7 0xA500000000000000) 70 @ transaction (Boot_read 0 7 0) 70))
      ([], (manual_init sys_init, b_create)) = Inr (outs1 @ outs2, s') \<and>
    answered 167 [1, 0] outs1 \<and> answered 167 [1, 0, 1, 0, 0, 1, 0, 1, 1] outs2"
proof -
  have bs: "take (8 * 2 ^ 0) (rev (bits 64 (0xA500000000000000 :: u64))) = [1, 0, 1, 0, 0, 1, 0, 1]" by code_simp
  have "parity_bit [1, 0, 1, 0, 0, 1, 0, 1]" by code_simp
  then show ?thesis
    using boot_rom_write_read [OF started, of 0 7 70
        "map (\<lambda>b. (0, b)) (transaction (Boot_write 0 7 0xA500000000000000) 70 @ transaction (Boot_read 0 7 0) 70)"
        "0xA500000000000000" 0] unfolding bs by (simp add: o_def)
qed

subsection \<open>Replies\<close>

text \<open>
  C28: Every reply in the queue goes out: for any replies with data, whatever they have still to wait,
  \<^verbatim>\<open>sso\<close> sends in as many cycles as they wait and have bits all of them in order, each behind its
  start bit, and then nothing more.
\<close>

theorem replies_drain:
  assumes "list_wf (y_sso_Q st) (map fst ps)" and "\<not> y_sso_ready st" and "\<forall>p\<in>set ps. good_reply (snd p) (fst p)"
  shows "\<exists>st'. sso_ticks (sum_list (map reply_time ps) + n) ([], st) = Inr (concat (map reply_row ps) @ replicate n 0, st') \<and> silent st'"
proof -
  obtain st' where "sso_ticks (sum_list (map reply_time ps)) ([], st) = Inr (concat (map reply_row ps), st')" "silent st'"
    using drain [OF assms, of "[]"] by auto
  then show ?thesis using silent_ticks [of st' n] by (auto simp: sso_ticks_add)
qed

definition demo_reply :: "nat \<Rightarrow> sso_record" where
  "demo_reply w = \<lparr>sr_serial = map Some [1, 0, 1, 1], sr_num = Some 4, sr_idx = None, sr_wait = w\<rparr>"

theorem replies_drain_witness:
  "\<exists>q st'. list_wf q [demo_reply 2, demo_reply 0] \<and>
    sso_ticks 12 ([], sys_init\<lparr>y_sso_Q := q\<rparr>) = Inr ([0, 1, 1, 0, 1, 1, 1, 1, 0, 1, 1, 0], st')"
proof -
  obtain q where q: "list_wf q [demo_reply 2, demo_reply 0]"
    using ll.pushes [OF ll.nil, of "[demo_reply 2, demo_reply 0]"] by auto
  let ?ps = "[(demo_reply 2, [1, 0, 1, 1]), (demo_reply 0, [1, 0, 1, 1])]"
  have good: "\<forall>p\<in>set ?ps. good_reply (snd p) (fst p)" by (simp add: demo_reply_def good_reply_def)
  have "list_wf (y_sso_Q (sys_init\<lparr>y_sso_Q := q\<rparr>)) (map fst ?ps)" "\<not> y_sso_ready (sys_init\<lparr>y_sso_Q := q\<rparr>)"
    using q by (simp_all add: sys_init_def)
  from replies_drain [OF this good, of 1] show ?thesis
    using q by (auto simp: reply_time_def reply_row_def demo_reply_def eval_nat_numeral)
qed

subsection \<open>Errors to inject\<close>

definition error_line :: "u64 \<Rightarrow> string" where
  "error_line a = ''ssi_error(64'' @ [CHR 0x27] @ ''h'' @ hex16 a @ '')''"

lemma hex_char_facts:
  "list_all (\<lambda>d. hex_digit d \<notin> {CHR ''('', CHR '')'', CHR ''-'', CHR ''>'', CHR 0x22, CHR '',''})
    [0, 1, 2, 3, 4, 5, 6, 7, 8, 9, 10, 11, 12, 13, 14, 15]"
  by code_simp

lemma hex_digits_kept: "c \<in> set (hex_digits w n) \<Longrightarrow> c \<notin> {CHR ''('', CHR '')'', CHR ''-'', CHR ''>'', CHR 0x22, CHR '',''}"
proof (induction w arbitrary: n)
  case (Suc w)
  have "hex_digit (n mod 16) \<notin> {CHR ''('', CHR '')'', CHR ''-'', CHR ''>'', CHR 0x22, CHR '',''}"
    by (rule bspec [OF hex_char_facts [unfolded list_all_iff] below16]) simp
  then show ?case using Suc by auto
qed simp

lemma replace_hex16: "replace_chars (hex16 a) = hex16 a"
  unfolding replace_chars_def by (rule map_idI) (use hex_digits_kept in \<open>auto simp: hex16_def\<close>)

lemma key_value_hex16: "key_value (hex16 a) = a"
  unfolding key_value_def by (rule foldl_hex16) (simp add: hex_value_digit scast_digit)

lemma error_line_key:
  "event_line (error_line a @ [LF]) tree = add_error a tree"
proof -
  have h: "c \<noteq> LF" "c \<noteq> NUL" "c \<noteq> SPACE" if "c \<in> set (hex16 a)" for c using hex16_plain [OF that] by auto
  define tok where "tok = ''64'' @ [CHR 0x27] @ ''h'' @ hex16 a"
  define buf where "buf = ''ssi_error '' @ tok @ [SPACE, LF]"
  have "takeWhile (\<lambda>c. c \<noteq> NUL) (error_line a @ [LF]) = error_line a @ [LF]"
    by (rule takeWhile_eq_all_conv [THEN iffD2]) (use h(2) in \<open>auto simp: error_line_def\<close>)
  then have b: "replace_chars (takeWhile (\<lambda>c. c \<noteq> NUL) (error_line a @ [LF])) = buf"
    using replace_hex16 [of a] by (simp add: error_line_def buf_def tok_def replace_chars_def)
  have d: "drop 10 buf = tok @ [SPACE, LF]" by (simp add: buf_def)
  have "rmSpace buf 10 = Some 10"
    unfolding rmSpace_def remove_leading_space_def d by (simp add: tok_def char_at_def buf_def line_end_def)
  moreover have "takeWhile (\<lambda>c. c \<noteq> NUL \<and> c \<noteq> LF \<and> c \<noteq> SPACE) (tok @ [SPACE, LF]) = tok"
  proof -
    have "takeWhile (\<lambda>c. c \<noteq> NUL \<and> c \<noteq> LF \<and> c \<noteq> SPACE) (tok @ [SPACE, LF]) =
        tok @ takeWhile (\<lambda>c. c \<noteq> NUL \<and> c \<noteq> LF \<and> c \<noteq> SPACE) [SPACE, LF]"
      by (rule takeWhile_append2) (use h in \<open>auto simp: tok_def\<close>)
    then show ?thesis by simp
  qed
  then have "fst (copy_token buf 10) = tok" by (simp add: copy_token_def d Let_def)
  moreover have "rmhexa tok = hex16 a" by (simp add: rmhexa_def tok_def)
  moreover have "has_prefix ''ssi_error '' buf 0" by (simp add: has_prefix_def buf_def)
  ultimately show ?thesis by (simp add: event_line_def b Let_def key_value_hex16)
qed

lemma error_lines_fold:
  "events_ok errs tree \<Longrightarrow>
    \<exists>tree'. res_fold event_line (map (\<lambda>a. error_line a @ [LF]) as) tree = Inr tree' \<and> events_ok (errs \<union> set as) tree'"
proof (induction as arbitrary: errs tree)
  case (Cons a as)
  obtain t where "add_error a tree = Inr t" "events_ok (insert a errs) t" using add_error_ok [OF Cons.prems] by blast
  then show ?case using Cons.IH [of "insert a errs" t] by (simp add: error_line_key)
qed simp

text \<open>
  C29: With an event file that lists addresses in lines \<^verbatim>\<open>ssi_error(64'h...)\<close>, and whatever options, the
  boot ROM starts ready to serve, and these are exactly the addresses with an injected error. Together
  with the service property: the parity bit of every read there is wrong, not only of as many as the
  address has lines.
\<close>

theorem boot_rom_starts:
  assumes "mem_ok mem"
  shows "\<exists>st. sys_option off_random_sys ignore_ssi_parity (concat (map (\<lambda>a. error_line a @ [LF]) as)) (manual_init sys_init) = Inr st \<and>
    sys_ready (set as) (st, mem)"
proof -
  have l: "LF \<notin> set (error_line a) \<and> length (error_line a) < BUFFER - 1" for a
    using hex16_plain [of LF a] hex16_length [of a] by (auto simp: error_line_def BUFFER_def)
  have f: "fgets_all (BUFFER - Suc 0) (concat (map (\<lambda>a. error_line a @ [LF]) as)) = map (\<lambda>a. error_line a @ [LF]) as"
    using fgets_all_lines [of "map error_line as" "BUFFER - 1"] l by (simp add: o_def)
  obtain tree where t: "res_fold event_line (map (\<lambda>a. error_line a @ [LF]) as) Null = Inr tree" "events_ok (set as) tree"
    using error_lines_fold [OF no_events, of as] by auto
  let ?st = "(manual_init sys_init)\<lparr>y_off_random := off_random_sys, y_phy_event := tree\<rparr>"
  have n: "y_phy_event (manual_init sys_init) = Null" by (simp add: manual_init_def sys_init_def)
  have "sys_option off_random_sys ignore_ssi_parity (concat (map (\<lambda>a. error_line a @ [LF]) as)) (manual_init sys_init) =
      Inr (if ignore_ssi_parity then ?st\<lparr>y_dont_kill := True\<rparr> else ?st)"
    using t(1) n by (simp add: sys_option_def read_evfile_def f)
  moreover have "sys_ready (set as) (if ignore_ssi_parity then ?st\<lparr>y_dont_kill := True\<rparr> else ?st, mem)"
    using assms t(2) ll.nil by (simp add: sys_ready_def silent_def manual_init_def sys_init_def SSI_NUM_def)
  ultimately show ?thesis by blast
qed

theorem boot_rom_starts_witness:
  "\<exists>st. sys_option True False (error_line 0xfff0000040 @ [LF]) (manual_init sys_init) = Inr st \<and>
    sys_ready {0xfff0000040} (st, b_create)"
proof -
  have "mem_ok (b_create :: atom_body b_tree_node)" by (simp add: mem_ok_def b_create_wf b_create_map)
  then show ?thesis using boot_rom_starts [of b_create True False "[0xfff0000040]"] by simp
qed

subsection \<open>Types\<close>



subsection \<open>The list\<close>

text \<open>
  Removing an element that is not the first breaks the list: \<^verbatim>\<open>remove\<close> does not change the next
  pointer of the element before it, and so a walk from the head follows a pointer to a deleted node.
\<close>

theorem list_remove_dangles:
  assumes "list_wf l xs" and "Suc k < length xs"
  shows "\<exists>l1 l2 l3. list_advance (Suc k) (set_next l) = Inr l1 \<and> list_remove l1 = Inr l2 \<and>
    list_advance (Suc k) (set_next l2) = Inr l3 \<and> list_current l3 = Inl Undefined"
  by (rule remove_dangles [OF assms])

theorem list_remove_dangles_witness:
  "\<exists>l l1 l2 l3. list_wf l [1, 2, 3 :: nat] \<and> list_advance 1 (set_next l) = Inr l1 \<and> list_remove l1 = Inr l2 \<and>
    list_advance 1 (set_next l2) = Inr l3 \<and> list_current l3 = Inl Undefined"
proof -
  obtain l where "list_wf l [1, 2, 3 :: nat]" using ll.pushes [OF ll.nil, of "[1, 2, 3 :: nat]"] by auto
  then show ?thesis using list_remove_dangles [of l "[1, 2, 3]" 0] by auto
qed

end
