(* ===== verification/Sjm_Ring.thy ===== *)
theory Sjm_Ring
  imports Cpp_Heap
begin

text \<open>
  Circular doubly linked lists and the array with a cursor that is built on them
  (\<^verbatim>\<open>common/c/CircularDoubleLinkedList.cc\<close> and \<^verbatim>\<open>CircularArray.cc\<close> under \<^verbatim>\<open>verif/env/iss/pli\<close>), class
  templates of the bus model. A pointer that was not assigned is \<open>None\<close>, as a null pointer; only
  \<^verbatim>\<open>Prepend\<close> leaves one behind. A data pointer of the list stands for the structure it leads to.
\<close>

record 'a cdll_node =
  cn_data :: 'a
  cn_prev :: "nat option"
  cn_next :: "nat option"

record 'a cdll =
  cd_heap :: "'a cdll_node option list"
  cd_head :: "nat option"
  cd_tail :: "nat option"
  cd_loc :: "nat option"
  cd_size :: int

definition cdll_new :: "'a cdll" where
  "cdll_new = \<lparr>cd_heap = [], cd_head = None, cd_tail = None, cd_loc = None, cd_size = 0\<rparr>"

subsection \<open>The circular list\<close>

definition cdll_empty :: "'a cdll \<Rightarrow> bool" where
  "cdll_empty l \<longleftrightarrow> cd_head l = None"

definition cdll_append :: "'a \<Rightarrow> 'a cdll \<Rightarrow> 'a cdll res" where
  "cdll_append d l =
    (let p = length (cd_heap l)
     in if cdll_empty l then
          Inr (l\<lparr>cd_heap := cd_heap l @ [Some \<lparr>cn_data = d, cn_prev = Some p, cn_next = Some p\<rparr>],
                 cd_head := Some p, cd_tail := Some p, cd_loc := Some p, cd_size := cd_size l + 1\<rparr>)
        else
          let h = cd_heap l @ [Some \<lparr>cn_data = d, cn_prev = cd_tail l, cn_next = cd_head l\<rparr>]
          in res_bind (update_at (cd_head l) (\<lambda>n. n\<lparr>cn_prev := Some p\<rparr>) h) (\<lambda>h.
             res_bind (update_at (cd_tail l) (\<lambda>n. n\<lparr>cn_next := Some p\<rparr>) h) (\<lambda>h.
             Inr (l\<lparr>cd_heap := h, cd_tail := Some p, cd_size := cd_size l + 1\<rparr>))))"

definition cdll_prepend :: "'a \<Rightarrow> 'a cdll \<Rightarrow> 'a cdll res" where
  "cdll_prepend d l =
    res_bind
      (if cdll_empty l then cdll_append d l
       else let p = length (cd_heap l); h = cd_heap l @ [Some \<lparr>cn_data = d, cn_prev = None, cn_next = cd_head l\<rparr>]
            in res_bind (update_at (cd_tail l) (\<lambda>n. n\<lparr>cn_next := Some p\<rparr>) h) (\<lambda>h.
               Inr (l\<lparr>cd_heap := h, cd_head := Some p\<rparr>)))
      (\<lambda>l. Inr (l\<lparr>cd_size := cd_size l + 1\<rparr>))"

definition cdll_modify :: "'a \<Rightarrow> 'a cdll \<Rightarrow> (bool \<times> 'a cdll) res" where
  "cdll_modify d l =
    (if cd_loc l = None then Inr (False, l)
     else res_bind (update_at (cd_loc l) (\<lambda>n. n\<lparr>cn_data := d\<rparr>) (cd_heap l)) (\<lambda>h. Inr (True, l\<lparr>cd_heap := h\<rparr>)))"

definition cdll_remove :: "'a cdll \<Rightarrow> ('a option \<times> 'a cdll) res" where
  "cdll_remove l =
    (if cdll_empty l then Inr (None, l)
     else
       let p = cd_loc l; h = cd_heap l
       in res_bind (deref h p) (\<lambda>n.
          res_bind
            (if p = cd_head l then
               if cn_next n = None then Inr (l\<lparr>cd_head := None, cd_tail := None, cd_loc := None\<rparr>)
               else
                 let head = cn_next n
                 in res_bind (update_at head (\<lambda>m. m\<lparr>cn_prev := cd_tail l\<rparr>) h) (\<lambda>h.
                    res_bind (update_at (cd_tail l) (\<lambda>m. m\<lparr>cn_next := head\<rparr>) h) (\<lambda>h.
                    Inr (l\<lparr>cd_heap := h, cd_head := head, cd_loc := head\<rparr>)))
             else if p = cd_tail l then
               let tail = cn_prev n
               in res_bind (update_at tail (\<lambda>m. m\<lparr>cn_next := cd_head l\<rparr>) h) (\<lambda>h.
                  res_bind (update_at (cd_head l) (\<lambda>m. m\<lparr>cn_prev := tail\<rparr>) h) (\<lambda>h.
                  Inr (l\<lparr>cd_heap := h, cd_tail := tail, cd_loc := tail\<rparr>)))
             else
               let loc = cn_next n
               in res_bind (update_at loc (\<lambda>m. m\<lparr>cn_prev := cn_prev n\<rparr>) h) (\<lambda>h.
                  res_bind (update_at (cn_prev n) (\<lambda>m. m\<lparr>cn_next := loc\<rparr>) h) (\<lambda>h.
                  Inr (l\<lparr>cd_heap := h, cd_loc := loc\<rparr>))))
            (\<lambda>l. Inr (Some (cn_data n), l\<lparr>cd_heap := delete_at p (cd_heap l), cd_size := cd_size l - 1\<rparr>))))"

definition cdll_current :: "'a cdll \<Rightarrow> 'a option res" where
  "cdll_current l = (if cdll_empty l then Inr None else res_bind (deref (cd_heap l) (cd_loc l)) (\<lambda>n. Inr (Some (cn_data n))))"

definition cdll_next :: "'a cdll \<Rightarrow> ('a option \<times> 'a cdll) res" where
  "cdll_next l =
    (if cdll_empty l then Inr (None, l)
     else res_bind (deref (cd_heap l) (cd_loc l)) (\<lambda>n.
       let l = l\<lparr>cd_loc := cn_next n\<rparr>
       in res_bind (deref (cd_heap l) (cd_loc l)) (\<lambda>n. Inr (Some (cn_data n), l))))"

definition cdll_previous :: "'a cdll \<Rightarrow> ('a option \<times> 'a cdll) res" where
  "cdll_previous l =
    (if cdll_empty l then Inr (None, l)
     else res_bind (deref (cd_heap l) (cd_loc l)) (\<lambda>n.
       let l = l\<lparr>cd_loc := cn_prev n\<rparr>
       in res_bind (deref (cd_heap l) (cd_loc l)) (\<lambda>n. Inr (Some (cn_data n), l))))"

definition cdll_at_head :: "'a cdll \<Rightarrow> bool" where
  "cdll_at_head l \<longleftrightarrow> cd_loc l = cd_head l"

definition go_to_head :: "'a cdll \<Rightarrow> 'a cdll" where
  "go_to_head l = l\<lparr>cd_loc := cd_head l\<rparr>"

subsection \<open>The array with a cursor\<close>

record 'a ca_node =
  ca_index :: int
  ca_data :: 'a

record 'a circular_array =
  ca_list :: "'a ca_node cdll"
  ca_size :: int

text \<open>The first value of a cell is \<^verbatim>\<open>NULL\<close>, as a value \<open>z\<close> of the type of the elements.\<close>

definition ca_new :: "'a \<Rightarrow> nat \<Rightarrow> 'a circular_array res" where
  "ca_new z s =
    res_bind (res_fold (\<lambda>i. cdll_append \<lparr>ca_index = int i, ca_data = z\<rparr>) [0..<s] cdll_new) (\<lambda>l.
    Inr \<lparr>ca_list = l, ca_size = int s\<rparr>)"

definition checkIndex :: "int \<Rightarrow> 'a circular_array \<Rightarrow> unit res" where
  "checkIndex i a = (if i < 0 \<or> ca_size a \<le> i then Inl (Halt 1) else Inr ())"

definition the_node :: "'a option \<Rightarrow> 'a res" where
  "the_node p = (case p of None \<Rightarrow> Inl Undefined | Some n \<Rightarrow> Inr n)"

text \<open>
  The loop of \<^verbatim>\<open>find\<close>, with one turn more of fuel than there are nodes: who has seen all nodes of
  a ring without finding the index goes round forever.
\<close>

fun ca_seek :: "nat \<Rightarrow> int \<Rightarrow> 'a ca_node cdll \<Rightarrow> 'a ca_node cdll res" where
  "ca_seek 0 i l = Inl Diverges"
| "ca_seek (Suc fuel) i l =
    res_bind (res_bind (cdll_current l) the_node) (\<lambda>node.
    if ca_index node = i then Inr l else res_bind (cdll_next l) (\<lambda>(_, l). ca_seek fuel i l))"

definition ca_find :: "int \<Rightarrow> 'a circular_array \<Rightarrow> 'a circular_array res" where
  "ca_find i a =
    res_bind (checkIndex i a) (\<lambda>_.
    res_bind (ca_seek (nat (ca_size a) + 1) i (ca_list a)) (\<lambda>l. Inr (a\<lparr>ca_list := l\<rparr>)))"

definition ca_get :: "'a circular_array \<Rightarrow> 'a res" where
  "ca_get a = res_bind (res_bind (cdll_current (ca_list a)) the_node) (\<lambda>node. Inr (ca_data node))"

definition ca_get_index :: "'a circular_array \<Rightarrow> int res" where
  "ca_get_index a = res_bind (res_bind (cdll_current (ca_list a)) the_node) (\<lambda>node. Inr (ca_index node))"

definition ca_put :: "'a \<Rightarrow> 'a circular_array \<Rightarrow> 'a circular_array res" where
  "ca_put d a =
    (if cdll_empty (ca_list a) then Inl Undefined
     else res_bind (update_at (cd_loc (ca_list a)) (\<lambda>n. n\<lparr>cn_data := (cn_data n)\<lparr>ca_data := d\<rparr>\<rparr>) (cd_heap (ca_list a))) (\<lambda>h.
       Inr (a\<lparr>ca_list := (ca_list a)\<lparr>cd_heap := h\<rparr>\<rparr>)))"

definition ca_put_at :: "int \<Rightarrow> 'a \<Rightarrow> 'a circular_array \<Rightarrow> 'a circular_array res" where
  "ca_put_at i d a = res_bind (ca_find i a) (ca_put d)"

definition ca_get_at :: "int \<Rightarrow> 'a circular_array \<Rightarrow> ('a \<times> 'a circular_array) res" where
  "ca_get_at i a = res_bind (ca_find i a) (\<lambda>a. res_bind (ca_get a) (\<lambda>d. Inr (d, a)))"

definition ca_clear :: "'a \<Rightarrow> int \<Rightarrow> 'a circular_array \<Rightarrow> 'a circular_array res" where
  "ca_clear z i a = ca_put_at i z a"

definition ca_next :: "'a circular_array \<Rightarrow> ('a \<times> 'a circular_array) res" where
  "ca_next a =
    res_bind (cdll_next (ca_list a)) (\<lambda>(p, l). res_bind (the_node p) (\<lambda>node. Inr (ca_data node, a\<lparr>ca_list := l\<rparr>)))"

definition ca_previous :: "'a circular_array \<Rightarrow> ('a \<times> 'a circular_array) res" where
  "ca_previous a =
    res_bind (cdll_previous (ca_list a)) (\<lambda>(p, l). res_bind (the_node p) (\<lambda>node. Inr (ca_data node, a\<lparr>ca_list := l\<rparr>)))"

end
