(* ===== verification/Sjm_Ring_Array.thy ===== *)
theory Sjm_Ring_Array
  imports Sjm_Ring
begin

text \<open>
  The circular list that \<^verbatim>\<open>Append\<close> builds, and the array with a cursor as a list with a position: its
  contract is the locale \<open>cursor_array\<close>.
\<close>

definition ring_heap :: "'a list \<Rightarrow> 'a cdll_node option list" where
  "ring_heap ds = map (\<lambda>i. Some \<lparr>cn_data = ds ! i, cn_prev = Some ((i + length ds - 1) mod length ds),
    cn_next = Some (Suc i mod length ds)\<rparr>) [0..<length ds]"

definition ring_wf :: "'a cdll \<Rightarrow> 'a list \<Rightarrow> nat \<Rightarrow> bool" where
  "ring_wf l ds k \<longleftrightarrow> k < length ds \<and> cd_heap l = ring_heap ds \<and> cd_head l = Some 0 \<and>
    cd_tail l = Some (length ds - 1) \<and> cd_loc l = Some k \<and> cd_size l = int (length ds)"

lemma ring_heap_length [simp]: "length (ring_heap ds) = length ds"
  by (simp add: ring_heap_def)

lemma ring_deref [simp]:
  "i < length ds \<Longrightarrow> deref (ring_heap ds) (Some i) = Inr \<lparr>cn_data = ds ! i,
    cn_prev = Some ((i + length ds - 1) mod length ds), cn_next = Some (Suc i mod length ds)\<rparr>"
  by (simp add: deref_def ring_heap_def)

lemma append_first: "\<exists>l. cdll_append d cdll_new = Inr l \<and> ring_wf l [d] 0"
  by (simp add: cdll_append_def cdll_empty_def cdll_new_def ring_wf_def ring_heap_def)

lemma append_ring:
  assumes "ring_wf l ds k"
  shows "\<exists>l'. cdll_append d l = Inr l' \<and> ring_wf l' (ds @ [d]) k"
proof -
  let ?n = "length ds"
  let ?new = "\<lparr>cn_data = d, cn_prev = Some (?n - 1), cn_next = Some 0\<rparr>"
  have n: "0 < ?n" using assms by (auto simp: ring_wf_def)
  define h where "h = (ring_heap ds @ [Some ?new])[0 := Some \<lparr>cn_data = ds ! 0, cn_prev = Some ?n, cn_next = Some (Suc 0 mod ?n)\<rparr>]"
  have u1: "update_at (Some 0) (\<lambda>n. n\<lparr>cn_prev := Some ?n\<rparr>) (ring_heap ds @ [Some ?new]) = Inr h"
    using n by (simp add: update_at_def h_def deref_def nth_append ring_heap_def)
  have last: "deref h (Some (?n - 1)) = Inr \<lparr>cn_data = ds ! (?n - 1),
      cn_prev = Some (if ?n = 1 then ?n else ?n - 2), cn_next = Some 0\<rparr>"
  proof (cases "?n = 1")
    case True
    then show ?thesis by (simp add: h_def deref_def nth_append ring_heap_def)
  next
    case False
    then have "1 < ?n" using n by linarith
    moreover from this have "(?n - 1 + ?n - 1) mod ?n = ?n - 2"
      using mod_add_self2 [of "?n - 2" ?n] by (simp add: numeral_2_eq_2)
    moreover have "Suc (?n - 1) = ?n" using n by simp
    moreover have "h ! (?n - 1) = ring_heap ds ! (?n - 1)" using calculation(1) nth_append_left [of "?n - 1" "ring_heap ds"] by (simp add: h_def)
    ultimately show ?thesis using False by (simp add: deref_def h_def [THEN arg_cong, of length] ring_heap_def)
  qed
  define h' where "h' = h[?n - 1 := Some \<lparr>cn_data = ds ! (?n - 1),
      cn_prev = Some (if ?n = 1 then ?n else ?n - 2), cn_next = Some ?n\<rparr>]"
  have u2: "update_at (Some (?n - 1)) (\<lambda>n. n\<lparr>cn_next := Some ?n\<rparr>) h = Inr h'"
    unfolding update_at_def last by (simp add: h'_def)
  have "h' = ring_heap (ds @ [d])"
  proof (rule nth_equalityI)
    show "length h' = length (ring_heap (ds @ [d]))" by (simp add: h'_def h_def)
    fix i assume "i < length h'"
    then have i: "i < Suc ?n" by (simp add: h'_def h_def)
    have p: "(i + Suc ?n - 1) mod Suc ?n = (if i = 0 then ?n else i - 1)"
    proof (cases i)
      case (Suc m)
      then have e: "i + Suc ?n - 1 = m + Suc ?n" by simp
      show ?thesis unfolding e mod_add_self2 using Suc i by simp
    qed simp
    have q: "(i + ?n - 1) mod ?n = (if i = 0 then ?n - 1 else i - 1)" if "i < ?n"
    proof (cases i)
      case (Suc m)
      then have e: "i + ?n - 1 = m + ?n" by simp
      show ?thesis unfolding e mod_add_self2 using Suc that by simp
    qed (use that in simp)
    have nx: "Suc i mod Suc ?n = (if i = ?n then 0 else Suc i)" "i < ?n \<Longrightarrow> Suc i mod ?n = (if i = ?n - 1 then 0 else Suc i)"
      using i by (auto simp: mod_Suc)
    have new: "ring_heap (ds @ [d]) ! i = Some \<lparr>cn_data = (ds @ [d]) ! i, cn_prev = Some (if i = 0 then ?n else i - 1),
        cn_next = Some (if i = ?n then 0 else Suc i)\<rparr>"
      using i p nx(1) by (simp add: ring_heap_def del: upt_Suc)
    have old: "ring_heap ds ! i = Some \<lparr>cn_data = ds ! i, cn_prev = Some (if i = 0 then ?n - 1 else i - 1),
        cn_next = Some (if i = ?n - 1 then 0 else Suc i)\<rparr>" if "i < ?n"
      using that q nx(2) by (simp add: ring_heap_def)
    consider "i = ?n" | "i < ?n" "i = ?n - 1" | "i < ?n - 1" using i by linarith
    then show "h' ! i = ring_heap (ds @ [d]) ! i"
    proof cases
      case 1
      have "h' ! ?n = h ! ?n" unfolding h'_def by (rule nth_list_update_neq) (use n in linarith)
      moreover have "h ! ?n = Some ?new" unfolding h_def using n by (subst nth_list_update_neq) (simp_all add: nth_append)
      ultimately show ?thesis using 1 n unfolding new by simp
    next
      case 2
      moreover have "?n = 1 \<or> 1 < ?n" using n by linarith
      ultimately show ?thesis unfolding new by (elim disjE) (auto simp: h'_def h_def nth_append)
    next
      case 3
      then show ?thesis using old unfolding new
        by (cases "i = 0") (auto simp: h'_def h_def nth_append nth_list_update ring_heap_def)
    qed
  qed
  moreover have "cdll_append d l = Inr (l\<lparr>cd_heap := h', cd_tail := Some ?n, cd_size := cd_size l + 1\<rparr>)"
    using assms u1 u2 by (simp add: cdll_append_def cdll_empty_def ring_wf_def Let_def)
  ultimately show ?thesis using assms by (simp add: ring_wf_def)
qed

lemma appends_ring: "ring_wf l ds k \<Longrightarrow> \<exists>l'. res_fold (\<lambda>i. cdll_append (f i)) xs l = Inr l' \<and> ring_wf l' (ds @ map f xs) k"
proof (induction xs arbitrary: l ds)
  case (Cons x xs)
  obtain l1 where "cdll_append (f x) l = Inr l1" "ring_wf l1 (ds @ [f x]) k" using append_ring [OF Cons.prems] by blast
  then show ?case using Cons.IH [of l1 "ds @ [f x]"] by simp
qed simp

lemma ring_current: "ring_wf l ds k \<Longrightarrow> cdll_current l = Inr (Some (ds ! k))"
  by (simp add: cdll_current_def cdll_empty_def ring_wf_def)

lemma ring_next:
  "ring_wf l ds k \<Longrightarrow> \<exists>l'. cdll_next l = Inr (Some (ds ! (Suc k mod length ds)), l') \<and> ring_wf l' ds (Suc k mod length ds)"
proof -
  assume l: "ring_wf l ds k"
  define k' where "k' = Suc k mod length ds"
  have "k' < length ds" using l by (cases ds) (auto simp: ring_wf_def k'_def)
  then show ?thesis using l by (auto simp: cdll_next_def cdll_empty_def ring_wf_def Let_def k'_def [symmetric])
qed

lemma ring_previous:
  "ring_wf l ds k \<Longrightarrow> \<exists>l'. cdll_previous l = Inr (Some (ds ! ((k + length ds - 1) mod length ds)), l') \<and>
    ring_wf l' ds ((k + length ds - 1) mod length ds)"
proof -
  assume l: "ring_wf l ds k"
  define k' where "k' = (k + length ds - 1) mod length ds"
  have "k' < length ds" using l by (cases ds) (auto simp: ring_wf_def k'_def)
  then show ?thesis using l
    unfolding cdll_previous_def k'_def [symmetric]
    by (auto simp: cdll_empty_def ring_wf_def Let_def ring_deref [where i = k, unfolded k'_def [symmetric]] k'_def [symmetric, unfolded One_nat_def])
qed

subsection \<open>The array\<close>

definition ca_nodes :: "'a list \<Rightarrow> 'a ca_node list" where
  "ca_nodes xs = map (\<lambda>i. \<lparr>ca_index = int i, ca_data = xs ! i\<rparr>) [0..<length xs]"

definition ca_wf :: "'a circular_array \<Rightarrow> 'a list \<Rightarrow> nat \<Rightarrow> bool" where
  "ca_wf a xs k \<longleftrightarrow> ring_wf (ca_list a) (ca_nodes xs) k \<and> ca_size a = int (length xs)"

lemma ca_nodes_length [simp]: "length (ca_nodes xs) = length xs"
  by (simp add: ca_nodes_def)

lemma ca_nodes_nth [simp]: "i < length xs \<Longrightarrow> ca_nodes xs ! i = \<lparr>ca_index = int i, ca_data = xs ! i\<rparr>"
  by (simp add: ca_nodes_def)

lemma ca_new_ok:
  assumes "0 < s"
  shows "\<exists>a. ca_new z s = Inr a \<and> ca_wf a (replicate s z) 0"
proof -
  define f where "f = (\<lambda>i. \<lparr>ca_index = int i, ca_data = z\<rparr>)"
  obtain l1 where l1: "cdll_append (f 0) cdll_new = Inr l1" "ring_wf l1 [f 0] 0" using append_first [of "f 0"] by (elim exE conjE)
  obtain l2 where l2: "res_fold (\<lambda>i. cdll_append (f i)) [1..<s] l1 = Inr l2" "ring_wf l2 ([f 0] @ map f [1..<s]) 0"
    using appends_ring [OF l1(2), where f = f and xs = "[1..<s]"] by (elim exE conjE)
  have u: "[0..<s] = 0 # [1..<s]" using upt_conv_Cons [OF assms] by (simp only: One_nat_def)
  have "[f 0] @ map f [1..<s] = map f [0..<s]" unfolding u by simp
  also have "\<dots> = ca_nodes (replicate s z)" by (simp add: ca_nodes_def f_def)
  finally have "[f 0] @ map f [1..<s] = ca_nodes (replicate s z)" .
  moreover have "res_fold (\<lambda>i. cdll_append (f i)) [0..<s] cdll_new = Inr l2" unfolding u using l1 l2 by simp
  ultimately show ?thesis using l2(2) by (simp add: ca_new_def f_def ca_wf_def)
qed

lemma seek_ring:
  assumes "ring_wf l (ca_nodes xs) k" and "i < length xs" and "(i + length xs - k) mod length xs < fuel"
  shows "\<exists>l'. ca_seek fuel (int i) l = Inr l' \<and> ring_wf l' (ca_nodes xs) i"
  using assms
proof (induction fuel arbitrary: l k)
  case (Suc fuel)
  let ?n = "length xs"
  have k: "k < ?n" using Suc.prems(1) by (simp add: ring_wf_def)
  show ?case
  proof (cases "k = i")
    case True
    then show ?thesis using Suc.prems(1) k by (simp add: ring_current the_node_def)
  next
    case False
    obtain l' where l': "cdll_next l = Inr (Some (ca_nodes xs ! (Suc k mod ?n)), l')" "ring_wf l' (ca_nodes xs) (Suc k mod ?n)"
      using ring_next [OF Suc.prems(1)] by auto
    have "(i + ?n - Suc k mod ?n) mod ?n < fuel"
    proof (cases "k < i")
      case True
      then have "(i + ?n - k) mod ?n = i - k" "(i + ?n - Suc k) mod ?n = i - Suc k" "Suc k mod ?n = Suc k"
        using Suc.prems(2) by (simp_all add: mod_if)
      then show ?thesis using Suc.prems(3) True by simp
    next
      case less: False
      then have d: "(i + ?n - k) mod ?n = i + ?n - k" using False k by (intro mod_less) linarith
      show ?thesis
      proof (cases "Suc k = ?n")
        case True
        then show ?thesis using Suc.prems(2,3) d by simp
      next
        case False
        then have "Suc k mod ?n = Suc k" "(i + ?n - Suc k) mod ?n = i + ?n - Suc k" using less k Suc.prems(2) by auto
        then show ?thesis using Suc.prems(3) d k by simp
      qed
    qed
    then obtain l'' where "ca_seek fuel (int i) l' = Inr l''" "ring_wf l'' (ca_nodes xs) i"
      using Suc.IH [OF l'(2) Suc.prems(2)] by blast
    then show ?thesis using Suc.prems(1) k False l'(1) by (simp add: ring_current the_node_def)
  qed
qed simp

lemma find_ok:
  assumes "ca_wf a xs k" and "i < length xs"
  shows "\<exists>a'. ca_find (int i) a = Inr a' \<and> ca_wf a' xs i"
proof -
  have "(i + length xs - k) mod length xs < nat (ca_size a) + 1"
  proof -
    have "nat (ca_size a) = length xs" using assms by (simp add: ca_wf_def)
    moreover have "(i + length xs - k) mod length xs < length xs" using assms(2) by (intro mod_less_divisor) linarith
    ultimately show ?thesis by simp
  qed
  then obtain l' where "ca_seek (nat (ca_size a) + 1) (int i) (ca_list a) = Inr l'" "ring_wf l' (ca_nodes xs) i"
    using seek_ring [OF _ assms(2)] assms(1) unfolding ca_wf_def by blast
  then show ?thesis using assms by (simp add: ca_find_def checkIndex_def ca_wf_def del: ca_seek.simps)
qed

lemma ca_get_ok: "ca_wf a xs k \<Longrightarrow> ca_get a = Inr (xs ! k)"
  by (auto simp: ca_get_def ca_wf_def ring_current the_node_def) (simp add: ring_wf_def)

lemma ca_get_index_ok: "ca_wf a xs k \<Longrightarrow> ca_get_index a = Inr (int k)"
  by (auto simp: ca_get_index_def ca_wf_def ring_current the_node_def) (simp add: ring_wf_def)

lemma ca_put_ok:
  assumes "ca_wf a xs k"
  shows "\<exists>a'. ca_put d a = Inr a' \<and> ca_wf a' (xs[k := d]) k"
proof -
  have k: "k < length xs" and r: "ring_wf (ca_list a) (ca_nodes xs) k" using assms by (auto simp: ca_wf_def ring_wf_def)
  let ?h = "(ring_heap (ca_nodes xs))[k := Some \<lparr>cn_data = \<lparr>ca_index = int k, ca_data = d\<rparr>,
    cn_prev = Some ((k + length xs - 1) mod length xs), cn_next = Some (Suc k mod length xs)\<rparr>]"
  have "?h = ring_heap (ca_nodes (xs[k := d]))"
    by (rule nth_equalityI) (use k in \<open>auto simp: ring_heap_def nth_list_update\<close>)
  then show ?thesis using assms r k
    by (simp add: ca_put_def cdll_empty_def ring_wf_def update_at_def ca_wf_def)
qed

lemma ca_get_at_ok:
  assumes "ca_wf a xs k" and "i < length xs"
  shows "\<exists>a'. ca_get_at (int i) a = Inr (xs ! i, a') \<and> ca_wf a' xs i"
  using find_ok [OF assms] by (auto simp: ca_get_at_def ca_get_ok)

lemma ca_put_at_ok:
  assumes "ca_wf a xs k" and "i < length xs"
  shows "\<exists>a'. ca_put_at (int i) d a = Inr a' \<and> ca_wf a' (xs[i := d]) i"
  using find_ok [OF assms] ca_put_ok by (fastforce simp: ca_put_at_def)

lemma ca_previous_ok:
  assumes "ca_wf a xs k"
  shows "\<exists>a'. ca_previous a = Inr (xs ! ((k + length xs - 1) mod length xs), a') \<and> ca_wf a' xs ((k + length xs - 1) mod length xs)"
proof -
  have "0 < length xs" using assms by (auto simp: ca_wf_def ring_wf_def)
  then have "(k + length xs - 1) mod length xs < length xs" by simp
  then show ?thesis using ring_previous [of "ca_list a" "ca_nodes xs" k] assms
    by (auto simp: ca_previous_def ca_wf_def the_node_def)
qed

lemma ca_next_ok:
  assumes "ca_wf a xs k"
  shows "\<exists>a'. ca_next a = Inr (xs ! (Suc k mod length xs), a') \<and> ca_wf a' xs (Suc k mod length xs)"
proof -
  have "0 < length xs" using assms by (auto simp: ca_wf_def ring_wf_def)
  then have "Suc k mod length xs < length xs" by simp
  then show ?thesis using ring_next [of "ca_list a" "ca_nodes xs" k] assms
    by (auto simp: ca_next_def ca_wf_def the_node_def)
qed

subsection \<open>Its contract\<close>

locale cursor_array =
  fixes wf :: "'c \<Rightarrow> 'a list \<Rightarrow> nat \<Rightarrow> bool" and put_at :: "int \<Rightarrow> 'a \<Rightarrow> 'c \<Rightarrow> 'c res"
    and get_at :: "int \<Rightarrow> 'c \<Rightarrow> ('a \<times> 'c) res" and get :: "'c \<Rightarrow> 'a res" and index :: "'c \<Rightarrow> int res"
    and previous :: "'c \<Rightarrow> ('a \<times> 'c) res"
  assumes put_at: "wf c xs k \<Longrightarrow> i < length xs \<Longrightarrow> \<exists>c'. put_at (int i) x c = Inr c' \<and> wf c' (xs[i := x]) i"
    and get_at: "wf c xs k \<Longrightarrow> i < length xs \<Longrightarrow> \<exists>c'. get_at (int i) c = Inr (xs ! i, c') \<and> wf c' xs i"
    and get: "wf c xs k \<Longrightarrow> get c = Inr (xs ! k)"
    and index: "wf c xs k \<Longrightarrow> index c = Inr (int k)"
    and previous: "wf c xs k \<Longrightarrow> \<exists>x c'. previous c = Inr (x, c') \<and> wf c' xs ((k + length xs - 1) mod length xs)"
begin

lemma puts:
  assumes "wf c xs k" and "\<forall>i\<in>set is. i < length xs"
  shows "\<exists>c' k'. res_fold (\<lambda>i. put_at (int i) (ys ! i)) is c = Inr c' \<and> wf c' (foldl (\<lambda>xs i. xs[i := ys ! i]) xs is) k'"
  using assms
proof (induction "is" arbitrary: c xs k)
  case (Cons i "is")
  obtain c1 where "put_at (int i) (ys ! i) c = Inr c1" "wf c1 (xs[i := ys ! i]) i" using put_at [OF Cons.prems(1)] Cons.prems(2) by force
  then show ?case using Cons.IH [of c1 "xs[i := ys ! i]"] Cons.prems(2) by simp
qed auto

end

interpretation ring: cursor_array ca_wf ca_put_at ca_get_at ca_get ca_get_index ca_previous
  by unfold_locales (blast intro: ca_put_at_ok ca_get_at_ok dest: ca_get_ok ca_get_index_ok ca_previous_ok)+

end
