(* ===== verification/Sjm_Arbiter.thy ===== *)
theory Sjm_Arbiter
  imports Sjm_Ring_Array
begin

text \<open>
  The arbiter of a bus master (\<^verbatim>\<open>verif/env/iss/pli/sjm/c/Arbiter.cc\<close>). Every master of the bus has
  one; each sees the request lines of all ports, its own under index 0 and the one of port \<open>p\<close> under
  \<open>p - portID\<close>, modulo the number of ports, and computes for itself who has the bus. A request line
  that is neither high nor low has the value 255.
\<close>

definition G_MAXPORTS :: nat where
  "G_MAXPORTS = 7"

record arbiter =
  arb_portID :: nat
  arb_reqs_in_next :: "u8 list"
  arb_reqs_in_curr :: "u8 circular_array"
  arb_req_out :: u8
  arb_grnt_next :: int
  arb_grnt_curr :: int
  arb_multiple :: u8
  arb_deadcycle :: bool
  arb_reset :: u8

definition arbiter_new :: "nat \<Rightarrow> arbiter res" where
  "arbiter_new port =
    res_bind (ca_new 0 G_MAXPORTS) (\<lambda>c.
    res_bind (res_fold (\<lambda>i. ca_put_at (int i) (- 1)) [0..<G_MAXPORTS] c) (\<lambda>c.
    Inr \<lparr>arb_portID = port, arb_reqs_in_next = replicate G_MAXPORTS (- 1), arb_reqs_in_curr = c, arb_req_out = - 1,
      arb_grnt_next = (if port \<noteq> 0 then int G_MAXPORTS - int port else 0), arb_grnt_curr = - 1, arb_multiple = 0,
      arb_deadcycle = True, arb_reset = 0\<rparr>))"

definition arbiter_reset :: "arbiter \<Rightarrow> arbiter" where
  "arbiter_reset a =
    (let a = a\<lparr>arb_req_out := 0, arb_reqs_in_next := replicate G_MAXPORTS 0\<rparr>;
         a = (if arb_portID a = 0 then a\<lparr>arb_grnt_next := 0, arb_grnt_curr := 0\<rparr>
              else a\<lparr>arb_grnt_next := int G_MAXPORTS - int (arb_portID a)\<rparr>)
     in a\<lparr>arb_reset := arb_reset a + 1\<rparr>)"

definition set_deadcycle :: "bool \<Rightarrow> arbiter \<Rightarrow> arbiter" where
  "set_deadcycle which a = a\<lparr>arb_deadcycle := which\<rparr>"

subsection \<open>A cycle\<close>

definition register_requests :: "arbiter \<Rightarrow> arbiter res" where
  "register_requests a =
    res_bind (res_fold (\<lambda>i c. res_bind (array_at i (arb_reqs_in_next a)) (\<lambda>r. ca_put_at (int i) r c))
      [0..<G_MAXPORTS] (arb_reqs_in_curr a)) (\<lambda>c.
    Inr (a\<lparr>arb_reqs_in_curr := c, arb_grnt_curr := arb_grnt_next a\<rparr>))"

definition next_requests :: "u8 list \<Rightarrow> arbiter \<Rightarrow> arbiter res" where
  "next_requests newreqs a =
    (if arb_reset a \<noteq> 0 then
       res_bind
         (if arb_reset a = 3 then
            array_put (if arb_portID a = 0 then 0 else G_MAXPORTS - arb_portID a) 1 (arb_reqs_in_next a)
          else Inr (arb_reqs_in_next a)) (\<lambda>reqs.
       Inr (a\<lparr>arb_reqs_in_next := reqs, arb_reset := (if arb_reset a + 1 > 4 then 0 else arb_reset a + 1)\<rparr>))
     else
       res_bind (array_put 0 (arb_req_out a) (arb_reqs_in_next a)) (\<lambda>reqs.
       res_bind (res_fold (\<lambda>i reqs. res_bind (array_at (i - 1) newreqs) (\<lambda>r. array_put i r reqs)) [1..<G_MAXPORTS] reqs) (\<lambda>reqs.
       Inr (a\<lparr>arb_reqs_in_next := reqs\<rparr>))))"

fun hold_grant :: "nat list \<Rightarrow> int \<Rightarrow> u8 circular_array \<Rightarrow> (bool \<times> u8 circular_array) res" where
  "hold_grant [] g c = Inr (True, c)"
| "hold_grant (i # is) g c =
    res_bind (ca_get_at (int i) c) (\<lambda>(r, c). if r \<noteq> 0 \<and> int i \<noteq> g then Inr (False, c) else hold_grant is g c)"

text \<open>The loop \<^verbatim>\<open>do ... while\<close>, with a turn of fuel for every port; it comes back to where it started.\<close>

fun grant_search :: "nat \<Rightarrow> int \<Rightarrow> u8 circular_array \<Rightarrow> u8 circular_array res" where
  "grant_search 0 g c = Inl Diverges"
| "grant_search (Suc fuel) g c =
    res_bind (ca_get c) (\<lambda>r.
    if r \<noteq> 0 then Inr c
    else res_bind (ca_previous c) (\<lambda>(_, c).
      res_bind (ca_get_index c) (\<lambda>i. if i \<noteq> g then grant_search fuel g c else Inr c)))"

definition next_grant :: "arbiter \<Rightarrow> arbiter res" where
  "next_grant a =
    res_bind (hold_grant [0..<G_MAXPORTS] (arb_grnt_curr a) (arb_reqs_in_curr a)) (\<lambda>(hold, c).
    if hold then Inr (a\<lparr>arb_reqs_in_curr := c\<rparr>)
    else
      res_bind (ca_get_at (arb_grnt_curr a) c) (\<lambda>(_, c).
      res_bind (grant_search G_MAXPORTS (arb_grnt_curr a) c) (\<lambda>c.
      res_bind (ca_get_index c) (\<lambda>g. Inr (a\<lparr>arb_reqs_in_curr := c, arb_grnt_next := g\<rparr>)))))"

definition arbitrate :: "u8 list \<Rightarrow> arbiter \<Rightarrow> arbiter res" where
  "arbitrate newreqs a =
    res_bind (register_requests a) (\<lambda>a. res_bind (next_requests newreqs a) next_grant)"

subsection \<open>Grants and requests\<close>

definition has_grant :: "arbiter \<Rightarrow> bool" where
  "has_grant a \<longleftrightarrow> arb_deadcycle a \<and> arb_grnt_next a = arb_grnt_curr a \<and> arb_grnt_curr a = 0 \<or>
    \<not> arb_deadcycle a \<and> arb_grnt_next a = 0"

definition drive_idle :: "arbiter \<Rightarrow> bool" where
  "drive_idle a \<longleftrightarrow> arb_deadcycle a \<and> arb_grnt_curr a = 0 \<and> arb_grnt_next a = 0 \<or>
    \<not> arb_deadcycle a \<and> arb_grnt_next a = 0"

definition request_bus :: "int \<Rightarrow> arbiter \<Rightarrow> arbiter" where
  "request_bus multiple a = a\<lparr>arb_req_out := 1, arb_multiple := (if multiple \<noteq> 0 then word_of_int multiple else 0)\<rparr>"

fun any_request :: "nat list \<Rightarrow> u8 circular_array \<Rightarrow> (bool \<times> u8 circular_array) res" where
  "any_request [] c = Inr (False, c)"
| "any_request (i # is) c =
    res_bind (ca_get_at (int i) c) (\<lambda>(r, c). if r \<noteq> 0 then Inr (True, c) else any_request is c)"

definition request_to_hold :: "arbiter \<Rightarrow> (bool \<times> arbiter) res" where
  "request_to_hold a =
    (if \<not> has_grant a then Inr (False, a)
     else res_bind (any_request [1..<G_MAXPORTS] (arb_reqs_in_curr a)) (\<lambda>(other, c).
       if other then Inr (False, a\<lparr>arb_reqs_in_curr := c, arb_req_out := 0, arb_multiple := 0\<rparr>)
       else Inr (True, a\<lparr>arb_reqs_in_curr := c\<rparr>)))"

definition hold_bus :: "arbiter \<Rightarrow> bool \<times> arbiter" where
  "hold_bus a = (if \<not> has_grant a then (False, a) else (True, a\<lparr>arb_req_out := 1\<rparr>))"

definition release_bus :: "arbiter \<Rightarrow> arbiter" where
  "release_bus a = a\<lparr>arb_req_out := 0, arb_multiple := 0\<rparr>"

definition get_req_in :: "int \<Rightarrow> arbiter \<Rightarrow> u8 res" where
  "get_req_in i a =
    (let k = (if i < int (arb_portID a) then int G_MAXPORTS - (int (arb_portID a) - i) else i - int (arb_portID a))
     in if k < 0 then Inl Undefined else array_at (nat k) (arb_reqs_in_next a))"

definition req_active :: "arbiter \<Rightarrow> bool" where
  "req_active a \<longleftrightarrow> list_ex (\<lambda>i. arb_reqs_in_next a ! i \<noteq> 0) [0..<G_MAXPORTS]"

definition rtl_data :: "arbiter \<Rightarrow> string" where
  "rtl_data a =
    (let bit = (\<lambda>b. if b then CHR ''1'' else CHR ''0'')
     in map (\<lambda>j. bit (arb_grnt_curr a = int j)) (rev [0..<G_MAXPORTS]) @ '':'' @
        map (\<lambda>j. bit (arb_grnt_next a = int j)) (rev [0..<G_MAXPORTS]) @ '':'' @
        [bit (has_grant a)] @ '':'' @ [bit (arb_deadcycle a)] @ '':'' @ [bit (arb_req_out a \<noteq> 0)])"

end
