(* ===== verification/Sjm_Arbiter_Refine.thy ===== *)
theory Sjm_Arbiter_Refine
  imports Sjm_Arbiter
begin

text \<open>
  One arbiter implements a round robin: of the ports that request the bus it takes the first in
  descending order, beginning with the port that has the bus now.
\<close>

definition below :: "nat \<Rightarrow> nat \<Rightarrow> nat" where
  "below g d = (g + 7 - d) mod 7"

definition winner :: "(nat \<Rightarrow> bool) \<Rightarrow> nat \<Rightarrow> nat" where
  "winner R g = (case List.find R (map (below g) [0..<7]) of None \<Rightarrow> g | Some w \<Rightarrow> w)"

lemma all_below_7: "list_all P [0..<7] \<Longrightarrow> i < 7 \<Longrightarrow> P i"
  by (simp add: list_all_iff)

lemma below_tables:
  "list_all (\<lambda>g. list_all (\<lambda>d. (below g d + 7 - 1) mod 7 = below g (Suc d)) [0..<7]) [0..<7]"
  "list_all (\<lambda>g. list_all (\<lambda>d. (d = 0) = (below g d = g)) [0..<7]) [0..<7]"
  "list_all (\<lambda>p. list_all (\<lambda>g. list_all (\<lambda>d. (p + below (below g p) d) mod 7 = below g d) [0..<7]) [0..<7]) [0..<7]"
  "list_all (\<lambda>p. list_all (\<lambda>g. list_all (\<lambda>d. below (below g p) d = below (below g d) p) [0..<7]) [0..<7]) [0..<7]"
  "list_all (\<lambda>g. list_all (\<lambda>q. below g (below g q) = q) [0..<7]) [0..<7]"
  "list_all (\<lambda>g. list_all (\<lambda>d. below (below g d) g = (7 - d) mod 7) [0..<7]) [0..<7]"
  "list_all (\<lambda>g. list_all (\<lambda>q. list_all (\<lambda>d. d \<le> below g q \<longrightarrow> below (below g d) q = below g q - d) [0..<7]) [0..<7]) [0..<7]"
  by code_simp+

lemma below_less [simp]: "below g d < 7"
  by (simp add: below_def)

lemma below_prev: "g < 7 \<Longrightarrow> d < 7 \<Longrightarrow> (below g d + 7 - 1) mod 7 = below g (Suc d)"
  using all_below_7 [OF all_below_7 [OF below_tables(1)]] .

lemma below_self: "g < 7 \<Longrightarrow> d < 7 \<Longrightarrow> below g d = g \<longleftrightarrow> d = 0"
  using all_below_7 [OF all_below_7 [OF below_tables(2)]] by blast

lemma below_rotate: "p < 7 \<Longrightarrow> g < 7 \<Longrightarrow> d < 7 \<Longrightarrow> (p + below (below g p) d) mod 7 = below g d"
  using all_below_7 [OF all_below_7 [OF all_below_7 [OF below_tables(3)]]] .

lemma below_swap: "p < 7 \<Longrightarrow> g < 7 \<Longrightarrow> d < 7 \<Longrightarrow> below (below g p) d = below (below g d) p"
  using all_below_7 [OF all_below_7 [OF all_below_7 [OF below_tables(4)]]] .

lemma below_below: "g < 7 \<Longrightarrow> q < 7 \<Longrightarrow> below g (below g q) = q"
  using all_below_7 [OF all_below_7 [OF below_tables(5)]] .

lemma below_distance: "g < 7 \<Longrightarrow> q < 7 \<Longrightarrow> d < 7 \<Longrightarrow> d \<le> below g q \<Longrightarrow> below (below g d) q = below g q - d"
  using all_below_7 [OF all_below_7 [OF all_below_7 [OF below_tables(7)]]] by blast

lemma below_0 [simp]: "g < 7 \<Longrightarrow> below g 0 = g"
  by (simp add: below_def)

lemma winner_less [simp]: "g < 7 \<Longrightarrow> winner R g < 7"
  by (auto simp: winner_def find_Some_iff split: option.splits)

lemma find_map: "List.find P (map f xs) = map_option f (List.find (P \<circ> f) xs)"
  by (induction xs) simp_all

lemma find_cong_set: "(\<And>x. x \<in> set xs \<Longrightarrow> P x = Q x) \<Longrightarrow> List.find P xs = List.find Q xs"
  by (induction xs) simp_all

lemma winner_rotate:
  assumes "p < 7" and "g < 7"
  shows "winner (\<lambda>i. R ((p + i) mod 7)) (below g p) = below (winner R g) p"
proof -
  have "List.find ((\<lambda>i. R ((p + i) mod 7)) \<circ> below (below g p)) [0..<7] = List.find (R \<circ> below g) [0..<7]"
    by (rule find_cong_set) (use assms below_rotate in auto)
  moreover have "d < 7" if "List.find (R \<circ> below g) [0..<7] = Some d" for d using that by (auto simp: find_Some_iff)
  ultimately show ?thesis using assms below_swap [OF assms]
    by (cases "List.find (R \<circ> below g) [0..<7]") (simp_all add: winner_def find_map del: upt_Suc)
qed

subsection \<open>The parts of a cycle\<close>

lemma update_all: "length xs = length ys \<Longrightarrow> n \<le> length ys \<Longrightarrow>
  foldl (\<lambda>xs i. xs[i := ys ! i]) xs [0..<n] = take n ys @ drop n xs"
proof (induction n)
  case (Suc n)
  then show ?case
    by (auto simp: list_update_append take_Suc_conv_app_nth upd_conv_take_nth_drop nth_append
      Cons_nth_drop_Suc [symmetric] list_update_code)
qed simp

definition arb_ok :: "arbiter \<Rightarrow> bool" where
  "arb_ok a \<longleftrightarrow> arb_portID a < 7 \<and> length (arb_reqs_in_next a) = 7 \<and>
    (\<exists>xs k. ca_wf (arb_reqs_in_curr a) xs k \<and> length xs = 7) \<and> 0 \<le> arb_grnt_next a \<and> arb_grnt_next a < 7"

lemma res_fold_cong:
  "(\<And>x s. x \<in> set xs \<Longrightarrow> f x s = g x s) \<Longrightarrow> res_fold f xs s = res_fold g xs s"
  by (induction xs arbitrary: s) (simp_all cong: res_bind_cong)

lemma register_ok:
  assumes "arb_ok a"
  shows "\<exists>c k. register_requests a = Inr (a\<lparr>arb_reqs_in_curr := c, arb_grnt_curr := arb_grnt_next a\<rparr>) \<and>
    ca_wf c (arb_reqs_in_next a) k"
proof -
  let ?N = "arb_reqs_in_next a"
  obtain xs k where xs: "ca_wf (arb_reqs_in_curr a) xs k" "length xs = 7" and n: "length ?N = 7"
    using assms by (auto simp: arb_ok_def)
  obtain c k' where c: "res_fold (\<lambda>i. ca_put_at (int i) (?N ! i)) [0..<7] (arb_reqs_in_curr a) = Inr c"
      "ca_wf c (foldl (\<lambda>xs i. xs[i := ?N ! i]) xs [0..<7]) k'"
    using ring.puts [OF xs(1), of "[0..<7]" ?N] xs(2) by auto
  have "ca_wf c ?N k'" using c(2) update_all [of xs ?N 7] xs(2) n by simp
  moreover have "res_fold (\<lambda>i c. res_bind (array_at i ?N) (\<lambda>r. ca_put_at (int i) r c)) [0..<7] (arb_reqs_in_curr a) = Inr c"
    using c(1) by (subst res_fold_cong) (simp_all add: array_at_def n)
  ultimately show ?thesis by (auto simp: register_requests_def G_MAXPORTS_def simp del: upt_Suc)
qed

definition registered :: "u8 list \<Rightarrow> arbiter \<Rightarrow> u8 list" where
  "registered newreqs a =
    (if arb_reset a = 0 then arb_req_out a # newreqs
     else if arb_reset a = 3 then (arb_reqs_in_next a)[(7 - arb_portID a) mod 7 := 1]
     else arb_reqs_in_next a)"

definition reset_count :: "u8 \<Rightarrow> u8" where
  "reset_count r = (if r = 0 then 0 else if r + 1 > 4 then 0 else r + 1)"

lemma fold_puts:
  assumes "length ys = 7" and "length newreqs = 6"
  shows "res_fold (\<lambda>i reqs. res_bind (array_at (i - 1) newreqs) (\<lambda>r. array_put i r reqs)) [1..<7] (ys[0 := y]) = Inr (y # newreqs)"
proof -
  obtain a0 a1 a2 a3 a4 a5 a6 where "ys = [a0, a1, a2, a3, a4, a5, a6]"
    using assms(1) by (auto simp: length_Suc_conv eval_nat_numeral)
  moreover obtain b0 b1 b2 b3 b4 b5 where "newreqs = [b0, b1, b2, b3, b4, b5]"
    using assms(2) by (auto simp: length_Suc_conv eval_nat_numeral)
  ultimately show ?thesis by (simp add: upt_rec array_at_def array_put_def)
qed

lemma next_requests_ok:
  assumes "arb_portID a < 7" and "length (arb_reqs_in_next a) = 7" and "length newreqs = 6"
  shows "next_requests newreqs a = Inr (a\<lparr>arb_reqs_in_next := registered newreqs a, arb_reset := reset_count (arb_reset a)\<rparr>)"
proof (cases "arb_reset a = 0")
  case True
  have "array_put 0 (arb_req_out a) (arb_reqs_in_next a) = Inr ((arb_reqs_in_next a)[0 := arb_req_out a])"
    using assms(2) by (simp add: array_put_def)
  then show ?thesis using True fold_puts [OF assms(2,3)]
    by (simp add: next_requests_def G_MAXPORTS_def registered_def reset_count_def del: upt_Suc)
next
  case False
  have "(7 - arb_portID a) mod 7 = (if arb_portID a = 0 then 0 else 7 - arb_portID a)" using assms(1) by simp
  then show ?thesis using False assms
    by (auto simp: next_requests_def G_MAXPORTS_def registered_def reset_count_def array_put_def)
qed

lemma hold_grant_ok:
  assumes "ca_wf c xs k" and "\<forall>i\<in>set is. i < length xs"
  shows "\<exists>c' k'. hold_grant is g c = Inr (\<forall>i\<in>set is. xs ! i = 0 \<or> int i = g, c') \<and> ca_wf c' xs k'"
  using assms
proof (induction "is" arbitrary: c k)
  case (Cons i "is")
  obtain c1 where c1: "ca_get_at (int i) c = Inr (xs ! i, c1)" "ca_wf c1 xs i"
    using ring.get_at [OF Cons.prems(1), of i] Cons.prems(2) by auto
  show ?case
  proof (cases "xs ! i \<noteq> 0 \<and> int i \<noteq> g")
    case True
    then show ?thesis using c1 by auto
  next
    case False
    obtain c2 k2 where "hold_grant is g c1 = Inr (\<forall>i\<in>set is. xs ! i = 0 \<or> int i = g, c2)" "ca_wf c2 xs k2"
      using Cons.IH [OF c1(2)] Cons.prems(2) by auto
    then show ?thesis using c1(1) False by (auto split: if_splits)
  qed
qed auto

lemma search_ok:
  assumes "ca_wf c xs (below g d)" and "length xs = 7" and "g < 7" and "fuel = 7 - d"
    and "\<exists>e\<in>{d..<7}. xs ! below g e \<noteq> 0"
  shows "\<exists>c' w. grant_search fuel (int g) c = Inr c' \<and> ca_wf c' xs w \<and>
    List.find (\<lambda>i. xs ! i \<noteq> 0) (map (below g) [d..<7]) = Some w"
  using assms
proof (induction fuel arbitrary: c d)
  case (Suc fuel)
  have d: "d < 7" "[d..<7] = d # [Suc d..<7]" using Suc.prems(4) by (auto simp: upt_conv_Cons)
  show ?case
  proof (cases "xs ! below g d = 0")
    case False
    then show ?thesis using Suc.prems(1) by (auto simp: ring.get [OF Suc.prems(1)] d(2) simp del: upt_Suc)
  next
    case True
    have e: "\<exists>e\<in>{Suc d..<7}. xs ! below g e \<noteq> 0"
    proof -
      obtain e where "e \<in> {d..<7}" "xs ! below g e \<noteq> 0" using Suc.prems(5) by blast
      moreover from this True have "e \<noteq> d" by auto
      ultimately show ?thesis by (intro bexI [of _ e]) auto
    qed
    then have s: "Suc d < 7" by auto
    obtain x c1 where c1: "ca_previous c = Inr (x, c1)" "ca_wf c1 xs (below g (Suc d))"
      using ring.previous [OF Suc.prems(1)] below_prev [OF Suc.prems(3) d(1)] Suc.prems(2) by auto
    have ne: "below g (Suc d) \<noteq> g" using below_self [OF Suc.prems(3) s] by simp
    obtain c' w where "grant_search fuel (int g) c1 = Inr c'" "ca_wf c' xs w"
        "List.find (\<lambda>i. xs ! i \<noteq> 0) (map (below g) [Suc d..<7]) = Some w"
    proof -
      have "fuel = 7 - Suc d" using Suc.prems(4) by simp
      then show ?thesis using Suc.IH [OF c1(2) Suc.prems(2,3) _ e] that by blast
    qed
    then show ?thesis using c1 ne True
      by (auto simp: ring.get [OF Suc.prems(1)] ring.index [OF c1(2)] d(2) simp del: upt_Suc)
  qed
next
  case 0
  then show ?case by auto
qed

lemma below_onto:
  assumes "g < 7" and "i < 7"
  shows "i \<in> below g ` {0..<7}"
  using below_below [OF assms] below_less [of g i] by (metis atLeastLessThan_iff imageI le0)

lemma next_grant_ok:
  assumes "ca_wf (arb_reqs_in_curr a) xs k" and "length xs = 7" and "arb_grnt_curr a = int g" and "g < 7"
    and "arb_grnt_next a = int g"
  shows "\<exists>c k'. next_grant a = Inr (a\<lparr>arb_reqs_in_curr := c, arb_grnt_next := int (winner (\<lambda>i. xs ! i \<noteq> 0) g)\<rparr>) \<and> ca_wf c xs k'"
proof -
  obtain c1 k1 where c1: "hold_grant [0..<7] (int g) (arb_reqs_in_curr a) = Inr (\<forall>i\<in>set [0..<7]. xs ! i = 0 \<or> int i = int g, c1)" "ca_wf c1 xs k1"
    using hold_grant_ok [OF assms(1), of "[0..<7]" "int g"] assms(2) by auto
  show ?thesis
  proof (cases "\<forall>i\<in>set [0..<7]. xs ! i = 0 \<or> int i = int g")
    case True
    have "List.find (\<lambda>i. xs ! i \<noteq> 0) (map (below g) [0..<7]) \<in> {None, Some g}"
    proof (cases "List.find (\<lambda>i. xs ! i \<noteq> 0) (map (below g) [0..<7])")
      case (Some w)
      then have "w < 7 \<and> xs ! w \<noteq> 0" by (auto simp: find_Some_iff)
      then show ?thesis using Some True by auto
    qed simp
    then have "winner (\<lambda>i. xs ! i \<noteq> 0) g = g" by (auto simp: winner_def simp del: upt_Suc)
    then have "a\<lparr>arb_reqs_in_curr := c1, arb_grnt_next := int (winner (\<lambda>i. xs ! i \<noteq> 0) g)\<rparr> = a\<lparr>arb_reqs_in_curr := c1\<rparr>"
      using assms(5) by simp
    moreover have "next_grant a = Inr (a\<lparr>arb_reqs_in_curr := c1\<rparr>)"
      using c1(1) True assms(3) unfolding next_grant_def G_MAXPORTS_def by simp
    ultimately show ?thesis using c1(2) by metis
  next
    case False
    then have h: "hold_grant [0..<7] (int g) (arb_reqs_in_curr a) = Inr (False, c1)" using c1(1) by (simp only:)
    from False obtain i where i: "i < 7" "xs ! i \<noteq> 0" by auto
    then obtain e where e: "e \<in> {0..<7}" "xs ! below g e \<noteq> 0" using below_onto [OF assms(4)] by (metis imageE)
    obtain c2 where c2: "ca_get_at (int g) c1 = Inr (xs ! g, c2)" "ca_wf c2 xs g"
      using ring.get_at [OF c1(2), of g] assms(2,4) by auto
    obtain c3 w where c3: "grant_search 7 (int g) c2 = Inr c3" "ca_wf c3 xs w"
        "List.find (\<lambda>i. xs ! i \<noteq> 0) (map (below g) [0..<7]) = Some w"
    proof -
      have "ca_wf c2 xs (below g 0)" using c2(2) assms(4) by simp
      moreover have "\<exists>e\<in>{0..<7}. xs ! below g e \<noteq> 0" using e by blast
      ultimately show ?thesis using search_ok [OF _ assms(2,4), of c2 0 7] that by auto
    qed
    have "winner (\<lambda>i. xs ! i \<noteq> 0) g = w" using c3(3) by (simp add: winner_def)
    moreover have "next_grant a = Inr (a\<lparr>arb_reqs_in_curr := c3, arb_grnt_next := int w\<rparr>)"
      using h assms(3) c2(1) c3(1) ring.index [OF c3(2)] unfolding next_grant_def G_MAXPORTS_def by simp
    ultimately show ?thesis using c3(2) by blast
  qed
qed

lemma arbitrate_ok:
  assumes "arb_ok a" and "length newreqs = 6" and "arb_grnt_next a = int g"
  shows "\<exists>c k. arbitrate newreqs a = Inr (a\<lparr>arb_grnt_curr := int g,
      arb_reqs_in_next := registered newreqs a, arb_reset := reset_count (arb_reset a), arb_reqs_in_curr := c,
      arb_grnt_next := int (winner (\<lambda>i. arb_reqs_in_next a ! i \<noteq> 0) g)\<rparr>) \<and> ca_wf c (arb_reqs_in_next a) k"
proof -
  have a: "arb_portID a < 7" "length (arb_reqs_in_next a) = 7" "g < 7" using assms by (auto simp: arb_ok_def)
  obtain c k where c: "register_requests a = Inr (a\<lparr>arb_reqs_in_curr := c, arb_grnt_curr := arb_grnt_next a\<rparr>)"
      "ca_wf c (arb_reqs_in_next a) k" using register_ok [OF assms(1)] by blast
  let ?a1 = "a\<lparr>arb_reqs_in_curr := c, arb_grnt_curr := arb_grnt_next a\<rparr>"
  let ?a2 = "?a1\<lparr>arb_reqs_in_next := registered newreqs a, arb_reset := reset_count (arb_reset a)\<rparr>"
  have "next_requests newreqs ?a1 = Inr ?a2"
    using next_requests_ok [of ?a1 newreqs] a assms(2) by (simp add: registered_def)
  moreover obtain c2 k2 where "next_grant ?a2 = Inr (?a2\<lparr>arb_reqs_in_curr := c2,
      arb_grnt_next := int (winner (\<lambda>i. arb_reqs_in_next a ! i \<noteq> 0) g)\<rparr>)" "ca_wf c2 (arb_reqs_in_next a) k2"
    using next_grant_ok [of ?a2 "arb_reqs_in_next a" k g] c(2) a(2,3) assms(3) by auto
  ultimately show ?thesis using c(1) assms(3) by (auto simp: arbitrate_def)
qed

end
