(* ===== verification/Sjm_Bus.thy ===== *)
theory Sjm_Bus
  imports Sjm_Arbiter_Refine
begin

text \<open>
  Seven masters with an arbiter each, their request lines wired to all others: in a cycle every
  arbiter reads the lines that all ports drove before it. Between the cycles the masters change
  their requests. All arbiters agree on who has the bus next, without talking to each other.
\<close>

datatype bus_event =
    Cycle | Request nat int | Release nat | Hold nat | To_hold nat | Deadcycle bool | Reset_all

definition wires_of :: "nat \<Rightarrow> arbiter list \<Rightarrow> u8 list" where
  "wires_of p bus = map (\<lambda>i. arb_req_out (bus ! ((p + i) mod 7))) [1..<7]"

definition bus_cycle :: "arbiter list \<Rightarrow> arbiter list res" where
  "bus_cycle bus =
    res_fold (\<lambda>p bus'. res_bind (arbitrate (wires_of p bus) (bus ! p)) (\<lambda>a. Inr (bus' @ [a]))) [0..<7] []"

fun bus_step :: "bus_event \<Rightarrow> arbiter list \<Rightarrow> arbiter list res" where
  "bus_step Cycle bus = bus_cycle bus"
| "bus_step (Request p multiple) bus = Inr (bus[p := request_bus multiple (bus ! p)])"
| "bus_step (Release p) bus = Inr (bus[p := release_bus (bus ! p)])"
| "bus_step (Hold p) bus = Inr (bus[p := snd (hold_bus (bus ! p))])"
| "bus_step (To_hold p) bus = res_bind (request_to_hold (bus ! p)) (\<lambda>(_, a). Inr (bus[p := a]))"
| "bus_step (Deadcycle which) bus = Inr (map (set_deadcycle which) bus)"
| "bus_step Reset_all bus = Inr (map arbiter_reset bus)"

fun event_ok :: "bus_event \<Rightarrow> bool" where
  "event_ok (Request p multiple) \<longleftrightarrow> p < 7"
| "event_ok (Release p) \<longleftrightarrow> p < 7"
| "event_ok (Hold p) \<longleftrightarrow> p < 7"
| "event_ok (To_hold p) \<longleftrightarrow> p < 7"
| "event_ok _ \<longleftrightarrow> True"

definition bus_new :: "arbiter list res" where
  "bus_new = res_fold (\<lambda>p bus. res_bind (arbiter_new p) (\<lambda>a. Inr (bus @ [a]))) [0..<7] []"

subsection \<open>The agreement of the arbiters\<close>

text \<open>
  \<open>bus_ok N g r bus\<close>: the arbiter of each port sees, turned by its own number, the registered
  requests \<open>N\<close> and the next holder \<open>g\<close>.
\<close>

definition port_ok :: "u8 list \<Rightarrow> nat \<Rightarrow> u8 \<Rightarrow> nat \<Rightarrow> arbiter \<Rightarrow> bool" where
  "port_ok N g r p a \<longleftrightarrow> arb_portID a = p \<and> arb_grnt_next a = int (below g p) \<and> arb_reset a = r \<and>
    arb_reqs_in_next a = map (\<lambda>i. N ! ((p + i) mod 7)) [0..<7] \<and>
    (\<exists>xs k. ca_wf (arb_reqs_in_curr a) xs k \<and> length xs = 7)"

definition bus_ok :: "u8 list \<Rightarrow> nat \<Rightarrow> u8 \<Rightarrow> arbiter list \<Rightarrow> bool" where
  "bus_ok N g r bus \<longleftrightarrow> g < 7 \<and> length N = 7 \<and> length bus = 7 \<and> (\<forall>p<7. port_ok N g r p (bus ! p))"

text \<open>What is registered next: during a reset nothing but, in its third cycle, a request of port 0.\<close>

definition next_lines :: "u8 list \<Rightarrow> u8 \<Rightarrow> arbiter list \<Rightarrow> u8 list" where
  "next_lines N r bus = (if r = 0 then map arb_req_out bus else if r = 3 then N[0 := 1] else N)"

lemma rotated_0: "p < 7 \<Longrightarrow> (i::nat) < 7 \<Longrightarrow> (p + i) mod 7 = 0 \<longleftrightarrow> i = (7 - p) mod 7"
proof -
  have t: "list_all (\<lambda>p. list_all (\<lambda>i. ((p + i) mod 7 = 0) = (i = (7 - p) mod 7)) [0..<7]) [0..<7 :: nat]" by code_simp
  show "p < 7 \<Longrightarrow> (i::nat) < 7 \<Longrightarrow> ?thesis" by (rule all_below_7 [OF all_below_7 [OF t]])
qed

lemma port_cycle:
  assumes "bus_ok N g r bus" and "p < 7"
  shows "\<exists>a. arbitrate (wires_of p bus) (bus ! p) = Inr a \<and>
    port_ok (next_lines N r bus) (winner (\<lambda>i. N ! i \<noteq> 0) g) (reset_count r) p a \<and>
    arb_grnt_curr a = int (below g p) \<and> arb_deadcycle a = arb_deadcycle (bus ! p) \<and> arb_req_out a = arb_req_out (bus ! p)"
proof -
  let ?a = "bus ! p"
  have b: "g < 7" "length N = 7" "length bus = 7" and a: "port_ok N g r p ?a" using assms by (auto simp: bus_ok_def)
  have ok: "arb_ok ?a" using a assms(2) by (simp add: port_ok_def arb_ok_def)
  have w: "winner (\<lambda>i. arb_reqs_in_next ?a ! i \<noteq> 0) (below g p) = below (winner (\<lambda>i. N ! i \<noteq> 0) g) p"
  proof -
    have "winner (\<lambda>i. arb_reqs_in_next ?a ! i \<noteq> 0) (below g p) = winner (\<lambda>i. N ! ((p + i) mod 7) \<noteq> 0) (below g p)"
      using a by (auto simp: winner_def port_ok_def intro!: find_cong_set option.case_cong simp del: upt_Suc)
    then show ?thesis using winner_rotate [OF assms(2) b(1)] by simp
  qed
  have "registered (wires_of p bus) ?a = map (\<lambda>i. next_lines N r bus ! ((p + i) mod 7)) [0..<7]"
  proof (cases "r = 0")
    case True
    have "[0..<7::nat] = 0 # [1..<7]" by (simp add: upt_conv_Cons)
    then show ?thesis using True a assms(2) b(3) by (simp add: registered_def port_ok_def wires_of_def next_lines_def)
  next
    case False
    then show ?thesis using a assms(2) b(2)
      by (auto simp: registered_def port_ok_def next_lines_def rotated_0 nth_list_update intro!: nth_equalityI simp del: upt_Suc)
  qed
  moreover obtain c k where "arbitrate (wires_of p bus) ?a = Inr (?a\<lparr>arb_grnt_curr := int (below g p),
      arb_reqs_in_next := registered (wires_of p bus) ?a, arb_reset := reset_count (arb_reset ?a), arb_reqs_in_curr := c,
      arb_grnt_next := int (winner (\<lambda>i. arb_reqs_in_next ?a ! i \<noteq> 0) (below g p))\<rparr>)" "ca_wf c (arb_reqs_in_next ?a) k"
    using arbitrate_ok [OF ok, of "wires_of p bus" "below g p"] a by (auto simp: port_ok_def wires_of_def)
  ultimately show ?thesis using a w by (auto simp: port_ok_def intro!: exI [of _ c] exI [of _ k])
qed

lemma build_list:
  assumes "\<forall>p<n. \<exists>a. f p = Inr a \<and> P p a"
  shows "\<exists>ys. res_fold (\<lambda>p ys. res_bind (f p) (\<lambda>a. Inr (ys @ [a]))) [0..<n] [] = Inr ys \<and> length ys = n \<and> (\<forall>p<n. P p (ys ! p))"
  using assms
proof (induction n)
  case (Suc n)
  obtain ys where "res_fold (\<lambda>p ys. res_bind (f p) (\<lambda>a. Inr (ys @ [a]))) [0..<n] [] = Inr ys" "length ys = n" "\<forall>p<n. P p (ys ! p)"
    using Suc by auto
  moreover obtain a where "f n = Inr a" "P n a" using Suc.prems by auto
  ultimately show ?case by (auto simp: res_fold_append nth_append less_Suc_eq)
qed simp

lemma cycle_ok:
  assumes "bus_ok N g r bus"
  shows "\<exists>bus'. bus_cycle bus = Inr bus' \<and> bus_ok (next_lines N r bus) (winner (\<lambda>i. N ! i \<noteq> 0) g) (reset_count r) bus' \<and>
    map arb_req_out bus' = map arb_req_out bus \<and> map arb_deadcycle bus' = map arb_deadcycle bus \<and>
    (\<forall>p<7. arb_grnt_curr (bus' ! p) = int (below g p))"
proof -
  have b: "g < 7" "length N = 7" "length bus = 7" using assms by (auto simp: bus_ok_def)
  define P where "P p a \<longleftrightarrow> port_ok (next_lines N r bus) (winner (\<lambda>i. N ! i \<noteq> 0) g) (reset_count r) p a \<and>
    arb_grnt_curr a = int (below g p) \<and> arb_deadcycle a = arb_deadcycle (bus ! p) \<and> arb_req_out a = arb_req_out (bus ! p)" for p a
  have "\<forall>p<7. \<exists>a. arbitrate (wires_of p bus) (bus ! p) = Inr a \<and> P p a"
    unfolding P_def by (intro allI impI) (rule port_cycle [OF assms])
  from build_list [OF this] obtain bus' where bus': "bus_cycle bus = Inr bus'" "length bus' = 7" "\<forall>p<7. P p (bus' ! p)"
    unfolding bus_cycle_def by blast
  moreover have "length (next_lines N r bus) = 7" using b by (simp add: next_lines_def)
  ultimately show ?thesis using b unfolding P_def by (auto simp: bus_ok_def intro!: nth_equalityI)
qed

lemma any_request_ok:
  assumes "ca_wf c xs k" and "\<forall>i\<in>set is. i < length xs"
  shows "\<exists>b c' k'. any_request is c = Inr (b, c') \<and> ca_wf c' xs k'"
  using assms
proof (induction "is" arbitrary: c k)
  case (Cons i "is")
  obtain c1 where c1: "ca_get_at (int i) c = Inr (xs ! i, c1)" "ca_wf c1 xs i"
    using ring.get_at [OF Cons.prems(1), of i] Cons.prems(2) by auto
  show ?case
  proof (cases "xs ! i = 0")
    case True
    then show ?thesis using Cons.IH [OF c1(2)] Cons.prems(2) c1(1) by simp
  next
    case False
    then show ?thesis using c1 by auto
  qed
qed auto

lemma request_to_hold_ok:
  assumes "port_ok N g r p a"
  shows "\<exists>h a'. request_to_hold a = Inr (h, a') \<and> port_ok N g r p a'"
proof (cases "has_grant a")
  case True
  obtain xs k where xs: "ca_wf (arb_reqs_in_curr a) xs k" "length xs = 7" using assms by (auto simp: port_ok_def)
  then obtain b c' k' where "any_request [1..<7] (arb_reqs_in_curr a) = Inr (b, c')" "ca_wf c' xs k'"
    using any_request_ok [OF xs(1), of "[1..<7]"] by auto
  then show ?thesis using True assms xs(2)
    by (cases b) (auto simp: request_to_hold_def G_MAXPORTS_def port_ok_def simp del: upt_Suc)
next
  case False
  then show ?thesis using assms by (intro exI [of _ False] exI [of _ a]) (simp add: request_to_hold_def)
qed

lemma bus_ok_update:
  assumes "bus_ok N g r bus" and "port_ok N g r p (bus ! p) \<Longrightarrow> port_ok N g r p a"
  shows "bus_ok N g r (bus[p := a])"
  using assms by (cases "p < 7") (auto simp: bus_ok_def nth_list_update)

lemma step_ok:
  assumes "bus_ok N g r bus" and "event_ok e"
  shows "\<exists>N' g' r' bus'. bus_step e bus = Inr bus' \<and> bus_ok N' g' r' bus'"
proof (cases e)
  case Cycle
  then show ?thesis using cycle_ok [OF assms(1)] by auto
next
  case (Request p multiple)
  have "bus_ok N g r (bus[p := request_bus multiple (bus ! p)])"
    by (rule bus_ok_update [OF assms(1)]) (simp add: port_ok_def request_bus_def)
  then show ?thesis using Request by auto
next
  case (Release p)
  have "bus_ok N g r (bus[p := release_bus (bus ! p)])"
    by (rule bus_ok_update [OF assms(1)]) (simp add: port_ok_def release_bus_def)
  then show ?thesis using Release by auto
next
  case (Hold p)
  have "bus_ok N g r (bus[p := snd (hold_bus (bus ! p))])"
    by (rule bus_ok_update [OF assms(1)]) (simp add: port_ok_def hold_bus_def)
  then show ?thesis using Hold by auto
next
  case (To_hold p)
  then have "port_ok N g r p (bus ! p)" using assms by (simp add: bus_ok_def)
  then obtain h a where a: "request_to_hold (bus ! p) = Inr (h, a)" "port_ok N g r p a" using request_to_hold_ok by blast
  have "bus_ok N g r (bus[p := a])" by (rule bus_ok_update [OF assms(1)]) (rule a(2))
  then show ?thesis using To_hold a(1) by auto
next
  case (Deadcycle which)
  have "bus_ok N g r (map (set_deadcycle which) bus)"
    using assms(1) by (auto simp: bus_ok_def port_ok_def set_deadcycle_def)
  then show ?thesis using Deadcycle by auto
next
  case Reset_all
  have z: "replicate 7 0 = map (\<lambda>i. replicate 7 0 ! ((p + i) mod 7)) [0..<7 :: nat]" for p
    by (rule nth_equalityI) simp_all
  have p: "below 0 p = (if p = 0 then 0 else 7 - p)" if "p < 7" for p using that by (simp add: below_def)
  have "port_ok (replicate 7 0) 0 (r + 1) p (arbiter_reset a)" if "p < 7" "port_ok N g r p a" for p a
    using that z [of p] p [of p] by (auto simp: port_ok_def arbiter_reset_def Let_def G_MAXPORTS_def)
  then have "bus_ok (replicate 7 0) 0 (r + 1) (map arbiter_reset bus)"
    using assms(1) by (auto simp: bus_ok_def)
  then show ?thesis using Reset_all by auto
qed

lemma new_port_ok:
  assumes p: "p < 7"
  shows "\<exists>a. arbiter_new p = Inr a \<and> port_ok (replicate 7 (- 1)) 0 0 p a"
proof -
  obtain c where c: "ca_new (0 :: u8) 7 = Inr c" "ca_wf c (replicate 7 0) 0" using ca_new_ok [of 7 0] by auto
  obtain c' k where c': "res_fold (\<lambda>i. ca_put_at (int i) (replicate 7 (- 1) ! i)) [0..<7] c = Inr c'"
      "ca_wf c' (foldl (\<lambda>xs i. xs[i := replicate 7 (- 1) ! i]) (replicate 7 0) [0..<7]) k"
    using ring.puts [OF c(2), of "[0..<7]" "replicate 7 (- 1)"] by (auto)
  have "length (foldl (\<lambda>xs i. xs[i := replicate 7 (- 1 :: u8) ! i]) (replicate 7 0) [0..<7]) = 7"
    by (subst update_all) simp_all
  moreover have "res_fold (\<lambda>i. ca_put_at (int i) (- 1)) [0..<7] c = Inr c'"
    using c'(1) by (subst res_fold_cong [of _ _ "\<lambda>i. ca_put_at (int i) (replicate 7 (- 1) ! i)"]) simp_all
  moreover have "replicate 7 (- 1 :: u8) = map (\<lambda>i. replicate 7 (- 1) ! ((p + i) mod 7)) [0..<7 :: nat]"
    by (rule nth_equalityI) simp_all
  moreover have "below 0 p = (if p = 0 then 0 else 7 - p)" using p by (simp add: below_def)
  ultimately show ?thesis using c(1) c'(2) p
    by (auto simp: arbiter_new_def G_MAXPORTS_def port_ok_def simp del: upt_Suc)
qed

lemma new_ok: "\<exists>bus. bus_new = Inr bus \<and> bus_ok (replicate 7 (- 1)) 0 0 bus"
  using build_list [of 7 arbiter_new "port_ok (replicate 7 (- 1)) 0 0"] new_port_ok unfolding bus_new_def bus_ok_def by auto

lemma reachable_ok:
  assumes "bus_ok N g r bus" and "\<forall>e\<in>set es. event_ok e"
  shows "\<exists>N' g' r' bus'. res_fold bus_step es bus = Inr bus' \<and> bus_ok N' g' r' bus'"
  using assms
proof (induction es arbitrary: N g r bus)
  case (Cons e es)
  obtain N1 g1 r1 bus1 where "bus_step e bus = Inr bus1" "bus_ok N1 g1 r1 bus1"
    using step_ok [OF Cons.prems(1), of e] Cons.prems(2) by auto
  then show ?case using Cons.IH [of N1 g1 r1 bus1] Cons.prems(2) by simp
qed auto

subsection \<open>Runs\<close>

text \<open>Between the cycles every master requests the bus or releases it.\<close>

definition drive :: "bool list \<Rightarrow> arbiter list \<Rightarrow> arbiter list" where
  "drive rs bus = map2 (\<lambda>b a. if b then request_bus 0 a else release_bus a) rs bus"

definition bus_run :: "bool list list \<Rightarrow> arbiter list \<Rightarrow> arbiter list res" where
  "bus_run = res_fold (\<lambda>rs bus. bus_cycle (drive rs bus))"

text \<open>The specification: the requests registered, who has the bus next and who has it now.\<close>

type_synonym grant_state = "bool list \<times> nat \<times> nat"

definition grant_step :: "bool list \<Rightarrow> grant_state \<Rightarrow> grant_state" where
  "grant_step rs s = (rs, winner ((!) (fst s)) (fst (snd s)), fst (snd s))"

definition bus_is :: "grant_state \<Rightarrow> arbiter list \<Rightarrow> bool" where
  "bus_is s bus \<longleftrightarrow> (\<exists>N. fst s = map (\<lambda>x. x \<noteq> 0) N \<and> bus_ok N (fst (snd s)) 0 bus) \<and>
    snd (snd s) < 7 \<and> (\<forall>p<7. arb_grnt_curr (bus ! p) = int (below (snd (snd s)) p))"

lemma winner_cong: "(\<And>i. i < 7 \<Longrightarrow> P i = Q i) \<Longrightarrow> winner P g = winner Q g"
  by (auto simp: winner_def intro!: option.case_cong find_cong_set simp del: upt_Suc)

lemma drive_ok:
  assumes "bus_ok N g r bus" and "length rs = 7"
  shows "bus_ok N g r (drive rs bus)" "map arb_req_out (drive rs bus) = map of_bool rs"
proof -
  have "length bus = 7" using assms(1) by (simp add: bus_ok_def)
  then show "bus_ok N g r (drive rs bus)" "map arb_req_out (drive rs bus) = map of_bool rs"
    using assms by (auto simp: bus_ok_def drive_def port_ok_def request_bus_def release_bus_def intro!: nth_equalityI)
qed

lemma run_step:
  assumes "bus_ok N g 0 bus" and "length rs = 7"
  shows "\<exists>bus'. bus_cycle (drive rs bus) = Inr bus' \<and> bus_is (rs, winner (\<lambda>i. N ! i \<noteq> 0) g, g) bus'"
proof -
  obtain bus' where b: "bus_cycle (drive rs bus) = Inr bus'"
      "bus_ok (map of_bool rs) (winner (\<lambda>i. N ! i \<noteq> 0) g) 0 bus'" "\<forall>p<7. arb_grnt_curr (bus' ! p) = int (below g p)"
    using cycle_ok [OF drive_ok(1) [OF assms]] drive_ok(2) [OF assms] by (auto simp: next_lines_def reset_count_def)
  moreover have "rs = map (\<lambda>x. x \<noteq> (0 :: u8)) (map of_bool rs)" by (simp add: o_def)
  moreover have "g < 7" using assms(1) by (simp add: bus_ok_def)
  ultimately have "bus_is (rs, winner (\<lambda>i. N ! i \<noteq> 0) g, g) bus'"
    unfolding bus_is_def by (intro conjI exI [of _ "map of_bool rs"]) simp_all
  then show ?thesis using b(1) by blast
qed

lemma run_refines:
  assumes "bus_is s bus" and "\<forall>rs\<in>set rss. length rs = 7"
  shows "\<exists>bus'. bus_run rss bus = Inr bus' \<and> bus_is (fold grant_step rss s) bus'"
  using assms
proof (induction rss arbitrary: s bus)
  case (Cons rs rss)
  obtain N where N: "fst s = map (\<lambda>x. x \<noteq> 0) N" "bus_ok N (fst (snd s)) 0 bus" using Cons.prems(1) by (auto simp: bus_is_def)
  have "length N = 7" using N(2) by (simp add: bus_ok_def)
  then have "winner (\<lambda>i. N ! i \<noteq> 0) (fst (snd s)) = winner ((!) (fst s)) (fst (snd s))"
    by (intro winner_cong) (simp add: N(1))
  then obtain bus1 where "bus_cycle (drive rs bus) = Inr bus1" "bus_is (grant_step rs s) bus1"
    using run_step [OF N(2), of rs] Cons.prems(2) by (auto simp: grant_step_def)
  then show ?case using Cons.IH [of "grant_step rs s" bus1] Cons.prems(2) by (simp add: bus_run_def)
qed (simp add: bus_run_def)

subsection \<open>Waiting for the bus\<close>

lemma winner_keeps: "g < 7 \<Longrightarrow> R g \<Longrightarrow> winner R g = g"
  by (simp add: winner_def upt_conv_Cons)

lemma winner_closer:
  assumes "g < 7" and "q < 7" and "R q"
  shows "below (winner R g) q \<le> below g q" "\<not> R g \<Longrightarrow> below (winner R g) q < below g q"
proof -
  let ?e = "below g q"
  have "R (below g ?e)" using below_below [OF assms(1,2)] assms(3) by simp
  then obtain d where d: "List.find (R \<circ> below g) [0..<7] = Some d" "R (below g d)" "d \<le> ?e" "d < 7"
  proof (cases "List.find (R \<circ> below g) [0..<7]")
    case None
    then show ?thesis using \<open>R (below g ?e)\<close> by (auto simp: find_None_iff)
  next
    case (Some d)
    then have "R (below g d)" "d < 7" "\<forall>j<d. \<not> R (below g j)" by (auto simp: find_Some_iff)
    moreover from this \<open>R (below g ?e)\<close> have "d \<le> ?e" by (meson not_less)
    ultimately show ?thesis using Some that by blast
  qed
  then have w: "winner R g = below g d" by (simp add: winner_def find_map del: upt_Suc)
  then have "below (winner R g) q = ?e - d" using below_distance [OF assms(1,2) d(4,3)] by simp
  then show "below (winner R g) q \<le> ?e" by simp
  show "below (winner R g) q < ?e" if "\<not> R g"
  proof -
    have "d \<noteq> 0" using that d(2) assms(1) by (intro notI) simp
    then show ?thesis using \<open>below (winner R g) q = ?e - d\<close> d(3) by simp
  qed
qed

abbreviation grants :: "bool list list \<Rightarrow> nat \<Rightarrow> nat" where
  "grants \<equiv> fold (\<lambda>R. winner ((!) R))"

lemma grants_less: "g < 7 \<Longrightarrow> grants Rs g < 7"
  by (induction Rs arbitrary: g) simp_all

lemma grants_keep: "g < 7 \<Longrightarrow> \<forall>R\<in>set Rs. R ! g \<Longrightarrow> grants Rs g = g"
  by (induction Rs) (simp_all add: winner_keeps)

lemma grants_mono:
  "g < 7 \<Longrightarrow> q < 7 \<Longrightarrow> \<forall>R\<in>set Rs. R ! q \<Longrightarrow> below (grants Rs g) q \<le> below g q"
proof (induction Rs arbitrary: g)
  case (Cons R Rs)
  then have "below (grants Rs (winner ((!) R) g)) q \<le> below (winner ((!) R) g) q" by simp
  also have "\<dots> \<le> below g q" using winner_closer(1) [of g q "(!) R"] Cons.prems by simp
  finally show ?case by simp
qed simp

lemma grants_closer:
  assumes "g < 7" and "q < 7" and "\<forall>R\<in>set Rs. R ! q" and "\<exists>R\<in>set Rs. \<not> R ! g"
  shows "below (grants Rs g) q < below g q"
  using assms
proof (induction Rs arbitrary: g)
  case (Cons R Rs)
  show ?case
  proof (cases "R ! g")
    case True
    then show ?thesis using Cons by (simp add: winner_keeps)
  next
    case False
    have "below (grants Rs (winner ((!) R) g)) q \<le> below (winner ((!) R) g) q"
      using grants_mono [of "winner ((!) R) g" q Rs] Cons.prems by simp
    also have "\<dots> < below g q" using winner_closer(2) [of g q "(!) R"] Cons.prems False by simp
    finally show ?thesis by simp
  qed
qed simp

lemma grants_reach:
  assumes "g < 7" and "q < 7" and "\<forall>Rs\<in>set W. \<forall>R\<in>set Rs. R ! q"
    and "\<forall>Rs\<in>set W. \<forall>p<7. p \<noteq> q \<longrightarrow> (\<exists>R\<in>set Rs. \<not> R ! p)" and "below g q \<le> length W"
  shows "grants (concat W) g = q"
  using assms
proof (induction W arbitrary: g)
  case Nil
  then have "below g (below g q) = g" by simp
  then show ?case using below_below [OF Nil.prems(1,2)] by simp
next
  case (Cons Rs W)
  have "below (grants Rs g) q \<le> length W"
  proof (cases "g = q")
    case True
    then show ?thesis using grants_keep [of g Rs] Cons.prems by (simp add: below_def)
  next
    case False
    then show ?thesis using grants_closer [of g q Rs] Cons.prems by force
  qed
  then show ?case using Cons.IH [of "grants Rs g"] Cons.prems grants_less [of g Rs] by simp
qed

lemma grant_steps:
  "rss \<noteq> [] \<Longrightarrow> fold grant_step rss (N, g, h) =
    (last rss, grants (N # butlast rss) g, grants (butlast (N # butlast rss)) g)"
proof (induction rss arbitrary: N g h)
  case (Cons rs rss)
  then show ?case by (cases rss) (simp_all add: grant_step_def)
qed simp

end
