(* ===== verification/Sjm_Dlist.thy ===== *)
theory Sjm_Dlist
  imports Cpp_Heap
begin

text \<open>
  The ordered doubly linked list of the bus model (\<^verbatim>\<open>common/c/DoubleLinkedList.cc\<close>): nodes with a key
  and a pointer, and a location that searches start from and leave at or next to the key. A null
  pointer is \<open>None\<close>; a pointer stands for what it leads to. The search has fuel for two turns more
  than there are nodes, as one of a well formed list needs at most one for each.
\<close>

type_synonym u16 = "16 word"

datatype 'p dll_node = Dll_node (dn_data: u16) (dn_ptr: "'p option") (dn_prev: "nat option") (dn_next: "nat option")

datatype 'p dlist = Dlist (dl_heap: "'p dll_node option list") (dl_head: "nat option") (dl_tail: "nat option")
  (dl_loc: "nat option") (dl_size: int)

definition dlist_new :: "'p dlist" where
  "dlist_new = Dlist [] None None None 0"

definition dlist_empty :: "'p dlist \<Rightarrow> bool" where
  "dlist_empty l \<longleftrightarrow> dl_head l = None"

fun set_ptr :: "'p option \<Rightarrow> 'p dll_node \<Rightarrow> 'p dll_node" where
  "set_ptr x (Dll_node d p u v) = Dll_node d x u v"

fun link_prev :: "nat option \<Rightarrow> 'p dll_node \<Rightarrow> 'p dll_node" where
  "link_prev x (Dll_node d p u v) = Dll_node d p x v"

fun link_next :: "nat option \<Rightarrow> 'p dll_node \<Rightarrow> 'p dll_node" where
  "link_next x (Dll_node d p u v) = Dll_node d p u x"

fun move_loc :: "nat option \<Rightarrow> 'p dlist \<Rightarrow> 'p dlist" where
  "move_loc x (Dlist h a b c n) = Dlist h a b x n"

fun find_from :: "nat \<Rightarrow> u16 \<Rightarrow> 'p dlist \<Rightarrow> ('p option \<times> 'p dlist) res" where
  "find_from 0 dfind l = Inl Diverges"
| "find_from (Suc fuel) dfind l =
    res_bind (deref (dl_heap l) (dl_loc l)) (\<lambda>n.
    if dn_data n = dfind then Inr (dn_ptr n, l)
    else if dn_data n > dfind \<and> dn_prev n = None \<or> dn_data n < dfind \<and> dn_next n = None then Inr (None, l)
    else if dn_data n < dfind then
      res_bind (deref (dl_heap l) (dn_next n)) (\<lambda>m.
      if dn_data m > dfind then Inr (None, l) else find_from fuel dfind (move_loc (dn_next n) l))
    else
      res_bind (deref (dl_heap l) (dn_prev n)) (\<lambda>m.
      if dn_data m < dfind then Inr (None, l) else find_from fuel dfind (move_loc (dn_prev n) l)))"

definition find_ptr :: "u16 \<Rightarrow> 'p dlist \<Rightarrow> ('p option \<times> 'p dlist) res" where
  "find_ptr dfind l = (if dlist_empty l then Inr (None, l) else find_from (length (dl_heap l) + 2) dfind l)"

text \<open>The three kinds of insertion: into an empty list, before or after the location.\<close>

definition insert_before :: "u16 \<Rightarrow> 'p option \<Rightarrow> 'p dlist \<Rightarrow> 'p dlist res" where
  "insert_before din pin l =
    (let p = length (dl_heap l); loc = dl_loc l
     in res_bind (deref (dl_heap l) loc) (\<lambda>n.
        if loc = dl_head l then
          res_bind (update_at loc (link_prev (Some p)) (dl_heap l @ [Some (Dll_node din pin None loc)])) (\<lambda>h.
          Inr (Dlist h (Some p) (dl_tail l) (Some p) (dl_size l + 1)))
        else
          res_bind (update_at (dn_prev n) (link_next (Some p)) (dl_heap l @ [Some (Dll_node din pin (dn_prev n) loc)])) (\<lambda>h.
          res_bind (update_at loc (link_prev (Some p)) h) (\<lambda>h.
          Inr (Dlist h (dl_head l) (dl_tail l) (Some p) (dl_size l + 1))))))"

definition insert_after :: "u16 \<Rightarrow> 'p option \<Rightarrow> 'p dlist \<Rightarrow> 'p dlist res" where
  "insert_after din pin l =
    (let p = length (dl_heap l); loc = dl_loc l
     in res_bind (deref (dl_heap l) loc) (\<lambda>n.
        if loc = dl_tail l then
          res_bind (update_at loc (link_next (Some p)) (dl_heap l @ [Some (Dll_node din pin loc None)])) (\<lambda>h.
          Inr (Dlist h (dl_head l) (Some p) (Some p) (dl_size l + 1)))
        else
          res_bind (update_at (dn_next n) (link_prev (Some p)) (dl_heap l @ [Some (Dll_node din pin loc (dn_next n))])) (\<lambda>h.
          res_bind (update_at loc (link_next (Some p)) h) (\<lambda>h.
          Inr (Dlist h (dl_head l) (dl_tail l) (Some p) (dl_size l + 1))))))"

text \<open>An assignment to the pointer of the node at the location.\<close>

definition set_loc_ptr :: "'p \<Rightarrow> 'p dlist \<Rightarrow> 'p dlist res" where
  "set_loc_ptr x l =
    res_bind (update_at (dl_loc l) (set_ptr (Some x)) (dl_heap l)) (\<lambda>h.
    Inr (Dlist h (dl_head l) (dl_tail l) (dl_loc l) (dl_size l)))"

definition dlist_insert :: "u16 \<Rightarrow> 'p \<Rightarrow> 'p dlist \<Rightarrow> 'p dlist res" where
  "dlist_insert din pin l =
    (if dlist_empty l then
       let p = Some (length (dl_heap l)) in Inr (Dlist (dl_heap l @ [Some (Dll_node din (Some pin) None None)]) p p p (dl_size l + 1))
     else
       res_bind (find_ptr din l) (\<lambda>(pfound, l).
       case pfound of
         Some _ \<Rightarrow> set_loc_ptr pin l
       | None \<Rightarrow>
           res_bind (deref (dl_heap l) (dl_loc l)) (\<lambda>n.
           if dn_data n > din then insert_before din (Some pin) l else insert_after din (Some pin) l)))"

definition remove_node :: "'p dlist \<Rightarrow> 'p dlist res" where
  "remove_node l =
    (let loc = dl_loc l; h = dl_heap l
     in res_bind (deref h loc) (\<lambda>n.
        if loc = dl_head l \<and> loc = dl_tail l then Inr (Dlist (delete_at loc h) None None None (dl_size l - 1))
        else if loc = dl_head l then
          res_bind (update_at (dn_next n) (link_prev None) h) (\<lambda>h.
          Inr (Dlist (delete_at loc h) (dn_next n) (dl_tail l) (dn_next n) (dl_size l - 1)))
        else if loc = dl_tail l then
          res_bind (update_at (dn_prev n) (link_next None) h) (\<lambda>h.
          Inr (Dlist (delete_at loc h) (dl_head l) (dn_prev n) (dn_prev n) (dl_size l - 1)))
        else
          res_bind (update_at (dn_prev n) (link_next (dn_next n)) h) (\<lambda>h.
          res_bind (update_at (dn_next n) (link_prev (dn_prev n)) h) (\<lambda>h.
          Inr (Dlist (delete_at loc h) (dl_head l) (dl_tail l) (dn_prev n) (dl_size l - 1))))))"

definition dlist_remove :: "u16 \<Rightarrow> 'p dlist \<Rightarrow> (bool \<times> 'p dlist) res" where
  "dlist_remove dout l =
    res_bind (find_ptr dout l) (\<lambda>(p, l).
    case p of None \<Rightarrow> Inr (False, l) | Some _ \<Rightarrow> res_bind (remove_node l) (\<lambda>l. Inr (True, l)))"

definition num_nodes :: "'p dlist \<Rightarrow> int" where
  "num_nodes l = dl_size l"

subsection \<open>The nodes in order\<close>

text \<open>\<open>dl_nodes h is ps\<close>: the nodes at the addresses \<open>is\<close> are linked in both directions and hold \<open>ps\<close>.\<close>

definition node_of :: "nat list \<Rightarrow> (u16 \<times> 'p) list \<Rightarrow> nat \<Rightarrow> 'p dll_node" where
  "node_of is ps j = Dll_node (fst (ps ! j)) (Some (snd (ps ! j))) (if j = 0 then None else Some (is ! (j - 1)))
    (if Suc j < length is then Some (is ! Suc j) else None)"

definition dl_nodes :: "'p dll_node option list \<Rightarrow> nat list \<Rightarrow> (u16 \<times> 'p) list \<Rightarrow> bool" where
  "dl_nodes h is ps \<longleftrightarrow> length is = length ps \<and> distinct is \<and> (\<forall>j<length is. deref h (Some (is ! j)) = Inr (node_of is ps j))"

definition dl_wf :: "'p dlist \<Rightarrow> nat list \<Rightarrow> (u16 \<times> 'p) list \<Rightarrow> nat \<Rightarrow> bool" where
  "dl_wf l is ps k \<longleftrightarrow> dl_nodes (dl_heap l) is ps \<and> k < length is \<and> sorted_wrt (<) (map fst ps) \<and>
    dl_head l = Some (hd is) \<and> dl_tail l = Some (last is) \<and> dl_loc l = Some (is ! k)"

definition at_gap :: "u16 \<Rightarrow> (u16 \<times> 'p) list \<Rightarrow> nat \<Rightarrow> bool" where
  "at_gap d ps k \<longleftrightarrow> fst (ps ! k) < d \<and> (Suc k < length ps \<longrightarrow> d < fst (ps ! Suc k)) \<or>
    d < fst (ps ! k) \<and> (0 < k \<longrightarrow> fst (ps ! (k - 1)) < d)"

lemma keys_less:
  fixes ps :: "(u16 \<times> 'p) list"
  shows "sorted_wrt (<) (map fst ps) \<Longrightarrow> i < j \<Longrightarrow> j < length ps \<Longrightarrow> fst (ps ! i) < fst (ps ! j)"
  using sorted_wrt_nth_less [of "(<)" "map fst ps" i j] by simp

lemma keys_le:
  fixes ps :: "(u16 \<times> 'p) list"
  shows "sorted_wrt (<) (map fst ps) \<Longrightarrow> i \<le> j \<Longrightarrow> j < length ps \<Longrightarrow> fst (ps ! i) \<le> fst (ps ! j)"
  using keys_less [of ps i j] by (cases "i = j") auto

lemma keys_distinct:
  fixes ps :: "(u16 \<times> 'p) list"
  shows "sorted_wrt (<) (map fst ps) \<Longrightarrow> distinct (map fst ps)"
  using strict_sorted_iff by blast

lemma find_key:
  fixes ps :: "(u16 \<times> 'p) list"
  shows "sorted_wrt (<) (map fst ps) \<Longrightarrow> k < length ps \<Longrightarrow> map_of ps (fst (ps ! k)) = Some (snd (ps ! k))"
  by (intro map_of_is_SomeI keys_distinct) auto

lemma gap_key:
  assumes "sorted_wrt (<) (map fst ps)" and "k < length ps" and "at_gap d ps k"
  shows "map_of ps d = None"
proof -
  have "d \<noteq> fst (ps ! i)" if i: "i < length ps" for i
    using assms(3) unfolding at_gap_def
  proof (elim disjE conjE)
    assume a: "fst (ps ! k) < d" "Suc k < length ps \<longrightarrow> d < fst (ps ! Suc k)"
    show ?thesis
    proof (cases "i \<le> k")
      case True
      then show ?thesis using a(1) keys_le [OF assms(1) True assms(2)] by auto
    next
      case False
      then have "d < fst (ps ! Suc k)" "fst (ps ! Suc k) \<le> fst (ps ! i)" using a(2) keys_le [OF assms(1), of "Suc k" i] i by auto
      then show ?thesis by auto
    qed
  next
    assume a: "d < fst (ps ! k)" "0 < k \<longrightarrow> fst (ps ! (k - 1)) < d"
    show ?thesis
    proof (cases "k \<le> i")
      case True
      then show ?thesis using a(1) keys_le [OF assms(1) True i] by auto
    next
      case False
      then have "fst (ps ! (k - 1)) < d" "fst (ps ! i) \<le> fst (ps ! (k - 1))"
        using a(2) keys_le [OF assms(1), of i "k - 1"] assms(2) by auto
      then show ?thesis by auto
    qed
  qed
  then have "d \<notin> fst ` set ps" by (auto simp: in_set_conv_nth) (metis fst_conv)
  then show ?thesis by (simp add: map_of_eq_None_iff)
qed

lemma heap_large:
  assumes "dl_nodes h is ps"
  shows "length is \<le> length h"
proof -
  have "set is \<subseteq> {0..<length h}"
  proof
    fix i assume "i \<in> set is"
    then obtain j where "j < length is" "i = is ! j" by (auto simp: in_set_conv_nth)
    then have "deref h (Some i) = Inr (node_of is ps j)" using assms by (simp add: dl_nodes_def)
    then show "i \<in> {0..<length h}" using deref_less by fastforce
  qed
  then have "card (set is) \<le> length h" using card_mono [of "{0..<length h}" "set is"] by simp
  then show ?thesis using assms by (simp add: dl_nodes_def distinct_card)
qed

lemma move_wf [simp]: "dl_wf l is ps k \<Longrightarrow> k' < length is \<Longrightarrow> dl_wf (move_loc (Some (is ! k')) l) is ps k'"
  by (cases l) (simp add: dl_wf_def)

lemma find_right:
  assumes "dl_wf l is ps k" and "fst (ps ! k) \<le> d" and "length is - k < fuel"
  shows "\<exists>k' l'. find_from fuel d l = Inr (map_of ps d, l') \<and> dl_wf l' is ps k' \<and>
    (if map_of ps d = None then at_gap d ps k' else fst (ps ! k') = d)"
  using assms
proof (induction fuel arbitrary: k l)
  case (Suc fuel)
  have w: "k < length ps" "length is = length ps" "sorted_wrt (<) (map fst ps)" "deref (dl_heap l) (dl_loc l) = Inr (node_of is ps k)"
      "\<And>j. j < length is \<Longrightarrow> deref (dl_heap l) (Some (is ! j)) = Inr (node_of is ps j)"
    using Suc.prems(1) by (auto simp: dl_wf_def dl_nodes_def)
  consider "fst (ps ! k) = d" | "fst (ps ! k) < d" "Suc k < length is \<longrightarrow> d < fst (ps ! Suc k)" |
      "fst (ps ! k) < d" "Suc k < length is" "fst (ps ! Suc k) \<le> d" using Suc.prems(2) by force
  then show ?case
  proof cases
    case 1
    then show ?thesis using Suc.prems(1) w(4) find_key [OF w(3,1)] by (auto simp: node_of_def)
  next
    case 2
    then have g: "at_gap d ps k" using w(2) by (simp add: at_gap_def)
    have "find_from (Suc fuel) d l = Inr (None, l)"
      using 2 w(4) w(5) [of "Suc k"] by (auto simp: node_of_def)
    then show ?thesis using gap_key [OF w(3,1) g] g Suc.prems(1) by auto
  next
    case 3
    have "find_from (Suc fuel) d l = find_from fuel d (move_loc (Some (is ! Suc k)) l)"
      using 3 w(4) w(5) [of "Suc k"] by (auto simp: node_of_def)
    then show ?thesis using Suc.IH [OF move_wf [OF Suc.prems(1) 3(2)] 3(3)] Suc.prems(3) 3(2) by simp
  qed
qed simp

lemma find_left:
  assumes "dl_wf l is ps k" and "d \<le> fst (ps ! k)" and "k + 1 < fuel"
  shows "\<exists>k' l'. find_from fuel d l = Inr (map_of ps d, l') \<and> dl_wf l' is ps k' \<and>
    (if map_of ps d = None then at_gap d ps k' else fst (ps ! k') = d)"
  using assms
proof (induction fuel arbitrary: k l)
  case (Suc fuel)
  have w: "k < length ps" "length is = length ps" "sorted_wrt (<) (map fst ps)" "deref (dl_heap l) (dl_loc l) = Inr (node_of is ps k)"
      "\<And>j. j < length is \<Longrightarrow> deref (dl_heap l) (Some (is ! j)) = Inr (node_of is ps j)"
    using Suc.prems(1) by (auto simp: dl_wf_def dl_nodes_def)
  consider "fst (ps ! k) = d" | "d < fst (ps ! k)" "0 < k \<longrightarrow> fst (ps ! (k - 1)) < d" |
      "d < fst (ps ! k)" "0 < k" "d \<le> fst (ps ! (k - 1))" using Suc.prems(2) by force
  then show ?case
  proof cases
    case 1
    then show ?thesis using Suc.prems(1) w(4) find_key [OF w(3,1)] by (auto simp: node_of_def)
  next
    case 2
    then have g: "at_gap d ps k" by (simp add: at_gap_def)
    have "find_from (Suc fuel) d l = Inr (None, l)"
      using 2 w(1,2,4) w(5) [of "k - 1"] by (auto simp: node_of_def)
    then show ?thesis using gap_key [OF w(3,1) g] g Suc.prems(1) by auto
  next
    case 3
    have k: "k - 1 < length is" using w(1,2) by simp
    have "find_from (Suc fuel) d l = find_from fuel d (move_loc (Some (is ! (k - 1))) l)"
      using 3 w(1,2,4) w(5) [of "k - 1"] by (auto simp: node_of_def)
    then show ?thesis using Suc.IH [OF move_wf [OF Suc.prems(1) k] 3(3)] Suc.prems(3) 3(2) by simp
  qed
qed simp

lemma find_ptr_ok:
  assumes "dl_wf l is ps k"
  shows "\<exists>k' l'. find_ptr d l = Inr (map_of ps d, l') \<and> dl_wf l' is ps k' \<and>
    (if map_of ps d = None then at_gap d ps k' else fst (ps ! k') = d)"
proof -
  have w: "\<not> dlist_empty l" "length is \<le> length (dl_heap l)" "k < length is"
    using assms heap_large by (auto simp: dl_wf_def dlist_empty_def)
  show ?thesis
  proof (cases "fst (ps ! k) \<le> d")
    case True
    then show ?thesis using find_right [OF assms True, of "length (dl_heap l) + 2"] w by (simp add: find_ptr_def del: find_from.simps)
  next
    case False
    then show ?thesis using find_left [OF assms, of d "length (dl_heap l) + 2"] w by (simp add: find_ptr_def del: find_from.simps)
  qed
qed

subsection \<open>Changes\<close>

lemma set_loc_ok:
  assumes "dl_wf l is ps k"
  shows "\<exists>l'. set_loc_ptr x l = Inr l' \<and> dl_wf l' is (ps[k := (fst (ps ! k), x)]) k"
proof -
  let ?ps = "ps[k := (fst (ps ! k), x)]"
  have w: "dl_nodes (dl_heap l) is ps" "k < length is" "length is = length ps" "distinct is"
      "dl_loc l = Some (is ! k)" "deref (dl_heap l) (Some (is ! k)) = Inr (node_of is ps k)"
    using assms by (auto simp: dl_wf_def dl_nodes_def)
  have less: "is ! k < length (dl_heap l)" using deref_less [OF w(6)] .
  define h where "h = (dl_heap l)[is ! k := Some (set_ptr (Some x) (node_of is ps k))]"
  have "dl_nodes h is ?ps"
    unfolding dl_nodes_def
  proof (intro conjI allI impI)
    fix j assume j: "j < length is"
    show "deref h (Some (is ! j)) = Inr (node_of is ?ps j)"
    proof (cases "j = k")
      case True
      then show ?thesis using less w(2,3) by (simp add: h_def node_of_def)
    next
      case False
      then have "is ! j \<noteq> is ! k" using w(2,4) j by (simp add: nth_eq_iff_index_eq)
      then show ?thesis using less w(1) j False by (simp add: h_def dl_nodes_def node_of_def)
    qed
  qed (use w(3,4) in simp_all)
  moreover have "map fst ?ps = map fst ps"
    using w(2,3) by (simp add: map_update list_update_same_conv)
  moreover have "set_loc_ptr x l = Inr (Dlist h (dl_head l) (dl_tail l) (dl_loc l) (dl_size l))"
    using w(5,6) by (simp add: set_loc_ptr_def update_at_def h_def)
  ultimately show ?thesis using assms by (auto simp: dl_wf_def)
qed

text \<open>What an insertion between two nodes has to do to the heap.\<close>

lemma nodes_insert:
  assumes "dl_nodes h is ps" and "j \<le> length is" and "p \<notin> set is"
    and new: "deref h' (Some p) = Inr (Dll_node d (Some x) (if j = 0 then None else Some (is ! (j - 1)))
      (if j < length is then Some (is ! j) else None))"
    and left: "0 < j \<Longrightarrow> deref h' (Some (is ! (j - 1))) = Inr (link_next (Some p) (node_of is ps (j - 1)))"
    and right: "j < length is \<Longrightarrow> deref h' (Some (is ! j)) = Inr (link_prev (Some p) (node_of is ps j))"
    and same: "\<And>i. i < length is \<Longrightarrow> i \<noteq> j \<Longrightarrow> Suc i \<noteq> j \<Longrightarrow> deref h' (Some (is ! i)) = Inr (node_of is ps i)"
  shows "dl_nodes h' (take j is @ p # drop j is) (take j ps @ (d, x) # drop j ps)"
proof -
  let ?is = "take j is @ p # drop j is" and ?ps = "take j ps @ (d, x) # drop j ps"
  have w: "length is = length ps" "distinct is" using assms(1) by (auto simp: dl_nodes_def)
  have nth: "?is ! i = (if i < j then is ! i else if i = j then p else is ! (i - 1))" for i
    using assms(2) by (auto simp: nth_append min_def nth_Cons' intro!: arg_cong [of _ _ "(!) is"])
  have nthp: "?ps ! i = (if i < j then ps ! i else if i = j then (d, x) else ps ! (i - 1))" for i
    using assms(2) w(1) by (auto simp: nth_append min_def nth_Cons' intro!: arg_cong [of _ _ "(!) ps"])
  have len: "length ?is = Suc (length is)" using assms(2) by simp
  have "deref h' (Some (?is ! i)) = Inr (node_of ?is ?ps i)" if i: "i < Suc (length is)" for i
  proof -
    have node: "node_of ?is ?ps i = Dll_node (fst (?ps ! i)) (Some (snd (?ps ! i))) (if i = 0 then None else Some (?is ! (i - 1)))
        (if i < length is then Some (?is ! Suc i) else None)"
      unfolding node_of_def len by simp
    consider "i = j" | "Suc i < j" | "Suc i = j" | "i = Suc j" | "Suc j < i" by linarith
    then show ?thesis
    proof cases
      case 1
      then show ?thesis unfolding node nth nthp using new assms(2) by auto
    next
      case 2
      then show ?thesis unfolding node nth nthp using same [of i] assms(2) by (auto simp: node_of_def)
    next
      case 3
      then have "i = j - 1" "0 < j" by auto
      then show ?thesis unfolding node nth nthp using left assms(2) 3 by (auto simp: node_of_def)
    next
      case 4
      then show ?thesis unfolding node nth nthp using right assms(2) i by (auto simp: node_of_def)
    next
      case 5
      then have "i - 1 < length is" "i - 1 \<noteq> j" "Suc (i - 1) \<noteq> j" "i - 1 \<noteq> 0" "Suc (i - 1) = i" using i by auto
      then show ?thesis unfolding node nth nthp using same [of "i - 1"] 5 i by (auto simp: node_of_def)
    qed
  qed
  moreover have "distinct ?is"
  proof -
    have "distinct (take j is @ drop j is)" using w(2) by simp
    then show ?thesis using assms(3) unfolding distinct_append by (auto dest: in_set_takeD in_set_dropD)
  qed
  ultimately show ?thesis using w(1) assms(2) unfolding dl_nodes_def len by simp
qed

text \<open>The keys stay in order, and the new pair is found.\<close>

lemma sorted_insert:
  fixes ps :: "(u16 \<times> 'p) list"
  assumes "sorted_wrt (<) (map fst ps)" and "\<forall>i<j. fst (ps ! i) < d" and "\<forall>i<length ps. j \<le> i \<longrightarrow> d < fst (ps ! i)" and "j \<le> length ps"
  shows "sorted_wrt (<) (map fst (take j ps @ (d, x) # drop j ps))"
    and "map_of (take j ps @ (d, x) # drop j ps) = (map_of ps)(d \<mapsto> x)"
proof -
  have l: "\<forall>a\<in>set (take j ps). fst a < d" using assms(2,4) by (fastforce simp: in_set_conv_nth)
  have r: "\<forall>a\<in>set (drop j ps). d < fst a" 
  proof
    fix a assume "a \<in> set (drop j ps)"
    then obtain i where "i < length (drop j ps)" "a = drop j ps ! i" by (auto simp: in_set_conv_nth)
    then show "d < fst a" using assms(3,4) by simp
  qed
  have "sorted_wrt (<) (map fst (take j ps @ drop j ps))" using assms(1) by simp
  then have "sorted_wrt (<) (map fst (take j ps))" "sorted_wrt (<) (map fst (drop j ps))"
      "\<forall>a\<in>set (take j ps). \<forall>b\<in>set (drop j ps). fst a < fst b"
    by (simp_all add: sorted_wrt_append del: append_take_drop_id)
  then show "sorted_wrt (<) (map fst (take j ps @ (d, x) # drop j ps))" using l r by (simp add: sorted_wrt_append)
  have "d \<notin> fst ` set (take j ps)" using l by auto
  then have nd: "map_of (take j ps) d = None" by (simp add: map_of_eq_None_iff)
  have split: "map_of ps = map_of (drop j ps) ++ map_of (take j ps)" by (simp flip: map_of_append)
  show "map_of (take j ps @ (d, x) # drop j ps) = (map_of ps)(d \<mapsto> x)"
    unfolding split using nd by (auto simp: fun_eq_iff map_add_def split: option.splits)
qed

lemma gap_before:
  fixes ps :: "(u16 \<times> 'p) list"
  assumes "sorted_wrt (<) (map fst ps)" and "k < length ps" and "at_gap d ps k" and "d < fst (ps ! k)"
  shows "\<forall>i<k. fst (ps ! i) < d" "\<forall>i<length ps. k \<le> i \<longrightarrow> d < fst (ps ! i)"
proof -
  have "0 < k \<longrightarrow> fst (ps ! (k - 1)) < d" using assms(3,4) by (auto simp: at_gap_def)
  moreover have "fst (ps ! i) \<le> fst (ps ! (k - 1))" if "i < k" for i using keys_le [OF assms(1), of i "k - 1"] that assms(2) by simp
  ultimately show "\<forall>i<k. fst (ps ! i) < d" by (auto intro: le_less_trans)
  show "\<forall>i<length ps. k \<le> i \<longrightarrow> d < fst (ps ! i)"
    using keys_le [OF assms(1)] assms(4) by (auto intro: less_le_trans)
qed

lemma gap_after:
  fixes ps :: "(u16 \<times> 'p) list"
  assumes "sorted_wrt (<) (map fst ps)" and "k < length ps" and "at_gap d ps k" and "\<not> d < fst (ps ! k)"
  shows "\<forall>i<Suc k. fst (ps ! i) < d" "\<forall>i<length ps. Suc k \<le> i \<longrightarrow> d < fst (ps ! i)"
proof -
  have g: "fst (ps ! k) < d" "Suc k < length ps \<longrightarrow> d < fst (ps ! Suc k)" using assms(3,4) by (auto simp: at_gap_def)
  have "fst (ps ! i) \<le> fst (ps ! k)" if "i < Suc k" for i using keys_le [OF assms(1), of i k] that assms(2) by simp
  then show "\<forall>i<Suc k. fst (ps ! i) < d" using g(1) by (auto intro: le_less_trans)
  show "\<forall>i<length ps. Suc k \<le> i \<longrightarrow> d < fst (ps ! i)"
  proof (intro allI impI)
    fix i assume i: "i < length ps" "Suc k \<le> i"
    then have "d < fst (ps ! Suc k)" using g(2) by simp
    also have "\<dots> \<le> fst (ps ! i)" by (rule keys_le [OF assms(1) i(2,1)])
    finally show "d < fst (ps ! i)" .
  qed
qed

lemma insert_before_ok:
  assumes "dl_wf l is ps k" and "at_gap d ps k" and "d < fst (ps ! k)"
  shows "\<exists>l' is'. insert_before d (Some x) l = Inr l' \<and> dl_wf l' is' (take k ps @ (d, x) # drop k ps) k"
proof -
  let ?p = "length (dl_heap l)" and ?h = "dl_heap l" and ?ps = "take k ps @ (d, x) # drop k ps"
  let ?is = "take k is @ ?p # drop k is"
  have w: "dl_nodes ?h is ps" "k < length is" "length is = length ps" "distinct is" "sorted_wrt (<) (map fst ps)"
      "dl_loc l = Some (is ! k)" "dl_head l = Some (hd is)" "dl_tail l = Some (last is)"
      "\<And>j. j < length is \<Longrightarrow> deref ?h (Some (is ! j)) = Inr (node_of is ps j)"
    using assms(1) by (auto simp: dl_wf_def dl_nodes_def)
  have less: "is ! j < ?p" if "j < length is" for j using deref_less [OF w(9) [OF that]] .
  have fresh: "?p \<notin> set is" using less by (metis in_set_conv_nth less_irrefl)
  have ne: "?p \<noteq> is ! j" if "j < length is" for j using less [OF that] by simp
  have eq: "is ! i = is ! j \<longleftrightarrow> i = j" if "i < length is" "j < length is" for i j
    using w(4) that by (simp add: nth_eq_iff_index_eq)
  have hd: "hd is = is ! 0" using w(2) by (cases "is") auto
  have sorted: "sorted_wrt (<) (map fst ?ps)"
    using sorted_insert(1) [OF w(5) gap_before [OF w(5) _ assms(2,3)]] w(2,3) by simp
  show ?thesis
  proof (cases "k = 0")
    case True
    define h where "h = (?h @ [Some (Dll_node d (Some x) None (Some (is ! k)))])[is ! k := Some (link_prev (Some ?p) (node_of is ps k))]"
    have d: "deref h (Some i) = (if i = is ! k then Inr (link_prev (Some ?p) (node_of is ps k)) else if i = ?p then
        Inr (Dll_node d (Some x) None (Some (is ! k))) else deref ?h (Some i))" for i
      using less [OF w(2)] by (simp add: h_def)
    have "dl_nodes h ?is ?ps"
      by (rule nodes_insert [OF w(1)]) (use True w(2,9) fresh less eq ne in \<open>auto simp: d dest!: less\<close>)
    moreover have "insert_before d (Some x) l = Inr (Dlist h (Some ?p) (dl_tail l) (Some ?p) (dl_size l + 1))"
      using True w(2,6,7) less [OF w(2)] w(9) [OF w(2)] hd unfolding insert_before_def update_at_def by (simp add: Let_def h_def)
    moreover have "last ?is = last is" using w(2) by simp
    ultimately show ?thesis using True w(2,3,8) sorted by (auto simp: dl_wf_def intro!: exI [of _ ?is])
  next
    case False
    have pos: "0 < length is" using w(2) by linarith
    have k: "k - 1 < length is" "is ! (k - 1) \<noteq> is ! k" "hd is \<noteq> is ! k"
      using False w(2) eq [of "k - 1" k] eq [OF pos w(2)] hd by auto
    define h1 where "h1 = (?h @ [Some (Dll_node d (Some x) (Some (is ! (k - 1))) (Some (is ! k)))])
      [is ! (k - 1) := Some (link_next (Some ?p) (node_of is ps (k - 1)))]"
    define h where "h = h1[is ! k := Some (link_prev (Some ?p) (node_of is ps k))]"
    have l: "is ! (k - 1) < Suc ?p" "is ! k < length h1" using less [OF k(1)] less [OF w(2)] by (simp_all add: h1_def)
    have d: "deref h (Some i) = (if i = is ! k then Inr (link_prev (Some ?p) (node_of is ps k)) else if i = is ! (k - 1) then
        Inr (link_next (Some ?p) (node_of is ps (k - 1))) else if i = ?p then
        Inr (Dll_node d (Some x) (Some (is ! (k - 1))) (Some (is ! k))) else deref ?h (Some i))" for i
      unfolding h_def deref_set [OF l(2)] using l(1) by (simp add: h1_def)
    have "dl_nodes h ?is ?ps"
      by (rule nodes_insert [OF w(1)]) (use False k w(2,9) fresh less eq ne in \<open>auto simp: d dest!: less\<close>)
    moreover have "insert_before d (Some x) l = Inr (Dlist h (dl_head l) (dl_tail l) (Some ?p) (dl_size l + 1))"
    proof -
      have "deref ?h (Some (is ! k)) = Inr (node_of is ps k)" "dn_prev (node_of is ps k) = Some (is ! (k - 1))"
        using w(2,9) False by (simp_all add: node_of_def)
      moreover have "update_at (Some (is ! (k - 1))) (link_next (Some ?p)) (?h @ [Some (Dll_node d (Some x) (Some (is ! (k - 1))) (Some (is ! k)))]) = Inr h1"
        using less [OF k(1)] w(9) [OF k(1)] by (simp add: update_at_def h1_def)
      moreover have "update_at (Some (is ! k)) (link_prev (Some ?p)) h1 = Inr h"
        using less [OF k(1)] less [OF w(2)] w(9) [OF w(2)] k(2) by (simp add: update_at_def h_def h1_def)
      ultimately show ?thesis using w(6,7) k(3) by (simp add: insert_before_def Let_def)
    qed
    moreover have "hd ?is = hd is" "last ?is = last is" using False w(2) by (auto simp: hd_append)
    ultimately show ?thesis using False w(2,3,7,8) sorted by (auto simp: dl_wf_def nth_append intro!: exI [of _ ?is])
  qed
qed

lemma insert_after_ok:
  assumes "dl_wf l is ps k" and "at_gap d ps k" and "\<not> d < fst (ps ! k)"
  shows "\<exists>l' is'. insert_after d (Some x) l = Inr l' \<and> dl_wf l' is' (take (Suc k) ps @ (d, x) # drop (Suc k) ps) (Suc k)"
proof -
  let ?p = "length (dl_heap l)" and ?h = "dl_heap l" and ?ps = "take (Suc k) ps @ (d, x) # drop (Suc k) ps"
  let ?is = "take (Suc k) is @ ?p # drop (Suc k) is"
  have w: "dl_nodes ?h is ps" "k < length is" "length is = length ps" "distinct is" "sorted_wrt (<) (map fst ps)"
      "dl_loc l = Some (is ! k)" "dl_head l = Some (hd is)" "dl_tail l = Some (last is)"
      "\<And>j. j < length is \<Longrightarrow> deref ?h (Some (is ! j)) = Inr (node_of is ps j)"
    using assms(1) by (auto simp: dl_wf_def dl_nodes_def)
  have less: "is ! j < ?p" if "j < length is" for j using deref_less [OF w(9) [OF that]] .
  have fresh: "?p \<notin> set is" using less by (metis in_set_conv_nth less_irrefl)
  have ne: "?p \<noteq> is ! j" if "j < length is" for j using less [OF that] by simp
  have eq: "is ! i = is ! j \<longleftrightarrow> i = j" if "i < length is" "j < length is" for i j
    using w(4) that by (simp add: nth_eq_iff_index_eq)
  have last: "last is = is ! (length is - 1)" using w(2) by (cases "is") (auto simp: last_conv_nth)
  have sorted: "sorted_wrt (<) (map fst ?ps)"
    using sorted_insert(1) [OF w(5) gap_after [OF w(5) _ assms(2,3)]] w(2,3) by simp
  have hd: "hd ?is = hd is" using w(2) by (cases "is") auto
  have nth: "?is ! Suc k = ?p" using w(2) by (simp add: nth_append)
  show ?thesis
  proof (cases "Suc k = length is")
    case True
    define h where "h = (?h @ [Some (Dll_node d (Some x) (Some (is ! k)) None)])[is ! k := Some (link_next (Some ?p) (node_of is ps k))]"
    have d: "deref h (Some i) = (if i = is ! k then Inr (link_next (Some ?p) (node_of is ps k)) else if i = ?p then
        Inr (Dll_node d (Some x) (Some (is ! k)) None) else deref ?h (Some i))" for i
      using less [OF w(2)] by (simp add: h_def)
    have "dl_nodes h ?is ?ps"
      by (rule nodes_insert [OF w(1)]) (use True w(2,9) fresh less eq ne in \<open>auto simp: d dest!: less\<close>)
    moreover have "insert_after d (Some x) l = Inr (Dlist h (dl_head l) (Some ?p) (Some ?p) (dl_size l + 1))"
    proof -
      have "last is = is ! k" using last True by (metis diff_Suc_1)
      then show ?thesis
        using w(6,8) less [OF w(2)] w(9) [OF w(2)] unfolding insert_after_def update_at_def by (simp add: Let_def h_def)
    qed
    moreover have "last ?is = ?p" using True by simp
    ultimately show ?thesis using True w(2,3,7) sorted hd nth by (auto simp: dl_wf_def intro!: exI [of _ ?is])
  next
    case False
    then have k: "Suc k < length is" "is ! Suc k \<noteq> is ! k" using w(2) eq by auto
    have lk: "last is \<noteq> is ! k" using last eq [of "length is - 1" k] w(2) False by auto
    define h1 where "h1 = (?h @ [Some (Dll_node d (Some x) (Some (is ! k)) (Some (is ! Suc k)))])
      [is ! Suc k := Some (link_prev (Some ?p) (node_of is ps (Suc k)))]"
    define h where "h = h1[is ! k := Some (link_next (Some ?p) (node_of is ps k))]"
    have l: "is ! Suc k < Suc ?p" "is ! k < length h1" using less [OF k(1)] less [OF w(2)] by (simp_all add: h1_def)
    have d: "deref h (Some i) = (if i = is ! k then Inr (link_next (Some ?p) (node_of is ps k)) else if i = is ! Suc k then
        Inr (link_prev (Some ?p) (node_of is ps (Suc k))) else if i = ?p then
        Inr (Dll_node d (Some x) (Some (is ! k)) (Some (is ! Suc k))) else deref ?h (Some i))" for i
      unfolding h_def deref_set [OF l(2)] using l(1) by (simp add: h1_def)
    have "dl_nodes h ?is ?ps"
      by (rule nodes_insert [OF w(1)]) (use False k w(2,9) fresh less eq ne in \<open>auto simp: d dest!: less\<close>)
    moreover have "insert_after d (Some x) l = Inr (Dlist h (dl_head l) (dl_tail l) (Some ?p) (dl_size l + 1))"
    proof -
      have "deref ?h (Some (is ! k)) = Inr (node_of is ps k)" "dn_next (node_of is ps k) = Some (is ! Suc k)"
        using w(2,9) k(1) by (simp_all add: node_of_def)
      moreover have "update_at (Some (is ! Suc k)) (link_prev (Some ?p)) (?h @ [Some (Dll_node d (Some x) (Some (is ! k)) (Some (is ! Suc k)))]) = Inr h1"
        using less [OF k(1)] w(9) [OF k(1)] by (simp add: update_at_def h1_def)
      moreover have "update_at (Some (is ! k)) (link_next (Some ?p)) h1 = Inr h"
        using less [OF k(1)] less [OF w(2)] w(9) [OF w(2)] k(2) by (simp add: update_at_def h_def h1_def)
      ultimately show ?thesis using w(6,8) lk by (simp add: insert_after_def Let_def)
    qed
    moreover have "last ?is = last is" using k(1) by simp
    ultimately show ?thesis using w(2,3,7,8) sorted hd nth by (auto simp: dl_wf_def intro!: exI [of _ ?is])
  qed
qed

subsection \<open>The list as a map with a cursor\<close>

text \<open>\<open>dl_view l m c\<close>: the list holds the map \<open>m\<close>, and the location is at the key \<open>c\<close>, unless it is empty.\<close>

definition dl_view :: "'p dlist \<Rightarrow> (u16 \<Rightarrow> 'p option) \<Rightarrow> u16 option \<Rightarrow> bool" where
  "dl_view l m c \<longleftrightarrow> (dl_head l = None \<and> m = (\<lambda>_. None) \<and> c = None) \<or>
    (\<exists>is ps k. dl_wf l is ps k \<and> m = map_of ps \<and> c = Some (fst (ps ! k)))"

lemma view_new: "dl_view dlist_new (\<lambda>_. None) None"
  by (simp add: dl_view_def dlist_new_def)

lemma view_find:
  assumes "dl_view l m c"
  shows "\<exists>l' c'. find_ptr d l = Inr (m d, l') \<and> dl_view l' m c' \<and> (m d \<noteq> None \<longrightarrow> c' = Some d)"
  using assms unfolding dl_view_def [of l]
proof (elim disjE exE conjE)
  fix "is" and ps :: "(u16 \<times> 'a) list" and k
  assume l: "dl_wf l is ps k" "m = map_of ps"
  then obtain k' l' where f: "find_ptr d l = Inr (m d, l')" "dl_wf l' is ps k'"
      "if map_of ps d = None then at_gap d ps k' else fst (ps ! k') = d"
    using find_ptr_ok [OF l(1), of d] by auto
  have "dl_view l' m (Some (fst (ps ! k')))" unfolding dl_view_def using f(2) l(2) by blast
  then show ?thesis using f(1,3) l(2) by (auto split: if_splits)
qed (auto simp: find_ptr_def dlist_empty_def dl_view_def)

lemma view_change:
  assumes "dl_view l m (Some d)"
  shows "\<exists>l'. set_loc_ptr x l = Inr l' \<and> dl_view l' (m(d \<mapsto> x)) (Some d)"
proof -
  obtain "is" ps k where l: "dl_wf l is ps k" "m = map_of ps" "d = fst (ps ! k)" using assms by (auto simp: dl_view_def)
  have k: "k < length ps" "sorted_wrt (<) (map fst ps)" using l(1) by (auto simp: dl_wf_def dl_nodes_def)
  obtain l' where l': "set_loc_ptr x l = Inr l'" "dl_wf l' is (ps[k := (d, x)]) k" using set_loc_ok [OF l(1), of x] l(3) by auto
  have "map fst (ps[k := (d, x)]) = map fst ps" using k(1) l(3) by (simp add: map_update list_update_same_conv)
  then have dist: "distinct (map fst (ps[k := (d, x)]))" using keys_distinct [OF k(2)] by simp
  have dps: "distinct ps" using keys_distinct [OF k(2)] by (simp add: distinct_map)
  have "map_of (ps[k := (d, x)]) = (map_of ps)(d \<mapsto> x)"
  proof
    fix e
    show "map_of (ps[k := (d, x)]) e = ((map_of ps)(d \<mapsto> x)) e"
    proof (cases "e = d")
      case True
      then show ?thesis using map_of_is_SomeI [OF dist, of d x] k(1) by (simp add: set_update_memI)
    next
      case False
      have "(e, y) \<in> set (ps[k := (d, x)]) \<longleftrightarrow> (e, y) \<in> set ps" for y
        using False l(3) set_update_distinct [OF dps k(1)] by auto (metis fst_conv)
      then have "map_of (ps[k := (d, x)]) e = Some y \<longleftrightarrow> map_of ps e = Some y" for y
        using map_of_eq_Some_iff [OF dist] map_of_eq_Some_iff [OF keys_distinct [OF k(2)]] by simp
      then have "map_of (ps[k := (d, x)]) e = map_of ps e" by (metis option.exhaust)
      then show ?thesis using False by simp
    qed
  qed
  moreover have "fst (ps[k := (d, x)] ! k) = d" using k(1) by simp
  ultimately have "dl_view l' (m(d \<mapsto> x)) (Some d)" unfolding dl_view_def using l'(2) l(2) by metis
  then show ?thesis using l'(1) by blast
qed

lemma view_insert:
  assumes "dl_view l m c"
  shows "\<exists>l'. dlist_insert d x l = Inr l' \<and> dl_view l' (m(d \<mapsto> x)) (Some d)"
proof (cases "dl_head l = None")
  case True
  let ?p = "length (dl_heap l)"
  let ?l = "Dlist (dl_heap l @ [Some (Dll_node d (Some x) None None)]) (Some ?p) (Some ?p) (Some ?p) (dl_size l + 1)"
  have "dl_wf ?l [?p] [(d, x)] 0" by (simp add: dl_wf_def dl_nodes_def node_of_def)
  then have "dl_view ?l (map_of [(d, x)]) (Some (fst ([(d, x)] ! 0)))" unfolding dl_view_def by blast
  moreover have "m = (\<lambda>_. None)" using assms True by (auto simp: dl_view_def dl_wf_def)
  ultimately show ?thesis using True by (simp add: dlist_insert_def dlist_empty_def Let_def)
next
  case False
  then obtain "is" ps k where l: "dl_wf l is ps k" "m = map_of ps" using assms by (auto simp: dl_view_def)
  obtain k' l1 where f: "find_ptr d l = Inr (map_of ps d, l1)" "dl_wf l1 is ps k'"
      "if map_of ps d = None then at_gap d ps k' else fst (ps ! k') = d"
    using find_ptr_ok [OF l(1)] by blast
  have w: "k' < length ps" "sorted_wrt (<) (map fst ps)" "deref (dl_heap l1) (dl_loc l1) = Inr (node_of is ps k')"
    using f(2) by (auto simp: dl_wf_def dl_nodes_def)
  show ?thesis
  proof (cases "map_of ps d")
    case (Some y)
    then have "dl_view l1 m (Some d)" unfolding dl_view_def using f(2,3) l(2) by (metis option.discI)
    from view_change [OF this, of x] show ?thesis using False f(1) Some by (auto simp: dlist_insert_def dlist_empty_def)
  next
    case None
    then have g: "at_gap d ps k'" using f(3) by simp
    show ?thesis
    proof (cases "d < fst (ps ! k')")
      case True
      obtain l' is' where l': "insert_before d (Some x) l1 = Inr l'" "dl_wf l' is' (take k' ps @ (d, x) # drop k' ps) k'"
        using insert_before_ok [OF f(2) g True] by blast
      have "fst ((take k' ps @ (d, x) # drop k' ps) ! k') = d" using w(1) by (simp add: nth_append)
      moreover have "map_of (take k' ps @ (d, x) # drop k' ps) = m(d \<mapsto> x)"
        using sorted_insert(2) [OF w(2) gap_before [OF w(2,1) g True]] w(1) l(2) by simp
      ultimately have "dl_view l' (m(d \<mapsto> x)) (Some d)" unfolding dl_view_def using l'(2) by metis
      then show ?thesis using False f(1) None w(3) l'(1) True by (auto simp: dlist_insert_def dlist_empty_def node_of_def)
    next
      case ge: False
      obtain l' is' where l': "insert_after d (Some x) l1 = Inr l'" "dl_wf l' is' (take (Suc k') ps @ (d, x) # drop (Suc k') ps) (Suc k')"
        using insert_after_ok [OF f(2) g ge] by blast
      have "fst ((take (Suc k') ps @ (d, x) # drop (Suc k') ps) ! Suc k') = d" using w(1) by (simp add: nth_append)
      moreover have "map_of (take (Suc k') ps @ (d, x) # drop (Suc k') ps) = m(d \<mapsto> x)"
        using sorted_insert(2) [OF w(2) gap_after [OF w(2,1) g ge]] w(1) l(2) by simp
      ultimately have "dl_view l' (m(d \<mapsto> x)) (Some d)" unfolding dl_view_def using l'(2) by metis
      then show ?thesis using False f(1) None w(3) l'(1) ge by (auto simp: dlist_insert_def dlist_empty_def node_of_def)
    qed
  qed
qed

locale cursor_map =
  fixes new :: 'l and view :: "'l \<Rightarrow> ('k \<Rightarrow> 'p option) \<Rightarrow> 'k option \<Rightarrow> bool" and find :: "'k \<Rightarrow> 'l \<Rightarrow> ('p option \<times> 'l) res"
    and insert :: "'k \<Rightarrow> 'p \<Rightarrow> 'l \<Rightarrow> 'l res" and change :: "'p \<Rightarrow> 'l \<Rightarrow> 'l res"
  assumes new: "view new (\<lambda>_. None) None"
    and find: "view l m c \<Longrightarrow> \<exists>l' c'. find k l = Inr (m k, l') \<and> view l' m c' \<and> (m k \<noteq> None \<longrightarrow> c' = Some k)"
    and insert: "view l m c \<Longrightarrow> \<exists>l'. insert k p l = Inr l' \<and> view l' (m(k \<mapsto> p)) (Some k)"
    and change: "view l m (Some k) \<Longrightarrow> \<exists>l'. change p l = Inr l' \<and> view l' (m(k \<mapsto> p)) (Some k)"
begin

text \<open>Find the entry, or add one, then change it.\<close>

lemma find_or_insert:
  assumes "view l m c"
  shows "\<exists>l' p. res_bind (find k l) (\<lambda>(found, l). case found of Some p \<Rightarrow> Inr (p, l) | None \<Rightarrow> res_bind (insert k fresh l) (\<lambda>l. Inr (fresh, l))) =
    Inr (p, l') \<and> p = (case m k of None \<Rightarrow> fresh | Some p \<Rightarrow> p) \<and> view l' (m(k \<mapsto> p)) (Some k)"
proof -
  obtain l1 c1 where f: "find k l = Inr (m k, l1)" "view l1 m c1" "m k \<noteq> None \<longrightarrow> c1 = Some k" using find [OF assms] by blast
  show ?thesis
  proof (cases "m k")
    case None
    then show ?thesis using insert [OF f(2), of k fresh] f(1) by auto
  next
    case (Some p)
    then have "m(k \<mapsto> p) = m" by (simp add: fun_upd_idem)
    then show ?thesis using Some f by auto
  qed
qed

end

interpretation dl: cursor_map dlist_new dl_view find_ptr dlist_insert set_loc_ptr
  by unfold_locales (blast intro: view_new view_find view_insert view_change)+

end
