(* ===== verification/Sjm_Memory.thy ===== *)
theory Sjm_Memory
  imports Sjm_Dlist
begin

text \<open>
  The memory of the bus model: a tree of ordered lists, a level for each nibble of the address
  (\<^verbatim>\<open>common/c/ListTree.cc\<close>), with the ranges of addresses that it answers (\<^verbatim>\<open>sjm/c/Memory.cc\<close>, a class
  template; here with words of 32 bits, as the program uses it). A cell of a list holds a list of the
  next level or, at the bottom, data; searches move the locations of the lists on their way.
\<close>

datatype 'd slot = Sub "'d slot dlist" | Data 'd

datatype 'd list_tree = List_tree (lt_top: "'d slot dlist") (lt_depth: nat)

definition list_tree_new :: "nat \<Rightarrow> 'd list_tree" where
  "list_tree_new d = List_tree dlist_new (d - 1)"

subsection \<open>The tree\<close>

text \<open>The recursion runs over \<^verbatim>\<open>depth - count\<close>, the keys from \<^verbatim>\<open>count\<close> on.\<close>

fun do_insertion :: "nat \<Rightarrow> u16 list \<Rightarrow> 'd \<Rightarrow> 'd slot dlist \<Rightarrow> 'd slot dlist res" where
  "do_insertion n [] data list = Inl Undefined"
| "do_insertion 0 (key # keys) data list = dlist_insert key (Data data) list"
| "do_insertion (Suc n) (key # keys) data list =
    res_bind
      (res_bind (find_ptr key list) (\<lambda>(found, list).
       case found of
         Some p \<Rightarrow> Inr (p, list)
       | None \<Rightarrow> res_bind (dlist_insert key (Sub dlist_new) list) (\<lambda>list. Inr (Sub dlist_new, list))))
      (\<lambda>(p, list).
       case p of
         Data _ \<Rightarrow> Inl Undefined
       | Sub sublist \<Rightarrow> res_bind (do_insertion n keys data sublist) (\<lambda>sublist. set_loc_ptr (Sub sublist) list))"

fun find_in :: "nat \<Rightarrow> u16 list \<Rightarrow> 'd slot dlist \<Rightarrow> ('d option \<times> 'd slot dlist) res" where
  "find_in n [] list = Inl Undefined"
| "find_in 0 (key # keys) list =
    res_bind (find_ptr key list) (\<lambda>(p, list).
    case p of None \<Rightarrow> Inr (None, list) | Some (Data d) \<Rightarrow> Inr (Some d, list) | Some (Sub _) \<Rightarrow> Inl Undefined)"
| "find_in (Suc n) (key # keys) list =
    res_bind (find_ptr key list) (\<lambda>(p, list).
    case p of
      None \<Rightarrow> Inr (None, list)
    | Some (Data _) \<Rightarrow> Inl Undefined
    | Some (Sub sublist) \<Rightarrow>
        res_bind (find_in n keys sublist) (\<lambda>(r, sublist).
        res_bind (set_loc_ptr (Sub sublist) list) (\<lambda>list. Inr (r, list))))"

fun do_removal :: "nat \<Rightarrow> u16 list \<Rightarrow> 'd slot dlist \<Rightarrow> (bool \<times> 'd slot dlist) res" where
  "do_removal n [] list = Inl Undefined"
| "do_removal 0 (key # keys) list = dlist_remove key list"
| "do_removal (Suc n) (key # keys) list =
    res_bind (find_ptr key list) (\<lambda>(p, list).
    case p of
      None \<Rightarrow> Inr (False, list)
    | Some (Data _) \<Rightarrow> Inl Undefined
    | Some (Sub sublist) \<Rightarrow>
        res_bind (do_removal n keys sublist) (\<lambda>(r, sublist).
        res_bind (set_loc_ptr (Sub sublist) list) (\<lambda>list.
        if r then res_bind (dlist_remove key list) (\<lambda>(_, list). Inr (True, list)) else Inr (False, list))))"

definition tree_insert :: "u16 list \<Rightarrow> 'd \<Rightarrow> 'd list_tree \<Rightarrow> 'd list_tree res" where
  "tree_insert indexes data t =
    res_bind (do_insertion (lt_depth t) indexes data (lt_top t)) (\<lambda>top. Inr (List_tree top (lt_depth t)))"

definition tree_find :: "u16 list \<Rightarrow> 'd list_tree \<Rightarrow> ('d option \<times> 'd list_tree) res" where
  "tree_find indexes t =
    res_bind (find_in (lt_depth t) indexes (lt_top t)) (\<lambda>(r, top). Inr (r, List_tree top (lt_depth t)))"

definition tree_empty :: "'d list_tree \<Rightarrow> bool" where
  "tree_empty t \<longleftrightarrow> dlist_empty (lt_top t)"

definition tree_remove :: "u16 list \<Rightarrow> 'd list_tree \<Rightarrow> (bool \<times> 'd list_tree) res" where
  "tree_remove indexes t =
    (if tree_empty t then Inr (False, t)
     else res_bind (do_removal (lt_depth t) indexes (lt_top t)) (\<lambda>(r, top). Inr (r, List_tree top (lt_depth t))))"

subsection \<open>The memory\<close>

type_synonym range = "u64 \<times> u64"

definition range_has :: "range \<Rightarrow> u64 \<Rightarrow> bool" where
  "range_has r val \<longleftrightarrow> fst r \<le> val \<and> val \<le> snd r"

record sjm_memory =
  mem_storage :: "32 word list_tree"
  mem_range :: "range option list"

definition memory_new :: "nat \<Rightarrow> sjm_memory" where
  "memory_new num = \<lparr>mem_storage = list_tree_new 16, mem_range = replicate num None\<rparr>"

definition memory_of_range :: "u64 \<Rightarrow> u64 \<Rightarrow> sjm_memory" where
  "memory_of_range low high = \<lparr>mem_storage = list_tree_new 16, mem_range = [Some (low, high)]\<rparr>"

fun first_free :: "nat \<Rightarrow> range option list \<Rightarrow> nat option" where
  "first_free i [] = None"
| "first_free i (None # rs) = Some i"
| "first_free i (Some r # rs) = first_free (Suc i) rs"

definition new_range :: "u64 \<Rightarrow> u64 \<Rightarrow> sjm_memory \<Rightarrow> bool \<times> sjm_memory" where
  "new_range low high m =
    (case first_free 0 (mem_range m) of
       None \<Rightarrow> (False, m)
     | Some i \<Rightarrow> (True, m\<lparr>mem_range := (mem_range m)[i := Some (low, high)]\<rparr>))"

definition in_range :: "u64 \<Rightarrow> sjm_memory \<Rightarrow> bool" where
  "in_range addr m \<longleftrightarrow> list_ex (\<lambda>r. case r of None \<Rightarrow> False | Some r \<Rightarrow> range_has r addr) (mem_range m)"

definition in_range_at :: "nat \<Rightarrow> u64 \<Rightarrow> sjm_memory \<Rightarrow> bool res" where
  "in_range_at indx addr m =
    res_bind (array_at indx (mem_range m)) (\<lambda>r. Inr (case r of None \<Rightarrow> False | Some r \<Rightarrow> range_has r addr))"

definition get_range :: "int \<Rightarrow> sjm_memory \<Rightarrow> range option" where
  "get_range indx m = (if indx < 0 \<or> int (length (mem_range m)) \<le> indx then None else mem_range m ! nat indx)"

fun translate_addr :: "nat \<Rightarrow> u64 \<Rightarrow> u16 list" where
  "translate_addr 0 addr = []"
| "translate_addr (Suc n) addr = translate_addr n (drop_bit 4 addr) @ [ucast (addr AND 0xf)]"

definition memory_write :: "u64 \<Rightarrow> 32 word \<Rightarrow> sjm_memory \<Rightarrow> (bool \<times> sjm_memory) res" where
  "memory_write addr data m =
    (if \<not> in_range addr m then Inr (False, m)
     else res_bind (tree_insert (translate_addr 16 addr) data (mem_storage m)) (\<lambda>t. Inr (True, m\<lparr>mem_storage := t\<rparr>)))"

definition memory_read :: "u64 \<Rightarrow> sjm_memory \<Rightarrow> (32 word \<times> sjm_memory) res" where
  "memory_read addr m =
    (if \<not> in_range addr m then Inr (0, m)
     else res_bind (tree_find (translate_addr 16 addr) (mem_storage m)) (\<lambda>(r, t).
       Inr (case r of None \<Rightarrow> 0 | Some d \<Rightarrow> d, m\<lparr>mem_storage := t\<rparr>)))"

subsection \<open>Sequences of calls\<close>

datatype mem_op = New_range u64 u64 | Write_mem u64 "32 word" | Read_mem u64

fun mem_step :: "mem_op \<Rightarrow> sjm_memory \<Rightarrow> (32 word \<times> sjm_memory) res" where
  "mem_step (New_range low high) m = (let (ok, m) = new_range low high m in Inr (of_bool ok, m))"
| "mem_step (Write_mem a d) m = res_bind (memory_write a d m) (\<lambda>(ok, m). Inr (of_bool ok, m))"
| "mem_step (Read_mem a) m = memory_read a m"

fun mem_run :: "mem_op list \<Rightarrow> sjm_memory \<Rightarrow> 32 word list res" where
  "mem_run [] m = Inr []"
| "mem_run (c # cs) m = res_bind (mem_step c m) (\<lambda>(r, m). res_bind (mem_run cs m) (\<lambda>rs. Inr (r # rs)))"

text \<open>What the calls promise: an array of words, of which the addresses of the ranges so far are seen.\<close>

fun array_run :: "nat \<Rightarrow> mem_op list \<Rightarrow> range list \<Rightarrow> (u64 \<Rightarrow> 32 word) \<Rightarrow> 32 word list" where
  "array_run num [] rs A = []"
| "array_run num (New_range low high # cs) rs A =
    (if length rs < num then 1 # array_run num cs (rs @ [(low, high)]) A else 0 # array_run num cs rs A)"
| "array_run num (Write_mem a d # cs) rs A =
    (if \<exists>r\<in>set rs. range_has r a then 1 # array_run num cs rs (A(a := d)) else 0 # array_run num cs rs A)"
| "array_run num (Read_mem a # cs) rs A =
    (if \<exists>r\<in>set rs. range_has r a then A a else 0) # array_run num cs rs A"

end
