(* ===== verification/Sjm_Memory_Refine.thy ===== *)
theory Sjm_Memory_Refine
  imports Sjm_Memory
begin

text \<open>
  The tree of lists is a map from rows of keys to data, and the memory an array of words over the
  addresses of its ranges.
\<close>

fun tree_view :: "nat \<Rightarrow> 'd slot dlist \<Rightarrow> (u16 list \<Rightarrow> 'd option) \<Rightarrow> bool" where
  "tree_view 0 list M \<longleftrightarrow> (\<exists>m c. dl_view list m c \<and> (\<forall>k p. m k = Some p \<longrightarrow> (\<exists>d. p = Data d)) \<and>
    (\<forall>k. M [k] = (case m k of Some (Data d) \<Rightarrow> Some d | _ \<Rightarrow> None)))"
| "tree_view (Suc n) list M \<longleftrightarrow> (\<exists>m c. dl_view list m c \<and>
    (\<forall>k p. m k = Some p \<longrightarrow> (\<exists>sub. p = Sub sub \<and> tree_view n sub (\<lambda>ks. M (k # ks)))) \<and>
    (\<forall>k ks. length ks = Suc n \<longrightarrow> m k = None \<longrightarrow> M (k # ks) = None))"

lemma tree_view_cong: "tree_view n list M \<Longrightarrow> (\<And>ks. length ks = Suc n \<Longrightarrow> M' ks = M ks) \<Longrightarrow> tree_view n list M'"
proof (induction n arbitrary: list M M')
  case 0
  then show ?case by simp
next
  case (Suc n)
  obtain m c where m: "dl_view list m c" "\<forall>k p. m k = Some p \<longrightarrow> (\<exists>sub. p = Sub sub \<and> tree_view n sub (\<lambda>ks. M (k # ks)))"
      "\<forall>k ks. length ks = Suc n \<longrightarrow> m k = None \<longrightarrow> M (k # ks) = None" using Suc.prems(1) by auto
  have "\<exists>sub. p = Sub sub \<and> tree_view n sub (\<lambda>ks. M' (k # ks))" if k: "m k = Some p" for k p
  proof -
    obtain sub where "p = Sub sub" "tree_view n sub (\<lambda>ks. M (k # ks))" using m(2) k by blast
    moreover have "tree_view n sub (\<lambda>ks. M' (k # ks))" by (rule Suc.IH [OF calculation(2)]) (simp add: Suc.prems(2))
    ultimately show ?thesis by blast
  qed
  then show ?case using m(1,3) Suc.prems(2) by auto
qed

lemma tree_view_new: "tree_view n dlist_new (\<lambda>_. None)"
  using view_new by (cases n) (auto intro!: exI [of _ "\<lambda>_. None"])

lemma insertion_ok:
  assumes "tree_view n list M" and "length keys = Suc n"
  shows "\<exists>list'. do_insertion n keys d list = Inr list' \<and> tree_view n list' (M(keys \<mapsto> d))"
  using assms
proof (induction n arbitrary: keys list M)
  case 0
  then obtain k where k: "keys = [k]" by (auto simp: length_Suc_conv)
  obtain m c where m: "dl_view list m c" "\<forall>k p. m k = Some p \<longrightarrow> (\<exists>d. p = Data d)"
      "\<forall>k. M [k] = (case m k of Some (Data d) \<Rightarrow> Some d | _ \<Rightarrow> None)" using 0 by auto
  obtain l' where l': "dlist_insert k (Data d) list = Inr l'" "dl_view l' (m(k \<mapsto> Data d)) (Some k)"
    using dl.insert [OF m(1)] by blast
  have "tree_view 0 l' (M(keys \<mapsto> d))"
    unfolding tree_view.simps by (intro exI conjI, rule l'(2)) (use m(2,3) k in auto)
  then show ?case using l'(1) k by simp
next
  case (Suc n)
  then obtain k ks where k: "keys = k # ks" "length ks = Suc n" by (auto simp: length_Suc_conv)
  obtain m c where m: "dl_view list m c" "\<forall>k p. m k = Some p \<longrightarrow> (\<exists>sub. p = Sub sub \<and> tree_view n sub (\<lambda>ks. M (k # ks)))"
      "\<forall>k ks. length ks = Suc n \<longrightarrow> m k = None \<longrightarrow> M (k # ks) = None" using Suc.prems(1) by auto
  obtain l1 p where f: "res_bind (find_ptr k list) (\<lambda>(found, list). case found of Some p \<Rightarrow> Inr (p, list)
      | None \<Rightarrow> res_bind (dlist_insert k (Sub dlist_new) list) (\<lambda>list. Inr (Sub dlist_new, list))) = Inr (p, l1)"
      "p = (case m k of None \<Rightarrow> Sub dlist_new | Some p \<Rightarrow> p)" "dl_view l1 (m(k \<mapsto> p)) (Some k)"
    using dl.find_or_insert [OF m(1), of k "Sub dlist_new"] by blast
  obtain sub where sub: "p = Sub sub" "tree_view n sub (\<lambda>ks. M (k # ks))"
  proof (cases "m k")
    case None
    have "tree_view n dlist_new (\<lambda>ks. M (k # ks))" by (rule tree_view_cong [OF tree_view_new]) (use m(3) None in simp)
    then show ?thesis using f(2) None that by simp
  next
    case (Some q)
    then show ?thesis using f(2) m(2) that by fastforce
  qed
  obtain sub' where s: "do_insertion n ks d sub = Inr sub'" "tree_view n sub' ((\<lambda>ks. M (k # ks))(ks \<mapsto> d))"
    using Suc.IH [OF sub(2) k(2)] by blast
  obtain l2 where l2: "set_loc_ptr (Sub sub') l1 = Inr l2" "dl_view l2 ((m(k \<mapsto> p))(k \<mapsto> Sub sub')) (Some k)"
    using dl.change [OF f(3)] by blast
  have e: "(\<lambda>js. (M(keys \<mapsto> d)) (j # js)) = (if j = k then (\<lambda>ks. M (k # ks))(ks \<mapsto> d) else (\<lambda>js. M (j # js)))" for j
    by (auto simp: k(1) fun_eq_iff)
  have "tree_view (Suc n) l2 (M(keys \<mapsto> d))"
    unfolding tree_view.simps e
    by (intro exI conjI, rule l2(2)) (use m(2,3) s(2) k in \<open>auto simp: fun_upd_def\<close>)
  then show ?case using f(1) sub(1) s(1) l2(1) k(1) by simp
qed

lemma find_in_ok:
  assumes "tree_view n list M" and "length keys = Suc n"
  shows "\<exists>list'. find_in n keys list = Inr (M keys, list') \<and> tree_view n list' M"
  using assms
proof (induction n arbitrary: keys list M)
  case 0
  then obtain k where k: "keys = [k]" by (auto simp: length_Suc_conv)
  obtain m c where m: "dl_view list m c" "\<forall>k p. m k = Some p \<longrightarrow> (\<exists>d. p = Data d)"
      "\<forall>k. M [k] = (case m k of Some (Data d) \<Rightarrow> Some d | _ \<Rightarrow> None)" using 0 by auto
  obtain l' c' where l': "find_ptr k list = Inr (m k, l')" "dl_view l' m c'" using dl.find [OF m(1)] by blast
  have "tree_view 0 l' M" unfolding tree_view.simps using l'(2) m(2,3) by blast
  then show ?case using l'(1) k m(2,3) by (cases "m k") force+
next
  case (Suc n)
  then obtain k ks where k: "keys = k # ks" "length ks = Suc n" by (auto simp: length_Suc_conv)
  obtain m c where m: "dl_view list m c" "\<forall>k p. m k = Some p \<longrightarrow> (\<exists>sub. p = Sub sub \<and> tree_view n sub (\<lambda>ks. M (k # ks)))"
      "\<forall>k ks. length ks = Suc n \<longrightarrow> m k = None \<longrightarrow> M (k # ks) = None" using Suc.prems(1) by auto
  obtain l1 c1 where l1: "find_ptr k list = Inr (m k, l1)" "dl_view l1 m c1" "m k \<noteq> None \<longrightarrow> c1 = Some k" using dl.find [OF m(1)] by blast
  show ?case
  proof (cases "m k")
    case None
    have "tree_view (Suc n) l1 M" unfolding tree_view.simps using l1(2) m(2,3) by blast
    then show ?thesis using l1(1) None m(3) k by simp
  next
    case (Some p)
    then obtain sub where sub: "p = Sub sub" "tree_view n sub (\<lambda>ks. M (k # ks))" using m(2) by blast
    obtain sub' where s: "find_in n ks sub = Inr (M (k # ks), sub')" "tree_view n sub' (\<lambda>ks. M (k # ks))"
      using Suc.IH [OF sub(2) k(2)] by blast
    have v: "dl_view l1 m (Some k)" using l1(2,3) Some by simp
    obtain l2 where l2: "set_loc_ptr (Sub sub') l1 = Inr l2" "dl_view l2 (m(k \<mapsto> Sub sub')) (Some k)"
      using dl.change [OF v] by blast
    have "tree_view (Suc n) l2 M"
      unfolding tree_view.simps by (intro exI conjI, rule l2(2)) (use m(2,3) s(2) Some in auto)
    then show ?thesis using l1(1) Some sub(1) s(1) l2(1) k(1) by simp
  qed
qed

subsection \<open>Addresses\<close>

lemma translate_length [simp]: "length (translate_addr n a) = n"
  by (induction n a rule: translate_addr.induct) simp_all

lemma translate_inj:
  "translate_addr n a = translate_addr n b \<Longrightarrow> i < 4 * n \<Longrightarrow> bit a i = bit b i"
proof (induction n arbitrary: a b i)
  case (Suc n)
  have low: "(ucast (a AND 0xf) :: u16) = ucast (b AND 0xf)" and rest: "translate_addr n (drop_bit 4 a) = translate_addr n (drop_bit 4 b)"
    using Suc.prems(1) by simp_all
  show ?case
  proof (cases "i < 4")
    case True
    have m: "(0xf :: u64) = mask 4" by (simp add: mask_eq_exp_minus_1)
    have "bit (ucast (a AND 0xf) :: u16) i = bit (ucast (b AND 0xf) :: u16) i" using low by simp
    then show ?thesis using True by (simp add: m bit_simps)
  next
    case False
    then have "bit (drop_bit 4 a) (i - 4) = bit (drop_bit 4 b) (i - 4)" using Suc.IH [OF rest, of "i - 4"] Suc.prems(2) by simp
    then show ?thesis using False by (simp add: bit_simps)
  qed
qed simp

lemma translate_eq: "translate_addr 16 a = translate_addr 16 b \<longleftrightarrow> a = b"
proof
  assume "translate_addr 16 a = translate_addr 16 b"
  then have "bit a i = bit b i" if "i < 64" for i using translate_inj [of 16 a b i] that by simp
  then show "a = b" by (intro bit_word_eqI) simp
qed simp

subsection \<open>The memory as an array\<close>

definition memory_is :: "range option list \<Rightarrow> (u64 \<Rightarrow> 32 word) \<Rightarrow> sjm_memory \<Rightarrow> bool" where
  "memory_is rs A m \<longleftrightarrow> mem_range m = rs \<and> lt_depth (mem_storage m) = 15 \<and>
    (\<exists>M. tree_view 15 (lt_top (mem_storage m)) M \<and> (\<forall>a. A a = (case M (translate_addr 16 a) of None \<Rightarrow> 0 | Some d \<Rightarrow> d)))"

lemma write_ok:
  assumes "memory_is rs A m"
  shows "\<exists>m'. memory_write a d m = Inr (in_range a m, m') \<and> memory_is rs (if in_range a m then A(a := d) else A) m'"
proof (cases "in_range a m")
  case True
  obtain M where M: "mem_range m = rs" "lt_depth (mem_storage m) = 15" "tree_view 15 (lt_top (mem_storage m)) M"
      "\<And>a. A a = (case M (translate_addr 16 a) of None \<Rightarrow> 0 | Some d \<Rightarrow> d)" using assms by (auto simp: memory_is_def)
  obtain top where t: "do_insertion 15 (translate_addr 16 a) d (lt_top (mem_storage m)) = Inr top"
      "tree_view 15 top (M(translate_addr 16 a \<mapsto> d))"
    using insertion_ok [OF M(3), of "translate_addr 16 a" d] by auto
  have "memory_is rs (A(a := d)) (m\<lparr>mem_storage := List_tree top 15\<rparr>)"
    unfolding memory_is_def using M(1,4) t(2) by (auto simp: translate_eq intro!: exI [of _ "M(translate_addr 16 a \<mapsto> d)"])
  then show ?thesis using True t(1) M(2) by (simp add: memory_write_def tree_insert_def)
qed (use assms in \<open>simp add: memory_write_def\<close>)

lemma read_ok:
  assumes "memory_is rs A m"
  shows "\<exists>m'. memory_read a m = Inr (if in_range a m then A a else 0, m') \<and> memory_is rs A m'"
proof (cases "in_range a m")
  case True
  obtain M where M: "mem_range m = rs" "lt_depth (mem_storage m) = 15" "tree_view 15 (lt_top (mem_storage m)) M"
      "\<And>a. A a = (case M (translate_addr 16 a) of None \<Rightarrow> 0 | Some d \<Rightarrow> d)" using assms by (auto simp: memory_is_def)
  obtain top where t: "find_in 15 (translate_addr 16 a) (lt_top (mem_storage m)) = Inr (M (translate_addr 16 a), top)" "tree_view 15 top M"
    using find_in_ok [OF M(3), of "translate_addr 16 a"] by auto
  have "memory_is rs A (m\<lparr>mem_storage := List_tree top 15\<rparr>)" unfolding memory_is_def using M(1,4) t(2) by auto
  then show ?thesis using True t(1) M(2,4) by (simp add: memory_read_def tree_find_def)
qed (use assms in \<open>simp add: memory_read_def\<close>)

lemma new_is: "memory_is (replicate num None) (\<lambda>_. 0) (memory_new num)"
  using tree_view_new [of 15] by (auto simp: memory_is_def memory_new_def list_tree_new_def)

definition ranges_of :: "nat \<Rightarrow> range list \<Rightarrow> range option list" where
  "ranges_of num rs = map Some rs @ replicate (num - length rs) None"

lemma first_free_is: "first_free i (map Some rs @ replicate n None) = (if n = 0 then None else Some (i + length rs))"
  by (induction rs arbitrary: i) (cases n, simp_all)

lemma ranges_update: "length rs < num \<Longrightarrow> (ranges_of num rs)[length rs := Some r] = ranges_of num (rs @ [r])"
  by (cases "num - length rs") (auto simp: ranges_of_def list_update_append split: nat.splits)

lemma new_range_is:
  assumes "memory_is (ranges_of num rs) A m" and "length rs \<le> num"
  shows "fst (new_range low high m) = (length rs < num) \<and>
    memory_is (ranges_of num (if length rs < num then rs @ [(low, high)] else rs)) A (snd (new_range low high m))"
proof -
  have "first_free 0 (mem_range m) = (if length rs < num then Some (length rs) else None)"
    using assms by (simp add: memory_is_def ranges_of_def first_free_is)
  then show ?thesis using assms ranges_update [of rs num "(low, high)"] by (auto simp: new_range_def memory_is_def)
qed

lemma in_range_is: "memory_is (ranges_of num rs) A m \<Longrightarrow> in_range a m \<longleftrightarrow> (\<exists>r\<in>set rs. range_has r a)"
  by (simp add: in_range_def memory_is_def ranges_of_def list_ex_iff bex_Un ex_simps)

lemma mem_run_is:
  "memory_is (ranges_of num rs) A m \<Longrightarrow> length rs \<le> num \<Longrightarrow> mem_run cs m = Inr (array_run num cs rs A)"
proof (induction cs arbitrary: rs A m)
  case (Cons c cs)
  show ?case
  proof (cases c)
    case (New_range low high)
    obtain ok m' where n: "new_range low high m = (ok, m')" by fastforce
    have "ok = (length rs < num)" "memory_is (ranges_of num (if length rs < num then rs @ [(low, high)] else rs)) A m'"
      using new_range_is [OF Cons.prems, of low high] n by simp_all
    then show ?thesis using Cons.IH [of "if length rs < num then rs @ [(low, high)] else rs" A m'] Cons.prems(2) n New_range
      by (auto split: if_splits)
  next
    case (Write_mem a d)
    obtain m' where w: "memory_write a d m = Inr (in_range a m, m')"
        "memory_is (ranges_of num rs) (if in_range a m then A(a := d) else A) m'" using write_ok [OF Cons.prems(1)] by blast
    then show ?thesis using Cons.IH [OF w(2) Cons.prems(2)] Write_mem by (simp add: in_range_is [OF Cons.prems(1)])
  next
    case (Read_mem a)
    obtain m' where w: "memory_read a m = Inr (if in_range a m then A a else 0, m')" "memory_is (ranges_of num rs) A m'"
      using read_ok [OF Cons.prems(1)] by blast
    then show ?thesis using Cons.IH [OF w(2) Cons.prems(2)] Read_mem by (simp add: in_range_is [OF Cons.prems(1)])
  qed
qed simp

lemma new_run: "mem_run cs (memory_new num) = Inr (array_run num cs [] (\<lambda>_. 0))"
  using mem_run_is [of num "[]"] new_is [of num] by (simp add: ranges_of_def)

text \<open>
  Removing an entry removes the lists on its way, with all the other entries in them: after the removal
  of one of two entries with the same first key the other one is gone.
\<close>

lemma tree_remove_loses:
  "res_bind (tree_insert [0, 1] (7 :: nat) (list_tree_new 2)) (\<lambda>t.
   res_bind (tree_insert [0, 2] 8 t) (\<lambda>t.
   res_bind (tree_remove [0, 1] t) (\<lambda>(r, t).
   res_bind (tree_find [0, 2] t) (\<lambda>(p, t). Inr (r, p, tree_empty t))))) = Inr (True, None, True)"
  by code_simp

end
