(* ===== verification/Sjm_Cache.thy ===== *)
theory Sjm_Cache
  imports Cpp_Heap Complex_Main "HOL-Library.Log_Nat"
begin

text \<open>
  Strings of bytes (\<^verbatim>\<open>sjm/c/ByteString.cc\<close>) and the direct-mapped cache of the bus model
  (\<^verbatim>\<open>sjm/c/Cache.cc\<close>). The size of a string of bytes is the length of its list. A \<^verbatim>\<open>char\<close> is an \<open>u8\<close>,
  read with its sign where the code compares. The destructors and \<^verbatim>\<open>dprintf\<close> have no effect on data.
\<close>

type_synonym byte_string = "u8 list"

subsection \<open>Strings of bytes\<close>

definition bytes_new :: "nat \<Rightarrow> byte_string" where
  "bytes_new s = replicate s 0"

definition bytes_part :: "byte_string \<Rightarrow> int \<Rightarrow> int \<Rightarrow> byte_string" where
  "bytes_part bstr start len = map (\<lambda>i. if start \<le> int i \<and> int i < start + len then bstr ! i else 0) [0..<length bstr]"

definition int_at :: "int \<Rightarrow> 'a list \<Rightarrow> 'a res" where
  "int_at i xs = (if i < 0 then Inl Undefined else array_at (nat i) xs)"

definition int_put :: "int \<Rightarrow> 'a \<Rightarrow> 'a list \<Rightarrow> 'a list res" where
  "int_put i x xs = (if i < 0 then Inl Undefined else array_put (nat i) x xs)"

definition add_byte :: "int \<Rightarrow> u8 \<Rightarrow> byte_string \<Rightarrow> (bool \<times> byte_string) res" where
  "add_byte indx d b =
    (if int (length b) \<le> indx then Inr (False, b) else res_bind (int_put indx d b) (\<lambda>b. Inr (True, b)))"

definition add_half_byte :: "int \<Rightarrow> u8 \<Rightarrow> byte_string \<Rightarrow> (bool \<times> byte_string) res" where
  "add_half_byte indx d b =
    (if int (length b) \<le> indx then Inr (False, b)
     else res_bind (int_at indx b) (\<lambda>x. res_bind (int_put indx (push_bit 4 x OR d) b) (\<lambda>b. Inr (True, b))))"

text \<open>The loops of \<^verbatim>\<open>Set\<close>: the highest byte first. Only the first index is checked.\<close>

definition set_int :: "int \<Rightarrow> 32 word \<Rightarrow> byte_string \<Rightarrow> byte_string res" where
  "set_int indx d b =
    (if int (length b) \<le> indx then Inr b
     else res_bind (res_fold (\<lambda>i (b, d). res_bind (int_put (indx + int i) (ucast (drop_bit 24 (d AND 0xff000000)) AND 0xff) b)
       (\<lambda>b. Inr (b, push_bit 8 d))) [0..<4] (b, d)) (\<lambda>(b, _). Inr b))"

definition set_ull :: "int \<Rightarrow> u64 \<Rightarrow> byte_string \<Rightarrow> byte_string res" where
  "set_ull indx d b =
    (if int (length b) \<le> indx then Inr b
     else res_bind (res_fold (\<lambda>i (b, d). res_bind (int_put (indx + int i) (ucast (drop_bit 56 (d AND 0xff00000000000000)) AND 0xff) b)
       (\<lambda>b. Inr (b, push_bit 8 d))) [0..<8] (b, d)) (\<lambda>(b, _). Inr b))"

definition get_byte :: "int \<Rightarrow> byte_string \<Rightarrow> u8 option res" where
  "get_byte indx b = (if int (length b) \<le> indx then Inr None else res_bind (int_at indx b) (\<lambda>x. Inr (Some x)))"

definition get_int :: "int \<Rightarrow> byte_string \<Rightarrow> 32 word res" where
  "get_int start b =
    (if int (length b) \<le> start then Inr 0
     else res_fold (\<lambda>i out. let out = push_bit 8 out
       in if start + int i < int (length b) then res_bind (int_at (start + int i) b) (\<lambda>x. Inr (out OR (scast x AND 0xff)))
          else Inr out) [0..<4] 0)"

definition get_ull :: "int \<Rightarrow> byte_string \<Rightarrow> u64 res" where
  "get_ull start b =
    (if int (length b) \<le> start then Inr 0
     else res_fold (\<lambda>i out. let out = push_bit 8 out
       in if start + int i < int (length b) then res_bind (int_at (start + int i) b) (\<lambda>x. Inr (out OR (scast x AND 0xff)))
          else Inr out) [0..<8] 0)"

definition copy_all :: "byte_string \<Rightarrow> byte_string \<Rightarrow> byte_string" where
  "copy_all bstr b = take (length b) bstr @ drop (length bstr) b"

text \<open>The other copies run over indices and stop at the end of either string.\<close>

function copy_loop :: "int \<Rightarrow> int \<Rightarrow> int \<Rightarrow> int \<Rightarrow> byte_string \<Rightarrow> byte_string \<Rightarrow> byte_string res" where
  "copy_loop i j i_end j_end bstr b =
    (if i < i_end \<and> j < j_end \<and> i < int (length b) \<and> j < int (length bstr) then
       res_bind (int_at j bstr) (\<lambda>x. res_bind (int_put i x b) (\<lambda>b. copy_loop (i + 1) (j + 1) i_end j_end bstr b))
     else Inr b)"
  by pat_completeness auto
termination by (relation "measure (\<lambda>(i, j, i_end, j_end, bstr, b). nat (i_end - i))") auto

declare copy_loop.simps [simp del]

definition copy_part :: "int \<Rightarrow> int \<Rightarrow> byte_string \<Rightarrow> byte_string \<Rightarrow> byte_string res" where
  "copy_part start len bstr b = copy_loop start start (start + len) (start + len) bstr b"

definition copy_from :: "int \<Rightarrow> int \<Rightarrow> int \<Rightarrow> byte_string \<Rightarrow> byte_string \<Rightarrow> byte_string res" where
  "copy_from start0 start1 len bstr b = copy_loop start0 start1 (start0 + len) (start1 + len) bstr b"

definition copy_value :: "int \<Rightarrow> int \<Rightarrow> int \<Rightarrow> u8 \<Rightarrow> byte_string \<Rightarrow> byte_string res" where
  "copy_value start0 start1 len value b =
    (if start0 < 0 \<and> start0 < min (start0 + len) (int (length b)) then Inl Undefined
     else Inr (map (\<lambda>i. if start0 \<le> int i \<and> int i < start0 + len then value else b ! i) [0..<length b]))"

definition compare_bytes :: "byte_string \<Rightarrow> byte_string \<Rightarrow> int res" where
  "compare_bytes bstr b =
    (let nstr = copy_all bstr (bytes_new (length b))
     in res_bind (array_at 0 nstr) (\<lambda>n0. res_bind (array_at 0 b) (\<lambda>b0.
        if sint b0 < 0 \<and> 0 \<le> sint n0 then Inr (- 1)
        else if 0 \<le> sint b0 \<and> sint n0 < 0 then Inr 1
        else Inr (case List.find (\<lambda>(x, y). x \<noteq> y) (zip b nstr) of
            None \<Rightarrow> 0 | Some (x, y) \<Rightarrow> if sint x < sint y then - 1 else 1))))"

definition compare_num :: "nat \<Rightarrow> byte_string \<Rightarrow> byte_string \<Rightarrow> int res" where
  "compare_num num bstr b = compare_bytes bstr (copy_all b (bytes_new num))"

definition compare_part :: "int \<Rightarrow> int \<Rightarrow> byte_string \<Rightarrow> byte_string \<Rightarrow> bool res" where
  "compare_part start len bstr b =
    (if int (length b) \<le> start \<or> int (length bstr) \<le> start \<or> int (length b) < start + len \<or> int (length bstr) < start + len
     then Inr False
     else if 0 < len \<and> start < 0 then Inl Undefined
     else Inr (list_all (\<lambda>i. b ! i = bstr ! i) [nat start..<nat (start + len)]))"

definition clear_bytes :: "byte_string \<Rightarrow> byte_string" where
  "clear_bytes b = map (\<lambda>_. 0) b"

subsection \<open>Cache lines\<close>

definition CSTATE_M :: u8 where "CSTATE_M = 0x7"
definition CSTATE_O :: u8 where "CSTATE_O = 0x5"
definition CSTATE_E :: u8 where "CSTATE_E = 0x3"
definition CSTATE_S :: u8 where "CSTATE_S = 0x1"
definition CSTATE_I :: u8 where "CSTATE_I = 0x0"

record cache_line =
  cl_tag :: u64
  cl_data :: byte_string
  cl_state :: u8

definition line_new :: "nat \<Rightarrow> cache_line" where
  "line_new w = \<lparr>cl_tag = - 1, cl_data = bytes_new w, cl_state = CSTATE_I\<rparr>"

definition change_line :: "u8 \<Rightarrow> cache_line \<Rightarrow> bool \<times> cache_line" where
  "change_line nstate l =
    (if nstate \<noteq> cl_state l \<and> cl_state l = CSTATE_M \<and> (nstate = CSTATE_E \<or> nstate = CSTATE_S) \<or>
        cl_state l = CSTATE_O \<and> (nstate = CSTATE_E \<or> nstate = CSTATE_S) \<or>
        cl_state l = CSTATE_E \<and> nstate = CSTATE_O \<or>
        cl_state l = CSTATE_S \<and> (nstate = CSTATE_O \<or> nstate = CSTATE_E) \<or>
        cl_state l = CSTATE_I \<and> nstate = CSTATE_O
     then (False, l) else (True, l\<lparr>cl_state := nstate\<rparr>))"

subsection \<open>The cache\<close>

definition DEFAULT_CACHE_SIZE :: nat where "DEFAULT_CACHE_SIZE = 4096"
definition DEFAULT_CACHE_LINE_SIZE :: nat where "DEFAULT_CACHE_LINE_SIZE = 64"
definition DEFAULT_WORD_SIZE :: int where "DEFAULT_WORD_SIZE = 4"

record cache =
  ch_linewidth :: nat
  ch_numsets :: nat
  ch_offsetmask :: u64
  ch_indexmask :: u64
  ch_tagmask :: u64
  ch_indexshift :: nat
  ch_tagshift :: nat
  ch_table :: "cache_line list"

text \<open>\<^verbatim>\<open>log10((double)n) / 0.301\<close>, cut to an integer; the rounding of \<^verbatim>\<open>double\<close> is not modelled.\<close>

definition num_bits :: "nat \<Rightarrow> nat" where
  "num_bits n = nat \<lfloor>log 10 (real n) / 0.301\<rfloor>"

definition ones :: "nat \<Rightarrow> u64" where
  "ones n = foldl (\<lambda>m _. push_bit 1 m OR 1) 0 [0..<n]"

text \<open>Without a line the logarithm is not finite, and its conversion undefined.\<close>

definition init_cache :: "nat \<Rightarrow> nat \<Rightarrow> nat \<Rightarrow> cache res" where
  "init_cache linewidth numlines numsets =
    (if numlines = 0 then Inl Undefined
     else let indexshift = num_bits linewidth; nlnumbits = num_bits numlines;
              offsetmask = ones indexshift; indexmask = push_bit indexshift (ones nlnumbits)
       in Inr \<lparr>ch_linewidth = linewidth, ch_numsets = numsets, ch_offsetmask = offsetmask, ch_indexmask = indexmask,
           ch_tagmask = NOT (indexmask XOR offsetmask), ch_indexshift = indexshift, ch_tagshift = indexshift + nlnumbits,
           ch_table = replicate numlines (line_new linewidth)\<rparr>)"

definition cache_new :: "cache res" where
  "cache_new = init_cache DEFAULT_CACHE_LINE_SIZE (DEFAULT_CACHE_SIZE div DEFAULT_CACHE_LINE_SIZE) 1"

definition cache_of_size :: "nat \<Rightarrow> cache res" where
  "cache_of_size sz = init_cache DEFAULT_CACHE_LINE_SIZE (sz div DEFAULT_CACHE_LINE_SIZE) 1"

definition cache_of_sets :: "nat \<Rightarrow> nat \<Rightarrow> cache res" where
  "cache_of_sets sz sets =
    (if sets = 0 then Inl Undefined else init_cache DEFAULT_CACHE_LINE_SIZE (sz div (sets * DEFAULT_CACHE_LINE_SIZE)) sets)"

definition offset_bits :: "cache \<Rightarrow> u64 \<Rightarrow> u64" where
  "offset_bits c ad = ad AND ch_offsetmask c"

definition index_bits :: "cache \<Rightarrow> u64 \<Rightarrow> u64" where
  "index_bits c ad = drop_bit (ch_indexshift c) (ad AND ch_indexmask c)"

definition tag_bits :: "cache \<Rightarrow> u64 \<Rightarrow> u64" where
  "tag_bits c ad = drop_bit (ch_tagshift c) (ad AND ch_tagmask c)"

definition line_at :: "u64 \<Rightarrow> cache \<Rightarrow> cache_line res" where
  "line_at ad c = array_at (unat (index_bits c ad)) (ch_table c)"

definition store_line :: "u64 \<Rightarrow> cache_line \<Rightarrow> cache \<Rightarrow> cache" where
  "store_line ad l c = c\<lparr>ch_table := (ch_table c)[unat (index_bits c ad) := l]\<rparr>"

definition state_string :: "u8 \<Rightarrow> char option" where
  "state_string c =
    (if c = CSTATE_M then Some (CHR ''M'') else if c = CSTATE_O then Some (CHR ''O'') else if c = CSTATE_E then Some (CHR ''E'')
     else if c = CSTATE_S then Some (CHR ''S'') else if c = CSTATE_I then Some (CHR ''I'') else None)"

definition cache_clear :: "cache \<Rightarrow> cache" where
  "cache_clear c = c\<lparr>ch_table := map (\<lambda>l. snd (change_line CSTATE_I l)) (ch_table c)\<rparr>"

definition write_line :: "u64 \<Rightarrow> byte_string \<Rightarrow> u8 \<Rightarrow> cache \<Rightarrow> (bool \<times> cache) res" where
  "write_line ad datain stin c =
    res_bind (line_at ad c) (\<lambda>l.
    let (ok, l) = change_line stin (l\<lparr>cl_tag := tag_bits c ad, cl_data := copy_all datain (cl_data l)\<rparr>)
    in Inr (ok, store_line ad l c))"

definition write_word :: "u64 \<Rightarrow> byte_string \<Rightarrow> u8 \<Rightarrow> cache \<Rightarrow> cache res" where
  "write_word ad datain stin c =
    res_bind (line_at ad c) (\<lambda>l.
    res_bind (copy_part (uint (offset_bits c ad)) DEFAULT_WORD_SIZE datain (cl_data l)) (\<lambda>d.
    Inr (store_line ad (snd (change_line stin (l\<lparr>cl_tag := tag_bits c ad, cl_data := d\<rparr>))) c)))"

definition read_line_of :: "u64 \<Rightarrow> cache \<Rightarrow> byte_string option res" where
  "read_line_of ad c = res_bind (line_at ad c) (\<lambda>l. Inr (if cl_state l = CSTATE_I then None else Some (cl_data l)))"

definition get_address :: "u64 \<Rightarrow> cache \<Rightarrow> u64 res" where
  "get_address ad c =
    res_bind (line_at ad c) (\<lambda>l. Inr (push_bit (ch_indexshift c) (index_bits c ad) OR push_bit (ch_tagshift c) (cl_tag l)))"

definition get_tag :: "u64 \<Rightarrow> cache \<Rightarrow> u64 res" where
  "get_tag ad c = res_bind (line_at ad c) (\<lambda>l. Inr (cl_tag l))"

definition get_state :: "u64 \<Rightarrow> cache \<Rightarrow> u8 res" where
  "get_state ad c = res_bind (line_at ad c) (\<lambda>l. Inr (cl_state l))"

definition change_state :: "u64 \<Rightarrow> u8 \<Rightarrow> cache \<Rightarrow> (bool \<times> cache) res" where
  "change_state ad stin c =
    res_bind (line_at ad c) (\<lambda>l. let (ok, l) = change_line stin l in Inr (ok, store_line ad l c))"

definition cache_contains :: "u64 \<Rightarrow> cache \<Rightarrow> bool res" where
  "cache_contains ad c = res_bind (line_at ad c) (\<lambda>l. Inr (cl_tag l = tag_bits c ad))"

subsection \<open>Sequences of calls\<close>

datatype cache_op = Clear_cache | Write_line u64 byte_string u8 | Write_word u64 byte_string u8 | Change_state u64 u8

fun cache_step :: "cache_op \<Rightarrow> cache \<Rightarrow> cache res" where
  "cache_step Clear_cache c = Inr (cache_clear c)"
| "cache_step (Write_line ad d st) c = res_bind (write_line ad d st c) (\<lambda>(_, c). Inr c)"
| "cache_step (Write_word ad d st) c = write_word ad d st c"
| "cache_step (Change_state ad st) c = res_bind (change_state ad st c) (\<lambda>(_, c). Inr c)"

definition refused :: "(u8 \<times> u8) list" where
  "refused = [(CSTATE_M, CSTATE_E), (CSTATE_M, CSTATE_S), (CSTATE_O, CSTATE_E), (CSTATE_O, CSTATE_S), (CSTATE_E, CSTATE_O),
    (CSTATE_S, CSTATE_O), (CSTATE_S, CSTATE_E), (CSTATE_I, CSTATE_O)]"

end
