(* ===== verification/Sjm_Cache_Refine.thy ===== *)
theory Sjm_Cache_Refine
  imports Sjm_Cache
begin

text \<open>
  The masks of a cache with \<open>2 ^ k\<close> lines cut an address in offset, index and tag, and every call keeps
  the shape of the cache. Then a line written is the line read.
\<close>

subsection \<open>The masks\<close>

lemma log_two: "(301 / 1000 :: real) \<le> log 10 2" "log 10 2 < (302 / 1000 :: real)"
proof -
  have "(10 :: real) ^ 301 \<le> 2 ^ 1000" by simp
  then have "log 10 ((10 :: real) ^ 301) \<le> log 10 (2 ^ 1000)" by (intro log_le_cancel_iff [THEN iffD2]) simp_all
  then show "(301 / 1000 :: real) \<le> log 10 2" by (simp add: log_nat_power del: power_numeral)
  have "(2 :: real) ^ 500 < 10 ^ 151" by simp
  then have "log 10 ((2 :: real) ^ 500) < log 10 (10 ^ 151)" by (intro log_less_cancel_iff [THEN iffD2]) simp_all
  then show "log 10 2 < (302 / 1000 :: real)" by (simp add: log_nat_power del: power_numeral)
qed

lemma num_bits_power: "k \<le> 64 \<Longrightarrow> num_bits (2 ^ k) = k"
proof -
  assume k: "k \<le> 64"
  have "log 10 (real (2 ^ k)) = real k * log 10 2" by (simp add: log_nat_power)
  moreover have "real k * (301 / 1000) \<le> real k * log 10 2" using log_two(1) by (intro mult_left_mono) simp_all
  moreover have "real k * log 10 2 \<le> real k * (302 / 1000)" using log_two(2) by (intro mult_left_mono) simp_all
  moreover have "real k \<le> 64" using k by simp
  ultimately have "\<lfloor>log 10 (real (2 ^ k)) / 0.301\<rfloor> = int k" by (simp add: floor_eq_iff field_simps)
  then show ?thesis by (simp add: num_bits_def)
qed

lemma ones_mask: "ones n = mask n"
  by (induction n) (simp_all add: ones_def mask_Suc_double or.commute mult.commute)

lemma index_mask: "drop_bit 6 (ad AND push_bit 6 (mask k)) = take_bit k (drop_bit 6 (ad :: u64))"
  by (rule bit_eqI) (auto simp: bit_simps dest: bit_imp_le_length)

lemma tag_mask: "NOT (push_bit 6 (mask k) XOR mask 6) = (NOT (mask (6 + k)) :: u64)"
  by (rule bit_eqI) (auto simp: bit_simps)

lemma tag_shift: "drop_bit n (ad AND NOT (mask n)) = drop_bit n (ad :: u64)"
  by (rule bit_eqI) (auto simp: bit_simps dest: bit_imp_le_length)

lemma line_address: "push_bit 6 (take_bit k (drop_bit 6 ad)) OR push_bit (6 + k) (drop_bit (6 + k) ad) = (ad :: u64) AND NOT (mask 6)"
proof (rule bit_eqI)
  fix n
  show "bit (push_bit 6 (take_bit k (drop_bit 6 ad)) OR push_bit (6 + k) (drop_bit (6 + k) ad)) n = bit (ad AND NOT (mask 6)) n"
    by (cases "n < 6 + k") (auto simp: bit_simps)
qed

lemma index_less: "unat (take_bit k (w :: u64)) < 2 ^ k"
  by (simp add: unsigned_take_bit_eq take_bit_nat_less_exp)

subsection \<open>The shape of the cache\<close>

definition shape :: "nat \<Rightarrow> cache \<Rightarrow> bool" where
  "shape k c \<longleftrightarrow> ch_offsetmask c = mask 6 \<and> ch_indexmask c = push_bit 6 (mask k) \<and> ch_tagmask c = NOT (mask (6 + k)) \<and>
    ch_indexshift c = 6 \<and> ch_tagshift c = 6 + k \<and> length (ch_table c) = 2 ^ k \<and> (\<forall>l\<in>set (ch_table c). length (cl_data l) = 64)"

lemma new_shape: "k \<le> 58 \<Longrightarrow> \<exists>c. cache_of_size (2 ^ (6 + k)) = Inr c \<and> shape k c"
  using num_bits_power [of 6] num_bits_power [of k] tag_mask [of k]
  by (simp add: cache_of_size_def init_cache_def shape_def DEFAULT_CACHE_LINE_SIZE_def power_add ones_mask line_new_def
      bytes_new_def Let_def)

definition index_of :: "nat \<Rightarrow> u64 \<Rightarrow> nat" where
  "index_of k ad = unat (take_bit k (drop_bit 6 ad))"

lemma shape_index: "shape k c \<Longrightarrow> unat (index_bits c ad) = index_of k ad"
  by (simp add: shape_def index_bits_def index_mask index_of_def del: drop_bit_and)

lemma shape_tag: "shape k c \<Longrightarrow> tag_bits c ad = drop_bit (6 + k) ad"
  by (simp add: shape_def tag_bits_def tag_shift del: drop_bit_and)

lemma shape_line: "shape k c \<Longrightarrow> line_at ad c = Inr (ch_table c ! index_of k ad)"
  using index_less [of k "drop_bit 6 ad"] by (simp add: line_at_def shape_index array_at_def) (simp add: shape_def index_of_def)

lemma shape_in: "shape k c \<Longrightarrow> ch_table c ! index_of k ad \<in> set (ch_table c)"
  using index_less [of k "drop_bit 6 ad"] by (intro nth_mem) (simp add: shape_def index_of_def)

lemma shape_put: "shape k c \<Longrightarrow> length (cl_data l) = 64 \<Longrightarrow> shape k (store_line ad l c)"
  by (auto simp: shape_def store_line_def dest!: set_update_subset_insert [THEN subsetD])

lemma shape_put_line:
  assumes "shape k c" and "length (cl_data l) = 64"
  shows "line_at b (store_line ad l c) = Inr (if index_of k b = index_of k ad then l else ch_table c ! index_of k b)"
proof -
  have "length (ch_table c) = 2 ^ k" using assms(1) by (simp add: shape_def)
  then show ?thesis using shape_line [OF shape_put [OF assms], of b ad] shape_index [OF assms(1)] index_less [of k "drop_bit 6 ad"]
    by (auto simp: store_line_def index_of_def)
qed

lemma change_data [simp]: "cl_data (snd (change_line st l)) = cl_data l" "cl_tag (snd (change_line st l)) = cl_tag l"
  by (simp_all add: change_line_def)

lemma change_refused: "change_line st l = ((cl_state l, st) \<notin> set refused, if (cl_state l, st) \<in> set refused then l else l\<lparr>cl_state := st\<rparr>)"
  by (simp add: change_line_def refused_def CSTATE_M_def CSTATE_O_def CSTATE_E_def CSTATE_S_def CSTATE_I_def)

lemma copy_loop_ok: "0 \<le> i \<Longrightarrow> 0 \<le> j \<Longrightarrow> \<exists>b'. copy_loop i j i_end j_end bstr b = Inr b' \<and> length b' = length b"
proof (induction i j i_end j_end bstr b rule: copy_loop.induct)
  case (1 i j i_end j_end bstr b)
  show ?case
  proof (cases "i < i_end \<and> j < j_end \<and> i < int (length b) \<and> j < int (length bstr)")
    case True
    have "int_at j bstr = Inr (bstr ! nat j)" "int_put i (bstr ! nat j) b = Inr (b[nat i := bstr ! nat j])"
      using True "1.prems" by (simp_all add: int_at_def int_put_def array_at_def array_put_def nat_less_iff)
    moreover have "\<exists>b'. copy_loop (i + 1) (j + 1) i_end j_end bstr (b[nat i := bstr ! nat j]) = Inr b' \<and>
        length b' = length (b[nat i := bstr ! nat j])"
      by (rule "1.IH") (use True "1.prems" in simp_all)
    ultimately show ?thesis using True by (simp add: copy_loop.simps [of i])
  next
    case False
    then show ?thesis by (subst copy_loop.simps) auto
  qed
qed

lemma copy_all_length [simp]: "length (copy_all bstr b) = length b"
  by (simp add: copy_all_def)

lemma copy_all_same: "length bstr = length b \<Longrightarrow> copy_all bstr b = bstr"
  by (simp add: copy_all_def)

lemma step_shape: "shape k c \<Longrightarrow> \<exists>c'. cache_step e c = Inr c' \<and> shape k c'"
proof (cases e)
  case Clear_cache
  assume "shape k c"
  then show ?thesis using Clear_cache by (simp add: cache_clear_def shape_def)
next
  case (Write_line ad d st)
  assume c: "shape k c"
  then have "length (cl_data (ch_table c ! index_of k ad)) = 64" using shape_in [OF c, of ad] by (simp add: shape_def)
  then show ?thesis using Write_line c
    by (auto simp: write_line_def shape_line change_refused intro!: shape_put)
next
  case (Write_word ad d st)
  assume c: "shape k c"
  let ?l = "ch_table c ! index_of k ad"
  have l: "length (cl_data ?l) = 64" using c shape_in [OF c, of ad] by (simp add: shape_def)
  obtain b where "copy_part (uint (offset_bits c ad)) DEFAULT_WORD_SIZE d (cl_data ?l) = Inr b" "length b = length (cl_data ?l)"
    unfolding copy_part_def using copy_loop_ok [of "uint (offset_bits c ad)" "uint (offset_bits c ad)"] by fastforce
  then show ?thesis using Write_word c l by (auto simp: write_word_def shape_line intro!: shape_put)
next
  case (Change_state ad st)
  assume c: "shape k c"
  then have "length (cl_data (ch_table c ! index_of k ad)) = 64" using shape_in [OF c, of ad] by (simp add: shape_def)
  then show ?thesis using Change_state c by (auto simp: change_state_def shape_line change_refused intro!: shape_put)
qed

lemma run_shape: "shape k c \<Longrightarrow> \<exists>c'. res_fold cache_step es c = Inr c' \<and> shape k c'"
proof (induction es arbitrary: c)
  case (Cons e es)
  then show ?case using step_shape [OF Cons.prems, of e] by fastforce
qed simp

subsection \<open>A line written\<close>

lemma write_line_is:
  assumes "shape k c" and "length d = 64"
  shows "write_line ad d st c = Inr ((cl_state (ch_table c ! index_of k ad), st) \<notin> set refused,
    store_line ad \<lparr>cl_tag = drop_bit (6 + k) ad, cl_data = d,
      cl_state = if (cl_state (ch_table c ! index_of k ad), st) \<in> set refused then cl_state (ch_table c ! index_of k ad) else st\<rparr> c)"
proof -
  have "length (cl_data (ch_table c ! index_of k ad)) = 64" using assms(1) shape_in [OF assms(1), of ad] by (simp add: shape_def)
  then show ?thesis using assms
    by (cases "ch_table c ! index_of k ad") (simp add: write_line_def shape_line shape_tag change_refused copy_all_same)
qed

lemma write_line_ok:
  assumes "shape k c" and "length d = 64"
  shows "\<exists>s ok c'. get_state ad c = Inr s \<and> ok = ((s, st) \<notin> set refused) \<and> write_line ad d st c = Inr (ok, c') \<and>
    cache_contains ad c' = Inr True \<and> get_address ad c' = Inr (ad AND NOT (mask 6)) \<and>
    get_state ad c' = Inr (if ok then st else s) \<and>
    read_line_of ad c' = Inr (if (if ok then st else s) = CSTATE_I then None else Some d) \<and>
    (\<forall>b. index_of k b \<noteq> index_of k ad \<longrightarrow> line_at b c' = line_at b c)"
proof -
  define s where "s = cl_state (ch_table c ! index_of k ad)"
  define l where "l = \<lparr>cl_tag = drop_bit (6 + k) ad, cl_data = d, cl_state = if (s, st) \<in> set refused then s else st\<rparr>"
  have l: "length (cl_data l) = 64" using assms(2) by (simp add: l_def)
  define c' where "c' = store_line ad l c"
  have c: "shape k c'" unfolding c'_def using shape_put [OF assms(1) l] .
  then have m: "ch_indexshift c' = 6" "ch_tagshift c' = 6 + k" "index_bits c' ad = take_bit k (drop_bit 6 ad)"
    by (simp_all add: shape_def index_bits_def index_mask del: drop_bit_and)
  have w: "write_line ad d st c = Inr ((s, st) \<notin> set refused, c')"
    using write_line_is [OF assms, of ad st] by (simp add: s_def l_def c'_def)
  have line: "line_at b c' = Inr (if index_of k b = index_of k ad then l else ch_table c ! index_of k b)" for b
    unfolding c'_def using shape_put_line [OF assms(1) l] .
  have at: "line_at ad c' = Inr l" using line [of ad] by simp
  have "get_state ad c = Inr s" by (simp add: get_state_def shape_line [OF assms(1)] s_def)
  moreover have "cache_contains ad c' = Inr True" by (simp add: cache_contains_def at shape_tag [OF c]) (simp add: l_def)
  moreover have "get_address ad c' = Inr (ad AND NOT (mask 6))"
    using line_address [of k ad] by (simp add: get_address_def at m) (simp add: l_def)
  moreover have "get_state ad c' = Inr (if (s, st) \<notin> set refused then st else s)" by (simp add: get_state_def at) (simp add: l_def)
  moreover have "read_line_of ad c' = Inr (if (if (s, st) \<notin> set refused then st else s) = CSTATE_I then None else Some d)"
    by (simp add: read_line_of_def at) (simp add: l_def)
  moreover have "\<forall>b. index_of k b \<noteq> index_of k ad \<longrightarrow> line_at b c' = line_at b c"
    by (simp add: line shape_line [OF assms(1)])
  ultimately show ?thesis using w by blast
qed

subsection \<open>Numbers in strings of bytes\<close>

lemma int_at_is: "0 \<le> i \<Longrightarrow> i < int (length xs) \<Longrightarrow> int_at i xs = Inr (xs ! nat i)"
  by (simp add: int_at_def array_at_def nat_less_iff)

lemma int_put_is: "0 \<le> i \<Longrightarrow> i < int (length xs) \<Longrightarrow> int_put i x xs = Inr (xs[nat i := x])"
  by (simp add: int_put_def array_put_def nat_less_iff)

lemma int_bytes: "push_bit 8 (push_bit 8 (push_bit 8 (push_bit 8 0 OR (scast (ucast (drop_bit 24 (d AND 0xff000000)) AND 0xff :: u8) AND 0xff))
    OR (scast (ucast (drop_bit 24 (push_bit 8 d AND 0xff000000)) AND 0xff :: u8) AND 0xff))
    OR (scast (ucast (drop_bit 24 (push_bit 16 d AND 0xff000000)) AND 0xff :: u8) AND 0xff))
    OR (scast (ucast (drop_bit 24 (push_bit 24 d AND 0xff000000)) AND 0xff :: u8) AND 0xff) = (d :: 32 word)"
proof -
  have m: "(0xff000000 :: 32 word) = push_bit 24 (mask 8)" "(0xff :: 32 word) = mask 8" "(0xff :: u8) = mask 8"
    by (simp_all add: mask_eq_exp_minus_1 push_bit_eq_mult)
  show ?thesis
    unfolding m
  proof (rule bit_eqI, goal_cases)
    case (1 n)
    then have "n < 32" by simp
    then consider "n < 8" | "8 \<le> n" "n < 16" | "16 \<le> n" "n < 24" | "24 \<le> n" "n < 32" by linarith
    then show ?case by cases (simp_all add: bit_simps less_diff_conv2)
  qed
qed

lemma set_get_int:
  assumes "0 \<le> i" and "i + 4 \<le> int (length b)"
  shows "\<exists>b'. set_int i d b = Inr b' \<and> length b' = length b \<and> get_int i b' = Inr d"
proof -
  have four: "[0..<4] = [0, 1, 2, 3 :: nat]" by (simp add: upt_rec)
  show ?thesis using assms int_bytes [of d]
    by (simp add: set_int_def get_int_def four int_at_is int_put_is nth_list_update Let_def nat_add_distrib del: push_bit_of_0)
qed

text \<open>The bytes after the first are compared with their signs: \<^verbatim>\<open>0x0080\<close> is less than \<^verbatim>\<open>0x0001\<close>.\<close>

lemma compare_signed: "compare_bytes [0, 1] [0, 0x80] = Inr (- 1)"
  by code_simp

text \<open>Only the first index is checked: a number that does not fit is written past the end.\<close>

lemma set_int_end: "set_int 6 d (replicate 8 0) = Inl Undefined"
  by (simp add: set_int_def upt_rec int_put_def array_put_def)

end
