(* ===== verification/Prop_Sjm.thy ===== *)
theory Prop_Sjm
  imports Sjm_Bus Sjm_Memory_Refine Sjm_Cache_Refine
begin

text \<open>
  The properties of the bus model (\<^verbatim>\<open>verif/env/iss/pli/sjm/c\<close>) and the data structures it uses.
\<close>

subsection \<open>The arbiter\<close>

text \<open>
  C33: The search for the next holder of the bus implements a round robin: of the ports with a registered
  request it takes the first in descending order, beginning with the port that has the bus now,
  which keeps it when no port requests. No index is out of range and the loops end.
\<close>

theorem arbiter_round_robin:
  assumes "arb_ok a" and "length newreqs = 6" and "arb_grnt_next a = int g"
  shows "\<exists>a'. arbitrate newreqs a = Inr a' \<and> arb_grnt_curr a' = int g \<and>
    arb_grnt_next a' = int (winner (\<lambda>i. arb_reqs_in_next a ! i \<noteq> 0) g)"
  using arbitrate_ok [OF assms] by auto

theorem arbiter_round_robin_witness:
  "\<exists>a a'. arbiter_new 2 = Inr a \<and> arbitrate [0, 0, 1, 0, 1, 0] (a\<lparr>arb_reqs_in_next := [0, 1, 0, 1, 0, 0, 0]\<rparr>) = Inr a' \<and>
    arb_grnt_curr a' = 5 \<and> arb_grnt_next a' = 3"
proof -
  obtain a where a: "arbiter_new 2 = Inr a" "port_ok (replicate 7 (- 1)) 0 0 2 a" using new_port_ok [of 2] by auto
  let ?a = "a\<lparr>arb_reqs_in_next := [0, 1, 0, 1, 0, 0, 0]\<rparr>"
  have g: "arb_grnt_next ?a = int 5" using a(2) by (simp add: port_ok_def below_def)
  then have "arb_ok ?a" using a(2) by (simp add: port_ok_def arb_ok_def)
  moreover have "winner (\<lambda>i. [0, 1, 0, 1, 0, 0, 0 :: u8] ! i \<noteq> 0) 5 = 3" by code_simp
  ultimately show ?thesis using arbiter_round_robin [of ?a "[0, 0, 1, 0, 1, 0]" 5] g a(1) by auto
qed

text \<open>
  C31: Whatever the masters do (cycles, requests, releases, holding the bus, changes of the mode, resets, in
  any order), the arbiters of the seven ports never give the bus to two ports at the same time. No
  call fails.
\<close>

theorem arbiters_exclusive:
  assumes "\<forall>e\<in>set es. event_ok e"
  shows "\<exists>bus0 bus. bus_new = Inr bus0 \<and> res_fold bus_step es bus0 = Inr bus \<and>
    (\<forall>p<7. \<forall>q<7. has_grant (bus ! p) \<and> has_grant (bus ! q) \<longrightarrow> p = q)"
proof -
  obtain bus0 where b0: "bus_new = Inr bus0" "bus_ok (replicate 7 (- 1)) 0 0 bus0" using new_ok by blast
  obtain N g r bus where b: "res_fold bus_step es bus0 = Inr bus" "bus_ok N g r bus"
    using reachable_ok [OF b0(2) assms] by blast
  have "p = g" if "p < 7" "has_grant (bus ! p)" for p
  proof -
    have "g < 7" "arb_grnt_next (bus ! p) = int (below g p)" using b(2) that(1) by (auto simp: bus_ok_def port_ok_def)
    moreover have "arb_grnt_next (bus ! p) = 0" using that(2) by (auto simp: has_grant_def)
    ultimately have "below g (below g p) = g" by simp
    then show ?thesis using below_below [OF \<open>g < 7\<close> that(1)] by simp
  qed
  then show ?thesis using b0(1) b(1) by blast
qed

definition demo_events :: "bus_event list" where
  "demo_events = [Reset_all, Cycle, Cycle, Cycle, Cycle, Deadcycle False, Request 2 0, Request 5 1, Cycle, Cycle, Cycle]"

theorem arbiters_exclusive_witness:
  "\<exists>bus0 bus. bus_new = Inr bus0 \<and> res_fold bus_step demo_events bus0 = Inr bus \<and>
    \<not> (has_grant (bus ! 2) \<and> has_grant (bus ! 5))"
proof -
  have "\<forall>e\<in>set demo_events. event_ok e" by (simp add: demo_events_def)
  from arbiters_exclusive [OF this] obtain bus0 bus where "bus_new = Inr bus0" "res_fold bus_step demo_events bus0 = Inr bus"
      "\<forall>p<7. \<forall>q<7. has_grant (bus ! p) \<and> has_grant (bus ! q) \<longrightarrow> p = q" by blast
  moreover have "(2 :: nat) < 7" "(5 :: nat) < 7" "(2 :: nat) \<noteq> 5" by simp_all
  ultimately show ?thesis by blast
qed

lemma has_grant_is: "bus_is (N, q, q) bus \<Longrightarrow> q < 7 \<Longrightarrow> has_grant (bus ! q)"
  by (auto simp: bus_is_def bus_ok_def port_ok_def has_grant_def below_def)

lemma reachable_is:
  assumes "\<forall>e\<in>set es. event_ok e" and "bus_new = Inr bus0" and "res_fold bus_step es bus0 = Inr bus" and "arb_reset (bus ! 0) = 0"
  shows "\<exists>N g. bus_ok N g 0 bus"
proof -
  have "bus_ok (replicate 7 (- 1)) 0 0 bus0" using new_ok assms(2) by (metis sum.inject(2))
  then obtain N g r where "bus_ok N g r bus" using reachable_ok [OF _ assms(1)] assms(3) by fastforce
  moreover from this have "r = 0" using assms(4) by (auto simp: bus_ok_def port_ok_def)
  ultimately show ?thesis by blast
qed

lemma run_from:
  assumes "bus_ok N g 0 bus" and "\<forall>rs\<in>set rss. length rs = 7" and "rss \<noteq> []"
  shows "\<exists>bus'. bus_run rss bus = Inr bus' \<and> bus_is (last rss, grants (map (\<lambda>x. x \<noteq> 0) N # butlast rss) g,
    grants (butlast (map (\<lambda>x. x \<noteq> 0) N # butlast rss)) g) bus'"
proof -
  obtain rs rss' where rss: "rss = rs # rss'" using assms(3) by (cases rss) auto
  obtain bus1 where b1: "bus_cycle (drive rs bus) = Inr bus1" "bus_is (rs, winner (\<lambda>i. N ! i \<noteq> 0) g, g) bus1"
    using run_step [OF assms(1), of rs] assms(2) rss by auto
  obtain bus' where b: "bus_run rss' bus1 = Inr bus'" "bus_is (fold grant_step rss' (rs, winner (\<lambda>i. N ! i \<noteq> 0) g, g)) bus'"
    using run_refines [OF b1(2), of rss'] assms(2) rss by auto
  have "length N = 7" using assms(1) by (simp add: bus_ok_def)
  then have "winner (\<lambda>i. N ! i \<noteq> 0) g = winner ((!) (map (\<lambda>x. x \<noteq> 0) N)) g" by (intro winner_cong) simp
  then have "fold grant_step rss' (rs, winner (\<lambda>i. N ! i \<noteq> 0) g, g) = fold grant_step rss (map (\<lambda>x. x \<noteq> 0) N, g, 0)"
    by (simp add: rss grant_step_def)
  then show ?thesis using b b1(1) grant_steps [OF assms(3), of "map (\<lambda>x. x \<noteq> 0) N" g 0] by (simp add: rss bus_run_def)
qed

lemma concat_windows: "concat (map (\<lambda>w. map f [w * m..<w * m + m]) [0..<n]) = map f [0..<n * m]"
proof (induction n)
  case (Suc n)
  have "[0..<n * m + m] = [0..<n * m] @ [n * m..<n * m + m]" using upt_add_eq_append [of 0 "n * m" m] by simp
  then show ?case using Suc by (simp add: add.commute)
qed simp

text \<open>
  C32: A port that requests the bus gets it: from every state that the bus can reach outside of a
  reset, when port \<open>q\<close> requests the bus in every cycle and among any \<open>m\<close> cycles in a row there is for
  every other port one in which it does not, \<open>q\<close> has the bus after \<open>6 * m + 2\<close> cycles, in both modes.
\<close>

theorem arbiter_grants:
  assumes "\<forall>e\<in>set es. event_ok e" and "bus_new = Inr bus0" and "res_fold bus_step es bus0 = Inr bus" and "arb_reset (bus ! 0) = 0"
    and "q < 7" and "length rss = 6 * m + 2" and "\<forall>rs\<in>set rss. length rs = 7 \<and> rs ! q"
    and "\<forall>t. t + m \<le> 6 * m \<longrightarrow> (\<forall>p<7. p \<noteq> q \<longrightarrow> (\<exists>i\<in>{t..<t + m}. \<not> rss ! i ! p))"
  shows "\<exists>bus'. bus_run rss bus = Inr bus' \<and> has_grant (bus' ! q)"
proof -
  obtain N g where n: "bus_ok N g 0 bus" using reachable_is [OF assms(1-4)] by blast
  let ?N = "map (\<lambda>x. x \<noteq> 0) N"
  have ne: "rss \<noteq> []" using assms(6) by auto
  obtain bus' where b: "bus_run rss bus = Inr bus'" "bus_is (last rss, grants (?N # butlast rss) g, grants (butlast (?N # butlast rss)) g) bus'"
    using run_from [OF n _ ne] assms(7) by blast
  define W where "W = map (\<lambda>w. map ((!) rss) [w * m..<w * m + m]) [0..<6]"
  define x where "x = rss ! (6 * m)"
  have cW: "concat W = map ((!) rss) [0..<6 * m]"
    unfolding W_def by (rule concat_windows)
  have bl: "butlast rss = concat W @ [x]"
    unfolding cW x_def by (rule nth_equalityI) (use assms(6) in \<open>auto simp: nth_butlast nth_append less_Suc_eq\<close>)
  let ?g = "winner ((!) ?N) g"
  have g: "g < 7" "?g < 7" using n by (simp_all add: bus_ok_def)
  have mem: "R \<in> set rss" if "R \<in> set Rs" "Rs \<in> set W" for R Rs
  proof -
    have "R \<in> set (concat W)" using that by auto
    then show ?thesis using assms(6) unfolding cW by auto
  qed
  have "grants (concat W) ?g = q"
  proof (rule grants_reach [OF g(2) assms(5)])
    show "\<forall>Rs\<in>set W. \<forall>R\<in>set Rs. R ! q" using mem assms(7) by blast
    show "\<forall>Rs\<in>set W. \<forall>p<7. p \<noteq> q \<longrightarrow> (\<exists>R\<in>set Rs. \<not> R ! p)"
    proof (intro ballI allI impI)
      fix Rs p assume "Rs \<in> set W" "p < 7" "p \<noteq> q"
      then obtain w where w: "w < 6" "Rs = map ((!) rss) [w * m..<w * m + m]" by (auto simp: W_def)
      have "w * m + m \<le> 6 * m" using mult_le_mono1 [of "Suc w" 6 m] w(1) by simp
      then obtain i where "i \<in> {w * m..<w * m + m}" "\<not> rss ! i ! p" using assms(8) \<open>p < 7\<close> \<open>p \<noteq> q\<close> by blast
      then show "\<exists>R\<in>set Rs. \<not> R ! p" using w(2) by auto
    qed
    have "length W = 6" by (simp add: W_def)
    then show "below ?g q \<le> length W" using below_less [of ?g q] by linarith
  qed
  moreover have "x ! q" using assms(6,7) by (simp add: x_def)
  ultimately have "grants (?N # butlast rss) g = q" "grants (butlast (?N # butlast rss)) g = q"
    using assms(5) by (simp_all add: bl winner_keeps butlast_append)
  then have "has_grant (bus' ! q)" using has_grant_is [OF _ assms(5)] b(2) by metis
  then show ?thesis using b(1) by blast
qed

definition demo_lines :: "bool list list" where
  "demo_lines = concat (replicate 7 [[True, False, True, True, False, False, True], [False, True, False, True, True, True, False]])"

theorem arbiter_grants_witness:
  "\<exists>bus0 bus. bus_new = Inr bus0 \<and> bus_run demo_lines bus0 = Inr bus \<and> has_grant (bus ! 3)"
proof -
  obtain bus0 where b0: "bus_new = Inr bus0" "bus_ok (replicate 7 (- 1)) 0 0 bus0" using new_ok by blast
  have l: "length demo_lines = 6 * 2 + 2" "\<forall>rs\<in>set demo_lines. length rs = 7 \<and> rs ! 3" by code_simp+
  have two: "\<forall>t\<in>set [0..<11]. \<forall>p\<in>set [0..<7]. p \<noteq> 3 \<longrightarrow> \<not> demo_lines ! t ! p \<or> \<not> demo_lines ! (t + 1) ! p" by code_simp
  have "\<forall>t. t + 2 \<le> 6 * 2 \<longrightarrow> (\<forall>p<7. p \<noteq> 3 \<longrightarrow> (\<exists>i\<in>{t..<t + 2}. \<not> demo_lines ! i ! p))"
  proof (intro allI impI)
    fix t p :: nat assume "t + 2 \<le> 6 * 2" "p < 7" "p \<noteq> 3"
    then have "t \<in> set [0..<11]" "p \<in> set [0..<7]" by simp_all
    then have "\<not> demo_lines ! t ! p \<or> \<not> demo_lines ! (t + 1) ! p" using two \<open>p \<noteq> 3\<close> by blast
    moreover have "t \<in> {t..<t + 2}" "t + 1 \<in> {t..<t + 2}" by simp_all
    ultimately show "\<exists>i\<in>{t..<t + 2}. \<not> demo_lines ! i ! p" by blast
  qed
  then have "\<exists>bus. bus_run demo_lines bus0 = Inr bus \<and> has_grant (bus ! 3)"
    using arbiter_grants [of "[]" bus0 bus0 3 demo_lines 2] b0 l by (simp add: bus_ok_def port_ok_def)
  then show ?thesis using b0(1) by blast
qed

text \<open>
  C40: The port that has the bus does not have the lowest priority, as a comment in \<^verbatim>\<open>Arbitrate\<close> says,
  but the highest: as long as it requests the bus it keeps it, whatever the other ports request.
\<close>

theorem holder_keeps_grant:
  assumes "\<forall>e\<in>set es. event_ok e" and "bus_new = Inr bus0" and "res_fold bus_step es bus0 = Inr bus" and "arb_reset (bus ! 0) = 0"
    and "p < 7" and "arb_grnt_next (bus ! p) = 0" and "arb_reqs_in_next (bus ! p) ! 0 \<noteq> 0"
    and "rss \<noteq> []" and "\<forall>rs\<in>set rss. length rs = 7 \<and> rs ! p"
  shows "\<exists>bus'. bus_run rss bus = Inr bus' \<and> has_grant (bus' ! p)"
proof -
  obtain N g where n: "bus_ok N g 0 bus" using reachable_is [OF assms(1-4)] by blast
  let ?N = "map (\<lambda>x. x \<noteq> 0) N"
  have port: "g < 7" "length N = 7" "port_ok N g 0 p (bus ! p)" using n assms(5) by (auto simp: bus_ok_def)
  then have "below g (below g p) = g" using assms(6) by (simp add: port_ok_def)
  then have gp: "g = p" using below_below [OF port(1) assms(5)] by simp
  have np: "?N ! p" using port(2,3) assms(5,7) by (simp add: port_ok_def upt_conv_Cons)
  obtain bus' where b: "bus_run rss bus = Inr bus'" "bus_is (last rss, grants (?N # butlast rss) g, grants (butlast (?N # butlast rss)) g) bus'"
    using run_from [OF n _ assms(8)] assms(9) by blast
  have all: "\<forall>R\<in>set (?N # butlast rss). R ! g" using np assms(9) gp by (auto dest: in_set_butlastD)
  then have "\<forall>R\<in>set (butlast (?N # butlast rss)). R ! g" using in_set_butlastD by metis
  then have "grants (?N # butlast rss) g = p" "grants (butlast (?N # butlast rss)) g = p"
    using grants_keep [OF port(1) all] grants_keep [OF port(1)] unfolding gp by blast+
  then have "has_grant (bus' ! p)" using has_grant_is [OF _ assms(5)] b(2) by metis
  then show ?thesis using b(1) by blast
qed

theorem holder_keeps_grant_witness:
  "\<exists>bus0 bus. bus_new = Inr bus0 \<and> bus_run (replicate 9 (replicate 7 True)) bus0 = Inr bus \<and> has_grant (bus ! 0)"
proof -
  obtain bus0 where b0: "bus_new = Inr bus0" "bus_ok (replicate 7 (- 1)) 0 0 bus0" using new_ok by blast
  then have "port_ok (replicate 7 (- 1)) 0 0 0 (bus0 ! 0)" by (simp add: bus_ok_def)
  then have "arb_reset (bus0 ! 0) = 0" "arb_grnt_next (bus0 ! 0) = 0" "arb_reqs_in_next (bus0 ! 0) ! 0 \<noteq> 0"
    by (simp_all add: port_ok_def below_def upt_conv_Cons)
  moreover have "\<forall>rs\<in>set (replicate 9 (replicate 7 True)). length rs = 7 \<and> rs ! 0" by code_simp
  ultimately have "\<exists>bus. bus_run (replicate 9 (replicate 7 True)) bus0 = Inr bus \<and> has_grant (bus ! 0)"
    using holder_keeps_grant [of "[]" bus0 bus0 0 "replicate 9 (replicate 7 True)"] b0(1) by simp
  then show ?thesis using b0(1) by blast
qed

subsection \<open>Memory and cache\<close>

text \<open>
  C34: The memory, a tree of ordered lists with a level for each nibble of an address, implements an array:
  every sequence of calls that add ranges of addresses, write and read is answered like an array of
  words that is zero at first, of which only the addresses of the first \<open>num\<close> ranges are seen. No call fails.
\<close>

theorem sjm_memory_refines: "mem_run cs (memory_new num) = Inr (array_run num cs [] (\<lambda>_. 0))"
  by (rule new_run)

text \<open>
  C35: A line written into a cache of \<open>2 ^ k\<close> lines, after any calls, is in the cache at its address, with the data
  written, and no line of another index changes. Only the state may not be the one that was asked for: a
  transition that is refused leaves the old state beside the new address and the new data.
\<close>

theorem cache_line_written:
  assumes "k \<le> 58" and "length d = 64"
  shows "\<exists>c0 c s ok c'. cache_of_size (2 ^ (6 + k)) = Inr c0 \<and> res_fold cache_step es c0 = Inr c \<and>
    get_state ad c = Inr s \<and> ok = ((s, st) \<notin> set refused) \<and> write_line ad d st c = Inr (ok, c') \<and>
    cache_contains ad c' = Inr True \<and> get_address ad c' = Inr (ad AND NOT (mask 6)) \<and>
    get_state ad c' = Inr (if ok then st else s) \<and>
    read_line_of ad c' = Inr (if (if ok then st else s) = CSTATE_I then None else Some d) \<and>
    (\<forall>b. index_of k b \<noteq> index_of k ad \<longrightarrow> line_at b c' = line_at b c)"
proof -
  obtain c0 where c0: "cache_of_size (2 ^ (6 + k)) = Inr c0" "shape k c0" using new_shape [OF assms(1)] by blast
  obtain c where c: "res_fold cache_step es c0 = Inr c" "shape k c" using run_shape [OF c0(2), of es] by blast
  show ?thesis using write_line_ok [OF c(2) assms(2), of ad st] c0(1) c(1) by blast
qed

theorem cache_line_written_witness:
  "\<exists>c0 c ok c'. cache_of_size (2 ^ (6 + 6)) = Inr c0 \<and>
    res_fold cache_step [Write_line 0x1040 (replicate 64 1) CSTATE_M, Clear_cache] c0 = Inr c \<and>
    write_line 0x2040 (replicate 64 2) CSTATE_E c = Inr (ok, c') \<and> get_address 0x2040 c' = Inr (0x2040 AND NOT (mask 6))"
proof -
  have "(6 :: nat) \<le> 58" "length (replicate 64 (2 :: u8)) = 64" by simp_all
  from cache_line_written [OF this, of "[Write_line 0x1040 (replicate 64 1) CSTATE_M, Clear_cache]" "0x2040" CSTATE_E]
  show ?thesis by blast
qed

end
