(* ===== verification/Spec2Isabelle.thy ===== *)
theory Spec2Isabelle
  imports Prop_Run Prop_Tables Prop_Image Prop_Pages Prop_Base Prop_Parser Prop_Split Prop_Mem Prop_Iop Prop_Sys Prop_Sjm
begin

text \<open>
  This development models parts of OpenPiton that are written in C and C++. Three of them work on the
  same file, the memory image \<^verbatim>\<open>mem.image\<close> of a test program:

  \<^item> \<^verbatim>\<open>goldfinger\<close> (\<^verbatim>\<open>src/piton/tools/src/goldfinger\<close>), the tool that reads the description of a
    linked program, places the sections in physical memory, fills the address translation tables
    (TSBs, translation storage buffers, and TSBCSMs, their variant for coherence domains) and
    writes the image. It also holds \<^verbatim>\<open>split.c\<close>, which splits the source of a diag into sections.
  \<^item> the memory of the simulator interface (\<^verbatim>\<open>src/piton/tools/pli/mem\<close>), which loads the image into
    a sparse model of DRAM with check nibbles and answers the reads and writes of the test bench.
  \<^item> the I/O model of the simulator interface (\<^verbatim>\<open>src/piton/tools/pli/iop\<close>), which loads the image a
    second time into a B-tree of lines of 64 bytes, serves doublewords from it, and plays the boot ROM
    behind the serial interface of the chip.

  The fourth is the bus model of the test bench (\<^verbatim>\<open>src/piton/verif/env/iss/pli/sjm\<close>), of which the arbiter,
  the memory and the cache are modelled with the data structures of \<^verbatim>\<open>common/c\<close> that they use.

  \<^bold>\<open>Conventions.\<close> A C structure is a record with the fields of the source, an enumeration is a
  datatype, an integer has the width of the source (\<open>64 word\<close> for \<^verbatim>\<open>unsigned long long\<close>, and so on;
  an \<^verbatim>\<open>int\<close> that cannot overflow is an \<open>int\<close>). An operation that can fail returns the sum type \<open>res\<close>
  of \<open>Gf_Prelude\<close>: \<open>Inl (Exit c)\<close> for a call of \<^verbatim>\<open>exit\<close> with an error code, \<open>Inl Undefined\<close> where
  the behaviour of C is undefined (a null pointer, a read outside of an array, a shift by too much).
  State is passed explicitly. A pointer to an element of a vector is its index, a chain of pointers
  inside of a link area is a chain of indices, and so aliasing is visible. Output is the list of
  the items that the calls of \<^verbatim>\<open>fprintf\<close> write (\<open>Gf_Image\<close>), which has a meaning as memory contents
  (\<open>load_items\<close>) and as text (\<open>render\<close>).

  \<^bold>\<open>The parts of goldfinger and their theories.\<close>

  \<^item> \<open>Gf_Prelude\<close>, \<open>Gf_Error\<close>: the integer types, the error codes, the result type and its loops;
    \<^verbatim>\<open>gf_error.c\<close> (\<open>log2\<close>, \<open>is_pow2\<close>, \<open>is_aligned\<close>, the size of physical addresses) and the bit range
    macros of \<^verbatim>\<open>gf_types.h\<close>.
  \<^item> \<open>Gf_Vector\<close>: the growable array of \<^verbatim>\<open>vector.c\<close>; calls of element functions are folds.
  \<^item> \<open>Gf_Physmap\<close>: \<^verbatim>\<open>physmap.c\<close>, the regions of physical memory in use and the collision test.
  \<^item> \<open>Gf_Symtab\<close>, \<open>Gf_Linked_Section\<close>: \<^verbatim>\<open>symtab.c\<close>, \<^verbatim>\<open>linked_section.c\<close>.
  \<^item> \<open>Gf_Chain\<close>: facts on linked chains in an array that only grows, as a locale whose two
    interpretations are the two kinds of link areas. \<open>Gf_Tsb_Link\<close> is \<^verbatim>\<open>tsb_link.c\<close>; \<open>Gf_Link_Refine\<close>
    shows that a link area implements one list of pairs per table entry.
  \<^item> \<open>Gf_Tsb\<close>: \<^verbatim>\<open>tsb.c\<close>, the tables with collisions and overflow into link areas; \<open>Gf_Tsb_Refine\<close>
    has their invariant \<open>heap_wf\<close> and shows that a table implements one list (a bucket) per index.
  \<^item> \<open>Gf_Block_Tsb\<close>: \<^verbatim>\<open>block_tsb.c\<close>, how the pages of a block become entries; \<open>Gf_Csm_Pages\<close> collects
    the pages of the TSBCSMs. \<open>Gf_Block\<close>: \<^verbatim>\<open>block.c\<close>, checks, sizes and image of a block;
    \<open>Gf_Block_Image\<close> shows what that image loads, and when it is wrong. \<open>Gf_App\<close>, \<open>Gf_App_Refine\<close>: \<^verbatim>\<open>app.c\<close>.
  \<^item> \<open>Gf_Parser\<close>: the semantic actions of \<^verbatim>\<open>parser.y\<close> as the steps \<open>run_action\<close>; \<open>Gf_Parser_Inv\<close> has the
    invariant of the states they reach in any order, the nesting of the grammar, and
    that in this order every block that is closed points to its linked section. \<open>Gf_Goldfinger\<close>:
    \<^verbatim>\<open>goldfinger.c\<close>, the command line and the run. \<open>Gf_Run\<close>, \<open>Gf_Exact\<close>: the invariants of a run.
  \<^item> \<open>Gf_Tsb_Image\<close>, \<open>Gf_Walk\<close>, \<open>Gf_Reader\<close>: the image of the tables, and a reader of a TSB that follows
    the links in memory as the hardware does; on the image of a run it finds the buckets.
    \<open>Gf_Exact\<close> also has the image of a run as pieces, blocks and tables, each in its own region.
  \<^item> \<open>Gf_Split\<close>, \<open>Gf_Split_Refine\<close>: \<^verbatim>\<open>split.c\<close>, a state machine over the lines of the source, and the
    text it promises for every section.

  \<^bold>\<open>The parts of the memory and their theories.\<close>

  \<^item> \<open>Mem_Avl\<close>: the search tree of \<^verbatim>\<open>utility.h\<close>. It stays sorted whatever its heights say (they are
    wrong, a property shows it), so it implements a map; \<open>Mem_Store\<close> states what the memory needs of
    it as the locale \<open>node_store\<close> and interprets it on the tree (the B-tree and the event tree of the
    I/O model are two more providers).
  \<^item> \<open>Mem_Text\<close>, \<open>Mem_Hex\<close>: the helpers for lines of text that both readers of the image use, and facts
    on printed numbers.
  \<^item> \<open>Mem_Ecc\<close>, \<open>Mem_Gf\<close>, \<open>Mem_Code\<close>: \<^verbatim>\<open>hamming\<close> and \<^verbatim>\<open>addr_parity\<close>; the nibbles as the field with
    sixteen elements; the distance of the code.
  \<^item> \<open>Mem_Way\<close>, \<open>Mem_Way_Inj\<close>: which node and which bank hold an address, in the three variants that
    the loader, the reads and the writes use, with the bank hash.
  \<^item> \<open>Mem_Dram\<close>: the nodes, random contents, ranges of zeros, error injection, single reads and writes
    of \<^verbatim>\<open>mem.c\<close>. \<open>Mem_Load\<close>: the loader \<^verbatim>\<open>build_rdram\<close> over the characters of its line buffer.

  \<^bold>\<open>The parts of the I/O model and their theories.\<close>

  \<^item> \<open>Iop_Btree\<close>: \<^verbatim>\<open>b_ary.c\<close>, nodes with their arrays and all cells of them. \<open>Iop_Btree_Node\<close> relates a
    node to lists of atoms and children, \<open>Iop_Btree_Refine\<close> shows that insertion keeps the tree balanced
    and sorted, \<open>Iop_Btree_Map\<close> that the tree is a map.
  \<^item> \<open>Iop_Lib\<close>: \<^verbatim>\<open>bw_lib.c\<close>, the reader of the image. \<open>Iop_Load\<close> and \<open>Iop_Image\<close> show what it makes of
    an image of whole lines.
  \<^item> \<open>Iop_Main\<close>: the memory of \<^verbatim>\<open>iob_main.cc\<close> with the atom it remembers per thread;
    \<open>Iop_Main_Refine\<close> shows that it implements an array of doublewords.
  \<^item> \<open>Iop_List\<close>: \<^verbatim>\<open>list.cc\<close>, doubly linked lists as nodes in a heap; the locale \<open>fifo\<close> is what the queue
    of replies relies on. \<open>Iop_Avl\<close>: \<^verbatim>\<open>avl.cc\<close>, the tree of injected errors.
  \<^item> \<open>Iop_Sys\<close>: \<^verbatim>\<open>bw_sys.cc\<close> and \<^verbatim>\<open>strclass.cc\<close>, the class \<^verbatim>\<open>bw_sys\<close>: \<open>ssi\<close> takes one bit of a request per
    cycle, \<open>xlation\<close> carries a complete request out on the B-tree, \<open>sso\<close> sends one bit of a reply per
    cycle. \<open>Iop_Sys_Data\<close> has the bits of words and lines, \<open>Iop_Sys_Reply\<close> how a queue of replies drains,
    \<open>Iop_Sys_Refine\<close> the abstract boot ROM (lines of bytes, requests and replies as lists of bits) and
    that \<open>write\<close>, \<open>get_data\<close> and \<open>hit_addr\<close> implement it, \<open>Iop_Sys_Run\<close> a whole request from its start
    bit to the last bit of its reply, \<open>Iop_Sys_Types\<close> the ranges of all values.

  \<^bold>\<open>The parts of the bus model and their theories.\<close>

  \<^item> \<open>Cpp_Heap\<close>: arrays and heaps of nodes, shared with the lists of the I/O model.
  \<^item> \<open>Sjm_Ring\<close>: \<^verbatim>\<open>CircularDoubleLinkedList.cc\<close> and \<^verbatim>\<open>CircularArray.cc\<close>; \<open>Sjm_Ring_Array\<close> has the array with
    a cursor as the locale \<open>cursor_array\<close>, which the circular list provides.
  \<^item> \<open>Sjm_Arbiter\<close>: \<^verbatim>\<open>Arbiter.cc\<close>; \<open>Sjm_Arbiter_Refine\<close> shows that its search is a round robin. \<open>Sjm_Bus\<close> has
    seven arbiters whose request lines are wired to each other, the invariant that they agree, and
    the distance of a waiting port from the holder of the bus, which only falls.
  \<^item> \<open>Sjm_Dlist\<close>: \<^verbatim>\<open>DoubleLinkedList.cc\<close>, ordered lists with the location that searches start from; the
    locale \<open>cursor_map\<close> is what the tree relies on. \<open>Sjm_Memory\<close>: \<^verbatim>\<open>ListTree.cc\<close>, \<^verbatim>\<open>Memory.cc\<close> and \<^verbatim>\<open>Range.h\<close>;
    \<open>Sjm_Memory_Refine\<close> shows that the tree is a map and the memory an array.
  \<^item> \<open>Sjm_Cache\<close>: \<^verbatim>\<open>ByteString.cc\<close> and \<^verbatim>\<open>Cache.cc\<close>; \<open>Sjm_Cache_Refine\<close> has the fields of an address, the shape of
    the cache, which all calls keep, and what a line written leaves. \<^verbatim>\<open>log10((double)n) / 0.301\<close> is taken over the
    real numbers; for a power of two it is the exponent.

  The theories named \<open>Prop_\<close> hold the properties, each with an instance where it has hypotheses;
  \<open>Gf_Demo\<close> is the small description they are run on.

  \<^bold>\<open>What the lemmas show.\<close> The main result is a refinement in steps: chains of nodes implement
  lists, tables with link areas implement buckets, a block adds its pages to buckets, a run adds
  the pages of all blocks, and the image of the run, loaded into memory and read by following the
  links, shows exactly these pages. Beside it: the image of a
  block is its words, unless a stale flag hides its last line; the loaded image of a run holds every block
  and every table whole and nothing else, and no two of them overlap; the reachable states
  of the parser are well formed, and its blocks linked; every error path is a case of an equation, with the
  reads that the report of the error makes. For the memory: the tree
  is a map for every order of insertions, the code detects up to three changed nibbles, addresses do
  not share a place, and a read restores what an injected error changed. For the I/O model: the B-tree
  is a map whose leaves have one depth, and the memory with its remembered atoms answers like an array
  that holds the image; the boot ROM answers requests that come in bit by bit like lines of bytes.
  For the bus model: the arbiters give the bus to one port at a time, and to every port that waits for
  it; the memory is an array; and a line of the cache is read as it was written. Where the code does
  not do what it means to, a property states what it does.

  \<^bold>\<open>Bounds and fuel.\<close> Loops over data are structural or have a termination measure. Some loops
  follow pointers or restart: \<open>chase_chain\<close> in a link area and the walk of \<open>Gf_Walk\<close> have fuel for the number
  of nodes, which is enough in a well formed area (\<open>chase_chain_ends\<close>); the loop of
  \<^verbatim>\<open>check_zero_byte\<close> has the length of its queue, of which every turn takes one element.
  \<^verbatim>\<open>fgets\<close> and the line buffer of the loader have the sizes of the source. A request over the serial
  interface has 97 bits and its longest reply, the start bit included, 66; the properties ask for 70
  quiet cycles behind a request, which is enough for any wait, since a reply waits at most 4 cycles.
  The search of a circular array has a turn of fuel more than it has cells, the one for the next holder
  of the bus a turn for every port; both end before it is used up in a well formed ring. The search of an
  ordered list has two turns more than there are nodes, and visits each node at most once.

  \<^bold>\<open>Not modelled.\<close> Code outside of \<^verbatim>\<open>src/\<close> is a parameter: libelf (the sections and symbols of an
  executable are an argument of the run), the parser and lexer that yacc and lex generate (the
  actions come in any order, or in the order of the grammar where a property says so), the operating system (opening and linking files may succeed or fail),
  the simulator that calls the memory and the I/O model, \<^verbatim>\<open>random\<close> and \<^verbatim>\<open>rand\<close>. \<^verbatim>\<open>b_delete\<close> and
  \<^verbatim>\<open>b_rmFind\<close> of \<^verbatim>\<open>b_ary.c\<close> and \<^verbatim>\<open>remove\<close> of \<^verbatim>\<open>avl.cc\<close> are never called. Left out because they have no effect on data
  are the printers for debugging, usage texts, progress output and the wording of error reports. The
  remaining C++ of the test bench (masters, snoops, buffers, monitors), the perl tools, the Verilog design and the
  assembly diagnostics are listed in the manifest as not modelled.
\<close>

end
